(* ===== verification/Prelude.thy ===== *)
theory Prelude
  imports Main "HOL-Library.Word"
begin

text \<open>
  Shared vocabulary of the development: the C integer types, bounded reads and
  writes of byte arrays with an explicit out-of-bounds flag, big-endian 16-bit
  fields, and the generic list and word lemmas that the component theories use.
\<close>

unbundle bit_operations_syntax

section \<open>C integer types\<close>

type_synonym u8 = "8 word"
type_synonym u16 = "16 word"
type_synonym u32 = "32 word"
type_synonym u64 = "64 word"

text \<open>An address of the 32-bit target; \<open>0\<close> is the null pointer.\<close>

type_synonym addr = u32

text \<open>The alignment of the port (\<open>FreeRTOS/portable/GCC/ARM_CM4F/portmacro.h\<close>).\<close>

definition portBYTE_ALIGNMENT :: u32 where
  "portBYTE_ALIGNMENT = 8"

definition portBYTE_ALIGNMENT_MASK :: u32 where
  "portBYTE_ALIGNMENT_MASK = 7"

named_theorems mem_simps \<open>rules for bounded reads and writes of byte arrays\<close>

section \<open>Byte arrays\<close>

text \<open>
  A C pointer into an array is modelled by the list of the bytes from that location
  to the end of the array. \<open>rdb\<close> reads an element; a read past the end gives 0 and
  is reported by the caller through the fault flag (see \<open>cmem\<close>).
\<close>

definition rdb :: "'a::zero list \<Rightarrow> nat \<Rightarrow> 'a" where
  "rdb xs i = (if i < length xs then xs ! i else 0)"

text \<open>\<open>memcpy\<close> of \<open>xs\<close> to offset \<open>i\<close> of \<open>d\<close>.\<close>

definition blit :: "nat \<Rightarrow> 'a list \<Rightarrow> 'a list \<Rightarrow> 'a list" where
  "blit i xs d = take i d @ xs @ drop (i + length xs) d"

lemma rdb_nth [mem_simps]: "i < length xs \<Longrightarrow> rdb xs i = xs ! i"
  by (simp add: rdb_def)

lemma rdb_Cons_0 [simp]: "rdb (x # xs) 0 = x"
  by (simp add: rdb_def)

lemma rdb_Cons_Suc [simp]: "rdb (x # xs) (Suc i) = rdb xs i"
  by (simp add: rdb_def)

lemma rdb_append1: "i < length xs \<Longrightarrow> rdb (xs @ ys) i = rdb xs i"
  by (simp add: rdb_def nth_append)

lemma rdb_append2: "length xs \<le> i \<Longrightarrow> rdb (xs @ ys) i = rdb ys (i - length xs)"
  by (auto simp: rdb_def nth_append)

lemma rdb_drop: "rdb (drop n xs) i = rdb xs (n + i)"
  by (auto simp: rdb_def)

lemma rdb_take: "i < n \<Longrightarrow> rdb (take n xs) i = rdb xs i"
  by (auto simp: rdb_def)

lemma length_blit [simp]: "i + length xs \<le> length d \<Longrightarrow> length (blit i xs d) = length d"
  by (simp add: blit_def)

lemma blit_Nil [simp]: "blit i [] d = d"
  by (simp add: blit_def)

lemma blit_append:
  "i \<le> length d \<Longrightarrow> blit (i + length xs) ys (blit i xs d) = blit i (xs @ ys) d"
  by (simp add: blit_def min_def ac_simps)

lemma blit_single: "i < length d \<Longrightarrow> d[i := v] = blit i [v] d"
  by (simp add: blit_def upd_conv_take_nth_drop)

lemma take_blit: "i + length xs \<le> length d \<Longrightarrow> take (i + length xs) (blit i xs d) = take i d @ xs"
  by (simp add: blit_def)

text \<open>A byte array together with the flag that records an out-of-bounds access.\<close>

type_synonym cmem = "u8 list \<times> bool"

definition m_put :: "nat \<Rightarrow> u8 \<Rightarrow> cmem \<Rightarrow> cmem" where
  "m_put i v m = (case m of (d, f) \<Rightarrow> (d[i := v], f \<or> \<not> i < length d))"

definition m_blit :: "nat \<Rightarrow> u8 list \<Rightarrow> cmem \<Rightarrow> cmem" where
  "m_blit i xs m = (case m of (d, f) \<Rightarrow>
     if i + length xs \<le> length d then (blit i xs d, f) else (d, True))"

definition m_get :: "nat \<Rightarrow> cmem \<Rightarrow> u8" where
  "m_get i m = rdb (fst m) i"

text \<open>A bounds condition on something the code reads at this point.\<close>

definition m_need :: "bool \<Rightarrow> cmem \<Rightarrow> cmem" where
  "m_need b m = (fst m, snd m \<or> \<not> b)"

lemma m_need_ok [mem_simps]: "b \<Longrightarrow> m_need b m = m"
  by (simp add: m_need_def)

lemma m_put_ok [mem_simps]: "i < length d \<Longrightarrow> m_put i v (d, f) = (blit i [v] d, f)"
  by (simp add: m_put_def blit_single)

lemma m_blit_ok [mem_simps]: "i + length xs \<le> length d \<Longrightarrow> m_blit i xs (d, f) = (blit i xs d, f)"
  by (simp add: m_blit_def)

section \<open>Big-endian 16-bit fields\<close>

definition msb16 :: "u16 \<Rightarrow> u8" where
  "msb16 w = ucast (drop_bit 8 w)"

definition lsb16 :: "u16 \<Rightarrow> u8" where
  "lsb16 w = ucast w"

definition be16 :: "u8 \<Rightarrow> u8 \<Rightarrow> u16" where
  "be16 hi lo = push_bit 8 (ucast hi) OR ucast lo"

lemma be16_split [simp]: "be16 (msb16 w) (lsb16 w) = w"
  unfolding be16_def msb16_def lsb16_def
  by (rule bit_word_eqI) (auto simp: bit_simps)

lemma msb16_be16 [simp]: "msb16 (be16 hi lo) = hi"
  unfolding be16_def msb16_def
  by (rule bit_word_eqI) (auto simp: bit_simps dest: bit_imp_le_length)

lemma lsb16_be16 [simp]: "lsb16 (be16 hi lo) = lo"
  unfolding be16_def lsb16_def
  by (rule bit_word_eqI) (auto simp: bit_simps)

section \<open>Word arithmetic\<close>

lemma unat_u32_lt: "unat (w::u32) < 4294967296"
  using unsigned_less [of w] by simp

lemma unat_u16_lt: "unat (w::u16) < 65536"
  using unsigned_less [of w] by simp

lemma unat_u8_lt: "unat (w::u8) < 256"
  using unsigned_less [of w] by simp

lemma unat_add_u32: "unat a + unat b < 4294967296 \<Longrightarrow> unat (a + b :: u32) = unat a + unat b"
  by (simp add: unat_word_ariths)

lemma unat_of_nat_u32: "n < 4294967296 \<Longrightarrow> unat (of_nat n :: u32) = n"
  by (simp add: unat_of_nat)

lemma unat_of_nat_u16: "n < 65536 \<Longrightarrow> unat (of_nat n :: u16) = n"
  by (simp add: unat_of_nat)

lemma unat_ucast_u16_u32 [simp]: "unat (ucast (w::u16) :: u32) = unat w"
  by (simp add: unsigned_ucast_eq take_bit_nat_eq_self_iff order_less_trans [OF unsigned_less])

lemma unat_ucast_u8_u32 [simp]: "unat (ucast (w::u8) :: u32) = unat w"
  by (simp add: unsigned_ucast_eq take_bit_nat_eq_self_iff order_less_trans [OF unsigned_less])

end
