(* ===== verification/MqttCodec.thy ===== *)
theory MqttCodec
  imports Prelude
begin

text \<open>
  The wire-format helpers of \<open>AWS/mqtt/aws_mqtt_lib.c\<close>: the packet constants, the
  variable-length "Remaining Length" field (size, encoder, decoder) and the
  length-prefixed string writer. The encoder and the decoder are related to an
  abstract encoding \<open>varint\<close>.
\<close>

section \<open>Constants\<close>

definition mqttCONTROL_CONNECT :: u8 where "mqttCONTROL_CONNECT = push_bit 4 1"
definition mqttCONTROL_CONNACK :: u8 where "mqttCONTROL_CONNACK = push_bit 4 2"
definition mqttCONTROL_PUBLISH :: u8 where "mqttCONTROL_PUBLISH = push_bit 4 3"
definition mqttCONTROL_PUBACK :: u8 where "mqttCONTROL_PUBACK = push_bit 4 4"
definition mqttCONTROL_SUBSCRIBE :: u8 where "mqttCONTROL_SUBSCRIBE = push_bit 4 8"
definition mqttCONTROL_SUBACK :: u8 where "mqttCONTROL_SUBACK = push_bit 4 9"
definition mqttCONTROL_UNSUBSCRIBE :: u8 where "mqttCONTROL_UNSUBSCRIBE = push_bit 4 10"
definition mqttCONTROL_UNSUBACK :: u8 where "mqttCONTROL_UNSUBACK = push_bit 4 11"
definition mqttCONTROL_PINGREQ :: u8 where "mqttCONTROL_PINGREQ = push_bit 4 12"
definition mqttCONTROL_PINGRESP :: u8 where "mqttCONTROL_PINGRESP = push_bit 4 13"
definition mqttCONTROL_DISCONNECT :: u8 where "mqttCONTROL_DISCONNECT = push_bit 4 14"

definition mqttFLAGS_CONNECT :: u8 where "mqttFLAGS_CONNECT = 0"
definition mqttFLAGS_CONNACK :: u8 where "mqttFLAGS_CONNACK = 0"
definition mqttFLAGS_PUBACK :: u8 where "mqttFLAGS_PUBACK = 0"
definition mqttFLAGS_SUBSCRIBE :: u8 where "mqttFLAGS_SUBSCRIBE = 2"
definition mqttFLAGS_SUBACK :: u8 where "mqttFLAGS_SUBACK = 0"
definition mqttFLAGS_UNSUBSCRIBE :: u8 where "mqttFLAGS_UNSUBSCRIBE = 2"
definition mqttFLAGS_UNSUBACK :: u8 where "mqttFLAGS_UNSUBACK = 0"
definition mqttFLAGS_PINGREQ :: u8 where "mqttFLAGS_PINGREQ = 0"
definition mqttFLAGS_PINGRESP :: u8 where "mqttFLAGS_PINGRESP = 0"
definition mqttFLAGS_DISCONNECT :: u8 where "mqttFLAGS_DISCONNECT = 0"

definition mqttCONNECT_CLEAN_SESSION_FLAG :: u8 where "mqttCONNECT_CLEAN_SESSION_FLAG = push_bit 1 1"
definition mqttCONNECT_USER_NAME_FLAG :: u8 where "mqttCONNECT_USER_NAME_FLAG = push_bit 7 1"
definition mqttPROTOCOL_LEVEL :: u8 where "mqttPROTOCOL_LEVEL = 4"

definition mqttTOP_NIBBLE_MASK :: u8 where "mqttTOP_NIBBLE_MASK = 0xF0"
definition mqttLOWER_NIBBLE_MASK :: u8 where "mqttLOWER_NIBBLE_MASK = 0x0F"

definition mqttREMAINING_LENGTH_CONTINUATION_BITMASK :: u8 where
  "mqttREMAINING_LENGTH_CONTINUATION_BITMASK = push_bit 7 1"

definition mqttLENGTH_BITMASK_REMAINING_LENGTH :: u8 where
  "mqttLENGTH_BITMASK_REMAINING_LENGTH = NOT mqttREMAINING_LENGTH_CONTINUATION_BITMASK"

definition mqttREMAINING_LENGTH_MAX_BYTES :: nat where "mqttREMAINING_LENGTH_MAX_BYTES = 4"
definition mqttFIXED_HEADER_MAX_SIZE :: nat where
  "mqttFIXED_HEADER_MAX_SIZE = 1 + mqttREMAINING_LENGTH_MAX_BYTES"
definition mqttFIXED_HEADER_MIN_SIZE :: nat where "mqttFIXED_HEADER_MIN_SIZE = 1 + 1"

text \<open>
  \<open>mqttSTRLEN\<close> in the places where its value is assigned to a \<open>uint16_t\<close>: the sum wraps.
  \<open>mqttTOTAL_MESSAGE_LENGTH\<close> and \<open>mqttADJUST_OFFSET\<close> are \<open>uint32_t\<close> arithmetic; an offset
  of at most a few bytes plus a field of at most five bytes, minus one, does not wrap, so
  \<open>mqttADJUST_OFFSET\<close> is a natural number here.
\<close>

definition mqttSTRLEN :: "u16 \<Rightarrow> u16" where
  "mqttSTRLEN usStringLength = usStringLength + 2"

definition mqttTOTAL_MESSAGE_LENGTH :: "u8 \<Rightarrow> u32 \<Rightarrow> u32" where
  "mqttTOTAL_MESSAGE_LENGTH ucRemainingLengthFieldBytes ulRemainingLength =
     1 + ucast ucRemainingLengthFieldBytes + ulRemainingLength"

definition mqttADJUST_OFFSET :: "nat \<Rightarrow> nat \<Rightarrow> nat" where
  "mqttADJUST_OFFSET offset ucRemainingLengthFieldBytes = offset + ucRemainingLengthFieldBytes - 1"

definition mqttPUBLISH_QoS_BITS :: "u8 \<Rightarrow> u8" where
  "mqttPUBLISH_QoS_BITS x = drop_bit 1 x AND 0x03"

lemmas mqtt_control_defs = mqttCONTROL_CONNECT_def mqttCONTROL_CONNACK_def mqttCONTROL_PUBLISH_def
  mqttCONTROL_PUBACK_def mqttCONTROL_SUBSCRIBE_def mqttCONTROL_SUBACK_def mqttCONTROL_UNSUBSCRIBE_def
  mqttCONTROL_UNSUBACK_def mqttCONTROL_PINGREQ_def mqttCONTROL_PINGRESP_def mqttCONTROL_DISCONNECT_def
  mqttFLAGS_CONNECT_def mqttFLAGS_CONNACK_def mqttFLAGS_PUBACK_def mqttFLAGS_SUBSCRIBE_def
  mqttFLAGS_SUBACK_def mqttFLAGS_UNSUBSCRIBE_def mqttFLAGS_UNSUBACK_def mqttFLAGS_PINGREQ_def
  mqttFLAGS_PINGRESP_def mqttFLAGS_DISCONNECT_def mqttTOP_NIBBLE_MASK_def mqttLOWER_NIBBLE_MASK_def

lemmas mqtt_length_defs = mqttREMAINING_LENGTH_CONTINUATION_BITMASK_def
  mqttLENGTH_BITMASK_REMAINING_LENGTH_def mqttREMAINING_LENGTH_MAX_BYTES_def
  mqttFIXED_HEADER_MAX_SIZE_def mqttFIXED_HEADER_MIN_SIZE_def

section \<open>Remaining Length\<close>

definition prvSizeOfRemainingLength :: "u32 \<Rightarrow> u8" where
  "prvSizeOfRemainingLength ulRemainingLength =
     (if ulRemainingLength \<le> 127 then 1
      else if ulRemainingLength > 127 \<and> ulRemainingLength \<le> 16383 then 2
      else if ulRemainingLength > 16383 \<and> ulRemainingLength \<le> 2097151 then 3
      else if ulRemainingLength > 2097151 \<and> ulRemainingLength \<le> 268435455 then 4
      else 0)"

text \<open>The byte written by one iteration of the encoder.\<close>

definition encoded_byte :: "u32 \<Rightarrow> u8" where
  "encoded_byte ulRemainingLength =
     (let ucEncodedByte = ucast ulRemainingLength AND mqttLENGTH_BITMASK_REMAINING_LENGTH in
      if drop_bit 7 ulRemainingLength > 0
      then ucEncodedByte OR mqttREMAINING_LENGTH_CONTINUATION_BITMASK
      else ucEncodedByte)"

lemma drop_bit_7_less: "drop_bit 7 (n::u32) > 0 \<Longrightarrow> unat (drop_bit 7 n) < unat n"
  by (auto simp: unat_drop_bit_eq drop_bit_eq_div word_less_nat_alt unat_div intro!: div_less_dividend)

text \<open>
  The \<open>do ... while\<close> loop: \<open>off\<close> is the offset of \<open>pucEncodedRemainingLength\<close> in the
  buffer, \<open>lastIdx\<close> that of \<open>pucLastByteInBuffer\<close>. The count stays below 6 (a 32-bit length
  has at most five groups of seven bits), so it is a natural number.
\<close>

function encode_loop :: "u32 \<Rightarrow> nat \<Rightarrow> nat \<Rightarrow> nat \<Rightarrow> cmem \<Rightarrow> nat \<times> cmem" where
  "encode_loop ulRemainingLength ucBytesWritten off lastIdx m =
     (if off + ucBytesWritten \<le> lastIdx then
        (let m' = m_put (off + ucBytesWritten) (encoded_byte ulRemainingLength) m in
         if drop_bit 7 ulRemainingLength > 0
         then encode_loop (drop_bit 7 ulRemainingLength) (ucBytesWritten + 1) off lastIdx m'
         else (ucBytesWritten + 1, m'))
      else (0, m))"
  by pat_completeness auto
termination
  by (relation "measure (\<lambda>(n, _). unat n)") (auto dest: drop_bit_7_less)

declare encode_loop.simps [simp del]

definition prvEncodeRemainingLength :: "u32 \<Rightarrow> nat \<Rightarrow> nat \<Rightarrow> cmem \<Rightarrow> nat \<times> cmem" where
  "prvEncodeRemainingLength ulRemainingLength off lastIdx m = encode_loop ulRemainingLength 0 off lastIdx m"

text \<open>
  The decoding loop: \<open>p\<close> is the array the encoded length starts at. The result holds
  the loop counter and the bits gathered so far.
\<close>

function decode_loop :: "u8 list \<Rightarrow> nat \<Rightarrow> u32 \<Rightarrow> nat \<times> u32" where
  "decode_loop p x ulDecodedRemainingLength =
     (if x < mqttREMAINING_LENGTH_MAX_BYTES then
        (let ucDecodedByte = rdb p x AND mqttLENGTH_BITMASK_REMAINING_LENGTH;
             ulDecodedByte = push_bit (x * 7) (ucast ucDecodedByte);
             acc = ulDecodedRemainingLength OR ulDecodedByte in
         if rdb p x AND mqttREMAINING_LENGTH_CONTINUATION_BITMASK = 0 then (x, acc)
         else decode_loop p (x + 1) acc)
      else (x, ulDecodedRemainingLength))"
  by pat_completeness auto
termination
  by (relation "measure (\<lambda>(_, x, _). mqttREMAINING_LENGTH_MAX_BYTES - x)") auto

declare decode_loop.simps [simp del]

text \<open>The number of bytes read, and the decoded length unless the encoding is malformed.\<close>

definition prvDecodeRemainingLength :: "u8 list \<Rightarrow> nat \<times> u32 option" where
  "prvDecodeRemainingLength p =
     (case decode_loop p 0 0 of (x, ulDecodedRemainingLength) \<Rightarrow>
        if x \<ge> mqttREMAINING_LENGTH_MAX_BYTES then (0, None)
        else (x + 1, Some ulDecodedRemainingLength))"

section \<open>Length-prefixed strings\<close>

text \<open>
  \<open>prvWriteString\<close> writes at offset \<open>off\<close> when the whole field ends at or before \<open>lastIdx\<close>,
  and returns the offset of the byte after it; otherwise it writes nothing and returns
  \<open>off\<close>. The end address is computed in \<open>int\<close>, so it does not wrap.
\<close>

definition prvWriteString :: "nat \<Rightarrow> nat \<Rightarrow> u8 list \<Rightarrow> u16 \<Rightarrow> cmem \<Rightarrow> nat \<times> cmem" where
  "prvWriteString off lastIdx pucString usStringLength m =
     (if off + (unat usStringLength + 2 - 1) \<le> lastIdx then
        (off + 2 + unat usStringLength,
         m_blit (off + 2) (take (unat usStringLength) pucString)
           (m_need (unat usStringLength \<le> length pucString)
             (m_put (off + 1) (lsb16 usStringLength)
               (m_put off (msb16 usStringLength) m))))
      else (off, m))"

section \<open>The encoding the helpers implement\<close>

text \<open>Seven bits per byte, least significant group first, high bit set on all but the last.\<close>

function varint :: "u32 \<Rightarrow> u8 list" where
  "varint n = (if drop_bit 7 n > 0 then encoded_byte n # varint (drop_bit 7 n) else [encoded_byte n])"
  by pat_completeness auto
termination
  by (relation "measure unat") (auto dest: drop_bit_7_less)

declare varint.simps [simp del]

definition mqtt_string :: "u8 list \<Rightarrow> u8 list" where
  "mqtt_string xs = msb16 (of_nat (length xs)) # lsb16 (of_nat (length xs)) # xs"

lemma length_mqtt_string [simp]: "length (mqtt_string xs) = length xs + 2"
  by (simp add: mqtt_string_def)

section \<open>Correctness of the helpers\<close>

lemma encoded_byte_parts:
  "encoded_byte n AND mqttLENGTH_BITMASK_REMAINING_LENGTH = ucast n AND mqttLENGTH_BITMASK_REMAINING_LENGTH"
  "encoded_byte n AND mqttREMAINING_LENGTH_CONTINUATION_BITMASK = 0 \<longleftrightarrow> drop_bit 7 n = 0"
proof -
  have m: "mqttLENGTH_BITMASK_REMAINING_LENGTH = NOT (push_bit 7 1)"
    "mqttREMAINING_LENGTH_CONTINUATION_BITMASK = push_bit 7 1"
    by (simp_all add: mqtt_length_defs)
  show "encoded_byte n AND mqttLENGTH_BITMASK_REMAINING_LENGTH = ucast n AND mqttLENGTH_BITMASK_REMAINING_LENGTH"
    unfolding encoded_byte_def Let_def m
    by (rule bit_word_eqI) (auto simp: bit_simps)
  have "(x AND NOT (push_bit 7 1)) AND push_bit 7 1 = (0::u8)" for x :: u8
    by (rule bit_word_eqI) (auto simp: bit_simps)
  moreover have "(x OR push_bit 7 1) AND push_bit 7 1 = (push_bit 7 1::u8)" for x :: u8
    by (rule bit_word_eqI) (auto simp: bit_simps)
  ultimately show "encoded_byte n AND mqttREMAINING_LENGTH_CONTINUATION_BITMASK = 0 \<longleftrightarrow> drop_bit 7 n = 0"
    unfolding encoded_byte_def Let_def m by (auto simp: word_gt_0)
qed

lemma seven_bits_split:
  "push_bit k (ucast (ucast n AND mqttLENGTH_BITMASK_REMAINING_LENGTH)) OR push_bit (k + 7) (drop_bit 7 n) =
   push_bit k (n::u32)"
proof -
  have m: "mqttLENGTH_BITMASK_REMAINING_LENGTH = mask 7"
    by (simp add: mqtt_length_defs mask_eq_exp_minus_1)
  have "ucast (ucast n AND mask 7 :: u8) OR push_bit 7 (drop_bit 7 n) = n"
  proof (rule bit_word_eqI)
    fix i
    show "bit (ucast (ucast n AND mask 7 :: u8) OR push_bit 7 (drop_bit 7 n)) i = bit n i"
      if "i < LENGTH(32)"
      using that by (cases "7 \<le> i") (auto simp: bit_simps)
  qed
  then have "push_bit k (ucast (ucast n AND mask 7 :: u8) OR push_bit 7 (drop_bit 7 n)) = push_bit k n"
    by simp
  then show ?thesis
    by (simp add: m push_bit_or push_bit_push_bit add.commute)
qed

lemma decode_varint:
  "length pre = x \<Longrightarrow> x + length (varint n) \<le> 4 \<Longrightarrow>
     decode_loop (pre @ varint n @ rest) x acc = (x + length (varint n) - 1, acc OR push_bit (x * 7) n)"
proof (induction n arbitrary: pre x acc rule: varint.induct)
  case (1 n)
  have rd: "rdb (pre @ varint n @ rest) x = encoded_byte n"
    using "1.prems"(1) by (subst varint.simps) (simp add: rdb_append2)
  show ?case
  proof (cases "drop_bit 7 n > 0")
    case True
    then have v: "varint n = encoded_byte n # varint (drop_bit 7 n)"
      by (subst varint.simps) simp
    have "decode_loop (pre @ varint n @ rest) x acc =
        decode_loop ((pre @ [encoded_byte n]) @ varint (drop_bit 7 n) @ rest) (x + 1)
          (acc OR push_bit (x * 7) (ucast (ucast n AND mqttLENGTH_BITMASK_REMAINING_LENGTH)))"
      using True "1.prems"(2) rd
      by (subst decode_loop.simps) (simp add: encoded_byte_parts v mqttREMAINING_LENGTH_MAX_BYTES_def Let_def word_gt_0)
    also have "\<dots> = (x + length (varint n) - 1,
        (acc OR push_bit (x * 7) (ucast (ucast n AND mqttLENGTH_BITMASK_REMAINING_LENGTH))) OR
        push_bit ((x + 1) * 7) (drop_bit 7 n))"
      using "1.IH" [OF True, of "pre @ [encoded_byte n]" "x + 1"] "1.prems" v by simp
    also have "\<dots> = (x + length (varint n) - 1, acc OR push_bit (x * 7) n)"
      using seven_bits_split [of "x * 7" n] by (simp add: or.assoc add.commute)
    finally show ?thesis .
  next
    case False
    then have z: "drop_bit 7 n = 0" and v: "varint n = [encoded_byte n]"
      by (auto simp: varint.simps [of n] word_gt_0)
    have "decode_loop (pre @ varint n @ rest) x acc =
        (x, acc OR push_bit (x * 7) (ucast (ucast n AND mqttLENGTH_BITMASK_REMAINING_LENGTH)))"
      using z "1.prems"(2) rd v
      by (subst decode_loop.simps) (simp add: encoded_byte_parts mqttREMAINING_LENGTH_MAX_BYTES_def Let_def)
    then show ?thesis
      using seven_bits_split [of "x * 7" n] z v by simp
  qed
qed

lemma length_varint_step:
  "length (varint n) = (if unat n < 128 then 1 else Suc (length (varint (drop_bit 7 n))))"
proof -
  have "drop_bit 7 n > 0 \<longleftrightarrow> \<not> unat n < 128"
    by (auto simp: word_less_nat_alt unat_drop_bit_eq drop_bit_eq_div unat_div div_greater_zero_iff)
  then show ?thesis by (subst varint.simps) simp
qed

lemma unat_drop_bit_7: "unat (drop_bit 7 (n::u32)) = unat n div 128"
  by (simp add: unat_drop_bit_eq drop_bit_eq_div unat_div)

lemma length_varint:
  "length (varint n) = (if unat n < 128 then 1 else if unat n < 16384 then 2
     else if unat n < 2097152 then 3 else if unat n < 268435456 then 4 else 5)"
  using unat_u32_lt [of n]
  by (simp add: length_varint_step [of n] length_varint_step [of "drop_bit 7 n"]
      length_varint_step [of "drop_bit 7 (drop_bit 7 n)"]
      length_varint_step [of "drop_bit 7 (drop_bit 7 (drop_bit 7 n))"]
      length_varint_step [of "drop_bit 7 (drop_bit 7 (drop_bit 7 (drop_bit 7 n)))"]
      unat_drop_bit_7 div_less_iff_less_mult del: drop_bit_drop_bit)

lemma size_eq_length_varint:
  "unat n < 268435456 \<Longrightarrow> unat (prvSizeOfRemainingLength n) = length (varint n)"
  by (auto simp: prvSizeOfRemainingLength_def length_varint word_le_nat_alt word_less_nat_alt)

lemma size_pos_iff: "prvSizeOfRemainingLength n > 0 \<longleftrightarrow> unat n < 268435456"
  by (auto simp: prvSizeOfRemainingLength_def word_le_nat_alt word_less_nat_alt)

lemma encode_loop_varint:
  "off + k + length (varint n) \<le> length d \<Longrightarrow> off + k + length (varint n) \<le> lastIdx + 1 \<Longrightarrow>
     encode_loop n k off lastIdx (d, f) = (k + length (varint n), (blit (off + k) (varint n) d, f))"
proof (induction n arbitrary: k d rule: varint.induct)
  case (1 n)
  have pos: "1 \<le> length (varint n)" by (subst varint.simps) simp
  have le: "off + k \<le> lastIdx" and ok: "off + k + 1 \<le> length d"
    using pos "1.prems" by linarith+
  have put: "m_put (off + k) (encoded_byte n) (d, f) = (blit (off + k) [encoded_byte n] d, f)"
    using ok by (simp add: mem_simps)
  show ?case
  proof (cases "drop_bit 7 n > 0")
    case True
    then have v: "varint n = encoded_byte n # varint (drop_bit 7 n)"
      by (subst varint.simps) simp
    have "encode_loop n k off lastIdx (d, f) =
        encode_loop (drop_bit 7 n) (k + 1) off lastIdx (blit (off + k) [encoded_byte n] d, f)"
      using True le by (subst encode_loop.simps) (simp add: put)
    also have "\<dots> = (k + 1 + length (varint (drop_bit 7 n)),
        (blit (off + (k + 1)) (varint (drop_bit 7 n)) (blit (off + k) [encoded_byte n] d), f))"
      using "1.IH" [OF True, of "k + 1" "blit (off + k) [encoded_byte n] d"] "1.prems" v ok by simp
    also have "\<dots> = (k + length (varint n), (blit (off + k) (varint n) d, f))"
      using blit_append [of "off + k" d "[encoded_byte n]" "varint (drop_bit 7 n)"] ok v
      by (simp add: add.assoc)
    finally show ?thesis .
  next
    case False
    then have v: "varint n = [encoded_byte n]" by (subst varint.simps) simp
    then show ?thesis using False le by (subst encode_loop.simps) (simp add: put)
  qed
qed

lemma encode_ok:
  "off + length (varint n) \<le> length d \<Longrightarrow> off + length (varint n) \<le> lastIdx + 1 \<Longrightarrow>
     prvEncodeRemainingLength n off lastIdx (d, f) = (length (varint n), (blit off (varint n) d, f))"
  using encode_loop_varint [of off 0 n d lastIdx f] by (simp add: prvEncodeRemainingLength_def)

lemma decode_ok:
  "unat n < 268435456 \<Longrightarrow> prvDecodeRemainingLength (varint n @ rest) = (length (varint n), Some n)"
  using decode_varint [of "[]" 0 n rest 0] length_varint [of n]
  by (auto simp: prvDecodeRemainingLength_def mqttREMAINING_LENGTH_MAX_BYTES_def split: if_splits)

lemma write_string_ok:
  assumes "off + length xs + 2 \<le> length d" and "off + length xs + 2 \<le> lastIdx + 1" and "length xs < 65536"
  shows "prvWriteString off lastIdx xs (of_nat (length xs)) (d, f) =
     (off + 2 + length xs, (blit off (mqtt_string xs) d, f))"
proof -
  let ?n = "of_nat (length xs) :: u16"
  have n: "unat ?n = length xs" using assms(3) by (rule unat_of_nat_u16)
  have "blit (off + 1) [lsb16 ?n] (blit off [msb16 ?n] d) = blit off [msb16 ?n, lsb16 ?n] d"
    using blit_append [of off d "[msb16 ?n]" "[lsb16 ?n]"] assms(1) by simp
  moreover have "blit (off + 2) xs (blit off [msb16 ?n, lsb16 ?n] d) = blit off (mqtt_string xs) d"
    using blit_append [of off d "[msb16 ?n, lsb16 ?n]" xs] assms(1) by (simp add: mqtt_string_def)
  ultimately show ?thesis
    using assms n by (simp add: prvWriteString_def mem_simps)
qed

section \<open>Properties of the wire-format helpers\<close>

text \<open>
  C29. Round trip of the "Remaining Length" field: for every length the protocol
  allows, encoding it into a buffer with room writes exactly
  \<open>prvSizeOfRemainingLength\<close> bytes without leaving the buffer, changes nothing else, and
  decoding from that offset returns the same count and the same length, whatever
  follows in the buffer.
\<close>

theorem remaining_length_roundtrip:
  assumes "n \<le> 268435455" and "off + 4 \<le> length d" and "off + 4 \<le> lastIdx + 1"
  shows "\<exists>k d'. prvEncodeRemainingLength n off lastIdx (d, False) = (k, (d', False)) \<and>
     k = unat (prvSizeOfRemainingLength n) \<and> length d' = length d \<and>
     take off d' = take off d \<and> drop (off + k) d' = drop (off + k) d \<and>
     prvDecodeRemainingLength (drop off d') = (k, Some n)"
proof -
  have n: "unat n < 268435456" using assms(1) by (simp add: word_le_nat_alt)
  then have le: "length (varint n) \<le> 4" by (simp add: length_varint)
  let ?d' = "blit off (varint n) d"
  have "prvEncodeRemainingLength n off lastIdx (d, False) = (length (varint n), (?d', False))"
    using le assms(2,3) by (intro encode_ok) auto
  moreover have "prvDecodeRemainingLength (drop off ?d') = (length (varint n), Some n)"
    using le assms(2) decode_ok [OF n] by (simp add: blit_def)
  ultimately show ?thesis
    using le assms(2) n
    by (intro exI [of _ "length (varint n)"] exI [of _ ?d']) (simp add: size_eq_length_varint blit_def)
qed

theorem remaining_length_roundtrip_witness:
  "prvDecodeRemainingLength (drop 1 (fst (snd (prvEncodeRemainingLength 321 1 9 (replicate 10 0, False))))) =
     (2, Some 321)"
proof -
  have s: "unat (prvSizeOfRemainingLength 321) = 2"
    by (simp add: prvSizeOfRemainingLength_def)
  have "\<exists>k d'. prvEncodeRemainingLength 321 1 9 (replicate 10 0, False) = (k, (d', False)) \<and>
      k = unat (prvSizeOfRemainingLength 321) \<and> length d' = length (replicate 10 (0::u8)) \<and>
      take 1 d' = take 1 (replicate 10 0) \<and> drop (1 + k) d' = drop (1 + k) (replicate 10 0) \<and>
      prvDecodeRemainingLength (drop 1 d') = (k, Some 321)"
    by (rule remaining_length_roundtrip) simp_all
  then show ?thesis using s by auto
qed

end
