(* ===== verification/MqttTopic.thy ===== *)
theory MqttTopic
  imports Prelude
begin

text \<open>
  Topic filters of \<open>AWS/mqtt/aws_mqtt_lib.c\<close>: the classification of a filter
  (\<open>prvGetTopicFilterType\<close>) and the matching of a topic against a filter
  (\<open>prvDoesTopicMatchTopicFilter\<close>), both as the index loops of the code. They are
  related to a specification on topic levels, the parts of a topic between slashes.
\<close>

section \<open>The functions of the library\<close>

datatype MQTTTopicFilterType_t =
    eMQTTTopicFilterTypeInvalid
  | eMQTTTopicFilterTypeSimple
  | eMQTTTopicFilterTypeWildCard

text \<open>The characters \<open>/\<close>, \<open>+\<close> and \<open>#\<close>.\<close>

abbreviation cSlash :: u8 where "cSlash \<equiv> 47"
abbreviation cPlus :: u8 where "cPlus \<equiv> 43"
abbreviation cHash :: u8 where "cHash \<equiv> 35"

text \<open>
  The indexes of the code are \<open>uint16_t\<close> and stay at or below a \<open>uint16_t\<close> length, so they
  do not wrap; the subtractions from a length are done in \<open>int\<close>, so \<open>x = n - 1\<close> reads
  \<open>x + 1 = n\<close> here.
\<close>

function filter_type_loop :: "u8 list \<Rightarrow> nat \<Rightarrow> nat \<Rightarrow> MQTTTopicFilterType_t \<Rightarrow> MQTTTopicFilterType_t" where
  "filter_type_loop p n x xTopicFilterType =
     (if x < n then
        if rdb p x = cPlus then
          if x = 0 \<or> rdb p (x - 1) = cSlash then
            if x + 1 = n \<or> rdb p (x + 1) = cSlash
            then filter_type_loop p n (x + 1) eMQTTTopicFilterTypeWildCard
            else eMQTTTopicFilterTypeInvalid
          else eMQTTTopicFilterTypeInvalid
        else if rdb p x = cHash then
          if x = 0 \<or> rdb p (x - 1) = cSlash then
            if x + 1 = n then eMQTTTopicFilterTypeWildCard else eMQTTTopicFilterTypeInvalid
          else eMQTTTopicFilterTypeInvalid
        else filter_type_loop p n (x + 1) xTopicFilterType
      else xTopicFilterType)"
  by pat_completeness auto
termination
  by (relation "measure (\<lambda>(_, n, x, _). n - x)") auto

declare filter_type_loop.simps [simp del]

definition prvGetTopicFilterType :: "u8 list \<Rightarrow> u16 \<Rightarrow> MQTTTopicFilterType_t" where
  "prvGetTopicFilterType pucTopicFilter usTopicFilterLength =
     filter_type_loop pucTopicFilter (unat usTopicFilterLength) 0 eMQTTTopicFilterTypeSimple"

text \<open>The inner loop that consumes one topic level: the index where it stops.\<close>

function skip_level :: "u8 list \<Rightarrow> nat \<Rightarrow> nat \<Rightarrow> nat" where
  "skip_level t tn i = (if i < tn \<and> rdb t i \<noteq> cSlash then skip_level t tn (i + 1) else i)"
  by pat_completeness auto
termination
  by (relation "measure (\<lambda>(_, tn, i). tn - i)") auto

declare skip_level.simps [simp del]

text \<open>
  The matching loop; \<open>i\<close> and \<open>j\<close> are \<open>usTopicIndex\<close> and \<open>usTopicFilterIndex\<close>. Every exit of
  the loop gives the value of \<open>xTopicMatchesTopicFilter\<close> there and the two indexes.
\<close>

function match_loop :: "u8 list \<Rightarrow> nat \<Rightarrow> u8 list \<Rightarrow> nat \<Rightarrow> nat \<Rightarrow> nat \<Rightarrow> bool \<times> nat \<times> nat" where
  "match_loop t tn f fn i j =
     (if i < tn \<and> j < fn then
        if rdb t i = rdb f j then
          if i + 1 = tn \<and> j + 3 = fn \<and> rdb f (j + 1) = cSlash \<and> rdb f (j + 2) = cHash then (True, i, j)
          else if i + 1 = tn \<and> j + 2 = fn \<and> rdb f (j + 1) = cPlus then (True, i, j)
          else match_loop t tn f fn (i + 1) (j + 1)
        else if rdb f j = cPlus then match_loop t tn f fn (skip_level t tn i) (j + 1)
        else if rdb f j = cHash then (True, i, j)
        else (False, i, j)
      else (False, i, j))"
  by pat_completeness auto
termination
  by (relation "measure (\<lambda>(_, _, _, fn, _, j). fn - j)") auto

declare match_loop.simps [simp del]

definition prvDoesTopicMatchTopicFilter :: "u8 list \<Rightarrow> u16 \<Rightarrow> u8 list \<Rightarrow> u16 \<Rightarrow> bool" where
  "prvDoesTopicMatchTopicFilter pucTopic usTopicLength pucTopicFilter usTopicFilterLength =
     (let tn = unat usTopicLength; fn = unat usTopicFilterLength in
      case match_loop pucTopic tn pucTopicFilter fn 0 0 of
        (xTopicMatchesTopicFilter, usTopicIndex, usTopicFilterIndex) \<Rightarrow>
          xTopicMatchesTopicFilter \<or>
          (usTopicIndex > 0 \<and> usTopicIndex \<ge> tn) \<and> (usTopicFilterIndex > 0 \<and> usTopicFilterIndex \<ge> fn))"

section \<open>Specification on topic levels\<close>

fun levels :: "u8 list \<Rightarrow> u8 list list" where
  "levels [] = [[]]"
| "levels (c # cs) = (if c = cSlash then [] # levels cs else (c # hd (levels cs)) # tl (levels cs))"

text \<open>
  A level of a valid filter holds a wild-card only as its single character, and \<open>#\<close> only
  as the last level.
\<close>

fun valid_filter :: "u8 list list \<Rightarrow> bool" where
  "valid_filter [] \<longleftrightarrow> True"
| "valid_filter (l # ls) \<longleftrightarrow>
     (cPlus \<in> set l \<longrightarrow> l = [cPlus]) \<and> (cHash \<in> set l \<longrightarrow> l = [cHash] \<and> ls = []) \<and> valid_filter ls"

text \<open>\<open>+\<close> stands for one level, a final \<open>#\<close> for any number of levels, none included.\<close>

fun level_match :: "u8 list list \<Rightarrow> u8 list list \<Rightarrow> bool" where
  "level_match ts [] \<longleftrightarrow> ts = []"
| "level_match ts (f # fs) \<longleftrightarrow>
     f = [cHash] \<and> fs = [] \<or>
     (case ts of [] \<Rightarrow> False | t # ts' \<Rightarrow> (f = [cPlus] \<or> f = t) \<and> level_match ts' fs)"

text \<open>
  The two situations in which the code does not treat a final \<open>#\<close> that way: it would stand
  for no level and the level before it is \<open>+\<close>, or it would stand for just one empty level.
\<close>

definition hash_exception :: "u8 list list \<Rightarrow> u8 list list \<Rightarrow> bool" where
  "hash_exception ts fs \<longleftrightarrow> last fs = [cHash] \<and>
     (length fs = length ts + 1 \<and> 2 \<le> length fs \<and> fs ! (length fs - 2) = [cPlus] \<or>
      length fs = length ts \<and> 2 \<le> length fs \<and> last ts = [])"

section \<open>Levels\<close>

lemma levels_ne [simp]: "levels cs \<noteq> []"
  by (cases cs) auto

lemma levels_cases: obtains l ls where "levels cs = l # ls"
  by (cases "levels cs") auto

lemma levels_eq_empty [simp]: "levels cs = [[]] \<longleftrightarrow> cs = []"
  by (cases cs) (auto simp: levels_ne)

lemma set_levels_subset: "l \<in> set (levels cs) \<Longrightarrow> set l \<subseteq> set cs"
proof (induction cs arbitrary: l)
  case (Cons c cs)
  then show ?case
    by (cases "levels cs") (auto split: if_splits, blast+)
qed simp

text \<open>Validity of a filter, character by character; \<open>st\<close> tells that a level starts here.\<close>

fun filter_ok :: "bool \<Rightarrow> u8 list \<Rightarrow> bool" where
  "filter_ok st [] \<longleftrightarrow> True"
| "filter_ok st (c # cs) \<longleftrightarrow>
     (if c = cPlus then st \<and> (cs = [] \<or> hd cs = cSlash) \<and> filter_ok False cs
      else if c = cHash then st \<and> cs = []
      else filter_ok (c = cSlash) cs)"

definition plain :: "u8 list \<Rightarrow> bool" where
  "plain l \<longleftrightarrow> cPlus \<notin> set l \<and> cHash \<notin> set l"

lemma filter_ok_levels:
  "filter_ok True cs \<longleftrightarrow> valid_filter (levels cs)"
  "filter_ok False cs \<longleftrightarrow> plain (hd (levels cs)) \<and> valid_filter (tl (levels cs))"
proof (induction cs)
  case (Cons c cs)
  obtain l ls where l: "levels cs = l # ls" by (rule levels_cases)
  have e: "hd (levels cs) = [] \<longleftrightarrow> cs = [] \<or> hd cs = cSlash" by (cases cs) auto
  have e2: "cs = [] \<longleftrightarrow> l = [] \<and> ls = []" using levels_eq_empty [of cs] l by auto
  { case 1 show ?case using Cons e e2 l by (auto simp: plain_def) }
  { case 2 show ?case using Cons l by (auto simp: plain_def) }
qed (auto simp: plain_def)

section \<open>Classification of filters\<close>

lemma suffix_Cons: "x < n \<Longrightarrow> n \<le> length p \<Longrightarrow> drop x (take n p) = p ! x # drop (Suc x) (take n p)"
  by (subst Cons_nth_drop_Suc [symmetric]) auto

lemma hd_suffix: "x < n \<Longrightarrow> n \<le> length p \<Longrightarrow> hd (drop x (take n p)) = p ! x"
  by (simp add: suffix_Cons)

lemma plain_Cons: "plain (c # cs) \<longleftrightarrow> c \<noteq> cPlus \<and> c \<noteq> cHash \<and> plain cs"
  by (auto simp: plain_def)

lemma filter_type_loop_ok:
  "n \<le> length p \<Longrightarrow> x \<le> n \<Longrightarrow> filter_type_loop p n x ty =
    (if filter_ok (x = 0 \<or> p ! (x - 1) = cSlash) (drop x (take n p))
     then if plain (drop x (take n p)) then ty else eMQTTTopicFilterTypeWildCard
     else eMQTTTopicFilterTypeInvalid)"
proof (induction p n x ty rule: filter_type_loop.induct)
  case (1 p n x ty)
  show ?case
  proof (cases "x < n")
    case True
    have d: "drop x (take n p) = p ! x # drop (Suc x) (take n p)"
      using True "1.prems" by (simp add: suffix_Cons)
    let ?st = "x = 0 \<or> p ! (x - 1) = cSlash" and ?ds = "drop (Suc x) (take n p)"
    have "x < length p" "x - 1 < length p"
      using True "1.prems" by linarith+
    then have r: "rdb p x = p ! x" "rdb p (x - 1) = p ! (x - 1)"
      by (simp_all add: mem_simps)
    have "x + 1 < n \<Longrightarrow> rdb p (x + 1) = hd ?ds"
      using True "1.prems" hd_suffix [of "Suc x" n p] by (simp add: mem_simps)
    moreover have e2: "x + 1 = n \<longleftrightarrow> ?ds = []"
      using True "1.prems" by auto
    ultimately have "?ds = [] \<or> rdb p (x + 1) = cSlash \<longleftrightarrow> ?ds = [] \<or> hd ?ds = cSlash"
      using True by (metis Suc_eq_plus1 Suc_leI le_neq_implies_less)
    note e = this e2
    have step: "filter_type_loop p n x ty =
        (if p ! x = cPlus then
           if ?st \<and> (?ds = [] \<or> hd ?ds = cSlash) then filter_type_loop p n (x + 1) eMQTTTopicFilterTypeWildCard
           else eMQTTTopicFilterTypeInvalid
         else if p ! x = cHash then
           if ?st \<and> ?ds = [] then eMQTTTopicFilterTypeWildCard else eMQTTTopicFilterTypeInvalid
         else filter_type_loop p n (x + 1) ty)"
      using True unfolding filter_type_loop.simps [of p n x ty] r e by auto
    have IH: "p ! x = cPlus \<Longrightarrow> ?st \<Longrightarrow> ?ds = [] \<or> hd ?ds = cSlash \<Longrightarrow>
        filter_type_loop p n (x + 1) eMQTTTopicFilterTypeWildCard =
          (if filter_ok False ?ds then eMQTTTopicFilterTypeWildCard else eMQTTTopicFilterTypeInvalid)"
      "p ! x \<noteq> cPlus \<Longrightarrow> p ! x \<noteq> cHash \<Longrightarrow> filter_type_loop p n (x + 1) ty =
          (if filter_ok (p ! x = cSlash) ?ds then if plain ?ds then ty else eMQTTTopicFilterTypeWildCard
           else eMQTTTopicFilterTypeInvalid)"
      using "1.IH" True "1.prems" unfolding r e by auto
    show ?thesis
      using IH unfolding d step by (auto simp: plain_Cons)
  next
    case False
    with "1.prems" show ?thesis
      by (subst filter_type_loop.simps) (simp add: plain_def)
  qed
qed

section \<open>Matching\<close>

text \<open>
  The matching loop on the two suffixes that are still to be read. \<open>suffix_match_eq\<close> is the
  situation right after two equal characters, where the corner cases are looked at.
\<close>

definition suffix_match_end :: "u8 list \<Rightarrow> bool" where
  "suffix_match_end f \<longleftrightarrow> f = [] \<or> f = [cSlash, cHash] \<or> f = [cPlus]"

fun suffix_match :: "u8 list \<Rightarrow> u8 list \<Rightarrow> bool" where
  "suffix_match [] f \<longleftrightarrow> f = []"
| "suffix_match (c # t) [] \<longleftrightarrow> False"
| "suffix_match (c # t) (d # f) \<longleftrightarrow>
     (if c = d then if t = [] then suffix_match_end f else suffix_match t f
      else if d = cPlus then suffix_match (dropWhile (\<lambda>x. x \<noteq> cSlash) (c # t)) f
      else d = cHash)"

lemma skip_level_ok:
  "tn \<le> length t \<Longrightarrow> i \<le> tn \<Longrightarrow>
     i \<le> skip_level t tn i \<and> skip_level t tn i \<le> tn \<and>
     drop (skip_level t tn i) (take tn t) = dropWhile (\<lambda>x. x \<noteq> cSlash) (drop i (take tn t))"
proof (induction t tn i rule: skip_level.induct)
  case (1 t tn i)
  show ?case
  proof (cases "i < tn \<and> rdb t i \<noteq> cSlash")
    case True
    then show ?thesis
      using 1 suffix_Cons [of i tn t] by (auto simp: skip_level.simps [of t tn i] mem_simps)
  next
    case False
    then have "skip_level t tn i = i" by (subst skip_level.simps) auto
    then show ?thesis
      using False "1.prems" suffix_Cons [of i tn t] by (cases "i < tn") (auto simp: mem_simps)
  qed
qed

text \<open>The result the code computes from the value and the indexes at the exit of the loop.\<close>

definition match_result :: "nat \<Rightarrow> nat \<Rightarrow> bool \<times> nat \<times> nat \<Rightarrow> bool" where
  "match_result tn fn r = (case r of (b, i, j) \<Rightarrow> b \<or> (i > 0 \<and> i \<ge> tn) \<and> (j > 0 \<and> j \<ge> fn))"

lemma suffix_eq_2: "n \<le> length f \<Longrightarrow> j < n \<Longrightarrow>
    drop (Suc j) (take n f) = [a] \<longleftrightarrow> j + 2 = n \<and> rdb f (j + 1) = a"
  using suffix_Cons [of "Suc j" n f] by (cases "Suc j < n") (auto simp: mem_simps)

lemma suffix_eq_3: "n \<le> length f \<Longrightarrow> j < n \<Longrightarrow>
    drop (Suc j) (take n f) = [a, b] \<longleftrightarrow> j + 3 = n \<and> rdb f (j + 1) = a \<and> rdb f (j + 2) = b"
  using suffix_Cons [of "Suc j" n f] suffix_Cons [of "Suc (Suc j)" n f]
  by (cases "Suc j < n"; cases "Suc (Suc j) < n") (auto simp: mem_simps)

lemma match_loop_suffix:
  assumes "tn \<le> length t" and "fn \<le> length f"
  shows "i \<le> tn \<Longrightarrow> j \<le> fn \<Longrightarrow> (i = tn \<Longrightarrow> 0 < i) \<Longrightarrow> 0 < fn \<Longrightarrow>
    match_result tn fn (match_loop t tn f fn i j) = suffix_match (drop i (take tn t)) (drop j (take fn f))"
  using assms
proof (induction t tn f fn i j rule: match_loop.induct)
  case (1 t tn f fn i j)
  show ?case
  proof (cases "i < tn \<and> j < fn")
    case True
    have d: "drop i (take tn t) = rdb t i # drop (Suc i) (take tn t)"
      "drop j (take fn f) = rdb f j # drop (Suc j) (take fn f)"
      using True "1.prems" by (simp_all add: suffix_Cons mem_simps)
    have e: "drop (Suc i) (take tn t) = [] \<longleftrightarrow> i + 1 = tn"
      using True "1.prems" by auto
    let ?f = "drop (Suc j) (take fn f)"
    have f: "j + 3 = fn \<and> rdb f (j + 1) = cSlash \<and> rdb f (j + 2) = cHash \<longleftrightarrow> ?f = [cSlash, cHash]"
      "j + 2 = fn \<and> rdb f (j + 1) = cPlus \<longleftrightarrow> ?f = [cPlus]"
      using True "1.prems" by (simp_all add: suffix_eq_2 suffix_eq_3)
    have step: "match_loop t tn f fn i j =
       (if rdb t i = rdb f j then
          if i + 1 = tn \<and> ?f = [cSlash, cHash] then (True, i, j)
          else if i + 1 = tn \<and> ?f = [cPlus] then (True, i, j)
          else match_loop t tn f fn (i + 1) (j + 1)
        else if rdb f j = cPlus then match_loop t tn f fn (skip_level t tn i) (j + 1)
        else (rdb f j = cHash, i, j))"
      using True by (subst match_loop.simps) (simp flip: f)
    show ?thesis
    proof (cases "rdb t i = rdb f j")
      case eq: True
      have IH: "\<not> (i + 1 = tn \<and> ?f = [cSlash, cHash]) \<Longrightarrow> \<not> (i + 1 = tn \<and> ?f = [cPlus]) \<Longrightarrow>
          match_result tn fn (match_loop t tn f fn (i + 1) (j + 1)) = suffix_match (drop (Suc i) (take tn t)) ?f"
        using "1.IH"(1) eq True "1.prems" unfolding f by simp
      show ?thesis
        using eq IH e unfolding d step by (auto simp: match_result_def suffix_match_end_def)
    next
      case ne: False
      have s: "i \<le> skip_level t tn i" "skip_level t tn i \<le> tn"
        "drop (skip_level t tn i) (take tn t) = dropWhile (\<lambda>x. x \<noteq> cSlash) (drop i (take tn t))"
        using skip_level_ok [of tn t i] True "1.prems" by auto
      have IH: "rdb f j = cPlus \<Longrightarrow> match_result tn fn (match_loop t tn f fn (skip_level t tn i) (j + 1)) =
          suffix_match (dropWhile (\<lambda>x. x \<noteq> cSlash) (drop i (take tn t))) ?f"
        using "1.IH"(2) ne True "1.prems" s by simp
      show ?thesis
        using ne IH True unfolding step d by (auto simp: match_result_def)
    qed
  next
    case False
    then have "match_loop t tn f fn i j = (False, i, j)" by (subst match_loop.simps) auto
    with False "1.prems" suffix_Cons [of i tn t] show ?thesis
      by (cases "i < tn") (auto simp: match_result_def)
  qed
qed

text \<open>What the loop decides, level by level.\<close>

fun code_match :: "u8 list list \<Rightarrow> u8 list list \<Rightarrow> bool" where
  "code_match [] fs \<longleftrightarrow> fs = []"
| "code_match (t # ts) [] \<longleftrightarrow> False"
| "code_match (t # ts) (f # fs) \<longleftrightarrow>
     (if f = [cHash] then t \<noteq> [] \<or> ts \<noteq> []
      else if f = [cPlus] then code_match ts fs
      else t = f \<and> (ts = [] \<and> fs = [[cHash]] \<or> code_match ts fs))"

lemma code_match_Nil2 [simp]: "code_match ts [] \<longleftrightarrow> ts = []"
  by (cases ts) auto

lemma code_match_plus: "code_match (t # ts) ([cPlus] # fs) = code_match ts fs"
  by simp

lemma code_match_single [simp]: "code_match (levels cs) [[]] \<longleftrightarrow> cs = []"
  using levels_eq_empty [of cs] by (cases "levels cs") auto

definition suffix_match' :: "u8 list \<Rightarrow> u8 list \<Rightarrow> bool" where
  "suffix_match' t f \<longleftrightarrow> (if t = [] then suffix_match_end f else suffix_match t f)"

lemma suffix_match_Cons:
  "suffix_match (c # t) (d # f) \<longleftrightarrow>
     (if c = d then suffix_match' t f
      else if d = cPlus then suffix_match (dropWhile (\<lambda>x. x \<noteq> cSlash) (c # t)) f
      else d = cHash)"
  by (simp add: suffix_match'_def)

lemma levels_dropWhile:
  "tl (levels t) = (case dropWhile (\<lambda>x. x \<noteq> cSlash) t of [] \<Rightarrow> [] | c # r \<Rightarrow> levels r)"
  by (induction t) auto

lemma dropWhile_slash: "dropWhile (\<lambda>x. x \<noteq> cSlash) t = c # r \<Longrightarrow> c = cSlash"
  by (induction t) (auto split: if_splits)

lemma plain_dropWhile: "plain t \<Longrightarrow> dropWhile P t = c # r \<Longrightarrow> plain r"
  by (metis list.set_intros(2) plain_def set_dropWhileD)

lemma suffix_match_plus:
  assumes "f = [] \<or> hd f = cSlash"
    and "\<And>r g. f = cSlash # g \<Longrightarrow> dropWhile (\<lambda>x. x \<noteq> cSlash) t = cSlash # r \<Longrightarrow>
       suffix_match' r g = code_match (levels r) (levels g)"
  shows "suffix_match (dropWhile (\<lambda>x. x \<noteq> cSlash) t) f = code_match (tl (levels t)) (tl (levels (cPlus # f)))"
proof (cases "dropWhile (\<lambda>x. x \<noteq> cSlash) t")
  case Nil
  show ?thesis using assms(1) unfolding levels_dropWhile [of t] Nil by (cases f) auto
next
  case (Cons c r)
  then have c: "c = cSlash" by (rule dropWhile_slash)
  show ?thesis
  proof (cases f)
    case Nil
    then show ?thesis using Cons by (cases "levels r") (auto simp: levels_dropWhile [of t])
  next
    case f: (Cons d g)
    then have "suffix_match' r g = code_match (levels r) (levels g)"
      using assms Cons c by auto
    then show ?thesis
      using Cons c f assms(1) by (simp add: levels_dropWhile [of t] suffix_match_Cons del: suffix_match.simps)
  qed
qed

text \<open>Two texts inside a level: the rest of the level is equal and the levels after it match.\<close>

definition rest_match :: "u8 list list \<Rightarrow> u8 list list \<Rightarrow> bool" where
  "rest_match ts fs \<longleftrightarrow> hd ts = hd fs \<and>
     (tl ts = [] \<and> tl fs = [[cHash]] \<or> code_match (tl ts) (tl fs))"

lemma code_match_literal:
  "ts \<noteq> [] \<Longrightarrow> fs \<noteq> [] \<Longrightarrow> hd fs \<noteq> [cPlus] \<Longrightarrow> hd fs \<noteq> [cHash] \<Longrightarrow> code_match ts fs = rest_match ts fs"
  by (cases ts; cases fs) (auto simp: rest_match_def)

lemma suffix_match_literal:
  assumes "d \<noteq> cPlus" "d \<noteq> cHash"
    and "c = d \<Longrightarrow> suffix_match' t f =
       (if d = cSlash then code_match (levels t) (levels f) else rest_match (levels t) (levels f))"
  shows "suffix_match (c # t) (d # f) = rest_match (levels (c # t)) (levels (d # f))"
  using assms unfolding suffix_match_Cons by (auto simp: rest_match_def)

lemma suffix_match_levels:
  "plain t \<Longrightarrow> filter_ok st f \<Longrightarrow>
     suffix_match' t f = (if st then code_match (levels t) (levels f) else rest_match (levels t) (levels f))"
proof (induction "length f" arbitrary: t f st rule: less_induct)
  case (less f t st)
  consider "t = []" | "t \<noteq> []" "f = []" | c t' d f' where "t = c # t'" "f = d # f'"
    by (metis list.exhaust)
  then show ?case
  proof cases
    case 1
    then show ?thesis using less.prems(2)
      by (cases f; cases "tl f") (auto simp: suffix_match'_def suffix_match_end_def rest_match_def)
  next
    case 2
    then show ?thesis
      by (cases t; cases "levels t") (auto simp: suffix_match'_def rest_match_def split: if_splits)
  next
    case (3 c t' d f')
    then have m: "suffix_match' t f = suffix_match (c # t') (d # f')" by (simp add: suffix_match'_def)
    consider "d = cPlus" | "d = cHash" | "d \<noteq> cPlus" "d \<noteq> cHash" by blast
    then show ?thesis
    proof cases
      assume d: "d = cPlus"
      then have g: "f' = [] \<or> hd f' = cSlash" "filter_ok False f'" and st using less.prems 3 by auto
      have "suffix_match' r g = code_match (levels r) (levels g)"
        if "f' = cSlash # g" "dropWhile (\<lambda>x. x \<noteq> cSlash) t = cSlash # r" for r g
        using less.hyps [of g r True] that g(2) 3 plain_dropWhile [OF less.prems(1) that(2)] by simp
      with g(1) have "suffix_match (dropWhile (\<lambda>x. x \<noteq> cSlash) t) f' =
          code_match (tl (levels t)) (tl (levels (cPlus # f')))"
        by (intro suffix_match_plus) auto
      moreover have "levels f = [cPlus] # tl (levels f)"
        using d 3 g(1) by (cases f') auto
      then have "code_match (levels t) (levels f) = code_match (tl (levels t)) (tl (levels f))"
        by (metis code_match_plus levels_ne list.exhaust_sel)
      moreover have "c \<noteq> cPlus" using less.prems(1) 3 by (simp add: plain_Cons)
      ultimately show ?thesis using d 3 m \<open>st\<close> by (auto simp: suffix_match_Cons simp del: suffix_match.simps)
    next
      assume "d = cHash"
      then show ?thesis
        using less.prems 3 m by (auto simp: plain_Cons)
    next
      assume d: "d \<noteq> cPlus" "d \<noteq> cHash"
      have "suffix_match (c # t') (d # f') = rest_match (levels t) (levels f)"
        using less.hyps [of f' t' "d = cSlash"] less.prems d 3 unfolding 3
        by (intro suffix_match_literal) (auto simp: plain_Cons)
      moreover have "hd (levels f) \<noteq> [cPlus]" "hd (levels f) \<noteq> [cHash]" using 3 d by auto
      ultimately show ?thesis using m code_match_literal by simp
    qed
  qed
qed

lemma hash_exception_Cons:
  assumes "ts \<noteq> []" and "fs = [[cHash]] \<Longrightarrow> ts \<noteq> [[]]"
  shows "hash_exception (t # ts) (f # fs) = hash_exception ts fs"
proof (cases "fs = [] \<or> length fs = 1")
  case True
  then show ?thesis
    using assms by (cases fs; cases ts) (auto simp: hash_exception_def)
next
  case False
  then obtain a b gs where "fs = a # b # gs" by (metis One_nat_def length_Cons list.exhaust list.size(3))
  then show ?thesis using assms by (auto simp: hash_exception_def)
qed

lemma hash_exception_one_empty: "hash_exception [t, []] [f, [cHash]]"
  by (simp add: hash_exception_def)

lemma level_match_Nil: "level_match [] fs \<longleftrightarrow> fs = [] \<or> fs = [[cHash]]"
  by (cases fs) auto

lemma code_match_exact:
  "valid_filter fs \<Longrightarrow> ts \<noteq> [] \<Longrightarrow> (fs = [[cHash]] \<Longrightarrow> ts \<noteq> [[]]) \<Longrightarrow>
     code_match ts fs \<longleftrightarrow> level_match ts fs \<and> \<not> hash_exception ts fs"
proof (induction ts arbitrary: fs)
  case (Cons t ts)
  show ?case
  proof (cases fs)
    case Nil
    then show ?thesis by (simp add: hash_exception_def)
  next
    case fs: (Cons f gs)
    show ?thesis
    proof (cases "f = [cHash]")
      case True
      then show ?thesis using Cons.prems fs by (auto simp: hash_exception_def)
    next
      case False
      consider "ts = []" | "ts = [[]]" "gs = [[cHash]]" | "ts \<noteq> []" "gs = [[cHash]] \<longrightarrow> ts \<noteq> [[]]" by blast
      then show ?thesis
      proof cases
        case 1
        then show ?thesis using False fs by (auto simp: level_match_Nil hash_exception_def)
      next
        case 2
        then show ?thesis using False fs hash_exception_one_empty by auto
      next
        case 3
        then have "code_match ts gs \<longleftrightarrow> level_match ts gs \<and> \<not> hash_exception ts gs"
          using Cons.IH [of gs] Cons.prems(1) fs by auto
        moreover have "hash_exception (t # ts) fs = hash_exception ts gs"
          unfolding fs using 3 by (intro hash_exception_Cons) auto
        ultimately show ?thesis using False fs 3 by auto
      qed
    qed
  qed
qed simp

lemma topic_filter_type:
  assumes "unat n \<le> length p"
  shows "prvGetTopicFilterType p n =
    (let f = take (unat n) p in
     if \<not> valid_filter (levels f) then eMQTTTopicFilterTypeInvalid
     else if plain f then eMQTTTopicFilterTypeSimple else eMQTTTopicFilterTypeWildCard)"
  using filter_type_loop_ok [OF assms, of 0] filter_ok_levels(1) [of "take (unat n) p"]
  by (simp add: prvGetTopicFilterType_def Let_def)

section \<open>Properties of topic filters\<close>

text \<open>
  C30. \<open>prvGetTopicFilterType\<close> classifies a topic filter as the protocol defines it: a filter
  is invalid exactly when some level holds a wild-card next to another character or a \<open>#\<close>
  before the last level, simple when it has no wild-card, and a wild-card filter
  otherwise; only the first \<open>usTopicFilterLength\<close> characters matter.
\<close>

theorem topic_filter_type_spec:
  assumes "unat n \<le> length p"
  shows "prvGetTopicFilterType p n =
    (let f = take (unat n) p in
     if \<not> valid_filter (levels f) then eMQTTTopicFilterTypeInvalid
     else if cPlus \<notin> set f \<and> cHash \<notin> set f then eMQTTTopicFilterTypeSimple
     else eMQTTTopicFilterTypeWildCard)"
  by (simp add: topic_filter_type [OF assms] plain_def Let_def)

text \<open>The filter \<open>a/+/#\<close>, with one more character of the array after it.\<close>

theorem topic_filter_type_spec_witness:
  "prvGetTopicFilterType [97, cSlash, cPlus, cSlash, cHash, 98] 5 = eMQTTTopicFilterTypeWildCard"
  using topic_filter_type_spec [of 5 "[97, cSlash, cPlus, cSlash, cHash, 98]"] by (simp add: Let_def)

text \<open>
  C31. \<open>prvDoesTopicMatchTopicFilter\<close> decides the protocol's matching of topics against
  valid filters, level by level, with exactly two exceptions, both for filters that end
  in \<open>/#\<close>: when \<open>#\<close> would stand for no level and the level before it is \<open>+\<close> (\<open>a/+/#\<close> does not
  match \<open>a/b\<close>), and when it would stand for a single empty level (\<open>a/#\<close> does not match
  \<open>a/\<close>). In particular the code never reports a match the protocol does not have.
\<close>

theorem topic_match_spec:
  assumes "unat tn \<le> length t" and "unat fn \<le> length f" and "0 < tn" and "0 < fn"
    and "cPlus \<notin> set (take (unat tn) t)" and "cHash \<notin> set (take (unat tn) t)"
    and "prvGetTopicFilterType f fn \<noteq> eMQTTTopicFilterTypeInvalid"
  shows "prvDoesTopicMatchTopicFilter t tn f fn \<longleftrightarrow>
     level_match (levels (take (unat tn) t)) (levels (take (unat fn) f)) \<and>
     \<not> hash_exception (levels (take (unat tn) t)) (levels (take (unat fn) f))"
proof -
  let ?t = "take (unat tn) t" and ?f = "take (unat fn) f"
  have ok: "filter_ok True ?f"
    using assms(7) by (auto simp: topic_filter_type [OF assms(2)] Let_def filter_ok_levels split: if_splits)
  have pos: "0 < unat tn" "0 < unat fn" using assms(3,4) by (simp_all add: word_less_nat_alt)
  then have ne: "?t \<noteq> []" using assms(1) by auto
  have "prvDoesTopicMatchTopicFilter t tn f fn = match_result (unat tn) (unat fn) (match_loop t (unat tn) f (unat fn) 0 0)"
    by (simp add: prvDoesTopicMatchTopicFilter_def match_result_def Let_def)
  also have "\<dots> = suffix_match' ?t ?f"
    using match_loop_suffix [OF assms(1,2), of 0 0] pos ne by (simp add: suffix_match'_def)
  also have "\<dots> = code_match (levels ?t) (levels ?f)"
    using suffix_match_levels [of ?t True ?f] ok assms(5,6) by (simp add: plain_def)
  also have "\<dots> \<longleftrightarrow> level_match (levels ?t) (levels ?f) \<and> \<not> hash_exception (levels ?t) (levels ?f)"
    using ok ne levels_eq_empty [of ?t] by (intro code_match_exact) (auto simp: filter_ok_levels)
  finally show ?thesis .
qed

theorem topic_match_spec_witness:
  "prvDoesTopicMatchTopicFilter [97, cSlash, 98, cSlash, 99] 5 [97, cSlash, cPlus, cSlash, 99] 5"
  using topic_match_spec [of 5 "[97, cSlash, 98, cSlash, 99]" 5 "[97, cSlash, cPlus, cSlash, 99]"]
  by (simp add: topic_filter_type Let_def plain_def hash_exception_def)

end
