(* ===== verification/MqttSub.thy ===== *)
theory MqttSub
  imports MqttTopic
begin

text \<open>
  The subscription manager of \<open>AWS/mqtt/aws_mqtt_lib.c\<close>: a fixed table of topic filters
  with the callbacks the user registered for them (\<open>prvStoreSubscription\<close>,
  \<open>prvRemoveSubscription\<close>). It implements a finite map from filters to callbacks, the
  locale \<open>filter_map\<close>.
\<close>

section \<open>Data and operations\<close>

definition mqttconfigSUBSCRIPTION_MANAGER_MAX_TOPIC_LENGTH :: nat where
  "mqttconfigSUBSCRIPTION_MANAGER_MAX_TOPIC_LENGTH = 128"

definition mqttconfigSUBSCRIPTION_MANAGER_MAX_SUBSCRIPTIONS :: nat where
  "mqttconfigSUBSCRIPTION_MANAGER_MAX_SUBSCRIPTIONS = 8"

text \<open>
  A function pointer of the user is a number that names the function, or \<open>None\<close> for
  \<open>NULL\<close>; a \<open>void *\<close> context of the user is an uninterpreted word.
\<close>

record MQTTSubscription_t =
  ucTopicFilter :: "u8 list"
  usTopicFilterLength :: u16
  pvPublishCallbackContext :: u32
  pxPublishCallback :: "nat option"
  xInUse :: bool
  xTopicFilterType :: MQTTTopicFilterType_t

record MQTTSubscriptionManager_t =
  xSubscriptions :: "MQTTSubscription_t list"
  ulInUseSubscriptions :: u32

text \<open>The test on entry \<open>e\<close> before it is removed: \<open>memcmp\<close> compares \<open>usTopicLength\<close> bytes.\<close>

definition entry_matches :: "u8 list \<Rightarrow> u16 \<Rightarrow> MQTTSubscription_t \<Rightarrow> bool" where
  "entry_matches pucTopic usTopicLength e \<longleftrightarrow>
     xInUse e \<and> usTopicFilterLength e = usTopicLength \<and>
     take (unat usTopicLength) (ucTopicFilter e) = take (unat usTopicLength) pucTopic"

function remove_subscription_loop ::
  "nat \<Rightarrow> u8 list \<Rightarrow> u16 \<Rightarrow> MQTTSubscriptionManager_t \<Rightarrow> MQTTSubscriptionManager_t" where
  "remove_subscription_loop x pucTopic usTopicLength m =
     (if x < mqttconfigSUBSCRIPTION_MANAGER_MAX_SUBSCRIPTIONS then
        if entry_matches pucTopic usTopicLength (xSubscriptions m ! x) then
          m\<lparr>xSubscriptions := (xSubscriptions m)[x := (xSubscriptions m ! x)\<lparr>xInUse := False\<rparr>],
            ulInUseSubscriptions := ulInUseSubscriptions m - 1\<rparr>
        else remove_subscription_loop (x + 1) pucTopic usTopicLength m
      else m)"
  by pat_completeness auto
termination
  by (relation "measure (\<lambda>(x, _). mqttconfigSUBSCRIPTION_MANAGER_MAX_SUBSCRIPTIONS - x)") auto

declare remove_subscription_loop.simps [simp del]

definition prvRemoveSubscription ::
  "MQTTSubscriptionManager_t \<Rightarrow> u8 list \<Rightarrow> u16 \<Rightarrow> MQTTSubscriptionManager_t" where
  "prvRemoveSubscription m pucTopic usTopicLength = remove_subscription_loop 0 pucTopic usTopicLength m"

text \<open>The search for a free entry, which is filled in. The flag tells that one was found.\<close>

function store_subscription_loop ::
  "nat \<Rightarrow> u8 list \<Rightarrow> u16 \<Rightarrow> u32 \<Rightarrow> nat option \<Rightarrow> MQTTTopicFilterType_t \<Rightarrow> MQTTSubscriptionManager_t \<Rightarrow>
     bool \<times> MQTTSubscriptionManager_t" where
  "store_subscription_loop x pucTopic usTopicLength ctx cb ty m =
     (if x < mqttconfigSUBSCRIPTION_MANAGER_MAX_SUBSCRIPTIONS then
        if \<not> xInUse (xSubscriptions m ! x) then
          (True,
           m\<lparr>xSubscriptions := (xSubscriptions m)[x :=
               (xSubscriptions m ! x)
                 \<lparr>xInUse := True,
                  ucTopicFilter := blit 0 (take (unat usTopicLength) pucTopic) (ucTopicFilter (xSubscriptions m ! x)),
                  usTopicFilterLength := usTopicLength,
                  pvPublishCallbackContext := ctx,
                  pxPublishCallback := cb,
                  xTopicFilterType := ty\<rparr>],
             ulInUseSubscriptions := ulInUseSubscriptions m + 1\<rparr>)
        else store_subscription_loop (x + 1) pucTopic usTopicLength ctx cb ty m
      else (False, m))"
  by pat_completeness auto
termination
  by (relation "measure (\<lambda>(x, _). mqttconfigSUBSCRIPTION_MANAGER_MAX_SUBSCRIPTIONS - x)") auto

declare store_subscription_loop.simps [simp del]

definition prvStoreSubscription ::
  "MQTTSubscriptionManager_t \<Rightarrow> u8 list \<Rightarrow> u16 \<Rightarrow> u32 \<Rightarrow> nat option \<Rightarrow> bool \<times> MQTTSubscriptionManager_t" where
  "prvStoreSubscription m pucTopic usTopicLength ctx cb =
     (if unat (ulInUseSubscriptions m) < mqttconfigSUBSCRIPTION_MANAGER_MAX_SUBSCRIPTIONS then
        if unat usTopicLength \<le> mqttconfigSUBSCRIPTION_MANAGER_MAX_TOPIC_LENGTH then
          (let ty = prvGetTopicFilterType pucTopic usTopicLength in
           if ty \<noteq> eMQTTTopicFilterTypeInvalid
           then store_subscription_loop 0 pucTopic usTopicLength ctx cb ty
                  (prvRemoveSubscription m pucTopic usTopicLength)
           else (False, m))
        else (False, m)
      else (False, m))"

text \<open>Marking all entries free, as \<open>MQTT_Init\<close> and \<open>prvResetMQTTContext\<close> do.\<close>

definition free_all_subscriptions :: "MQTTSubscriptionManager_t \<Rightarrow> MQTTSubscriptionManager_t" where
  "free_all_subscriptions m =
     m\<lparr>xSubscriptions := map (\<lambda>e. e\<lparr>xInUse := False\<rparr>) (xSubscriptions m), ulInUseSubscriptions := 0\<rparr>"

section \<open>The interface: a bounded map\<close>

text \<open>
  What the library relies on: the table behaves as a map that takes a new entry when
  \<open>admit\<close> allows it, and from which an entry can be removed. \<open>key\<close> restricts the keys the
  operations can be called with.
\<close>

datatype ('k, 'v) map_op = Store 'k 'v | Remove 'k

fun spec_op :: "(('k \<Rightarrow> 'v option) \<Rightarrow> 'k \<Rightarrow> bool) \<Rightarrow> ('k, 'v) map_op \<Rightarrow> ('k \<Rightarrow> 'v option) \<Rightarrow> 'k \<Rightarrow> 'v option" where
  "spec_op admit (Store k v) f = (if admit f k then f(k \<mapsto> v) else f)"
| "spec_op admit (Remove k) f = f(k := None)"

fun op_key :: "('k, 'v) map_op \<Rightarrow> 'k" where
  "op_key (Store k v) = k"
| "op_key (Remove k) = k"

fun exec_op :: "('m \<Rightarrow> 'k \<Rightarrow> 'v \<Rightarrow> bool \<times> 'm) \<Rightarrow> ('m \<Rightarrow> 'k \<Rightarrow> 'm) \<Rightarrow> ('k, 'v) map_op \<Rightarrow> 'm \<Rightarrow> 'm" where
  "exec_op store remove (Store k v) m = snd (store m k v)"
| "exec_op store remove (Remove k) m = remove m k"

locale filter_map =
  fixes lookup :: "'m \<Rightarrow> 'k \<Rightarrow> 'v option"
    and store :: "'m \<Rightarrow> 'k \<Rightarrow> 'v \<Rightarrow> bool \<times> 'm"
    and remove :: "'m \<Rightarrow> 'k \<Rightarrow> 'm"
    and inv :: "'m \<Rightarrow> bool"
    and key :: "'k \<Rightarrow> bool"
    and admit :: "('k \<Rightarrow> 'v option) \<Rightarrow> 'k \<Rightarrow> bool"
  assumes store_flag: "inv m \<Longrightarrow> key k \<Longrightarrow> fst (store m k v) = admit (lookup m) k"
    and store_inv: "inv m \<Longrightarrow> key k \<Longrightarrow> inv (snd (store m k v))"
    and store_lookup: "inv m \<Longrightarrow> key k \<Longrightarrow>
      lookup (snd (store m k v)) = (if admit (lookup m) k then (lookup m)(k \<mapsto> v) else lookup m)"
    and remove_inv: "inv m \<Longrightarrow> key k \<Longrightarrow> inv (remove m k)"
    and remove_lookup: "inv m \<Longrightarrow> key k \<Longrightarrow> lookup (remove m k) = (lookup m)(k := None)"
begin

lemma exec_op_ok:
  "inv m \<Longrightarrow> key (op_key a) \<Longrightarrow> inv (exec_op store remove a m) \<and> lookup (exec_op store remove a m) = spec_op admit a (lookup m)"
  by (cases a) (simp_all add: store_inv store_lookup remove_inv remove_lookup)

text \<open>Any sequence of operations has the effect of the same sequence on the map.\<close>

lemma run_refines:
  "inv m \<Longrightarrow> list_all (key \<circ> op_key) as \<Longrightarrow>
     inv (fold (exec_op store remove) as m) \<and> lookup (fold (exec_op store remove) as m) = fold (spec_op admit) as (lookup m)"
proof (induction "as" arbitrary: m)
  case (Cons a "as")
  then show ?case using exec_op_ok [of m a] by simp
qed simp

lemma store_then_remove:
  "inv m \<Longrightarrow> key k \<Longrightarrow> lookup (remove (snd (store m k v)) k) = (lookup m)(k := None)"
  by (auto simp: remove_lookup store_inv store_lookup)

end

section \<open>The map the manager implements\<close>

definition filter_of :: "MQTTSubscription_t \<Rightarrow> u8 list" where
  "filter_of e = take (unat (usTopicFilterLength e)) (ucTopicFilter e)"

text \<open>The filters in use, with the callback and the context registered for each.\<close>

definition sub_entries :: "MQTTSubscriptionManager_t \<Rightarrow> (u8 list \<times> nat option \<times> u32) list" where
  "sub_entries m = map (\<lambda>e. (filter_of e, pxPublishCallback e, pvPublishCallbackContext e))
     (filter xInUse (xSubscriptions m))"

definition sub_lookup :: "MQTTSubscriptionManager_t \<Rightarrow> u8 list \<Rightarrow> (nat option \<times> u32) option" where
  "sub_lookup m = map_of (sub_entries m)"

text \<open>
  The invariant of the manager: the table has its configured size, the counter counts the
  entries in use, and an entry in use holds a valid filter, its type, and no other entry
  in use holds the same filter.
\<close>

definition entry_ok :: "MQTTSubscription_t \<Rightarrow> bool" where
  "entry_ok e \<longleftrightarrow> length (ucTopicFilter e) = mqttconfigSUBSCRIPTION_MANAGER_MAX_TOPIC_LENGTH \<and>
     (xInUse e \<longrightarrow> unat (usTopicFilterLength e) \<le> mqttconfigSUBSCRIPTION_MANAGER_MAX_TOPIC_LENGTH \<and>
        xTopicFilterType e = prvGetTopicFilterType (ucTopicFilter e) (usTopicFilterLength e) \<and>
        xTopicFilterType e \<noteq> eMQTTTopicFilterTypeInvalid)"

definition sub_inv :: "MQTTSubscriptionManager_t \<Rightarrow> bool" where
  "sub_inv m \<longleftrightarrow> length (xSubscriptions m) = mqttconfigSUBSCRIPTION_MANAGER_MAX_SUBSCRIPTIONS \<and>
     unat (ulInUseSubscriptions m) = length (filter xInUse (xSubscriptions m)) \<and>
     list_all entry_ok (xSubscriptions m) \<and>
     distinct (map fst (sub_entries m))"

lemmas sub_config_defs = mqttconfigSUBSCRIPTION_MANAGER_MAX_TOPIC_LENGTH_def
  mqttconfigSUBSCRIPTION_MANAGER_MAX_SUBSCRIPTIONS_def

section \<open>The loops\<close>

lemma remove_loop_cases:
  "length (xSubscriptions m) = 8 \<Longrightarrow> x \<le> 8 \<Longrightarrow> \<forall>y\<in>set (take x (xSubscriptions m)). \<not> entry_matches t n y \<Longrightarrow>
     (\<forall>e\<in>set (xSubscriptions m). \<not> entry_matches t n e) \<and> remove_subscription_loop x t n m = m \<or>
     (\<exists>ys e zs. xSubscriptions m = ys @ e # zs \<and> entry_matches t n e \<and>
        remove_subscription_loop x t n m =
          m\<lparr>xSubscriptions := ys @ e\<lparr>xInUse := False\<rparr> # zs, ulInUseSubscriptions := ulInUseSubscriptions m - 1\<rparr>)"
proof (induction x t n m rule: remove_subscription_loop.induct)
  case (1 x t n m)
  let ?s = "xSubscriptions m"
  show ?case
  proof (cases "x < 8")
    case True
    then have s: "?s = take x ?s @ ?s ! x # drop (Suc x) ?s"
      using "1.prems"(1) by (simp add: id_take_nth_drop)
    show ?thesis
    proof (cases "entry_matches t n (?s ! x)")
      case m: True
      then have "remove_subscription_loop x t n m = m\<lparr>xSubscriptions := take x ?s @ (?s ! x)\<lparr>xInUse := False\<rparr> # drop (Suc x) ?s,
          ulInUseSubscriptions := ulInUseSubscriptions m - 1\<rparr>"
        using True "1.prems"(1)
        by (subst remove_subscription_loop.simps) (simp add: sub_config_defs upd_conv_take_nth_drop)
      then show ?thesis using s m by blast
    next
      case False
      then have "remove_subscription_loop x t n m = remove_subscription_loop (x + 1) t n m"
        using True by (subst remove_subscription_loop.simps) (simp add: sub_config_defs)
      moreover have "\<forall>y\<in>set (take (x + 1) ?s). \<not> entry_matches t n y"
        using "1.prems" True False by (simp add: take_Suc_conv_app_nth)
      ultimately show ?thesis
        using "1.IH" True False "1.prems"(1) by (simp add: sub_config_defs)
    qed
  next
    case False
    then have "remove_subscription_loop x t n m = m"
      by (subst remove_subscription_loop.simps) (simp add: sub_config_defs)
    then show ?thesis using "1.prems" False by simp
  qed
qed

lemma store_loop_cases:
  "length (xSubscriptions m) = 8 \<Longrightarrow> x \<le> 8 \<Longrightarrow> \<forall>y\<in>set (take x (xSubscriptions m)). xInUse y \<Longrightarrow>
     (\<forall>e\<in>set (xSubscriptions m). xInUse e) \<and> store_subscription_loop x t n ctx cb ty m = (False, m) \<or>
     (\<exists>ys e zs. xSubscriptions m = ys @ e # zs \<and> \<not> xInUse e \<and>
        store_subscription_loop x t n ctx cb ty m = (True,
          m\<lparr>xSubscriptions := ys @ e\<lparr>xInUse := True, ucTopicFilter := blit 0 (take (unat n) t) (ucTopicFilter e),
               usTopicFilterLength := n, pvPublishCallbackContext := ctx, pxPublishCallback := cb,
               xTopicFilterType := ty\<rparr> # zs,
            ulInUseSubscriptions := ulInUseSubscriptions m + 1\<rparr>))"
proof (induction x t n ctx cb ty m rule: store_subscription_loop.induct)
  case (1 x t n ctx cb ty m)
  let ?s = "xSubscriptions m"
  show ?case
  proof (cases "x < 8")
    case True
    then have s: "?s = take x ?s @ ?s ! x # drop (Suc x) ?s"
      using "1.prems"(1) by (simp add: id_take_nth_drop)
    show ?thesis
    proof (cases "xInUse (?s ! x)")
      case m: False
      then have "store_subscription_loop x t n ctx cb ty m = (True,
          m\<lparr>xSubscriptions := take x ?s @ (?s ! x)\<lparr>xInUse := True,
               ucTopicFilter := blit 0 (take (unat n) t) (ucTopicFilter (?s ! x)),
               usTopicFilterLength := n, pvPublishCallbackContext := ctx, pxPublishCallback := cb,
               xTopicFilterType := ty\<rparr> # drop (Suc x) ?s,
            ulInUseSubscriptions := ulInUseSubscriptions m + 1\<rparr>)"
        using True "1.prems"(1)
        by (subst store_subscription_loop.simps) (simp add: sub_config_defs upd_conv_take_nth_drop)
      then show ?thesis using s m by blast
    next
      case used: True
      then have "store_subscription_loop x t n ctx cb ty m = store_subscription_loop (x + 1) t n ctx cb ty m"
        using True by (subst store_subscription_loop.simps) (simp add: sub_config_defs)
      moreover have "\<forall>y\<in>set (take (x + 1) ?s). xInUse y"
        using "1.prems" True used by (simp add: take_Suc_conv_app_nth)
      ultimately show ?thesis
        using "1.IH" True used "1.prems"(1) by (simp add: sub_config_defs)
    qed
  next
    case False
    then have "store_subscription_loop x t n ctx cb ty m = (False, m)"
      by (subst store_subscription_loop.simps) (simp add: sub_config_defs)
    then show ?thesis using "1.prems" False by simp
  qed
qed

section \<open>The manager implements a map\<close>

lemma entry_matches_iff:
  assumes "entry_ok e" and "unat n \<le> length t"
  shows "entry_matches t n e \<longleftrightarrow> xInUse e \<and> filter_of e = take (unat n) t"
proof -
  have "usTopicFilterLength e = n" if "xInUse e" "filter_of e = take (unat n) t"
  proof -
    have "length (filter_of e) = unat (usTopicFilterLength e)"
      using assms(1) that(1) by (simp add: filter_of_def entry_ok_def sub_config_defs)
    then have "unat (usTopicFilterLength e) = unat n" using that(2) assms(2) by simp
    then show ?thesis by (simp add: word_unat_eq_iff)
  qed
  then show ?thesis by (auto simp: entry_matches_def filter_of_def)
qed

lemma map_of_delete:
  "distinct (map fst (a @ (k, v) # b)) \<Longrightarrow> map_of (a @ b) = (map_of (a @ (k, v) # b))(k := None)"
  by (induction a) (auto simp: fun_eq_iff map_of_eq_None_iff)

lemma map_of_insert:
  "k \<notin> fst ` set (a @ b) \<Longrightarrow> map_of (a @ (k, v) # b) = (map_of (a @ b))(k \<mapsto> v)"
  by (induction a) (auto simp: fun_eq_iff map_add_def split: option.splits)

definition entry_pair :: "MQTTSubscription_t \<Rightarrow> u8 list \<times> nat option \<times> u32" where
  "entry_pair e = (filter_of e, pxPublishCallback e, pvPublishCallbackContext e)"

lemma sub_entries_split:
  "xSubscriptions m = ys @ e # zs \<Longrightarrow> sub_entries m =
     map entry_pair (filter xInUse ys) @ (if xInUse e then [entry_pair e] else []) @ map entry_pair (filter xInUse zs)"
  by (simp add: sub_entries_def entry_pair_def [abs_def])

lemma remove_spec:
  assumes "sub_inv m" and "unat n \<le> length t"
  shows "sub_inv (prvRemoveSubscription m t n)"
    and "sub_lookup (prvRemoveSubscription m t n) = (sub_lookup m)(take (unat n) t := None)"
    and "unat (ulInUseSubscriptions (prvRemoveSubscription m t n)) \<le> unat (ulInUseSubscriptions m)"
proof -
  let ?m = "prvRemoveSubscription m t n" and ?k = "take (unat n) t"
  have l: "length (xSubscriptions m) = 8" and ok: "\<forall>e\<in>set (xSubscriptions m). entry_ok e"
    using assms(1) by (auto simp: sub_inv_def sub_config_defs list_all_iff)
  from remove_loop_cases [OF l, of 0 t n]
  consider (none) "\<forall>e\<in>set (xSubscriptions m). \<not> entry_matches t n e" "?m = m"
    | (one) ys e zs where "xSubscriptions m = ys @ e # zs" "entry_matches t n e"
        "?m = m\<lparr>xSubscriptions := ys @ e\<lparr>xInUse := False\<rparr> # zs, ulInUseSubscriptions := ulInUseSubscriptions m - 1\<rparr>"
    unfolding prvRemoveSubscription_def by auto
  then have "sub_inv ?m \<and> sub_lookup ?m = (sub_lookup m)(?k := None) \<and>
      unat (ulInUseSubscriptions ?m) \<le> unat (ulInUseSubscriptions m)"
  proof cases
    case none
    then have "?k \<notin> fst ` set (sub_entries m)"
      using ok assms(2) by (auto simp: sub_entries_def entry_matches_iff)
    then have "sub_lookup m ?k = None" by (simp add: sub_lookup_def map_of_eq_None_iff)
    then show ?thesis using none assms(1) by (simp add: fun_upd_idem)
  next
    case one
    then have e: "xInUse e" "filter_of e = ?k" "entry_ok e"
      using ok assms(2) by (auto simp: entry_matches_iff)
    let ?a = "map entry_pair (filter xInUse ys)" and ?b = "map entry_pair (filter xInUse zs)"
    have m: "sub_entries m = ?a @ (?k, snd (entry_pair e)) # ?b"
      using sub_entries_split [OF one(1)] e by (simp add: entry_pair_def)
    have m': "sub_entries ?m = ?a @ ?b"
      using sub_entries_split [of ?m ys "e\<lparr>xInUse := False\<rparr>" zs] one(3) by simp
    have d: "distinct (map fst (sub_entries m))" using assms(1) by (simp add: sub_inv_def)
    have c: "unat (ulInUseSubscriptions m) = Suc (length (filter xInUse ys) + length (filter xInUse zs))"
      using assms(1) one(1) e by (simp add: sub_inv_def)
    then have c': "unat (ulInUseSubscriptions m - 1) = length (filter xInUse ys) + length (filter xInUse zs)"
      by (subst unat_sub) (auto simp: word_le_nat_alt)
    have "sub_lookup ?m = (sub_lookup m)(?k := None)"
      using d unfolding sub_lookup_def m m' by (rule map_of_delete)
    moreover have "sub_inv ?m"
      using assms(1) one e d c' m m' unfolding sub_inv_def by (auto simp: entry_ok_def list_all_iff)
    ultimately show ?thesis using one(3) c c' by simp
  qed
  then show "sub_inv ?m" "sub_lookup ?m = (sub_lookup m)(?k := None)"
    "unat (ulInUseSubscriptions ?m) \<le> unat (ulInUseSubscriptions m)" by auto
qed

lemma filter_type_blit:
  assumes "unat n \<le> length t" and "unat n \<le> length d"
  shows "prvGetTopicFilterType (blit 0 (take (unat n) t) d) n = prvGetTopicFilterType t n"
proof -
  let ?b = "blit 0 (take (unat n) t) d"
  have "take (unat n) ?b = take (unat n) t" "unat n \<le> length ?b"
    using assms by (simp_all add: blit_def)
  then show ?thesis using assms by (simp add: topic_filter_type)
qed

lemma store_spec:
  assumes "sub_inv m" and "unat n \<le> length t"
  defines "ok \<equiv> unat (ulInUseSubscriptions m) < 8 \<and> unat n \<le> 128 \<and>
     prvGetTopicFilterType t n \<noteq> eMQTTTopicFilterTypeInvalid"
  shows "fst (prvStoreSubscription m t n ctx cb) = ok"
    and "sub_inv (snd (prvStoreSubscription m t n ctx cb))"
    and "sub_lookup (snd (prvStoreSubscription m t n ctx cb)) =
       (if ok then (sub_lookup m)(take (unat n) t \<mapsto> (cb, ctx)) else sub_lookup m)"
proof -
  let ?r = "prvStoreSubscription m t n ctx cb" and ?k = "take (unat n) t"
  have "fst ?r = ok \<and> sub_inv (snd ?r) \<and>
      sub_lookup (snd ?r) = (if ok then (sub_lookup m)(?k \<mapsto> (cb, ctx)) else sub_lookup m)"
  proof (cases ok)
    case False
    then have "?r = (False, m)"
      by (auto simp: ok_def prvStoreSubscription_def sub_config_defs Let_def)
    then show ?thesis using False assms(1) by simp
  next
    case True
    let ?m = "prvRemoveSubscription m t n" and ?ty = "prvGetTopicFilterType t n"
    have r: "?r = store_subscription_loop 0 t n ctx cb ?ty ?m"
      using True by (auto simp: ok_def prvStoreSubscription_def sub_config_defs Let_def)
    note rm = remove_spec [OF assms(1,2)]
    have l: "length (xSubscriptions ?m) = 8"
      using rm(1) by (simp add: sub_inv_def sub_config_defs)
    have "length (filter xInUse (xSubscriptions ?m)) < 8"
      using rm(1,3) True by (simp add: sub_inv_def ok_def)
    then have "\<not> (\<forall>e\<in>set (xSubscriptions ?m). xInUse e)" using l by (metis filter_True less_irrefl)
    moreover have b: "\<forall>y\<in>set (take 0 (xSubscriptions ?m)). xInUse y" by simp
    ultimately obtain ys e zs where s: "xSubscriptions ?m = ys @ e # zs" "\<not> xInUse e"
      and r': "?r = (True, ?m\<lparr>xSubscriptions := ys @ e\<lparr>xInUse := True, ucTopicFilter := blit 0 ?k (ucTopicFilter e),
               usTopicFilterLength := n, pvPublishCallbackContext := ctx, pxPublishCallback := cb,
               xTopicFilterType := ?ty\<rparr> # zs,
            ulInUseSubscriptions := ulInUseSubscriptions ?m + 1\<rparr>)"
      (is "?r = (True, ?m\<lparr>xSubscriptions := ys @ ?e # zs, ulInUseSubscriptions := _\<rparr>)")
      using store_loop_cases [OF l le0 b, of t n ctx cb ?ty] unfolding r by blast
    let ?a = "map entry_pair (filter xInUse ys)" and ?b = "map entry_pair (filter xInUse zs)"
    have len: "length (ucTopicFilter e) = 128" "unat n \<le> 128"
      using rm(1) s(1) True by (auto simp: sub_inv_def list_all_iff entry_ok_def sub_config_defs ok_def)
    then have fe: "filter_of ?e = ?k" using assms(2) by (simp add: filter_of_def blit_def)
    have eok: "entry_ok ?e"
      using len True assms(2) by (simp add: entry_ok_def sub_config_defs filter_type_blit ok_def)
    have m: "sub_entries ?m = ?a @ ?b" using sub_entries_split [OF s(1)] s(2) by simp
    have m': "sub_entries (snd ?r) = ?a @ (?k, cb, ctx) # ?b"
      using sub_entries_split [of "snd ?r" ys ?e zs] fe unfolding r' by (simp add: entry_pair_def)
    have "sub_lookup ?m ?k = None" using rm(2) by simp
    then have k: "?k \<notin> fst ` set (?a @ ?b)" unfolding sub_lookup_def m by (simp add: map_of_eq_None_iff image_Un)
    have d: "distinct (map fst (?a @ ?b))" using rm(1) m by (simp add: sub_inv_def)
    have c: "unat (ulInUseSubscriptions ?m) = length (filter xInUse ys) + length (filter xInUse zs)"
      using rm(1) s by (simp add: sub_inv_def)
    then have c': "unat (ulInUseSubscriptions ?m + 1) = Suc (length (filter xInUse ys) + length (filter xInUse zs))"
      using rm(3) True by (subst unat_add_u32) (auto simp: ok_def)
    have "sub_lookup (snd ?r) = (sub_lookup ?m)(?k \<mapsto> (cb, ctx))"
      unfolding sub_lookup_def m m' using k by (rule map_of_insert)
    moreover have "sub_inv (snd ?r)"
    proof -
      have "list_all entry_ok (xSubscriptions (snd ?r))"
        using rm(1) s(1) eok unfolding r' by (simp add: sub_inv_def)
      moreover have "distinct (map fst (sub_entries (snd ?r)))" using d k unfolding m' by auto
      ultimately show ?thesis using l s c' unfolding sub_inv_def r' by (simp add: sub_config_defs)
    qed
    ultimately show ?thesis using True rm(2) r' by simp
  qed
  then show "fst ?r = ok" "sub_inv (snd ?r)"
    "sub_lookup (snd ?r) = (if ok then (sub_lookup m)(?k \<mapsto> (cb, ctx)) else sub_lookup m)" by auto
qed

lemma free_all_spec:
  assumes "sub_inv m"
  shows "sub_inv (free_all_subscriptions m)" and "sub_lookup (free_all_subscriptions m) = Map.empty"
proof -
  have "filter xInUse (map (\<lambda>e. e\<lparr>xInUse := False\<rparr>) (xSubscriptions m)) = []"
    by (simp add: filter_map o_def)
  then have "sub_entries (free_all_subscriptions m) = []"
    "filter xInUse (xSubscriptions (free_all_subscriptions m)) = []"
    by (auto simp: sub_entries_def free_all_subscriptions_def)
  moreover have "list_all entry_ok (xSubscriptions (free_all_subscriptions m))"
    using assms by (auto simp: sub_inv_def free_all_subscriptions_def list_all_iff entry_ok_def)
  ultimately show "sub_inv (free_all_subscriptions m)" "sub_lookup (free_all_subscriptions m) = Map.empty"
    using assms by (auto simp: sub_inv_def sub_lookup_def free_all_subscriptions_def)
qed

lemma card_dom_lookup:
  assumes "sub_inv m"
  shows "card (dom (sub_lookup m)) = unat (ulInUseSubscriptions m)"
proof -
  have "card (dom (sub_lookup m)) = length (map fst (sub_entries m))"
    using assms unfolding sub_lookup_def dom_map_of_conv_image_fst sub_inv_def
    by (metis distinct_card list.set_map)
  then show ?thesis using assms by (simp add: sub_inv_def sub_entries_def)
qed

text \<open>The operations with the filter given as a list of its characters.\<close>

definition sub_store :: "MQTTSubscriptionManager_t \<Rightarrow> u8 list \<Rightarrow> nat option \<times> u32 \<Rightarrow> bool \<times> MQTTSubscriptionManager_t" where
  "sub_store m k v = prvStoreSubscription m k (of_nat (length k)) (snd v) (fst v)"

definition sub_remove :: "MQTTSubscriptionManager_t \<Rightarrow> u8 list \<Rightarrow> MQTTSubscriptionManager_t" where
  "sub_remove m k = prvRemoveSubscription m k (of_nat (length k))"

definition sub_key :: "u8 list \<Rightarrow> bool" where
  "sub_key k \<longleftrightarrow> length k < 65536"

definition sub_admit :: "(u8 list \<Rightarrow> (nat option \<times> u32) option) \<Rightarrow> u8 list \<Rightarrow> bool" where
  "sub_admit f k \<longleftrightarrow> card (dom f) < mqttconfigSUBSCRIPTION_MANAGER_MAX_SUBSCRIPTIONS \<and>
     length k \<le> mqttconfigSUBSCRIPTION_MANAGER_MAX_TOPIC_LENGTH \<and> valid_filter (levels k)"

lemma sub_admit_iff:
  assumes "sub_inv m" and "sub_key k"
  shows "sub_admit (sub_lookup m) k \<longleftrightarrow> unat (ulInUseSubscriptions m) < 8 \<and> unat (of_nat (length k) :: u16) \<le> 128 \<and>
     prvGetTopicFilterType k (of_nat (length k)) \<noteq> eMQTTTopicFilterTypeInvalid"
  using assms unat_of_nat_u16 [of "length k"]
  by (simp add: sub_admit_def card_dom_lookup sub_config_defs sub_key_def topic_filter_type Let_def)

interpretation submap: filter_map sub_lookup sub_store sub_remove sub_inv sub_key sub_admit
proof
  fix m k v
  assume i: "sub_inv m" and k: "sub_key k"
  then have n: "unat (of_nat (length k) :: u16) = length k"
    using unat_of_nat_u16 [of "length k"] by (simp add: sub_key_def)
  then have le: "unat (of_nat (length k) :: u16) \<le> length k" by simp
  show "fst (sub_store m k v) = sub_admit (sub_lookup m) k"
    using store_spec(1) [OF i le] unfolding sub_store_def sub_admit_iff [OF i k] .
  show "sub_inv (snd (sub_store m k v))"
    using store_spec(2) [OF i le] unfolding sub_store_def .
  show "sub_lookup (snd (sub_store m k v)) =
      (if sub_admit (sub_lookup m) k then (sub_lookup m)(k \<mapsto> v) else sub_lookup m)"
    using store_spec(3) [OF i le, of "snd v" "fst v"] n unfolding sub_store_def sub_admit_iff [OF i k] by simp
  show "sub_inv (sub_remove m k)" "sub_lookup (sub_remove m k) = (sub_lookup m)(k := None)"
    using remove_spec(1,2) [OF i le] n by (simp_all add: sub_remove_def)
qed

section \<open>Properties of the subscription manager\<close>

text \<open>
  C32. The subscription manager keeps its invariant: after any sequence of stores and
  removals on an initialised table, the counter is the number of entries in use, no
  filter is registered twice, and every entry in use holds a valid filter of at most
  128 characters with its type.
\<close>

theorem subscription_invariant:
  assumes "sub_inv m" and "list_all (sub_key \<circ> op_key) ops"
  shows "sub_inv (fold (exec_op sub_store sub_remove) ops m)"
  using submap.run_refines [OF assms] by simp

text \<open>
  C21. The subscription manager refines a map from filters to callbacks that holds at most
  eight entries: every sequence of stores and removals has the effect it has on the
  map, where a store is refused exactly when the map holds eight entries already, the
  filter is longer than 128 characters, or it is not a valid filter.
\<close>

theorem subscription_refines_map:
  assumes "sub_inv m" and "list_all (sub_key \<circ> op_key) ops"
  shows "sub_lookup (fold (exec_op sub_store sub_remove) ops m) = fold (spec_op sub_admit) ops (sub_lookup m)"
  using submap.run_refines [OF assms] by simp

text \<open>An empty table, and three operations on it.\<close>

definition empty_entry :: MQTTSubscription_t where
  "empty_entry = \<lparr>ucTopicFilter = replicate 128 0, usTopicFilterLength = 0, pvPublishCallbackContext = 0,
     pxPublishCallback = None, xInUse = False, xTopicFilterType = eMQTTTopicFilterTypeInvalid\<rparr>"

definition empty_manager :: MQTTSubscriptionManager_t where
  "empty_manager = \<lparr>xSubscriptions = replicate 8 empty_entry, ulInUseSubscriptions = 0\<rparr>"

definition example_ops :: "(u8 list, nat option \<times> u32) map_op list" where
  "example_ops = [Store [97] (Some 1, 10), Store [98, cSlash, cHash] (Some 2, 20), Remove [97]]"

lemma empty_manager_inv: "sub_inv empty_manager"
  by (simp add: sub_inv_def empty_manager_def empty_entry_def sub_config_defs entry_ok_def list_all_iff sub_entries_def)

lemma example_ops_keys: "list_all (sub_key \<circ> op_key) example_ops"
  by (simp add: example_ops_def sub_key_def)

lemma empty_manager_lookup: "sub_lookup empty_manager = Map.empty"
  by (simp add: sub_lookup_def sub_entries_def empty_manager_def empty_entry_def)

theorem subscription_invariant_witness:
  "sub_inv (fold (exec_op sub_store sub_remove) example_ops empty_manager)"
  by (rule subscription_invariant [OF empty_manager_inv example_ops_keys])

theorem subscription_refines_map_witness:
  "sub_lookup (fold (exec_op sub_store sub_remove) example_ops empty_manager) = [[98, cSlash, cHash] \<mapsto> (Some 2, 20)]"
  using subscription_refines_map [OF empty_manager_inv example_ops_keys]
  by (simp add: empty_manager_lookup example_ops_def sub_admit_def sub_config_defs fun_eq_iff)

end
