(* ===== verification/BufferPool.thy ===== *)
theory BufferPool
  imports Prelude
begin

text \<open>
  The static buffer pool of \<open>AWS/bufferpool/aws_bufferpool_static_thread_safe.c\<close>,
  at the level of addresses: the pool is a byte array placed at some address, each
  row of it holds one in-use byte in front of an aligned data area, and the
  operations read and write those bytes. The interface that the MQTT library takes
  from a pool is the locale \<open>buffer_pool\<close>; the pool is an interpretation of it.
  A step relation interleaves the critical sections of several tasks.
\<close>

section \<open>Layout\<close>

definition bufferpoolconfigNUM_BUFFERS :: nat where
  "bufferpoolconfigNUM_BUFFERS = 8"

definition bufferpoolconfigBUFFER_SIZE :: u32 where
  "bufferpoolconfigBUFFER_SIZE = 2048 + 128"

text \<open>\<open>sizeof( BufferMetadata_t )\<close>: the structure has one \<open>uint8_t\<close>.\<close>

definition sizeof_BufferMetadata :: u32 where
  "sizeof_BufferMetadata = 1"

definition row_size :: u32 where
  "row_size = sizeof_BufferMetadata + bufferpoolconfigBUFFER_SIZE + (portBYTE_ALIGNMENT - 1)"

record bufferpool =
  bp_base :: addr
  bp_mem :: "addr \<Rightarrow> u8"

definition ucBufferPool :: "bufferpool \<Rightarrow> nat \<Rightarrow> addr" where
  "ucBufferPool bp x = bp_base bp + of_nat x * row_size"

definition bufferpoolstaticALIGN_POINTER :: "addr \<Rightarrow> addr" where
  "bufferpoolstaticALIGN_POINTER p = (p + (portBYTE_ALIGNMENT - 1)) AND NOT portBYTE_ALIGNMENT_MASK"

definition bufferpoolstaticRESERVE_METADATA_SPACE :: "addr \<Rightarrow> addr" where
  "bufferpoolstaticRESERVE_METADATA_SPACE p = p + sizeof_BufferMetadata"

definition bufferpoolstaticDATA_LOCATION_IN_BUFFER :: "addr \<Rightarrow> addr" where
  "bufferpoolstaticDATA_LOCATION_IN_BUFFER p =
     bufferpoolstaticALIGN_POINTER (bufferpoolstaticRESERVE_METADATA_SPACE p)"

text \<open>The address of the in-use byte that belongs to a data location.\<close>

definition bufferpoolstaticBUFFER_IN_USE_FROM_DATA_LOCATION :: "addr \<Rightarrow> addr" where
  "bufferpoolstaticBUFFER_IN_USE_FROM_DATA_LOCATION p = p - sizeof_BufferMetadata"

definition bufferpoolstaticBUFFER_IN_USE :: "addr \<Rightarrow> addr" where
  "bufferpoolstaticBUFFER_IN_USE p =
     bufferpoolstaticBUFFER_IN_USE_FROM_DATA_LOCATION (bufferpoolstaticDATA_LOCATION_IN_BUFFER p)"

section \<open>Operations\<close>

function BUFFERPOOL_Init_loop :: "nat \<Rightarrow> bufferpool \<Rightarrow> bufferpool" where
  "BUFFERPOOL_Init_loop x bp =
     (if x < bufferpoolconfigNUM_BUFFERS
      then BUFFERPOOL_Init_loop (x + 1)
             (bp\<lparr>bp_mem := (bp_mem bp)(bufferpoolstaticBUFFER_IN_USE (ucBufferPool bp x) := 0)\<rparr>)
      else bp)"
  by pat_completeness auto
termination
  by (relation "measure (\<lambda>(x, _). bufferpoolconfigNUM_BUFFERS - x)") auto

declare BUFFERPOOL_Init_loop.simps [simp del]

definition BUFFERPOOL_Init :: "bufferpool \<Rightarrow> bufferpool" where
  "BUFFERPOOL_Init bp = BUFFERPOOL_Init_loop 0 bp"

text \<open>
  One iteration of the search is one critical section: the in-use byte of row \<open>x\<close> is
  tested and, when it is 0, set.
\<close>

definition BUFFERPOOL_try_row :: "bufferpool \<Rightarrow> nat \<Rightarrow> addr option \<times> bufferpool" where
  "BUFFERPOOL_try_row bp x =
     (let a = bufferpoolstaticBUFFER_IN_USE (ucBufferPool bp x) in
      if bp_mem bp a = 0
      then (Some (bufferpoolstaticDATA_LOCATION_IN_BUFFER (ucBufferPool bp x)),
            bp\<lparr>bp_mem := (bp_mem bp)(a := 1)\<rparr>)
      else (None, bp))"

function BUFFERPOOL_search :: "nat \<Rightarrow> bufferpool \<Rightarrow> addr option \<times> bufferpool" where
  "BUFFERPOOL_search x bp =
     (if x < bufferpoolconfigNUM_BUFFERS then
        (case BUFFERPOOL_try_row bp x of
           (Some p, bp') \<Rightarrow> (Some p, bp')
         | (None, bp') \<Rightarrow> BUFFERPOOL_search (x + 1) bp')
      else (None, bp))"
  by pat_completeness auto
termination
  by (relation "measure (\<lambda>(x, _). bufferpoolconfigNUM_BUFFERS - x)") auto

declare BUFFERPOOL_search.simps [simp del]

text \<open>
  The length is an in/out parameter of the C function: it comes back with the size of
  the buffer that was found and is unchanged otherwise, so the model returns it with
  the buffer.
\<close>

definition BUFFERPOOL_GetFreeBuffer :: "bufferpool \<Rightarrow> u32 \<Rightarrow> (addr \<times> u32) option \<times> bufferpool" where
  "BUFFERPOOL_GetFreeBuffer bp ulBufferLength =
     (if ulBufferLength \<le> bufferpoolconfigBUFFER_SIZE then
        (case BUFFERPOOL_search 0 bp of
           (Some p, bp') \<Rightarrow> (Some (p, bufferpoolconfigBUFFER_SIZE), bp')
         | (None, bp') \<Rightarrow> (None, bp'))
      else (None, bp))"

definition BUFFERPOOL_ReturnBuffer :: "bufferpool \<Rightarrow> addr \<Rightarrow> bufferpool" where
  "BUFFERPOOL_ReturnBuffer bp p =
     bp\<lparr>bp_mem := (bp_mem bp)(bufferpoolstaticBUFFER_IN_USE_FROM_DATA_LOCATION p := 0)\<rparr>"

section \<open>The interface a pool offers\<close>

text \<open>
  What a client may rely on: a buffer that is handed out was not in use, is at least as
  long as requested and is not null; a buffer that is given back is no longer in use;
  nothing else changes.
\<close>

locale buffer_pool =
  fixes get :: "'p \<Rightarrow> u32 \<Rightarrow> (addr \<times> u32) option \<times> 'p"
    and ret :: "'p \<Rightarrow> addr \<Rightarrow> 'p"
    and inuse :: "'p \<Rightarrow> addr set"
    and pinv :: "'p \<Rightarrow> bool"
  assumes get_some: "pinv p \<Longrightarrow> get p n = (Some (h, m), p') \<Longrightarrow>
      h \<notin> inuse p \<and> inuse p' = insert h (inuse p) \<and> n \<le> m \<and> h \<noteq> 0 \<and> pinv p'"
    and get_none: "pinv p \<Longrightarrow> get p n = (None, p') \<Longrightarrow> inuse p' = inuse p \<and> pinv p'"
    and ret_inv: "pinv p \<Longrightarrow> h \<in> inuse p \<Longrightarrow> pinv (ret p h)"
    and ret_inuse: "pinv p \<Longrightarrow> h \<in> inuse p \<Longrightarrow> inuse (ret p h) = inuse p - {h}"
begin

text \<open>Giving a buffer back right after getting it restores the set of buffers in use.\<close>

lemma get_ret_inuse:
  assumes "pinv p" and "get p n = (Some (h, m), p')"
  shows "inuse (ret p' h) = inuse p"
proof -
  have "h \<notin> inuse p" "inuse p' = insert h (inuse p)" "pinv p'"
    using get_some [OF assms] by auto
  then show ?thesis using ret_inuse [of p' h] by auto
qed

text \<open>Two buffers obtained one after the other are different.\<close>

lemma get_get_distinct:
  assumes "pinv p" and "get p n = (Some (h, m), p')" and "get p' n' = (Some (h', m'), p'')"
  shows "h \<noteq> h'"
  using get_some [OF assms(1,2)] get_some [of p' n' h' m' p''] assms(3) by auto

end

text \<open>A pool that hands out large buffers only, whatever length was requested.\<close>

locale sized_pool = buffer_pool +
  assumes get_large: "pinv p \<Longrightarrow> get p n = (Some (h, m), p') \<Longrightarrow> 64 \<le> m"

section \<open>Layout facts\<close>

lemmas pool_config_defs = bufferpoolconfigNUM_BUFFERS_def bufferpoolconfigBUFFER_SIZE_def
  portBYTE_ALIGNMENT_def portBYTE_ALIGNMENT_MASK_def sizeof_BufferMetadata_def

lemma row_size_eq: "row_size = 2184"
  by (simp add: row_size_def pool_config_defs)

text \<open>The linker places the whole array inside the address space, not at address 0.\<close>

definition pool_placed :: "bufferpool \<Rightarrow> bool" where
  "pool_placed bp \<longleftrightarrow> unat (bp_base bp) + 8 * 2184 < 4294967296"

lemma unat_ucBufferPool:
  assumes "pool_placed bp" and "x < 8"
  shows "unat (ucBufferPool bp x) = unat (bp_base bp) + x * 2184"
proof -
  have m: "unat (of_nat x * 2184 :: u32) = x * 2184"
    using assms(2) by (simp add: unat_word_ariths unat_of_nat_u32)
  then show ?thesis
    unfolding ucBufferPool_def row_size_eq
    using assms by (subst unat_add_u32) (auto simp: pool_placed_def)
qed

lemma align8_word: "(w::u32) AND - 8 = push_bit 3 (drop_bit 3 w)"
proof -
  have "w AND NOT (mask 3) = push_bit 3 (drop_bit 3 w)"
    by (rule bit_word_eqI) (auto simp: bit_simps)
  moreover have "NOT (mask 3) = (- 8 :: u32)" by (simp add: mask_eq_exp_minus_1)
  ultimately show ?thesis by simp
qed

lemma unat_align8: "unat ((w::u32) AND - 8) = unat w div 8 * 8"
proof -
  have "unat (drop_bit 3 w) = unat w div 8"
    by (simp add: unat_drop_bit_eq drop_bit_eq_div unat_div)
  moreover have "unat w div 8 * 8 < 4294967296"
    using unat_u32_lt [of w] by (meson div_times_less_eq_dividend le_less_trans)
  ultimately show ?thesis
    by (simp add: align8_word push_bit_eq_mult unat_word_ariths mult.commute)
qed

lemma unat_data_location:
  assumes "unat p + 8 < 4294967296"
  shows "unat (bufferpoolstaticDATA_LOCATION_IN_BUFFER p) = (unat p + 8) div 8 * 8"
proof -
  have "unat (p + 1 + 7) = unat p + 8"
    using assms by (simp add: unat_add_u32 add.assoc)
  then show ?thesis
    by (simp add: bufferpoolstaticDATA_LOCATION_IN_BUFFER_def bufferpoolstaticALIGN_POINTER_def
        bufferpoolstaticRESERVE_METADATA_SPACE_def pool_config_defs unat_align8)
qed

definition data_loc :: "bufferpool \<Rightarrow> nat \<Rightarrow> addr" where
  "data_loc bp x = bufferpoolstaticDATA_LOCATION_IN_BUFFER (ucBufferPool bp x)"

definition flag_addr :: "bufferpool \<Rightarrow> nat \<Rightarrow> addr" where
  "flag_addr bp x = bufferpoolstaticBUFFER_IN_USE (ucBufferPool bp x)"

definition pool_inuse :: "bufferpool \<Rightarrow> addr set" where
  "pool_inuse bp = data_loc bp ` {x. x < 8 \<and> bp_mem bp (flag_addr bp x) \<noteq> 0}"

lemma unat_data_loc:
  assumes "pool_placed bp" and "x < 8"
  shows "unat (data_loc bp x) = (unat (bp_base bp) + x * 2184 + 8) div 8 * 8"
proof -
  have "unat (ucBufferPool bp x) + 8 < 4294967296"
    using assms by (simp add: unat_ucBufferPool pool_placed_def)
  then show ?thesis
    using assms by (simp add: data_loc_def unat_data_location unat_ucBufferPool)
qed

lemma data_loc_bounds:
  assumes "pool_placed bp" and "x < 8"
  shows "unat (bp_base bp) + x * 2184 < unat (data_loc bp x)"
    and "unat (data_loc bp x) \<le> unat (bp_base bp) + x * 2184 + 8"
  using unat_data_loc [OF assms] by linarith+

lemma data_loc_inj:
  assumes "pool_placed bp" and "x < 8" and "y < 8" and "data_loc bp x = data_loc bp y"
  shows "x = y"
proof -
  have "unat (data_loc bp x) = unat (data_loc bp y)"
    using assms(4) by simp
  then show ?thesis
    using data_loc_bounds [OF assms(1,2)] data_loc_bounds [OF assms(1,3)] by linarith
qed

lemma flag_addr_data_loc: "flag_addr bp x = data_loc bp x - 1"
  by (simp add: flag_addr_def data_loc_def bufferpoolstaticBUFFER_IN_USE_def
      bufferpoolstaticBUFFER_IN_USE_FROM_DATA_LOCATION_def sizeof_BufferMetadata_def)

lemma unat_flag_addr:
  assumes "pool_placed bp" and "x < 8"
  shows "unat (flag_addr bp x) = unat (data_loc bp x) - 1"
  using data_loc_bounds(1) [OF assms] unfolding flag_addr_data_loc
  by (subst unat_sub) (auto simp: word_le_nat_alt)

lemma flag_addr_inj:
  "pool_placed bp \<Longrightarrow> x < 8 \<Longrightarrow> y < 8 \<Longrightarrow> flag_addr bp x = flag_addr bp y \<Longrightarrow> x = y"
  by (auto simp: flag_addr_data_loc intro: data_loc_inj)

lemma pool_update_base [simp]:
  "data_loc (bp\<lparr>bp_mem := m\<rparr>) = data_loc bp"
  "flag_addr (bp\<lparr>bp_mem := m\<rparr>) = flag_addr bp"
  "pool_placed (bp\<lparr>bp_mem := m\<rparr>) = pool_placed bp"
  by (auto simp: data_loc_def flag_addr_def ucBufferPool_def pool_placed_def fun_eq_iff)

lemma return_addr:
  "bufferpoolstaticBUFFER_IN_USE_FROM_DATA_LOCATION (data_loc bp x) = flag_addr bp x"
  by (simp add: flag_addr_data_loc bufferpoolstaticBUFFER_IN_USE_FROM_DATA_LOCATION_def
      sizeof_BufferMetadata_def)

section \<open>Behaviour of the operations\<close>

lemma try_row_cases:
  "BUFFERPOOL_try_row bp x =
     (if bp_mem bp (flag_addr bp x) = 0
      then (Some (data_loc bp x), bp\<lparr>bp_mem := (bp_mem bp)(flag_addr bp x := 1)\<rparr>)
      else (None, bp))"
  by (simp add: BUFFERPOOL_try_row_def Let_def flag_addr_def data_loc_def)

lemma search_Some:
  "BUFFERPOOL_search x bp = (Some p, bp') \<Longrightarrow>
     \<exists>y. x \<le> y \<and> y < 8 \<and> bp_mem bp (flag_addr bp y) = 0 \<and> p = data_loc bp y \<and>
         bp' = bp\<lparr>bp_mem := (bp_mem bp)(flag_addr bp y := 1)\<rparr>"
proof (induction x bp rule: BUFFERPOOL_search.induct)
  case (1 x bp)
  show ?case
  proof (cases "x < 8 \<and> bp_mem bp (flag_addr bp x) \<noteq> 0")
    case True
    with "1.prems" have "BUFFERPOOL_search (x + 1) bp = (Some p, bp')"
      by (subst (asm) BUFFERPOOL_search.simps) (simp add: try_row_cases bufferpoolconfigNUM_BUFFERS_def)
    with True "1.IH" [of None bp]
    have "\<exists>y\<ge>x + 1. y < 8 \<and> bp_mem bp (flag_addr bp y) = 0 \<and> p = data_loc bp y \<and>
       bp' = bp\<lparr>bp_mem := (bp_mem bp)(flag_addr bp y := 1)\<rparr>"
      by (simp add: try_row_cases bufferpoolconfigNUM_BUFFERS_def fun_upd_def)
    then show ?thesis using add_leD1 by blast
  next
    case False
    with "1.prems" have "x < 8 \<and> bp_mem bp (flag_addr bp x) = 0 \<and> p = data_loc bp x \<and>
        bp' = bp\<lparr>bp_mem := (bp_mem bp)(flag_addr bp x := 1)\<rparr>"
      by (subst (asm) BUFFERPOOL_search.simps)
        (simp add: try_row_cases bufferpoolconfigNUM_BUFFERS_def split: if_splits)
    then show ?thesis by blast
  qed
qed

lemma search_None:
  "BUFFERPOOL_search x bp = (None, bp') \<Longrightarrow>
     bp' = bp \<and> (\<forall>y. x \<le> y \<and> y < 8 \<longrightarrow> bp_mem bp (flag_addr bp y) \<noteq> 0)"
proof (induction x bp rule: BUFFERPOOL_search.induct)
  case (1 x bp)
  show ?case
  proof (cases "x < 8")
    case True
    with "1.prems" have nz: "bp_mem bp (flag_addr bp x) \<noteq> 0"
      and rest: "BUFFERPOOL_search (x + 1) bp = (None, bp')"
      by (subst (asm) BUFFERPOOL_search.simps,
          simp add: try_row_cases bufferpoolconfigNUM_BUFFERS_def split: if_splits)+
    from "1.IH" [of None bp] True nz rest
    have "bp' = bp \<and> (\<forall>y. x + 1 \<le> y \<and> y < 8 \<longrightarrow> bp_mem bp (flag_addr bp y) \<noteq> 0)"
      by (simp add: try_row_cases bufferpoolconfigNUM_BUFFERS_def)
    with nz show ?thesis by (metis Suc_eq_plus1 not_less_eq_eq le_antisym)
  next
    case False
    with "1.prems" show ?thesis
      by (subst (asm) BUFFERPOOL_search.simps) (auto simp: bufferpoolconfigNUM_BUFFERS_def)
  qed
qed

lemma inuse_set_flag:
  assumes "pool_placed bp" and "y < 8"
  shows "pool_inuse (bp\<lparr>bp_mem := (bp_mem bp)(flag_addr bp y := v)\<rparr>) =
     (if v = 0 then pool_inuse bp - {data_loc bp y} else insert (data_loc bp y) (pool_inuse bp))"
  using assms by (auto simp: pool_inuse_def dest: data_loc_inj flag_addr_inj)

lemma get_buffer_some:
  assumes "pool_placed bp" and "BUFFERPOOL_GetFreeBuffer bp n = (Some (h, m), bp')"
  shows "h \<notin> pool_inuse bp" and "pool_inuse bp' = insert h (pool_inuse bp)"
    and "n \<le> m" and "m = bufferpoolconfigBUFFER_SIZE" and "h \<noteq> 0" and "pool_placed bp'"
proof -
  from assms(2) have s: "BUFFERPOOL_search 0 bp = (Some h, bp')" and n: "n \<le> bufferpoolconfigBUFFER_SIZE"
    and m: "m = bufferpoolconfigBUFFER_SIZE"
    by (auto simp: BUFFERPOOL_GetFreeBuffer_def split: if_splits prod.splits option.splits)
  from search_Some [OF s] obtain y where y: "y < 8" "bp_mem bp (flag_addr bp y) = 0"
    "h = data_loc bp y" "bp' = bp\<lparr>bp_mem := (bp_mem bp)(flag_addr bp y := 1)\<rparr>"
    by auto
  show "h \<notin> pool_inuse bp"
    using y assms(1) by (auto simp: pool_inuse_def dest: data_loc_inj)
  show "pool_inuse bp' = insert h (pool_inuse bp)"
    using y assms(1) by (simp add: inuse_set_flag)
  show "n \<le> m" "m = bufferpoolconfigBUFFER_SIZE" using n m by auto
  show "h \<noteq> 0" using data_loc_bounds(1) [OF assms(1) y(1)] y(3) by auto
  show "pool_placed bp'" using y(4) assms(1) by simp
qed

lemma get_buffer_none:
  assumes "BUFFERPOOL_GetFreeBuffer bp n = (None, bp')"
  shows "bp' = bp"
  using assms
  by (auto simp: BUFFERPOOL_GetFreeBuffer_def dest: search_None split: if_splits prod.splits option.splits)

text \<open>A request that fits fails only when all buffers are in use.\<close>

lemma get_buffer_exhausted:
  assumes "pool_placed bp" and "BUFFERPOOL_GetFreeBuffer bp n = (None, bp')" and "n \<le> bufferpoolconfigBUFFER_SIZE"
  shows "card (pool_inuse bp) = 8"
proof -
  from assms(2,3) have "BUFFERPOOL_search 0 bp = (None, bp')"
    by (auto simp: BUFFERPOOL_GetFreeBuffer_def split: prod.splits option.splits)
  from search_None [OF this] have "{x. x < 8 \<and> bp_mem bp (flag_addr bp x) \<noteq> 0} = {..<8}" by auto
  moreover have "inj_on (data_loc bp) {..<8}" by (auto intro!: inj_onI data_loc_inj [OF assms(1)])
  ultimately show ?thesis by (simp add: pool_inuse_def card_image)
qed

lemma get_buffer_available:
  "pool_placed bp \<Longrightarrow> n \<le> 2176 \<Longrightarrow> card (pool_inuse bp) < 8 \<Longrightarrow> fst (BUFFERPOOL_GetFreeBuffer bp n) \<noteq> None"
  using get_buffer_exhausted [of bp n "snd (BUFFERPOOL_GetFreeBuffer bp n)"]
  by (cases "fst (BUFFERPOOL_GetFreeBuffer bp n)")
    (auto simp: bufferpoolconfigBUFFER_SIZE_def prod_eq_iff)

interpretation bpool: buffer_pool BUFFERPOOL_GetFreeBuffer BUFFERPOOL_ReturnBuffer pool_inuse pool_placed
proof unfold_locales
  fix bp n h m bp'
  assume "pool_placed bp" "BUFFERPOOL_GetFreeBuffer bp n = (Some (h, m), bp')"
  then show "h \<notin> pool_inuse bp \<and> pool_inuse bp' = insert h (pool_inuse bp) \<and> n \<le> m \<and> h \<noteq> 0 \<and>
      pool_placed bp'"
    using get_buffer_some [of bp n h m bp'] by auto
next
  fix bp n bp'
  assume "pool_placed bp" "BUFFERPOOL_GetFreeBuffer bp n = (None, bp')"
  then show "pool_inuse bp' = pool_inuse bp \<and> pool_placed bp'"
    using get_buffer_none by blast
next
  fix bp h
  assume "pool_placed bp"
  then show "pool_placed (BUFFERPOOL_ReturnBuffer bp h)"
    by (simp add: BUFFERPOOL_ReturnBuffer_def)
next
  fix bp h
  assume bp: "pool_placed bp" and "h \<in> pool_inuse bp"
  then obtain x where "x < 8" "h = data_loc bp x" by (auto simp: pool_inuse_def)
  then show "pool_inuse (BUFFERPOOL_ReturnBuffer bp h) = pool_inuse bp - {h}"
    using bp by (simp add: BUFFERPOOL_ReturnBuffer_def return_addr inuse_set_flag)
qed

interpretation spool: sized_pool BUFFERPOOL_GetFreeBuffer BUFFERPOOL_ReturnBuffer pool_inuse pool_placed
  by unfold_locales
    (auto simp: BUFFERPOOL_GetFreeBuffer_def bufferpoolconfigBUFFER_SIZE_def split: if_splits prod.splits option.splits)

section \<open>Properties of the pool\<close>

text \<open>
  The layout computed by the alignment macros is sound: for every row of the array
  the data location is 8-byte aligned, the in-use byte lies inside the row in front of
  the data area, and the data area of \<open>bufferpoolconfigBUFFER_SIZE\<close> bytes ends before
  the row does. So no client that stays inside its area can touch another row or an
  in-use byte.
\<close>

theorem pool_layout:
  assumes "pool_placed bp" and "x < bufferpoolconfigNUM_BUFFERS"
  shows "8 dvd unat (bufferpoolstaticDATA_LOCATION_IN_BUFFER (ucBufferPool bp x)) \<and>
         unat (ucBufferPool bp x) \<le> unat (bufferpoolstaticBUFFER_IN_USE (ucBufferPool bp x)) \<and>
         unat (bufferpoolstaticBUFFER_IN_USE (ucBufferPool bp x)) <
           unat (bufferpoolstaticDATA_LOCATION_IN_BUFFER (ucBufferPool bp x)) \<and>
         unat (bufferpoolstaticDATA_LOCATION_IN_BUFFER (ucBufferPool bp x)) +
           unat bufferpoolconfigBUFFER_SIZE \<le> unat (ucBufferPool bp x) + unat row_size"
proof -
  have x: "x < 8" using assms(2) by (simp add: bufferpoolconfigNUM_BUFFERS_def)
  have "unat bufferpoolconfigBUFFER_SIZE = 2176" "unat row_size = 2184"
    by (simp_all add: bufferpoolconfigBUFFER_SIZE_def row_size_eq)
  then show ?thesis
    using unat_data_loc [OF assms(1) x] data_loc_bounds [OF assms(1) x] unat_flag_addr [OF assms(1) x]
      unat_ucBufferPool [OF assms(1) x]
    by (auto simp: data_loc_def [symmetric] flag_addr_def [symmetric])
qed

definition example_pool :: bufferpool where
  "example_pool = \<lparr>bp_base = 0x20000001, bp_mem = (\<lambda>_. 0)\<rparr>"

lemma example_pool_placed: "pool_placed example_pool"
  by (simp add: example_pool_def pool_placed_def)

theorem pool_layout_witness:
  "bufferpoolstaticDATA_LOCATION_IN_BUFFER (ucBufferPool example_pool 1) = 0x20000890 \<and>
   8 dvd unat (bufferpoolstaticDATA_LOCATION_IN_BUFFER (ucBufferPool example_pool 1))"
proof -
  have "bufferpoolstaticDATA_LOCATION_IN_BUFFER (ucBufferPool example_pool 1) = 0x20000890"
    by (simp add: bufferpoolstaticDATA_LOCATION_IN_BUFFER_def bufferpoolstaticALIGN_POINTER_def
        bufferpoolstaticRESERVE_METADATA_SPACE_def ucBufferPool_def pool_config_defs row_size_eq
        example_pool_def)
  then show ?thesis
    using pool_layout [OF example_pool_placed, of 1] by (simp add: bufferpoolconfigNUM_BUFFERS_def)
qed

text \<open>
  C16. \<open>BUFFERPOOL_GetFreeBuffer\<close> fails exactly when the request is larger than a buffer of
  the pool or when all eight buffers are in use; when it fails, nothing changes. When
  it succeeds, the buffer was not in use before, is the only one whose state changes,
  and the length that comes back is the full buffer size.
\<close>

theorem get_free_buffer_spec:
  assumes "pool_placed bp"
  shows "case BUFFERPOOL_GetFreeBuffer bp n of
      (None, bp') \<Rightarrow> bp' = bp \<and>
         (bufferpoolconfigBUFFER_SIZE < n \<or> card (pool_inuse bp) = bufferpoolconfigNUM_BUFFERS)
    | (Some (h, m), bp') \<Rightarrow> n \<le> m \<and> m = bufferpoolconfigBUFFER_SIZE \<and> h \<noteq> 0 \<and>
         h \<notin> pool_inuse bp \<and> pool_inuse bp' = insert h (pool_inuse bp)"
proof (cases "BUFFERPOOL_GetFreeBuffer bp n")
  case (Pair r bp')
  show ?thesis
  proof (cases r)
    case None
    then have "n \<le> bufferpoolconfigBUFFER_SIZE \<Longrightarrow> card (pool_inuse bp) = 8"
      using get_buffer_exhausted [OF assms] Pair by simp
    then show ?thesis
      using Pair None get_buffer_none [of bp n bp']
      by (auto simp: bufferpoolconfigNUM_BUFFERS_def not_less [symmetric])
  next
    case (Some hm)
    then show ?thesis using Pair assms get_buffer_some [of bp n _ _ bp'] by (cases hm) auto
  qed
qed

theorem get_free_buffer_spec_witness:
  "fst (BUFFERPOOL_GetFreeBuffer example_pool 100) = Some (0x20000008, 2176) \<and>
   (0x20000008 :: addr) \<notin> pool_inuse example_pool"
proof -
  have r: "BUFFERPOOL_GetFreeBuffer example_pool 100 =
      (Some (0x20000008, 2176), snd (BUFFERPOOL_GetFreeBuffer example_pool 100))"
    by (simp add: BUFFERPOOL_GetFreeBuffer_def BUFFERPOOL_search.simps [of 0] BUFFERPOOL_try_row_def Let_def
        bufferpoolstaticDATA_LOCATION_IN_BUFFER_def bufferpoolstaticALIGN_POINTER_def
        bufferpoolstaticRESERVE_METADATA_SPACE_def ucBufferPool_def pool_config_defs row_size_eq
        example_pool_def)
  have "(0x20000008 :: addr) \<notin> pool_inuse example_pool"
    using get_free_buffer_spec [OF example_pool_placed, of 100] by (subst (asm) r) simp
  with r show ?thesis by (metis fst_conv)
qed

section \<open>Several tasks\<close>

text \<open>
  The critical sections of the pool functions interleave with those of other tasks. A
  task outside the pool functions is idle or holds one buffer; inside
  \<open>BUFFERPOOL_GetFreeBuffer\<close> it is about to examine row \<open>x\<close>. Each step is one critical
  section of one task.
\<close>

datatype pool_task = TIdle | TScan nat | THold addr

inductive pool_step :: "bufferpool \<times> (nat \<Rightarrow> pool_task) \<Rightarrow> bufferpool \<times> (nat \<Rightarrow> pool_task) \<Rightarrow> bool" where
  call: "ts i = TIdle \<Longrightarrow> n \<le> bufferpoolconfigBUFFER_SIZE \<Longrightarrow> pool_step (bp, ts) (bp, ts(i := TScan 0))"
| hit: "ts i = TScan x \<Longrightarrow> x < bufferpoolconfigNUM_BUFFERS \<Longrightarrow>
     BUFFERPOOL_try_row bp x = (Some p, bp') \<Longrightarrow> pool_step (bp, ts) (bp', ts(i := THold p))"
| miss: "ts i = TScan x \<Longrightarrow> x < bufferpoolconfigNUM_BUFFERS \<Longrightarrow>
     BUFFERPOOL_try_row bp x = (None, bp') \<Longrightarrow> pool_step (bp, ts) (bp', ts(i := TScan (x + 1)))"
| exhausted: "ts i = TScan x \<Longrightarrow> \<not> x < bufferpoolconfigNUM_BUFFERS \<Longrightarrow>
     pool_step (bp, ts) (bp, ts(i := TIdle))"
| give_back: "ts i = THold p \<Longrightarrow> pool_step (bp, ts) (BUFFERPOOL_ReturnBuffer bp p, ts(i := TIdle))"

inductive pool_reachable :: "bufferpool \<Rightarrow> bufferpool \<times> (nat \<Rightarrow> pool_task) \<Rightarrow> bool" for bp0 where
  start: "pool_reachable bp0 (BUFFERPOOL_Init bp0, \<lambda>_. TIdle)"
| step: "pool_reachable bp0 s \<Longrightarrow> pool_step s s' \<Longrightarrow> pool_reachable bp0 s'"

text \<open>The buffers in use are exactly the ones held, each by one task.\<close>

definition held_inv :: "bufferpool \<times> (nat \<Rightarrow> pool_task) \<Rightarrow> bool" where
  "held_inv s \<longleftrightarrow> (case s of (bp, ts) \<Rightarrow>
     pool_placed bp \<and> pool_inuse bp = {p. \<exists>i. ts i = THold p} \<and>
     (\<forall>i j p. ts i = THold p \<and> ts j = THold p \<longrightarrow> i = j))"

lemma init_loop_flags:
  "bp_base (BUFFERPOOL_Init_loop x bp) = bp_base bp \<and>
   (\<forall>y. x \<le> y \<and> y < 8 \<longrightarrow> bp_mem (BUFFERPOOL_Init_loop x bp) (flag_addr bp y) = 0) \<and>
   (\<forall>a. bp_mem bp a = 0 \<longrightarrow> bp_mem (BUFFERPOOL_Init_loop x bp) a = 0)"
proof (induction x bp rule: BUFFERPOOL_Init_loop.induct)
  case (1 x bp)
  show ?case
  proof (cases "x < 8")
    case True
    then have eq: "BUFFERPOOL_Init_loop x bp =
        BUFFERPOOL_Init_loop (x + 1) (bp\<lparr>bp_mem := (bp_mem bp)(flag_addr bp x := 0)\<rparr>)"
      by (subst BUFFERPOOL_Init_loop.simps) (simp add: bufferpoolconfigNUM_BUFFERS_def flag_addr_def)
    have IH: "bp_base (BUFFERPOOL_Init_loop x bp) = bp_base bp"
      "\<And>y. x + 1 \<le> y \<Longrightarrow> y < 8 \<Longrightarrow> bp_mem (BUFFERPOOL_Init_loop x bp) (flag_addr bp y) = 0"
      "\<And>a. a = flag_addr bp x \<or> bp_mem bp a = 0 \<Longrightarrow> bp_mem (BUFFERPOOL_Init_loop x bp) a = 0"
      using "1.IH" True unfolding eq
      by (auto simp: bufferpoolconfigNUM_BUFFERS_def flag_addr_def [symmetric])
    show ?thesis using IH by (metis Suc_eq_plus1 not_less_eq_eq le_antisym)
  next
    case False
    then show ?thesis by (auto simp: BUFFERPOOL_Init_loop.simps [of x bp] bufferpoolconfigNUM_BUFFERS_def)
  qed
qed

lemma init_inuse:
  shows "pool_inuse (BUFFERPOOL_Init bp) = {}" and "pool_placed (BUFFERPOOL_Init bp) = pool_placed bp"
proof -
  have base: "bp_base (BUFFERPOOL_Init bp) = bp_base bp"
    using init_loop_flags [of 0 bp] by (simp add: BUFFERPOOL_Init_def)
  then have "flag_addr (BUFFERPOOL_Init bp) = flag_addr bp"
    by (simp add: flag_addr_def ucBufferPool_def fun_eq_iff)
  then show "pool_inuse (BUFFERPOOL_Init bp) = {}"
    using init_loop_flags [of 0 bp] by (auto simp: pool_inuse_def BUFFERPOOL_Init_def)
  show "pool_placed (BUFFERPOOL_Init bp) = pool_placed bp"
    using base by (simp add: pool_placed_def)
qed

lemma held_inv_move:
  assumes "held_inv (bp, ts)" and "\<And>p. ts i \<noteq> THold p" and "\<And>p. v \<noteq> THold p"
  shows "held_inv (bp, ts(i := v))"
proof -
  have "(ts(i := v)) j = THold p \<longleftrightarrow> ts j = THold p" for j p
    using assms(2,3) by simp
  then show ?thesis using assms(1) unfolding held_inv_def by simp
qed

lemma pool_step_held:
  assumes "pool_step s s'" and "held_inv s"
  shows "held_inv s'"
  using assms
proof (induction rule: pool_step.induct)
  case (hit ts i x bp p bp')
  then have p: "p = data_loc bp x" "bp' = bp\<lparr>bp_mem := (bp_mem bp)(flag_addr bp x := 1)\<rparr>"
    "bp_mem bp (flag_addr bp x) = 0" "x < 8" and pl: "pool_placed bp"
    by (auto simp: try_row_cases bufferpoolconfigNUM_BUFFERS_def held_inv_def split: if_splits)
  then have "p \<notin> pool_inuse bp" "pool_inuse bp' = insert p (pool_inuse bp)" "pool_placed bp'"
    using inuse_set_flag [OF pl, of x 1] by (auto simp: pool_inuse_def dest: data_loc_inj)
  moreover have "{q. \<exists>j. (ts(i := THold p)) j = THold q} = insert p {q. \<exists>j. ts j = THold q}"
    using hit(1) by (auto split: if_splits) (metis pool_task.distinct(5))
  moreover have "(ts(i := THold p)) j = THold q \<longleftrightarrow> (if j = i then q = p else ts j = THold q)" for j q
    by auto
  ultimately show ?case using hit unfolding held_inv_def by (auto split: if_splits)
next
  case (give_back ts i p bp)
  then have "p \<in> pool_inuse bp" "pool_placed bp" by (auto simp: held_inv_def)
  then have "pool_inuse (BUFFERPOOL_ReturnBuffer bp p) = pool_inuse bp - {p}"
    "pool_placed (BUFFERPOOL_ReturnBuffer bp p)"
    by (auto simp: bpool.ret_inuse bpool.ret_inv)
  moreover have "(ts(i := TIdle)) j = THold q \<longleftrightarrow> ts j = THold q \<and> q \<noteq> p" for j q
    using give_back by (auto simp: held_inv_def)
  ultimately show ?case using give_back unfolding held_inv_def by auto
qed (auto simp: try_row_cases intro: held_inv_move split: if_splits)

lemma pool_reachable_held:
  "pool_reachable bp0 s \<Longrightarrow> pool_placed bp0 \<Longrightarrow> held_inv s"
  by (induction rule: pool_reachable.induct)
    (auto simp: held_inv_def [of "(BUFFERPOOL_Init bp0, _)"] init_inuse intro: pool_step_held)

text \<open>
  C15. Thread safety. In every state that any interleaving of tasks can reach from an
  initialised pool, no two tasks hold the same buffer, and the buffers marked in use
  are exactly the buffers some task holds, so none is lost.
\<close>

theorem pool_mutual_exclusion:
  assumes "pool_placed bp0" and "pool_reachable bp0 (bp, ts)"
  shows "(\<forall>i j p. ts i = THold p \<longrightarrow> ts j = THold p \<longrightarrow> i = j) \<and>
         pool_inuse bp = {p. \<exists>i. ts i = THold p}"
  using pool_reachable_held [OF assms(2,1)] by (auto simp: held_inv_def)

theorem pool_mutual_exclusion_witness:
  "\<exists>bp ts. pool_reachable example_pool (bp, ts) \<and> ts 0 = THold 0x20000008 \<and>
     pool_inuse bp = {p. \<exists>i. ts i = THold p}"
proof -
  let ?b = "BUFFERPOOL_Init example_pool"
  let ?ts = "(\<lambda>_. TIdle)(0 := TScan 0) :: nat \<Rightarrow> pool_task"
  have "pool_step (?b, \<lambda>_. TIdle) (?b, ?ts)"
    by (rule pool_step.call [where n = 0]) simp_all
  then have r1: "pool_reachable example_pool (?b, ?ts)"
    using pool_reachable.step [OF pool_reachable.start] by blast
  have "bp_base ?b = bp_base example_pool" "bp_mem ?b (flag_addr example_pool 0) = 0"
    using init_loop_flags [of 0 example_pool] by (simp_all add: BUFFERPOOL_Init_def)
  then have row0: "BUFFERPOOL_try_row ?b 0 =
      (Some 0x20000008, ?b\<lparr>bp_mem := (bp_mem ?b)(flag_addr example_pool 0 := 1)\<rparr>)"
    by (simp add: BUFFERPOOL_try_row_def Let_def flag_addr_def ucBufferPool_def example_pool_def
        bufferpoolstaticDATA_LOCATION_IN_BUFFER_def bufferpoolstaticALIGN_POINTER_def
        bufferpoolstaticRESERVE_METADATA_SPACE_def pool_config_defs)
  let ?b' = "?b\<lparr>bp_mem := (bp_mem ?b)(flag_addr example_pool 0 := 1)\<rparr>"
  have "pool_step (?b, ?ts) (?b', ?ts(0 := THold 0x20000008))"
    by (rule pool_step.hit [OF _ _ row0]) (simp_all add: bufferpoolconfigNUM_BUFFERS_def)
  then have r2: "pool_reachable example_pool (?b', ?ts(0 := THold 0x20000008))"
    by (rule pool_reachable.step [OF r1])
  show ?thesis
    by (intro exI conjI, rule r2, simp, rule conjunct2 [OF pool_mutual_exclusion [OF example_pool_placed r2]])
qed

end
