(* ===== verification/MqttContext.thy ===== *)
theory MqttContext
  imports MqttCodec MqttSub BufferPool
begin

text \<open>
  The state of the MQTT library (\<open>FreeRTOS/include/aws_mqtt_lib.h\<close>,
  \<open>private/aws_mqtt_buffer.h\<close>) and the helpers of \<open>AWS/mqtt/aws_mqtt_lib.c\<close> that every
  operation uses: buffers, the list of packets waiting for an acknowledgment, time,
  transmission and the user's callbacks.

  The library calls code of its user through function pointers. A pointer is a number
  here, and an environment gives each number its function. What the user's code does
  may depend on everything that happened so far, which is kept as a trace; a
  statement that holds for every environment holds for every behaviour of the user's
  code, as long as that code does not call back into the library.
\<close>

section \<open>Types of the library\<close>

datatype MQTTReturnCode_t =
    eMQTTSuccess | eMQTTFailure | eMQTTClientAlreadyConnected | eMQTTClientConnectionInProgress
  | eMQTTClientNotConnected | eMQTTNoFreeBuffer | eMQTTSendFailed | eMQTTMalformedPacketReceived
  | eMQTTSubscriptionManagerFull

datatype MQTTRxNextByte_t = eMQTTRxNextBytePacketType | eMQTTRxNextBytePacketLength | eMQTTRxNextByteMessage

datatype MQTTRxMessageAction_t = eMQTTRxMessageStore | eMQTTRxMessageDrop

datatype MQTTDisconnectReason_t =
    eMQTTDisconnectReasonMalformedPacket | eMQTTDisconnectReasonBrokerRefusedConnection
  | eMQTTDisconnectReasonUserRequest | eMQTTDisconnectReasonConnectTimeout

datatype MQTTQoS_t = eMQTTQoS0 | eMQTTQoS1 | eMQTTQoS2

datatype MQTTConnectionState_t = eMQTTNotConnected | eMQTTConnectionInProgress | eMQTTConnected

datatype MQTTConnACKReturnCode_t =
    eMQTTConnACKConnectionAccepted | eMQTTConnACKUnacceptableProtocolVersion
  | eMQTTConnACKIdentifierRejected | eMQTTConnACKServerUnavailable
  | eMQTTConnACKBadUsernameOrPassword | eMQTTConnACKUnauthorized

datatype MQTTSubACKReturnCode_t =
    eMQTTSubACKSuccessQos0 | eMQTTSubACKSuccessQos1 | eMQTTSubACKSuccessQos2 | eMQTTSubACKFailure

text \<open>The value of the enumeration constant.\<close>

fun qos_value :: "MQTTQoS_t \<Rightarrow> u8" where
  "qos_value eMQTTQoS0 = 0"
| "qos_value eMQTTQoS1 = 1"
| "qos_value eMQTTQoS2 = 2"

text \<open>A pointer into a buffer is the list of the bytes from there to the end of the buffer.\<close>

record MQTTPublishData_t =
  pd_xQos :: MQTTQoS_t
  pd_pucTopic :: "u8 list"
  pd_usTopicLength :: u16
  pd_pvData :: "u8 list"
  pd_ulDataLength :: u32
  pd_xBuffer :: addr

text \<open>The event type with the member of the union that is meaningful for it.\<close>

datatype MQTTEventCallbackParams_t =
    eMQTTPublish MQTTPublishData_t
  | eMQTTConnACK MQTTConnACKReturnCode_t u16
  | eMQTTUnexpectedConnACK
  | eMQTTPubACK u16
  | eMQTTUnexpectedPubACK
  | eMQTTSubACK MQTTSubACKReturnCode_t u16
  | eMQTTUnexpectedSubACK
  | eMQTTUnSubACK u16
  | eMQTTUnexpectedUnSubACK
  | eMQTTClientDisconnected MQTTDisconnectReason_t
  | eMQTTPacketDropped
  | eMQTTTimeout u16
  | eMQTTPingTimeout

text \<open>
  An MQTT buffer: the metadata in front (without the link: a list of buffers is a list of handles) and
  the data area behind it.
\<close>

record MQTTBufferMetadata_t =
  mb_xRecordedTickCount :: u64
  mb_ulTimeoutTicks :: u32
  mb_usPacketIdentifier :: u16
  mb_ulBufferLength :: u32
  mb_ulDataLength :: u32
  mb_data :: "u8 list"

record MQTTRxMessageState_t =
  xRxNextByte :: MQTTRxNextByte_t
  xRxMessageAction :: MQTTRxMessageAction_t
  ucRemaingingLengthFieldBytes :: nat
  ulTotalMessageLength :: u32

text \<open>The list of Tx buffers holds the buffers from the head on; a null handle is 0.\<close>

record MQTTContext_t =
  xTxBufferList :: "addr list"
  xRxBuffer :: addr
  xRxMessageState :: MQTTRxMessageState_t
  ucRxFixedHeaderBuffer :: "u8 list"
  ulRxMessageReceivedLength :: u32
  pvCallbackContext :: u32
  pxCallback :: "nat option"
  pvSendContext :: u32
  pxMQTTSendFxn :: nat
  pxGetTicksFxn :: "nat option"
  pxGetBufferFxn :: nat
  pxReturnBufferFxn :: nat
  xConnectionState :: MQTTConnectionState_t
  xLastSentMessageTimestamp :: u64
  ulNextPeriodicInvokeTicks :: u32
  ulKeepAliveActualIntervalTicks :: u32
  ulPingRequestTimeoutTicks :: u32
  xWaitingForPingResp :: bool
  xSubscriptionManager :: MQTTSubscriptionManager_t

section \<open>The environment and the trace\<close>

text \<open>
  What an observer sees: data handed to the send function and its result, tick counts
  read, events and publish messages delivered with the callback's answer whether it
  keeps the buffer, and buffers the user gives back. The newest entry is first.
\<close>

datatype obs =
    OSend "u8 list" u32
  | OTicks u64
  | OEvent MQTTEventCallbackParams_t bool
  | OPublish nat MQTTPublishData_t bool
  | OReturn addr

record 'p mqtt_env =
  e_send :: "nat \<Rightarrow> obs list \<Rightarrow> u32 \<Rightarrow> u8 list \<Rightarrow> u32 \<Rightarrow> u32"
  e_ticks :: "nat \<Rightarrow> obs list \<Rightarrow> u64"
  e_event :: "nat \<Rightarrow> obs list \<Rightarrow> u32 \<Rightarrow> MQTTEventCallbackParams_t \<Rightarrow> bool"
  e_publish :: "nat \<Rightarrow> obs list \<Rightarrow> u32 \<Rightarrow> MQTTPublishData_t \<Rightarrow> bool"
  e_get :: "nat \<Rightarrow> 'p \<Rightarrow> u32 \<Rightarrow> (addr \<times> u32) option \<times> 'p"
  e_ret :: "nat \<Rightarrow> 'p \<Rightarrow> addr \<Rightarrow> 'p"

record 'p world =
  w_ctx :: MQTTContext_t
  w_pool :: 'p
  w_bufs :: "addr \<Rightarrow> MQTTBufferMetadata_t"
  w_trace :: "obs list"
  w_fault :: bool

definition upd_ctx :: "(MQTTContext_t \<Rightarrow> MQTTContext_t) \<Rightarrow> 'p world \<Rightarrow> 'p world" where
  "upd_ctx f w = w\<lparr>w_ctx := f (w_ctx w)\<rparr>"

definition upd_buf :: "addr \<Rightarrow> (MQTTBufferMetadata_t \<Rightarrow> MQTTBufferMetadata_t) \<Rightarrow> 'p world \<Rightarrow> 'p world" where
  "upd_buf h f w = w\<lparr>w_bufs := (w_bufs w)(h := f (w_bufs w h))\<rparr>"

definition observe :: "obs \<Rightarrow> 'p world \<Rightarrow> 'p world" where
  "observe ob w = w\<lparr>w_trace := ob # w_trace w\<rparr>"

text \<open>An access to memory is recorded as a fault when its bounds condition fails.\<close>

definition chk :: "bool \<Rightarrow> 'p world \<Rightarrow> 'p world" where
  "chk b w = w\<lparr>w_fault := w_fault w \<or> \<not> b\<rparr>"

section \<open>Buffers\<close>

text \<open>\<open>sizeof( MQTTBufferMetadata_t )\<close> on the target: 16 bytes of state, 8 of link, two lengths.\<close>

definition sizeof_MQTTBufferMetadata :: u32 where
  "sizeof_MQTTBufferMetadata = 32"

definition mqttbufferGET_EFFECTIVE_BUFFER_LENGTH :: "MQTTBufferMetadata_t \<Rightarrow> u32" where
  "mqttbufferGET_EFFECTIVE_BUFFER_LENGTH b = mb_ulBufferLength b - sizeof_MQTTBufferMetadata"

text \<open>
  Initialisation of the metadata. The data area is not written: it keeps what it held,
  with as many bytes as the buffer now has room for.
\<close>

definition mqttbufferINIT_BUFFER :: "u32 \<Rightarrow> MQTTBufferMetadata_t \<Rightarrow> MQTTBufferMetadata_t" where
  "mqttbufferINIT_BUFFER ulLength b =
     (let n = unat (ulLength - sizeof_MQTTBufferMetadata) in
      b\<lparr>mb_ulBufferLength := ulLength, mb_ulDataLength := 0,
        mb_data := take n (mb_data b) @ replicate (n - length (mb_data b)) 0\<rparr>)"

definition prvGetFreeBuffer :: "'p mqtt_env \<Rightarrow> u32 \<Rightarrow> 'p world \<Rightarrow> addr \<times> 'p world" where
  "prvGetFreeBuffer E ulBufferLength w =
     (case e_get E (pxGetBufferFxn (w_ctx w)) (w_pool w) (ulBufferLength + sizeof_MQTTBufferMetadata) of
        (None, p) \<Rightarrow> (0, w\<lparr>w_pool := p\<rparr>)
      | (Some (h, ulRequestedBufferLength), p) \<Rightarrow>
          (h, upd_buf h (mqttbufferINIT_BUFFER ulRequestedBufferLength) (w\<lparr>w_pool := p\<rparr>)))"

definition memset_data :: "MQTTBufferMetadata_t \<Rightarrow> MQTTBufferMetadata_t" where
  "memset_data b = b\<lparr>mb_data := replicate (unat (mqttbufferGET_EFFECTIVE_BUFFER_LENGTH b)) 0\<rparr>"

definition prvReturnBuffer :: "'p mqtt_env \<Rightarrow> addr \<Rightarrow> 'p world \<Rightarrow> 'p world" where
  "prvReturnBuffer E xBuffer w =
     (if xBuffer \<noteq> 0 then
        (let w = upd_buf xBuffer memset_data w;
             w = upd_ctx (\<lambda>c. c\<lparr>xTxBufferList := remove1 xBuffer (xTxBufferList c)\<rparr>) w in
         w\<lparr>w_pool := e_ret E (pxReturnBufferFxn (w_ctx w)) (w_pool w) xBuffer\<rparr>)
      else w)"

section \<open>Searching the Tx list\<close>

text \<open>The control byte of the packet in a buffer.\<close>

definition control_byte :: "MQTTBufferMetadata_t \<Rightarrow> u8" where
  "control_byte b = rdb (mb_data b) 0"

fun first_buffer :: "(addr \<Rightarrow> bool) \<Rightarrow> addr list \<Rightarrow> addr" where
  "first_buffer P [] = 0"
| "first_buffer P (h # hs) = (if P h then h else first_buffer P hs)"

definition prvPacketTypeFlagsGetTxBuffer :: "'p world \<Rightarrow> u8 \<Rightarrow> u8 \<Rightarrow> addr" where
  "prvPacketTypeFlagsGetTxBuffer w ucPacketType ucFlags =
     first_buffer (\<lambda>h. control_byte (w_bufs w h) AND mqttTOP_NIBBLE_MASK = ucPacketType \<and>
        control_byte (w_bufs w h) AND mqttLOWER_NIBBLE_MASK = ucFlags) (xTxBufferList (w_ctx w))"

definition prvPacketTypeFlagsIdentifierGetTxBuffer :: "'p world \<Rightarrow> u8 \<Rightarrow> u8 \<Rightarrow> u16 \<Rightarrow> addr" where
  "prvPacketTypeFlagsIdentifierGetTxBuffer w ucPacketType ucFlags usPacketIdentifier =
     first_buffer (\<lambda>h. control_byte (w_bufs w h) AND mqttTOP_NIBBLE_MASK = ucPacketType \<and>
        control_byte (w_bufs w h) AND mqttLOWER_NIBBLE_MASK = ucFlags \<and>
        mb_usPacketIdentifier (w_bufs w h) = usPacketIdentifier) (xTxBufferList (w_ctx w))"

definition prvPacketTypeIdentifierGetTxBuffer :: "'p world \<Rightarrow> u8 \<Rightarrow> u16 \<Rightarrow> addr" where
  "prvPacketTypeIdentifierGetTxBuffer w ucPacketType usPacketIdentifier =
     first_buffer (\<lambda>h. control_byte (w_bufs w h) AND mqttTOP_NIBBLE_MASK = ucPacketType \<and>
        mb_usPacketIdentifier (w_bufs w h) = usPacketIdentifier) (xTxBufferList (w_ctx w))"

section \<open>Resetting the context\<close>

definition reset_rx :: "MQTTContext_t \<Rightarrow> MQTTContext_t" where
  "reset_rx c = c\<lparr>xRxMessageState := \<lparr>xRxNextByte = eMQTTRxNextBytePacketType, xRxMessageAction = eMQTTRxMessageStore,
       ucRemaingingLengthFieldBytes = 0, ulTotalMessageLength = 0\<rparr>,
     ulRxMessageReceivedLength := 0, xRxBuffer := 0\<rparr>"

definition prvResetRxMessageState :: "'p world \<Rightarrow> 'p world" where
  "prvResetRxMessageState w = upd_ctx reset_rx w"

definition prvResetMQTTContext :: "'p mqtt_env \<Rightarrow> 'p world \<Rightarrow> 'p world" where
  "prvResetMQTTContext E w =
     (let w = upd_ctx (\<lambda>c. c\<lparr>xConnectionState := eMQTTNotConnected\<rparr>) w;
          w = fold (prvReturnBuffer E) (xTxBufferList (w_ctx w)) w;
          w = prvReturnBuffer E (xRxBuffer (w_ctx w)) w;
          w = prvResetRxMessageState w in
      upd_ctx (\<lambda>c. c\<lparr>xSubscriptionManager := free_all_subscriptions (xSubscriptionManager c)\<rparr>) w)"

section \<open>Time and transmission\<close>

definition prvGetCurrentTickCount :: "'p mqtt_env \<Rightarrow> 'p world \<Rightarrow> u64 \<times> 'p world" where
  "prvGetCurrentTickCount E w =
     (case pxGetTicksFxn (w_ctx w) of
        None \<Rightarrow> (0, w)
      | Some f \<Rightarrow> (let t = e_ticks E f (w_trace w) in (t, observe (OTicks t) w)))"

text \<open>The result, and the values behind the two pointers afterwards.\<close>

definition prvIsTimeElapsed :: "u64 \<Rightarrow> u64 \<Rightarrow> u32 \<Rightarrow> bool \<times> u64 \<times> u32" where
  "prvIsTimeElapsed xRecordedTickCount xCurrentTickCount ulRemainingTicks =
     (if xRecordedTickCount = 0 then (False, xCurrentTickCount, ulRemainingTicks)
      else (let ulElapsedTicks = ucast (xCurrentTickCount - xRecordedTickCount) :: u32 in
        if ulElapsedTicks \<ge> ulRemainingTicks then (True, xCurrentTickCount, 0)
        else (False, xCurrentTickCount, ulRemainingTicks - ulElapsedTicks)))"

definition prvSendData :: "'p mqtt_env \<Rightarrow> u8 list \<Rightarrow> u32 \<Rightarrow> 'p world \<Rightarrow> MQTTReturnCode_t \<times> 'p world" where
  "prvSendData E pucData ulDataLength w =
     (let w = chk (unat ulDataLength \<le> length pucData) w;
          d = take (unat ulDataLength) pucData;
          r = e_send E (pxMQTTSendFxn (w_ctx w)) (w_trace w) (pvSendContext (w_ctx w)) d ulDataLength;
          w = observe (OSend d r) w in
      if r = ulDataLength then
        (case prvGetCurrentTickCount E w of (t, w) \<Rightarrow>
           (eMQTTSuccess, upd_ctx (\<lambda>c. c\<lparr>xLastSentMessageTimestamp := t,
              ulNextPeriodicInvokeTicks := ulKeepAliveActualIntervalTicks c\<rparr>) w))
      else (eMQTTSendFailed, w))"

section \<open>Callbacks\<close>

text \<open>Calling the publish callback of a subscription.\<close>

definition call_publish :: "'p mqtt_env \<Rightarrow> nat \<Rightarrow> u32 \<Rightarrow> MQTTPublishData_t \<Rightarrow> 'p world \<Rightarrow> bool \<times> 'p world" where
  "call_publish E f pvContext pd w =
     (let b = e_publish E f (w_trace w) pvContext pd in (b, observe (OPublish f pd b) w))"

text \<open>
  Two loops over the subscription table, the first for the filters without wild-cards,
  the second for the others. The values that go around are \<open>xBufferOwnershipTaken\<close> and
  whether a callback was invoked. The topic is compared within the buffer only if the
  whole topic lies in it.
\<close>

definition topic_in_buffer :: "MQTTPublishData_t \<Rightarrow> bool" where
  "topic_in_buffer pd \<longleftrightarrow> unat (pd_usTopicLength pd) \<le> length (pd_pucTopic pd)"

function simple_callbacks :: "'p mqtt_env \<Rightarrow> MQTTPublishData_t \<Rightarrow> nat \<Rightarrow> bool \<Rightarrow> bool \<Rightarrow> 'p world \<Rightarrow> bool \<times> bool \<times> 'p world" where
  "simple_callbacks E pd x taken invoked w =
     (if x < mqttconfigSUBSCRIPTION_MANAGER_MAX_SUBSCRIPTIONS then
        (let e = xSubscriptions (xSubscriptionManager (w_ctx w)) ! x in
         if xInUse e \<and> xTopicFilterType e = eMQTTTopicFilterTypeSimple \<and>
            usTopicFilterLength e = pd_usTopicLength pd then
           (let w = chk (topic_in_buffer pd) w;
                n = unat (pd_usTopicLength pd) in
            if take n (ucTopicFilter e) = take n (pd_pucTopic pd) then
              (case pxPublishCallback e of
                 None \<Rightarrow> simple_callbacks E pd (x + 1) taken invoked w
               | Some f \<Rightarrow>
                   (case call_publish E f (pvPublishCallbackContext e) pd w of (b, w) \<Rightarrow>
                      if b then (True, True, w) else simple_callbacks E pd (x + 1) b True w))
            else simple_callbacks E pd (x + 1) taken invoked w)
         else simple_callbacks E pd (x + 1) taken invoked w)
      else (taken, invoked, w))"
  by pat_completeness auto
termination
  by (relation "measure (\<lambda>(_, _, x, _). mqttconfigSUBSCRIPTION_MANAGER_MAX_SUBSCRIPTIONS - x)") auto

function wildcard_callbacks :: "'p mqtt_env \<Rightarrow> MQTTPublishData_t \<Rightarrow> nat \<Rightarrow> bool \<Rightarrow> bool \<Rightarrow> 'p world \<Rightarrow> bool \<times> bool \<times> 'p world" where
  "wildcard_callbacks E pd x taken invoked w =
     (if x < mqttconfigSUBSCRIPTION_MANAGER_MAX_SUBSCRIPTIONS then
        (let e = xSubscriptions (xSubscriptionManager (w_ctx w)) ! x in
         if xInUse e \<and> xTopicFilterType e = eMQTTTopicFilterTypeWildCard then
           (let w = chk (topic_in_buffer pd) w in
            if prvDoesTopicMatchTopicFilter (pd_pucTopic pd) (pd_usTopicLength pd)
                 (ucTopicFilter e) (usTopicFilterLength e) then
              (case pxPublishCallback e of
                 None \<Rightarrow> wildcard_callbacks E pd (x + 1) taken invoked w
               | Some f \<Rightarrow>
                   (case call_publish E f (pvPublishCallbackContext e) pd w of (b, w) \<Rightarrow>
                      if b then (True, True, w) else wildcard_callbacks E pd (x + 1) b True w))
            else wildcard_callbacks E pd (x + 1) taken invoked w)
         else wildcard_callbacks E pd (x + 1) taken invoked w)
      else (taken, invoked, w))"
  by pat_completeness auto
termination
  by (relation "measure (\<lambda>(_, _, x, _). mqttconfigSUBSCRIPTION_MANAGER_MAX_SUBSCRIPTIONS - x)") auto

declare simple_callbacks.simps [simp del] wildcard_callbacks.simps [simp del]

definition prvInvokeSubscriptionCallbacks :: "'p mqtt_env \<Rightarrow> MQTTPublishData_t \<Rightarrow> 'p world \<Rightarrow> bool \<times> bool \<times> 'p world" where
  "prvInvokeSubscriptionCallbacks E pd w =
     (case simple_callbacks E pd 0 False False w of (taken, invoked, w) \<Rightarrow>
        if \<not> taken then wildcard_callbacks E pd 0 taken invoked w else (taken, invoked, w))"

definition prvInvokeCallback :: "'p mqtt_env \<Rightarrow> MQTTEventCallbackParams_t \<Rightarrow> 'p world \<Rightarrow> bool \<times> 'p world" where
  "prvInvokeCallback E ev w =
     (case (case ev of eMQTTPublish pd \<Rightarrow> prvInvokeSubscriptionCallbacks E pd w | _ \<Rightarrow> (False, False, w)) of
        (taken, invoked, w) \<Rightarrow>
          (case pxCallback (w_ctx w) of
             None \<Rightarrow> (taken, w)
           | Some f \<Rightarrow>
               if \<not> invoked then
                 (let b = e_event E f (w_trace w) (pvCallbackContext (w_ctx w)) ev in (b, observe (OEvent ev b) w))
               else (taken, w)))"

text \<open>
  The library disconnects on a malformed packet in several places, always in this way.
\<close>

definition disconnect_with :: "'p mqtt_env \<Rightarrow> MQTTDisconnectReason_t \<Rightarrow> 'p world \<Rightarrow> 'p world" where
  "disconnect_with E reason w = snd (prvInvokeCallback E (eMQTTClientDisconnected reason) (prvResetMQTTContext E w))"

section \<open>Initialisation\<close>

record MQTTInitParams_t =
  ip_pvCallbackContext :: u32
  ip_pxCallback :: "nat option"
  ip_pvSendContext :: u32
  ip_pxMQTTSendFxn :: nat
  ip_pxGetTicksFxn :: "nat option"
  ip_pxGetBufferFxn :: nat
  ip_pxReturnBufferFxn :: nat

definition MQTT_Init :: "MQTTInitParams_t \<Rightarrow> 'p world \<Rightarrow> MQTTReturnCode_t \<times> 'p world" where
  "MQTT_Init ip w =
     (let w = upd_ctx (\<lambda>c. c\<lparr>xTxBufferList := []\<rparr>) w;
          w = prvResetRxMessageState w;
          w = upd_ctx (\<lambda>c. c\<lparr>xConnectionState := eMQTTNotConnected,
                pvCallbackContext := ip_pvCallbackContext ip, pxCallback := ip_pxCallback ip,
                pvSendContext := ip_pvSendContext ip, pxMQTTSendFxn := ip_pxMQTTSendFxn ip,
                pxGetTicksFxn := ip_pxGetTicksFxn ip,
                pxGetBufferFxn := ip_pxGetBufferFxn ip, pxReturnBufferFxn := ip_pxReturnBufferFxn ip,
                xSubscriptionManager := free_all_subscriptions (xSubscriptionManager c)\<rparr>) w in
      (eMQTTSuccess, w))"

end
