(* ===== verification/MqttSend.thy ===== *)
theory MqttSend
  imports MqttContext
begin

text \<open>
  The operations of \<open>AWS/mqtt/aws_mqtt_lib.c\<close> that build and send a packet:
  \<open>MQTT_Connect\<close>, \<open>MQTT_Disconnect\<close>, \<open>MQTT_Subscribe\<close>, \<open>MQTT_Unsubscribe\<close>, \<open>MQTT_Publish\<close>, and
  \<open>MQTT_ReturnBuffer\<close>. Packets are written into the data area of a buffer byte by byte
  as the code does it, with every access checked against the bounds of the area.
\<close>

section \<open>Common steps\<close>

text \<open>Running a writer on the data area of a buffer.\<close>

definition with_data :: "addr \<Rightarrow> (cmem \<Rightarrow> cmem) \<Rightarrow> 'p world \<Rightarrow> 'p world" where
  "with_data h g w =
     (case g (mb_data (w_bufs w h), w_fault w) of (d, f) \<Rightarrow>
        upd_buf h (\<lambda>b. b\<lparr>mb_data := d\<rparr>) (w\<lparr>w_fault := f\<rparr>))"

text \<open>
  The start of every transmission: the buffer goes to the head of the Tx list, its data
  area is cleared, and the time and the timeout are recorded.
\<close>

definition begin_tx :: "'p mqtt_env \<Rightarrow> addr \<Rightarrow> u32 \<Rightarrow> 'p world \<Rightarrow> 'p world" where
  "begin_tx E h ulTimeoutTicks w =
     (let w = upd_ctx (\<lambda>c. c\<lparr>xTxBufferList := h # xTxBufferList c\<rparr>) w;
          w = upd_buf h memset_data w in
      case prvGetCurrentTickCount E w of (t, w) \<Rightarrow>
        upd_buf h (\<lambda>b. b\<lparr>mb_xRecordedTickCount := t, mb_ulTimeoutTicks := ulTimeoutTicks\<rparr>) w)"

text \<open>The end of it: the packet identifier and the number of bytes written.\<close>

definition finish_tx :: "addr \<Rightarrow> u16 \<Rightarrow> u32 \<Rightarrow> 'p world \<Rightarrow> 'p world" where
  "finish_tx h usPacketIdentifier ulTotalLength w =
     upd_buf h (\<lambda>b. b\<lparr>mb_usPacketIdentifier := usPacketIdentifier, mb_ulDataLength := ulTotalLength\<rparr>) w"

text \<open>The offset of \<open>pucLastByteInBuffer\<close> in the data area.\<close>

definition last_byte :: "addr \<Rightarrow> 'p world \<Rightarrow> nat" where
  "last_byte h w = unat (mqttbufferGET_EFFECTIVE_BUFFER_LENGTH (w_bufs w h) - 1)"

text \<open>
  The construction of a packet of \<open>ulRemainingLength\<close> bytes after the fixed header: a buffer
  of the total length is requested and, when there is one, filled by \<open>build\<close>, which gets
  the offset of the last byte.
\<close>

definition make_packet ::
  "'p mqtt_env \<Rightarrow> u32 \<Rightarrow> u32 \<Rightarrow> u16 \<Rightarrow> (nat \<Rightarrow> cmem \<Rightarrow> cmem) \<Rightarrow> 'p world \<Rightarrow> MQTTReturnCode_t \<times> addr \<times> 'p world" where
  "make_packet E ulRemainingLength ulTimeoutTicks usPacketIdentifier build w =
     (let ucRemainingLengthFieldBytes = prvSizeOfRemainingLength ulRemainingLength in
      if ucRemainingLengthFieldBytes > 0 then
        (let ulTotalLength = mqttTOTAL_MESSAGE_LENGTH ucRemainingLengthFieldBytes ulRemainingLength in
         case prvGetFreeBuffer E ulTotalLength w of (h, w) \<Rightarrow>
           if h = 0 then (eMQTTNoFreeBuffer, 0, w)
           else (let w = begin_tx E h ulTimeoutTicks w;
                     w = with_data h (build (last_byte h w)) w in
                 (eMQTTSuccess, h, finish_tx h usPacketIdentifier ulTotalLength w)))
      else (eMQTTFailure, 0, w))"

text \<open>Transmission of the packet when it was constructed.\<close>

definition transmit :: "'p mqtt_env \<Rightarrow> MQTTReturnCode_t \<Rightarrow> addr \<Rightarrow> 'p world \<Rightarrow> MQTTReturnCode_t \<times> 'p world" where
  "transmit E xReturnCode h w =
     (if xReturnCode = eMQTTSuccess
      then prvSendData E (mb_data (w_bufs w h)) (mb_ulDataLength (w_bufs w h)) w
      else (xReturnCode, w))"

section \<open>MQTT_Connect\<close>

record MQTTConnectParams_t =
  cp_usKeepAliveIntervalSeconds :: u16
  cp_ulKeepAliveActualIntervalTicks :: u32
  cp_ulPingRequestTimeoutTicks :: u32
  cp_pucClientId :: "u8 list"
  cp_usClientIdLength :: u16
  cp_pucUserName :: "u8 list"
  cp_usUserNameLength :: u16
  cp_usPacketIdentifier :: u16
  cp_ulTimeoutTicks :: u32

definition ucDefaultConnectVariableHeader :: "u8 list" where
  "ucDefaultConnectVariableHeader = [0, 4, 77, 81, 84, 84, mqttPROTOCOL_LEVEL, mqttCONNECT_CLEAN_SESSION_FLAG, 0, 0]"

definition connect_remaining_length :: "MQTTConnectParams_t \<Rightarrow> u32" where
  "connect_remaining_length cp =
     (let usClientIdLength = mqttSTRLEN (cp_usClientIdLength cp);
          usUserNameLength = (if cp_usUserNameLength cp > 0 then mqttSTRLEN (cp_usUserNameLength cp) else 0) in
      10 + ucast usClientIdLength + ucast usUserNameLength)"

definition build_connect :: "MQTTConnectParams_t \<Rightarrow> nat \<Rightarrow> cmem \<Rightarrow> cmem" where
  "build_connect cp lastIdx m =
     (let m = m_put 0 (mqttCONTROL_CONNECT OR mqttFLAGS_CONNECT) m in
      case prvEncodeRemainingLength (connect_remaining_length cp) 1 lastIdx m of (n, m) \<Rightarrow>
      let m = m_blit (mqttADJUST_OFFSET 2 n) ucDefaultConnectVariableHeader m;
          m = (if cp_usUserNameLength cp > 0
               then m_put (mqttADJUST_OFFSET 9 n) (m_get (mqttADJUST_OFFSET 9 n) m OR mqttCONNECT_USER_NAME_FLAG) m
               else m);
          m = m_put (mqttADJUST_OFFSET 10 n) (msb16 (cp_usKeepAliveIntervalSeconds cp)) m;
          m = m_put (mqttADJUST_OFFSET 11 n) (lsb16 (cp_usKeepAliveIntervalSeconds cp)) m in
      case prvWriteString (mqttADJUST_OFFSET 12 n) lastIdx (cp_pucClientId cp) (cp_usClientIdLength cp) m of (next, m) \<Rightarrow>
        if cp_usUserNameLength cp > 0
        then snd (prvWriteString next lastIdx (cp_pucUserName cp) (cp_usUserNameLength cp) m)
        else m)"

definition connect_packet :: "'p mqtt_env \<Rightarrow> MQTTConnectParams_t \<Rightarrow> 'p world \<Rightarrow> MQTTReturnCode_t \<times> addr \<times> 'p world" where
  "connect_packet E cp w =
     (if xConnectionState (w_ctx w) \<noteq> eMQTTNotConnected then
        (if xConnectionState (w_ctx w) = eMQTTConnected then eMQTTClientAlreadyConnected
         else eMQTTClientConnectionInProgress, 0, w)
      else make_packet E (connect_remaining_length cp) (cp_ulTimeoutTicks cp) (cp_usPacketIdentifier cp)
             (build_connect cp)
             (upd_ctx (\<lambda>c. c\<lparr>ulKeepAliveActualIntervalTicks := cp_ulKeepAliveActualIntervalTicks cp,
                ulPingRequestTimeoutTicks := cp_ulPingRequestTimeoutTicks cp\<rparr>) w))"

definition MQTT_Connect :: "'p mqtt_env \<Rightarrow> MQTTConnectParams_t \<Rightarrow> 'p world \<Rightarrow> MQTTReturnCode_t \<times> 'p world" where
  "MQTT_Connect E cp w =
     (case connect_packet E cp w of (rc, h, w) \<Rightarrow>
      case transmit E rc h w of (rc, w) \<Rightarrow>
        if rc \<noteq> eMQTTSuccess then (rc, prvReturnBuffer E h w)
        else (rc, upd_ctx (\<lambda>c. c\<lparr>xConnectionState := eMQTTConnectionInProgress\<rparr>) w))"

section \<open>MQTT_Disconnect\<close>

definition ucDisconnectPacket :: "u8 list" where
  "ucDisconnectPacket = [mqttCONTROL_DISCONNECT OR mqttFLAGS_DISCONNECT, 0]"

definition MQTT_Disconnect :: "'p mqtt_env \<Rightarrow> 'p world \<Rightarrow> MQTTReturnCode_t \<times> 'p world" where
  "MQTT_Disconnect E w =
     (case (if xConnectionState (w_ctx w) = eMQTTConnected \<or> xConnectionState (w_ctx w) = eMQTTConnectionInProgress then
              (case prvSendData E ucDisconnectPacket 2 w of (rc, w) \<Rightarrow>
                 (if rc \<noteq> eMQTTSuccess then eMQTTSendFailed else eMQTTSuccess,
                  snd (prvInvokeCallback E (eMQTTClientDisconnected eMQTTDisconnectReasonUserRequest) w)))
            else (eMQTTSuccess, w)) of
        (rc, w) \<Rightarrow> (rc, prvResetMQTTContext E w))"

section \<open>MQTT_Subscribe\<close>

record MQTTSubscribeParams_t =
  sp_pucTopic :: "u8 list"
  sp_usTopicLength :: u16
  sp_xQos :: MQTTQoS_t
  sp_usPacketIdentifier :: u16
  sp_ulTimeoutTicks :: u32
  sp_pvPublishCallbackContext :: u32
  sp_pxPublishCallback :: "nat option"

definition subscribe_remaining_length :: "MQTTSubscribeParams_t \<Rightarrow> u32" where
  "subscribe_remaining_length sp = 2 + ucast (mqttSTRLEN (sp_usTopicLength sp)) + 1"

definition build_subscribe :: "MQTTSubscribeParams_t \<Rightarrow> nat \<Rightarrow> cmem \<Rightarrow> cmem" where
  "build_subscribe sp lastIdx m =
     (let m = m_put 0 (mqttCONTROL_SUBSCRIBE OR mqttFLAGS_SUBSCRIBE) m in
      case prvEncodeRemainingLength (subscribe_remaining_length sp) 1 lastIdx m of (n, m) \<Rightarrow>
      let m = m_put (mqttADJUST_OFFSET 2 n) (msb16 (sp_usPacketIdentifier sp)) m;
          m = m_put (mqttADJUST_OFFSET 3 n) (lsb16 (sp_usPacketIdentifier sp)) m in
      case prvWriteString (mqttADJUST_OFFSET 4 n) lastIdx (sp_pucTopic sp) (sp_usTopicLength sp) m of (next, m) \<Rightarrow>
        m_put next (qos_value (sp_xQos sp)) m)"

definition subscribe_packet :: "'p mqtt_env \<Rightarrow> MQTTSubscribeParams_t \<Rightarrow> 'p world \<Rightarrow> MQTTReturnCode_t \<times> addr \<times> 'p world" where
  "subscribe_packet E sp w =
     (if xConnectionState (w_ctx w) \<noteq> eMQTTConnected then (eMQTTClientNotConnected, 0, w)
      else
        (case prvStoreSubscription (xSubscriptionManager (w_ctx w)) (sp_pucTopic sp) (sp_usTopicLength sp)
                (sp_pvPublishCallbackContext sp) (sp_pxPublishCallback sp) of
           (stored, m) \<Rightarrow>
             (let w = upd_ctx (\<lambda>c. c\<lparr>xSubscriptionManager := m\<rparr>) w in
              if \<not> stored then (eMQTTSubscriptionManagerFull, 0, w)
              else make_packet E (subscribe_remaining_length sp) (sp_ulTimeoutTicks sp) (sp_usPacketIdentifier sp)
                     (build_subscribe sp) w)))"

definition MQTT_Subscribe :: "'p mqtt_env \<Rightarrow> MQTTSubscribeParams_t \<Rightarrow> 'p world \<Rightarrow> MQTTReturnCode_t \<times> 'p world" where
  "MQTT_Subscribe E sp w =
     (case subscribe_packet E sp w of (rc, h, w) \<Rightarrow>
      case transmit E rc h w of (rc, w) \<Rightarrow>
        if rc \<noteq> eMQTTSuccess then
          (let w = prvReturnBuffer E h w in
           (rc, if rc \<noteq> eMQTTSubscriptionManagerFull
                then upd_ctx (\<lambda>c. c\<lparr>xSubscriptionManager :=
                       prvRemoveSubscription (xSubscriptionManager c) (sp_pucTopic sp) (sp_usTopicLength sp)\<rparr>) w
                else w))
        else (rc, w))"

section \<open>MQTT_Unsubscribe\<close>

record MQTTUnsubscribeParams_t =
  up_pucTopic :: "u8 list"
  up_usTopicLength :: u16
  up_usPacketIdentifier :: u16
  up_ulTimeoutTicks :: u32

definition unsubscribe_remaining_length :: "MQTTUnsubscribeParams_t \<Rightarrow> u32" where
  "unsubscribe_remaining_length up = 2 + ucast (mqttSTRLEN (up_usTopicLength up))"

definition build_unsubscribe :: "MQTTUnsubscribeParams_t \<Rightarrow> nat \<Rightarrow> cmem \<Rightarrow> cmem" where
  "build_unsubscribe up lastIdx m =
     (let m = m_put 0 (mqttCONTROL_UNSUBSCRIBE OR mqttFLAGS_UNSUBSCRIBE) m in
      case prvEncodeRemainingLength (unsubscribe_remaining_length up) 1 lastIdx m of (n, m) \<Rightarrow>
      let m = m_put (mqttADJUST_OFFSET 2 n) (msb16 (up_usPacketIdentifier up)) m;
          m = m_put (mqttADJUST_OFFSET 3 n) (lsb16 (up_usPacketIdentifier up)) m in
      snd (prvWriteString (mqttADJUST_OFFSET 4 n) lastIdx (up_pucTopic up) (up_usTopicLength up) m))"

definition unsubscribe_packet :: "'p mqtt_env \<Rightarrow> MQTTUnsubscribeParams_t \<Rightarrow> 'p world \<Rightarrow> MQTTReturnCode_t \<times> addr \<times> 'p world" where
  "unsubscribe_packet E up w =
     (if xConnectionState (w_ctx w) \<noteq> eMQTTConnected then (eMQTTClientNotConnected, 0, w)
      else make_packet E (unsubscribe_remaining_length up) (up_ulTimeoutTicks up) (up_usPacketIdentifier up)
             (build_unsubscribe up) w)"

definition MQTT_Unsubscribe :: "'p mqtt_env \<Rightarrow> MQTTUnsubscribeParams_t \<Rightarrow> 'p world \<Rightarrow> MQTTReturnCode_t \<times> 'p world" where
  "MQTT_Unsubscribe E up w =
     (case unsubscribe_packet E up w of (rc, h, w) \<Rightarrow>
      case transmit E rc h w of (rc, w) \<Rightarrow>
        if rc \<noteq> eMQTTSuccess then (rc, prvReturnBuffer E h w) else (rc, w))"

section \<open>MQTT_Publish\<close>

record MQTTPublishParams_t =
  pp_pucTopic :: "u8 list"
  pp_usTopicLength :: u16
  pp_xQos :: MQTTQoS_t
  pp_pvData :: "u8 list"
  pp_ulDataLength :: u32
  pp_usPacketIdentifier :: u16
  pp_ulTimeoutTicks :: u32

definition publish_remaining_length :: "MQTTPublishParams_t \<Rightarrow> u32" where
  "publish_remaining_length pp =
     ucast (mqttSTRLEN (pp_usTopicLength pp)) + (if pp_xQos pp = eMQTTQoS0 then 0 else 2) + pp_ulDataLength pp"

definition build_publish :: "MQTTPublishParams_t \<Rightarrow> nat \<Rightarrow> cmem \<Rightarrow> cmem" where
  "build_publish pp lastIdx m =
     (let m = m_put 0 mqttCONTROL_PUBLISH m;
          m = m_put 0 (m_get 0 m OR push_bit 1 (qos_value (pp_xQos pp))) m in
      case prvEncodeRemainingLength (publish_remaining_length pp) 1 lastIdx m of (n, m) \<Rightarrow>
      case prvWriteString (mqttADJUST_OFFSET 2 n) lastIdx (pp_pucTopic pp) (pp_usTopicLength pp) m of (next, m) \<Rightarrow>
      case (if pp_xQos pp \<noteq> eMQTTQoS0
            then (next + 2, m_put (next + 1) (lsb16 (pp_usPacketIdentifier pp))
                              (m_put next (msb16 (pp_usPacketIdentifier pp)) m))
            else (next, m)) of (next, m) \<Rightarrow>
        m_blit next (take (unat (pp_ulDataLength pp)) (pp_pvData pp))
          (m_need (unat (pp_ulDataLength pp) \<le> length (pp_pvData pp)) m))"

definition publish_packet :: "'p mqtt_env \<Rightarrow> MQTTPublishParams_t \<Rightarrow> 'p world \<Rightarrow> MQTTReturnCode_t \<times> addr \<times> 'p world" where
  "publish_packet E pp w =
     (if xConnectionState (w_ctx w) \<noteq> eMQTTConnected then (eMQTTClientNotConnected, 0, w)
      else make_packet E (publish_remaining_length pp) (pp_ulTimeoutTicks pp) (pp_usPacketIdentifier pp)
             (build_publish pp) w)"

definition MQTT_Publish :: "'p mqtt_env \<Rightarrow> MQTTPublishParams_t \<Rightarrow> 'p world \<Rightarrow> MQTTReturnCode_t \<times> 'p world" where
  "MQTT_Publish E pp w =
     (case publish_packet E pp w of (rc, h, w) \<Rightarrow>
      case transmit E rc h w of (rc, w) \<Rightarrow>
        if rc \<noteq> eMQTTSuccess \<or> pp_xQos pp = eMQTTQoS0 then (rc, prvReturnBuffer E h w) else (rc, w))"

section \<open>MQTT_ReturnBuffer\<close>

definition MQTT_ReturnBuffer :: "'p mqtt_env \<Rightarrow> addr \<Rightarrow> 'p world \<Rightarrow> MQTTReturnCode_t \<times> 'p world" where
  "MQTT_ReturnBuffer E xBufferHandle w = (eMQTTSuccess, prvReturnBuffer E xBufferHandle (observe (OReturn xBufferHandle) w))"


section \<open>Arguments\<close>

text \<open>
  The arguments the functions may be called with: the pointers point to at least as many
  bytes as the lengths say, a string is short enough for its length field and the two
  bytes in front of it to be added in 16 bits, the payload is within the limits of the
  protocol, and the quality of service is one the library supports (the code asserts it).
\<close>

definition string_ok :: "u8 list \<Rightarrow> u16 \<Rightarrow> bool" where
  "string_ok p n \<longleftrightarrow> unat n \<le> length p \<and> unat n < 65534"

definition connect_params_ok :: "MQTTConnectParams_t \<Rightarrow> bool" where
  "connect_params_ok cp \<longleftrightarrow> string_ok (cp_pucClientId cp) (cp_usClientIdLength cp) \<and>
     string_ok (cp_pucUserName cp) (cp_usUserNameLength cp)"

definition subscribe_params_ok :: "MQTTSubscribeParams_t \<Rightarrow> bool" where
  "subscribe_params_ok sp \<longleftrightarrow> string_ok (sp_pucTopic sp) (sp_usTopicLength sp) \<and> sp_xQos sp \<noteq> eMQTTQoS2"

definition unsubscribe_params_ok :: "MQTTUnsubscribeParams_t \<Rightarrow> bool" where
  "unsubscribe_params_ok up \<longleftrightarrow> string_ok (up_pucTopic up) (up_usTopicLength up)"

definition publish_params_ok :: "MQTTPublishParams_t \<Rightarrow> bool" where
  "publish_params_ok pp \<longleftrightarrow> string_ok (pp_pucTopic pp) (pp_usTopicLength pp) \<and> pp_xQos pp \<noteq> eMQTTQoS2 \<and>
     unat (pp_ulDataLength pp) \<le> length (pp_pvData pp) \<and> unat (pp_ulDataLength pp) < 268000000"

end
