(* ===== verification/MqttRecv.thy ===== *)
theory MqttRecv
  imports MqttSend
begin

text \<open>
  The receiving side of \<open>AWS/mqtt/aws_mqtt_lib.c\<close>: \<open>MQTT_ParseReceivedData\<close>, which collects
  packets from a byte stream that arrives in arbitrary pieces, and the handlers of the
  packets a broker sends.
\<close>

section \<open>Handlers of complete packets\<close>

text \<open>The data area and the data length of the Rx buffer, and the size of its length field.\<close>

definition rx_buf :: "'p world \<Rightarrow> MQTTBufferMetadata_t" where
  "rx_buf w = w_bufs w (xRxBuffer (w_ctx w))"

definition rx_len_bytes :: "'p world \<Rightarrow> nat" where
  "rx_len_bytes w = ucRemaingingLengthFieldBytes (xRxMessageState (w_ctx w))"

definition return_rx :: "'p mqtt_env \<Rightarrow> 'p world \<Rightarrow> 'p world" where
  "return_rx E w = prvReturnBuffer E (xRxBuffer (w_ctx w)) w"

definition prvRemoveSubscriptionForSubscribeOrUnsubscribeBuffer :: "addr \<Rightarrow> 'p world \<Rightarrow> 'p world" where
  "prvRemoveSubscriptionForSubscribeOrUnsubscribeBuffer xBuffer w =
     (let d = mb_data (w_bufs w xBuffer);
          n = fst (prvDecodeRemainingLength (drop 1 d));
          w = chk (mqttADJUST_OFFSET 5 n < length d) w;
          usTopicLength = be16 (rdb d (mqttADJUST_OFFSET 4 n)) (rdb d (mqttADJUST_OFFSET 5 n)) in
      upd_ctx (\<lambda>c. c\<lparr>xSubscriptionManager :=
        prvRemoveSubscription (xSubscriptionManager c) (drop (mqttADJUST_OFFSET 6 n) d) usTopicLength\<rparr>) w)"

subsection \<open>CONNACK\<close>

definition ucDefaultCONNACKParameters :: "u8 list" where
  "ucDefaultCONNACKParameters = [mqttCONTROL_CONNACK OR mqttFLAGS_CONNACK, 2, 0, 0]"

definition refused_code :: "u8 \<Rightarrow> MQTTConnACKReturnCode_t" where
  "refused_code ucReturnCode =
     (if ucReturnCode = 1 then eMQTTConnACKUnacceptableProtocolVersion
      else if ucReturnCode = 2 then eMQTTConnACKIdentifierRejected
      else if ucReturnCode = 3 then eMQTTConnACKServerUnavailable
      else if ucReturnCode = 4 then eMQTTConnACKBadUsernameOrPassword
      else eMQTTConnACKUnauthorized)"

text \<open>What the three flags of the handler say after the packet was examined.\<close>

datatype connack_outcome = ConnNone | ConnEstablished | ConnRefused | ConnMalformed

definition connack_examine :: "'p mqtt_env \<Rightarrow> addr \<Rightarrow> 'p world \<Rightarrow> connack_outcome \<times> 'p world" where
  "connack_examine E xConnectTxBuffer w =
     (let d = mb_data (rx_buf w); id = mb_usPacketIdentifier (w_bufs w xConnectTxBuffer) in
      if unat (mb_ulDataLength (rx_buf w)) \<ge> length ucDefaultCONNACKParameters then
        (let w = chk (3 < length d) w in
         if take mqttFIXED_HEADER_MIN_SIZE d = take mqttFIXED_HEADER_MIN_SIZE ucDefaultCONNACKParameters then
           (let ucReturnCode = rdb d 3 in
            if ucReturnCode = 0 then
              (ConnEstablished, snd (prvInvokeCallback E (eMQTTConnACK eMQTTConnACKConnectionAccepted id) w))
            else if ucReturnCode \<ge> 1 \<and> ucReturnCode \<le> 5 then
              (ConnRefused, snd (prvInvokeCallback E (eMQTTConnACK (refused_code ucReturnCode) id) w))
            else (ConnMalformed, w))
         else (ConnMalformed, w))
      else (ConnMalformed, w))"

definition prvProcessReceivedCONNACK :: "'p mqtt_env \<Rightarrow> 'p world \<Rightarrow> 'p world" where
  "prvProcessReceivedCONNACK E w =
     (let xConnectTxBuffer = prvPacketTypeFlagsGetTxBuffer w mqttCONTROL_CONNECT mqttFLAGS_CONNECT in
      case (if xConnectTxBuffer = 0 then (ConnNone, snd (prvInvokeCallback E eMQTTUnexpectedConnACK w))
            else (case connack_examine E xConnectTxBuffer w of (oc, w) \<Rightarrow> (oc, prvReturnBuffer E xConnectTxBuffer w))) of
        (oc, w) \<Rightarrow>
          (let w = (case oc of
                      ConnRefused \<Rightarrow> disconnect_with E eMQTTDisconnectReasonBrokerRefusedConnection w
                    | ConnMalformed \<Rightarrow> disconnect_with E eMQTTDisconnectReasonMalformedPacket w
                    | ConnEstablished \<Rightarrow>
                        (case prvGetCurrentTickCount E (upd_ctx (\<lambda>c. c\<lparr>xConnectionState := eMQTTConnected\<rparr>) w) of (t, w) \<Rightarrow>
                           upd_ctx (\<lambda>c. c\<lparr>xLastSentMessageTimestamp := t,
                             ulNextPeriodicInvokeTicks := ulKeepAliveActualIntervalTicks c,
                             xWaitingForPingResp := False\<rparr>) w)
                    | ConnNone \<Rightarrow> w) in
           return_rx E w))"

subsection \<open>SUBACK\<close>

definition suback_code :: "u8 \<Rightarrow> MQTTSubACKReturnCode_t" where
  "suback_code ucReturnCode =
     (if ucReturnCode = 0 then eMQTTSubACKSuccessQos0
      else if ucReturnCode = 1 then eMQTTSubACKSuccessQos1
      else eMQTTSubACKFailure)"

text \<open>The end of the acknowledgment handlers: disconnect on a malformed packet, return the Rx buffer.\<close>

definition finish_ack :: "'p mqtt_env \<Rightarrow> bool \<times> 'p world \<Rightarrow> 'p world" where
  "finish_ack E r = (case r of (xMalformedPacket, w) \<Rightarrow>
     return_rx E (if xMalformedPacket then disconnect_with E eMQTTDisconnectReasonMalformedPacket w else w))"

definition prvProcessReceivedSUBACK :: "'p mqtt_env \<Rightarrow> 'p world \<Rightarrow> 'p world" where
  "prvProcessReceivedSUBACK E w = finish_ack E
     (let d = mb_data (rx_buf w); n = rx_len_bytes w in
      if unat (mb_ulDataLength (rx_buf w)) > mqttADJUST_OFFSET 4 n then
        (let w = chk (mqttADJUST_OFFSET 4 n < length d) w;
             usPacketIdentifier = be16 (rdb d (mqttADJUST_OFFSET 2 n)) (rdb d (mqttADJUST_OFFSET 3 n));
             h = prvPacketTypeFlagsIdentifierGetTxBuffer w mqttCONTROL_SUBSCRIBE mqttFLAGS_SUBSCRIBE usPacketIdentifier in
         if h = 0 then (False, snd (prvInvokeCallback E eMQTTUnexpectedSubACK w))
         else
           (let ucReturnCode = rdb d (mqttADJUST_OFFSET 4 n) in
            if ucReturnCode \<le> 1 \<or> ucReturnCode = 128 then
              (let w = snd (prvInvokeCallback E (eMQTTSubACK (suback_code ucReturnCode) usPacketIdentifier) w);
                   w = (if ucReturnCode = 128 then prvRemoveSubscriptionForSubscribeOrUnsubscribeBuffer h w else w) in
               (False, prvReturnBuffer E h w))
            else (True, w)))
      else (True, w))"

subsection \<open>UNSUBACK\<close>

definition ucUNSUBACKFixedHeader :: "u8 list" where
  "ucUNSUBACKFixedHeader = [mqttCONTROL_UNSUBACK OR mqttFLAGS_UNSUBACK, 2]"

definition prvProcessReceivedUNSUBACK :: "'p mqtt_env \<Rightarrow> 'p world \<Rightarrow> 'p world" where
  "prvProcessReceivedUNSUBACK E w = finish_ack E
     (let d = mb_data (rx_buf w); n = rx_len_bytes w in
      if unat (mb_ulDataLength (rx_buf w)) \<ge> length ucUNSUBACKFixedHeader + 2 then
        if take (length ucUNSUBACKFixedHeader) d = ucUNSUBACKFixedHeader then
          (let w = chk (mqttADJUST_OFFSET 3 n < length d) w;
               usPacketIdentifier = be16 (rdb d (mqttADJUST_OFFSET 2 n)) (rdb d (mqttADJUST_OFFSET 3 n));
               h = prvPacketTypeFlagsIdentifierGetTxBuffer w mqttCONTROL_UNSUBSCRIBE mqttFLAGS_UNSUBSCRIBE usPacketIdentifier in
           if h = 0 then (False, snd (prvInvokeCallback E eMQTTUnexpectedUnSubACK w))
           else
             (let w = snd (prvInvokeCallback E (eMQTTUnSubACK usPacketIdentifier) w);
                  w = prvRemoveSubscriptionForSubscribeOrUnsubscribeBuffer h w in
              (False, prvReturnBuffer E h w)))
        else (True, w)
      else (True, w))"

subsection \<open>PUBACK\<close>

definition ucPUBACKFixedHeader :: "u8 list" where
  "ucPUBACKFixedHeader = [mqttCONTROL_PUBACK OR mqttFLAGS_PUBACK, 2]"

definition prvProcessReceivedPUBACK :: "'p mqtt_env \<Rightarrow> 'p world \<Rightarrow> 'p world" where
  "prvProcessReceivedPUBACK E w = finish_ack E
     (let d = mb_data (rx_buf w); n = rx_len_bytes w in
      if unat (mb_ulDataLength (rx_buf w)) \<ge> length ucPUBACKFixedHeader + 2 then
        if take (length ucPUBACKFixedHeader) d = ucPUBACKFixedHeader then
          (let w = chk (mqttADJUST_OFFSET 3 n < length d) w;
               usPacketIdentifier = be16 (rdb d (mqttADJUST_OFFSET 2 n)) (rdb d (mqttADJUST_OFFSET 3 n));
               h = prvPacketTypeIdentifierGetTxBuffer w mqttCONTROL_PUBLISH usPacketIdentifier in
           if h = 0 then (False, snd (prvInvokeCallback E eMQTTUnexpectedPubACK w))
           else (False, prvReturnBuffer E h (snd (prvInvokeCallback E (eMQTTPubACK usPacketIdentifier) w))))
        else (True, w)
      else (True, w))"

subsection \<open>PINGRESP\<close>

definition ucPingRespPacket :: "u8 list" where
  "ucPingRespPacket = [mqttCONTROL_PINGRESP OR mqttFLAGS_PINGRESP, 0]"

definition prvProcessReceivedPINGRESP :: "'p mqtt_env \<Rightarrow> 'p world \<Rightarrow> 'p world" where
  "prvProcessReceivedPINGRESP E w =
     (let c = w_ctx w;
          xValidPingResponse = (unat (ulRxMessageReceivedLength c) \<ge> length ucPingRespPacket \<and>
             take (length ucPingRespPacket) (ucRxFixedHeaderBuffer c) = ucPingRespPacket) in
      if xValidPingResponse then
        if xWaitingForPingResp c then
          (case prvGetCurrentTickCount E (upd_ctx (\<lambda>c. c\<lparr>xWaitingForPingResp := False\<rparr>) w) of (t, w) \<Rightarrow>
             upd_ctx (\<lambda>c. c\<lparr>xLastSentMessageTimestamp := t,
               ulNextPeriodicInvokeTicks := ulKeepAliveActualIntervalTicks c\<rparr>) w)
        else w
      else disconnect_with E eMQTTDisconnectReasonMalformedPacket w)"

subsection \<open>PUBLISH\<close>

text \<open>
  The fields of a received publish message. \<open>id_len\<close> is the length of the packet identifier
  field, which only a QoS 1 message has; the data length is computed modulo \<open>2 ^ 32\<close>.
\<close>

definition publish_data :: "'p world \<Rightarrow> MQTTQoS_t \<Rightarrow> MQTTPublishData_t" where
  "publish_data w q =
     (let d = mb_data (rx_buf w); n = rx_len_bytes w;
          id_len = (if q = eMQTTQoS0 then 0 else 2);
          len = be16 (rdb d (mqttADJUST_OFFSET 2 n)) (rdb d (mqttADJUST_OFFSET 3 n)) in
      \<lparr>pd_xQos = q,
       pd_pucTopic = drop (mqttADJUST_OFFSET 4 n) d,
       pd_usTopicLength = len,
       pd_pvData = drop (mqttADJUST_OFFSET 4 n + unat len + id_len) d,
       pd_ulDataLength = ulTotalMessageLength (xRxMessageState (w_ctx w)) -
         (of_nat (mqttADJUST_OFFSET 4 n) + ucast len + of_nat id_len),
       pd_xBuffer = xRxBuffer (w_ctx w)\<rparr>)"

text \<open>The PUBACK for a QoS 1 message carries its packet identifier, which follows the topic.\<close>

definition send_puback :: "'p mqtt_env \<Rightarrow> MQTTPublishData_t \<Rightarrow> 'p world \<Rightarrow> 'p world" where
  "send_puback E pd w =
     (let d = mb_data (rx_buf w);
          i = mqttADJUST_OFFSET 4 (rx_len_bytes w) + unat (pd_usTopicLength pd);
          w = chk (i + 1 < length d) w in
      snd (prvSendData E [mqttCONTROL_PUBACK OR mqttFLAGS_PUBACK, 2, rdb d i, rdb d (i + 1)] 4 w))"

definition prvProcessReceivedPublish :: "'p mqtt_env \<Rightarrow> 'p world \<Rightarrow> 'p world" where
  "prvProcessReceivedPublish E w =
     (let d = mb_data (rx_buf w); ucQos = mqttPUBLISH_QoS_BITS (rdb d 0) in
      if ucQos = 0 \<or> ucQos = 1 then
        (let w = chk (mqttADJUST_OFFSET 3 (rx_len_bytes w) < length d) w;
             pd = publish_data w (if ucQos = 0 then eMQTTQoS0 else eMQTTQoS1);
             w = (if pd_xQos pd = eMQTTQoS1 then send_puback E pd w else w) in
         case prvInvokeCallback E (eMQTTPublish pd) w of (taken, w) \<Rightarrow>
           if \<not> taken then return_rx E w else w)
      else disconnect_with E eMQTTDisconnectReasonMalformedPacket w)"

subsection \<open>Dispatch\<close>

definition prvProcessReceivedFixedHeaderOnlyMQTTPacket :: "'p mqtt_env \<Rightarrow> 'p world \<Rightarrow> 'p world" where
  "prvProcessReceivedFixedHeaderOnlyMQTTPacket E w =
     (if rdb (ucRxFixedHeaderBuffer (w_ctx w)) 0 = (mqttCONTROL_PINGRESP OR mqttFLAGS_PINGRESP)
      then prvProcessReceivedPINGRESP E w
      else disconnect_with E eMQTTDisconnectReasonMalformedPacket w)"

definition prvProcessReceivedMQTTPacket :: "'p mqtt_env \<Rightarrow> 'p world \<Rightarrow> 'p world" where
  "prvProcessReceivedMQTTPacket E w =
     (let b = control_byte (rx_buf w) in
      if b AND mqttTOP_NIBBLE_MASK = mqttCONTROL_PUBLISH then prvProcessReceivedPublish E w
      else if b = (mqttCONTROL_CONNACK OR mqttFLAGS_CONNACK) then prvProcessReceivedCONNACK E w
      else if b = (mqttCONTROL_PUBACK OR mqttFLAGS_PUBACK) then prvProcessReceivedPUBACK E w
      else if b = (mqttCONTROL_SUBACK OR mqttFLAGS_SUBACK) then prvProcessReceivedSUBACK E w
      else if b = (mqttCONTROL_UNSUBACK OR mqttFLAGS_UNSUBACK) then prvProcessReceivedUNSUBACK E w
      else disconnect_with E eMQTTDisconnectReasonMalformedPacket w)"

section \<open>MQTT_ParseReceivedData\<close>

text \<open>
  One iteration of the loop takes the bytes that are still to be processed and gives
  those left after it; \<open>Some rc\<close> is a \<open>break\<close> with that return code. Each of the four
  situations of the receiver has its own definition.
\<close>

type_synonym 'p parse_result = "MQTTReturnCode_t option \<times> u8 list \<times> 'p world"

text \<open>\<open>mqttCOPY_BYTES\<close> of one byte into the fixed header buffer.\<close>

definition copy_header_byte :: "u8 \<Rightarrow> 'p world \<Rightarrow> 'p world" where
  "copy_header_byte b w =
     (let i = unat (ulRxMessageReceivedLength (w_ctx w)) in
      upd_ctx (\<lambda>c. c\<lparr>ucRxFixedHeaderBuffer := (ucRxFixedHeaderBuffer c)[i := b],
        ulRxMessageReceivedLength := ulRxMessageReceivedLength c + 1\<rparr>)
        (chk (i < length (ucRxFixedHeaderBuffer (w_ctx w))) w))"

definition upd_rx_state :: "(MQTTRxMessageState_t \<Rightarrow> MQTTRxMessageState_t) \<Rightarrow> 'p world \<Rightarrow> 'p world" where
  "upd_rx_state f w = upd_ctx (\<lambda>c. c\<lparr>xRxMessageState := f (xRxMessageState c)\<rparr>) w"

definition parse_packet_type :: "'p mqtt_env \<Rightarrow> u8 list \<Rightarrow> 'p world \<Rightarrow> 'p parse_result" where
  "parse_packet_type E rest w =
     (None, tl rest, upd_rx_state (\<lambda>s. s\<lparr>xRxNextByte := eMQTTRxNextBytePacketLength\<rparr>) (copy_header_byte (hd rest) w))"

text \<open>
  The fixed header is complete: decode the length, then handle the packet or find a buffer
  for it. With a buffer, the header is copied and the rest of the message will be stored,
  without one it will be dropped.
\<close>

definition rx_decode :: "MQTTContext_t \<Rightarrow> nat \<times> u32" where
  "rx_decode c =
     (case prvDecodeRemainingLength (drop 1 (ucRxFixedHeaderBuffer c)) of (n, len) \<Rightarrow>
        (n, (case len of Some l \<Rightarrow> l | None \<Rightarrow> ulTotalMessageLength (xRxMessageState c)) + ulRxMessageReceivedLength c))"

definition start_store :: "addr \<Rightarrow> 'p world \<Rightarrow> 'p world" where
  "start_store h w =
     (let c = w_ctx w; k = unat (ulRxMessageReceivedLength c);
          w = with_data h (\<lambda>m. m_blit 0 (take k (ucRxFixedHeaderBuffer c))
                (m_need (k \<le> length (ucRxFixedHeaderBuffer c)) m)) w;
          w = upd_buf h (\<lambda>b. b\<lparr>mb_ulDataLength := ulRxMessageReceivedLength c\<rparr>) w in
      upd_rx_state (\<lambda>s. s\<lparr>xRxNextByte := eMQTTRxNextByteMessage, xRxMessageAction := eMQTTRxMessageStore\<rparr>) w)"

definition start_drop :: "'p mqtt_env \<Rightarrow> 'p world \<Rightarrow> 'p world" where
  "start_drop E w =
     (let w = upd_rx_state (\<lambda>s. s\<lparr>xRxNextByte := eMQTTRxNextByteMessage, xRxMessageAction := eMQTTRxMessageDrop\<rparr>) w in
      upd_ctx (\<lambda>c. c\<lparr>xRxBuffer := 0\<rparr>) (return_rx E w))"

definition header_complete :: "'p mqtt_env \<Rightarrow> 'p world \<Rightarrow> 'p world" where
  "header_complete E w =
     (case rx_decode (w_ctx w) of (n, tot) \<Rightarrow>
        (let w = upd_rx_state (\<lambda>s. s\<lparr>ucRemaingingLengthFieldBytes := n, ulTotalMessageLength := tot\<rparr>) w in
         if tot = ulRxMessageReceivedLength (w_ctx w) then
           prvResetRxMessageState (prvProcessReceivedFixedHeaderOnlyMQTTPacket E w)
         else
           (case prvGetFreeBuffer E tot w of (h, w) \<Rightarrow>
              (let w = upd_ctx (\<lambda>c. c\<lparr>xRxBuffer := h\<rparr>) w in
               if h \<noteq> 0 then start_store h w else start_drop E w))))"

definition parse_packet_length :: "'p mqtt_env \<Rightarrow> u8 list \<Rightarrow> 'p world \<Rightarrow> 'p parse_result" where
  "parse_packet_length E rest w =
     (let w = copy_header_byte (hd rest) w;
          received = unat (ulRxMessageReceivedLength (w_ctx w)) in
      if rdb (ucRxFixedHeaderBuffer (w_ctx w)) (received - 1) AND mqttREMAINING_LENGTH_CONTINUATION_BITMASK \<noteq> 0 then
        if received \<ge> mqttFIXED_HEADER_MAX_SIZE
        then (Some eMQTTMalformedPacketReceived, tl rest, disconnect_with E eMQTTDisconnectReasonMalformedPacket w)
        else (None, tl rest, w)
      else (None, tl rest, header_complete E w))"

text \<open>\<open>mqttCOPY_BYTES\<close> into the Rx buffer.\<close>

definition copy_to_rx :: "u8 list \<Rightarrow> 'p world \<Rightarrow> 'p world" where
  "copy_to_rx bs w =
     (let h = xRxBuffer (w_ctx w);
          w = with_data h (m_blit (unat (mb_ulDataLength (w_bufs w h))) bs) w in
      upd_buf h (\<lambda>b. b\<lparr>mb_ulDataLength := mb_ulDataLength b + of_nat (length bs)\<rparr>) w)"

definition parse_store :: "'p mqtt_env \<Rightarrow> u8 list \<Rightarrow> 'p world \<Rightarrow> 'p parse_result" where
  "parse_store E rest w =
     (let xExpectedBytes = unat (ulTotalMessageLength (xRxMessageState (w_ctx w)) - mb_ulDataLength (rx_buf w)) in
      if length rest < xExpectedBytes then (None, [], copy_to_rx rest w)
      else (None, drop xExpectedBytes rest,
            prvResetRxMessageState (prvProcessReceivedMQTTPacket E (copy_to_rx (take xExpectedBytes rest) w))))"

definition parse_drop :: "'p mqtt_env \<Rightarrow> u8 list \<Rightarrow> 'p world \<Rightarrow> 'p parse_result" where
  "parse_drop E rest w =
     (let xExpectedBytes = unat (ulTotalMessageLength (xRxMessageState (w_ctx w)) - ulRxMessageReceivedLength (w_ctx w)) in
      if length rest < xExpectedBytes then
        (None, [], upd_ctx (\<lambda>c. c\<lparr>ulRxMessageReceivedLength := ulRxMessageReceivedLength c + of_nat (length rest)\<rparr>) w)
      else
        (let w = upd_ctx (\<lambda>c. c\<lparr>ulRxMessageReceivedLength := ulRxMessageReceivedLength c + of_nat xExpectedBytes\<rparr>) w in
         (None, drop xExpectedBytes rest, prvResetRxMessageState (snd (prvInvokeCallback E eMQTTPacketDropped w)))))"

definition parse_step :: "'p mqtt_env \<Rightarrow> u8 list \<Rightarrow> 'p world \<Rightarrow> 'p parse_result" where
  "parse_step E rest w =
     (if xConnectionState (w_ctx w) = eMQTTNotConnected then (Some eMQTTClientNotConnected, rest, w)
      else (case xRxNextByte (xRxMessageState (w_ctx w)) of
              eMQTTRxNextBytePacketType \<Rightarrow> parse_packet_type E rest w
            | eMQTTRxNextBytePacketLength \<Rightarrow> parse_packet_length E rest w
            | eMQTTRxNextByteMessage \<Rightarrow>
                (case xRxMessageAction (xRxMessageState (w_ctx w)) of
                   eMQTTRxMessageStore \<Rightarrow> parse_store E rest w
                 | eMQTTRxMessageDrop \<Rightarrow> parse_drop E rest w)))"

text \<open>
  Each iteration consumes input, except the last one for a packet of which nothing is
  missing, and that one leaves the receiver at the start of a new packet.
\<close>

definition parse_measure :: "u8 list \<Rightarrow> 'p world \<Rightarrow> nat" where
  "parse_measure rest w = 2 * length rest +
     (if xRxNextByte (xRxMessageState (w_ctx w)) = eMQTTRxNextByteMessage then 1 else 0)"

lemma reset_next_byte [simp]:
  "xRxNextByte (xRxMessageState (w_ctx (prvResetRxMessageState w))) = eMQTTRxNextBytePacketType"
  by (simp add: prvResetRxMessageState_def upd_ctx_def reset_rx_def)

lemma parse_step_progress:
  "rest \<noteq> [] \<Longrightarrow> parse_step E rest w = (None, rest', w') \<Longrightarrow> parse_measure rest' w' < parse_measure rest w"
  by (cases rest)
    (auto simp: parse_step_def parse_packet_type_def parse_packet_length_def parse_store_def parse_drop_def
      parse_measure_def Let_def split: if_splits MQTTRxNextByte_t.splits MQTTRxMessageAction_t.splits)

function parse_loop :: "'p mqtt_env \<Rightarrow> u8 list \<Rightarrow> 'p world \<Rightarrow> MQTTReturnCode_t \<times> 'p world" where
  "parse_loop E rest w =
     (if rest \<noteq> [] then
        (case parse_step E rest w of
           (Some rc, rest', w') \<Rightarrow> (rc, w')
         | (None, rest', w') \<Rightarrow> parse_loop E rest' w')
      else (eMQTTSuccess, w))"
  by pat_completeness auto
termination
  by (relation "measure (\<lambda>(_, rest, w). parse_measure rest w)") (auto dest: parse_step_progress [OF _ sym])

declare parse_loop.simps [simp del]

definition MQTT_ParseReceivedData :: "'p mqtt_env \<Rightarrow> u8 list \<Rightarrow> nat \<Rightarrow> 'p world \<Rightarrow> MQTTReturnCode_t \<times> 'p world" where
  "MQTT_ParseReceivedData E pucReceivedData xReceivedDataLength w =
     parse_loop E (take xReceivedDataLength pucReceivedData)
       (chk (xReceivedDataLength \<le> length pucReceivedData) w)"

end
