(* ===== verification/MqttPeriodic.thy ===== *)
theory MqttPeriodic
  imports MqttRecv
begin

text \<open>
  \<open>MQTT_Periodic\<close> of \<open>AWS/mqtt/aws_mqtt_lib.c\<close>: timeouts of packets waiting for an
  acknowledgment and the keep-alive messages.
\<close>

section \<open>Timeouts\<close>

text \<open>
  The loop over the Tx list. It runs over the list as it was at the start: the only
  entry an iteration removes is its own, except for a timed out CONNECT, which ends
  the loop. The value carried along is \<open>ulNextTimeoutTicks\<close>.
\<close>

fun periodic_tx :: "'p mqtt_env \<Rightarrow> u64 \<Rightarrow> addr list \<Rightarrow> u32 \<Rightarrow> 'p world \<Rightarrow> u32 \<times> 'p world" where
  "periodic_tx E xCurrentTickCount [] ulNextTimeoutTicks w = (ulNextTimeoutTicks, w)"
| "periodic_tx E xCurrentTickCount (h # hs) ulNextTimeoutTicks w =
     (case prvIsTimeElapsed (mb_xRecordedTickCount (w_bufs w h)) xCurrentTickCount (mb_ulTimeoutTicks (w_bufs w h)) of
        (elapsed, t, r) \<Rightarrow>
          (let w = upd_buf h (\<lambda>b. b\<lparr>mb_xRecordedTickCount := t, mb_ulTimeoutTicks := r\<rparr>) w in
           if elapsed then
             if control_byte (w_bufs w h) = (mqttCONTROL_CONNECT OR mqttFLAGS_CONNECT)
             then (ulNextTimeoutTicks, disconnect_with E eMQTTDisconnectReasonConnectTimeout w)
             else
               (let w = (if control_byte (w_bufs w h) = (mqttCONTROL_SUBSCRIBE OR mqttFLAGS_SUBSCRIBE)
                         then prvRemoveSubscriptionForSubscribeOrUnsubscribeBuffer h w else w);
                    w = snd (prvInvokeCallback E (eMQTTTimeout (mb_usPacketIdentifier (w_bufs w h))) w) in
                periodic_tx E xCurrentTickCount hs ulNextTimeoutTicks (prvReturnBuffer E h w))
           else periodic_tx E xCurrentTickCount hs (min ulNextTimeoutTicks (mb_ulTimeoutTicks (w_bufs w h))) w))"

section \<open>Keep-alive\<close>

definition ucPingReqPacket :: "u8 list" where
  "ucPingReqPacket = [mqttCONTROL_PINGREQ OR mqttFLAGS_PINGREQ, 0]"

definition periodic_keep_alive :: "'p mqtt_env \<Rightarrow> u64 \<Rightarrow> 'p world \<Rightarrow> 'p world" where
  "periodic_keep_alive E xCurrentTickCount w =
     (case prvIsTimeElapsed (xLastSentMessageTimestamp (w_ctx w)) xCurrentTickCount (ulNextPeriodicInvokeTicks (w_ctx w)) of
        (elapsed, t, r) \<Rightarrow>
          (let w = upd_ctx (\<lambda>c. c\<lparr>xLastSentMessageTimestamp := t, ulNextPeriodicInvokeTicks := r\<rparr>) w in
           if elapsed then
             if xWaitingForPingResp (w_ctx w)
             then upd_ctx (\<lambda>c. c\<lparr>xWaitingForPingResp := False\<rparr>) (snd (prvInvokeCallback E eMQTTPingTimeout w))
             else
               (case prvSendData E ucPingReqPacket 2 w of (rc, w) \<Rightarrow>
                  if rc = eMQTTSuccess then
                    (case prvGetCurrentTickCount E w of (t, w) \<Rightarrow>
                       upd_ctx (\<lambda>c. c\<lparr>xLastSentMessageTimestamp := t,
                         ulNextPeriodicInvokeTicks := ulPingRequestTimeoutTicks c, xWaitingForPingResp := True\<rparr>) w)
                  else w)
           else w))"

definition MQTT_Periodic :: "'p mqtt_env \<Rightarrow> u64 \<Rightarrow> 'p world \<Rightarrow> u32 \<times> 'p world" where
  "MQTT_Periodic E xCurrentTickCount w =
     (case periodic_tx E xCurrentTickCount (xTxBufferList (w_ctx w)) 0xFFFFFFFF w of (next, w) \<Rightarrow>
        if xConnectionState (w_ctx w) = eMQTTConnected then
          (let w = periodic_keep_alive E xCurrentTickCount w in
           (min next (ulNextPeriodicInvokeTicks (w_ctx w)), w))
        else (next, w))"

end
