(* ===== verification/MqttInv.thy ===== *)
theory MqttInv
  imports MqttPeriodic
begin

text \<open>
  Ownership of buffers. Every buffer that is in use belongs to exactly one of: the list
  of packets waiting for an acknowledgment, the receiver, the user who took it in a
  callback, or another client of the pool. Every operation of the library keeps this,
  for every pool that satisfies the interface \<open>buffer_pool\<close>.
\<close>

section \<open>What the helpers change\<close>

named_theorems frame_simps \<open>what the helpers leave unchanged\<close>

lemma upd_ctx_frame [frame_simps]:
  "w_ctx (upd_ctx f w) = f (w_ctx w)" "w_pool (upd_ctx f w) = w_pool w" "w_bufs (upd_ctx f w) = w_bufs w"
  "w_trace (upd_ctx f w) = w_trace w" "w_fault (upd_ctx f w) = w_fault w"
  by (simp_all add: upd_ctx_def)

lemma upd_rx_state_frame [frame_simps]:
  "w_ctx (upd_rx_state f w) = (w_ctx w)\<lparr>xRxMessageState := f (xRxMessageState (w_ctx w))\<rparr>"
  "w_pool (upd_rx_state f w) = w_pool w" "w_bufs (upd_rx_state f w) = w_bufs w"
  "w_trace (upd_rx_state f w) = w_trace w" "w_fault (upd_rx_state f w) = w_fault w"
  by (simp_all add: upd_rx_state_def frame_simps)

lemma upd_buf_frame [frame_simps]:
  "w_ctx (upd_buf h f w) = w_ctx w" "w_pool (upd_buf h f w) = w_pool w"
  "w_bufs (upd_buf h f w) = (w_bufs w)(h := f (w_bufs w h))"
  "w_trace (upd_buf h f w) = w_trace w" "w_fault (upd_buf h f w) = w_fault w"
  by (simp_all add: upd_buf_def)

lemma observe_frame [frame_simps]:
  "w_ctx (observe ob w) = w_ctx w" "w_pool (observe ob w) = w_pool w" "w_bufs (observe ob w) = w_bufs w"
  "w_trace (observe ob w) = ob # w_trace w" "w_fault (observe ob w) = w_fault w"
  by (simp_all add: observe_def)

lemma chk_frame [frame_simps]:
  "w_ctx (chk b w) = w_ctx w" "w_pool (chk b w) = w_pool w" "w_bufs (chk b w) = w_bufs w"
  "w_trace (chk b w) = w_trace w" "w_fault (chk b w) = (w_fault w \<or> \<not> b)"
  by (simp_all add: chk_def)

lemma with_data_frame [frame_simps]:
  "w_ctx (with_data h g w) = w_ctx w" "w_pool (with_data h g w) = w_pool w"
  "w_bufs (with_data h g w) = (w_bufs w)(h := (w_bufs w h)\<lparr>mb_data := fst (g (mb_data (w_bufs w h), w_fault w))\<rparr>)"
  "w_trace (with_data h g w) = w_trace w"
  "w_fault (with_data h g w) = snd (g (mb_data (w_bufs w h), w_fault w))"
  by (simp_all add: with_data_def frame_simps split: prod.splits)

lemma finish_tx_frame [frame_simps]:
  "w_ctx (finish_tx h i n w) = w_ctx w" "w_pool (finish_tx h i n w) = w_pool w"
  "w_bufs (finish_tx h i n w) = (w_bufs w)(h := (w_bufs w h)\<lparr>mb_usPacketIdentifier := i, mb_ulDataLength := n\<rparr>)"
  "w_trace (finish_tx h i n w) = w_trace w" "w_fault (finish_tx h i n w) = w_fault w"
  by (simp_all add: finish_tx_def frame_simps)

lemma copy_header_byte_frame [frame_simps]:
  "w_pool (copy_header_byte b w) = w_pool w" "w_bufs (copy_header_byte b w) = w_bufs w"
  "w_trace (copy_header_byte b w) = w_trace w"
  "w_ctx (copy_header_byte b w) = (w_ctx w)\<lparr>
     ucRxFixedHeaderBuffer := (ucRxFixedHeaderBuffer (w_ctx w))[unat (ulRxMessageReceivedLength (w_ctx w)) := b],
     ulRxMessageReceivedLength := ulRxMessageReceivedLength (w_ctx w) + 1\<rparr>"
  by (simp_all add: copy_header_byte_def Let_def frame_simps)

lemma copy_to_rx_frame [frame_simps]:
  "w_ctx (copy_to_rx bs w) = w_ctx w" "w_pool (copy_to_rx bs w) = w_pool w" "w_trace (copy_to_rx bs w) = w_trace w"
  by (simp_all add: copy_to_rx_def Let_def frame_simps)

text \<open>Reading the time only adds to the trace; sending also writes two fields of the context.\<close>

lemma ticks_frame:
  assumes "prvGetCurrentTickCount E w = (t, w')"
  shows "w_ctx w' = w_ctx w" "w_pool w' = w_pool w" "w_bufs w' = w_bufs w" "w_fault w' = w_fault w"
    "w_trace w' = (case pxGetTicksFxn (w_ctx w) of None \<Rightarrow> [] | Some _ \<Rightarrow> [OTicks t]) @ w_trace w"
  using assms by (auto simp: prvGetCurrentTickCount_def Let_def frame_simps split: option.splits)

definition same_but_time :: "MQTTContext_t \<Rightarrow> MQTTContext_t \<Rightarrow> bool" where
  "same_but_time c c' \<longleftrightarrow> c\<lparr>xLastSentMessageTimestamp := 0, ulNextPeriodicInvokeTicks := 0\<rparr> =
     c'\<lparr>xLastSentMessageTimestamp := 0, ulNextPeriodicInvokeTicks := 0\<rparr>"

lemma same_but_time_fields:
  assumes "same_but_time c c'"
  shows "xTxBufferList c' = xTxBufferList c" "xRxBuffer c' = xRxBuffer c" "xRxMessageState c' = xRxMessageState c"
    "ucRxFixedHeaderBuffer c' = ucRxFixedHeaderBuffer c" "ulRxMessageReceivedLength c' = ulRxMessageReceivedLength c"
    "xConnectionState c' = xConnectionState c" "xSubscriptionManager c' = xSubscriptionManager c"
    "pxGetBufferFxn c' = pxGetBufferFxn c" "pxReturnBufferFxn c' = pxReturnBufferFxn c"
    "pxCallback c' = pxCallback c" "ulKeepAliveActualIntervalTicks c' = ulKeepAliveActualIntervalTicks c"
    "xWaitingForPingResp c' = xWaitingForPingResp c" "ulPingRequestTimeoutTicks c' = ulPingRequestTimeoutTicks c"
  using assms unfolding same_but_time_def by (cases c; cases c'; simp)+

lemma send_frame:
  assumes "prvSendData E d n w = (rc, w')"
  shows "same_but_time (w_ctx w) (w_ctx w')" "w_pool w' = w_pool w" "w_bufs w' = w_bufs w"
    "w_fault w' = (w_fault w \<or> \<not> unat n \<le> length d)"
    "rc = eMQTTSuccess \<or> rc = eMQTTSendFailed"
  using assms
  by (auto simp: prvSendData_def Let_def frame_simps same_but_time_def split: if_splits prod.splits dest: ticks_frame)

lemmas send_fields = same_but_time_fields [OF send_frame(1)]

text \<open>Callbacks see the state but do not change it.\<close>

lemma call_publish_frame:
  assumes "call_publish E f c pd w = (b, w')"
  shows "w_ctx w' = w_ctx w" "w_pool w' = w_pool w" "w_bufs w' = w_bufs w" "w_fault w' = w_fault w"
    "w_trace w' = OPublish f pd b # w_trace w"
  using assms by (auto simp: call_publish_def Let_def frame_simps)

section \<open>Buffers in the hands of the user\<close>

text \<open>The buffers that the user took in a publish callback and has not given back.\<close>

fun user_owned :: "obs list \<Rightarrow> addr set" where
  "user_owned [] = {}"
| "user_owned (OEvent (eMQTTPublish pd) True # tr) = insert (pd_xBuffer pd) (user_owned tr)"
| "user_owned (OPublish f pd True # tr) = insert (pd_xBuffer pd) (user_owned tr)"
| "user_owned (OReturn h # tr) = user_owned tr - {h}"
| "user_owned (ob # tr) = user_owned tr"

lemma user_owned_simps [simp]:
  "user_owned (OSend d n # tr) = user_owned tr" "user_owned (OTicks t # tr) = user_owned tr"
  "user_owned (OPublish f pd b # tr) = (if b then insert (pd_xBuffer pd) (user_owned tr) else user_owned tr)"
  "user_owned (OEvent (eMQTTPublish pd) b # tr) = (if b then insert (pd_xBuffer pd) (user_owned tr) else user_owned tr)"
  by (cases b; simp)+

lemma user_owned_event [simp]:
  "(\<And>pd. ev \<noteq> eMQTTPublish pd) \<Longrightarrow> user_owned (OEvent ev b # tr) = user_owned tr"
  by (cases ev; cases b) auto

lemma ticks_owned: "prvGetCurrentTickCount E w = (t, w') \<Longrightarrow> user_owned (w_trace w') = user_owned (w_trace w)"
  by (auto dest!: ticks_frame(5) split: option.splits)

lemma send_owned: "prvSendData E d n w = (rc, w') \<Longrightarrow> user_owned (w_trace w') = user_owned (w_trace w)"
  by (auto simp: prvSendData_def Let_def frame_simps split: if_splits prod.splits dest!: ticks_owned)

text \<open>What a loop over the subscription table does to the world.\<close>

definition callbacks_effect :: "MQTTPublishData_t \<Rightarrow> bool \<Rightarrow> 'p world \<Rightarrow> bool \<times> bool \<times> 'p world \<Rightarrow> bool" where
  "callbacks_effect pd invoked w r \<longleftrightarrow> (case r of (taken, invoked', w') \<Rightarrow>
     w_ctx w' = w_ctx w \<and> w_pool w' = w_pool w \<and> w_bufs w' = w_bufs w \<and>
     (w_fault w' \<longrightarrow> w_fault w \<or> \<not> topic_in_buffer pd) \<and>
     user_owned (w_trace w') = (if taken then insert (pd_xBuffer pd) (user_owned (w_trace w)) else user_owned (w_trace w)) \<and>
     (taken \<or> invoked \<longrightarrow> invoked'))"

lemma callbacks_effect_refl: "callbacks_effect pd invoked w (False, invoked, w)"
  by (simp add: callbacks_effect_def)

lemma callbacks_effect_chk: "callbacks_effect pd invoked (chk (topic_in_buffer pd) w) r \<Longrightarrow> callbacks_effect pd invoked w r"
  by (auto simp: callbacks_effect_def frame_simps split: prod.splits)

lemma callbacks_effect_call:
  assumes "call_publish E f c pd w = (b, w')"
  shows "b \<Longrightarrow> callbacks_effect pd invoked w (True, True, w')"
    and "\<not> b \<Longrightarrow> callbacks_effect pd True w' r \<Longrightarrow> callbacks_effect pd invoked w r"
  using call_publish_frame [OF assms] by (auto simp: callbacks_effect_def split: prod.splits)

lemma simple_callbacks_effect: "callbacks_effect pd invoked w (simple_callbacks E pd x False invoked w)"
proof (induction "8 - x" arbitrary: x invoked w rule: less_induct)
  case less
  show ?case
  proof (cases "x < 8")
    case True
    then have IH: "callbacks_effect pd i w' (simple_callbacks E pd (Suc x) False i w')" for i w'
      using less [of "Suc x"] by simp
    let ?w = "chk (topic_in_buffer pd) w"
    have hit: "callbacks_effect pd invoked w (case call_publish E f c pd ?w of (b, w') \<Rightarrow>
        if b then (True, True, w') else simple_callbacks E pd (x + 1) b True w')" for f c
      by (cases "call_publish E f c pd ?w")
        (simp add: callbacks_effect_chk callbacks_effect_call callbacks_effect_call(2) [OF _ _ IH])
    have miss: "callbacks_effect pd invoked w (simple_callbacks E pd (Suc x) False invoked ?w)"
      by (rule callbacks_effect_chk [OF IH])
    show ?thesis
      using True by (subst simple_callbacks.simps) (simp add: sub_config_defs Let_def IH hit miss split: option.split)
  qed (subst simple_callbacks.simps, simp add: sub_config_defs callbacks_effect_refl)
qed

lemma wildcard_callbacks_effect: "callbacks_effect pd invoked w (wildcard_callbacks E pd x False invoked w)"
proof (induction "8 - x" arbitrary: x invoked w rule: less_induct)
  case less
  show ?case
  proof (cases "x < 8")
    case True
    then have IH: "callbacks_effect pd i w' (wildcard_callbacks E pd (Suc x) False i w')" for i w'
      using less [of "Suc x"] by simp
    let ?w = "chk (topic_in_buffer pd) w"
    have hit: "callbacks_effect pd invoked w (case call_publish E f c pd ?w of (b, w') \<Rightarrow>
        if b then (True, True, w') else wildcard_callbacks E pd (x + 1) b True w')" for f c
      by (cases "call_publish E f c pd ?w")
        (simp add: callbacks_effect_chk callbacks_effect_call callbacks_effect_call(2) [OF _ _ IH])
    have miss: "callbacks_effect pd invoked w (wildcard_callbacks E pd (Suc x) False invoked ?w)"
      by (rule callbacks_effect_chk [OF IH])
    show ?thesis
      using True by (subst wildcard_callbacks.simps) (simp add: sub_config_defs Let_def IH hit miss split: option.split)
  qed (subst wildcard_callbacks.simps, simp add: sub_config_defs callbacks_effect_refl)
qed

lemma subscription_callbacks_effect: "callbacks_effect pd False w (prvInvokeSubscriptionCallbacks E pd w)"
proof -
  obtain taken invoked w1 where s: "simple_callbacks E pd 0 False False w = (taken, invoked, w1)"
    by (metis prod_cases3)
  have e: "callbacks_effect pd False w (taken, invoked, w1)"
    using simple_callbacks_effect [of pd False w E 0] s by simp
  show ?thesis
  proof (cases taken)
    case False
    have "callbacks_effect pd invoked w1 (wildcard_callbacks E pd 0 False invoked w1)"
      by (rule wildcard_callbacks_effect)
    with e False show ?thesis
      by (auto simp: prvInvokeSubscriptionCallbacks_def s callbacks_effect_def split: prod.splits)
  qed (use e in \<open>simp add: prvInvokeSubscriptionCallbacks_def s\<close>)
qed

lemma invoke_publish_cases:
  assumes "prvInvokeCallback E (eMQTTPublish pd) w = (taken, w')"
    and s: "prvInvokeSubscriptionCallbacks E pd w = (tk, ivk, w1)"
  shows "taken = tk \<and> w' = w1 \<or> \<not> ivk \<and> w' = observe (OEvent (eMQTTPublish pd) taken) w1"
proof -
  have "prvInvokeCallback E (eMQTTPublish pd) w = (case pxCallback (w_ctx w1) of
       None \<Rightarrow> (tk, w1)
     | Some f \<Rightarrow>
         if \<not> ivk then
           (let b = e_event E f (w_trace w1) (pvCallbackContext (w_ctx w1)) (eMQTTPublish pd) in
            (b, observe (OEvent (eMQTTPublish pd) b) w1))
         else (tk, w1))"
    unfolding prvInvokeCallback_def by (simp add: s)
  then show ?thesis
    using assms(1) by (cases "pxCallback (w_ctx w1)"; cases ivk) (auto simp: Let_def)
qed

lemma invoke_publish:
  assumes "prvInvokeCallback E (eMQTTPublish pd) w = (taken, w')"
  shows "w_ctx w' = w_ctx w" "w_pool w' = w_pool w" "w_bufs w' = w_bufs w"
    "w_fault w' \<Longrightarrow> w_fault w \<or> \<not> topic_in_buffer pd"
    "user_owned (w_trace w') = (if taken then insert (pd_xBuffer pd) (user_owned (w_trace w)) else user_owned (w_trace w))"
proof -
  obtain tk ivk w1 where s: "prvInvokeSubscriptionCallbacks E pd w = (tk, ivk, w1)"
    by (rule prod_cases3)
  then have "callbacks_effect pd False w (tk, ivk, w1)"
    using subscription_callbacks_effect [of pd w E] by simp
  then have e: "w_ctx w1 = w_ctx w" "w_pool w1 = w_pool w" "w_bufs w1 = w_bufs w"
    "w_fault w1 \<longrightarrow> w_fault w \<or> \<not> topic_in_buffer pd" "tk \<longrightarrow> ivk"
    "user_owned (w_trace w1) = (if tk then insert (pd_xBuffer pd) (user_owned (w_trace w)) else user_owned (w_trace w))"
    by (simp_all add: callbacks_effect_def)
  consider "taken = tk" "w' = w1" | "\<not> ivk" "w' = observe (OEvent (eMQTTPublish pd) taken) w1"
    using invoke_publish_cases [OF assms s] by blast
  then have "w_ctx w' = w_ctx w \<and> w_pool w' = w_pool w \<and> w_bufs w' = w_bufs w \<and>
    (w_fault w' \<longrightarrow> w_fault w \<or> \<not> topic_in_buffer pd) \<and>
    user_owned (w_trace w') = (if taken then insert (pd_xBuffer pd) (user_owned (w_trace w)) else user_owned (w_trace w))"
  proof cases
    case 1
    then show ?thesis by (simp add: e)
  next
    case 2
    then have "\<not> tk" using e(5) by blast
    with 2 show ?thesis by (simp add: frame_simps e)
  qed
  then show "w_ctx w' = w_ctx w" "w_pool w' = w_pool w" "w_bufs w' = w_bufs w"
    "w_fault w' \<Longrightarrow> w_fault w \<or> \<not> topic_in_buffer pd"
    "user_owned (w_trace w') = (if taken then insert (pd_xBuffer pd) (user_owned (w_trace w)) else user_owned (w_trace w))"
    by blast+
qed

lemma invoke_event:
  assumes "\<And>pd. ev \<noteq> eMQTTPublish pd"
  shows "w_ctx (snd (prvInvokeCallback E ev w)) = w_ctx w" "w_pool (snd (prvInvokeCallback E ev w)) = w_pool w"
    "w_bufs (snd (prvInvokeCallback E ev w)) = w_bufs w" "w_fault (snd (prvInvokeCallback E ev w)) = w_fault w"
    "user_owned (w_trace (snd (prvInvokeCallback E ev w))) = user_owned (w_trace w)"
  using assms by (cases ev; auto simp: prvInvokeCallback_def Let_def frame_simps split: option.splits)+

lemma invoke_event_frame [frame_simps]:
  "w_ctx (snd (prvInvokeCallback E ev w)) = w_ctx w" "w_pool (snd (prvInvokeCallback E ev w)) = w_pool w"
  "w_bufs (snd (prvInvokeCallback E ev w)) = w_bufs w"
proof -
  have "w_ctx (snd (prvInvokeCallback E ev w)) = w_ctx w \<and> w_pool (snd (prvInvokeCallback E ev w)) = w_pool w \<and>
    w_bufs (snd (prvInvokeCallback E ev w)) = w_bufs w"
  proof (cases "\<exists>pd. ev = eMQTTPublish pd")
    case True
    then show ?thesis using invoke_publish(1-3) [of E _ w] by (metis prod.collapse)
  next
    case False
    then show ?thesis using invoke_event(1-3) by metis
  qed
  then show "w_ctx (snd (prvInvokeCallback E ev w)) = w_ctx w" "w_pool (snd (prvInvokeCallback E ev w)) = w_pool w"
    "w_bufs (snd (prvInvokeCallback E ev w)) = w_bufs w" by auto
qed

section \<open>The ownership invariant\<close>

definition rx_list :: "MQTTContext_t \<Rightarrow> addr list" where
  "rx_list c = (if xRxBuffer c = 0 then [] else [xRxBuffer c])"

text \<open>The buffers the library holds.\<close>

definition lib_bufs :: "MQTTContext_t \<Rightarrow> addr list" where
  "lib_bufs c = xTxBufferList c @ rx_list c"

text \<open>
  \<open>F\<close> is the set of buffers that other clients of the pool hold; \<open>inuse\<close> is the set of all
  buffers in use and \<open>pinv\<close> the invariant of the pool, for a pool with the functions \<open>get\<close>
  and \<open>ret\<close>.
\<close>

definition pool_ok ::
  "('p \<Rightarrow> u32 \<Rightarrow> (addr \<times> u32) option \<times> 'p) \<Rightarrow> ('p \<Rightarrow> addr \<Rightarrow> 'p) \<Rightarrow> ('p \<Rightarrow> addr set) \<Rightarrow> ('p \<Rightarrow> bool) \<Rightarrow>
     addr set \<Rightarrow> 'p mqtt_env \<Rightarrow> 'p world \<Rightarrow> bool" where
  "pool_ok get ret inuse pinv F E w \<longleftrightarrow>
     e_get E (pxGetBufferFxn (w_ctx w)) = get \<and> e_ret E (pxReturnBufferFxn (w_ctx w)) = ret \<and>
     pinv (w_pool w) \<and>
     distinct (lib_bufs (w_ctx w)) \<and> 0 \<notin> set (lib_bufs (w_ctx w)) \<and>
     set (lib_bufs (w_ctx w)) \<inter> user_owned (w_trace w) = {} \<and>
     (set (lib_bufs (w_ctx w)) \<union> user_owned (w_trace w)) \<inter> F = {} \<and>
     0 \<notin> user_owned (w_trace w) \<and>
     inuse (w_pool w) = set (lib_bufs (w_ctx w)) \<union> user_owned (w_trace w) \<union> F"

lemma lib_bufs_reset_rx [simp]: "lib_bufs (reset_rx c) = xTxBufferList c"
  by (simp add: lib_bufs_def rx_list_def reset_rx_def)

lemma lib_bufs_cong:
  "xTxBufferList c' = xTxBufferList c \<Longrightarrow> xRxBuffer c' = xRxBuffer c \<Longrightarrow> lib_bufs c' = lib_bufs c"
  by (simp add: lib_bufs_def rx_list_def)

lemma pool_ok_cong:
  assumes "pool_ok get ret inuse pinv F E w"
    and "xTxBufferList (w_ctx w') = xTxBufferList (w_ctx w)" "xRxBuffer (w_ctx w') = xRxBuffer (w_ctx w)"
    and "pxGetBufferFxn (w_ctx w') = pxGetBufferFxn (w_ctx w)" "pxReturnBufferFxn (w_ctx w') = pxReturnBufferFxn (w_ctx w)"
    and "w_pool w' = w_pool w" "user_owned (w_trace w') = user_owned (w_trace w)"
  shows "pool_ok get ret inuse pinv F E w'"
  using assms lib_bufs_cong [OF assms(2,3)] by (simp add: pool_ok_def)

lemma return_frame:
  "w_trace (prvReturnBuffer E h w) = w_trace w" "w_fault (prvReturnBuffer E h w) = w_fault w"
  "w_ctx (prvReturnBuffer E h w) = (if h = 0 then w_ctx w else (w_ctx w)\<lparr>xTxBufferList := remove1 h (xTxBufferList (w_ctx w))\<rparr>)"
  "w_bufs (prvReturnBuffer E h w) = (if h = 0 then w_bufs w else (w_bufs w)(h := memset_data (w_bufs w h)))"
  by (simp_all add: prvReturnBuffer_def Let_def frame_simps)

context buffer_pool
begin

abbreviation ok :: "addr set \<Rightarrow> 'p mqtt_env \<Rightarrow> 'p world \<Rightarrow> bool" where
  "ok F E w \<equiv> pool_ok get ret inuse pinv F E w"

lemma ok_send: "prvSendData E d n w = (rc, w') \<Longrightarrow> ok F E w \<Longrightarrow> ok F E w'"
  by (erule pool_ok_cong) (simp_all add: send_fields send_frame(2) send_owned)

lemma ok_ticks: "prvGetCurrentTickCount E w = (t, w') \<Longrightarrow> ok F E w \<Longrightarrow> ok F E w'"
  by (erule pool_ok_cong) (simp_all add: ticks_frame(1,2) ticks_owned)

lemma ok_event: "(\<And>pd. ev \<noteq> eMQTTPublish pd) \<Longrightarrow> ok F E w \<Longrightarrow> ok F E (snd (prvInvokeCallback E ev w))"
  by (erule pool_ok_cong) (simp_all add: invoke_event)

text \<open>A buffer leaves the library for the pool.\<close>

lemma ok_release:
  assumes "ok F E w" and "h \<in> set (lib_bufs (w_ctx w))" and "w_pool w' = ret (w_pool w) h"
    and "distinct (lib_bufs (w_ctx w'))" "set (lib_bufs (w_ctx w')) = set (lib_bufs (w_ctx w)) - {h}"
    and "user_owned (w_trace w') = user_owned (w_trace w)"
    and "pxGetBufferFxn (w_ctx w') = pxGetBufferFxn (w_ctx w)" "pxReturnBufferFxn (w_ctx w') = pxReturnBufferFxn (w_ctx w)"
  shows "ok F E w'"
proof -
  have h: "h \<in> inuse (w_pool w)" and p: "pinv (w_pool w)"
    using assms(1,2) by (auto simp: pool_ok_def)
  let ?L = "set (lib_bufs (w_ctx w))" and ?U = "user_owned (w_trace w)"
  have o: "?L \<inter> ?U = {}" "(?L \<union> ?U) \<inter> F = {}" "0 \<notin> ?L" "0 \<notin> ?U" "inuse (w_pool w) = ?L \<union> ?U \<union> F"
    using assms(1) by (auto simp: pool_ok_def)
  have "inuse (w_pool w') = (?L - {h}) \<union> ?U \<union> F"
    using ret_inuse [OF p h] o assms(2,3) by auto
  moreover have "(?L - {h}) \<inter> ?U = {}" "((?L - {h}) \<union> ?U) \<inter> F = {}" "0 \<notin> ?L - {h}"
    using o by blast+
  moreover have "pinv (w_pool w')" using ret_inv [OF p h] assms(3) by simp
  ultimately show ?thesis
    using assms(1) o(4) unfolding pool_ok_def assms(5,6,7,8) by (simp add: assms(4))
qed

lemma ok_return_tx:
  assumes "ok F E w" and "h \<in> set (xTxBufferList (w_ctx w))"
  shows "ok F E (prvReturnBuffer E h w)"
proof (rule ok_release [OF assms(1), of h])
  have h: "h \<noteq> 0" and d: "distinct (lib_bufs (w_ctx w))" using assms by (auto simp: pool_ok_def lib_bufs_def)
  show "h \<in> set (lib_bufs (w_ctx w))" using assms(2) by (simp add: lib_bufs_def)
  show "w_pool (prvReturnBuffer E h w) = ret (w_pool w) h"
    using assms(1) h by (simp add: pool_ok_def prvReturnBuffer_def Let_def frame_simps)
  have "lib_bufs (w_ctx (prvReturnBuffer E h w)) = remove1 h (lib_bufs (w_ctx w))"
    using h assms(2) by (simp add: return_frame lib_bufs_def rx_list_def remove1_append)
  then show "distinct (lib_bufs (w_ctx (prvReturnBuffer E h w)))"
    "set (lib_bufs (w_ctx (prvReturnBuffer E h w))) = set (lib_bufs (w_ctx w)) - {h}"
    using d by simp_all
qed (simp_all add: return_frame)

lemma ok_return_all:
  "ok F E w \<Longrightarrow> xTxBufferList (w_ctx w) = hs \<Longrightarrow>
     ok F E (fold (prvReturnBuffer E) hs w) \<and> xTxBufferList (w_ctx (fold (prvReturnBuffer E) hs w)) = [] \<and>
     xRxBuffer (w_ctx (fold (prvReturnBuffer E) hs w)) = xRxBuffer (w_ctx w)"
proof (induction hs arbitrary: w)
  case (Cons h hs)
  have "h \<noteq> 0" using Cons.prems by (auto simp: pool_ok_def lib_bufs_def)
  then have "xTxBufferList (w_ctx (prvReturnBuffer E h w)) = hs"
    "xRxBuffer (w_ctx (prvReturnBuffer E h w)) = xRxBuffer (w_ctx w)"
    using Cons.prems(2) by (auto simp: return_frame)
  then show ?case
    using Cons.IH [of "prvReturnBuffer E h w"] ok_return_tx [OF Cons.prems(1), of h] Cons.prems(2) by simp
qed simp

text \<open>Giving back the Rx buffer, right before the receiver is reset.\<close>

lemma ok_reset_rx:
  "ok F E w \<Longrightarrow> xRxBuffer (w_ctx w) = 0 \<Longrightarrow> ok F E (prvResetRxMessageState w)"
  by (erule pool_ok_cong) (simp_all add: prvResetRxMessageState_def frame_simps reset_rx_def)

lemma ok_return_rx:
  assumes "ok F E w"
  shows "ok F E (prvResetRxMessageState (return_rx E w))"
proof (cases "xRxBuffer (w_ctx w) = 0")
  case True
  then show ?thesis using ok_reset_rx [OF assms] by (simp add: return_rx_def prvReturnBuffer_def)
next
  case False
  let ?h = "xRxBuffer (w_ctx w)" and ?w = "prvResetRxMessageState (return_rx E w)"
  show ?thesis
  proof (rule ok_release [OF assms, of ?h])
    have d: "distinct (xTxBufferList (w_ctx w))" and n: "?h \<notin> set (xTxBufferList (w_ctx w))"
      using assms False by (auto simp: pool_ok_def lib_bufs_def rx_list_def)
    show "?h \<in> set (lib_bufs (w_ctx w))" using False by (simp add: lib_bufs_def rx_list_def)
    show "w_pool ?w = ret (w_pool w) ?h"
      using assms False
      by (simp add: pool_ok_def return_rx_def prvReturnBuffer_def Let_def frame_simps prvResetRxMessageState_def)
    have "lib_bufs (w_ctx ?w) = xTxBufferList (w_ctx w)"
      using False n by (simp add: prvResetRxMessageState_def frame_simps return_rx_def return_frame remove1_idem)
    then show "distinct (lib_bufs (w_ctx ?w))" "set (lib_bufs (w_ctx ?w)) = set (lib_bufs (w_ctx w)) - {?h}"
      using d n False by (simp_all add: lib_bufs_def rx_list_def)
  qed (simp_all add: return_rx_def return_frame prvResetRxMessageState_def frame_simps reset_rx_def)
qed

lemma ok_reset:
  assumes "ok F E w"
  shows "ok F E (prvResetMQTTContext E w)" and "xTxBufferList (w_ctx (prvResetMQTTContext E w)) = []"
    and "xRxBuffer (w_ctx (prvResetMQTTContext E w)) = 0"
proof -
  let ?w0 = "upd_ctx (\<lambda>c. c\<lparr>xConnectionState := eMQTTNotConnected\<rparr>) w"
  have "ok F E ?w0" by (rule pool_ok_cong [OF assms]) (simp_all add: frame_simps)
  then have a: "ok F E (fold (prvReturnBuffer E) (xTxBufferList (w_ctx ?w0)) ?w0)"
      "xTxBufferList (w_ctx (fold (prvReturnBuffer E) (xTxBufferList (w_ctx ?w0)) ?w0)) = []"
    using ok_return_all [of F E ?w0] by blast+
  let ?w1 = "fold (prvReturnBuffer E) (xTxBufferList (w_ctx ?w0)) ?w0"
  let ?w2 = "prvResetRxMessageState (return_rx E ?w1)"
  have e: "prvResetMQTTContext E w =
      upd_ctx (\<lambda>c. c\<lparr>xSubscriptionManager := free_all_subscriptions (xSubscriptionManager c)\<rparr>) ?w2"
    by (simp add: prvResetMQTTContext_def return_rx_def Let_def)
  have "ok F E ?w2" using ok_return_rx [OF a(1)] .
  then show "ok F E (prvResetMQTTContext E w)"
    unfolding e by (rule pool_ok_cong) (simp_all add: frame_simps)
  show "xTxBufferList (w_ctx (prvResetMQTTContext E w)) = []" "xRxBuffer (w_ctx (prvResetMQTTContext E w)) = 0"
    unfolding e using a(2)
    by (simp_all add: frame_simps prvResetRxMessageState_def reset_rx_def return_rx_def return_frame)
qed

lemma ok_disconnect_with:
  assumes "ok F E w"
  shows "ok F E (disconnect_with E r w)" and "xTxBufferList (w_ctx (disconnect_with E r w)) = []"
    and "xRxBuffer (w_ctx (disconnect_with E r w)) = 0"
  using ok_reset [OF assms] by (simp_all add: disconnect_with_def ok_event frame_simps)

text \<open>A buffer comes from the pool.\<close>

lemma get_buffer:
  assumes "ok F E w" and "prvGetFreeBuffer E n w = (h, w')"
  shows "w_ctx w' = w_ctx w" "w_trace w' = w_trace w" "w_fault w' = w_fault w" "pinv (w_pool w')"
    "h = 0 \<Longrightarrow> w_bufs w' = w_bufs w \<and> inuse (w_pool w') = inuse (w_pool w)"
    "h \<noteq> 0 \<Longrightarrow> h \<notin> inuse (w_pool w) \<and> inuse (w_pool w') = insert h (inuse (w_pool w))"
    "h \<noteq> 0 \<Longrightarrow> \<exists>m. n + sizeof_MQTTBufferMetadata \<le> m \<and> w_bufs w' = (w_bufs w)(h := mqttbufferINIT_BUFFER m (w_bufs w h))"
proof -
  have p: "pinv (w_pool w)" and g: "e_get E (pxGetBufferFxn (w_ctx w)) = get"
    using assms(1) by (auto simp: pool_ok_def)
  obtain r p' where r: "get (w_pool w) (n + sizeof_MQTTBufferMetadata) = (r, p')" by fastforce
  show "w_ctx w' = w_ctx w" "w_trace w' = w_trace w" "w_fault w' = w_fault w" "pinv (w_pool w')"
    "h = 0 \<Longrightarrow> w_bufs w' = w_bufs w \<and> inuse (w_pool w') = inuse (w_pool w)"
    "h \<noteq> 0 \<Longrightarrow> h \<notin> inuse (w_pool w) \<and> inuse (w_pool w') = insert h (inuse (w_pool w))"
    "h \<noteq> 0 \<Longrightarrow> \<exists>m. n + sizeof_MQTTBufferMetadata \<le> m \<and> w_bufs w' = (w_bufs w)(h := mqttbufferINIT_BUFFER m (w_bufs w h))"
    using assms(2) p r get_some [OF p] get_none [OF p]
    by (cases r, force simp: prvGetFreeBuffer_def g frame_simps, force simp: prvGetFreeBuffer_def g frame_simps)+
qed

lemma ok_acquire:
  assumes "ok F E w" and "prvGetFreeBuffer E n w = (h, w1)" and "h \<noteq> 0" and "w_pool w' = w_pool w1"
    and "distinct (lib_bufs (w_ctx w'))" "set (lib_bufs (w_ctx w')) = insert h (set (lib_bufs (w_ctx w)))"
    and "user_owned (w_trace w') = user_owned (w_trace w)"
    and "pxGetBufferFxn (w_ctx w') = pxGetBufferFxn (w_ctx w)" "pxReturnBufferFxn (w_ctx w') = pxReturnBufferFxn (w_ctx w)"
  shows "ok F E w'"
proof -
  let ?L = "set (lib_bufs (w_ctx w))" and ?U = "user_owned (w_trace w)"
  have o: "?L \<inter> ?U = {}" "(?L \<union> ?U) \<inter> F = {}" "0 \<notin> ?L" "0 \<notin> ?U" "inuse (w_pool w) = ?L \<union> ?U \<union> F"
    using assms(1) by (auto simp: pool_ok_def)
  have g: "h \<notin> inuse (w_pool w)" "inuse (w_pool w1) = insert h (inuse (w_pool w))" "pinv (w_pool w1)"
    using get_buffer [OF assms(1,2)] assms(3) by auto
  then have "inuse (w_pool w') = insert h ?L \<union> ?U \<union> F" using o assms(4) by auto
  moreover have "insert h ?L \<inter> ?U = {}" "(insert h ?L \<union> ?U) \<inter> F = {}" "0 \<notin> insert h ?L"
    using o g(1) assms(3) by auto
  ultimately show ?thesis
    using assms(1) o(4) g(3) unfolding pool_ok_def assms(4,6,7,8,9) by (simp add: assms(5))
qed

lemma fresh_not_lib:
  "ok F E w \<Longrightarrow> prvGetFreeBuffer E n w = (h, w1) \<Longrightarrow> h \<noteq> 0 \<Longrightarrow> h \<notin> set (lib_bufs (w_ctx w))"
  using get_buffer(6) [of F E w n h w1] by (auto simp: pool_ok_def)

lemma ok_get_none:
  assumes "ok F E w" and "prvGetFreeBuffer E n w = (0, w')"
  shows "ok F E w'"
  using assms get_buffer(1,2,4,5) [OF assms] by (simp add: pool_ok_def)

end

lemma begin_tx_frame:
  "w_pool (begin_tx E h to w) = w_pool w" "w_fault (begin_tx E h to w) = w_fault w"
  "w_ctx (begin_tx E h to w) = (w_ctx w)\<lparr>xTxBufferList := h # xTxBufferList (w_ctx w)\<rparr>"
  "user_owned (w_trace (begin_tx E h to w)) = user_owned (w_trace w)"
  "h' \<noteq> h \<Longrightarrow> w_bufs (begin_tx E h to w) h' = w_bufs w h'"
  "mb_data (w_bufs (begin_tx E h to w) h) = replicate (unat (mqttbufferGET_EFFECTIVE_BUFFER_LENGTH (w_bufs w h))) 0"
  "mb_ulBufferLength (w_bufs (begin_tx E h to w) h) = mb_ulBufferLength (w_bufs w h)"
  by (auto simp: begin_tx_def Let_def frame_simps memset_data_def split: prod.splits dest: ticks_frame ticks_owned)

context buffer_pool
begin

lemma ok_make_packet:
  assumes "ok F E w" and "make_packet E rl to i build w = (rc, h, w')"
  shows "ok F E w'"
    and "rc = eMQTTSuccess \<and> h \<noteq> 0 \<and> w_ctx w' = (w_ctx w)\<lparr>xTxBufferList := h # xTxBufferList (w_ctx w)\<rparr> \<or>
      (rc = eMQTTNoFreeBuffer \<or> rc = eMQTTFailure) \<and> h = 0 \<and> w_ctx w' = w_ctx w"
proof -
  obtain h1 w1 where g: "prvGetFreeBuffer E (mqttTOTAL_MESSAGE_LENGTH (prvSizeOfRemainingLength rl) rl) w = (h1, w1)"
    by fastforce
  have c: "w_ctx w1 = w_ctx w" "w_trace w1 = w_trace w" using get_buffer(1,2) [OF assms(1) g] by auto
  consider (fail) "rc = eMQTTFailure" "h = 0" "w' = w"
    | (none) "h1 = 0" "rc = eMQTTNoFreeBuffer" "h = 0" "w' = w1"
    | (some) "h1 \<noteq> 0" "rc = eMQTTSuccess" "h = h1" "w' = finish_tx h i (mqttTOTAL_MESSAGE_LENGTH (prvSizeOfRemainingLength rl) rl)
          (with_data h (build (last_byte h (begin_tx E h to w1))) (begin_tx E h to w1))"
    using assms(2) g by (auto simp: make_packet_def Let_def split: if_splits)
  then have "ok F E w' \<and> (rc = eMQTTSuccess \<and> h \<noteq> 0 \<and> w_ctx w' = (w_ctx w)\<lparr>xTxBufferList := h # xTxBufferList (w_ctx w)\<rparr> \<or>
      (rc = eMQTTNoFreeBuffer \<or> rc = eMQTTFailure) \<and> h = 0 \<and> w_ctx w' = w_ctx w)"
  proof cases
    case fail
    then show ?thesis using assms(1) by simp
  next
    case none
    then show ?thesis using ok_get_none [OF assms(1)] g c by auto
  next
    case some
    have x: "w_ctx w' = (w_ctx w)\<lparr>xTxBufferList := h # xTxBufferList (w_ctx w)\<rparr>"
      using some c by (simp add: frame_simps begin_tx_frame)
    then have l: "lib_bufs (w_ctx w') = h # lib_bufs (w_ctx w)" by (simp add: lib_bufs_def rx_list_def)
    have "ok F E w'"
    proof (rule ok_acquire [OF assms(1) g some(1)])
      show "w_pool w' = w_pool w1" using some by (simp add: frame_simps begin_tx_frame)
      show "distinct (lib_bufs (w_ctx w'))"
        using l fresh_not_lib [OF assms(1) g some(1)] some(3) assms(1) by (simp add: pool_ok_def)
      show "set (lib_bufs (w_ctx w')) = insert h1 (set (lib_bufs (w_ctx w)))" using l some(3) by simp
      show "user_owned (w_trace w') = user_owned (w_trace w)" using some c by (simp add: frame_simps begin_tx_frame)
    qed (simp_all add: x)
    then show ?thesis using x some by simp
  qed
  then show "ok F E w'" "rc = eMQTTSuccess \<and> h \<noteq> 0 \<and> w_ctx w' = (w_ctx w)\<lparr>xTxBufferList := h # xTxBufferList (w_ctx w)\<rparr> \<or>
      (rc = eMQTTNoFreeBuffer \<or> rc = eMQTTFailure) \<and> h = 0 \<and> w_ctx w' = w_ctx w" by blast+
qed

text \<open>
  The end of the operations that send: the packet is transmitted and its buffer given back
  unless it has to wait for an acknowledgment.
\<close>

lemma ok_transmit:
  assumes "ok F E w" and "transmit E rc h w = (rc', w')"
  shows "ok F E w'" "xTxBufferList (w_ctx w') = xTxBufferList (w_ctx w)" "w_bufs w' = w_bufs w"
    "xConnectionState (w_ctx w') = xConnectionState (w_ctx w)" "rc' = eMQTTSuccess \<Longrightarrow> rc = eMQTTSuccess"
  using assms
  by (auto simp: transmit_def send_fields send_frame(3) ok_send split: if_splits)

lemma ok_return_packet:
  assumes "ok F E w" and "h = 0 \<or> h \<in> set (xTxBufferList (w_ctx w))"
  shows "ok F E (prvReturnBuffer E h w)"
proof (cases "h = 0")
  case True
  then show ?thesis using assms(1) by (simp add: prvReturnBuffer_def)
qed (use assms ok_return_tx in blast)

lemma ok_upd_ctx:
  assumes "ok F E w" and "xTxBufferList (f (w_ctx w)) = xTxBufferList (w_ctx w)" "xRxBuffer (f (w_ctx w)) = xRxBuffer (w_ctx w)"
    and "pxGetBufferFxn (f (w_ctx w)) = pxGetBufferFxn (w_ctx w)" "pxReturnBufferFxn (f (w_ctx w)) = pxReturnBufferFxn (w_ctx w)"
  shows "ok F E (upd_ctx f w)"
  by (rule pool_ok_cong [OF assms(1)]) (simp_all add: frame_simps assms)

lemma ok_send_packet:
  assumes "ok F E w" and "make_packet E rl to i build w = (rc, h, w1)" and "transmit E rc h w1 = (rc', w2)"
  shows "ok F E w2" "ok F E (prvReturnBuffer E h w2)"
proof -
  have p: "ok F E w1" and c: "h = 0 \<or> h \<in> set (xTxBufferList (w_ctx w1))"
    using ok_make_packet [OF assms(1,2)] by auto
  show "ok F E w2" "ok F E (prvReturnBuffer E h w2)"
    using ok_transmit(1,2) [OF p assms(3)] c by (auto intro: ok_return_packet)
qed

lemma ok_Connect:
  assumes "ok F E w"
  shows "ok F E (snd (MQTT_Connect E cp w))"
proof (cases "xConnectionState (w_ctx w) = eMQTTNotConnected")
  case True
  let ?w = "upd_ctx (\<lambda>c. c\<lparr>ulKeepAliveActualIntervalTicks := cp_ulKeepAliveActualIntervalTicks cp,
      ulPingRequestTimeoutTicks := cp_ulPingRequestTimeoutTicks cp\<rparr>) w"
  have w: "ok F E ?w" by (rule ok_upd_ctx [OF assms]) simp_all
  obtain rc h w1 where m: "connect_packet E cp w = (rc, h, w1)" by (metis prod_cases3)
  obtain rc' w2 where t: "transmit E rc h w1 = (rc', w2)" by fastforce
  have "ok F E w2" "ok F E (prvReturnBuffer E h w2)"
    using ok_send_packet [OF w _ t] m True by (auto simp: connect_packet_def)
  then show ?thesis by (auto simp: MQTT_Connect_def m t intro: ok_upd_ctx)
next
  case False
  then show ?thesis using assms by (auto simp: MQTT_Connect_def connect_packet_def transmit_def prvReturnBuffer_def)
qed

lemma ok_Unsubscribe:
  assumes "ok F E w"
  shows "ok F E (snd (MQTT_Unsubscribe E up w))"
proof (cases "xConnectionState (w_ctx w) = eMQTTConnected")
  case True
  obtain rc h w1 where m: "unsubscribe_packet E up w = (rc, h, w1)" by (metis prod_cases3)
  obtain rc' w2 where t: "transmit E rc h w1 = (rc', w2)" by fastforce
  show ?thesis
    using ok_send_packet [OF assms _ t] m True by (auto simp: MQTT_Unsubscribe_def m t unsubscribe_packet_def)
next
  case False
  then show ?thesis
    using assms by (auto simp: MQTT_Unsubscribe_def unsubscribe_packet_def transmit_def prvReturnBuffer_def)
qed

lemma ok_Publish:
  assumes "ok F E w"
  shows "ok F E (snd (MQTT_Publish E pp w))"
proof (cases "xConnectionState (w_ctx w) = eMQTTConnected")
  case True
  obtain rc h w1 where m: "publish_packet E pp w = (rc, h, w1)" by (metis prod_cases3)
  obtain rc' w2 where t: "transmit E rc h w1 = (rc', w2)" by fastforce
  show ?thesis
    using ok_send_packet [OF assms _ t] m True by (auto simp: MQTT_Publish_def m t publish_packet_def)
next
  case False
  then show ?thesis
    using assms by (auto simp: MQTT_Publish_def publish_packet_def transmit_def prvReturnBuffer_def)
qed

lemma ok_Subscribe:
  assumes "ok F E w"
  shows "ok F E (snd (MQTT_Subscribe E sp w))"
proof -
  obtain rc h w1 where m: "subscribe_packet E sp w = (rc, h, w1)" by (metis prod_cases3)
  obtain rc' w2 where t: "transmit E rc h w1 = (rc', w2)" by fastforce
  have "ok F E w2 \<and> ok F E (prvReturnBuffer E h w2)"
  proof (cases "xConnectionState (w_ctx w) = eMQTTConnected")
    case True
    obtain st mg where s: "prvStoreSubscription (xSubscriptionManager (w_ctx w)) (sp_pucTopic sp) (sp_usTopicLength sp)
                (sp_pvPublishCallbackContext sp) (sp_pxPublishCallback sp) = (st, mg)" by fastforce
    let ?w = "upd_ctx (\<lambda>c. c\<lparr>xSubscriptionManager := mg\<rparr>) w"
    have w: "ok F E ?w" by (rule ok_upd_ctx [OF assms]) simp_all
    show ?thesis
    proof (cases st)
      case True
      then have "make_packet E (subscribe_remaining_length sp) (sp_ulTimeoutTicks sp) (sp_usPacketIdentifier sp)
                     (build_subscribe sp) ?w = (rc, h, w1)"
        using m s \<open>xConnectionState (w_ctx w) = eMQTTConnected\<close> by (simp add: subscribe_packet_def)
      then show ?thesis using ok_send_packet [OF w _ t] by blast
    next
      case False
      then show ?thesis
        using m s t w True by (auto simp: subscribe_packet_def transmit_def prvReturnBuffer_def)
    qed
  next
    case False
    then show ?thesis using assms m t by (auto simp: subscribe_packet_def transmit_def prvReturnBuffer_def)
  qed
  then show ?thesis by (auto simp: MQTT_Subscribe_def m t Let_def intro: ok_upd_ctx)
qed

lemma ok_Disconnect:
  assumes "ok F E w"
  shows "ok F E (snd (MQTT_Disconnect E w))"
proof -
  obtain rc w1 where s: "prvSendData E ucDisconnectPacket 2 w = (rc, w1)" by fastforce
  have "ok F E (snd (prvInvokeCallback E (eMQTTClientDisconnected eMQTTDisconnectReasonUserRequest) w1))"
    using ok_send [OF s assms] by (rule ok_event [rotated]) simp
  then show ?thesis using assms by (auto simp: MQTT_Disconnect_def s ok_reset)
qed

text \<open>A buffer that the user gives back was the user's.\<close>

lemma ok_ReturnBuffer:
  assumes "ok F E w" and "h \<in> user_owned (w_trace w)"
  shows "ok F E (snd (MQTT_ReturnBuffer E h w))"
proof -
  let ?w = "prvReturnBuffer E h (observe (OReturn h) w)"
  let ?L = "set (lib_bufs (w_ctx w))" and ?U = "user_owned (w_trace w)"
  have o: "?L \<inter> ?U = {}" "(?L \<union> ?U) \<inter> F = {}" "0 \<notin> ?L" "0 \<notin> ?U" "inuse (w_pool w) = ?L \<union> ?U \<union> F"
    and p: "pinv (w_pool w)" and b: "e_ret E (pxReturnBufferFxn (w_ctx w)) = ret" and d: "distinct (lib_bufs (w_ctx w))"
    using assms(1) by (auto simp: pool_ok_def)
  have h: "h \<noteq> 0" "h \<in> inuse (w_pool w)" "h \<notin> ?L" using assms(2) o by auto
  then have r: "remove1 h (xTxBufferList (w_ctx w)) = xTxBufferList (w_ctx w)"
    by (simp add: remove1_idem lib_bufs_def)
  have c: "w_ctx ?w = w_ctx w" using h(1) r by (simp add: return_frame frame_simps)
  have t: "w_trace ?w = OReturn h # w_trace w" by (simp add: return_frame frame_simps)
  have q: "w_pool ?w = ret (w_pool w) h" using h(1) b by (simp add: prvReturnBuffer_def Let_def frame_simps)
  have "inuse (w_pool ?w) = ?L \<union> (?U - {h}) \<union> F" using ret_inuse [OF p h(2)] o h(3) assms(2) q by auto
  moreover have "?L \<inter> (?U - {h}) = {}" "(?L \<union> (?U - {h})) \<inter> F = {}" "0 \<notin> ?U - {h}" using o by auto
  moreover have "pinv (w_pool ?w)" using ret_inv [OF p h(2)] q by simp
  ultimately have "ok F E ?w"
    using assms(1) o(3) d unfolding pool_ok_def c t by simp
  then show ?thesis by (simp add: MQTT_ReturnBuffer_def)
qed

end

section \<open>Receiving\<close>

lemma first_buffer_found: "first_buffer P hs = h \<Longrightarrow> h \<noteq> 0 \<Longrightarrow> h \<in> set hs \<and> P h"
  by (induction hs) (auto split: if_splits)

lemmas tx_search_defs = prvPacketTypeFlagsGetTxBuffer_def prvPacketTypeFlagsIdentifierGetTxBuffer_def
  prvPacketTypeIdentifierGetTxBuffer_def

lemma tx_search_in:
  "prvPacketTypeFlagsGetTxBuffer w ty fl \<noteq> 0 \<Longrightarrow> prvPacketTypeFlagsGetTxBuffer w ty fl \<in> set (xTxBufferList (w_ctx w))"
  "prvPacketTypeFlagsIdentifierGetTxBuffer w ty fl i \<noteq> 0 \<Longrightarrow>
     prvPacketTypeFlagsIdentifierGetTxBuffer w ty fl i \<in> set (xTxBufferList (w_ctx w))"
  "prvPacketTypeIdentifierGetTxBuffer w ty i \<noteq> 0 \<Longrightarrow> prvPacketTypeIdentifierGetTxBuffer w ty i \<in> set (xTxBufferList (w_ctx w))"
  unfolding tx_search_defs using first_buffer_found by blast+

lemma tx_search_chk [frame_simps]:
  "prvPacketTypeFlagsGetTxBuffer (chk b w) ty fl = prvPacketTypeFlagsGetTxBuffer w ty fl"
  "prvPacketTypeFlagsIdentifierGetTxBuffer (chk b w) ty fl i = prvPacketTypeFlagsIdentifierGetTxBuffer w ty fl i"
  "prvPacketTypeIdentifierGetTxBuffer (chk b w) ty i = prvPacketTypeIdentifierGetTxBuffer w ty i"
  by (simp_all add: tx_search_defs frame_simps)

lemma remove_for_buffer_frame [frame_simps]:
  "w_pool (prvRemoveSubscriptionForSubscribeOrUnsubscribeBuffer h w) = w_pool w"
  "w_bufs (prvRemoveSubscriptionForSubscribeOrUnsubscribeBuffer h w) = w_bufs w"
  "w_trace (prvRemoveSubscriptionForSubscribeOrUnsubscribeBuffer h w) = w_trace w"
  "w_ctx (prvRemoveSubscriptionForSubscribeOrUnsubscribeBuffer h w) =
     (w_ctx w)\<lparr>xSubscriptionManager := xSubscriptionManager (w_ctx (prvRemoveSubscriptionForSubscribeOrUnsubscribeBuffer h w))\<rparr>"
  by (simp_all add: prvRemoveSubscriptionForSubscribeOrUnsubscribeBuffer_def Let_def frame_simps)

lemma remove_for_buffer_fields [frame_simps]:
  "xTxBufferList (w_ctx (prvRemoveSubscriptionForSubscribeOrUnsubscribeBuffer h w)) = xTxBufferList (w_ctx w)"
  "xRxBuffer (w_ctx (prvRemoveSubscriptionForSubscribeOrUnsubscribeBuffer h w)) = xRxBuffer (w_ctx w)"
  "pxGetBufferFxn (w_ctx (prvRemoveSubscriptionForSubscribeOrUnsubscribeBuffer h w)) = pxGetBufferFxn (w_ctx w)"
  "pxReturnBufferFxn (w_ctx (prvRemoveSubscriptionForSubscribeOrUnsubscribeBuffer h w)) = pxReturnBufferFxn (w_ctx w)"
  "xRxMessageState (w_ctx (prvRemoveSubscriptionForSubscribeOrUnsubscribeBuffer h w)) = xRxMessageState (w_ctx w)"
  "ucRxFixedHeaderBuffer (w_ctx (prvRemoveSubscriptionForSubscribeOrUnsubscribeBuffer h w)) = ucRxFixedHeaderBuffer (w_ctx w)"
  "xConnectionState (w_ctx (prvRemoveSubscriptionForSubscribeOrUnsubscribeBuffer h w)) = xConnectionState (w_ctx w)"
  by (simp_all add: prvRemoveSubscriptionForSubscribeOrUnsubscribeBuffer_def Let_def frame_simps)

declare remove_for_buffer_frame(4) [frame_simps del]

context buffer_pool
begin

lemma ok_chk: "ok F E w \<Longrightarrow> ok F E (chk b w)"
  by (erule pool_ok_cong) (simp_all add: frame_simps)

lemma ok_remove_for_buffer: "ok F E w \<Longrightarrow> ok F E (prvRemoveSubscriptionForSubscribeOrUnsubscribeBuffer h w)"
  by (erule pool_ok_cong) (simp_all add: frame_simps)

lemma ok_disconnect_reset: "ok F E w \<Longrightarrow> ok F E (prvResetRxMessageState (disconnect_with E r w))"
  by (simp add: ok_reset_rx ok_disconnect_with)

lemma ok_finish_ack: "ok F E w \<Longrightarrow> ok F E (prvResetRxMessageState (finish_ack E (m, w)))"
  by (simp add: finish_ack_def ok_return_rx ok_disconnect_with)

lemma ok_event_return:
  assumes "ok F E w" and "\<And>pd. ev \<noteq> eMQTTPublish pd" and "h \<in> set (xTxBufferList (w_ctx w))"
  shows "ok F E (prvReturnBuffer E h (snd (prvInvokeCallback E ev w)))"
  by (rule ok_return_tx [OF ok_event [OF assms(2,1)]]) (simp add: frame_simps assms(3))

lemma ok_PUBACK:
  assumes "ok F E w"
  shows "ok F E (prvResetRxMessageState (prvProcessReceivedPUBACK E w))"
  unfolding prvProcessReceivedPUBACK_def Let_def
  using assms by (auto simp: frame_simps intro!: ok_finish_ack ok_event ok_chk ok_event_return tx_search_in)

lemma ok_UNSUBACK:
  assumes "ok F E w"
  shows "ok F E (prvResetRxMessageState (prvProcessReceivedUNSUBACK E w))"
  unfolding prvProcessReceivedUNSUBACK_def Let_def
  using assms by (auto simp: frame_simps intro!: ok_finish_ack ok_event ok_chk ok_return_tx ok_remove_for_buffer tx_search_in)

lemma ok_SUBACK:
  assumes "ok F E w"
  shows "ok F E (prvResetRxMessageState (prvProcessReceivedSUBACK E w))"
  unfolding prvProcessReceivedSUBACK_def Let_def
  using assms by (auto simp: frame_simps intro!: ok_finish_ack ok_event ok_chk ok_return_tx ok_remove_for_buffer tx_search_in)

lemma ok_connack_examine:
  assumes "ok F E w" and "connack_examine E h w = (oc, w')"
  shows "ok F E w'" "w_ctx w' = w_ctx w"
proof -
  have "ok F E (snd (connack_examine E h w)) \<and> w_ctx (snd (connack_examine E h w)) = w_ctx w"
    unfolding connack_examine_def Let_def
    using assms(1) by (auto simp: frame_simps intro!: ok_chk ok_event)
  then show "ok F E w'" "w_ctx w' = w_ctx w" using assms(2) by auto
qed

lemma ok_CONNACK:
  assumes "ok F E w"
  shows "ok F E (prvResetRxMessageState (prvProcessReceivedCONNACK E w))"
proof -
  let ?h = "prvPacketTypeFlagsGetTxBuffer w mqttCONTROL_CONNECT mqttFLAGS_CONNECT"
  obtain oc w1 where r: "(if ?h = 0 then (ConnNone, snd (prvInvokeCallback E eMQTTUnexpectedConnACK w))
     else (case connack_examine E ?h w of (oc, w) \<Rightarrow> (oc, prvReturnBuffer E ?h w))) = (oc, w1)"
    by fastforce
  have "ok F E w1"
  proof (cases "?h = 0")
    case True
    then show ?thesis using r assms by (auto intro: ok_event)
  next
    case False
    obtain oc' w2 where e: "connack_examine E ?h w = (oc', w2)" by fastforce
    have "ok F E (prvReturnBuffer E ?h w2)"
      using ok_connack_examine [OF assms e] tx_search_in(1) [OF False] by (auto intro: ok_return_tx)
    then show ?thesis using r e False by simp
  qed
  moreover have "ok F E (case prvGetCurrentTickCount E (upd_ctx (\<lambda>c. c\<lparr>xConnectionState := eMQTTConnected\<rparr>) w1) of (t, w) \<Rightarrow>
       upd_ctx (\<lambda>c. c\<lparr>xLastSentMessageTimestamp := t, ulNextPeriodicInvokeTicks := ulKeepAliveActualIntervalTicks c,
         xWaitingForPingResp := False\<rparr>) w)" if "ok F E w1"
  proof (cases "prvGetCurrentTickCount E (upd_ctx (\<lambda>c. c\<lparr>xConnectionState := eMQTTConnected\<rparr>) w1)")
    case (Pair t w2)
    have "ok F E w2" by (rule ok_ticks [OF Pair]) (rule ok_upd_ctx [OF that]; simp)
    then show ?thesis using Pair by (auto intro: ok_upd_ctx)
  qed
  ultimately show ?thesis
    unfolding prvProcessReceivedCONNACK_def Let_def r
    by (cases oc) (auto intro!: ok_return_rx ok_disconnect_with)
qed

lemma ok_PINGRESP:
  assumes "ok F E w" and "xRxBuffer (w_ctx w) = 0"
  shows "ok F E (prvProcessReceivedPINGRESP E w)" "xRxBuffer (w_ctx (prvProcessReceivedPINGRESP E w)) = 0"
proof -
  obtain t w2 where t: "prvGetCurrentTickCount E (upd_ctx (\<lambda>c. c\<lparr>xWaitingForPingResp := False\<rparr>) w) = (t, w2)"
    by fastforce
  have "ok F E w2" by (rule ok_ticks [OF t]) (rule ok_upd_ctx [OF assms(1)]; simp)
  moreover have "xRxBuffer (w_ctx w2) = 0" using ticks_frame(1) [OF t] assms(2) by (simp add: frame_simps)
  ultimately show "ok F E (prvProcessReceivedPINGRESP E w)" "xRxBuffer (w_ctx (prvProcessReceivedPINGRESP E w)) = 0"
    using assms ok_disconnect_with [OF assms(1)]
    unfolding prvProcessReceivedPINGRESP_def Let_def t by (auto simp: frame_simps intro: ok_upd_ctx)
qed

lemma ok_take_rx:
  assumes "ok F E w" and "xRxBuffer (w_ctx w) \<noteq> 0" and "w_ctx w' = w_ctx w" "w_pool w' = w_pool w"
    and "user_owned (w_trace w') = insert (xRxBuffer (w_ctx w)) (user_owned (w_trace w))"
  shows "ok F E (prvResetRxMessageState w')"
proof -
  let ?h = "xRxBuffer (w_ctx w)"
  have l: "set (lib_bufs (w_ctx w)) = insert ?h (set (xTxBufferList (w_ctx w)))" "distinct (lib_bufs (w_ctx w))"
    "?h \<notin> set (xTxBufferList (w_ctx w))"
    using assms(1,2) by (auto simp: pool_ok_def lib_bufs_def rx_list_def)
  have c: "w_ctx (prvResetRxMessageState w') = reset_rx (w_ctx w)" "w_pool (prvResetRxMessageState w') = w_pool w"
    "w_trace (prvResetRxMessageState w') = w_trace w'"
    using assms(3,4) by (simp_all add: prvResetRxMessageState_def frame_simps)
  have f: "pxGetBufferFxn (reset_rx c) = pxGetBufferFxn c" "pxReturnBufferFxn (reset_rx c) = pxReturnBufferFxn c" for c
    by (simp_all add: reset_rx_def)
  show ?thesis
    using assms(1,2) l unfolding pool_ok_def c assms(5) f lib_bufs_reset_rx by (auto simp: lib_bufs_def)
qed

lemma ok_Publish_received:
  assumes "ok F E w" and "xRxBuffer (w_ctx w) \<noteq> 0"
  shows "ok F E (prvResetRxMessageState (prvProcessReceivedPublish E w))"
proof -
  have deliver: "ok F E (prvResetRxMessageState (case prvInvokeCallback E (eMQTTPublish pd) w1 of (taken, w) \<Rightarrow>
      if \<not> taken then return_rx E w else w))"
    if o: "ok F E w1" and r: "xRxBuffer (w_ctx w1) \<noteq> 0" "pd_xBuffer pd = xRxBuffer (w_ctx w1)" for w1 pd
  proof (cases "prvInvokeCallback E (eMQTTPublish pd) w1")
    case (Pair taken w2)
    note i = invoke_publish [OF Pair]
    show ?thesis
    proof (cases taken)
      case True
      have "ok F E (prvResetRxMessageState w2)"
        using ok_take_rx [OF o r(1) i(1,2)] i(5) r(2) True by simp
      then show ?thesis using Pair True by simp
    next
      case False
      have "ok F E w2" using i False by (intro pool_ok_cong [OF o]) simp_all
      then show ?thesis using Pair False by (simp add: ok_return_rx)
    qed
  qed
  have puback: "ok F E (send_puback E pd w1)" "xRxBuffer (w_ctx (send_puback E pd w1)) = xRxBuffer (w_ctx w1)"
    if "ok F E w1" for w1 pd
  proof -
    obtain rc d n b where s: "prvSendData E d n (chk b w1) = (rc, send_puback E pd w1)"
      unfolding send_puback_def Let_def by (metis prod.collapse)
    show "ok F E (send_puback E pd w1)" "xRxBuffer (w_ctx (send_puback E pd w1)) = xRxBuffer (w_ctx w1)"
      using ok_send [OF s ok_chk [OF that]] send_fields(2) [OF s] by (simp_all add: frame_simps)
  qed
  show ?thesis
    unfolding prvProcessReceivedPublish_def Let_def
    using assms puback [OF ok_chk [OF assms(1)]]
    by (auto simp: frame_simps publish_data_def Let_def intro!: deliver ok_chk ok_disconnect_reset)
qed

lemma ok_MQTTPacket:
  assumes "ok F E w" and "xRxBuffer (w_ctx w) \<noteq> 0"
  shows "ok F E (prvResetRxMessageState (prvProcessReceivedMQTTPacket E w))"
  unfolding prvProcessReceivedMQTTPacket_def Let_def
  using ok_Publish_received [OF assms] ok_CONNACK [OF assms(1)] ok_PUBACK [OF assms(1)] ok_SUBACK [OF assms(1)]
    ok_UNSUBACK [OF assms(1)] ok_disconnect_reset [OF assms(1)]
  by simp

end

text \<open>
  The receiver holds a buffer exactly while it stores a message. This much of its state is
  needed for the buffers to be accounted for.
\<close>

definition rx_hold :: "MQTTContext_t \<Rightarrow> bool" where
  "rx_hold c \<longleftrightarrow> (xRxBuffer c \<noteq> 0 \<longleftrightarrow>
     xRxNextByte (xRxMessageState c) = eMQTTRxNextByteMessage \<and> xRxMessageAction (xRxMessageState c) = eMQTTRxMessageStore)"

lemma rx_hold_reset [simp]: "rx_hold (w_ctx (prvResetRxMessageState w))"
  by (simp add: rx_hold_def prvResetRxMessageState_def frame_simps reset_rx_def)

lemma rx_hold_cong:
  "xRxBuffer c' = xRxBuffer c \<Longrightarrow> xRxMessageState c' = xRxMessageState c \<Longrightarrow> rx_hold c' = rx_hold c"
  by (simp add: rx_hold_def)

lemma rx_hold_received [simp]: "rx_hold (c\<lparr>ulRxMessageReceivedLength := n\<rparr>) = rx_hold c"
  by (simp add: rx_hold_def)

lemma reset_rx_fields:
  "xRxBuffer (w_ctx (prvResetMQTTContext E w)) = 0"
  "xRxNextByte (xRxMessageState (w_ctx (prvResetMQTTContext E w))) = eMQTTRxNextBytePacketType"
  "xConnectionState (w_ctx (prvResetMQTTContext E w)) = eMQTTNotConnected"
proof -
  have "xConnectionState (w_ctx (fold (prvReturnBuffer E) hs w)) = xConnectionState (w_ctx w)" for hs and w :: "'a world"
    by (induction hs arbitrary: w) (simp_all add: return_frame)
  then show "xRxBuffer (w_ctx (prvResetMQTTContext E w)) = 0"
    "xRxNextByte (xRxMessageState (w_ctx (prvResetMQTTContext E w))) = eMQTTRxNextBytePacketType"
    "xConnectionState (w_ctx (prvResetMQTTContext E w)) = eMQTTNotConnected"
    by (simp_all add: prvResetMQTTContext_def Let_def frame_simps prvResetRxMessageState_def reset_rx_def return_frame)
qed

lemma disconnect_fields:
  "xRxBuffer (w_ctx (disconnect_with E r w)) = 0"
  "xRxNextByte (xRxMessageState (w_ctx (disconnect_with E r w))) = eMQTTRxNextBytePacketType"
  "xConnectionState (w_ctx (disconnect_with E r w)) = eMQTTNotConnected"
  by (simp_all add: disconnect_with_def frame_simps reset_rx_fields)

lemma rx_hold_disconnect [simp]: "rx_hold (w_ctx (disconnect_with E r w))"
  by (simp add: rx_hold_def disconnect_fields)

context buffer_pool
begin

lemma ok_FixedHeaderOnly:
  assumes "ok F E w" and "xRxBuffer (w_ctx w) = 0"
  shows "ok F E (prvResetRxMessageState (prvProcessReceivedFixedHeaderOnlyMQTTPacket E w))"
  unfolding prvProcessReceivedFixedHeaderOnlyMQTTPacket_def
  using ok_PINGRESP [OF assms] ok_disconnect_reset [OF assms(1)] by (auto intro: ok_reset_rx)

lemma ok_copy_header_byte: "ok F E w \<Longrightarrow> ok F E (copy_header_byte b w)"
  by (erule pool_ok_cong) (simp_all add: frame_simps)

lemma ok_upd_rx_state: "ok F E w \<Longrightarrow> ok F E (upd_rx_state f w)"
  by (erule pool_ok_cong) (simp_all add: frame_simps)

lemma ok_copy_to_rx: "ok F E w \<Longrightarrow> ok F E (copy_to_rx bs w)"
  by (erule pool_ok_cong) (simp_all add: frame_simps)

text \<open>The header is complete and the rest of the message needs a buffer.\<close>

lemma ok_header_complete:
  assumes "ok F E w" and "xRxBuffer (w_ctx w) = 0"
  shows "ok F E (header_complete E w)" "rx_hold (w_ctx (header_complete E w))"
proof -
  obtain n tot where d: "rx_decode (w_ctx w) = (n, tot)" by fastforce
  define w1 where "w1 = upd_rx_state (\<lambda>s. s\<lparr>ucRemaingingLengthFieldBytes := n, ulTotalMessageLength := tot\<rparr>) w"
  have o1: "ok F E w1" "xRxBuffer (w_ctx w1) = 0"
    using assms by (simp_all add: w1_def ok_upd_rx_state frame_simps)
  obtain h w2 where g: "prvGetFreeBuffer E tot w1 = (h, w2)" by fastforce
  note gb = get_buffer [OF o1(1) g]
  let ?w3 = "upd_ctx (\<lambda>c. c\<lparr>xRxBuffer := h\<rparr>) w2"
  have z: "header_complete E w = (if tot = ulRxMessageReceivedLength (w_ctx w1)
      then prvResetRxMessageState (prvProcessReceivedFixedHeaderOnlyMQTTPacket E w1)
      else if h \<noteq> 0 then start_store h ?w3 else start_drop E ?w3)"
    unfolding header_complete_def d Let_def prod.case w1_def [symmetric] g by (rule refl)
  have "ok F E (start_store h ?w3) \<and> rx_hold (w_ctx (start_store h ?w3))" if h: "h \<noteq> 0"
  proof -
    have c: "w_ctx (start_store h ?w3) = (w_ctx w1)\<lparr>xRxBuffer := h, xRxMessageState := (xRxMessageState (w_ctx w1))
        \<lparr>xRxNextByte := eMQTTRxNextByteMessage, xRxMessageAction := eMQTTRxMessageStore\<rparr>\<rparr>"
      by (simp add: start_store_def Let_def frame_simps gb(1))
    have l: "lib_bufs (w_ctx (start_store h ?w3)) = xTxBufferList (w_ctx w1) @ [h]"
      "lib_bufs (w_ctx w1) = xTxBufferList (w_ctx w1)"
      unfolding c using h o1(2) by (simp_all add: lib_bufs_def rx_list_def)
    have "ok F E (start_store h ?w3)"
    proof (rule ok_acquire [OF o1(1) g h])
      show "w_pool (start_store h ?w3) = w_pool w2" "user_owned (w_trace (start_store h ?w3)) = user_owned (w_trace w1)"
        by (simp_all add: start_store_def Let_def frame_simps gb(2))
      show "distinct (lib_bufs (w_ctx (start_store h ?w3)))"
        using l fresh_not_lib [OF o1(1) g h] o1(1) by (simp add: pool_ok_def)
      show "set (lib_bufs (w_ctx (start_store h ?w3))) = insert h (set (lib_bufs (w_ctx w1)))"
        using l by simp
    qed (simp_all add: c)
    then show ?thesis using h c by (simp add: rx_hold_def)
  qed
  moreover have "ok F E (start_drop E ?w3) \<and> rx_hold (w_ctx (start_drop E ?w3))" if h: "h = 0"
  proof -
    have "ok F E w2" using ok_get_none [OF o1(1)] g h by simp
    then have "ok F E (start_drop E ?w3)"
      by (rule pool_ok_cong)
        (simp_all add: start_drop_def Let_def frame_simps return_rx_def prvReturnBuffer_def gb(1) o1(2) h)
    then show ?thesis by (simp add: start_drop_def Let_def frame_simps return_rx_def prvReturnBuffer_def rx_hold_def h)
  qed
  ultimately show "ok F E (header_complete E w)" "rx_hold (w_ctx (header_complete E w))"
    unfolding z using ok_FixedHeaderOnly [OF o1] by auto
qed

lemma ok_parse_step:
  assumes "ok F E w" and "rx_hold (w_ctx w)" and "parse_step E rest w = (r, rest', w')"
  shows "ok F E w'" "rx_hold (w_ctx w')"
proof -
  have "ok F E w' \<and> rx_hold (w_ctx w')"
  proof (cases "xConnectionState (w_ctx w) = eMQTTNotConnected")
    case True
    then show ?thesis using assms by (simp add: parse_step_def)
  next
    case conn: False
    show ?thesis
    proof (cases "xRxNextByte (xRxMessageState (w_ctx w))")
      case eMQTTRxNextBytePacketType
      then show ?thesis
        using assms conn
        by (auto simp: parse_step_def parse_packet_type_def rx_hold_def frame_simps intro!: ok_upd_rx_state ok_copy_header_byte)
    next
      case eMQTTRxNextBytePacketLength
      let ?w = "copy_header_byte (hd rest) w"
      have o: "ok F E ?w" "xRxBuffer (w_ctx ?w) = 0" "rx_hold (w_ctx ?w)"
        using assms(1,2) eMQTTRxNextBytePacketLength by (simp_all add: ok_copy_header_byte rx_hold_def frame_simps)
      show ?thesis
        using assms(3) conn eMQTTRxNextBytePacketLength ok_header_complete [OF o(1,2)] o ok_disconnect_with(1) [OF o(1)]
        by (auto simp: parse_step_def parse_packet_length_def Let_def split: if_splits)
    next
      case m: eMQTTRxNextByteMessage
      show ?thesis
      proof (cases "xRxMessageAction (xRxMessageState (w_ctx w))")
        case eMQTTRxMessageStore
        then have rx: "xRxBuffer (w_ctx w) \<noteq> 0" using assms(2) m by (simp add: rx_hold_def)
        show ?thesis
          using assms(2,3) conn m eMQTTRxMessageStore ok_copy_to_rx [OF assms(1)]
            ok_MQTTPacket [OF ok_copy_to_rx [OF assms(1)]] rx
          by (auto simp: parse_step_def parse_store_def Let_def frame_simps split: if_splits)
      next
        case eMQTTRxMessageDrop
        then have rx: "xRxBuffer (w_ctx w) = 0" using assms(2) m by (simp add: rx_hold_def)
        show ?thesis
          using assms conn m eMQTTRxMessageDrop rx
          by (auto simp: parse_step_def parse_drop_def Let_def frame_simps
              intro!: ok_reset_rx ok_event ok_upd_ctx split: if_splits)
      qed
    qed
  qed
  then show "ok F E w'" "rx_hold (w_ctx w')" by blast+
qed

lemma ok_parse_loop:
  "ok F E w \<Longrightarrow> rx_hold (w_ctx w) \<Longrightarrow> parse_loop E rest w = (rc, w') \<Longrightarrow> ok F E w' \<and> rx_hold (w_ctx w')"
proof (induction E rest w rule: parse_loop.induct)
  case (1 E rest w)
  show ?case
  proof (cases "rest = []")
    case True
    with 1 show ?thesis by (simp add: parse_loop.simps)
  next
    case False
    obtain r rest1 w1 where s: "parse_step E rest w = (r, rest1, w1)" by (metis prod_cases3)
    have o: "ok F E w1" "rx_hold (w_ctx w1)" using ok_parse_step [OF "1.prems"(1,2) s] by auto
    show ?thesis
    proof (cases r)
      case None
      then have "parse_loop E rest1 w1 = (rc, w')"
        using "1.prems"(3) False s by (simp add: parse_loop.simps [of E rest w])
      then show ?thesis using "1.IH" [OF False s [symmetric] None refl o] by simp
    qed (use "1.prems"(3) False s o in \<open>auto simp: parse_loop.simps [of E rest w]\<close>)
  qed
qed

lemma ok_upd_buf: "ok F E w \<Longrightarrow> ok F E (upd_buf h f w)"
  by (erule pool_ok_cong) (simp_all add: frame_simps)

lemma ok_periodic_tx:
  "ok F E w \<Longrightarrow> rx_hold (w_ctx w) \<Longrightarrow> set hs \<subseteq> set (xTxBufferList (w_ctx w)) \<Longrightarrow> distinct hs \<Longrightarrow>
     ok F E (snd (periodic_tx E now hs n w)) \<and> rx_hold (w_ctx (snd (periodic_tx E now hs n w)))"
proof (induction hs arbitrary: n w)
  case (Cons h hs)
  obtain el t r where e: "prvIsTimeElapsed (mb_xRecordedTickCount (w_bufs w h)) now (mb_ulTimeoutTicks (w_bufs w h)) = (el, t, r)"
    by (metis prod_cases3)
  let ?w = "upd_buf h (\<lambda>b. b\<lparr>mb_xRecordedTickCount := t, mb_ulTimeoutTicks := r\<rparr>) w"
  let ?s = "if control_byte (w_bufs ?w h) = (mqttCONTROL_SUBSCRIBE OR mqttFLAGS_SUBSCRIBE)
     then prvRemoveSubscriptionForSubscribeOrUnsubscribeBuffer h ?w else ?w"
  let ?v = "snd (prvInvokeCallback E (eMQTTTimeout (mb_usPacketIdentifier (w_bufs ?s h))) ?s)"
  have w: "ok F E ?w" "rx_hold (w_ctx ?w)" "xTxBufferList (w_ctx ?w) = xTxBufferList (w_ctx w)"
    using Cons.prems by (simp_all add: ok_upd_buf frame_simps)
  have s: "ok F E ?s" "xTxBufferList (w_ctx ?s) = xTxBufferList (w_ctx w)" "xRxBuffer (w_ctx ?s) = xRxBuffer (w_ctx w)"
    "xRxMessageState (w_ctx ?s) = xRxMessageState (w_ctx w)"
    using w by (auto simp: ok_remove_for_buffer frame_simps)
  have v: "ok F E ?v" "w_ctx ?v = w_ctx ?s" using s(1) by (auto intro: ok_event simp: frame_simps)
  let ?u = "prvReturnBuffer E h ?v"
  have u: "ok F E ?u" using ok_return_tx [OF v(1), of h] v(2) s(2) Cons.prems(3) by simp
  have nz: "h \<noteq> 0" using Cons.prems by (auto simp: pool_ok_def lib_bufs_def)
  have c: "w_ctx ?u = (w_ctx ?s)\<lparr>xTxBufferList := remove1 h (xTxBufferList (w_ctx w))\<rparr>"
    using nz v(2) s(2) by (simp add: return_frame)
  have "distinct (xTxBufferList (w_ctx w))" using Cons.prems(1) by (simp add: pool_ok_def lib_bufs_def)
  then have sub: "set hs \<subseteq> set (xTxBufferList (w_ctx ?u))" unfolding c using Cons.prems(3,4) by auto
  have hold: "rx_hold (w_ctx ?u)" unfolding c using s(3,4) Cons.prems(2) by (simp add: rx_hold_def)
  have "ok F E (snd (periodic_tx E now hs n ?u)) \<and> rx_hold (w_ctx (snd (periodic_tx E now hs n ?u)))" for n
    using Cons.IH [OF u hold sub] Cons.prems(4) by simp
  moreover have "ok F E (snd (periodic_tx E now hs n ?w)) \<and> rx_hold (w_ctx (snd (periodic_tx E now hs n ?w)))" for n
    using Cons.IH [OF w(1,2)] w(3) Cons.prems(3,4) by simp
  ultimately show ?case
    using ok_disconnect_with(1) [OF w(1)] by (simp add: e Let_def del: fun_upd_apply)
qed simp

lemma ok_keep_alive:
  assumes "ok F E w" and "rx_hold (w_ctx w)"
  shows "ok F E (periodic_keep_alive E now w)" "rx_hold (w_ctx (periodic_keep_alive E now w))"
proof -
  obtain el t r where e: "prvIsTimeElapsed (xLastSentMessageTimestamp (w_ctx w)) now (ulNextPeriodicInvokeTicks (w_ctx w)) = (el, t, r)"
    by (metis prod_cases3)
  let ?w = "upd_ctx (\<lambda>c. c\<lparr>xLastSentMessageTimestamp := t, ulNextPeriodicInvokeTicks := r\<rparr>) w"
  have w: "ok F E ?w" by (rule ok_upd_ctx [OF assms(1)]) simp_all
  obtain rc w1 where s: "prvSendData E ucPingReqPacket 2 ?w = (rc, w1)" by fastforce
  obtain t' w2 where t: "prvGetCurrentTickCount E w1 = (t', w2)" by fastforce
  have o: "ok F E w1" "ok F E w2" using ok_send [OF s w] ok_ticks [OF t] by auto
  have c: "w_ctx w2 = w_ctx w1" "xRxBuffer (w_ctx w1) = xRxBuffer (w_ctx w)" "xRxMessageState (w_ctx w1) = xRxMessageState (w_ctx w)"
    using ticks_frame(1) [OF t] send_fields(2,3) [OF s] by (simp_all add: frame_simps)
  show "ok F E (periodic_keep_alive E now w)"
    using w o by (auto simp: periodic_keep_alive_def e s t Let_def intro!: ok_upd_ctx ok_event)
  show "rx_hold (w_ctx (periodic_keep_alive E now w))"
    using assms(2) c by (auto simp: periodic_keep_alive_def e s t Let_def frame_simps rx_hold_def)
qed

lemma ok_Periodic:
  assumes "ok F E w" and "rx_hold (w_ctx w)"
  shows "ok F E (snd (MQTT_Periodic E now w))" "rx_hold (w_ctx (snd (MQTT_Periodic E now w)))"
proof -
  obtain n w1 where p: "periodic_tx E now (xTxBufferList (w_ctx w)) 0xFFFFFFFF w = (n, w1)" by fastforce
  have "ok F E w1 \<and> rx_hold (w_ctx w1)"
    using ok_periodic_tx [OF assms subset_refl, where now = now and n = "0xFFFFFFFF"] p assms(1) by (simp add: pool_ok_def lib_bufs_def)
  then show "ok F E (snd (MQTT_Periodic E now w))" "rx_hold (w_ctx (snd (MQTT_Periodic E now w)))"
    using ok_keep_alive by (auto simp: MQTT_Periodic_def p Let_def)
qed

end

section \<open>The receiver and the operations that send\<close>

text \<open>The operations that send do not touch the state of the receiver.\<close>

definition rx_part :: "MQTTContext_t \<Rightarrow> addr \<times> MQTTRxMessageState_t \<times> u8 list \<times> u32" where
  "rx_part c = (xRxBuffer c, xRxMessageState c, ucRxFixedHeaderBuffer c, ulRxMessageReceivedLength c)"

lemma rx_hold_part: "rx_part c' = rx_part c \<Longrightarrow> rx_hold c' = rx_hold c"
  by (simp add: rx_part_def rx_hold_def)

lemma rx_part_upd [simp]:
  "rx_part (c\<lparr>xTxBufferList := l\<rparr>) = rx_part c" "rx_part (c\<lparr>xConnectionState := s\<rparr>) = rx_part c"
  "rx_part (c\<lparr>xSubscriptionManager := m\<rparr>) = rx_part c" "rx_part (c\<lparr>xWaitingForPingResp := b\<rparr>) = rx_part c"
  "rx_part (c\<lparr>ulKeepAliveActualIntervalTicks := n\<rparr>) = rx_part c" "rx_part (c\<lparr>ulPingRequestTimeoutTicks := n\<rparr>) = rx_part c"
  "rx_part (c\<lparr>xLastSentMessageTimestamp := t\<rparr>) = rx_part c" "rx_part (c\<lparr>ulNextPeriodicInvokeTicks := n\<rparr>) = rx_part c"
  by (simp_all add: rx_part_def)

lemma get_ctx [frame_simps]: "w_ctx (snd (prvGetFreeBuffer E n w)) = w_ctx w"
  by (auto simp: prvGetFreeBuffer_def frame_simps split: prod.splits option.splits)

lemma rx_part_send [simp]: "rx_part (w_ctx (snd (prvSendData E d n w))) = rx_part (w_ctx w)"
  using send_fields [of E d n w] by (metis prod.collapse rx_part_def)

lemma rx_part_transmit [simp]: "rx_part (w_ctx (snd (transmit E rc h w))) = rx_part (w_ctx w)"
  by (simp add: transmit_def)

lemma rx_part_return [simp]: "rx_part (w_ctx (prvReturnBuffer E h w)) = rx_part (w_ctx w)"
  by (simp add: return_frame)

lemma rx_part_make_packet [simp]: "rx_part (w_ctx (snd (snd (make_packet E rl to i build w)))) = rx_part (w_ctx w)"
  by (simp add: make_packet_def Let_def case_prod_beta frame_simps begin_tx_frame)

lemma rx_part_ops [simp]:
  "rx_part (w_ctx (snd (MQTT_Connect E cp w))) = rx_part (w_ctx w)"
  "rx_part (w_ctx (snd (MQTT_Subscribe E sp w))) = rx_part (w_ctx w)"
  "rx_part (w_ctx (snd (MQTT_Unsubscribe E up w))) = rx_part (w_ctx w)"
  "rx_part (w_ctx (snd (MQTT_Publish E pp w))) = rx_part (w_ctx w)"
  "rx_part (w_ctx (snd (MQTT_ReturnBuffer E h w))) = rx_part (w_ctx w)"
  by (simp_all add: MQTT_Connect_def connect_packet_def MQTT_Subscribe_def subscribe_packet_def MQTT_Unsubscribe_def
      unsubscribe_packet_def MQTT_Publish_def publish_packet_def MQTT_ReturnBuffer_def Let_def case_prod_beta frame_simps)

end
