(* ===== verification/MqttSafety.thy ===== *)
theory MqttSafety
  imports MqttInv
begin

text \<open>
  The library as a transition system: the user calls the functions of the library in any
  order and with any arguments within their limits, and other clients of the buffer pool get and return
  buffers in between. The theorems hold in every state that can be reached after
  \<open>MQTT_Init\<close>, for every behaviour of the network, the clock and the callbacks.
\<close>

section \<open>Calls\<close>

datatype mqtt_call =
    CallConnect MQTTConnectParams_t
  | CallDisconnect
  | CallSubscribe MQTTSubscribeParams_t
  | CallUnsubscribe MQTTUnsubscribeParams_t
  | CallPublish MQTTPublishParams_t
  | CallParse "u8 list" nat
  | CallPeriodic u64
  | CallReturn addr

fun mqtt_exec :: "'p mqtt_env \<Rightarrow> mqtt_call \<Rightarrow> 'p world \<Rightarrow> 'p world" where
  "mqtt_exec E (CallConnect cp) w = snd (MQTT_Connect E cp w)"
| "mqtt_exec E CallDisconnect w = snd (MQTT_Disconnect E w)"
| "mqtt_exec E (CallSubscribe sp) w = snd (MQTT_Subscribe E sp w)"
| "mqtt_exec E (CallUnsubscribe up) w = snd (MQTT_Unsubscribe E up w)"
| "mqtt_exec E (CallPublish pp) w = snd (MQTT_Publish E pp w)"
| "mqtt_exec E (CallParse bs n) w = snd (MQTT_ParseReceivedData E bs n w)"
| "mqtt_exec E (CallPeriodic now) w = snd (MQTT_Periodic E now w)"
| "mqtt_exec E (CallReturn h) w = snd (MQTT_ReturnBuffer E h w)"

text \<open>
  The user passes arguments within their limits and returns only buffers that a publish
  callback took.
\<close>

fun call_allowed :: "'p world \<Rightarrow> mqtt_call \<Rightarrow> bool" where
  "call_allowed w (CallConnect cp) \<longleftrightarrow> connect_params_ok cp"
| "call_allowed w CallDisconnect \<longleftrightarrow> True"
| "call_allowed w (CallSubscribe sp) \<longleftrightarrow> subscribe_params_ok sp"
| "call_allowed w (CallUnsubscribe up) \<longleftrightarrow> unsubscribe_params_ok up"
| "call_allowed w (CallPublish pp) \<longleftrightarrow> publish_params_ok pp"
| "call_allowed w (CallParse bs n) \<longleftrightarrow> n \<le> length bs"
| "call_allowed w (CallPeriodic now) \<longleftrightarrow> True"
| "call_allowed w (CallReturn h) \<longleftrightarrow> h \<in> user_owned (w_trace w)"

text \<open>A state is the world of the library and the set of buffers other clients hold.\<close>

inductive mqtt_step ::
  "'p mqtt_env \<Rightarrow> 'p world \<times> addr set \<Rightarrow> 'p world \<times> addr set \<Rightarrow> bool" for E where
  call: "call_allowed w c \<Longrightarrow> mqtt_step E (w, F) (mqtt_exec E c w, F)"
| other_get: "e_get E (pxGetBufferFxn (w_ctx w)) (w_pool w) n = (Some (h, m), p) \<Longrightarrow>
    mqtt_step E (w, F) (w\<lparr>w_pool := p\<rparr>, insert h F)"
| other_get_none: "e_get E (pxGetBufferFxn (w_ctx w)) (w_pool w) n = (None, p) \<Longrightarrow>
    mqtt_step E (w, F) (w\<lparr>w_pool := p\<rparr>, F)"
| other_return: "h \<in> F \<Longrightarrow>
    mqtt_step E (w, F) (w\<lparr>w_pool := e_ret E (pxReturnBufferFxn (w_ctx w)) (w_pool w) h\<rparr>, F - {h})"

inductive mqtt_reachable ::
  "'p mqtt_env \<Rightarrow> 'p world \<times> addr set \<Rightarrow> 'p world \<times> addr set \<Rightarrow> bool" for E s0 where
  start: "mqtt_reachable E s0 s0"
| step: "mqtt_reachable E s0 s \<Longrightarrow> mqtt_step E s s' \<Longrightarrow> mqtt_reachable E s0 s'"

inductive_cases mqtt_stepE: "mqtt_step E s s'"

section \<open>Ownership of buffers in every reachable state\<close>

context buffer_pool
begin

lemma ok_exec:
  assumes "ok F E w" and "rx_hold (w_ctx w)" and "call_allowed w c"
  shows "ok F E (mqtt_exec E c w) \<and> rx_hold (w_ctx (mqtt_exec E c w))"
proof (cases c)
  case CallDisconnect
  then show ?thesis
    using ok_Disconnect [OF assms(1)]
    by (simp add: MQTT_Disconnect_def case_prod_beta rx_hold_def reset_rx_fields)
next
  case (CallParse bs n)
  have "rx_hold (w_ctx (chk b w))" "ok F E (chk b w)" for b
    using assms(1,2) by (simp_all add: frame_simps ok_chk)
  then show ?thesis
    using ok_parse_loop [of F E] CallParse by (simp add: MQTT_ParseReceivedData_def) (metis prod.collapse)
next
  case (CallPeriodic now)
  then show ?thesis using ok_Periodic [OF assms(1,2)] by simp
next
  case (CallReturn h)
  then show ?thesis
    using ok_ReturnBuffer [OF assms(1)] assms(2,3) by (simp add: rx_hold_part [OF rx_part_ops(5)])
qed (use assms(1,2) in \<open>simp_all add: ok_Connect ok_Subscribe ok_Unsubscribe ok_Publish rx_hold_part [OF rx_part_ops(1)]
      rx_hold_part [OF rx_part_ops(2)] rx_hold_part [OF rx_part_ops(3)] rx_hold_part [OF rx_part_ops(4)]\<close>)

text \<open>The other clients of the pool.\<close>

lemma ok_other_get:
  assumes "ok F E w" and "get (w_pool w) n = (Some (h, m), p)"
  shows "ok (insert h F) E (w\<lparr>w_pool := p\<rparr>)"
proof -
  have "pinv (w_pool w)" using assms(1) by (simp add: pool_ok_def)
  from get_some [OF this assms(2)] show ?thesis using assms(1) by (auto simp: pool_ok_def)
qed

lemma ok_other_get_none:
  assumes "ok F E w" and "get (w_pool w) n = (None, p)"
  shows "ok F E (w\<lparr>w_pool := p\<rparr>)"
proof -
  have "pinv (w_pool w)" using assms(1) by (simp add: pool_ok_def)
  from get_none [OF this assms(2)] show ?thesis using assms(1) by (auto simp: pool_ok_def)
qed

lemma ok_other_return:
  assumes "ok F E w" and "h \<in> F"
  shows "ok (F - {h}) E (w\<lparr>w_pool := ret (w_pool w) h\<rparr>)"
proof -
  have p: "pinv (w_pool w)" and h: "h \<in> inuse (w_pool w)" using assms by (auto simp: pool_ok_def)
  from ret_inv [OF p h] ret_inuse [OF p h] show ?thesis using assms by (auto simp: pool_ok_def)
qed

lemma ok_bound:
  "ok F E w \<Longrightarrow> e_get E (pxGetBufferFxn (w_ctx w)) = get" "ok F E w \<Longrightarrow> e_ret E (pxReturnBufferFxn (w_ctx w)) = ret"
  by (simp_all add: pool_ok_def)

lemma ok_step:
  assumes "mqtt_step E s s'" and "ok (snd s) E (fst s)" and "rx_hold (w_ctx (fst s))"
  shows "ok (snd s') E (fst s') \<and> rx_hold (w_ctx (fst s'))"
  using assms
proof (induction rule: mqtt_step.induct)
  case (call w c F)
  then show ?case using ok_exec by simp
next
  case (other_get w n h m p F)
  then have "get (w_pool w) n = (Some (h, m), p)" using ok_bound(1) by simp
  then show ?case using ok_other_get other_get.prems by simp
next
  case (other_get_none w n p F)
  then have "get (w_pool w) n = (None, p)" using ok_bound(1) by simp
  then show ?case using ok_other_get_none other_get_none.prems by simp
next
  case (other_return h F w)
  then show ?case using ok_other_return [of F E w h] ok_bound(2) [of F E w] by simp
qed

lemma ok_reachable:
  "mqtt_reachable E s0 s \<Longrightarrow> ok (snd s0) E (fst s0) \<Longrightarrow> rx_hold (w_ctx (fst s0)) \<Longrightarrow>
     ok (snd s) E (fst s) \<and> rx_hold (w_ctx (fst s))"
proof (induction rule: mqtt_reachable.induct)
  case (step s s')
  then show ?case using ok_step by blast
qed simp

text \<open>The state right after \<open>MQTT_Init\<close>.\<close>

lemma ok_init:
  assumes "e_get E (ip_pxGetBufferFxn ip) = get" and "e_ret E (ip_pxReturnBufferFxn ip) = ret"
    and "pinv (w_pool w)" and "w_trace w = []"
  shows "ok (inuse (w_pool w)) E (snd (MQTT_Init ip w))" "rx_hold (w_ctx (snd (MQTT_Init ip w)))"
  using assms
  by (simp_all add: MQTT_Init_def Let_def frame_simps prvResetRxMessageState_def reset_rx_def pool_ok_def lib_bufs_def
      rx_list_def rx_hold_def)

end

section \<open>States of the firmware\<close>

text \<open>The sizes of the arrays in the context, which the declarations fix.\<close>

definition ctx_shape :: "MQTTContext_t \<Rightarrow> bool" where
  "ctx_shape c \<longleftrightarrow> length (ucRxFixedHeaderBuffer c) = mqttFIXED_HEADER_MAX_SIZE \<and>
     length (xSubscriptions (xSubscriptionManager c)) = mqttconfigSUBSCRIPTION_MANAGER_MAX_SUBSCRIPTIONS \<and>
     list_all (\<lambda>e. length (ucTopicFilter e) = mqttconfigSUBSCRIPTION_MANAGER_MAX_TOPIC_LENGTH)
       (xSubscriptions (xSubscriptionManager c))"

text \<open>
  A state the library can be in when it was initialised with the firmware's buffer pool:
  \<open>w0\<close> is the memory before \<open>MQTT_Init\<close>, when nothing had happened yet.
\<close>

definition firmware_state :: "bufferpool mqtt_env \<Rightarrow> bufferpool world \<Rightarrow> addr set \<Rightarrow> bool" where
  "firmware_state E w F \<longleftrightarrow> (\<exists>ip w0.
     e_get E (ip_pxGetBufferFxn ip) = BUFFERPOOL_GetFreeBuffer \<and>
     e_ret E (ip_pxReturnBufferFxn ip) = BUFFERPOOL_ReturnBuffer \<and>
     pool_placed (w_pool w0) \<and> w_trace w0 = [] \<and> ctx_shape (w_ctx w0) \<and>
     mqtt_reachable E (snd (MQTT_Init ip w0), pool_inuse (w_pool w0)) (w, F))"

lemma firmware_ok:
  assumes "firmware_state E w F"
  shows "bpool.ok F E w" "rx_hold (w_ctx w)"
proof -
  obtain ip w0 where i: "e_get E (ip_pxGetBufferFxn ip) = BUFFERPOOL_GetFreeBuffer"
    "e_ret E (ip_pxReturnBufferFxn ip) = BUFFERPOOL_ReturnBuffer" "pool_placed (w_pool w0)" "w_trace w0 = []"
    and r: "mqtt_reachable E (snd (MQTT_Init ip w0), pool_inuse (w_pool w0)) (w, F)"
    using assms unfolding firmware_state_def by blast
  show "bpool.ok F E w" "rx_hold (w_ctx w)"
    using bpool.ok_reachable [OF r] bpool.ok_init [OF i] by auto
qed

lemma firmware_step:
  assumes "firmware_state E w F" and "call_allowed w c"
  shows "firmware_state E (mqtt_exec E c w) F"
  using assms mqtt_reachable.step [OF _ mqtt_step.call] unfolding firmware_state_def by metis

text \<open>
  C1. No buffer is lost and none is used twice. In every state the library can reach with
  the firmware's buffer pool, whatever the network, the clock and the callbacks do: the
  buffers waiting for an acknowledgment and the one being received are all different,
  and the buffers marked in use in the pool are exactly these, the ones the user took
  in a publish callback and has not returned, and the ones other clients hold; these
  four groups do not overlap.
\<close>

theorem mqtt_buffers_accounted_for:
  assumes "firmware_state E w F"
  shows "distinct (lib_bufs (w_ctx w)) \<and> 0 \<notin> set (lib_bufs (w_ctx w)) \<and>
     set (lib_bufs (w_ctx w)) \<inter> user_owned (w_trace w) = {} \<and>
     (set (lib_bufs (w_ctx w)) \<union> user_owned (w_trace w)) \<inter> F = {} \<and>
     pool_inuse (w_pool w) = set (lib_bufs (w_ctx w)) \<union> user_owned (w_trace w) \<union> F"
  using firmware_ok(1) [OF assms] by (simp add: pool_ok_def)

text \<open>An environment in which everything that is sent arrives and no callback keeps a buffer.\<close>

definition example_env :: "bufferpool mqtt_env" where
  "example_env = \<lparr>e_send = (\<lambda>_ _ _ _ n. n), e_ticks = (\<lambda>_ _. 1000), e_event = (\<lambda>_ _ _ _. False),
     e_publish = (\<lambda>_ _ _ _. False), e_get = (\<lambda>_. BUFFERPOOL_GetFreeBuffer), e_ret = (\<lambda>_. BUFFERPOOL_ReturnBuffer)\<rparr>"

definition example_init :: MQTTInitParams_t where
  "example_init = \<lparr>ip_pvCallbackContext = 0, ip_pxCallback = Some 1, ip_pvSendContext = 0, ip_pxMQTTSendFxn = 2,
     ip_pxGetTicksFxn = Some 3, ip_pxGetBufferFxn = 4, ip_pxReturnBufferFxn = 5\<rparr>"

definition example_ctx :: MQTTContext_t where
  "example_ctx = \<lparr>xTxBufferList = [], xRxBuffer = 0,
     xRxMessageState = \<lparr>xRxNextByte = eMQTTRxNextBytePacketType, xRxMessageAction = eMQTTRxMessageStore,
       ucRemaingingLengthFieldBytes = 0, ulTotalMessageLength = 0\<rparr>,
     ucRxFixedHeaderBuffer = replicate 5 0, ulRxMessageReceivedLength = 0,
     pvCallbackContext = 0, pxCallback = None, pvSendContext = 0, pxMQTTSendFxn = 0, pxGetTicksFxn = None,
     pxGetBufferFxn = 0, pxReturnBufferFxn = 0, xConnectionState = eMQTTNotConnected,
     xLastSentMessageTimestamp = 0, ulNextPeriodicInvokeTicks = 0, ulKeepAliveActualIntervalTicks = 0,
     ulPingRequestTimeoutTicks = 0, xWaitingForPingResp = False, xSubscriptionManager = empty_manager\<rparr>"

definition example_world :: "bufferpool world" where
  "example_world = \<lparr>w_ctx = example_ctx, w_pool = example_pool,
     w_bufs = (\<lambda>_. \<lparr>mb_xRecordedTickCount = 0, mb_ulTimeoutTicks = 0, mb_usPacketIdentifier = 0,
       mb_ulBufferLength = 0, mb_ulDataLength = 0, mb_data = []\<rparr>),
     w_trace = [], w_fault = False\<rparr>"

definition example_connect :: MQTTConnectParams_t where
  "example_connect = \<lparr>cp_usKeepAliveIntervalSeconds = 1200, cp_ulKeepAliveActualIntervalTicks = 10000,
     cp_ulPingRequestTimeoutTicks = 2000, cp_pucClientId = [116, 105, 118, 97], cp_usClientIdLength = 4,
     cp_pucUserName = [], cp_usUserNameLength = 0, cp_usPacketIdentifier = 7, cp_ulTimeoutTicks = 5000\<rparr>"

definition example_start :: "bufferpool world" where
  "example_start = snd (MQTT_Init example_init example_world)"

lemma example_start_state: "firmware_state example_env example_start {}"
  unfolding firmware_state_def
proof (intro exI [of _ example_init] exI [of _ example_world] conjI)
  have "pool_inuse example_pool = {}" by (simp add: pool_inuse_def example_pool_def)
  then show "mqtt_reachable example_env (snd (MQTT_Init example_init example_world), pool_inuse (w_pool example_world))
      (example_start, {})"
    using mqtt_reachable.start by (simp add: example_start_def example_world_def)
qed (simp_all add: example_env_def example_world_def example_pool_placed ctx_shape_def example_ctx_def
    empty_manager_def empty_entry_def sub_config_defs mqtt_length_defs list_all_iff)

definition example_connecting :: "bufferpool world" where
  "example_connecting = snd (MQTT_Connect example_env example_connect example_start)"

lemma example_connect_ok: "connect_params_ok example_connect"
  by (simp add: connect_params_ok_def string_ok_def example_connect_def)

lemma example_connecting_state: "firmware_state example_env example_connecting {}"
  using firmware_step [OF example_start_state, of "CallConnect example_connect"] example_connect_ok
  by (simp add: example_connecting_def)

theorem mqtt_buffers_accounted_for_witness:
  "pool_inuse (w_pool example_connecting) =
     set (lib_bufs (w_ctx example_connecting)) \<union> user_owned (w_trace example_connecting)"
  using mqtt_buffers_accounted_for [OF example_connecting_state] by simp

end
