(* ===== verification/MqttPackets.thy ===== *)
theory MqttPackets
  imports MqttSafety
begin

text \<open>
  The packets the library sends. Each packet has a specification as a list of bytes; the
  code that writes it into a cleared buffer produces exactly these bytes and stays
  within the buffer.
\<close>

section \<open>Writing into a cleared buffer\<close>

text \<open>The data area after the bytes \<open>xs\<close> were written at its start.\<close>

definition pad :: "u8 list \<Rightarrow> nat \<Rightarrow> u8 list" where
  "pad xs N = xs @ replicate (N - length xs) 0"

named_theorems pad_simps \<open>writers that append to the bytes written so far\<close>

lemma length_pad [simp]: "length xs \<le> N \<Longrightarrow> length (pad xs N) = N"
  by (simp add: pad_def)

lemma take_pad: "take (length xs) (pad xs N) = xs"
  by (simp add: pad_def)

lemma blit_pad: "length xs + length ys \<le> N \<Longrightarrow> blit (length xs) ys (pad xs N) = pad (xs @ ys) N"
  by (simp add: pad_def blit_def)

lemma put_pad [pad_simps]: "i = length xs \<Longrightarrow> i < N \<Longrightarrow> m_put i v (pad xs N, f) = (pad (xs @ [v]) N, f)"
  using blit_pad [of xs "[v]" N] by (simp add: m_put_ok)

lemma put_inside_pad: "i < length xs \<Longrightarrow> m_put i v (pad xs N, f) = (pad (xs[i := v]) N, f)"
  by (simp add: pad_def m_put_def list_update_append)

lemma get_inside_pad: "i < length xs \<Longrightarrow> m_get i (pad xs N, f) = xs ! i"
  by (simp add: pad_def m_get_def rdb_def nth_append)

lemma blit_pad_mem [pad_simps]:
  "i = length xs \<Longrightarrow> i + length ys \<le> N \<Longrightarrow> m_blit i ys (pad xs N, f) = (pad (xs @ ys) N, f)"
  using blit_pad [of xs ys N] by (simp add: m_blit_ok)

lemma encode_pad [pad_simps]:
  assumes "i = length xs" and "i + length (varint n) \<le> Suc L"
  shows "prvEncodeRemainingLength n i L (pad xs (Suc L), f) = (length (varint n), (pad (xs @ varint n) (Suc L), f))"
  using assms encode_ok [of i n "pad xs (Suc L)" L f] blit_pad [of xs "varint n" "Suc L"] by simp

lemma write_string_pad [pad_simps]:
  assumes "i = length xs" and "i + unat n + 2 \<le> Suc L" and "unat n \<le> length p"
  shows "prvWriteString i L p n (pad xs (Suc L), f) =
     (i + 2 + unat n, (pad (xs @ mqtt_string (take (unat n) p)) (Suc L), f))"
proof -
  let ?p = "take (unat n) p"
  have l: "length ?p = unat n" "length ?p < 65536" using assms(3) unat_u16_lt [of n] by auto
  then have n: "n = of_nat (length ?p)" by simp
  have w: "prvWriteString i L p n m = prvWriteString i L ?p n m" for m
    using assms(3) by (simp add: prvWriteString_def m_need_def)
  have "prvWriteString i L ?p (of_nat (length ?p)) (pad xs (Suc L), f) =
      (i + 2 + length ?p, (blit i (mqtt_string ?p) (pad xs (Suc L)), f))"
    using assms l by (intro write_string_ok) auto
  then show ?thesis
    using w n l(1) blit_pad [of xs "mqtt_string ?p" "Suc L"] assms(1,2) by simp
qed

section \<open>The packets\<close>

definition mqtt_packet :: "u8 \<Rightarrow> u8 list \<Rightarrow> u8 list" where
  "mqtt_packet ctl body = ctl # varint (of_nat (length body)) @ body"

definition connect_body :: "MQTTConnectParams_t \<Rightarrow> u8 list" where
  "connect_body cp =
     [0, 4, 77, 81, 84, 84, 4, if cp_usUserNameLength cp > 0 then 0x82 else 0x02,
      msb16 (cp_usKeepAliveIntervalSeconds cp), lsb16 (cp_usKeepAliveIntervalSeconds cp)] @
     mqtt_string (take (unat (cp_usClientIdLength cp)) (cp_pucClientId cp)) @
     (if cp_usUserNameLength cp > 0 then mqtt_string (take (unat (cp_usUserNameLength cp)) (cp_pucUserName cp)) else [])"

definition subscribe_body :: "MQTTSubscribeParams_t \<Rightarrow> u8 list" where
  "subscribe_body sp = [msb16 (sp_usPacketIdentifier sp), lsb16 (sp_usPacketIdentifier sp)] @
     mqtt_string (take (unat (sp_usTopicLength sp)) (sp_pucTopic sp)) @ [qos_value (sp_xQos sp)]"

definition unsubscribe_body :: "MQTTUnsubscribeParams_t \<Rightarrow> u8 list" where
  "unsubscribe_body up = [msb16 (up_usPacketIdentifier up), lsb16 (up_usPacketIdentifier up)] @
     mqtt_string (take (unat (up_usTopicLength up)) (up_pucTopic up))"

definition publish_body :: "MQTTPublishParams_t \<Rightarrow> u8 list" where
  "publish_body pp = mqtt_string (take (unat (pp_usTopicLength pp)) (pp_pucTopic pp)) @
     (if pp_xQos pp = eMQTTQoS0 then [] else [msb16 (pp_usPacketIdentifier pp), lsb16 (pp_usPacketIdentifier pp)]) @
     take (unat (pp_ulDataLength pp)) (pp_pvData pp)"

lemma unat_STRLEN: "unat n < 65534 \<Longrightarrow> unat (mqttSTRLEN n) = unat n + 2"
  by (simp add: mqttSTRLEN_def unat_word_ariths)

section \<open>Remaining lengths\<close>

lemma connect_length:
  assumes "connect_params_ok cp"
  shows "unat (connect_remaining_length cp) = length (connect_body cp)"
proof -
  have a: "unat (cp_usClientIdLength cp) < 65534" "unat (cp_usUserNameLength cp) < 65534"
    using assms by (auto simp: connect_params_ok_def string_ok_def)
  show ?thesis
    using assms a
    by (simp add: connect_remaining_length_def Let_def connect_body_def connect_params_ok_def string_ok_def
        unat_add_u32 unat_STRLEN)
qed

lemma subscribe_length:
  "subscribe_params_ok sp \<Longrightarrow> unat (subscribe_remaining_length sp) = length (subscribe_body sp)"
  by (simp add: subscribe_remaining_length_def subscribe_body_def subscribe_params_ok_def string_ok_def unat_add_u32 unat_STRLEN)

lemma unsubscribe_length:
  "unsubscribe_params_ok up \<Longrightarrow> unat (unsubscribe_remaining_length up) = length (unsubscribe_body up)"
  by (simp add: unsubscribe_remaining_length_def unsubscribe_body_def unsubscribe_params_ok_def string_ok_def unat_add_u32 unat_STRLEN)

lemma publish_length:
  "publish_params_ok pp \<Longrightarrow> unat (publish_remaining_length pp) = length (publish_body pp)"
  by (simp add: publish_remaining_length_def publish_body_def publish_params_ok_def string_ok_def unat_add_u32 unat_STRLEN)

lemma packet_of_length:
  assumes "unat n = length body"
  shows "mqtt_packet ctl body = ctl # varint n @ body"
  unfolding mqtt_packet_def assms [symmetric] by simp

section \<open>Building the packets\<close>

lemma replicate_pad: "replicate (Suc L) 0 = pad [] (Suc L)"
  by (simp add: pad_def)

lemma control_values:
  "mqttCONTROL_CONNECT OR mqttFLAGS_CONNECT = 0x10" "mqttCONTROL_SUBSCRIBE OR mqttFLAGS_SUBSCRIBE = 0x82"
  "mqttCONTROL_UNSUBSCRIBE OR mqttFLAGS_UNSUBSCRIBE = 0xA2" "mqttCONTROL_PUBLISH = 0x30"
  "mqttCONTROL_PUBACK OR mqttFLAGS_PUBACK = 0x40" "mqttCONTROL_CONNACK OR mqttFLAGS_CONNACK = 0x20"
  "mqttCONTROL_SUBACK OR mqttFLAGS_SUBACK = 0x90" "mqttCONTROL_UNSUBACK OR mqttFLAGS_UNSUBACK = 0xB0"
  "mqttCONTROL_PINGREQ OR mqttFLAGS_PINGREQ = 0xC0" "mqttCONTROL_PINGRESP OR mqttFLAGS_PINGRESP = 0xD0"
  "mqttCONTROL_DISCONNECT OR mqttFLAGS_DISCONNECT = 0xE0"
  by (simp_all add: mqtt_control_defs)

lemma build_subscribe_ok:
  assumes "subscribe_params_ok sp"
    and "length (mqtt_packet 0x82 (subscribe_body sp)) \<le> Suc L"
  shows "build_subscribe sp L (replicate (Suc L) 0, f) = (pad (mqtt_packet 0x82 (subscribe_body sp)) (Suc L), f)"
proof -
  let ?n = "subscribe_remaining_length sp"
  have p: "mqtt_packet 0x82 (subscribe_body sp) = 0x82 # varint ?n @ subscribe_body sp"
    by (rule packet_of_length [OF subscribe_length [OF assms(1)]])
  show ?thesis
    using assms(2) assms(1) unfolding p replicate_pad
    by (simp add: build_subscribe_def control_values Let_def pad_simps mqttADJUST_OFFSET_def
        subscribe_params_ok_def string_ok_def subscribe_body_def)
qed

lemma build_unsubscribe_ok:
  assumes "unsubscribe_params_ok up"
    and "length (mqtt_packet 0xA2 (unsubscribe_body up)) \<le> Suc L"
  shows "build_unsubscribe up L (replicate (Suc L) 0, f) = (pad (mqtt_packet 0xA2 (unsubscribe_body up)) (Suc L), f)"
proof -
  let ?n = "unsubscribe_remaining_length up"
  have p: "mqtt_packet 0xA2 (unsubscribe_body up) = 0xA2 # varint ?n @ unsubscribe_body up"
    by (rule packet_of_length [OF unsubscribe_length [OF assms(1)]])
  show ?thesis
    using assms(2) assms(1) unfolding p replicate_pad
    by (simp add: build_unsubscribe_def control_values Let_def pad_simps mqttADJUST_OFFSET_def
        unsubscribe_params_ok_def string_ok_def unsubscribe_body_def)
qed

definition publish_control :: "MQTTQoS_t \<Rightarrow> u8" where
  "publish_control q = 0x30 OR push_bit 1 (qos_value q)"

lemma build_publish_ok:
  assumes "publish_params_ok pp"
    and "length (mqtt_packet (publish_control (pp_xQos pp)) (publish_body pp)) \<le> Suc L"
  shows "build_publish pp L (replicate (Suc L) 0, f) = (pad (mqtt_packet (publish_control (pp_xQos pp)) (publish_body pp)) (Suc L), f)"
proof -
  let ?n = "publish_remaining_length pp" and ?c = "publish_control (pp_xQos pp)"
  have p: "mqtt_packet ?c (publish_body pp) = ?c # varint ?n @ publish_body pp"
    by (rule packet_of_length [OF publish_length [OF assms(1)]])
  show ?thesis
    using assms(2) assms(1) unfolding p replicate_pad
    by (cases "pp_xQos pp = eMQTTQoS0")
      (simp_all add: build_publish_def Let_def pad_simps get_inside_pad put_inside_pad control_values
        publish_control_def mqttADJUST_OFFSET_def publish_params_ok_def string_ok_def publish_body_def m_need_ok)
qed

lemma build_connect_ok:
  assumes "connect_params_ok cp"
    and "length (mqtt_packet 0x10 (connect_body cp)) \<le> Suc L"
  shows "build_connect cp L (replicate (Suc L) 0, f) = (pad (mqtt_packet 0x10 (connect_body cp)) (Suc L), f)"
proof -
  let ?n = "connect_remaining_length cp"
  have p: "mqtt_packet 0x10 (connect_body cp) = 0x10 # varint ?n @ connect_body cp"
    by (rule packet_of_length [OF connect_length [OF assms(1)]])
  show ?thesis
    using assms(2) assms(1) unfolding p replicate_pad
    by (cases "cp_usUserNameLength cp > 0")
      (simp_all add: build_connect_def control_values Let_def pad_simps mqttADJUST_OFFSET_def
        connect_params_ok_def string_ok_def connect_body_def ucDefaultConnectVariableHeader_def
        mqttPROTOCOL_LEVEL_def mqttCONNECT_CLEAN_SESSION_FLAG_def mqttCONNECT_USER_NAME_FLAG_def
        put_inside_pad get_inside_pad nth_append list_update_append)
qed

section \<open>Sending\<close>

text \<open>The data handed to the send function, newest first.\<close>

fun sent_data :: "obs list \<Rightarrow> u8 list list" where
  "sent_data [] = []"
| "sent_data (OSend d r # tr) = d # sent_data tr"
| "sent_data (ob # tr) = sent_data tr"

lemma sent_data_ticks: "prvGetCurrentTickCount E w = (t, w') \<Longrightarrow> sent_data (w_trace w') = sent_data (w_trace w)"
  by (auto dest!: ticks_frame(5) split: option.splits)

lemma sent_data_send:
  "prvSendData E d n w = (rc, w') \<Longrightarrow> sent_data (w_trace w') = take (unat n) d # sent_data (w_trace w)"
  by (auto simp: prvSendData_def Let_def frame_simps split: if_splits prod.splits dest!: sent_data_ticks)

lemma begin_tx_sent: "sent_data (w_trace (begin_tx E h to w)) = sent_data (w_trace w)"
  by (auto simp: begin_tx_def Let_def frame_simps split: prod.splits dest!: sent_data_ticks)

lemma unat_total_length:
  assumes "unat n < 268435456"
  shows "unat (mqttTOTAL_MESSAGE_LENGTH (prvSizeOfRemainingLength n) n) = 1 + length (varint n) + unat n"
    and "unat (mqttTOTAL_MESSAGE_LENGTH (prvSizeOfRemainingLength n) n + sizeof_MQTTBufferMetadata) =
      1 + length (varint n) + unat n + 32"
proof -
  have s: "unat (prvSizeOfRemainingLength n) = length (varint n)" by (rule size_eq_length_varint [OF assms])
  have l: "length (varint n) \<le> 4" using assms by (simp add: length_varint)
  show t: "unat (mqttTOTAL_MESSAGE_LENGTH (prvSizeOfRemainingLength n) n) = 1 + length (varint n) + unat n"
    using assms l s by (simp add: mqttTOTAL_MESSAGE_LENGTH_def unat_add_u32)
  show "unat (mqttTOTAL_MESSAGE_LENGTH (prvSizeOfRemainingLength n) n + sizeof_MQTTBufferMetadata) =
      1 + length (varint n) + unat n + 32"
    using assms l by (subst unat_add_u32) (simp_all add: t sizeof_MQTTBufferMetadata_def)
qed

context buffer_pool
begin

text \<open>A packet that was made successfully is in its buffer, byte for byte.\<close>

lemma make_packet_bytes:
  assumes "ok F E w" and "make_packet E rl to i build w = (rc, h, w')"
    and "unat rl = length body" and "unat rl < 268435456"
    and "\<And>L f. length (mqtt_packet ctl body) \<le> Suc L \<Longrightarrow>
       build L (replicate (Suc L) 0, f) = (pad (mqtt_packet ctl body) (Suc L), f)"
  shows "w_fault w' = w_fault w" "sent_data (w_trace w') = sent_data (w_trace w)"
    and "rc = eMQTTSuccess \<Longrightarrow> take (unat (mb_ulDataLength (w_bufs w' h))) (mb_data (w_bufs w' h)) = mqtt_packet ctl body \<and>
       unat (mb_ulDataLength (w_bufs w' h)) \<le> length (mb_data (w_bufs w' h)) \<and> mb_usPacketIdentifier (w_bufs w' h) = i"
    and "rc = eMQTTSuccess \<or> rc = eMQTTNoFreeBuffer"
proof -
  let ?tot = "mqttTOTAL_MESSAGE_LENGTH (prvSizeOfRemainingLength rl) rl"
  let ?p = "mqtt_packet ctl body"
  have len: "length ?p = unat ?tot" using packet_of_length [OF assms(3)] assms(3) unat_total_length(1) [OF assms(4)] by simp
  obtain h1 w1 where g: "prvGetFreeBuffer E ?tot w = (h1, w1)" by fastforce
  note gb = get_buffer [OF assms(1) g]
  have pos: "prvSizeOfRemainingLength rl > 0" using assms(4) by (simp add: size_pos_iff)
  have "w_fault w' = w_fault w \<and> sent_data (w_trace w') = sent_data (w_trace w) \<and>
    (rc = eMQTTSuccess \<longrightarrow> take (unat (mb_ulDataLength (w_bufs w' h))) (mb_data (w_bufs w' h)) = ?p \<and>
       unat (mb_ulDataLength (w_bufs w' h)) \<le> length (mb_data (w_bufs w' h)) \<and> mb_usPacketIdentifier (w_bufs w' h) = i) \<and>
    (rc = eMQTTSuccess \<or> rc = eMQTTNoFreeBuffer)"
  proof (cases "h1 = 0")
    case True
    then show ?thesis using assms(2) g pos gb(2,3) by (auto simp: make_packet_def)
  next
    case False
    obtain m where m: "?tot + sizeof_MQTTBufferMetadata \<le> m"
      "w_bufs w1 = (w_bufs w)(h1 := mqttbufferINIT_BUFFER m (w_bufs w h1))"
      using gb(7) [OF False] by blast
    let ?b = "begin_tx E h1 to w1" and ?eff = "m - sizeof_MQTTBufferMetadata"
    have e: "mqttbufferGET_EFFECTIVE_BUFFER_LENGTH (w_bufs w1 h1) = ?eff"
      by (simp add: m(2) mqttbufferINIT_BUFFER_def Let_def mqttbufferGET_EFFECTIVE_BUFFER_LENGTH_def)
    have "unat ?tot + 32 \<le> unat m"
      using m(1) unat_total_length [OF assms(4)] by (simp add: word_le_nat_alt)
    then have eff: "unat ?tot \<le> unat ?eff"
      by (simp add: unat_sub word_le_nat_alt sizeof_MQTTBufferMetadata_def)
    then obtain L where L: "unat ?eff = Suc L" using len by (cases "unat ?eff") (auto simp: mqtt_packet_def)
    have "mqttbufferGET_EFFECTIVE_BUFFER_LENGTH (w_bufs ?b h1) = ?eff"
      using e by (simp add: mqttbufferGET_EFFECTIVE_BUFFER_LENGTH_def begin_tx_frame)
    then have lb: "last_byte h1 ?b = L"
      using L by (simp add: last_byte_def unat_sub word_le_nat_alt)
    have d: "mb_data (w_bufs ?b h1) = replicate (Suc L) 0" using L e by (simp add: begin_tx_frame)
    have pl: "length ?p \<le> Suc L" using len eff L by simp
    have w': "rc = eMQTTSuccess" "h = h1" "w' = finish_tx h1 i ?tot (with_data h1 (build L) ?b)"
      using assms(2) g pos False lb by (auto simp: make_packet_def Let_def)
    have bd: "build L (mb_data (w_bufs ?b h1), w_fault ?b) = (pad ?p (Suc L), w_fault ?b)"
      unfolding d by (rule assms(5) [OF pl])
    have "w_fault w' = w_fault w" "sent_data (w_trace w') = sent_data (w_trace w)"
      using bd gb(2,3) by (simp_all add: w'(3) frame_simps begin_tx_frame begin_tx_sent)
    moreover have b: "mb_ulDataLength (w_bufs w' h1) = ?tot" "mb_data (w_bufs w' h1) = pad ?p (Suc L)"
      "mb_usPacketIdentifier (w_bufs w' h1) = i"
      using bd by (simp_all add: w'(3) frame_simps)
    moreover have "take (unat ?tot) (pad ?p (Suc L)) = ?p" using take_pad [of ?p "Suc L"] len by simp
    ultimately show ?thesis using w'(1,2) pl len by simp
  qed
  then show "w_fault w' = w_fault w" "sent_data (w_trace w') = sent_data (w_trace w)"
    "rc = eMQTTSuccess \<Longrightarrow> take (unat (mb_ulDataLength (w_bufs w' h))) (mb_data (w_bufs w' h)) = mqtt_packet ctl body \<and>
       unat (mb_ulDataLength (w_bufs w' h)) \<le> length (mb_data (w_bufs w' h)) \<and> mb_usPacketIdentifier (w_bufs w' h) = i"
    "rc = eMQTTSuccess \<or> rc = eMQTTNoFreeBuffer" by blast+
qed

lemma packet_sent:
  assumes "ok F E w" and "make_packet E rl to i build w = (rc, h, w1)" and "transmit E rc h w1 = (rc', w2)"
    and "unat rl = length body" and "unat rl < 268435456"
    and "\<And>L f. length (mqtt_packet ctl body) \<le> Suc L \<Longrightarrow>
       build L (replicate (Suc L) 0, f) = (pad (mqtt_packet ctl body) (Suc L), f)"
  shows "w_fault w2 = w_fault w" "rc' = eMQTTSuccess \<or> rc' = eMQTTSendFailed \<or> rc' = eMQTTNoFreeBuffer"
    "sent_data (w_trace w2) = (if rc' = eMQTTNoFreeBuffer then [] else [mqtt_packet ctl body]) @ sent_data (w_trace w)"
proof -
  note mp = make_packet_bytes [where build = build and ctl = ctl, OF assms(1,2,4,5)]
  have m: "w_fault w1 = w_fault w" "sent_data (w_trace w1) = sent_data (w_trace w)"
    "rc = eMQTTSuccess \<or> rc = eMQTTNoFreeBuffer" using assms(6) by (intro mp(1,2,4); blast)+
  have sent: "take (unat (mb_ulDataLength (w_bufs w1 h))) (mb_data (w_bufs w1 h)) = mqtt_packet ctl body"
    "unat (mb_ulDataLength (w_bufs w1 h)) \<le> length (mb_data (w_bufs w1 h))"
    if "rc = eMQTTSuccess" using mp(3) [OF assms(6) that] by blast+
  have "w_fault w2 = w_fault w \<and> (rc' = eMQTTSuccess \<or> rc' = eMQTTSendFailed \<or> rc' = eMQTTNoFreeBuffer) \<and>
    sent_data (w_trace w2) = (if rc' = eMQTTNoFreeBuffer then [] else [mqtt_packet ctl body]) @ sent_data (w_trace w)"
  proof (cases "rc = eMQTTSuccess")
    case True
    then have s: "prvSendData E (mb_data (w_bufs w1 h)) (mb_ulDataLength (w_bufs w1 h)) w1 = (rc', w2)"
      using assms(3) by (simp add: transmit_def)
    show ?thesis
      using send_frame(4,5) [OF s] sent_data_send [OF s] m(1,2) sent [OF True] by auto
  next
    case False
    then show ?thesis using m assms(3) by (auto simp: transmit_def)
  qed
  then show "w_fault w2 = w_fault w" "rc' = eMQTTSuccess \<or> rc' = eMQTTSendFailed \<or> rc' = eMQTTNoFreeBuffer"
    "sent_data (w_trace w2) = (if rc' = eMQTTNoFreeBuffer then [] else [mqtt_packet ctl body]) @ sent_data (w_trace w)"
    by blast+
qed

lemma Publish_bytes:
  assumes "ok F E w" and "publish_params_ok pp" and "xConnectionState (w_ctx w) = eMQTTConnected"
    and "MQTT_Publish E pp w = (rc', w')"
  shows "w_fault w' = w_fault w \<and> rc' \<in> {eMQTTSuccess, eMQTTSendFailed, eMQTTNoFreeBuffer} \<and>
    sent_data (w_trace w') = (if rc' = eMQTTNoFreeBuffer then []
      else [mqtt_packet (publish_control (pp_xQos pp)) (publish_body pp)]) @ sent_data (w_trace w)"
proof -
  obtain rc h w1 where m: "make_packet E (publish_remaining_length pp) (pp_ulTimeoutTicks pp) (pp_usPacketIdentifier pp)
      (build_publish pp) w = (rc, h, w1)" by (metis prod_cases3)
  obtain rc2 w2 where t: "transmit E rc h w1 = (rc2, w2)" by fastforce
  have r: "MQTT_Publish E pp w = (rc2, if rc2 \<noteq> eMQTTSuccess \<or> pp_xQos pp = eMQTTQoS0 then prvReturnBuffer E h w2 else w2)"
    using m t assms(3) by (simp add: MQTT_Publish_def publish_packet_def)
  have l: "unat (publish_remaining_length pp) < 268435456"
    using assms(2) publish_length [OF assms(2)] by (simp add: publish_body_def publish_params_ok_def string_ok_def)
  show ?thesis
    using packet_sent [OF assms(1) m t publish_length [OF assms(2)] l build_publish_ok [OF assms(2)]] assms(4)
    unfolding r by (auto simp: return_frame split: if_splits)
qed

lemma Connect_bytes:
  assumes "ok F E w" and "connect_params_ok cp" and "xConnectionState (w_ctx w) = eMQTTNotConnected"
    and "MQTT_Connect E cp w = (rc', w')"
  shows "w_fault w' = w_fault w \<and> rc' \<in> {eMQTTSuccess, eMQTTSendFailed, eMQTTNoFreeBuffer} \<and>
    sent_data (w_trace w') = (if rc' = eMQTTNoFreeBuffer then [] else [mqtt_packet 0x10 (connect_body cp)]) @ sent_data (w_trace w)"
proof -
  let ?w = "upd_ctx (\<lambda>c. c\<lparr>ulKeepAliveActualIntervalTicks := cp_ulKeepAliveActualIntervalTicks cp,
      ulPingRequestTimeoutTicks := cp_ulPingRequestTimeoutTicks cp\<rparr>) w"
  have o: "ok F E ?w" by (rule ok_upd_ctx [OF assms(1)]) simp_all
  obtain rc h w1 where m: "make_packet E (connect_remaining_length cp) (cp_ulTimeoutTicks cp) (cp_usPacketIdentifier cp)
      (build_connect cp) ?w = (rc, h, w1)" by (metis prod_cases3)
  obtain rc2 w2 where t: "transmit E rc h w1 = (rc2, w2)" by fastforce
  have r: "MQTT_Connect E cp w = (rc2, if rc2 \<noteq> eMQTTSuccess then prvReturnBuffer E h w2
      else upd_ctx (\<lambda>c. c\<lparr>xConnectionState := eMQTTConnectionInProgress\<rparr>) w2)"
    using m t assms(3) by (simp add: MQTT_Connect_def connect_packet_def)
  have l: "unat (connect_remaining_length cp) < 268435456"
    using assms(2) connect_length [OF assms(2)] by (simp add: connect_body_def connect_params_ok_def string_ok_def)
  show ?thesis
    using packet_sent [OF o m t connect_length [OF assms(2)] l build_connect_ok [OF assms(2)]] assms(4)
    unfolding r by (auto simp: return_frame frame_simps)
qed

lemma Unsubscribe_bytes:
  assumes "ok F E w" and "unsubscribe_params_ok up" and "xConnectionState (w_ctx w) = eMQTTConnected"
    and "MQTT_Unsubscribe E up w = (rc', w')"
  shows "w_fault w' = w_fault w \<and> rc' \<in> {eMQTTSuccess, eMQTTSendFailed, eMQTTNoFreeBuffer} \<and>
    sent_data (w_trace w') = (if rc' = eMQTTNoFreeBuffer then [] else [mqtt_packet 0xA2 (unsubscribe_body up)]) @ sent_data (w_trace w)"
proof -
  obtain rc h w1 where m: "make_packet E (unsubscribe_remaining_length up) (up_ulTimeoutTicks up) (up_usPacketIdentifier up)
      (build_unsubscribe up) w = (rc, h, w1)" by (metis prod_cases3)
  obtain rc2 w2 where t: "transmit E rc h w1 = (rc2, w2)" by fastforce
  have r: "MQTT_Unsubscribe E up w = (rc2, if rc2 \<noteq> eMQTTSuccess then prvReturnBuffer E h w2 else w2)"
    using m t assms(3) by (simp add: MQTT_Unsubscribe_def unsubscribe_packet_def)
  have l: "unat (unsubscribe_remaining_length up) < 268435456"
    using assms(2) unsubscribe_length [OF assms(2)] by (simp add: unsubscribe_body_def unsubscribe_params_ok_def string_ok_def)
  show ?thesis
    using packet_sent [OF assms(1) m t unsubscribe_length [OF assms(2)] l build_unsubscribe_ok [OF assms(2)]] assms(4)
    unfolding r by (auto simp: return_frame)
qed

lemma Subscribe_bytes:
  assumes "ok F E w" and "subscribe_params_ok sp" and "xConnectionState (w_ctx w) = eMQTTConnected"
    and "MQTT_Subscribe E sp w = (rc', w')"
    and s: "fst (prvStoreSubscription (xSubscriptionManager (w_ctx w)) (sp_pucTopic sp) (sp_usTopicLength sp)
       (sp_pvPublishCallbackContext sp) (sp_pxPublishCallback sp))"
  shows "w_fault w' = w_fault w \<and> rc' \<in> {eMQTTSuccess, eMQTTSendFailed, eMQTTNoFreeBuffer} \<and>
    sent_data (w_trace w') = (if rc' = eMQTTNoFreeBuffer then [] else [mqtt_packet 0x82 (subscribe_body sp)]) @ sent_data (w_trace w)"
proof -
  obtain mg where st: "prvStoreSubscription (xSubscriptionManager (w_ctx w)) (sp_pucTopic sp) (sp_usTopicLength sp)
       (sp_pvPublishCallbackContext sp) (sp_pxPublishCallback sp) = (True, mg)" using s by (metis prod.collapse)
  let ?w = "upd_ctx (\<lambda>c. c\<lparr>xSubscriptionManager := mg\<rparr>) w"
  have o: "ok F E ?w" by (rule ok_upd_ctx [OF assms(1)]) simp_all
  obtain rc h w1 where m: "make_packet E (subscribe_remaining_length sp) (sp_ulTimeoutTicks sp) (sp_usPacketIdentifier sp)
      (build_subscribe sp) ?w = (rc, h, w1)" by (metis prod_cases3)
  obtain rc2 w2 where t: "transmit E rc h w1 = (rc2, w2)" by fastforce
  have l: "unat (subscribe_remaining_length sp) < 268435456"
    using assms(2) subscribe_length [OF assms(2)] by (simp add: subscribe_body_def subscribe_params_ok_def string_ok_def)
  note ps = packet_sent [OF o m t subscribe_length [OF assms(2)] l build_subscribe_ok [OF assms(2)]]
  have "rc' = rc2 \<and> w_fault w' = w_fault w2 \<and> w_trace w' = w_trace w2"
    using assms(4) m t assms(3) st
    by (auto simp: MQTT_Subscribe_def subscribe_packet_def Let_def return_frame frame_simps split: if_splits)
  then show ?thesis using ps by (auto simp: frame_simps)
qed

end

section \<open>Properties\<close>

text \<open>
  C10. \<open>MQTT_Connect\<close> sends the right bytes: from the disconnected state it hands exactly
  one packet to the send function, the CONNECT packet of MQTT 3.1.1 with a clean
  session, the keep-alive interval, the client identifier and, if there is one, the user
  name, and never writes outside its buffer.
\<close>

theorem connect_sends_packet:
  assumes "firmware_state E w F" and "connect_params_ok cp" and "xConnectionState (w_ctx w) = eMQTTNotConnected"
    and "MQTT_Connect E cp w = (rc, w')"
  shows "w_fault w' = w_fault w \<and> rc \<in> {eMQTTSuccess, eMQTTSendFailed, eMQTTNoFreeBuffer} \<and>
    sent_data (w_trace w') = (if rc = eMQTTNoFreeBuffer then [] else [mqtt_packet 0x10 (connect_body cp)]) @ sent_data (w_trace w)"
  by (rule bpool.Connect_bytes [OF firmware_ok(1) [OF assms(1)] assms(2-4)])

theorem connect_sends_packet_witness:
  "sent_data (w_trace example_connecting) \<in> {[], [[0x10, 16, 0, 4, 77, 81, 84, 84, 4, 2, 4, 176, 0, 4, 116, 105, 118, 97]]}"
proof -
  have c: "xConnectionState (w_ctx example_start) = eMQTTNotConnected" "sent_data (w_trace example_start) = []"
    by (simp_all add: example_start_def MQTT_Init_def Let_def frame_simps prvResetRxMessageState_def example_world_def)
  have b: "mqtt_packet 0x10 (connect_body example_connect) =
      [0x10, 16, 0, 4, 77, 81, 84, 84, 4, 2, 4, 176, 0, 4, 116, 105, 118, 97]"
    by code_simp
  show ?thesis
    using connect_sends_packet [OF example_start_state example_connect_ok c(1) prod.collapse [symmetric]] c(2)
    by (auto simp: example_connecting_def b)
qed

end
