(* ===== verification/MqttConn.thy ===== *)
theory MqttConn
  imports MqttPackets
begin

text \<open>
  The connection. The packets waiting for an acknowledgment determine what the library
  expects from the broker: none while there is no connection, exactly the CONNECT packet
  while it is being established, and only SUBSCRIBE, UNSUBSCRIBE and QoS 1 PUBLISH packets
  afterwards. Every operation keeps this, and each buffer holds the complete packet as it
  was sent.
\<close>

section \<open>Packets waiting for an acknowledgment\<close>

definition entry :: "'p world \<Rightarrow> addr \<Rightarrow> u8 list \<times> u16" where
  "entry w h = (mb_data (w_bufs w h), mb_usPacketIdentifier (w_bufs w h))"

definition entry_holds :: "u8 list \<times> u16 \<Rightarrow> u8 list \<Rightarrow> u16 \<Rightarrow> bool" where
  "entry_holds e p i \<longleftrightarrow> take (length p) (fst e) = p \<and> snd e = i"

definition connect_entry :: "u8 list \<times> u16 \<Rightarrow> bool" where
  "connect_entry e \<longleftrightarrow> (\<exists>cp. connect_params_ok cp \<and>
     entry_holds e (mqtt_packet 0x10 (connect_body cp)) (cp_usPacketIdentifier cp))"

definition subscribe_entry :: "u8 list \<times> u16 \<Rightarrow> bool" where
  "subscribe_entry e \<longleftrightarrow> (\<exists>sp. subscribe_params_ok sp \<and>
     entry_holds e (mqtt_packet 0x82 (subscribe_body sp)) (sp_usPacketIdentifier sp))"

definition unsubscribe_entry :: "u8 list \<times> u16 \<Rightarrow> bool" where
  "unsubscribe_entry e \<longleftrightarrow> (\<exists>up. unsubscribe_params_ok up \<and>
     entry_holds e (mqtt_packet 0xA2 (unsubscribe_body up)) (up_usPacketIdentifier up))"

definition publish_entry :: "u8 list \<times> u16 \<Rightarrow> bool" where
  "publish_entry e \<longleftrightarrow> (\<exists>pp. publish_params_ok pp \<and> pp_xQos pp = eMQTTQoS1 \<and>
     entry_holds e (mqtt_packet 0x32 (publish_body pp)) (pp_usPacketIdentifier pp))"

definition request_entry :: "u8 list \<times> u16 \<Rightarrow> bool" where
  "request_entry e \<longleftrightarrow> subscribe_entry e \<or> unsubscribe_entry e \<or> publish_entry e"

definition conn_inv :: "'p world \<Rightarrow> bool" where
  "conn_inv w \<longleftrightarrow> (case xConnectionState (w_ctx w) of
     eMQTTNotConnected \<Rightarrow> xTxBufferList (w_ctx w) = []
   | eMQTTConnectionInProgress \<Rightarrow> (\<exists>h. xTxBufferList (w_ctx w) = [h] \<and> connect_entry (entry w h))
   | eMQTTConnected \<Rightarrow> (\<forall>h\<in>set (xTxBufferList (w_ctx w)). request_entry (entry w h)))"

subsection \<open>Control bytes\<close>

lemma holds_control: "entry_holds (entry w h) (mqtt_packet c b) i \<Longrightarrow> control_byte (w_bufs w h) = c"
  by (cases "mb_data (w_bufs w h)") (auto simp: entry_holds_def entry_def mqtt_packet_def control_byte_def)

lemma entry_control:
  "connect_entry (entry w h) \<Longrightarrow> control_byte (w_bufs w h) = 0x10"
  "subscribe_entry (entry w h) \<Longrightarrow> control_byte (w_bufs w h) = 0x82"
  "unsubscribe_entry (entry w h) \<Longrightarrow> control_byte (w_bufs w h) = 0xA2"
  "publish_entry (entry w h) \<Longrightarrow> control_byte (w_bufs w h) = 0x32"
  by (auto simp: connect_entry_def subscribe_entry_def unsubscribe_entry_def publish_entry_def dest: holds_control)

lemma request_control: "request_entry (entry w h) \<Longrightarrow> control_byte (w_bufs w h) \<in> {0x82, 0xA2, 0x32}"
  by (auto simp: request_entry_def dest: entry_control)

subsection \<open>Searching\<close>

lemma conn_tx_cases:
  assumes "conn_inv w" and "h \<in> set (xTxBufferList (w_ctx w))"
  obtains (connect) "xConnectionState (w_ctx w) = eMQTTConnectionInProgress" "xTxBufferList (w_ctx w) = [h]" "connect_entry (entry w h)"
    | (request) "xConnectionState (w_ctx w) = eMQTTConnected" "request_entry (entry w h)"
  using assms by (cases "xConnectionState (w_ctx w)") (auto simp: conn_inv_def)

lemma search_connect:
  assumes "conn_inv w" and "prvPacketTypeFlagsGetTxBuffer w mqttCONTROL_CONNECT mqttFLAGS_CONNECT = h" and "h \<noteq> 0"
  shows "xConnectionState (w_ctx w) = eMQTTConnectionInProgress \<and> xTxBufferList (w_ctx w) = [h] \<and> connect_entry (entry w h)"
proof -
  have f: "h \<in> set (xTxBufferList (w_ctx w))" "control_byte (w_bufs w h) AND 0xF0 = 0x10"
    using first_buffer_found [OF _ assms(3)] assms(2) by (auto simp: tx_search_defs mqtt_control_defs)
  from assms(1) f(1) show ?thesis
    by (cases rule: conn_tx_cases) (use f(2) in \<open>auto dest: request_control\<close>)
qed

lemma search_subscribe:
  assumes "conn_inv w" and "prvPacketTypeFlagsIdentifierGetTxBuffer w mqttCONTROL_SUBSCRIBE mqttFLAGS_SUBSCRIBE i = h" and "h \<noteq> 0"
  shows "xConnectionState (w_ctx w) = eMQTTConnected \<and> h \<in> set (xTxBufferList (w_ctx w)) \<and> subscribe_entry (entry w h) \<and>
    mb_usPacketIdentifier (w_bufs w h) = i"
proof -
  have f: "h \<in> set (xTxBufferList (w_ctx w))" "control_byte (w_bufs w h) AND 0xF0 = 0x80" "mb_usPacketIdentifier (w_bufs w h) = i"
    using first_buffer_found [OF _ assms(3)] assms(2) by (auto simp: tx_search_defs mqtt_control_defs)
  from assms(1) f(1) show ?thesis
    by (cases rule: conn_tx_cases) (use f in \<open>auto simp: request_entry_def dest: entry_control\<close>)
qed

lemma search_unsubscribe:
  assumes "conn_inv w" and "prvPacketTypeFlagsIdentifierGetTxBuffer w mqttCONTROL_UNSUBSCRIBE mqttFLAGS_UNSUBSCRIBE i = h" and "h \<noteq> 0"
  shows "xConnectionState (w_ctx w) = eMQTTConnected \<and> h \<in> set (xTxBufferList (w_ctx w)) \<and> unsubscribe_entry (entry w h) \<and>
    mb_usPacketIdentifier (w_bufs w h) = i"
proof -
  have f: "h \<in> set (xTxBufferList (w_ctx w))" "control_byte (w_bufs w h) AND 0xF0 = 0xA0" "mb_usPacketIdentifier (w_bufs w h) = i"
    using first_buffer_found [OF _ assms(3)] assms(2) by (auto simp: tx_search_defs mqtt_control_defs)
  from assms(1) f(1) show ?thesis
    by (cases rule: conn_tx_cases) (use f in \<open>auto simp: request_entry_def dest: entry_control\<close>)
qed

lemma search_publish:
  assumes "conn_inv w" and "prvPacketTypeIdentifierGetTxBuffer w mqttCONTROL_PUBLISH i = h" and "h \<noteq> 0"
  shows "xConnectionState (w_ctx w) = eMQTTConnected \<and> h \<in> set (xTxBufferList (w_ctx w)) \<and> publish_entry (entry w h) \<and>
    mb_usPacketIdentifier (w_bufs w h) = i"
proof -
  have f: "h \<in> set (xTxBufferList (w_ctx w))" "control_byte (w_bufs w h) AND 0xF0 = 0x30" "mb_usPacketIdentifier (w_bufs w h) = i"
    using first_buffer_found [OF _ assms(3)] assms(2) by (auto simp: tx_search_defs mqtt_control_defs)
  from assms(1) f(1) show ?thesis
    by (cases rule: conn_tx_cases) (use f in \<open>auto simp: request_entry_def dest: entry_control\<close>)
qed

section \<open>Preservation\<close>

text \<open>The connection state, the list of waiting packets and their contents are as before.\<close>

definition tx_keep :: "'p world \<Rightarrow> 'p world \<Rightarrow> bool" where
  "tx_keep w w' \<longleftrightarrow> xConnectionState (w_ctx w') = xConnectionState (w_ctx w) \<and>
     xTxBufferList (w_ctx w') = xTxBufferList (w_ctx w) \<and>
     (\<forall>h\<in>set (xTxBufferList (w_ctx w)). entry w' h = entry w h)"

lemma tx_keep_refl [simp]: "tx_keep w w"
  by (simp add: tx_keep_def)

lemma tx_keep_trans: "tx_keep w w' \<Longrightarrow> tx_keep w' w'' \<Longrightarrow> tx_keep w w''"
  by (simp add: tx_keep_def)

lemma conn_keep: "conn_inv w \<Longrightarrow> tx_keep w w' \<Longrightarrow> conn_inv w'"
  by (cases "xConnectionState (w_ctx w)") (auto simp: conn_inv_def tx_keep_def)

lemma conn_shrink:
  "conn_inv w \<Longrightarrow> xConnectionState (w_ctx w) = eMQTTConnected \<Longrightarrow> xConnectionState (w_ctx w') = eMQTTConnected \<Longrightarrow>
     set (xTxBufferList (w_ctx w')) \<subseteq> set (xTxBufferList (w_ctx w)) \<Longrightarrow>
     (\<And>h. h \<in> set (xTxBufferList (w_ctx w')) \<Longrightarrow> entry w' h = entry w h) \<Longrightarrow> conn_inv w'"
  by (auto simp: conn_inv_def)

lemma conn_empty:
  "xTxBufferList (w_ctx w) = [] \<Longrightarrow> xConnectionState (w_ctx w) \<noteq> eMQTTConnectionInProgress \<Longrightarrow> conn_inv w"
  by (cases "xConnectionState (w_ctx w)") (auto simp: conn_inv_def)

lemma tx_keep_same:
  "w_bufs w' = w_bufs w \<Longrightarrow> xTxBufferList (w_ctx w') = xTxBufferList (w_ctx w) \<Longrightarrow>
     xConnectionState (w_ctx w') = xConnectionState (w_ctx w) \<Longrightarrow> tx_keep w w'"
  by (simp add: tx_keep_def entry_def)

lemma tx_keep_frame [simp]:
  "tx_keep w (chk b w)" "tx_keep w (observe ob w)" "tx_keep w (snd (prvInvokeCallback E ev w))"
  "tx_keep w (prvResetRxMessageState w)" "tx_keep w (upd_rx_state f w)" "tx_keep w (copy_header_byte x w)"
  "tx_keep w (prvRemoveSubscriptionForSubscribeOrUnsubscribeBuffer h w)" "tx_keep w (w\<lparr>w_pool := p\<rparr>)"
  by (simp_all add: tx_keep_same frame_simps prvResetRxMessageState_def reset_rx_def)

lemma conn_keep_iff: "tx_keep w w' \<Longrightarrow> conn_inv w' = conn_inv w"
  using conn_keep [of w w'] conn_keep [of w' w] by (auto simp: tx_keep_def)

lemmas conn_frame [simp] = tx_keep_frame [THEN conn_keep_iff]

lemma tx_keep_send: "prvSendData E d n w = (rc, w') \<Longrightarrow> tx_keep w w'"
  by (simp add: tx_keep_same send_frame(3) send_fields)

lemma tx_keep_ticks: "prvGetCurrentTickCount E w = (t, w') \<Longrightarrow> tx_keep w w'"
  by (simp add: tx_keep_same ticks_frame)

lemma tx_keep_return:
  "h \<notin> set (xTxBufferList (w_ctx w)) \<Longrightarrow> tx_keep w (prvReturnBuffer E h w)"
  by (auto simp: tx_keep_def return_frame entry_def remove1_idem)

lemma tx_keep_upd_buf:
  "(\<forall>b. mb_data (f b) = mb_data b \<and> mb_usPacketIdentifier (f b) = mb_usPacketIdentifier b) \<or> h \<notin> set (xTxBufferList (w_ctx w)) \<Longrightarrow>
     tx_keep w (upd_buf h f w)"
  by (auto simp: tx_keep_def frame_simps entry_def)

text \<open>A packet is acknowledged or given up.\<close>

lemma conn_return_request:
  assumes "conn_inv w" and "xConnectionState (w_ctx w) = eMQTTConnected" and "distinct (xTxBufferList (w_ctx w))"
  shows "conn_inv (prvReturnBuffer E h w)"
proof (rule conn_shrink [OF assms(1,2)])
  show "set (xTxBufferList (w_ctx (prvReturnBuffer E h w))) \<subseteq> set (xTxBufferList (w_ctx w))"
    using set_remove1_subset [of h "xTxBufferList (w_ctx w)"] by (auto simp: return_frame)
  show "g \<in> set (xTxBufferList (w_ctx (prvReturnBuffer E h w))) \<Longrightarrow> entry (prvReturnBuffer E h w) g = entry w g" for g
    using assms(3) by (auto simp: return_frame entry_def split: if_splits)
qed (simp add: return_frame assms(2))


text \<open>Handlers of received packets. \<open>conn_ok\<close> collects what the buffers satisfy.\<close>

context buffer_pool
begin

lemma ok_distinct:
  "ok F E w \<Longrightarrow> distinct (xTxBufferList (w_ctx w))"
  "ok F E w \<Longrightarrow> xRxBuffer (w_ctx w) \<notin> set (xTxBufferList (w_ctx w))"
  "ok F E w \<Longrightarrow> 0 \<notin> set (xTxBufferList (w_ctx w))"
  by (auto simp: pool_ok_def lib_bufs_def rx_list_def split: if_splits)

lemma tx_keep_return_rx: "ok F E w \<Longrightarrow> tx_keep w (return_rx E w)"
  by (simp add: return_rx_def tx_keep_return ok_distinct(2))

lemma conn_reset: "ok F E w \<Longrightarrow> conn_inv (prvResetMQTTContext E w)"
  by (rule conn_empty) (simp_all add: ok_reset(2) reset_rx_fields)

lemma conn_disconnect: "ok F E w \<Longrightarrow> conn_inv (disconnect_with E r w)"
  by (rule conn_empty) (simp_all add: ok_disconnect_with(2) disconnect_fields)

lemma conn_finish_ack: "ok F E w \<Longrightarrow> conn_inv w \<Longrightarrow> conn_inv (finish_ack E (m, w))"
proof (cases m)
  case True
  assume "ok F E w"
  then show ?thesis
    using True conn_keep [OF conn_disconnect tx_keep_return_rx [OF ok_disconnect_with(1)]] by (simp add: finish_ack_def)
next
  case False
  assume "ok F E w" "conn_inv w"
  then show ?thesis using False conn_keep [OF _ tx_keep_return_rx] by (simp add: finish_ack_def)
qed

lemma conn_PUBACK:
  assumes "ok F E w" and "conn_inv w"
  shows "conn_inv (prvProcessReceivedPUBACK E w)"
proof -
  have r: "conn_inv (prvReturnBuffer E h (snd (prvInvokeCallback E (eMQTTPubACK i) (chk b w))))"
    if "prvPacketTypeIdentifierGetTxBuffer w mqttCONTROL_PUBLISH i = h" "h \<noteq> 0" for h i b
    using search_publish [OF assms(2) that] assms(2) ok_distinct(1) [OF assms(1)]
    by (intro conn_return_request) (auto simp: frame_simps)
  show ?thesis
    unfolding prvProcessReceivedPUBACK_def Let_def
    using assms r
    by (auto simp: frame_simps intro!: conn_finish_ack ok_event ok_chk ok_event_return tx_search_in)
qed

lemma conn_UNSUBACK:
  assumes "ok F E w" and "conn_inv w"
  shows "conn_inv (prvProcessReceivedUNSUBACK E w)"
proof -
  have r: "conn_inv (prvReturnBuffer E h (prvRemoveSubscriptionForSubscribeOrUnsubscribeBuffer h
      (snd (prvInvokeCallback E (eMQTTUnSubACK i) (chk b w)))))"
    if "prvPacketTypeFlagsIdentifierGetTxBuffer w mqttCONTROL_UNSUBSCRIBE mqttFLAGS_UNSUBSCRIBE i = h" "h \<noteq> 0" for h i b
    using search_unsubscribe [OF assms(2) that] assms(2) ok_distinct(1) [OF assms(1)]
    by (intro conn_return_request) (auto simp: frame_simps)
  show ?thesis
    unfolding prvProcessReceivedUNSUBACK_def Let_def
    using assms r
    by (auto simp: frame_simps intro!: conn_finish_ack ok_event ok_chk ok_return_tx ok_remove_for_buffer tx_search_in)
qed

lemma conn_SUBACK:
  assumes "ok F E w" and "conn_inv w"
  shows "conn_inv (prvProcessReceivedSUBACK E w)"
proof -
  have r: "conn_inv (prvReturnBuffer E h (prvRemoveSubscriptionForSubscribeOrUnsubscribeBuffer h
      (snd (prvInvokeCallback E (eMQTTSubACK c i) (chk b w)))))"
    "conn_inv (prvReturnBuffer E h (snd (prvInvokeCallback E (eMQTTSubACK c i) (chk b w))))"
    if "prvPacketTypeFlagsIdentifierGetTxBuffer w mqttCONTROL_SUBSCRIBE mqttFLAGS_SUBSCRIBE i = h" "h \<noteq> 0" for h i b c
    using search_subscribe [OF assms(2) that] assms(2) ok_distinct(1) [OF assms(1)]
    by (intro conn_return_request; auto simp: frame_simps)+
  show ?thesis
    unfolding prvProcessReceivedSUBACK_def Let_def
    using assms r
    by (auto simp: frame_simps intro!: conn_finish_ack ok_event ok_chk ok_return_tx ok_remove_for_buffer tx_search_in)
qed

lemma connack_examine_keep: "connack_examine E h w = (oc, w') \<Longrightarrow> tx_keep w w'"
proof -
  have "tx_keep w (snd (connack_examine E h w))"
    unfolding connack_examine_def Let_def by (auto simp: frame_simps intro: tx_keep_same)
  then show "connack_examine E h w = (oc, w') \<Longrightarrow> tx_keep w w'" by simp
qed

lemma conn_CONNACK:
  assumes "ok F E w" and "conn_inv w"
  shows "conn_inv (prvProcessReceivedCONNACK E w)"
proof -
  let ?h = "prvPacketTypeFlagsGetTxBuffer w mqttCONTROL_CONNECT mqttFLAGS_CONNECT"
  have ret: "conn_inv (return_rx E w')" if "ok F E w'" "conn_inv w'" for w'
    using conn_keep [OF that(2) tx_keep_return_rx [OF that(1)]] .
  show ?thesis
  proof (cases "?h = 0")
    case True
    then show ?thesis
      using assms by (auto simp: prvProcessReceivedCONNACK_def intro!: ret ok_event)
  next
    case False
    obtain oc w1 where e: "connack_examine E ?h w = (oc, w1)" by fastforce
    have k: "tx_keep w w1" and o1: "ok F E w1" using connack_examine_keep [OF e] ok_connack_examine [OF assms(1) e] by auto
    have tx: "xTxBufferList (w_ctx w1) = [?h]" using k search_connect [OF assms(2) refl False] by (simp add: tx_keep_def)
    let ?w2 = "prvReturnBuffer E ?h w1"
    have o2: "ok F E ?w2" and tx2: "xTxBufferList (w_ctx ?w2) = []"
      using ok_return_tx [OF o1] tx False by (simp_all add: return_frame)
    let ?w3 = "upd_ctx (\<lambda>c. c\<lparr>xConnectionState := eMQTTConnected\<rparr>) ?w2"
    obtain t w4 where t: "prvGetCurrentTickCount E ?w3 = (t, w4)" by fastforce
    let ?w5 = "upd_ctx (\<lambda>c. c\<lparr>xLastSentMessageTimestamp := t, ulNextPeriodicInvokeTicks := ulKeepAliveActualIntervalTicks c,
         xWaitingForPingResp := False\<rparr>) w4"
    have "ok F E ?w3" by (rule ok_upd_ctx [OF o2]) simp_all
    then have "ok F E w4" by (rule ok_ticks [OF t])
    then have "ok F E ?w5" by (rule ok_upd_ctx) simp_all
    moreover have "conn_inv ?w5"
      using tx2 ticks_frame(1) [OF t] by (intro conn_empty) (simp_all add: frame_simps)
    moreover have "conn_inv (disconnect_with E r ?w2)" "ok F E (disconnect_with E r ?w2)" for r
      using conn_disconnect [OF o2] ok_disconnect_with(1) [OF o2] by auto
    moreover have "oc \<noteq> ConnNone" using e by (auto simp: connack_examine_def Let_def split: if_splits)
    ultimately show ?thesis
      using e t False by (cases oc) (auto simp: prvProcessReceivedCONNACK_def intro!: ret)
  qed
qed

lemma conn_PublishReceived:
  assumes "ok F E w" and "conn_inv w" and "xRxBuffer (w_ctx w) \<noteq> 0"
  shows "conn_inv (prvProcessReceivedPublish E w)"
proof -
  have deliver: "conn_inv (case prvInvokeCallback E (eMQTTPublish pd) w1 of (taken, w) \<Rightarrow>
      if \<not> taken then return_rx E w else w)"
    if k: "tx_keep w w1" and r: "xRxBuffer (w_ctx w1) = xRxBuffer (w_ctx w)" for w1 pd
  proof (cases "prvInvokeCallback E (eMQTTPublish pd) w1")
    case (Pair taken w2)
    have "tx_keep w w2" "xRxBuffer (w_ctx w2) = xRxBuffer (w_ctx w)"
      using tx_keep_trans [OF k tx_keep_frame(3) [of w1 E "eMQTTPublish pd"]] invoke_publish(1) [OF Pair] r Pair by auto
    moreover have "xRxBuffer (w_ctx w) \<notin> set (xTxBufferList (w_ctx w2))"
      using ok_distinct(2) [OF assms(1)] \<open>tx_keep w w2\<close> by (simp add: tx_keep_def)
    ultimately show ?thesis
      using Pair conn_keep [OF assms(2)] tx_keep_return [of _ w2 E] by (auto simp: return_rx_def intro: tx_keep_trans)
  qed
  have puback: "tx_keep w (send_puback E pd (chk b w))" "xRxBuffer (w_ctx (send_puback E pd (chk b w))) = xRxBuffer (w_ctx w)" for pd b
  proof -
    obtain rc d n b' where s: "prvSendData E d n (chk b' (chk b w)) = (rc, send_puback E pd (chk b w))"
      unfolding send_puback_def Let_def by (metis prod.collapse)
    show "tx_keep w (send_puback E pd (chk b w))" "xRxBuffer (w_ctx (send_puback E pd (chk b w))) = xRxBuffer (w_ctx w)"
      using tx_keep_trans [OF tx_keep_frame(1) tx_keep_trans [OF tx_keep_frame(1) tx_keep_send [OF s]]] send_fields(2) [OF s]
      by (simp_all add: frame_simps)
  qed
  show ?thesis
    unfolding prvProcessReceivedPublish_def Let_def
    using puback conn_disconnect [OF assms(1)] by (auto simp: frame_simps intro!: deliver)
qed

lemma conn_MQTTPacket:
  assumes "ok F E w" and "conn_inv w" and "xRxBuffer (w_ctx w) \<noteq> 0"
  shows "conn_inv (prvProcessReceivedMQTTPacket E w)"
  unfolding prvProcessReceivedMQTTPacket_def Let_def
  using conn_PublishReceived [OF assms] conn_CONNACK [OF assms(1,2)] conn_PUBACK [OF assms(1,2)] conn_SUBACK [OF assms(1,2)]
    conn_UNSUBACK [OF assms(1,2)] conn_disconnect [OF assms(1)] by simp

lemma conn_PINGRESP:
  assumes "ok F E w" and "conn_inv w"
  shows "conn_inv (prvProcessReceivedPINGRESP E w)"
proof -
  let ?w = "upd_ctx (\<lambda>c. c\<lparr>xWaitingForPingResp := False\<rparr>) w"
  obtain t w2 where t: "prvGetCurrentTickCount E ?w = (t, w2)" by fastforce
  have "conn_inv (upd_ctx (\<lambda>c. c\<lparr>xLastSentMessageTimestamp := t, ulNextPeriodicInvokeTicks := ulKeepAliveActualIntervalTicks c\<rparr>) w2)"
    using ticks_frame(1,3) [OF t] by (intro conn_keep [OF assms(2)] tx_keep_same) (simp_all add: frame_simps)
  then show ?thesis
    using assms conn_disconnect [OF assms(1)] unfolding prvProcessReceivedPINGRESP_def Let_def t by simp
qed

lemma conn_header_complete:
  assumes "ok F E w" and "xRxBuffer (w_ctx w) = 0" and "conn_inv w"
  shows "conn_inv (header_complete E w)"
proof -
  obtain n tot where d: "rx_decode (w_ctx w) = (n, tot)" by fastforce
  define w1 where "w1 = upd_rx_state (\<lambda>s. s\<lparr>ucRemaingingLengthFieldBytes := n, ulTotalMessageLength := tot\<rparr>) w"
  have o1: "ok F E w1" "xRxBuffer (w_ctx w1) = 0" "conn_inv w1"
    using assms by (simp_all add: w1_def ok_upd_rx_state frame_simps)
  obtain h w2 where g: "prvGetFreeBuffer E tot w1 = (h, w2)" by fastforce
  note gb = get_buffer [OF o1(1) g]
  let ?w3 = "upd_ctx (\<lambda>c. c\<lparr>xRxBuffer := h\<rparr>) w2"
  have z: "header_complete E w = (if tot = ulRxMessageReceivedLength (w_ctx w1)
      then prvResetRxMessageState (prvProcessReceivedFixedHeaderOnlyMQTTPacket E w1)
      else if h \<noteq> 0 then start_store h ?w3 else start_drop E ?w3)"
    unfolding header_complete_def d Let_def prod.case w1_def [symmetric] g by (rule refl)
  have "tx_keep w1 (start_store h ?w3)" if "h \<noteq> 0"
    using fresh_not_lib [OF o1(1) g that] gb(7) [OF that]
    by (auto simp: tx_keep_def start_store_def Let_def frame_simps gb(1) entry_def lib_bufs_def)
  moreover have "tx_keep w1 (start_drop E ?w3)" if "h = 0"
    using gb(5) [OF that] that
    by (simp add: tx_keep_def start_drop_def Let_def frame_simps return_rx_def prvReturnBuffer_def gb(1) entry_def)
  moreover have "conn_inv (prvProcessReceivedFixedHeaderOnlyMQTTPacket E w1)"
    using conn_PINGRESP [OF o1(1,3)] conn_disconnect [OF o1(1)]
    by (simp add: prvProcessReceivedFixedHeaderOnlyMQTTPacket_def)
  ultimately show ?thesis unfolding z using conn_keep [OF o1(3)] by simp
qed

lemma tx_keep_copy_to_rx: "ok F E w \<Longrightarrow> tx_keep w (copy_to_rx bs w)"
  using ok_distinct(2) [of F E w] by (auto simp: tx_keep_def copy_to_rx_def Let_def frame_simps entry_def)

lemma conn_parse_step:
  assumes "ok F E w" and "rx_hold (w_ctx w)" and "conn_inv w" and "parse_step E rest w = (r, rest', w')"
  shows "conn_inv w'"
proof (cases "xConnectionState (w_ctx w) = eMQTTNotConnected")
  case True
  then show ?thesis using assms by (simp add: parse_step_def)
next
  case conn: False
  show ?thesis
  proof (cases "xRxNextByte (xRxMessageState (w_ctx w))")
    case eMQTTRxNextBytePacketType
    then show ?thesis using assms conn by (auto simp: parse_step_def parse_packet_type_def)
  next
    case eMQTTRxNextBytePacketLength
    let ?w = "copy_header_byte (hd rest) w"
    have o: "ok F E ?w" "xRxBuffer (w_ctx ?w) = 0" "conn_inv ?w"
      using assms(1-3) eMQTTRxNextBytePacketLength by (simp_all add: ok_copy_header_byte rx_hold_def frame_simps)
    show ?thesis
      using assms(4) conn eMQTTRxNextBytePacketLength conn_header_complete [OF o] o(3) conn_disconnect [OF o(1)]
      by (auto simp: parse_step_def parse_packet_length_def Let_def split: if_splits)
  next
    case m: eMQTTRxNextByteMessage
    show ?thesis
    proof (cases "xRxMessageAction (xRxMessageState (w_ctx w))")
      case eMQTTRxMessageStore
      then have rx: "xRxBuffer (w_ctx w) \<noteq> 0" using assms(2) m by (simp add: rx_hold_def)
      have c: "conn_inv (copy_to_rx bs w)" for bs using conn_keep [OF assms(3) tx_keep_copy_to_rx [OF assms(1)]] .
      show ?thesis
        using assms(4) conn m eMQTTRxMessageStore c conn_MQTTPacket [OF ok_copy_to_rx [OF assms(1)] c] rx
        by (auto simp: parse_step_def parse_store_def Let_def frame_simps split: if_splits)
    next
      case eMQTTRxMessageDrop
      have "tx_keep w (upd_ctx (\<lambda>c. c\<lparr>ulRxMessageReceivedLength := f c\<rparr>) w)" for f
        by (rule tx_keep_same) (simp_all add: frame_simps)
      then show ?thesis
        using assms(4) conn m eMQTTRxMessageDrop conn_keep [OF assms(3)]
        by (auto simp: parse_step_def parse_drop_def Let_def split: if_splits)
    qed
  qed
qed

lemma conn_parse_loop:
  "ok F E w \<Longrightarrow> rx_hold (w_ctx w) \<Longrightarrow> conn_inv w \<Longrightarrow> parse_loop E rest w = (rc, w') \<Longrightarrow> conn_inv w'"
proof (induction E rest w rule: parse_loop.induct)
  case (1 E rest w)
  show ?case
  proof (cases "rest = []")
    case True
    with 1 show ?thesis by (simp add: parse_loop.simps)
  next
    case False
    obtain r rest1 w1 where s: "parse_step E rest w = (r, rest1, w1)" by (metis prod_cases3)
    note o = ok_parse_step [OF "1.prems"(1,2) s] conn_parse_step [OF "1.prems"(1-3) s]
    show ?thesis
    proof (cases r)
      case None
      then have "parse_loop E rest1 w1 = (rc, w')"
        using "1.prems"(4) False s by (simp add: parse_loop.simps [of E rest w])
      then show ?thesis using "1.IH" [OF False s [symmetric] None refl o] by simp
    qed (use "1.prems"(4) False s o in \<open>auto simp: parse_loop.simps [of E rest w]\<close>)
  qed
qed

text \<open>Sending a packet: it joins the waiting packets, and the others stay as they are.\<close>

lemma make_packet_others:
  assumes "ok F E w" and "make_packet E rl to i build w = (rc, h, w')" and "g \<in> set (lib_bufs (w_ctx w))"
  shows "w_bufs w' g = w_bufs w g" "g \<noteq> h"
proof -
  obtain h1 w1 where g: "prvGetFreeBuffer E (mqttTOTAL_MESSAGE_LENGTH (prvSizeOfRemainingLength rl) rl) w = (h1, w1)"
    by fastforce
  note gb = get_buffer [OF assms(1) g]
  have n: "g \<noteq> h1" "g \<noteq> 0"
    using fresh_not_lib [OF assms(1) g] assms(1,3) by (auto simp: pool_ok_def)
  then have b: "w_bufs w1 g = w_bufs w g" using gb(5,7) by (cases "h1 = 0") auto
  show "w_bufs w' g = w_bufs w g" "g \<noteq> h"
    using assms(2) g b n by (auto simp: make_packet_def Let_def frame_simps begin_tx_frame split: if_splits)
qed

lemma packet_waits:
  assumes "ok F E w" and "make_packet E rl to i build w = (rc, h, w1)" and "transmit E rc h w1 = (rc', w2)"
    and "unat rl = length body" and "unat rl < 268435456"
    and b: "\<And>L f. length (mqtt_packet ctl body) \<le> Suc L \<Longrightarrow>
       build L (replicate (Suc L) 0, f) = (pad (mqtt_packet ctl body) (Suc L), f)"
  shows "tx_keep w (prvReturnBuffer E h w2)"
    and "rc' = eMQTTSuccess \<Longrightarrow> xTxBufferList (w_ctx w2) = h # xTxBufferList (w_ctx w) \<and>
      xConnectionState (w_ctx w2) = xConnectionState (w_ctx w) \<and> entry_holds (entry w2 h) (mqtt_packet ctl body) i \<and>
      (\<forall>g\<in>set (xTxBufferList (w_ctx w)). entry w2 g = entry w g)"
proof -
  note o1 = ok_make_packet [OF assms(1,2)] and t = ok_transmit [OF ok_make_packet(1) [OF assms(1,2)] assms(3)]
  have e: "\<forall>g\<in>set (xTxBufferList (w_ctx w)). w_bufs w2 g = w_bufs w g \<and> g \<noteq> h"
    using make_packet_others [OF assms(1,2)] t(3) by (simp add: lib_bufs_def)
  show "tx_keep w (prvReturnBuffer E h w2)"
    using o1(2) t(2,4) e by (auto simp: tx_keep_def return_frame entry_def)
  assume r: "rc' = eMQTTSuccess"
  then have s: "rc = eMQTTSuccess" by (rule t(5))
  have "take (unat (mb_ulDataLength (w_bufs w1 h))) (mb_data (w_bufs w1 h)) = mqtt_packet ctl body \<and>
      unat (mb_ulDataLength (w_bufs w1 h)) \<le> length (mb_data (w_bufs w1 h)) \<and> mb_usPacketIdentifier (w_bufs w1 h) = i"
    by (rule make_packet_bytes(3) [OF assms(1,2,4,5) _ s]) (rule b)
  then have "entry_holds (entry w2 h) (mqtt_packet ctl body) i"
    using t(3) unfolding entry_holds_def entry_def by (metis fst_conv snd_conv length_take min_absorb2)
  then show "xTxBufferList (w_ctx w2) = h # xTxBufferList (w_ctx w) \<and> xConnectionState (w_ctx w2) = xConnectionState (w_ctx w) \<and>
      entry_holds (entry w2 h) (mqtt_packet ctl body) i \<and> (\<forall>g\<in>set (xTxBufferList (w_ctx w)). entry w2 g = entry w g)"
    using o1(2) s t(2,4) e by (auto simp: entry_def)
qed

lemma conn_add_request:
  "conn_inv w \<Longrightarrow> xConnectionState (w_ctx w) = eMQTTConnected \<Longrightarrow>
     xTxBufferList (w_ctx w') = h # xTxBufferList (w_ctx w) \<and> xConnectionState (w_ctx w') = xConnectionState (w_ctx w) \<and>
       P \<and> (\<forall>g\<in>set (xTxBufferList (w_ctx w)). entry w' g = entry w g) \<Longrightarrow> request_entry (entry w' h) \<Longrightarrow> conn_inv w'"
  by (auto simp: conn_inv_def)

lemma conn_Connect:
  assumes "ok F E w" and "conn_inv w" and "connect_params_ok cp"
  shows "conn_inv (snd (MQTT_Connect E cp w))"
proof (cases "xConnectionState (w_ctx w) = eMQTTNotConnected")
  case True
  let ?w = "upd_ctx (\<lambda>c. c\<lparr>ulKeepAliveActualIntervalTicks := cp_ulKeepAliveActualIntervalTicks cp,
      ulPingRequestTimeoutTicks := cp_ulPingRequestTimeoutTicks cp\<rparr>) w"
  have o: "ok F E ?w" by (rule ok_upd_ctx [OF assms(1)]) simp_all
  have k: "tx_keep w ?w" by (rule tx_keep_same) (simp_all add: frame_simps)
  have e: "xTxBufferList (w_ctx ?w) = []" using assms(2) True by (simp add: conn_inv_def frame_simps)
  obtain rc h w1 where m: "make_packet E (connect_remaining_length cp) (cp_ulTimeoutTicks cp) (cp_usPacketIdentifier cp)
      (build_connect cp) ?w = (rc, h, w1)" by (metis prod_cases3)
  obtain rc2 w2 where t: "transmit E rc h w1 = (rc2, w2)" by fastforce
  have r: "MQTT_Connect E cp w = (rc2, if rc2 \<noteq> eMQTTSuccess then prvReturnBuffer E h w2
      else upd_ctx (\<lambda>c. c\<lparr>xConnectionState := eMQTTConnectionInProgress\<rparr>) w2)"
    using m t True by (simp add: MQTT_Connect_def connect_packet_def)
  have l: "unat (connect_remaining_length cp) < 268435456"
    using assms(3) connect_length [OF assms(3)] by (simp add: connect_body_def connect_params_ok_def string_ok_def)
  note p = packet_waits [OF o m t connect_length [OF assms(3)] l build_connect_ok [OF assms(3)]]
  show ?thesis
  proof (cases "rc2 = eMQTTSuccess")
    case True
    then show ?thesis
      using p(2) e assms(3) unfolding r by (auto simp: conn_inv_def frame_simps entry_def connect_entry_def)
  next
    case False
    then show ?thesis using conn_keep [OF conn_keep [OF assms(2) k] p(1)] unfolding r by simp
  qed
next
  case False
  then show ?thesis using assms by (auto simp: MQTT_Connect_def connect_packet_def transmit_def prvReturnBuffer_def)
qed

lemma conn_Unsubscribe:
  assumes "ok F E w" and "conn_inv w" and "unsubscribe_params_ok up"
  shows "conn_inv (snd (MQTT_Unsubscribe E up w))"
proof (cases "xConnectionState (w_ctx w) = eMQTTConnected")
  case True
  obtain rc h w1 where m: "make_packet E (unsubscribe_remaining_length up) (up_ulTimeoutTicks up) (up_usPacketIdentifier up)
      (build_unsubscribe up) w = (rc, h, w1)" by (metis prod_cases3)
  obtain rc2 w2 where t: "transmit E rc h w1 = (rc2, w2)" by fastforce
  have r: "MQTT_Unsubscribe E up w = (rc2, if rc2 \<noteq> eMQTTSuccess then prvReturnBuffer E h w2 else w2)"
    using m t True by (simp add: MQTT_Unsubscribe_def unsubscribe_packet_def)
  have l: "unat (unsubscribe_remaining_length up) < 268435456"
    using assms(3) unsubscribe_length [OF assms(3)] by (simp add: unsubscribe_body_def unsubscribe_params_ok_def string_ok_def)
  note p = packet_waits [OF assms(1) m t unsubscribe_length [OF assms(3)] l build_unsubscribe_ok [OF assms(3)]]
  show ?thesis
  proof (cases "rc2 = eMQTTSuccess")
    case s: True
    have "request_entry (entry w2 h)" using p(2) [OF _ s] assms(3) by (auto simp: request_entry_def unsubscribe_entry_def)
    then show ?thesis using conn_add_request [OF assms(2) True p(2) [OF _ s]] s unfolding r by simp
  next
    case False
    then show ?thesis using conn_keep [OF assms(2) p(1)] unfolding r by simp
  qed
next
  case False
  then show ?thesis
    using assms by (auto simp: MQTT_Unsubscribe_def unsubscribe_packet_def transmit_def prvReturnBuffer_def)
qed

lemma conn_Publish:
  assumes "ok F E w" and "conn_inv w" and "publish_params_ok pp"
  shows "conn_inv (snd (MQTT_Publish E pp w))"
proof (cases "xConnectionState (w_ctx w) = eMQTTConnected")
  case True
  obtain rc h w1 where m: "make_packet E (publish_remaining_length pp) (pp_ulTimeoutTicks pp) (pp_usPacketIdentifier pp)
      (build_publish pp) w = (rc, h, w1)" by (metis prod_cases3)
  obtain rc2 w2 where t: "transmit E rc h w1 = (rc2, w2)" by fastforce
  have r: "MQTT_Publish E pp w = (rc2, if rc2 \<noteq> eMQTTSuccess \<or> pp_xQos pp = eMQTTQoS0 then prvReturnBuffer E h w2 else w2)"
    using m t True by (simp add: MQTT_Publish_def publish_packet_def)
  have l: "unat (publish_remaining_length pp) < 268435456"
    using assms(3) publish_length [OF assms(3)] by (simp add: publish_body_def publish_params_ok_def string_ok_def)
  note p = packet_waits [OF assms(1) m t publish_length [OF assms(3)] l build_publish_ok [OF assms(3)]]
  show ?thesis
  proof (cases "rc2 = eMQTTSuccess \<and> pp_xQos pp \<noteq> eMQTTQoS0")
    case s: True
    then have "pp_xQos pp = eMQTTQoS1" using assms(3) by (cases "pp_xQos pp") (auto simp: publish_params_ok_def)
    then have "request_entry (entry w2 h)"
      using p(2) s assms(3) by (auto simp: request_entry_def publish_entry_def publish_control_def)
    then show ?thesis using conn_add_request [OF assms(2) True p(2)] s unfolding r by simp
  next
    case False
    then show ?thesis using conn_keep [OF assms(2) p(1)] unfolding r by auto
  qed
next
  case False
  then show ?thesis
    using assms by (auto simp: MQTT_Publish_def publish_packet_def transmit_def prvReturnBuffer_def)
qed

lemma conn_Subscribe:
  assumes "ok F E w" and "conn_inv w" and "subscribe_params_ok sp"
  shows "conn_inv (snd (MQTT_Subscribe E sp w))"
proof -
  have upd: "conn_inv (upd_ctx (\<lambda>c. c\<lparr>xSubscriptionManager := g c\<rparr>) v)" if "conn_inv v" for g and v :: "'p world"
    using that by (rule conn_keep) (rule tx_keep_same; simp add: frame_simps)
  obtain st mg where s: "prvStoreSubscription (xSubscriptionManager (w_ctx w)) (sp_pucTopic sp) (sp_usTopicLength sp)
      (sp_pvPublishCallbackContext sp) (sp_pxPublishCallback sp) = (st, mg)" by fastforce
  let ?w = "upd_ctx (\<lambda>c. c\<lparr>xSubscriptionManager := mg\<rparr>) w"
  show ?thesis
  proof (cases "xConnectionState (w_ctx w) = eMQTTConnected \<and> st")
    case True
    have o: "ok F E ?w" by (rule ok_upd_ctx [OF assms(1)]) simp_all
    have c: "conn_inv ?w" "xConnectionState (w_ctx ?w) = eMQTTConnected" using upd [OF assms(2)] True by (simp_all add: frame_simps)
    obtain rc h w1 where m: "make_packet E (subscribe_remaining_length sp) (sp_ulTimeoutTicks sp) (sp_usPacketIdentifier sp)
        (build_subscribe sp) ?w = (rc, h, w1)" by (metis prod_cases3)
    obtain rc2 w2 where t: "transmit E rc h w1 = (rc2, w2)" by fastforce
    have l: "unat (subscribe_remaining_length sp) < 268435456"
      using assms(3) subscribe_length [OF assms(3)] by (simp add: subscribe_body_def subscribe_params_ok_def string_ok_def)
    note p = packet_waits [OF o m t subscribe_length [OF assms(3)] l build_subscribe_ok [OF assms(3)]]
    show ?thesis
    proof (cases "rc2 = eMQTTSuccess")
      case s': True
      have "request_entry (entry w2 h)" using p(2) [OF _ s'] assms(3) by (auto simp: request_entry_def subscribe_entry_def)
      then show ?thesis
        using conn_add_request [OF c p(2) [OF _ s']] s' m t True s by (simp add: MQTT_Subscribe_def subscribe_packet_def)
    next
      case False
      then show ?thesis
        using conn_keep [OF c(1) p(1)] m t True s upd by (auto simp: MQTT_Subscribe_def subscribe_packet_def Let_def)
    qed
  next
    case False
    then show ?thesis
      using assms(2) s upd by (auto simp: MQTT_Subscribe_def subscribe_packet_def transmit_def prvReturnBuffer_def Let_def)
  qed
qed

lemma conn_Disconnect: "ok F E w \<Longrightarrow> conn_inv (snd (MQTT_Disconnect E w))"
proof -
  assume o: "ok F E w"
  obtain rc w1 where s: "prvSendData E ucDisconnectPacket 2 w = (rc, w1)" by fastforce
  have "ok F E (snd (prvInvokeCallback E (eMQTTClientDisconnected eMQTTDisconnectReasonUserRequest) w1))"
    using ok_send [OF s o] by (rule ok_event [rotated]) simp
  then show ?thesis using o by (auto simp: MQTT_Disconnect_def s conn_reset)
qed

lemma conn_ReturnBuffer:
  assumes "ok F E w" and "conn_inv w" and "h \<in> user_owned (w_trace w)"
  shows "conn_inv (snd (MQTT_ReturnBuffer E h w))"
proof -
  have "h \<notin> set (xTxBufferList (w_ctx (observe (OReturn h) w)))"
    using assms(1,3) by (auto simp: pool_ok_def lib_bufs_def frame_simps)
  then have "tx_keep w (prvReturnBuffer E h (observe (OReturn h) w))"
    by (rule tx_keep_trans [OF tx_keep_frame(2) tx_keep_return])
  then show ?thesis using conn_keep [OF assms(2)] by (simp add: MQTT_ReturnBuffer_def)
qed

text \<open>Timeouts and keep-alive.\<close>

lemma conn_periodic_tx:
  "ok F E w \<Longrightarrow> conn_inv w \<Longrightarrow> set hs \<subseteq> set (xTxBufferList (w_ctx w)) \<Longrightarrow> distinct hs \<Longrightarrow>
     conn_inv (snd (periodic_tx E now hs n w))"
proof (induction hs arbitrary: n w)
  case (Cons h hs)
  obtain el t r where e: "prvIsTimeElapsed (mb_xRecordedTickCount (w_bufs w h)) now (mb_ulTimeoutTicks (w_bufs w h)) = (el, t, r)"
    by (metis prod_cases3)
  let ?w = "upd_buf h (\<lambda>b. b\<lparr>mb_xRecordedTickCount := t, mb_ulTimeoutTicks := r\<rparr>) w"
  let ?s = "if control_byte (w_bufs ?w h) = (mqttCONTROL_SUBSCRIBE OR mqttFLAGS_SUBSCRIBE)
     then prvRemoveSubscriptionForSubscribeOrUnsubscribeBuffer h ?w else ?w"
  let ?v = "snd (prvInvokeCallback E (eMQTTTimeout (mb_usPacketIdentifier (w_bufs ?s h))) ?s)"
  let ?u = "prvReturnBuffer E h ?v"
  have k: "tx_keep w ?w" by (rule tx_keep_upd_buf) simp
  have w: "ok F E ?w" "conn_inv ?w" "xTxBufferList (w_ctx ?w) = xTxBufferList (w_ctx w)"
    using Cons.prems conn_keep [OF _ k] by (simp_all add: ok_upd_buf frame_simps)
  have s: "ok F E ?s" "conn_inv ?s" "xTxBufferList (w_ctx ?s) = xTxBufferList (w_ctx w)"
    "xConnectionState (w_ctx ?s) = xConnectionState (w_ctx w)"
    using w by (auto simp: ok_remove_for_buffer frame_simps)
  have v: "ok F E ?v" "conn_inv ?v" "w_ctx ?v = w_ctx ?s" using s(1,2) by (auto intro: ok_event simp: frame_simps)
  have h: "h \<in> set (xTxBufferList (w_ctx w))" using Cons.prems(3) by simp
  have req: "conn_inv (snd (periodic_tx E now hs n ?u))"
    if c: "control_byte (w_bufs ?w h) \<noteq> (mqttCONTROL_CONNECT OR mqttFLAGS_CONNECT)" for n
  proof -
    have st: "xConnectionState (w_ctx w) = eMQTTConnected"
      using Cons.prems(2) h
      by (cases rule: conn_tx_cases) (use c in \<open>auto simp: control_values frame_simps control_byte_def dest: entry_control(1)\<close>)
    have u: "ok F E ?u" using ok_return_tx [OF v(1), of h] v(3) s(3) h by simp
    have cu: "conn_inv ?u" using conn_return_request [OF v(2)] v(3) s(3,4) st ok_distinct(1) [OF v(1)] by simp
    have "xTxBufferList (w_ctx ?u) = remove1 h (xTxBufferList (w_ctx w))"
      using v(3) s(3) ok_distinct(3) [OF Cons.prems(1)] h by (auto simp: return_frame)
    then have "set hs \<subseteq> set (xTxBufferList (w_ctx ?u))"
      using Cons.prems(3,4) ok_distinct(1) [OF Cons.prems(1)] by auto
    then show ?thesis using Cons.IH [OF u cu] Cons.prems(4) by simp
  qed
  have "conn_inv (snd (periodic_tx E now hs n ?w))" for n
    using Cons.IH [OF w(1,2)] w(3) Cons.prems(3,4) by simp
  then show ?case
    using conn_disconnect [OF w(1)] req by (simp add: e Let_def del: fun_upd_apply)
qed simp

lemma conn_Periodic:
  assumes "ok F E w" and "conn_inv w"
  shows "conn_inv (snd (MQTT_Periodic E now w))"
proof -
  obtain n w1 where p: "periodic_tx E now (xTxBufferList (w_ctx w)) 0xFFFFFFFF w = (n, w1)" by fastforce
  have c: "conn_inv w1"
    using conn_periodic_tx [OF assms subset_refl ok_distinct(1) [OF assms(1)], where now = now and n = "0xFFFFFFFF"] p by simp
  obtain el t r where e: "prvIsTimeElapsed (xLastSentMessageTimestamp (w_ctx w1)) now (ulNextPeriodicInvokeTicks (w_ctx w1)) = (el, t, r)"
    by (metis prod_cases3)
  let ?w = "upd_ctx (\<lambda>c. c\<lparr>xLastSentMessageTimestamp := t, ulNextPeriodicInvokeTicks := r\<rparr>) w1"
  obtain rc w2 where s: "prvSendData E ucPingReqPacket 2 ?w = (rc, w2)" by fastforce
  obtain t' w3 where t: "prvGetCurrentTickCount E w2 = (t', w3)" by fastforce
  have "tx_keep w1 ?w" by (rule tx_keep_same) (simp_all add: frame_simps)
  then have k: "tx_keep w1 w2" "tx_keep w1 w3" using tx_keep_send [OF s] tx_keep_ticks [OF t] by (blast intro: tx_keep_trans)+
  have "tx_keep w1 (periodic_keep_alive E now w1)"
    using k unfolding periodic_keep_alive_def e s t Let_def prod.case
    by (auto simp: tx_keep_def frame_simps entry_def)
  then show ?thesis using conn_keep [OF c] c by (auto simp: MQTT_Periodic_def p Let_def)
qed

lemma conn_exec:
  assumes "ok F E w" and "rx_hold (w_ctx w)" and "conn_inv w" and "call_allowed w c"
  shows "conn_inv (mqtt_exec E c w)"
proof (cases c)
  case (CallParse bs n)
  let ?w = "chk (n \<le> length bs) w"
  have "ok F E ?w" "rx_hold (w_ctx ?w)" "conn_inv ?w" using assms(1-3) by (simp_all add: frame_simps ok_chk)
  from conn_parse_loop [OF this prod.collapse [symmetric]] show ?thesis
    using CallParse by (simp add: MQTT_ParseReceivedData_def)
qed (use assms in \<open>simp_all add: conn_Connect conn_Disconnect conn_Subscribe conn_Unsubscribe conn_Publish conn_Periodic
      conn_ReturnBuffer\<close>)

lemma conn_reachable:
  "mqtt_reachable E s0 s \<Longrightarrow> ok (snd s0) E (fst s0) \<Longrightarrow> rx_hold (w_ctx (fst s0)) \<Longrightarrow> conn_inv (fst s0) \<Longrightarrow>
     ok (snd s) E (fst s) \<and> rx_hold (w_ctx (fst s)) \<and> conn_inv (fst s)"
proof (induction rule: mqtt_reachable.induct)
  case (step s s')
  then have o: "ok (snd s) E (fst s)" "rx_hold (w_ctx (fst s))" "conn_inv (fst s)" by blast+
  have "conn_inv (fst s')"
    using step.hyps(2) o
    by (cases rule: mqtt_step.cases) (auto intro: conn_exec)
  then show ?case using ok_step [OF step.hyps(2) o(1,2)] by blast
qed simp

end

lemma firmware_conn:
  assumes "firmware_state E w F"
  shows "conn_inv w"
proof -
  obtain ip w0 where i: "e_get E (ip_pxGetBufferFxn ip) = BUFFERPOOL_GetFreeBuffer"
    "e_ret E (ip_pxReturnBufferFxn ip) = BUFFERPOOL_ReturnBuffer" "pool_placed (w_pool w0)" "w_trace w0 = []"
    and r: "mqtt_reachable E (snd (MQTT_Init ip w0), pool_inuse (w_pool w0)) (w, F)"
    using assms unfolding firmware_state_def by blast
  have "conn_inv (snd (MQTT_Init ip w0))"
    by (rule conn_empty) (simp_all add: MQTT_Init_def Let_def frame_simps prvResetRxMessageState_def reset_rx_def)
  then show ?thesis using bpool.conn_reachable [OF r] bpool.ok_init [OF i] by auto
qed

end
