(* ===== verification/MqttStream.thy ===== *)
theory MqttStream
  imports MqttConn
begin

text \<open>
  The receiver. An invariant ties its state to the fixed header and the buffer it fills,
  and with it \<open>MQTT_ParseReceivedData\<close> does not depend on how the network cuts the stream of
  bytes into pieces.
\<close>

section \<open>Decoding the fixed header\<close>

definition cont_byte :: "u8 \<Rightarrow> bool" where
  "cont_byte b \<longleftrightarrow> b AND 128 \<noteq> 0"

lemma low_bits_lt: "(\<And>i. n \<le> i \<Longrightarrow> \<not> bit (w::u32) i) \<Longrightarrow> unat w < 2 ^ n"
proof -
  assume h: "\<And>i. n \<le> i \<Longrightarrow> \<not> bit w i"
  have "take_bit n w = w" by (rule bit_eqI) (use h in \<open>force simp: bit_take_bit_iff simp flip: not_le\<close>)
  then have "unat w = take_bit n (unat w)" by (metis unsigned_take_bit_eq)
  then show ?thesis by (metis take_bit_nat_less_exp)
qed

lemma seven_bits: "7 \<le> i \<Longrightarrow> \<not> bit (push_bit n (ucast ((x::u8) AND 127) :: u32)) (n + i)"
proof -
  assume "7 \<le> i"
  moreover have "x AND 127 = take_bit 7 x" by (simp add: take_bit_eq_mask mask_eq_exp_minus_1)
  ultimately show ?thesis by (simp add: bit_simps)
qed

lemma length_bitmask: "mqttLENGTH_BITMASK_REMAINING_LENGTH = 127" "mqttREMAINING_LENGTH_CONTINUATION_BITMASK = 128"
  by (simp_all add: mqtt_length_defs)

lemma decode_loop_stops:
  assumes "\<And>i. x \<le> i \<Longrightarrow> i < k \<Longrightarrow> cont_byte (rdb p i)" and "\<not> cont_byte (rdb p k)" and "x \<le> k" and "k < 4"
    and "\<And>i. 7 * x \<le> i \<Longrightarrow> \<not> bit acc i"
  shows "fst (decode_loop p x acc) = k \<and> (\<forall>i\<ge>7 * (k + 1). \<not> bit (snd (decode_loop p x acc)) i)"
  using assms
proof (induction "k - x" arbitrary: x acc)
  case 0
  then have "x = k" by simp
  with 0 show ?case
    using seven_bits [of "_ - 7 * k" "7 * k" "rdb p k"]
    by (subst (1 2) decode_loop.simps)
      (auto simp: length_bitmask mqttREMAINING_LENGTH_MAX_BYTES_def cont_byte_def Let_def bit_or_iff mult.commute [of k])
next
  case (Suc d)
  let ?acc = "acc OR push_bit (x * 7) (ucast (rdb p x AND 127))"
  have "fst (decode_loop p (Suc x) ?acc) = k \<and> (\<forall>i\<ge>7 * (k + 1). \<not> bit (snd (decode_loop p (Suc x) ?acc)) i)"
    using Suc seven_bits [of "_ - 7 * x" "7 * x" "rdb p x"]
    by (intro Suc.hyps(1)) (auto simp: bit_or_iff mult.commute [of x])
  moreover have "x < k" using Suc.hyps(2) by simp
  then have "decode_loop p x acc = decode_loop p (Suc x) ?acc"
    using Suc.prems(1) [of x] Suc.prems(4)
    by (subst decode_loop.simps) (simp add: length_bitmask mqttREMAINING_LENGTH_MAX_BYTES_def cont_byte_def Let_def)
  ultimately show ?case by simp
qed

lemma rx_decode_complete:
  assumes "unat (ulRxMessageReceivedLength c) = Suc (Suc k)" and "k < 4"
    and "\<And>i. i < k \<Longrightarrow> cont_byte (rdb (ucRxFixedHeaderBuffer c) (Suc i))" and "\<not> cont_byte (rdb (ucRxFixedHeaderBuffer c) (Suc k))"
  obtains l where "rx_decode c = (Suc k, l + ulRxMessageReceivedLength c)" "unat l < 268435456"
proof -
  let ?p = "drop 1 (ucRxFixedHeaderBuffer c)"
  obtain x l where d: "decode_loop ?p 0 0 = (x, l)" by fastforce
  have "x = k" "\<And>i. 7 * (k + 1) \<le> i \<Longrightarrow> \<not> bit l i"
    using decode_loop_stops [of 0 k ?p 0] assms d by (auto simp: rdb_drop)
  then have "x = k" "\<And>i. 28 \<le> i \<Longrightarrow> \<not> bit l i" using assms(2) by auto
  then have "rx_decode c = (Suc k, l + ulRxMessageReceivedLength c)" "unat l < 268435456"
    using d assms(2) low_bits_lt [of 28 l] by (simp_all add: rx_decode_def prvDecodeRemainingLength_def mqtt_length_defs)
  then show ?thesis by (rule that)
qed

section \<open>The invariant of the receiver\<close>

definition store_ok :: "nat \<Rightarrow> u32 \<Rightarrow> MQTTBufferMetadata_t \<Rightarrow> bool" where
  "store_ok n tot b \<longleftrightarrow> unat (mb_ulDataLength b) < unat tot \<and> unat tot \<le> length (mb_data b) \<and> 8 \<le> length (mb_data b) \<and>
     1 \<le> n \<and> n \<le> 4 \<and> n + 1 \<le> unat (mb_ulDataLength b) \<and> (n = 1 \<or> cont_byte (rdb (mb_data b) 1))"

definition header_ok :: "nat \<Rightarrow> u8 list \<Rightarrow> bool" where
  "header_ok k bs \<longleftrightarrow> 1 \<le> k \<and> k \<le> 4 \<and> (\<forall>i<k - 1. cont_byte (rdb bs (Suc i)))"

definition rx_ok :: "'p world \<Rightarrow> bool" where
  "rx_ok w \<longleftrightarrow> length (ucRxFixedHeaderBuffer (w_ctx w)) = 5 \<and>
     (case xRxNextByte (xRxMessageState (w_ctx w)) of
        eMQTTRxNextBytePacketType \<Rightarrow> ulRxMessageReceivedLength (w_ctx w) = 0
      | eMQTTRxNextBytePacketLength \<Rightarrow> header_ok (unat (ulRxMessageReceivedLength (w_ctx w))) (ucRxFixedHeaderBuffer (w_ctx w))
      | eMQTTRxNextByteMessage \<Rightarrow>
          (case xRxMessageAction (xRxMessageState (w_ctx w)) of
             eMQTTRxMessageStore \<Rightarrow> store_ok (rx_len_bytes w) (ulTotalMessageLength (xRxMessageState (w_ctx w))) (rx_buf w)
           | eMQTTRxMessageDrop \<Rightarrow> ulRxMessageReceivedLength (w_ctx w) < ulTotalMessageLength (xRxMessageState (w_ctx w))))"

lemma rx_ok_reset [simp]: "rx_ok (prvResetRxMessageState w) \<longleftrightarrow> length (ucRxFixedHeaderBuffer (w_ctx w)) = 5"
  by (simp add: rx_ok_def prvResetRxMessageState_def frame_simps reset_rx_def)

text \<open>What the receiver's invariant depends on.\<close>

definition rx_keep :: "'p world \<Rightarrow> 'p world \<Rightarrow> bool" where
  "rx_keep w w' \<longleftrightarrow> rx_part (w_ctx w') = rx_part (w_ctx w) \<and>
     (xRxBuffer (w_ctx w) \<noteq> 0 \<longrightarrow> mb_data (rx_buf w') = mb_data (rx_buf w) \<and> mb_ulDataLength (rx_buf w') = mb_ulDataLength (rx_buf w))"

lemma rx_keep_ok:
  assumes "rx_keep w w'" and "rx_hold (w_ctx w)" and "rx_ok w"
  shows "rx_ok w'"
  using assms unfolding rx_keep_def rx_part_def rx_ok_def rx_hold_def rx_len_bytes_def store_ok_def
  by (auto split: MQTTRxNextByte_t.splits MQTTRxMessageAction_t.splits)

section \<open>Preservation\<close>

lemma header_len_reset [frame_simps]:
  "ucRxFixedHeaderBuffer (w_ctx (prvResetRxMessageState w)) = ucRxFixedHeaderBuffer (w_ctx w)"
  by (simp add: prvResetRxMessageState_def frame_simps reset_rx_def)

lemma header_fold_return: "ucRxFixedHeaderBuffer (w_ctx (fold (prvReturnBuffer E) hs w)) = ucRxFixedHeaderBuffer (w_ctx w)"
  by (induction hs arbitrary: w) (simp_all add: return_frame)

lemma header_kept [simp]:
  "ucRxFixedHeaderBuffer (w_ctx (prvResetMQTTContext E w)) = ucRxFixedHeaderBuffer (w_ctx w)"
  "ucRxFixedHeaderBuffer (w_ctx (disconnect_with E r w)) = ucRxFixedHeaderBuffer (w_ctx w)"
  "ucRxFixedHeaderBuffer (w_ctx (return_rx E w)) = ucRxFixedHeaderBuffer (w_ctx w)"
  by (simp_all add: prvResetMQTTContext_def disconnect_with_def Let_def frame_simps return_frame return_rx_def header_fold_return)

lemma disconnect_received: "ulRxMessageReceivedLength (w_ctx (disconnect_with E r w)) = 0"
  by (simp add: prvResetMQTTContext_def disconnect_with_def Let_def frame_simps prvResetRxMessageState_def reset_rx_def)

lemma header_send [simp]: "ucRxFixedHeaderBuffer (w_ctx (snd (prvSendData E d n w))) = ucRxFixedHeaderBuffer (w_ctx w)"
  using send_fields(4) [of E d n w] by (metis prod.collapse)

lemma header_ticks: "prvGetCurrentTickCount E w = (t, w') \<Longrightarrow> ucRxFixedHeaderBuffer (w_ctx w') = ucRxFixedHeaderBuffer (w_ctx w)"
  by (simp add: ticks_frame)

lemma header_finish_ack [simp]:
  "ucRxFixedHeaderBuffer (w_ctx (finish_ack E (m, w))) = ucRxFixedHeaderBuffer (w_ctx w)"
  by (simp add: finish_ack_def)

lemma header_handlers [simp]:
  "ucRxFixedHeaderBuffer (w_ctx (prvProcessReceivedSUBACK E w)) = ucRxFixedHeaderBuffer (w_ctx w)"
  "ucRxFixedHeaderBuffer (w_ctx (prvProcessReceivedUNSUBACK E w)) = ucRxFixedHeaderBuffer (w_ctx w)"
  "ucRxFixedHeaderBuffer (w_ctx (prvProcessReceivedPUBACK E w)) = ucRxFixedHeaderBuffer (w_ctx w)"
  "ucRxFixedHeaderBuffer (w_ctx (prvProcessReceivedPINGRESP E w)) = ucRxFixedHeaderBuffer (w_ctx w)"
  unfolding prvProcessReceivedSUBACK_def prvProcessReceivedUNSUBACK_def prvProcessReceivedPUBACK_def
    prvProcessReceivedPINGRESP_def Let_def
  by (auto simp: frame_simps return_frame dest: header_ticks split: prod.splits)

lemma header_CONNACK [simp]:
  "ucRxFixedHeaderBuffer (w_ctx (prvProcessReceivedCONNACK E w)) = ucRxFixedHeaderBuffer (w_ctx w)"
proof -
  have e: "ucRxFixedHeaderBuffer (w_ctx w') = ucRxFixedHeaderBuffer (w_ctx w)" if "connack_examine E h w = (oc, w')" for h oc w'
    using that by (auto simp: connack_examine_def Let_def frame_simps split: if_splits)
  show ?thesis
    unfolding prvProcessReceivedCONNACK_def Let_def
    by (auto simp: frame_simps return_frame dest!: header_ticks e split: prod.splits connack_outcome.splits if_splits)
qed

lemma header_Publish [simp]:
  "ucRxFixedHeaderBuffer (w_ctx (prvProcessReceivedPublish E w)) = ucRxFixedHeaderBuffer (w_ctx w)"
proof -
  have "w_ctx w' = w_ctx w" if "prvInvokeCallback E ev w = (b, w')" for ev b w w'
    using that invoke_event_frame(1) [of E ev w] by simp
  then show ?thesis
    unfolding prvProcessReceivedPublish_def Let_def send_puback_def
    by (auto simp: frame_simps split: prod.splits)
qed

lemma header_MQTTPacket [simp]:
  "ucRxFixedHeaderBuffer (w_ctx (prvProcessReceivedMQTTPacket E w)) = ucRxFixedHeaderBuffer (w_ctx w)"
  by (simp add: prvProcessReceivedMQTTPacket_def Let_def)

lemma header_FixedHeaderOnly [simp]:
  "ucRxFixedHeaderBuffer (w_ctx (prvProcessReceivedFixedHeaderOnlyMQTTPacket E w)) = ucRxFixedHeaderBuffer (w_ctx w)"
  by (simp add: prvProcessReceivedFixedHeaderOnlyMQTTPacket_def)


lemma rx_part_remove [simp]:
  "rx_part (w_ctx (prvRemoveSubscriptionForSubscribeOrUnsubscribeBuffer h w)) = rx_part (w_ctx w)"
  by (simp add: prvRemoveSubscriptionForSubscribeOrUnsubscribeBuffer_def Let_def frame_simps)

context sized_pool
begin

lemma get_buffer_sized:
  assumes "ok F E w" and "prvGetFreeBuffer E n w = (h, w')" and "h \<noteq> 0" and "unat n < 4294967000"
  obtains "unat n \<le> length (mb_data (w_bufs w' h))" "8 \<le> length (mb_data (w_bufs w' h))" "mb_ulDataLength (w_bufs w' h) = 0"
proof -
  have p: "pinv (w_pool w)" and g: "e_get E (pxGetBufferFxn (w_ctx w)) = get"
    using assms(1) by (auto simp: pool_ok_def)
  obtain m q where r: "get (w_pool w) (n + sizeof_MQTTBufferMetadata) = (Some (h, m), q)"
    and b: "w_bufs w' = (w_bufs w)(h := mqttbufferINIT_BUFFER m (w_bufs w h))"
    using assms(2,3) g by (auto simp: prvGetFreeBuffer_def frame_simps split: prod.splits option.splits)
  have m: "n + 32 \<le> m" "64 \<le> m"
    using get_some [OF p r] get_large [OF p r] by (simp_all add: sizeof_MQTTBufferMetadata_def)
  have "unat (n + 32) = unat n + 32" using assms(4) by (simp add: unat_add_u32)
  then have "unat n + 32 \<le> unat m" "64 \<le> unat m" using m by (simp_all add: word_le_nat_alt)
  moreover have "unat (m - 32) = unat m - 32" using m(2) by (simp add: unat_sub word_le_nat_alt)
  ultimately have "unat n \<le> unat (m - 32)" "8 \<le> unat (m - 32)" by simp_all
  then show ?thesis
    using that by (auto simp: b mqttbufferINIT_BUFFER_def Let_def sizeof_MQTTBufferMetadata_def)
qed

end

text \<open>The header byte that was copied last.\<close>

lemma copy_header_next:
  assumes "length (ucRxFixedHeaderBuffer (w_ctx w)) = 5" and "unat (ulRxMessageReceivedLength (w_ctx w)) \<le> 4"
  shows "unat (ulRxMessageReceivedLength (w_ctx (copy_header_byte b w))) = Suc (unat (ulRxMessageReceivedLength (w_ctx w)))"
    and "length (ucRxFixedHeaderBuffer (w_ctx (copy_header_byte b w))) = 5"
    and "rdb (ucRxFixedHeaderBuffer (w_ctx (copy_header_byte b w))) (unat (ulRxMessageReceivedLength (w_ctx w))) = b"
    and "i < unat (ulRxMessageReceivedLength (w_ctx w)) \<Longrightarrow>
      rdb (ucRxFixedHeaderBuffer (w_ctx (copy_header_byte b w))) i = rdb (ucRxFixedHeaderBuffer (w_ctx w)) i"
  using assms by (auto simp: frame_simps unat_add_u32 rdb_def)

context sized_pool
begin

lemma rx_ok_start_store:
  assumes "store_ok n tot (w_bufs w h)" and "length (ucRxFixedHeaderBuffer (w_ctx w)) = 5" and "xRxBuffer (w_ctx w) = h"
    and "xRxNextByte (xRxMessageState (w_ctx w)) = eMQTTRxNextByteMessage"
    and "xRxMessageAction (xRxMessageState (w_ctx w)) = eMQTTRxMessageStore"
    and "rx_len_bytes w = n" and "ulTotalMessageLength (xRxMessageState (w_ctx w)) = tot"
  shows "rx_ok w"
  using assms by (simp add: rx_ok_def rx_buf_def)

lemma rx_ok_header_complete:
  assumes "ok F E w" and "xRxBuffer (w_ctx w) = 0" and len: "length (ucRxFixedHeaderBuffer (w_ctx w)) = 5"
    and k: "unat (ulRxMessageReceivedLength (w_ctx w)) = Suc (Suc k)" "k < 4"
    and c: "\<And>i. i < k \<Longrightarrow> cont_byte (rdb (ucRxFixedHeaderBuffer (w_ctx w)) (Suc i))"
    and l: "\<not> cont_byte (rdb (ucRxFixedHeaderBuffer (w_ctx w)) (Suc k))"
  shows "rx_ok (header_complete E w)"
proof -
  obtain v where d: "rx_decode (w_ctx w) = (Suc k, v + ulRxMessageReceivedLength (w_ctx w))" and v: "unat v < 268435456"
    using rx_decode_complete [OF k c l] by blast
  let ?tot = "v + ulRxMessageReceivedLength (w_ctx w)"
  define w1 where "w1 = upd_rx_state (\<lambda>s. s\<lparr>ucRemaingingLengthFieldBytes := Suc k, ulTotalMessageLength := ?tot\<rparr>) w"
  have tot: "unat ?tot = unat v + Suc (Suc k)" using v k by (simp add: unat_add_u32)
  have o1: "ok F E w1" using assms(1) by (simp add: w1_def ok_upd_rx_state)
  obtain h w2 where g: "prvGetFreeBuffer E ?tot w1 = (h, w2)" by fastforce
  note gb = get_buffer [OF o1 g]
  let ?w3 = "upd_ctx (\<lambda>c. c\<lparr>xRxBuffer := h\<rparr>) w2"
  have z: "header_complete E w = (if ?tot = ulRxMessageReceivedLength (w_ctx w1)
      then prvResetRxMessageState (prvProcessReceivedFixedHeaderOnlyMQTTPacket E w1)
      else if h \<noteq> 0 then start_store h ?w3 else start_drop E ?w3)"
    unfolding header_complete_def d Let_def prod.case w1_def [symmetric] g by (rule refl)
  have r1: "ulRxMessageReceivedLength (w_ctx w1) = ulRxMessageReceivedLength (w_ctx w)"
    "ucRxFixedHeaderBuffer (w_ctx w1) = ucRxFixedHeaderBuffer (w_ctx w)"
    "ucRemaingingLengthFieldBytes (xRxMessageState (w_ctx w1)) = Suc k" "ulTotalMessageLength (xRxMessageState (w_ctx w1)) = ?tot"
    by (simp_all add: w1_def frame_simps)
  have pos: "unat v > 0" if "?tot \<noteq> ulRxMessageReceivedLength (w_ctx w1)" using that r1(1) by (auto simp: unat_gt_0)
  have "rx_ok (start_store h ?w3)" if h: "h \<noteq> 0" and t: "?tot \<noteq> ulRxMessageReceivedLength (w_ctx w1)"
  proof -
    have b: "unat ?tot \<le> length (mb_data (w_bufs w2 h))" "8 \<le> length (mb_data (w_bufs w2 h))"
      using get_buffer_sized [OF o1 g h] tot v k(2) by auto
    let ?hd = "take (Suc (Suc k)) (ucRxFixedHeaderBuffer (w_ctx w))"
    have hd: "length ?hd = Suc (Suc k)" using len k(2) by simp
    have bu: "mb_ulDataLength (w_bufs (start_store h ?w3) h) = ulRxMessageReceivedLength (w_ctx w)"
      "mb_data (w_bufs (start_store h ?w3) h) = blit 0 ?hd (mb_data (w_bufs w2 h))"
      using k len b(2) hd by (simp_all add: start_store_def Let_def frame_simps gb(1) r1 m_need_ok m_blit_ok)
    have "rdb (blit 0 ?hd (mb_data (w_bufs w2 h))) 1 = rdb (ucRxFixedHeaderBuffer (w_ctx w)) 1"
      using hd by (simp add: blit_def rdb_append1 rdb_take)
    then have "store_ok (Suc k) ?tot (w_bufs (start_store h ?w3) h)"
      using k b tot pos [OF t] c [of 0] hd unfolding store_ok_def bu by (auto simp: len)
    then show ?thesis
      by (rule rx_ok_start_store) (simp_all add: start_store_def Let_def frame_simps gb(1) r1 len rx_len_bytes_def)
  qed
  moreover have "rx_ok (start_drop E ?w3)" if h: "h = 0" and t: "?tot \<noteq> ulRxMessageReceivedLength (w_ctx w1)"
    using len tot k(1) pos [OF t] h
    by (simp add: rx_ok_def start_drop_def Let_def frame_simps return_rx_def prvReturnBuffer_def gb(1) r1 word_less_nat_alt)
  ultimately show ?thesis unfolding z using r1(2) len by auto
qed

lemma store_ok_copy:
  assumes "store_ok n tot b" and "length bs < unat (tot - mb_ulDataLength b)"
  shows "store_ok n tot (b\<lparr>mb_data := blit (unat (mb_ulDataLength b)) bs (mb_data b),
    mb_ulDataLength := mb_ulDataLength b + of_nat (length bs)\<rparr>)"
proof -
  have s: "unat (mb_ulDataLength b) < unat tot" using assms(1) by (simp add: store_ok_def)
  then have e: "unat (tot - mb_ulDataLength b) = unat tot - unat (mb_ulDataLength b)"
    by (simp add: unat_sub word_le_nat_alt)
  then have l: "length bs < 4294967296" "unat (mb_ulDataLength b) + length bs < unat tot"
    using assms(2) unat_u32_lt [of tot] by simp_all
  then have u: "unat (mb_ulDataLength b + of_nat (length bs)) = unat (mb_ulDataLength b) + length bs"
    using unat_u32_lt [of tot] by (simp add: unat_add_u32 unat_of_nat_u32)
  have "rdb (blit (unat (mb_ulDataLength b)) bs (mb_data b)) 1 = rdb (mb_data b) 1"
    using assms(1) by (simp add: store_ok_def blit_def rdb_append1 rdb_take)
  then show ?thesis using assms(1) l(2) u by (auto simp: store_ok_def)
qed

lemma copy_to_rx_buf:
  assumes "store_ok n tot (rx_buf w)" and "length bs \<le> unat (tot - mb_ulDataLength (rx_buf w))"
  shows "rx_buf (copy_to_rx bs w) = (rx_buf w)\<lparr>mb_data := blit (unat (mb_ulDataLength (rx_buf w))) bs (mb_data (rx_buf w)),
    mb_ulDataLength := mb_ulDataLength (rx_buf w) + of_nat (length bs)\<rparr>"
    and "w_fault (copy_to_rx bs w) = w_fault w"
proof -
  have "unat (tot - mb_ulDataLength (rx_buf w)) = unat tot - unat (mb_ulDataLength (rx_buf w))"
    using assms(1) by (simp add: store_ok_def unat_sub word_le_nat_alt)
  then have "unat (mb_ulDataLength (rx_buf w)) + length bs \<le> length (mb_data (rx_buf w))"
    using assms by (auto simp: store_ok_def)
  then show "rx_buf (copy_to_rx bs w) = (rx_buf w)\<lparr>mb_data := blit (unat (mb_ulDataLength (rx_buf w))) bs (mb_data (rx_buf w)),
    mb_ulDataLength := mb_ulDataLength (rx_buf w) + of_nat (length bs)\<rparr>"
    and "w_fault (copy_to_rx bs w) = w_fault w"
    by (simp_all add: copy_to_rx_def Let_def rx_buf_def frame_simps m_blit_ok)
qed

lemma rx_ok_store_more:
  assumes "rx_ok w" and "xRxNextByte (xRxMessageState (w_ctx w)) = eMQTTRxNextByteMessage"
    and "xRxMessageAction (xRxMessageState (w_ctx w)) = eMQTTRxMessageStore"
    and "length bs < unat (ulTotalMessageLength (xRxMessageState (w_ctx w)) - mb_ulDataLength (rx_buf w))"
  shows "rx_ok (copy_to_rx bs w)"
proof -
  have s: "store_ok (rx_len_bytes w) (ulTotalMessageLength (xRxMessageState (w_ctx w))) (rx_buf w)"
    using assms(1-3) by (simp add: rx_ok_def)
  show ?thesis
    using assms(1-3) store_ok_copy [OF s assms(4)] copy_to_rx_buf(1) [OF s less_imp_le [OF assms(4)]]
    by (simp add: rx_ok_def frame_simps rx_len_bytes_def)
qed

lemma unat_add_of_nat:
  "unat (a::u32) + n \<le> unat (t::u32) \<Longrightarrow> unat (a + of_nat n) = unat a + n"
  using unat_u32_lt [of t] by (simp add: unat_add_u32 unat_of_nat_u32)

lemma rx_ok_parse_step:
  assumes "ok F E w" and "rx_hold (w_ctx w)" and "rx_ok w" and "rest \<noteq> []" and "parse_step E rest w = (r, rest', w')"
  shows "rx_ok w'"
proof (cases "xConnectionState (w_ctx w) = eMQTTNotConnected")
  case True
  then show ?thesis using assms by (simp add: parse_step_def)
next
  case conn: False
  have len: "length (ucRxFixedHeaderBuffer (w_ctx w)) = 5" using assms(3) by (simp add: rx_ok_def)
  show ?thesis
  proof (cases "xRxNextByte (xRxMessageState (w_ctx w))")
    case eMQTTRxNextBytePacketType
    then show ?thesis
      using assms conn by (auto simp: parse_step_def parse_packet_type_def rx_ok_def frame_simps header_ok_def)
  next
    case l: eMQTTRxNextBytePacketLength
    let ?w = "copy_header_byte (hd rest) w" and ?k = "unat (ulRxMessageReceivedLength (w_ctx w))"
    have h: "1 \<le> ?k" "?k \<le> 4" "\<And>i. i < ?k - 1 \<Longrightarrow> cont_byte (rdb (ucRxFixedHeaderBuffer (w_ctx w)) (Suc i))"
      using assms(3) l by (auto simp: rx_ok_def header_ok_def)
    note n = copy_header_next [OF len h(2), where b = "hd rest"]
    have o: "ok F E ?w" "xRxBuffer (w_ctx ?w) = 0"
      using assms(1,2) l by (simp_all add: ok_copy_header_byte rx_hold_def frame_simps)
    have c: "cont_byte (rdb (ucRxFixedHeaderBuffer (w_ctx ?w)) (Suc i))" if "i < ?k - 1" for i
      using h(3) [OF that] n(4) [where i = "Suc i"] that by simp
    have step: "(r, rest', w') = (if cont_byte (hd rest) then
         if Suc ?k \<ge> 5 then (Some eMQTTMalformedPacketReceived, tl rest, disconnect_with E eMQTTDisconnectReasonMalformedPacket ?w)
         else (None, tl rest, ?w) else (None, tl rest, header_complete E ?w))"
      using assms(5) conn l n(1,3) h(1)
      by (auto simp: parse_step_def parse_packet_length_def Let_def cont_byte_def mqtt_length_defs split: if_splits)
    show ?thesis
    proof (cases "cont_byte (hd rest)")
      case True
      have "rx_ok ?w" if "\<not> Suc ?k \<ge> 5"
      proof -
        have "cont_byte (rdb (ucRxFixedHeaderBuffer (w_ctx ?w)) (Suc i))" if "i < ?k" for i
          using c [of i] n(3) True h(1) that by (cases "i = ?k - 1") auto
        then show ?thesis using that l n(1,2) by (simp add: rx_ok_def header_ok_def frame_simps)
      qed
      moreover have "rx_ok (disconnect_with E m ?w)" for m
        using n(2) by (simp add: rx_ok_def disconnect_fields disconnect_received)
      ultimately show ?thesis using step True by (auto split: if_splits)
    next
      case False
      have "rx_ok (header_complete E ?w)"
      proof (rule rx_ok_header_complete [OF o n(2), of "?k - 1"])
        show "unat (ulRxMessageReceivedLength (w_ctx ?w)) = Suc (Suc (?k - 1))" "?k - 1 < 4" using n(1) h by simp_all
        show "\<not> cont_byte (rdb (ucRxFixedHeaderBuffer (w_ctx ?w)) (Suc (?k - 1)))" using n(3) False h(1) by simp
      qed (rule c)
      then show ?thesis using step False by simp
    qed
  next
    case m: eMQTTRxNextByteMessage
    show ?thesis
    proof (cases "xRxMessageAction (xRxMessageState (w_ctx w))")
      case eMQTTRxMessageStore
      then show ?thesis
        using assms(5) conn m rx_ok_store_more [OF assms(3) m] len
        by (auto simp: parse_step_def parse_store_def Let_def frame_simps split: if_splits)
    next
      case eMQTTRxMessageDrop
      let ?c = "w_ctx w" and ?t = "ulTotalMessageLength (xRxMessageState (w_ctx w))"
      have d: "ulRxMessageReceivedLength ?c < ?t" using assms(3) m eMQTTRxMessageDrop by (simp add: rx_ok_def)
      then have e: "unat (?t - ulRxMessageReceivedLength ?c) = unat ?t - unat (ulRxMessageReceivedLength ?c)"
        by (simp add: unat_sub word_less_nat_alt word_le_nat_alt)
      show ?thesis
      proof (cases "length rest < unat (?t - ulRxMessageReceivedLength ?c)")
        case True
        then have "unat (ulRxMessageReceivedLength ?c + of_nat (length rest)) < unat ?t"
          using e unat_add_of_nat [of "ulRxMessageReceivedLength ?c" "length rest" ?t] by simp
        then show ?thesis
          using assms(5) conn m eMQTTRxMessageDrop True len
          by (auto simp: parse_step_def parse_drop_def Let_def rx_ok_def frame_simps word_less_nat_alt)
      next
        case False
        then show ?thesis
          using assms(5) conn m eMQTTRxMessageDrop len
          by (auto simp: parse_step_def parse_drop_def Let_def frame_simps)
      qed
    qed
  qed
qed

text \<open>Storing or dropping the rest of a message in two portions.\<close>

lemma copy_to_rx_append:
  assumes "store_ok n tot (rx_buf w)" and "length a + length b \<le> unat (tot - mb_ulDataLength (rx_buf w))"
  shows "copy_to_rx b (copy_to_rx a w) = copy_to_rx (a @ b) w"
proof -
  let ?d = "mb_data (rx_buf w)" and ?n = "mb_ulDataLength (rx_buf w)" and ?h = "xRxBuffer (w_ctx w)"
  have e: "unat (tot - ?n) = unat tot - unat ?n" using assms(1) by (simp add: store_ok_def unat_sub word_le_nat_alt)
  then have l: "unat ?n + length a + length b \<le> unat tot" "unat tot \<le> length ?d"
    using assms by (auto simp: store_ok_def)
  have u: "unat (?n + of_nat (length a)) = unat ?n + length a"
    by (rule unat_add_of_nat [of _ _ tot]) (use l(1) in simp)
  have c: "copy_to_rx bs v = upd_buf (xRxBuffer (w_ctx v)) (\<lambda>b. b\<lparr>mb_data := blit (unat (mb_ulDataLength b)) bs (mb_data b),
      mb_ulDataLength := mb_ulDataLength b + of_nat (length bs)\<rparr>) v"
    if "unat (mb_ulDataLength (rx_buf v)) + length bs \<le> length (mb_data (rx_buf v))" for bs and v :: "'p world"
    using that by (simp add: copy_to_rx_def Let_def with_data_def rx_buf_def m_blit_ok upd_buf_def)
  have "rx_buf (copy_to_rx a w) = (rx_buf w)\<lparr>mb_data := blit (unat ?n) a ?d, mb_ulDataLength := ?n + of_nat (length a)\<rparr>"
    by (rule copy_to_rx_buf [OF assms(1)]) (use assms(2) in simp)
  then show ?thesis
    using l u blit_append [of "unat ?n" ?d a b]
    by (subst (1 3) c) (auto simp: c upd_buf_def frame_simps rx_buf_def add.assoc)
qed

lemma parse_store_append:
  assumes "store_ok n (ulTotalMessageLength (xRxMessageState (w_ctx w))) (rx_buf w)"
    and "length a < unat (ulTotalMessageLength (xRxMessageState (w_ctx w)) - mb_ulDataLength (rx_buf w))"
  shows "parse_store E (a @ b) w = parse_store E b (copy_to_rx a w)"
proof -
  let ?t = "ulTotalMessageLength (xRxMessageState (w_ctx w))" and ?n = "mb_ulDataLength (rx_buf w)"
  let ?e = "unat (?t - ?n)"
  note cb = copy_to_rx_buf(1) [OF assms(1) less_imp_le [OF assms(2)]]
  have e: "?e = unat ?t - unat ?n" using assms(1) by (simp add: store_ok_def unat_sub word_le_nat_alt)
  have u: "unat (?n + of_nat (length a)) = unat ?n + length a"
    by (rule unat_add_of_nat [of _ _ ?t]) (use assms e in \<open>auto simp: store_ok_def\<close>)
  then have e': "unat (?t - mb_ulDataLength (rx_buf (copy_to_rx a w))) = ?e - length a"
    using assms(2) e unfolding cb by (simp add: unat_sub word_le_nat_alt)
  show ?thesis
  proof (cases "length (a @ b) < ?e")
    case True
    then show ?thesis
      using e' copy_to_rx_append [OF assms(1), of a b] by (simp add: parse_store_def Let_def frame_simps less_diff_conv add.commute)
  next
    case False
    then have "take ?e (a @ b) = a @ take (?e - length a) b" "drop ?e (a @ b) = drop (?e - length a) b"
      using assms(2) by simp_all
    then show ?thesis
      using False e' copy_to_rx_append [OF assms(1), of a "take (?e - length a) b"] assms(2)
      by (simp add: parse_store_def Let_def frame_simps less_diff_conv add.commute)
  qed
qed

lemma parse_drop_append:
  assumes "ulRxMessageReceivedLength (w_ctx w) < ulTotalMessageLength (xRxMessageState (w_ctx w))"
    and "length a < unat (ulTotalMessageLength (xRxMessageState (w_ctx w)) - ulRxMessageReceivedLength (w_ctx w))"
  shows "parse_drop E (a @ b) w =
    parse_drop E b (upd_ctx (\<lambda>c. c\<lparr>ulRxMessageReceivedLength := ulRxMessageReceivedLength c + of_nat (length a)\<rparr>) w)"
proof -
  let ?t = "ulTotalMessageLength (xRxMessageState (w_ctx w))" and ?n = "ulRxMessageReceivedLength (w_ctx w)"
  let ?e = "unat (?t - ?n)"
  have e: "?e = unat ?t - unat ?n" using assms(1) by (simp add: unat_sub word_less_nat_alt word_le_nat_alt)
  have u: "unat (?n + of_nat (length a)) = unat ?n + length a"
    by (rule unat_add_of_nat [of _ _ ?t]) (use assms e in \<open>auto simp: word_less_nat_alt\<close>)
  then have e': "unat (?t - (?n + of_nat (length a))) = ?e - length a"
    using assms(2) e by (simp add: unat_sub word_le_nat_alt)
  have s: "of_nat ?e = of_nat (length a) + (of_nat (?e - length a) :: u32)" using assms(2) by simp
  show ?thesis
    using e' assms(2) by (auto simp: parse_drop_def Let_def frame_simps upd_ctx_def s less_diff_conv add.commute add.assoc)
qed

text \<open>
  One iteration on a longer input: it either does the same, or the iteration on the shorter
  input ran out of bytes and the next one takes the rest.
\<close>

lemma take_append_short: "n \<le> length xs \<Longrightarrow> take n (xs @ ys) = take n xs" "n \<le> length xs \<Longrightarrow> drop n (xs @ ys) = drop n xs @ ys"
  by simp_all

lemma parse_step_append:
  assumes "rx_ok w" and "a \<noteq> []" and "parse_step E a w = (r, a', w')"
  shows "parse_step E (a @ b) w = (r, a' @ b, w') \<or>
    r = None \<and> a' = [] \<and> (\<forall>b. b \<noteq> [] \<longrightarrow> parse_step E (a @ b) w = parse_step E b w')"
proof (cases "xConnectionState (w_ctx w) = eMQTTNotConnected")
  case True
  then show ?thesis using assms by (simp add: parse_step_def)
next
  case conn: False
  obtain x xs where a: "a = x # xs" using assms(2) by (cases a) auto
  show ?thesis
  proof (cases "xRxNextByte (xRxMessageState (w_ctx w))")
    case eMQTTRxNextBytePacketType
    then show ?thesis using assms(3) conn by (auto simp: a parse_step_def parse_packet_type_def)
  next
    case eMQTTRxNextBytePacketLength
    then show ?thesis
      using assms(3) conn by (auto simp: a parse_step_def parse_packet_length_def Let_def split: if_splits)
  next
    case m: eMQTTRxNextByteMessage
    show ?thesis
    proof (cases "xRxMessageAction (xRxMessageState (w_ctx w))")
      case s: eMQTTRxMessageStore
      let ?e = "unat (ulTotalMessageLength (xRxMessageState (w_ctx w)) - mb_ulDataLength (rx_buf w))"
      have p: "parse_step E xs w = parse_store E xs w" for xs using conn m s by (simp add: parse_step_def)
      show ?thesis
      proof (cases "length a < ?e")
        case False
        then show ?thesis using assms(3) unfolding p by (auto simp: parse_store_def Let_def)
      next
        case True
        have ok: "store_ok (rx_len_bytes w) (ulTotalMessageLength (xRxMessageState (w_ctx w))) (rx_buf w)"
          using assms(1) m s by (simp add: rx_ok_def)
        have w': "r = None" "a' = []" "w' = copy_to_rx a w" using assms(3) True unfolding p by (auto simp: parse_store_def Let_def)
        have "parse_step E (a @ b) w = parse_step E b w'" for b
          using parse_store_append [OF ok True] conn m s unfolding p w'
          by (simp add: parse_step_def frame_simps)
        then show ?thesis using w' by blast
      qed
    next
      case d: eMQTTRxMessageDrop
      let ?e = "unat (ulTotalMessageLength (xRxMessageState (w_ctx w)) - ulRxMessageReceivedLength (w_ctx w))"
      have p: "parse_step E xs w = parse_drop E xs w" for xs using conn m d by (simp add: parse_step_def)
      show ?thesis
      proof (cases "length a < ?e")
        case False
        then show ?thesis using assms(3) unfolding p by (auto simp: parse_drop_def Let_def)
      next
        case True
        have lt: "ulRxMessageReceivedLength (w_ctx w) < ulTotalMessageLength (xRxMessageState (w_ctx w))"
          using assms(1) m d by (simp add: rx_ok_def)
        have w': "r = None" "a' = []" "w' = upd_ctx (\<lambda>c. c\<lparr>ulRxMessageReceivedLength := ulRxMessageReceivedLength c + of_nat (length a)\<rparr>) w"
          using assms(3) True unfolding p by (auto simp: parse_drop_def Let_def)
        have "parse_step E (a @ b) w = parse_step E b w'" for b
          using parse_drop_append [OF lt True] conn m d unfolding p w'
          by (simp add: parse_step_def frame_simps)
        then show ?thesis using w' by blast
      qed
    qed
  qed
qed

lemma parse_loop_append:
  "ok F E w \<Longrightarrow> rx_hold (w_ctx w) \<Longrightarrow> rx_ok w \<Longrightarrow>
     parse_loop E (a @ b) w = (case parse_loop E a w of (rc, w') \<Rightarrow> if rc = eMQTTSuccess then parse_loop E b w' else (rc, w'))"
proof (induction E a w rule: parse_loop.induct)
  case (1 E a w)
  show ?case
  proof (cases "a = [] \<or> b = []")
    case True
    then show ?thesis
      by (cases "parse_loop E a w") (auto simp: parse_loop.simps [of E "[]"])
  next
    case False
    obtain r a1 w1 where s: "parse_step E a w = (r, a1, w1)" by (metis prod_cases3)
    have o: "ok F E w1" "rx_hold (w_ctx w1)" "rx_ok w1"
      using ok_parse_step [OF "1.prems"(1,2) s] rx_ok_parse_step [OF "1.prems" _ s] False by auto
    have la: "parse_loop E a w = (case r of Some rc \<Rightarrow> (rc, w1) | None \<Rightarrow> parse_loop E a1 w1)"
      using False s by (subst parse_loop.simps) (auto split: option.splits)
    have rc: "rc \<noteq> eMQTTSuccess" if "r = Some rc" for rc
      using s that
      by (auto simp: parse_step_def parse_packet_type_def parse_packet_length_def parse_store_def parse_drop_def Let_def
          split: if_splits MQTTRxNextByte_t.splits MQTTRxMessageAction_t.splits)
    consider (same) "parse_step E (a @ b) w = (r, a1 @ b, w1)"
      | (out) "r = None" "a1 = []" "parse_step E (a @ b) w = parse_step E b w1"
      using parse_step_append [OF "1.prems"(3) _ s] False by blast
    then show ?thesis
    proof cases
      case same
      have "parse_loop E (a @ b) w = (case r of Some rc \<Rightarrow> (rc, w1) | None \<Rightarrow> parse_loop E (a1 @ b) w1)"
        using False same by (subst parse_loop.simps) (auto split: option.splits)
      then show ?thesis using la rc "1.IH" [OF _ s [symmetric] _ refl o] False by (auto split: option.splits)
    next
      case out
      have "parse_loop E (a @ b) w = parse_loop E b w1"
        using False out(3) by (subst (1 2) parse_loop.simps) simp
      then show ?thesis using la out by (simp add: parse_loop.simps [of E "[]"])
    qed
  qed
qed

lemma rx_ok_parse_loop:
  "ok F E w \<Longrightarrow> rx_hold (w_ctx w) \<Longrightarrow> rx_ok w \<Longrightarrow> parse_loop E rest w = (rc, w') \<Longrightarrow> rx_ok w'"
proof (induction E rest w rule: parse_loop.induct)
  case (1 E rest w)
  show ?case
  proof (cases "rest = []")
    case True
    with 1 show ?thesis by (simp add: parse_loop.simps)
  next
    case False
    obtain r rest1 w1 where s: "parse_step E rest w = (r, rest1, w1)" by (metis prod_cases3)
    have o: "ok F E w1" "rx_hold (w_ctx w1)" "rx_ok w1"
      using ok_parse_step [OF "1.prems"(1,2) s] rx_ok_parse_step [OF "1.prems"(1-3) False s] by auto
    show ?thesis
    proof (cases r)
      case None
      then have "parse_loop E rest1 w1 = (rc, w')"
        using "1.prems"(4) False s by (simp add: parse_loop.simps [of E rest w])
      then show ?thesis using "1.IH" [OF False s [symmetric] None refl o] by simp
    qed (use "1.prems"(4) False s o in \<open>auto simp: parse_loop.simps [of E rest w]\<close>)
  qed
qed

text \<open>The other operations leave the receiver alone or reset it.\<close>

lemma rx_keep_packet:
  assumes "ok F E w" and "make_packet E rl to i build w = (rc, h, w1)" and "transmit E rc h w1 = (rc', w2)"
  shows "rx_keep w w2" "rx_keep w (prvReturnBuffer E h w2)"
proof -
  have b: "w_bufs w1 (xRxBuffer (w_ctx w)) = w_bufs w (xRxBuffer (w_ctx w))" "xRxBuffer (w_ctx w) \<noteq> h" if "xRxBuffer (w_ctx w) \<noteq> 0"
    using make_packet_others [OF assms(1,2)] that by (auto simp: lib_bufs_def rx_list_def)
  have p: "rx_part (w_ctx w2) = rx_part (w_ctx w)" "xRxBuffer (w_ctx w2) = xRxBuffer (w_ctx w)" "w_bufs w2 = w_bufs w1"
    using rx_part_make_packet [of E rl to i build w] rx_part_transmit [of E rc h w1] ok_transmit(3) [OF ok_make_packet(1) [OF assms(1,2)] assms(3)]
      assms(2,3) by (auto simp: rx_part_def)
  show "rx_keep w w2" using b p by (auto simp: rx_keep_def rx_buf_def)
  show "rx_keep w (prvReturnBuffer E h w2)"
    using b p by (auto simp: rx_keep_def rx_buf_def return_frame rx_part_def)
qed

lemma rx_keep_trans: "rx_keep w w' \<Longrightarrow> rx_keep w' w'' \<Longrightarrow> rx_keep w w''"
  by (auto simp: rx_keep_def rx_part_def)

lemma rx_keep_same: "w_bufs w' = w_bufs w \<Longrightarrow> rx_part (w_ctx w') = rx_part (w_ctx w) \<Longrightarrow> rx_keep w w'"
  by (auto simp: rx_keep_def rx_buf_def rx_part_def)

lemma rx_keep_return: "h \<noteq> xRxBuffer (w_ctx w) \<Longrightarrow> rx_keep w (prvReturnBuffer E h w)"
  by (auto simp: rx_keep_def rx_buf_def return_frame rx_part_def)

lemma rx_keep_refl [simp]: "rx_keep w w"
  by (simp add: rx_keep_def)

lemma rx_keep_Connect:
  assumes "ok F E w"
  shows "rx_keep w (snd (MQTT_Connect E cp w))"
proof -
  let ?w = "upd_ctx (\<lambda>c. c\<lparr>ulKeepAliveActualIntervalTicks := cp_ulKeepAliveActualIntervalTicks cp,
      ulPingRequestTimeoutTicks := cp_ulPingRequestTimeoutTicks cp\<rparr>) w"
  have o: "ok F E ?w" by (rule ok_upd_ctx [OF assms]) simp_all
  have k: "rx_keep w ?w" by (rule rx_keep_same) (simp_all add: frame_simps)
  obtain rc h w1 where m: "make_packet E (connect_remaining_length cp) (cp_ulTimeoutTicks cp) (cp_usPacketIdentifier cp)
      (build_connect cp) ?w = (rc, h, w1)" by (metis prod_cases3)
  obtain rc2 w2 where t: "transmit E rc h w1 = (rc2, w2)" by fastforce
  have p: "rx_keep w w2" "rx_keep w (prvReturnBuffer E h w2)"
    using rx_keep_trans [OF k] rx_keep_packet [OF o m t] by blast+
  have q: "rx_keep w (upd_ctx (\<lambda>c. c\<lparr>xConnectionState := s\<rparr>) w2)" for s
    by (rule rx_keep_trans [OF p(1)], rule rx_keep_same) (simp_all add: frame_simps)
  have r0: "rx_keep w (prvReturnBuffer E 0 w)" by (simp add: prvReturnBuffer_def)
  show ?thesis
    using m t p q r0 by (auto simp: MQTT_Connect_def connect_packet_def transmit_def split: if_splits)
qed

lemma rx_keep_request:
  assumes "ok F E w"
    and "make_packet E rl to i build w = (rc, h, w1)" and "transmit E rc h w1 = (rc', w2)"
  shows "rx_keep w (snd (if P then (rc', prvReturnBuffer E h w2) else (rc', w2)))"
  using rx_keep_packet [OF assms] by simp

lemma rx_keep_Unsubscribe:
  assumes "ok F E w"
  shows "rx_keep w (snd (MQTT_Unsubscribe E up w))"
proof (cases "xConnectionState (w_ctx w) = eMQTTConnected")
  case True
  then show ?thesis
    using rx_keep_request [OF assms] by (auto simp: MQTT_Unsubscribe_def unsubscribe_packet_def split: prod.splits)
qed (simp add: MQTT_Unsubscribe_def unsubscribe_packet_def transmit_def prvReturnBuffer_def)

lemma rx_keep_Publish:
  assumes "ok F E w"
  shows "rx_keep w (snd (MQTT_Publish E pp w))"
proof (cases "xConnectionState (w_ctx w) = eMQTTConnected")
  case True
  then show ?thesis
    using rx_keep_request [OF assms] by (auto simp: MQTT_Publish_def publish_packet_def split: prod.splits)
qed (simp add: MQTT_Publish_def publish_packet_def transmit_def prvReturnBuffer_def)

lemma rx_keep_Subscribe:
  assumes "ok F E w"
  shows "rx_keep w (snd (MQTT_Subscribe E sp w))"
proof -
  have u: "rx_keep v (upd_ctx (\<lambda>c. c\<lparr>xSubscriptionManager := g c\<rparr>) v)" for g and v :: "'p world"
    by (rule rx_keep_same) (simp_all add: frame_simps)
  obtain st mg where s: "prvStoreSubscription (xSubscriptionManager (w_ctx w)) (sp_pucTopic sp) (sp_usTopicLength sp)
      (sp_pvPublishCallbackContext sp) (sp_pxPublishCallback sp) = (st, mg)" by fastforce
  let ?w = "upd_ctx (\<lambda>c. c\<lparr>xSubscriptionManager := mg\<rparr>) w"
  have o: "ok F E ?w" by (rule ok_upd_ctx [OF assms]) simp_all
  obtain rc h w1 where m: "make_packet E (subscribe_remaining_length sp) (sp_ulTimeoutTicks sp) (sp_usPacketIdentifier sp)
      (build_subscribe sp) ?w = (rc, h, w1)" by (metis prod_cases3)
  obtain rc2 w2 where t: "transmit E rc h w1 = (rc2, w2)" by fastforce
  have "rx_keep w ?w" by (rule u)
  then have "rx_keep w w2" "rx_keep w (prvReturnBuffer E h w2)"
    using rx_keep_packet [OF o m t] by (blast intro: rx_keep_trans)+
  then show ?thesis
    using m t s u rx_keep_trans [OF _ u]
    by (auto simp: MQTT_Subscribe_def subscribe_packet_def transmit_def prvReturnBuffer_def Let_def split: if_splits)
qed

lemma rx_ok_disconnect:
  "length (ucRxFixedHeaderBuffer (w_ctx w)) = 5 \<Longrightarrow> rx_ok (disconnect_with E r w)"
  "length (ucRxFixedHeaderBuffer (w_ctx w)) = 5 \<Longrightarrow> rx_ok (prvResetMQTTContext E w)"
  by (simp_all add: rx_ok_def disconnect_fields disconnect_received reset_rx_fields)
    (simp add: prvResetMQTTContext_def Let_def frame_simps prvResetRxMessageState_def reset_rx_def)

lemma rx_ok_Disconnect:
  "rx_ok w \<Longrightarrow> rx_ok (snd (MQTT_Disconnect E w))"
  unfolding MQTT_Disconnect_def case_prod_beta snd_conv
  by (rule rx_ok_disconnect(2)) (simp add: frame_simps rx_ok_def)

lemma rx_ok_periodic_tx:
  "ok F E w \<Longrightarrow> rx_hold (w_ctx w) \<Longrightarrow> rx_ok w \<Longrightarrow> set hs \<subseteq> set (xTxBufferList (w_ctx w)) \<Longrightarrow> distinct hs \<Longrightarrow>
     rx_ok (snd (periodic_tx E now hs n w))"
proof (induction hs arbitrary: n w)
  case (Cons h hs)
  obtain el t r where e: "prvIsTimeElapsed (mb_xRecordedTickCount (w_bufs w h)) now (mb_ulTimeoutTicks (w_bufs w h)) = (el, t, r)"
    by (metis prod_cases3)
  let ?w = "upd_buf h (\<lambda>b. b\<lparr>mb_xRecordedTickCount := t, mb_ulTimeoutTicks := r\<rparr>) w"
  let ?s = "if control_byte (w_bufs ?w h) = (mqttCONTROL_SUBSCRIBE OR mqttFLAGS_SUBSCRIBE)
     then prvRemoveSubscriptionForSubscribeOrUnsubscribeBuffer h ?w else ?w"
  let ?v = "snd (prvInvokeCallback E (eMQTTTimeout (mb_usPacketIdentifier (w_bufs ?s h))) ?s)"
  let ?u = "prvReturnBuffer E h ?v"
  have h: "h \<in> set (xTxBufferList (w_ctx w))" using Cons.prems(4) by simp
  then have hx: "h \<noteq> xRxBuffer (w_ctx w)" using ok_distinct(2) [OF Cons.prems(1)] by auto
  have w: "ok F E ?w" "rx_keep w ?w" "xTxBufferList (w_ctx ?w) = xTxBufferList (w_ctx w)"
    using Cons.prems(1) hx by (auto simp: ok_upd_buf frame_simps rx_keep_def rx_buf_def)
  have s: "ok F E ?s" "rx_keep w ?s" "xTxBufferList (w_ctx ?s) = xTxBufferList (w_ctx w)"
    using w rx_keep_trans [OF w(2) rx_keep_same]
    by (auto simp: ok_remove_for_buffer frame_simps rx_part_remove)
  have v: "ok F E ?v" "rx_keep w ?v" "w_ctx ?v = w_ctx ?s"
    using s(1) rx_keep_trans [OF s(2) rx_keep_same] by (auto intro: ok_event simp: frame_simps)
  have x: "xRxBuffer (w_ctx ?v) = xRxBuffer (w_ctx w)" using v(2) by (simp add: rx_keep_def rx_part_def)
  have u: "ok F E ?u" "rx_keep w ?u"
    using ok_return_tx [OF v(1), of h] v(3) s(3) h hx x rx_keep_trans [OF v(2) rx_keep_return] by auto
  have hold: "rx_hold (w_ctx w')" if "rx_keep w w'" for w'
    using rx_hold_part [of "w_ctx w'" "w_ctx w"] that Cons.prems(2) by (simp add: rx_keep_def)
  have ok: "rx_ok w'" if "rx_keep w w'" for w' using rx_keep_ok [OF that Cons.prems(2,3)] .
  have "xTxBufferList (w_ctx ?u) = remove1 h (xTxBufferList (w_ctx w))"
    using v(3) s(3) ok_distinct(3) [OF Cons.prems(1)] h by (auto simp: return_frame)
  then have "set hs \<subseteq> set (xTxBufferList (w_ctx ?u))"
    using Cons.prems(4,5) ok_distinct(1) [OF Cons.prems(1)] by auto
  then have "rx_ok (snd (periodic_tx E now hs n ?u))" for n
    using Cons.IH [OF u(1) hold [OF u(2)] ok [OF u(2)]] Cons.prems(5) by simp
  moreover have "rx_ok (snd (periodic_tx E now hs n ?w))" for n
    using Cons.IH [OF w(1) hold [OF w(2)] ok [OF w(2)]] w(3) Cons.prems(4,5) by simp
  moreover have "rx_ok (disconnect_with E d ?w)" for d
    using ok [OF w(2)] by (intro rx_ok_disconnect) (simp add: rx_ok_def)
  ultimately show ?case by (simp add: e Let_def del: fun_upd_apply)
qed simp

lemma rx_keep_keep_alive: "rx_keep w (periodic_keep_alive E now w)"
proof -
  obtain el t r where e: "prvIsTimeElapsed (xLastSentMessageTimestamp (w_ctx w)) now (ulNextPeriodicInvokeTicks (w_ctx w)) = (el, t, r)"
    by (metis prod_cases3)
  let ?w = "upd_ctx (\<lambda>c. c\<lparr>xLastSentMessageTimestamp := t, ulNextPeriodicInvokeTicks := r\<rparr>) w"
  obtain rc w1 where s: "prvSendData E ucPingReqPacket 2 ?w = (rc, w1)" by fastforce
  obtain t' w2 where t: "prvGetCurrentTickCount E w1 = (t', w2)" by fastforce
  have "rx_part (w_ctx w1) = rx_part (w_ctx w)" "w_bufs w1 = w_bufs w" "w_ctx w2 = w_ctx w1" "w_bufs w2 = w_bufs w1"
    using rx_part_send [of E ucPingReqPacket 2 ?w] s send_frame(3) [OF s] ticks_frame(1,3) [OF t] by (simp_all add: frame_simps)
  then show ?thesis
    by (intro rx_keep_same) (simp_all add: periodic_keep_alive_def e s t Let_def frame_simps)
qed

lemma rx_ok_Periodic:
  assumes "ok F E w" and "rx_hold (w_ctx w)" and "rx_ok w"
  shows "rx_ok (snd (MQTT_Periodic E now w))"
proof -
  obtain n w1 where p: "periodic_tx E now (xTxBufferList (w_ctx w)) 0xFFFFFFFF w = (n, w1)" by fastforce
  have c: "rx_ok w1" "rx_hold (w_ctx w1)"
    using rx_ok_periodic_tx [OF assms subset_refl ok_distinct(1) [OF assms(1)], where now = now and n = "0xFFFFFFFF"]
      ok_periodic_tx [OF assms(1,2) subset_refl ok_distinct(1) [OF assms(1)], where now = now and n = "0xFFFFFFFF"] p by simp_all
  then show ?thesis using rx_keep_ok [OF rx_keep_keep_alive c(2,1)] by (auto simp: MQTT_Periodic_def p Let_def)
qed

lemma rx_ok_exec:
  assumes "ok F E w" and "rx_hold (w_ctx w)" and "rx_ok w" and "call_allowed w c"
  shows "rx_ok (mqtt_exec E c w)"
proof (cases c)
  case (CallParse bs n)
  let ?w = "chk (n \<le> length bs) w"
  have "ok F E ?w" "rx_hold (w_ctx ?w)" "rx_ok ?w"
    using assms(1-3) rx_keep_ok [OF rx_keep_same [of ?w w] assms(2,3)] by (simp_all add: frame_simps ok_chk)
  from rx_ok_parse_loop [OF this prod.collapse [symmetric]] show ?thesis
    using CallParse by (simp add: MQTT_ParseReceivedData_def)
next
  case (CallReturn h)
  have "h \<noteq> xRxBuffer (w_ctx w)"
    using assms(1,4) CallReturn by (auto simp: pool_ok_def lib_bufs_def rx_list_def split: if_splits)
  then have "rx_keep w (prvReturnBuffer E h (observe (OReturn h) w))"
    by (intro rx_keep_trans [OF rx_keep_same rx_keep_return]) (simp_all add: frame_simps)
  then show ?thesis using rx_keep_ok [OF _ assms(2,3)] CallReturn by (simp add: MQTT_ReturnBuffer_def)
qed (use assms rx_keep_ok [OF rx_keep_Connect assms(2,3)] rx_keep_ok [OF rx_keep_Subscribe assms(2,3)]
      rx_keep_ok [OF rx_keep_Unsubscribe assms(2,3)] rx_keep_ok [OF rx_keep_Publish assms(2,3)]
    in \<open>simp_all add: rx_ok_Disconnect rx_ok_Periodic\<close>)

lemma rx_ok_reachable:
  "mqtt_reachable E s0 s \<Longrightarrow> ok (snd s0) E (fst s0) \<Longrightarrow> rx_hold (w_ctx (fst s0)) \<Longrightarrow> rx_ok (fst s0) \<Longrightarrow>
     ok (snd s) E (fst s) \<and> rx_hold (w_ctx (fst s)) \<and> rx_ok (fst s)"
proof (induction rule: mqtt_reachable.induct)
  case (step s s')
  then have o: "ok (snd s) E (fst s)" "rx_hold (w_ctx (fst s))" "rx_ok (fst s)" by blast+
  have p: "rx_ok (w\<lparr>w_pool := p\<rparr>)" if "rx_ok w" "rx_hold (w_ctx w)" for p and w :: "'p world"
    using rx_keep_ok [OF rx_keep_same [of "w\<lparr>w_pool := p\<rparr>" w] that(2,1)] by simp
  have "rx_ok (fst s')"
    using step.hyps(2) o by (cases rule: mqtt_step.cases) (auto intro: rx_ok_exec p)
  then show ?case using ok_step [OF step.hyps(2) o(1,2)] by blast
qed simp

end

lemma firmware_rx:
  assumes "firmware_state E w F"
  shows "rx_ok w"
proof -
  obtain ip w0 where i: "e_get E (ip_pxGetBufferFxn ip) = BUFFERPOOL_GetFreeBuffer"
    "e_ret E (ip_pxReturnBufferFxn ip) = BUFFERPOOL_ReturnBuffer" "pool_placed (w_pool w0)" "w_trace w0 = []"
    and c: "ctx_shape (w_ctx w0)"
    and r: "mqtt_reachable E (snd (MQTT_Init ip w0), pool_inuse (w_pool w0)) (w, F)"
    using assms unfolding firmware_state_def by blast
  have "rx_ok (snd (MQTT_Init ip w0))"
    using c by (simp add: rx_ok_def MQTT_Init_def Let_def frame_simps prvResetRxMessageState_def reset_rx_def ctx_shape_def mqtt_length_defs)
  then show ?thesis using spool.rx_ok_reachable [OF r] bpool.ok_init [OF i] by auto
qed

end
