(* ===== verification/MqttReceive.thy ===== *)
theory MqttReceive
  imports MqttStream
begin

text \<open>
  Reception of complete packets: the receiver hands every packet of the stream to its handler
  exactly as it was sent, or drops it as a whole when there is no buffer. From this follow the
  effects of the broker's packets.
\<close>

section \<open>The fixed header\<close>

lemma cont_encoded: "cont_byte (encoded_byte n) \<longleftrightarrow> drop_bit 7 n > 0"
  using encoded_byte_parts [of n] by (simp add: cont_byte_def length_bitmask word_gt_0)

lemma varint_split:
  obtains bs b where "varint n = bs @ [b]" "\<forall>x\<in>set bs. cont_byte x" "\<not> cont_byte b"
proof -
  have "\<exists>bs b. varint n = bs @ [b] \<and> (\<forall>x\<in>set bs. cont_byte x) \<and> \<not> cont_byte b"
  proof (induction n rule: varint.induct)
    case (1 n)
    show ?case
    proof (cases "drop_bit 7 n > 0")
      case True
      then obtain bs b where "varint (drop_bit 7 n) = bs @ [b]" "\<forall>x\<in>set bs. cont_byte x" "\<not> cont_byte b" using 1 by blast
      then have "varint n = (encoded_byte n # bs) @ [b]" "\<forall>x\<in>set (encoded_byte n # bs). cont_byte x"
        using True by (simp_all add: varint.simps [of n] cont_encoded)
      then show ?thesis using \<open>\<not> cont_byte b\<close> by blast
    next
      case False
      then have "varint n = [] @ [encoded_byte n]" "\<not> cont_byte (encoded_byte n)" by (simp_all add: varint.simps [of n] cont_encoded)
      then show ?thesis by (metis empty_iff list.set(1))
    qed
  qed
  then show ?thesis using that by blast
qed

definition copy_header :: "u8 list \<Rightarrow> 'p world \<Rightarrow> 'p world" where
  "copy_header bs w = fold copy_header_byte bs w"

lemma copy_header_simps [simp]:
  "copy_header [] w = w" "copy_header (b # bs) w = copy_header bs (copy_header_byte b w)"
  by (simp_all add: copy_header_def)

lemma copy_header_effect:
  assumes "length (ucRxFixedHeaderBuffer (w_ctx w)) = 5" and "unat (ulRxMessageReceivedLength (w_ctx w)) + length bs \<le> 5"
  shows "w_ctx (copy_header bs w) = (w_ctx w)\<lparr>
      ucRxFixedHeaderBuffer := blit (unat (ulRxMessageReceivedLength (w_ctx w))) bs (ucRxFixedHeaderBuffer (w_ctx w)),
      ulRxMessageReceivedLength := ulRxMessageReceivedLength (w_ctx w) + of_nat (length bs)\<rparr> \<and>
    w_pool (copy_header bs w) = w_pool w \<and> w_bufs (copy_header bs w) = w_bufs w \<and>
    w_trace (copy_header bs w) = w_trace w \<and> w_fault (copy_header bs w) = w_fault w"
  using assms
proof (induction bs arbitrary: w)
  case (Cons b bs)
  let ?w = "copy_header_byte b w" and ?k = "unat (ulRxMessageReceivedLength (w_ctx w))"
  have k: "?k \<le> 4" using Cons.prems(2) by simp
  note n = copy_header_next [OF Cons.prems(1) k, where b = b]
  have f: "w_fault ?w = w_fault w" using Cons.prems(1) k by (simp add: copy_header_byte_def Let_def frame_simps)
  have h: "ucRxFixedHeaderBuffer (w_ctx ?w) = blit ?k [b] (ucRxFixedHeaderBuffer (w_ctx w))"
    using Cons.prems(1) k by (simp add: frame_simps blit_single)
  have "w_ctx (copy_header bs ?w) = (w_ctx ?w)\<lparr>
      ucRxFixedHeaderBuffer := blit (Suc ?k) bs (ucRxFixedHeaderBuffer (w_ctx ?w)),
      ulRxMessageReceivedLength := ulRxMessageReceivedLength (w_ctx ?w) + of_nat (length bs)\<rparr>"
    using Cons.IH [of ?w] n(1,2) Cons.prems(2) by simp
  also have "blit (Suc ?k) bs (ucRxFixedHeaderBuffer (w_ctx ?w)) = blit ?k (b # bs) (ucRxFixedHeaderBuffer (w_ctx w))"
    using blit_append [of ?k "ucRxFixedHeaderBuffer (w_ctx w)" "[b]" bs] Cons.prems(1) k unfolding h by simp
  finally show ?case
    using Cons.IH [of ?w] n(1,2) Cons.prems(2) f by (simp add: frame_simps add.assoc)
qed simp

lemma parse_loop_header:
  assumes "xConnectionState (w_ctx w) \<noteq> eMQTTNotConnected"
    and "xRxNextByte (xRxMessageState (w_ctx w)) = eMQTTRxNextBytePacketLength"
    and "length (ucRxFixedHeaderBuffer (w_ctx w)) = 5" and "1 \<le> unat (ulRxMessageReceivedLength (w_ctx w))"
    and "unat (ulRxMessageReceivedLength (w_ctx w)) + length bs \<le> 4"
    and "\<forall>x\<in>set bs. cont_byte x" and "\<not> cont_byte b"
  shows "parse_loop E (bs @ b # rest) w = parse_loop E rest (header_complete E (copy_header (bs @ [b]) w))"
  using assms
proof (induction bs arbitrary: w)
  case Nil
  note n = copy_header_next [OF Nil(3), where b = b]
  show ?case
    using Nil n(1,3)
    by (subst parse_loop.simps)
      (auto simp: parse_step_def parse_packet_length_def Let_def cont_byte_def mqtt_length_defs)
next
  case (Cons x bs)
  let ?w = "copy_header_byte x w"
  note n = copy_header_next [OF Cons.prems(3), where b = x]
  have s: "parse_step E (x # bs @ b # rest) w = (None, bs @ b # rest, ?w)"
    using Cons.prems n(1,3)
    by (auto simp: parse_step_def parse_packet_length_def Let_def cont_byte_def mqtt_length_defs)
  have "parse_loop E (bs @ b # rest) ?w = parse_loop E rest (header_complete E (copy_header (bs @ [b]) ?w))"
    using Cons.prems n(1,2) by (intro Cons.IH) (simp_all add: frame_simps)
  then show ?case using s by (subst parse_loop.simps) simp
qed


section \<open>Complete packets\<close>

text \<open>The contexts differ in the state of the receiver only.\<close>

definition same_but_rx :: "MQTTContext_t \<Rightarrow> MQTTContext_t \<Rightarrow> bool" where
  "same_but_rx c c' \<longleftrightarrow> reset_rx (c'\<lparr>ucRxFixedHeaderBuffer := []\<rparr>) = reset_rx (c\<lparr>ucRxFixedHeaderBuffer := []\<rparr>)"

lemma same_but_rx_upd:
  "same_but_rx c (c\<lparr>ucRxFixedHeaderBuffer := a, ulRxMessageReceivedLength := b\<rparr>)"
  "same_but_rx c c' \<Longrightarrow> same_but_rx c (c'\<lparr>xRxBuffer := h\<rparr>)" "same_but_rx c c' \<Longrightarrow> same_but_rx c (c'\<lparr>xRxMessageState := s\<rparr>)"
  "same_but_rx c c' \<Longrightarrow> same_but_rx c (c'\<lparr>ulRxMessageReceivedLength := b\<rparr>)" "same_but_rx c c"
  by (simp_all add: same_but_rx_def reset_rx_def)

lemma same_but_rx_fields:
  assumes "same_but_rx c c'"
  shows "xTxBufferList c' = xTxBufferList c" "xConnectionState c' = xConnectionState c" "xSubscriptionManager c' = xSubscriptionManager c"
    "pxCallback c' = pxCallback c" "pvCallbackContext c' = pvCallbackContext c" "pxGetBufferFxn c' = pxGetBufferFxn c"
    "pxReturnBufferFxn c' = pxReturnBufferFxn c" "pxMQTTSendFxn c' = pxMQTTSendFxn c" "pvSendContext c' = pvSendContext c"
  using assms unfolding same_but_rx_def reset_rx_def by (cases c; cases c'; simp)+

text \<open>The state in which a handler is called: the packet \<open>p\<close> is in the buffer of the receiver.\<close>

definition holds_packet :: "u8 list \<Rightarrow> nat \<Rightarrow> 'p world \<Rightarrow> bool" where
  "holds_packet p n w \<longleftrightarrow> take (length p) (mb_data (rx_buf w)) = p \<and> length p \<le> length (mb_data (rx_buf w)) \<and>
     8 \<le> length (mb_data (rx_buf w)) \<and>
     unat (mb_ulDataLength (rx_buf w)) = length p \<and> rx_len_bytes w = n \<and>
     unat (ulTotalMessageLength (xRxMessageState (w_ctx w))) = length p"

definition handle_packet :: "'p mqtt_env \<Rightarrow> 'p world \<Rightarrow> 'p world" where
  "handle_packet E w = prvResetRxMessageState
     (if xRxBuffer (w_ctx w) = 0 then snd (prvInvokeCallback E eMQTTPacketDropped w) else prvProcessReceivedMQTTPacket E w)"

definition idle :: "'p world \<Rightarrow> bool" where
  "idle w \<longleftrightarrow> xRxNextByte (xRxMessageState (w_ctx w)) = eMQTTRxNextBytePacketType \<and>
     xConnectionState (w_ctx w) \<noteq> eMQTTNotConnected"

context sized_pool
begin

text \<open>The first byte and the length: the packet's header is in the header buffer.\<close>

lemma parse_loop_to_header:
  assumes "rx_ok w" and "idle w" and "length (varint n) \<le> 4"
  obtains w1 where "parse_loop E (ctl # varint n @ rest) w = parse_loop E rest (header_complete E w1)"
    "same_but_rx (w_ctx w) (w_ctx w1)" "xRxBuffer (w_ctx w1) = xRxBuffer (w_ctx w)"
    "w_pool w1 = w_pool w" "w_bufs w1 = w_bufs w" "w_trace w1 = w_trace w" "w_fault w1 = w_fault w"
    "length (ucRxFixedHeaderBuffer (w_ctx w1)) = 5"
    "\<exists>tl. ucRxFixedHeaderBuffer (w_ctx w1) = (ctl # varint n) @ tl"
    "unat (ulRxMessageReceivedLength (w_ctx w1)) = Suc (length (varint n))"
proof -
  have r: "length (ucRxFixedHeaderBuffer (w_ctx w)) = 5" "ulRxMessageReceivedLength (w_ctx w) = 0"
    and i: "xRxNextByte (xRxMessageState (w_ctx w)) = eMQTTRxNextBytePacketType" "xConnectionState (w_ctx w) \<noteq> eMQTTNotConnected"
    using assms(1,2) by (simp_all add: rx_ok_def idle_def)
  let ?v = "upd_rx_state (\<lambda>s. s\<lparr>xRxNextByte := eMQTTRxNextBytePacketLength\<rparr>) (copy_header_byte ctl w)"
  obtain bs b where v: "varint n = bs @ [b]" "\<forall>x\<in>set bs. cont_byte x" "\<not> cont_byte b" by (rule varint_split)
  have f: "length (ucRxFixedHeaderBuffer (w_ctx ?v)) = 5" "ulRxMessageReceivedLength (w_ctx ?v) = 1"
    "w_fault ?v = w_fault w"
    using r by (simp_all add: frame_simps copy_header_byte_def Let_def)
  have "parse_loop E (ctl # varint n @ rest) w = parse_loop E (bs @ b # rest) ?v"
    using i by (subst parse_loop.simps) (simp add: parse_step_def parse_packet_type_def v(1))
  also have "\<dots> = parse_loop E rest (header_complete E (copy_header (varint n) ?v))"
    unfolding v(1) using i f assms(3) v by (intro parse_loop_header) (simp_all add: frame_simps)
  finally have p: "parse_loop E (ctl # varint n @ rest) w = parse_loop E rest (header_complete E (copy_header (varint n) ?v))" .
  have "unat (ulRxMessageReceivedLength (w_ctx ?v)) + length (varint n) \<le> 5" using f(2) assms(3) by simp
  note e = copy_header_effect [OF f(1) this]
  have hd: "ucRxFixedHeaderBuffer (w_ctx ?v) = (ucRxFixedHeaderBuffer (w_ctx w))[0 := ctl]" using r by (simp add: frame_simps)
  have bl: "blit 1 (varint n) ((ucRxFixedHeaderBuffer (w_ctx w))[0 := ctl]) =
      (ctl # varint n) @ drop (1 + length (varint n)) (ucRxFixedHeaderBuffer (w_ctx w))"
    using r(1) by (cases "ucRxFixedHeaderBuffer (w_ctx w)") (auto simp: blit_def)
  show ?thesis
  proof (rule that [OF p])
    let ?w = "copy_header (varint n) ?v"
    show "same_but_rx (w_ctx w) (w_ctx ?w)" using e by (auto simp: frame_simps same_but_rx_def reset_rx_def)
    show "xRxBuffer (w_ctx ?w) = xRxBuffer (w_ctx w)" "w_pool ?w = w_pool w" "w_bufs ?w = w_bufs w" "w_trace ?w = w_trace w"
      "w_fault ?w = w_fault w" using e f(3) by (auto simp: frame_simps)
    show "length (ucRxFixedHeaderBuffer (w_ctx ?w)) = 5" "\<exists>tl. ucRxFixedHeaderBuffer (w_ctx ?w) = (ctl # varint n) @ tl"
      using e bl r(1) assms(3) unfolding hd f(2) by auto
    show "unat (ulRxMessageReceivedLength (w_ctx ?w)) = Suc (length (varint n))"
      using e f(2) assms(3) by (simp add: unat_add_u32 unat_of_nat_u32)
  qed
qed

text \<open>The body, when there is a buffer for the packet.\<close>

lemma parse_loop_store:
  assumes "xConnectionState (w_ctx w) \<noteq> eMQTTNotConnected"
    and "xRxNextByte (xRxMessageState (w_ctx w)) = eMQTTRxNextByteMessage"
    and "xRxMessageAction (xRxMessageState (w_ctx w)) = eMQTTRxMessageStore"
    and "unat (ulTotalMessageLength (xRxMessageState (w_ctx w)) - mb_ulDataLength (rx_buf w)) = length body" and "body \<noteq> []"
  shows "parse_loop E (body @ rest) w =
    parse_loop E rest (prvResetRxMessageState (prvProcessReceivedMQTTPacket E (copy_to_rx body w)))"
  using assms by (subst parse_loop.simps) (simp add: parse_step_def parse_store_def Let_def)

lemma parse_loop_drop:
  assumes "xConnectionState (w_ctx w) \<noteq> eMQTTNotConnected"
    and "xRxNextByte (xRxMessageState (w_ctx w)) = eMQTTRxNextByteMessage"
    and "xRxMessageAction (xRxMessageState (w_ctx w)) = eMQTTRxMessageDrop"
    and "unat (ulTotalMessageLength (xRxMessageState (w_ctx w)) - ulRxMessageReceivedLength (w_ctx w)) = length body" and "body \<noteq> []"
  shows "parse_loop E (body @ rest) w = parse_loop E rest (prvResetRxMessageState (snd (prvInvokeCallback E eMQTTPacketDropped
      (upd_ctx (\<lambda>c. c\<lparr>ulRxMessageReceivedLength := ulRxMessageReceivedLength c + of_nat (length body)\<rparr>) w))))"
  using assms by (subst parse_loop.simps) (simp add: parse_step_def parse_drop_def Let_def)

lemma received_packet:
  assumes "ok F E w" and "rx_hold (w_ctx w)" and "rx_ok w" and "idle w" and "body \<noteq> []" and "length body < 268435456"
  obtains w3 where "parse_loop E (mqtt_packet ctl body @ rest) w = parse_loop E rest (handle_packet E w3)"
    "same_but_rx (w_ctx w) (w_ctx w3)" "ok F E w3" "tx_keep w w3" "w_trace w3 = w_trace w" "w_fault w3 = w_fault w"
    "xRxBuffer (w_ctx w3) \<noteq> 0 \<Longrightarrow> holds_packet (mqtt_packet ctl body) (length (varint (of_nat (length body)))) w3"
    "xRxBuffer (w_ctx w3) = 0 \<longleftrightarrow>
       fst (get (w_pool w) (of_nat (length (mqtt_packet ctl body)) + sizeof_MQTTBufferMetadata)) = None"
proof -
  let ?n = "of_nat (length body) :: u32" and ?p = "mqtt_packet ctl body"
  have n: "unat ?n = length body" using assms(6) by (simp add: unat_of_nat_u32)
  have lv: "length (varint ?n) \<le> 4" using length_varint [of ?n] n assms(6) by simp
  have rx0: "xRxBuffer (w_ctx w) = 0" using assms(2,4) by (simp add: rx_hold_def idle_def)
  obtain w1 where p1: "parse_loop E (ctl # varint ?n @ (body @ rest)) w = parse_loop E (body @ rest) (header_complete E w1)"
    and s1: "same_but_rx (w_ctx w) (w_ctx w1)" and x1: "xRxBuffer (w_ctx w1) = 0"
    and k1: "w_pool w1 = w_pool w" "w_bufs w1 = w_bufs w" "w_trace w1 = w_trace w" "w_fault w1 = w_fault w"
    and l1: "length (ucRxFixedHeaderBuffer (w_ctx w1)) = 5"
    and h1: "\<exists>tl. ucRxFixedHeaderBuffer (w_ctx w1) = (ctl # varint ?n) @ tl"
    and r1: "unat (ulRxMessageReceivedLength (w_ctx w1)) = Suc (length (varint ?n))"
    using parse_loop_to_header [OF assms(3,4) lv, of E ctl "body @ rest"] rx0 by metis
  note f1 = same_but_rx_fields [OF s1]
  obtain tl where tl: "ucRxFixedHeaderBuffer (w_ctx w1) = (ctl # varint ?n) @ tl" using h1 by blast
  let ?tot = "?n + ulRxMessageReceivedLength (w_ctx w1)" and ?L = "length (varint ?n)"
  have d: "rx_decode (w_ctx w1) = (?L, ?tot)"
    using decode_ok [of ?n tl] n assms(6) by (simp add: rx_decode_def tl)
  have lp: "length ?p = length body + Suc ?L" by (simp add: mqtt_packet_def)
  have tot: "unat ?tot = length ?p" using n r1 lp assms(6) lv by (simp add: unat_add_u32)
  define v where "v = upd_rx_state (\<lambda>s. s\<lparr>ucRemaingingLengthFieldBytes := ?L, ulTotalMessageLength := ?tot\<rparr>) w1"
  have o1: "ok F E w1" by (rule pool_ok_cong [OF assms(1)]) (simp_all add: f1 k1 x1 rx0)
  have ov: "ok F E v" using o1 by (simp add: v_def ok_upd_rx_state)
  obtain h w2 where g: "prvGetFreeBuffer E ?tot v = (h, w2)" by fastforce
  note gb = get_buffer [OF ov g]
  have cv: "w_ctx v = (w_ctx w1)\<lparr>xRxMessageState := (xRxMessageState (w_ctx w1))\<lparr>ucRemaingingLengthFieldBytes := ?L,
      ulTotalMessageLength := ?tot\<rparr>\<rparr>" "w_pool v = w_pool w1" "w_bufs v = w_bufs w1" "w_trace v = w_trace w1" "w_fault v = w_fault w1"
    by (simp_all add: v_def frame_simps)
  let ?w3 = "upd_ctx (\<lambda>c. c\<lparr>xRxBuffer := h\<rparr>) w2"
  have z: "header_complete E w1 = (if h \<noteq> 0 then start_store h ?w3 else start_drop E ?w3)"
    using assms(5) tot r1 lp
    unfolding header_complete_def d Let_def prod.case v_def [symmetric] g
    by (auto simp: cv(1) split: if_splits)
  have none: "h = 0 \<longleftrightarrow> fst (get (w_pool w) (of_nat (length ?p) + sizeof_MQTTBufferMetadata)) = None"
  proof -
    have "?tot = of_nat (length ?p)" using tot by (metis unat_of_nat_u32 word_unat_eq_iff unat_u32_lt)
    moreover have "e_get E (pxGetBufferFxn (w_ctx v)) = get" "pinv (w_pool v)" using ov by (auto simp: pool_ok_def)
    ultimately show ?thesis
      using g get_some [of "w_pool v"] by (auto simp: prvGetFreeBuffer_def cv k1 split: prod.splits option.splits)
  qed
  have nc: "xConnectionState (w_ctx w1) \<noteq> eMQTTNotConnected" using assms(4) f1(2) by (simp add: idle_def)
  have pk: "mqtt_packet ctl body @ rest = ctl # varint ?n @ (body @ rest)" by (simp add: mqtt_packet_def)
  show ?thesis
  proof (cases "h = 0")
    case False
    let ?s = "start_store h ?w3"
    have b: "unat ?tot \<le> length (mb_data (w_bufs w2 h))" "8 \<le> length (mb_data (w_bufs w2 h))"
      using get_buffer_sized [OF ov g False] tot lp assms(6) lv by auto
    have cs: "w_ctx ?s = (w_ctx v)\<lparr>xRxBuffer := h, xRxMessageState := (xRxMessageState (w_ctx v))
        \<lparr>xRxNextByte := eMQTTRxNextByteMessage, xRxMessageAction := eMQTTRxMessageStore\<rparr>\<rparr>"
      "w_trace ?s = w_trace w" "w_pool ?s = w_pool w2"
      by (simp_all add: start_store_def Let_def frame_simps gb(1,2) cv k1)
    have hd: "take (Suc ?L) (ucRxFixedHeaderBuffer (w_ctx w1)) = ctl # varint ?n" by (simp add: tl)
    have rb: "rx_buf ?s = (w_bufs w2 h)\<lparr>mb_data := blit 0 (ctl # varint ?n) (mb_data (w_bufs w2 h)),
        mb_ulDataLength := ulRxMessageReceivedLength (w_ctx w1)\<rparr>" "w_fault ?s = w_fault w"
      using b lp tot lv r1 l1 hd
      by (simp_all add: rx_buf_def start_store_def Let_def frame_simps gb(1,3) cv m_need_ok m_blit_ok k1)
    have st: "store_ok ?L ?tot (rx_buf ?s)"
    proof -
      have "?L = 1 \<or> cont_byte (rdb (blit 0 (ctl # varint ?n) (mb_data (w_bufs w2 h))) 1)"
        using length_varint_step [of ?n] by (auto simp: blit_def varint.simps [of ?n] cont_encoded rdb_append1)
      then show ?thesis
        using b tot lp r1 lv assms(5) length_varint [of ?n] unfolding store_ok_def rb by (auto simp: Suc_le_eq split: if_splits)
    qed
    have ex: "unat (?tot - mb_ulDataLength (rx_buf ?s)) = length body"
      using tot lp r1 rb(1) by (simp add: n)
    let ?f = "copy_to_rx body ?s"
    have fb: "rx_buf ?f = (rx_buf ?s)\<lparr>mb_data := blit (unat (mb_ulDataLength (rx_buf ?s))) body (mb_data (rx_buf ?s)),
        mb_ulDataLength := mb_ulDataLength (rx_buf ?s) + of_nat (length body)\<rparr>" "w_fault ?f = w_fault ?s"
      using copy_to_rx_buf [OF st, of body] ex by simp_all
    have data: "mb_data (rx_buf ?f) = blit 0 ?p (mb_data (w_bufs w2 h))"
      using blit_append [of 0 "mb_data (w_bufs w2 h)" "ctl # varint ?n" body] r1
      unfolding fb rb by (simp add: mqtt_packet_def)
    have hp: "holds_packet ?p ?L ?f"
      using data b tot lp r1 n lv fb(1) rb(1) cs(1) cv(1)
      by (auto simp: holds_packet_def blit_def rx_len_bytes_def frame_simps add.commute)
    have os: "ok F E ?s"
    proof (rule ok_acquire [OF ov g False])
      have l: "lib_bufs (w_ctx ?s) = xTxBufferList (w_ctx v) @ [h]" "lib_bufs (w_ctx v) = xTxBufferList (w_ctx v)"
        using False x1 by (simp_all add: lib_bufs_def rx_list_def cs(1) cv(1))
      show "w_pool ?s = w_pool w2" "user_owned (w_trace ?s) = user_owned (w_trace v)" using cs cv k1 by simp_all
      show "distinct (lib_bufs (w_ctx ?s))" "set (lib_bufs (w_ctx ?s)) = insert h (set (lib_bufs (w_ctx v)))"
        using l fresh_not_lib [OF ov g False] ov by (simp_all add: pool_ok_def)
    qed (simp_all add: cs(1))
    have "tx_keep w ?s"
      using fresh_not_lib [OF ov g False] gb(7) [OF False] f1(1,2)
      by (auto simp: tx_keep_def start_store_def Let_def frame_simps gb(1) cv entry_def lib_bufs_def k1)
    then have tk: "tx_keep w ?f" by (rule tx_keep_trans [OF _ tx_keep_copy_to_rx [OF os]])
    show ?thesis
    proof (rule that [of ?f])
      show "parse_loop E (?p @ rest) w = parse_loop E rest (handle_packet E ?f)"
        unfolding pk p1 z using False nc ex assms(5) parse_loop_store [of ?s body E rest] cs(1) cv(1)
        by (simp add: handle_packet_def frame_simps)
      show "same_but_rx (w_ctx w) (w_ctx ?f)"
        using s1 by (simp add: frame_simps cs(1) cv(1) same_but_rx_upd)
      show "xRxBuffer (w_ctx ?f) = 0 \<longleftrightarrow> fst (get (w_pool w) (of_nat (length ?p) + sizeof_MQTTBufferMetadata)) = None"
        using none False cs(1) by (simp add: frame_simps)
    qed (use os tk hp cs(2) fb(2) rb(2) in \<open>simp_all add: ok_copy_to_rx frame_simps\<close>)
  next
    case True
    let ?s = "start_drop E ?w3"
    let ?f = "upd_ctx (\<lambda>c. c\<lparr>ulRxMessageReceivedLength := ulRxMessageReceivedLength c + of_nat (length body)\<rparr>) ?s"
    have cs: "w_ctx ?s = (w_ctx v)\<lparr>xRxBuffer := 0, xRxMessageState := (xRxMessageState (w_ctx v))
        \<lparr>xRxNextByte := eMQTTRxNextByteMessage, xRxMessageAction := eMQTTRxMessageDrop\<rparr>\<rparr>"
      "w_trace ?s = w_trace w" "w_pool ?s = w_pool w2" "w_bufs ?s = w_bufs w" "w_fault ?s = w_fault w"
      using True gb(5) [OF True]
      by (simp_all add: start_drop_def Let_def frame_simps return_rx_def prvReturnBuffer_def gb(1,2,3) cv k1)
    have o2: "ok F E w2" using ok_get_none [OF ov] g True by simp
    have of: "ok F E ?f"
      by (rule pool_ok_cong [OF o2]) (simp_all add: frame_simps cs cv k1 gb(1,2) x1)
    show ?thesis
    proof (rule that [of ?f])
      show "parse_loop E (?p @ rest) w = parse_loop E rest (handle_packet E ?f)"
        unfolding pk p1 z using True nc assms(5) parse_loop_drop [of ?s body E rest] cs(1) cv(1) n
        by (simp add: handle_packet_def frame_simps)
      show "same_but_rx (w_ctx w) (w_ctx ?f)" using s1 by (simp add: frame_simps cs(1) cv(1) same_but_rx_upd)
      show "tx_keep w ?f" using f1(1,2) by (intro tx_keep_same) (simp_all add: frame_simps cs cv)
      show "xRxBuffer (w_ctx ?f) = 0 \<longleftrightarrow> fst (get (w_pool w) (of_nat (length ?p) + sizeof_MQTTBufferMetadata)) = None"
        using none True cs(1) by (simp add: frame_simps)
    qed (use of cs in \<open>simp_all add: frame_simps\<close>)
  qed
qed

end

end
