(* ===== verification/MqttBroker.thy ===== *)
theory MqttBroker
  imports MqttReceive
begin

text \<open>
  What the packets of the broker do in the firmware: independence of the fragmentation of the
  stream, the answer to a CONNECT, and the packets that are sent to it.
\<close>

section \<open>A stream in pieces\<close>

text \<open>The network task calls the parser for each piece and stops at the first error.\<close>

fun parse_pieces :: "'p mqtt_env \<Rightarrow> u8 list list \<Rightarrow> 'p world \<Rightarrow> MQTTReturnCode_t \<times> 'p world" where
  "parse_pieces E [] w = (eMQTTSuccess, w)"
| "parse_pieces E (bs # bss) w =
     (case MQTT_ParseReceivedData E bs (length bs) w of (rc, w') \<Rightarrow>
        if rc = eMQTTSuccess then parse_pieces E bss w' else (rc, w'))"

lemma parse_all: "MQTT_ParseReceivedData E bs (length bs) w = parse_loop E bs w"
  by (simp add: MQTT_ParseReceivedData_def chk_def)

lemma firmware_parse:
  assumes "firmware_state E w F"
  shows "firmware_state E (snd (parse_loop E bs w)) F"
  using firmware_step [OF assms, of "CallParse bs (length bs)"] by (simp add: parse_all)

lemma parse_pieces_concat:
  "firmware_state E w F \<Longrightarrow> parse_pieces E bss w = parse_loop E (concat bss) w"
proof (induction bss arbitrary: w)
  case (Cons bs bss)
  show ?case
    using spool.parse_loop_append [OF firmware_ok [OF Cons.prems] firmware_rx [OF Cons.prems], of bs "concat bss"]
      Cons.IH firmware_parse [OF Cons.prems, of bs]
    by (auto simp: parse_all split: prod.splits)
qed (simp add: parse_loop.simps)

section \<open>A packet for the firmware\<close>

text \<open>A packet that arrives while no other packet is being received.\<close>

lemma firmware_packet:
  assumes "firmware_state E w F" and "idle w" and "body \<noteq> []" and "length body < 268435456"
  obtains w3 where "MQTT_ParseReceivedData E (mqtt_packet ctl body) (length (mqtt_packet ctl body)) w = (eMQTTSuccess, handle_packet E w3)"
    "same_but_rx (w_ctx w) (w_ctx w3)" "bpool.ok F E w3" "tx_keep w w3" "w_trace w3 = w_trace w" "w_fault w3 = w_fault w"
    "xRxBuffer (w_ctx w3) \<noteq> 0 \<Longrightarrow> holds_packet (mqtt_packet ctl body) (length (varint (of_nat (length body)))) w3"
    "xRxBuffer (w_ctx w3) = 0 \<longleftrightarrow> fst (BUFFERPOOL_GetFreeBuffer (w_pool w) (of_nat (length (mqtt_packet ctl body)) + 32)) = None"
proof (rule spool.received_packet [OF firmware_ok [OF assms(1)] firmware_rx [OF assms(1)] assms(2-4), of ctl "[]"])
  fix w3
  assume p: "parse_loop E (mqtt_packet ctl body @ []) w = parse_loop E [] (handle_packet E w3)"
    and r: "same_but_rx (w_ctx w) (w_ctx w3)" "bpool.ok F E w3" "tx_keep w w3" "w_trace w3 = w_trace w" "w_fault w3 = w_fault w"
    and h: "xRxBuffer (w_ctx w3) \<noteq> 0 \<Longrightarrow> holds_packet (mqtt_packet ctl body) (length (varint (of_nat (length body)))) w3"
    and n: "xRxBuffer (w_ctx w3) = 0 \<longleftrightarrow>
       fst (BUFFERPOOL_GetFreeBuffer (w_pool w) (of_nat (length (mqtt_packet ctl body)) + sizeof_MQTTBufferMetadata)) = None"
  have e: "MQTT_ParseReceivedData E (mqtt_packet ctl body) (length (mqtt_packet ctl body)) w = (eMQTTSuccess, handle_packet E w3)"
    using p unfolding append_Nil2 parse_all by (simp only: parse_loop.simps [of E "[]"] simp_thms if_False)
  show ?thesis by (rule that [OF e r h n [unfolded sizeof_MQTTBufferMetadata_def]])
qed

lemma holds_byte: "holds_packet p n w \<Longrightarrow> i < length p \<Longrightarrow> rdb (mb_data (rx_buf w)) i = p ! i"
  by (metis holds_packet_def rdb_take rdb_nth)

lemma small_packets:
  "mqtt_packet c [a, b] = [c, 2, a, b]" "mqtt_packet c [a, b, d] = [c, 3, a, b, d]"
  "varint 2 = [2]" "varint 3 = [3]"
proof -
  show v: "varint 2 = [2]" "varint 3 = [3]" by code_simp+
  show "mqtt_packet c [a, b] = [c, 2, a, b]" "mqtt_packet c [a, b, d] = [c, 3, a, b, d]"
    by (simp_all add: mqtt_packet_def v)
qed


section \<open>Events\<close>

text \<open>The events reported to the callback of the connection, newest first.\<close>

fun events :: "obs list \<Rightarrow> MQTTEventCallbackParams_t list" where
  "events [] = []"
| "events (OEvent ev b # tr) = ev # events tr"
| "events (ob # tr) = events tr"

definition notify :: "MQTTContext_t \<Rightarrow> MQTTEventCallbackParams_t \<Rightarrow> MQTTEventCallbackParams_t list" where
  "notify c ev = (if pxCallback c = None then [] else [ev])"

lemma events_invoke:
  assumes "\<And>pd. ev \<noteq> eMQTTPublish pd"
  shows "events (w_trace (snd (prvInvokeCallback E ev w))) = notify (w_ctx w) ev @ events (w_trace w)"
    "sent_data (w_trace (snd (prvInvokeCallback E ev w))) = sent_data (w_trace w)"
  using assms by (cases ev; auto simp: prvInvokeCallback_def Let_def frame_simps notify_def split: option.splits)+

lemma events_ticks: "prvGetCurrentTickCount E w = (t, w') \<Longrightarrow> events (w_trace w') = events (w_trace w)"
  by (auto dest!: ticks_frame(5) split: option.splits)

lemma events_send: "prvSendData E d n w = (rc, w') \<Longrightarrow> events (w_trace w') = events (w_trace w)"
  by (auto simp: prvSendData_def Let_def frame_simps split: if_splits prod.splits dest!: events_ticks)

lemma fold_return_frame:
  "w_trace (fold (prvReturnBuffer E) hs w) = w_trace w" "w_fault (fold (prvReturnBuffer E) hs w) = w_fault w"
  "pxCallback (w_ctx (fold (prvReturnBuffer E) hs w)) = pxCallback (w_ctx w)"
  by (induction hs arbitrary: w) (simp_all add: return_frame)

lemma reset_frame:
  "w_trace (prvResetMQTTContext E w) = w_trace w" "w_fault (prvResetMQTTContext E w) = w_fault w"
  "pxCallback (w_ctx (prvResetMQTTContext E w)) = pxCallback (w_ctx w)"
  by (simp_all add: prvResetMQTTContext_def Let_def frame_simps prvResetRxMessageState_def reset_rx_def return_frame fold_return_frame)

lemma disconnect_frame:
  "events (w_trace (disconnect_with E r w)) = notify (w_ctx w) (eMQTTClientDisconnected r) @ events (w_trace w)"
  "sent_data (w_trace (disconnect_with E r w)) = sent_data (w_trace w)"
  "w_fault (disconnect_with E r w) = w_fault w"
  by (simp_all add: disconnect_with_def events_invoke invoke_event(4) reset_frame notify_def)

lemma return_rx_frame:
  "w_trace (return_rx E w) = w_trace w" "w_fault (return_rx E w) = w_fault w"
  "xConnectionState (w_ctx (return_rx E w)) = xConnectionState (w_ctx w)"
  "xRxBuffer (w_ctx w) \<notin> set (xTxBufferList (w_ctx w)) \<Longrightarrow> xTxBufferList (w_ctx (return_rx E w)) = xTxBufferList (w_ctx w)"
  by (auto simp: return_rx_def return_frame remove1_idem)

lemma reset_rx_frame:
  "w_trace (prvResetRxMessageState w) = w_trace w" "w_fault (prvResetRxMessageState w) = w_fault w"
  "xConnectionState (w_ctx (prvResetRxMessageState w)) = xConnectionState (w_ctx w)"
  "xTxBufferList (w_ctx (prvResetRxMessageState w)) = xTxBufferList (w_ctx w)"
  "xSubscriptionManager (w_ctx (prvResetRxMessageState w)) = xSubscriptionManager (w_ctx w)"
  "w_pool (prvResetRxMessageState w) = w_pool w"
  by (simp_all add: prvResetRxMessageState_def frame_simps reset_rx_def)

section \<open>The answer to a CONNECT\<close>

text \<open>The events that the answer with return code \<open>c\<close> leads to, newest first.\<close>

definition connack_events :: "MQTTContext_t \<Rightarrow> u16 \<Rightarrow> u8 \<Rightarrow> MQTTEventCallbackParams_t list" where
  "connack_events ctx i c =
     (if c = 0 then notify ctx (eMQTTConnACK eMQTTConnACKConnectionAccepted i)
      else if c \<le> 5 then notify ctx (eMQTTClientDisconnected eMQTTDisconnectReasonBrokerRefusedConnection) @
        notify ctx (eMQTTConnACK (refused_code c) i)
      else notify ctx (eMQTTClientDisconnected eMQTTDisconnectReasonMalformedPacket))"

lemma search_connect_found:
  assumes "xTxBufferList (w_ctx w) = [h]" and "connect_entry (entry w h)"
  shows "prvPacketTypeFlagsGetTxBuffer w mqttCONTROL_CONNECT mqttFLAGS_CONNECT = h"
  using assms entry_control(1) [OF assms(2)] by (simp add: tx_search_defs mqtt_control_defs)

lemma CONNACK_effect:
  assumes "bpool.ok F E w" and "xConnectionState (w_ctx w) = eMQTTConnectionInProgress" and "conn_inv w"
    and "holds_packet [0x20, 2, f, c] 1 w" and "xRxBuffer (w_ctx w) \<noteq> 0"
  obtains h where "xTxBufferList (w_ctx w) = [h]"
    "events (w_trace (handle_packet E w)) = connack_events (w_ctx w) (mb_usPacketIdentifier (w_bufs w h)) c @ events (w_trace w)"
    "xTxBufferList (w_ctx (handle_packet E w)) = []" "w_fault (handle_packet E w) = w_fault w"
    "xConnectionState (w_ctx (handle_packet E w)) = (if c = 0 then eMQTTConnected else eMQTTNotConnected)"
    "c = 0 \<Longrightarrow> xSubscriptionManager (w_ctx (handle_packet E w)) = xSubscriptionManager (w_ctx w) \<and>
       user_owned (w_trace (handle_packet E w)) = user_owned (w_trace w)"
proof -
  let ?d = "mb_data (rx_buf w)"
  obtain h where tx: "xTxBufferList (w_ctx w) = [h]" and ce: "connect_entry (entry w h)"
    using assms(2,3) by (auto simp: conn_inv_def)
  have h0: "h \<noteq> 0" using bpool.ok_distinct(3) [OF assms(1)] tx by simp
  have rx: "xRxBuffer (w_ctx w) \<noteq> h" using bpool.ok_distinct(2) [OF assms(1)] tx by simp
  let ?i = "mb_usPacketIdentifier (w_bufs w h)"
  note b = holds_byte [OF assms(4)]
  have d: "rdb ?d 0 = 0x20" "rdb ?d 3 = c" "take 2 ?d = [0x20, 2]" "3 < length ?d" "unat (mb_ulDataLength (rx_buf w)) = 4"
  proof -
    have q: "take 4 ?d = [0x20, 2, f, c]" "4 \<le> length ?d" "unat (mb_ulDataLength (rx_buf w)) = 4"
      using assms(4) by (simp_all add: holds_packet_def numeral_eq_Suc)
    have "take 2 ?d = [0x20, 2]" using arg_cong [OF q(1), of "take 2"] by simp
    with q show "rdb ?d 0 = 0x20" "rdb ?d 3 = c" "take 2 ?d = [0x20, 2]" "3 < length ?d" "unat (mb_ulDataLength (rx_buf w)) = 4"
      using b [of 0] b [of 3] by simp_all
  qed
  have pk: "handle_packet E w = prvResetRxMessageState (prvProcessReceivedCONNACK E w)"
    using assms(5) d(1) by (simp add: handle_packet_def prvProcessReceivedMQTTPacket_def Let_def control_byte_def mqtt_control_defs)
  obtain oc w1 where e: "connack_examine E h w = (oc, w1)" by fastforce
  have c5: "1 \<le> c \<longleftrightarrow> c \<noteq> 0" by (simp add: word_le_nat_alt Suc_le_eq unat_gt_0)
  have oc: "oc = (if c = 0 then ConnEstablished else if c \<le> 5 then ConnRefused else ConnMalformed)"
    and ev: "events (w_trace w1) = (if c = 0 then notify (w_ctx w) (eMQTTConnACK eMQTTConnACKConnectionAccepted ?i)
       else if c \<le> 5 then notify (w_ctx w) (eMQTTConnACK (refused_code c) ?i) else []) @ events (w_trace w)"
    and fa: "w_fault w1 = w_fault w" and cx: "w_ctx w1 = w_ctx w" and ow: "user_owned (w_trace w1) = user_owned (w_trace w)"
    using e d(1,2,4,5) d(3) [unfolded numeral_2_eq_2] c5
    by (auto simp: connack_examine_def Let_def ucDefaultCONNACKParameters_def mqtt_control_defs mqtt_length_defs
        events_invoke invoke_event frame_simps notify_def split: if_splits)
  let ?w2 = "prvReturnBuffer E h w1"
  have w2: "w_ctx ?w2 = (w_ctx w)\<lparr>xTxBufferList := []\<rparr>" "w_trace ?w2 = w_trace w1" "w_fault ?w2 = w_fault w"
    using h0 tx cx fa by (simp_all add: return_frame)
  let ?w3 = "upd_ctx (\<lambda>c. c\<lparr>xConnectionState := eMQTTConnected\<rparr>) ?w2"
  obtain t w4 where t: "prvGetCurrentTickCount E ?w3 = (t, w4)" by fastforce
  note t4 = ticks_frame(1,4) [OF t] events_ticks [OF t]
  have o2: "bpool.ok F E ?w2"
    using bpool.ok_return_tx [OF bpool.ok_connack_examine(1) [OF assms(1) e], of h] cx tx by simp
  have r: "handle_packet E w = prvResetRxMessageState (return_rx E (case oc of
       ConnRefused \<Rightarrow> disconnect_with E eMQTTDisconnectReasonBrokerRefusedConnection ?w2
     | ConnMalformed \<Rightarrow> disconnect_with E eMQTTDisconnectReasonMalformedPacket ?w2
     | ConnEstablished \<Rightarrow> upd_ctx (\<lambda>c. c\<lparr>xLastSentMessageTimestamp := t,
         ulNextPeriodicInvokeTicks := ulKeepAliveActualIntervalTicks c, xWaitingForPingResp := False\<rparr>) w4
     | ConnNone \<Rightarrow> ?w2))"
    unfolding pk prvProcessReceivedCONNACK_def search_connect_found [OF tx ce] Let_def e using h0 t
    by (simp add: e split: connack_outcome.split)
  show ?thesis
  proof (rule that [OF tx])
    show "events (w_trace (handle_packet E w)) = connack_events (w_ctx w) ?i c @ events (w_trace w)"
      unfolding r oc connack_events_def using ev w2 t4
      by (auto simp: reset_rx_frame return_rx_frame disconnect_frame frame_simps notify_def)
    show "w_fault (handle_packet E w) = w_fault w"
      unfolding r oc using w2 t4 by (auto simp: reset_rx_frame return_rx_frame disconnect_frame frame_simps)
    show "xTxBufferList (w_ctx (handle_packet E w)) = []"
      unfolding r oc using w2 t4 bpool.ok_disconnect_with(2,3) [OF o2]
      by (auto simp: reset_rx_frame return_rx_frame disconnect_frame frame_simps return_rx_def return_frame)
    show "xConnectionState (w_ctx (handle_packet E w)) = (if c = 0 then eMQTTConnected else eMQTTNotConnected)"
      unfolding r oc using w2 t4 by (auto simp: reset_rx_frame return_rx_frame disconnect_fields frame_simps)
    show "xSubscriptionManager (w_ctx (handle_packet E w)) = xSubscriptionManager (w_ctx w) \<and>
       user_owned (w_trace (handle_packet E w)) = user_owned (w_trace w)" if "c = 0"
    proof -
      have "user_owned (w_trace w4) = user_owned (w_trace w1)" using w2(2) ticks_frame(5) [OF t] by (auto simp: frame_simps split: option.splits)
      then show ?thesis
        unfolding r oc using that w2 t4 ow by (simp add: reset_rx_frame return_rx_frame frame_simps return_rx_def return_frame)
    qed
  qed
qed


lemma connack_answer:
  assumes "firmware_state E w F" and "idle w" and "xConnectionState (w_ctx w) = eMQTTConnectionInProgress"
    and "card (pool_inuse (w_pool w)) < 8"
    and "MQTT_ParseReceivedData E [0x20, 2, f, c] 4 w = (rc, w')"
  shows "rc = eMQTTSuccess \<and> xTxBufferList (w_ctx w') = [] \<and>
    xConnectionState (w_ctx w') = (if c = 0 then eMQTTConnected else eMQTTNotConnected) \<and> w_fault w' = w_fault w \<and>
    (\<exists>i. events (w_trace w') = connack_events (w_ctx w) i c @ events (w_trace w)) \<and>
    (c = 0 \<longrightarrow> xSubscriptionManager (w_ctx w') = xSubscriptionManager (w_ctx w) \<and> user_owned (w_trace w') = user_owned (w_trace w))"
proof -
  obtain w3 where p: "MQTT_ParseReceivedData E (mqtt_packet 0x20 [f, c]) (length (mqtt_packet 0x20 [f, c])) w = (eMQTTSuccess, handle_packet E w3)"
    and s: "same_but_rx (w_ctx w) (w_ctx w3)" and o: "bpool.ok F E w3" and k: "tx_keep w w3"
    and tr: "w_trace w3 = w_trace w" "w_fault w3 = w_fault w"
    and h: "xRxBuffer (w_ctx w3) \<noteq> 0 \<Longrightarrow> holds_packet (mqtt_packet 0x20 [f, c]) (length (varint (of_nat (length [f, c])))) w3"
    and n: "xRxBuffer (w_ctx w3) = 0 \<longleftrightarrow> fst (BUFFERPOOL_GetFreeBuffer (w_pool w) (of_nat (length (mqtt_packet 0x20 [f, c])) + 32)) = None"
    by (rule firmware_packet [OF assms(1,2), where body = "[f, c]" and ctl = "0x20"]) simp_all
  have rx: "xRxBuffer (w_ctx w3) \<noteq> 0" using n get_buffer_available [OF _ _ assms(4), of 36] firmware_ok(1) [OF assms(1)]
    by (simp add: small_packets pool_ok_def)
  have hp: "holds_packet [0x20, 2, f, c] 1 w3" using h [OF rx] by (simp add: small_packets)
  have st: "xConnectionState (w_ctx w3) = eMQTTConnectionInProgress" using assms(3) same_but_rx_fields(2) [OF s] by simp
  have cv: "connack_events (w_ctx w3) = connack_events (w_ctx w)"
    using same_but_rx_fields(4) [OF s] by (auto simp: connack_events_def notify_def fun_eq_iff)
  have w': "rc = eMQTTSuccess" "w' = handle_packet E w3" using p assms(5) by (simp_all add: small_packets numeral_eq_Suc)
  show ?thesis
    by (rule CONNACK_effect [OF o st conn_keep [OF firmware_conn [OF assms(1)] k] hp rx]) (use w' tr cv same_but_rx_fields(3) [OF s] in auto)
qed

section \<open>Properties\<close>

text \<open>
  C7. The way the network cuts the stream of bytes into pieces does not matter. In every state
  the firmware can reach, feeding the pieces of a stream to \<open>MQTT_ParseReceivedData\<close> one
  after the other, until the first error, gives the same return code and the same final
  state as feeding the whole stream at once.
\<close>

theorem stream_fragmentation:
  assumes "firmware_state E w F"
  shows "parse_pieces E bss w = MQTT_ParseReceivedData E (concat bss) (length (concat bss)) w"
  using parse_pieces_concat [OF assms] by (simp add: parse_all)

theorem stream_fragmentation_witness:
  "parse_pieces example_env [[0x20], [2, 0], [0]] example_connecting =
     MQTT_ParseReceivedData example_env [0x20, 2, 0, 0] 4 example_connecting"
  using stream_fragmentation [OF example_connecting_state, of "[[0x20], [2, 0], [0]]"]
  unfolding concat.simps append_Cons append_Nil list.size by (simp add: numeral_eq_Suc)

text \<open>
  C8. The answer to a CONNECT. While a connection is being established and a buffer is free,
  a CONNACK with return code 0 establishes the connection, any other return code ends
  it; the CONNECT packet no longer waits, the user is told the broker's answer and, if
  there is one, the reason for the disconnection, and no access is out of bounds.
\<close>

theorem connack_answers_connect:
  assumes "firmware_state E w F" and "idle w" and "xConnectionState (w_ctx w) = eMQTTConnectionInProgress"
    and "card (pool_inuse (w_pool w)) < 8"
    and "MQTT_ParseReceivedData E [0x20, 2, f, c] 4 w = (rc, w')"
  shows "rc = eMQTTSuccess \<and> xTxBufferList (w_ctx w') = [] \<and>
    xConnectionState (w_ctx w') = (if c = 0 then eMQTTConnected else eMQTTNotConnected) \<and> w_fault w' = w_fault w \<and>
    (\<exists>i. events (w_trace w') = connack_events (w_ctx w) i c @ events (w_trace w))"
  using connack_answer [OF assms] by blast

definition example_connected :: "bufferpool world" where
  "example_connected = snd (MQTT_ParseReceivedData example_env [0x20, 2, 0, 0] 4 example_connecting)"

lemma example_connected_state: "firmware_state example_env example_connected {}"
  using firmware_step [OF example_connecting_state, of "CallParse [0x20, 2, 0, 0] 4"] by (simp add: example_connected_def)


lemma make_packet_owned: "user_owned (w_trace (snd (snd (make_packet E rl to i build w)))) = user_owned (w_trace w)"
  by (auto simp: make_packet_def Let_def prvGetFreeBuffer_def frame_simps begin_tx_frame split: prod.splits option.splits)

lemma transmit_owned: "transmit E rc h w = (rc', w') \<Longrightarrow> user_owned (w_trace w') = user_owned (w_trace w)"
  by (auto simp: transmit_def send_owned split: if_splits)

lemma make_packet_manager:
  "xSubscriptionManager (w_ctx (snd (snd (make_packet E rl to i build w)))) = xSubscriptionManager (w_ctx w)"
  by (auto simp: make_packet_def Let_def prvGetFreeBuffer_def frame_simps begin_tx_frame finish_tx_def with_data_def split: prod.splits option.splits)

lemma transmit_manager: "transmit E rc h w = (rc', w') \<Longrightarrow> xSubscriptionManager (w_ctx w') = xSubscriptionManager (w_ctx w)"
  by (auto simp: transmit_def send_fields split: if_splits)

lemma few_buffers:
  assumes "firmware_state E w {}" and "user_owned (w_trace w) = {}" and "length (xTxBufferList (w_ctx w)) \<le> 1"
  shows "card (pool_inuse (w_pool w)) < 8" "pool_placed (w_pool w)"
proof -
  have "pool_inuse (w_pool w) = set (lib_bufs (w_ctx w))"
    using firmware_ok(1) [OF assms(1)] assms(2) by (simp add: pool_ok_def)
  moreover have "card (set (lib_bufs (w_ctx w))) \<le> length (lib_bufs (w_ctx w))" by (rule card_length)
  moreover have "length (lib_bufs (w_ctx w)) \<le> 2" using assms(3) by (simp add: lib_bufs_def rx_list_def)
  ultimately show "card (pool_inuse (w_pool w)) < 8" by simp
  show "pool_placed (w_pool w)" using firmware_ok(1) [OF assms(1)] by (simp add: pool_ok_def)
qed

lemma example_packet:
  assumes "pool_placed (w_pool w)" and "card (pool_inuse (w_pool w)) < 8" and "rl \<in> {8, 16}"
  obtains h w' where "make_packet example_env rl to i build w = (eMQTTSuccess, h, w')"
    "fst (transmit example_env eMQTTSuccess h w') = eMQTTSuccess"
proof -
  let ?n = "rl + 34"
  have n: "?n \<le> 2176" using assms(3) by auto
  obtain h m p where g: "BUFFERPOOL_GetFreeBuffer (w_pool w) ?n = (Some (h, m), p)"
    using get_buffer_available [OF assms(1) n assms(2)] by (cases "BUFFERPOOL_GetFreeBuffer (w_pool w) ?n") auto
  moreover have "h \<noteq> 0" using g bpool.get_some [OF assms(1)] by blast
  moreover have "e_get example_env x = BUFFERPOOL_GetFreeBuffer" for x by (simp add: example_env_def)
  moreover have "prvSizeOfRemainingLength rl = 1" "mqttTOTAL_MESSAGE_LENGTH 1 rl + sizeof_MQTTBufferMetadata = ?n"
    using assms(3) by (auto simp: prvSizeOfRemainingLength_def mqttTOTAL_MESSAGE_LENGTH_def sizeof_MQTTBufferMetadata_def)
  ultimately obtain w' where "make_packet example_env rl to i build w = (eMQTTSuccess, h, w')"
    by (simp add: make_packet_def prvGetFreeBuffer_def Let_def add.commute)
  moreover have "fst (transmit example_env eMQTTSuccess h w') = eMQTTSuccess"
    by (simp add: transmit_def prvSendData_def Let_def example_env_def split: prod.split)
  ultimately show thesis by (rule that)
qed

lemma example_connecting_facts:
  "xConnectionState (w_ctx example_connecting) = eMQTTConnectionInProgress" "idle example_connecting"
  "card (pool_inuse (w_pool example_connecting)) < 8" "user_owned (w_trace example_connecting) = {}"
  "xSubscriptionManager (w_ctx example_connecting) = xSubscriptionManager (w_ctx example_start)"
proof -
  let ?s = "upd_ctx (\<lambda>c. c\<lparr>ulKeepAliveActualIntervalTicks := cp_ulKeepAliveActualIntervalTicks example_connect,
      ulPingRequestTimeoutTicks := cp_ulPingRequestTimeoutTicks example_connect\<rparr>) example_start"
  have s: "xConnectionState (w_ctx example_start) = eMQTTNotConnected" "w_pool ?s = example_pool" "xTxBufferList (w_ctx example_start) = []"
    "xRxNextByte (xRxMessageState (w_ctx example_start)) = eMQTTRxNextBytePacketType"
    by (simp_all add: example_start_def MQTT_Init_def Let_def frame_simps prvResetRxMessageState_def example_world_def reset_rx_def)
  have l: "connect_remaining_length example_connect = 16" by (simp add: connect_remaining_length_def example_connect_def mqttSTRLEN_def)
  have "pool_inuse example_pool = {}" by (simp add: pool_inuse_def example_pool_def)
  then have pl: "pool_placed (w_pool ?s)" "card (pool_inuse (w_pool ?s)) < 8" using example_pool_placed s(2) by simp_all
  obtain h' w' where m: "make_packet example_env 16 (cp_ulTimeoutTicks example_connect)
      (cp_usPacketIdentifier example_connect) (build_connect example_connect) ?s = (eMQTTSuccess, h', w')"
      "fst (transmit example_env eMQTTSuccess h' w') = eMQTTSuccess"
    using example_packet [OF pl insertI2 [OF singletonI]] by blast
  then obtain w'' where t: "transmit example_env eMQTTSuccess h' w' = (eMQTTSuccess, w'')" by (metis prod.collapse)
  have c: "example_connecting = upd_ctx (\<lambda>c. c\<lparr>xConnectionState := eMQTTConnectionInProgress\<rparr>) w''"
    using m(1) t s(1) l by (simp add: example_connecting_def MQTT_Connect_def connect_packet_def)
  show p: "xConnectionState (w_ctx example_connecting) = eMQTTConnectionInProgress" unfolding c by (simp add: frame_simps)
  show i: "idle example_connecting"
    using p s(4) rx_part_ops(1) [of example_env example_connect example_start] by (simp add: idle_def example_connecting_def rx_part_def)
  have "user_owned (w_trace ?s) = {}"
    by (simp add: frame_simps example_start_def MQTT_Init_def Let_def prvResetRxMessageState_def example_world_def)
  then have "user_owned (w_trace w') = {}"
    using make_packet_owned [of example_env 16 "cp_ulTimeoutTicks example_connect" "cp_usPacketIdentifier example_connect"
        "build_connect example_connect" ?s] unfolding m by simp
  then show o: "user_owned (w_trace example_connecting) = {}"
    unfolding c using transmit_owned [OF t] by (simp add: frame_simps)
  show "xSubscriptionManager (w_ctx example_connecting) = xSubscriptionManager (w_ctx example_start)"
    using make_packet_manager [of example_env 16 "cp_ulTimeoutTicks example_connect" "cp_usPacketIdentifier example_connect"
        "build_connect example_connect" ?s] transmit_manager [OF t] unfolding c m by (simp add: frame_simps)
  show "card (pool_inuse (w_pool example_connecting)) < 8"
    using few_buffers [OF example_connecting_state o] firmware_conn [OF example_connecting_state] p by (auto simp: conn_inv_def)
qed

theorem connack_answers_connect_witness:
  "xConnectionState (w_ctx example_connected) = eMQTTConnected \<and> xTxBufferList (w_ctx example_connected) = []"
  using connack_answers_connect [OF example_connecting_state example_connecting_facts(2,1,3) prod.collapse [symmetric], of 0 0]
  by (simp add: example_connected_def)

text \<open>
  C9. \<open>MQTT_Publish\<close> sends the right bytes. In every reachable connected state and for
  arguments within the limits of the protocol, it hands exactly one packet to the send
  function, the PUBLISH packet with the given topic, quality of service, packet
  identifier (for QoS 1) and payload, and never writes outside its buffer; only when
  the pool has no buffer does it send nothing.
\<close>

theorem publish_sends_packet:
  assumes "firmware_state E w F" and "publish_params_ok pp" and "xConnectionState (w_ctx w) = eMQTTConnected"
    and "MQTT_Publish E pp w = (rc, w')"
  shows "w_fault w' = w_fault w \<and> rc \<in> {eMQTTSuccess, eMQTTSendFailed, eMQTTNoFreeBuffer} \<and>
    sent_data (w_trace w') = (if rc = eMQTTNoFreeBuffer then []
      else [mqtt_packet (publish_control (pp_xQos pp)) (publish_body pp)]) @ sent_data (w_trace w)"
  by (rule bpool.Publish_bytes [OF firmware_ok(1) [OF assms(1)] assms(2-4)])

lemma example_is_connected: "xConnectionState (w_ctx example_connected) = eMQTTConnected"
  using connack_answer [OF example_connecting_state example_connecting_facts(2,1,3) prod.collapse [symmetric], of 0 0]
  by (simp add: example_connected_def)

definition example_publish :: MQTTPublishParams_t where
  "example_publish = \<lparr>pp_pucTopic = [97, 47, 98], pp_usTopicLength = 3, pp_xQos = eMQTTQoS1, pp_pvData = [1, 2],
     pp_ulDataLength = 2, pp_usPacketIdentifier = 7, pp_ulTimeoutTicks = 500\<rparr>"

theorem publish_sends_packet_witness:
  "sent_data (w_trace (snd (MQTT_Publish example_env example_publish example_connected))) \<in>
     {sent_data (w_trace example_connected), [0x32, 9, 0, 3, 97, 47, 98, 0, 7, 1, 2] # sent_data (w_trace example_connected)}"
proof -
  have b: "mqtt_packet (publish_control (pp_xQos example_publish)) (publish_body example_publish) = [0x32, 9, 0, 3, 97, 47, 98, 0, 7, 1, 2]"
    by code_simp
  have p: "publish_params_ok example_publish" by (simp add: publish_params_ok_def string_ok_def example_publish_def)
  show ?thesis
    using publish_sends_packet [OF example_connected_state p example_is_connected prod.collapse [symmetric]]
    unfolding b by (simp split: if_splits)
qed

text \<open>The connected example: nothing waits and no buffer is in the hands of the user.\<close>

lemma example_connected_facts:
  "xTxBufferList (w_ctx example_connected) = []" "user_owned (w_trace example_connected) = {}"
  "xSubscriptionManager (w_ctx example_connected) = xSubscriptionManager (w_ctx example_start)"
  using connack_answer [OF example_connecting_state example_connecting_facts(2,1,3) prod.collapse [symmetric], of 0 0]
    example_connecting_facts(4,5) by (simp_all add: example_connected_def)

end
