(* ===== verification/MqttTable.thy ===== *)
theory MqttTable
  imports MqttBroker
begin

text \<open>
  The subscription table is consistent in every state the library can reach: its entries
  are valid, no topic filter occurs twice and the count of used entries is right. From this follows what \<open>MQTT_Subscribe\<close> sends
  and when it reports that the table is full.
\<close>

section \<open>The operations on the table\<close>

lemma remove_beyond:
  assumes "sub_inv m" and "\<not> unat n \<le> length t"
  shows "prvRemoveSubscription m t n = m"
proof -
  have l: "length (xSubscriptions m) = 8" and ok: "\<forall>e\<in>set (xSubscriptions m). entry_ok e"
    using assms(1) by (auto simp: sub_inv_def sub_config_defs list_all_iff)
  have "\<not> entry_matches t n e" if "e \<in> set (xSubscriptions m)" for e
  proof
    assume m: "entry_matches t n e"
    then have "unat n \<le> length (ucTopicFilter e)" using ok that by (auto simp: entry_matches_def entry_ok_def)
    moreover have "length (take (unat n) (ucTopicFilter e)) = length (take (unat n) t)" using m by (simp add: entry_matches_def)
    ultimately show False using assms(2) by simp
  qed
  then show ?thesis using remove_loop_cases [OF l, of 0 t n] by (auto simp: prvRemoveSubscription_def)
qed

lemma remove_sub_inv: "sub_inv m \<Longrightarrow> sub_inv (prvRemoveSubscription m t n)"
  using remove_spec(1) remove_beyond by (cases "unat n \<le> length t") fastforce+

lemma free_all_shape:
  assumes "length (xSubscriptions m) = mqttconfigSUBSCRIPTION_MANAGER_MAX_SUBSCRIPTIONS"
    and "list_all (\<lambda>e. length (ucTopicFilter e) = mqttconfigSUBSCRIPTION_MANAGER_MAX_TOPIC_LENGTH) (xSubscriptions m)"
  shows "sub_inv (free_all_subscriptions m)"
  using assms by (auto simp: sub_inv_def free_all_subscriptions_def list_all_iff entry_ok_def sub_entries_def)

section \<open>The table in the state of the library\<close>

definition tab :: "'p world \<Rightarrow> bool" where
  "tab w \<longleftrightarrow> sub_inv (xSubscriptionManager (w_ctx w))"

lemma tab_same: "xSubscriptionManager (w_ctx w') = xSubscriptionManager (w_ctx w) \<Longrightarrow> tab w' = tab w"
  by (simp add: tab_def)

lemma tab_frames [simp]:
  "tab (prvReturnBuffer E h w) = tab w" "tab (snd (prvInvokeCallback E ev w)) = tab w"
  "tab (return_rx E w) = tab w" "tab (prvResetRxMessageState w) = tab w" "tab (chk b w) = tab w"
  "tab (upd_buf h f w) = tab w" "tab (snd (prvSendData E d n w)) = tab w" "tab (snd (prvGetCurrentTickCount E w)) = tab w"
  "tab (upd_rx_state g w) = tab w" "tab (with_data h r w) = tab w" "tab (copy_header_byte x w) = tab w"
  "tab (copy_to_rx bs w) = tab w" "tab (snd (prvGetFreeBuffer E n w)) = tab w" "tab (observe ob w) = tab w"
  "tab (begin_tx E h to w) = tab w" "tab (finish_tx h i n w) = tab w" "tab (w\<lparr>w_pool := p\<rparr>) = tab w"
proof -
  obtain rc w1 where s: "prvSendData E d n w = (rc, w1)" by fastforce
  obtain t w2 where t: "prvGetCurrentTickCount E w = (t, w2)" by fastforce
  show "tab (snd (prvSendData E d n w)) = tab w" "tab (snd (prvGetCurrentTickCount E w)) = tab w"
    using send_fields [OF s] ticks_frame(1) [OF t] s t by (simp_all add: tab_def)
qed (simp_all add: tab_def return_frame return_rx_def frame_simps reset_rx_frame upd_rx_state_def with_data_def copy_header_byte_def
    copy_to_rx_def Let_def prvGetFreeBuffer_def begin_tx_frame finish_tx_def split: prod.split option.split)

lemma tab_upd_ctx:
  "(\<And>c. xSubscriptionManager (f c) = xSubscriptionManager c) \<Longrightarrow> tab (upd_ctx f w) = tab w"
  by (simp add: tab_def frame_simps)

lemma tab_remove: "tab w \<Longrightarrow> tab (prvRemoveSubscriptionForSubscribeOrUnsubscribeBuffer h w)"
  by (simp add: prvRemoveSubscriptionForSubscribeOrUnsubscribeBuffer_def Let_def tab_def frame_simps remove_sub_inv)

lemma tab_fold_return: "tab (fold (prvReturnBuffer E) hs w) = tab w"
  by (induction hs arbitrary: w) simp_all

lemma tab_reset:
  assumes "tab w"
  shows "tab (prvResetMQTTContext E w)"
proof -
  have "tab (upd_ctx (\<lambda>c. c\<lparr>xSubscriptionManager := free_all_subscriptions (xSubscriptionManager c)\<rparr>) v)" if "tab v" for v :: "'a world"
    using that by (simp add: tab_def frame_simps free_all_spec)
  then show ?thesis unfolding prvResetMQTTContext_def Let_def using assms by (simp add: tab_fold_return tab_upd_ctx)
qed

lemma tab_disconnect: "tab w \<Longrightarrow> tab (disconnect_with E r w)"
  by (simp add: disconnect_with_def tab_reset)

section \<open>Reception\<close>

lemma tab_finish_ack: "tab (snd r) \<Longrightarrow> tab (finish_ack E r)"
  by (cases r) (simp add: finish_ack_def tab_disconnect)

lemma tab_examine: "tab (snd (connack_examine E h w)) = tab w"
  by (simp add: connack_examine_def Let_def)

lemma tab_CONNACK: "tab w \<Longrightarrow> tab (prvProcessReceivedCONNACK E w)"
  by (auto simp: prvProcessReceivedCONNACK_def Let_def case_prod_beta tab_examine tab_disconnect tab_upd_ctx split: connack_outcome.split)

lemma tab_acks:
  assumes "tab w"
  shows "tab (prvProcessReceivedSUBACK E w)" "tab (prvProcessReceivedUNSUBACK E w)" "tab (prvProcessReceivedPUBACK E w)"
  unfolding prvProcessReceivedSUBACK_def prvProcessReceivedUNSUBACK_def prvProcessReceivedPUBACK_def
  using assms by (intro tab_finish_ack, simp add: Let_def tab_remove)+

lemma tab_PINGRESP: "tab w \<Longrightarrow> tab (prvProcessReceivedPINGRESP E w)"
  by (simp add: prvProcessReceivedPINGRESP_def Let_def tab_disconnect tab_upd_ctx case_prod_beta)

lemma tab_Publish_received: "tab w \<Longrightarrow> tab (prvProcessReceivedPublish E w)"
  by (simp add: prvProcessReceivedPublish_def Let_def tab_disconnect send_puback_def case_prod_beta)

lemma tab_packet: "tab w \<Longrightarrow> tab (prvProcessReceivedMQTTPacket E w)"
  by (simp add: prvProcessReceivedMQTTPacket_def Let_def tab_disconnect tab_CONNACK tab_acks tab_Publish_received)

lemma tab_header_complete: "tab w \<Longrightarrow> tab (header_complete E w)"
  by (simp add: header_complete_def Let_def case_prod_beta prvProcessReceivedFixedHeaderOnlyMQTTPacket_def tab_disconnect
      tab_PINGRESP tab_upd_ctx start_store_def start_drop_def)

lemma tab_parse_step: "tab w \<Longrightarrow> tab (snd (snd (parse_step E rest w)))"
  by (auto simp: parse_step_def parse_packet_type_def parse_packet_length_def parse_store_def parse_drop_def Let_def
      tab_disconnect tab_header_complete tab_packet tab_upd_ctx split: MQTTRxNextByte_t.split MQTTRxMessageAction_t.split)

lemma tab_parse_loop: "tab w \<Longrightarrow> tab (snd (parse_loop E rest w))"
proof (induction E rest w rule: parse_loop.induct)
  case (1 E rest w)
  show ?case
    using 1 tab_parse_step [OF "1.prems", of E rest]
    by (subst parse_loop.simps) (auto split: prod.split option.split)
qed

section \<open>Requests and timeouts\<close>

lemma tab_make_packet: "tab (snd (snd (make_packet E rl to i build w))) = tab w"
  by (simp add: make_packet_def Let_def case_prod_beta)

lemma tab_transmit: "tab (snd (transmit E rc h w)) = tab w"
  by (simp add: transmit_def case_prod_beta)

lemma tab_requests:
  assumes "tab w"
  shows "tab (snd (MQTT_Connect E cp w))" "tab (snd (MQTT_Unsubscribe E up w))" "tab (snd (MQTT_Publish E pp w))"
    "tab (snd (MQTT_Disconnect E w))" "tab (snd (MQTT_ReturnBuffer E h w))"
  using assms
  by (simp_all add: MQTT_Connect_def connect_packet_def MQTT_Unsubscribe_def unsubscribe_packet_def MQTT_Publish_def publish_packet_def
      MQTT_Disconnect_def MQTT_ReturnBuffer_def case_prod_beta tab_transmit tab_make_packet tab_upd_ctx tab_reset)

lemma tab_Subscribe:
  assumes "tab w" and "subscribe_params_ok sp"
  shows "tab (snd (MQTT_Subscribe E sp w))"
proof -
  have n: "unat (sp_usTopicLength sp) \<le> length (sp_pucTopic sp)" using assms(2) by (simp add: subscribe_params_ok_def string_ok_def)
  obtain st m where s: "prvStoreSubscription (xSubscriptionManager (w_ctx w)) (sp_pucTopic sp) (sp_usTopicLength sp)
       (sp_pvPublishCallbackContext sp) (sp_pxPublishCallback sp) = (st, m)" by fastforce
  have m: "tab (upd_ctx (\<lambda>c. c\<lparr>xSubscriptionManager := m\<rparr>) w)"
    using store_spec(2) [OF assms(1) [unfolded tab_def] n, of "sp_pvPublishCallbackContext sp" "sp_pxPublishCallback sp"] s
    by (simp add: tab_def frame_simps)
  have "tab (snd (snd (subscribe_packet E sp w)))"
    using assms(1) m by (simp add: subscribe_packet_def s Let_def tab_make_packet)
  moreover have "tab (upd_ctx (\<lambda>c. c\<lparr>xSubscriptionManager :=
      prvRemoveSubscription (xSubscriptionManager c) (sp_pucTopic sp) (sp_usTopicLength sp)\<rparr>) v)" if "tab v" for v :: "'a world"
    using that by (simp add: tab_def frame_simps remove_sub_inv)
  ultimately show ?thesis by (simp add: MQTT_Subscribe_def Let_def case_prod_beta tab_transmit)
qed

lemma tab_periodic_tx: "tab w \<Longrightarrow> tab (snd (periodic_tx E now hs n w))"
  by (induction hs arbitrary: n w) (simp_all add: Let_def case_prod_beta tab_disconnect tab_remove)

lemma tab_Periodic: "tab w \<Longrightarrow> tab (snd (MQTT_Periodic E now w))"
  by (simp add: MQTT_Periodic_def periodic_keep_alive_def Let_def case_prod_beta tab_periodic_tx tab_upd_ctx)

lemma tab_exec: "tab w \<Longrightarrow> call_allowed w c \<Longrightarrow> tab (mqtt_exec E c w)"
  by (cases c) (simp_all add: tab_requests tab_Subscribe tab_Periodic MQTT_ParseReceivedData_def tab_parse_loop)

lemma tab_reachable: "mqtt_reachable E s0 s \<Longrightarrow> tab (fst s0) \<Longrightarrow> tab (fst s)"
proof (induction rule: mqtt_reachable.induct)
  case (step s s')
  from step.hyps(2) step.IH [OF step.prems] show ?case by (cases rule: mqtt_step.cases) (auto intro: tab_exec)
qed simp

lemma firmware_tab:
  assumes "firmware_state E w F"
  shows "sub_inv (xSubscriptionManager (w_ctx w))"
proof -
  obtain ip w0 where c: "ctx_shape (w_ctx w0)"
    and r: "mqtt_reachable E (snd (MQTT_Init ip w0), pool_inuse (w_pool w0)) (w, F)"
    using assms unfolding firmware_state_def by blast
  have "tab (snd (MQTT_Init ip w0))"
    using c by (simp add: tab_def MQTT_Init_def Let_def frame_simps prvResetRxMessageState_def reset_rx_def ctx_shape_def free_all_shape)
  then show ?thesis using tab_reachable [OF r] by (simp add: tab_def)
qed

section \<open>Properties\<close>

text \<open>
  C6. The state of the connection and the tables of the library agree in every state the
  library can reach: without a connection no packet waits for an acknowledgment,
  while connecting exactly the CONNECT packet waits, and when connected only complete
  SUBSCRIBE, UNSUBSCRIBE and QoS 1 PUBLISH packets wait; and in all of them the
  subscription table holds valid topic filters of the right type only, none of them
  twice, and the count of used entries is right.
\<close>

theorem connection_tables_consistent:
  assumes "firmware_state E w F"
  shows "conn_inv w \<and> sub_inv (xSubscriptionManager (w_ctx w))"
  using firmware_conn [OF assms] firmware_tab [OF assms] by blast

theorem connection_tables_consistent_witness:
  "(\<exists>h. xTxBufferList (w_ctx example_connecting) = [h] \<and> connect_entry (entry example_connecting h)) \<and>
   sub_inv (xSubscriptionManager (w_ctx example_connected))"
  using connection_tables_consistent [OF example_connecting_state] connection_tables_consistent [OF example_connected_state]
    example_connecting_facts(1) by (auto simp: conn_inv_def)

text \<open>
  C11. \<open>MQTT_Subscribe\<close> sends the right bytes. In a connected state, when an entry of the subscription
  table is free and the topic filter is valid and not longer than an entry can hold, exactly the SUBSCRIBE packet for the topic filter and
  the requested quality of service is handed to the send function; only when the pool has no
  buffer is nothing sent, and the result says so. In the other cases nothing is sent and the result is
  \<open>eMQTTSubscriptionManagerFull\<close>, also for a topic filter that is invalid or too long, although the
  header documents this code as the one for no space left.
\<close>

theorem subscribe_sends_packet:
  assumes "firmware_state E w F" and "subscribe_params_ok sp" and "xConnectionState (w_ctx w) = eMQTTConnected"
    and "MQTT_Subscribe E sp w = (rc, w')"
  shows "w_fault w' = w_fault w \<and>
    (if unat (ulInUseSubscriptions (xSubscriptionManager (w_ctx w))) < mqttconfigSUBSCRIPTION_MANAGER_MAX_SUBSCRIPTIONS \<and>
       unat (sp_usTopicLength sp) \<le> mqttconfigSUBSCRIPTION_MANAGER_MAX_TOPIC_LENGTH \<and>
       prvGetTopicFilterType (sp_pucTopic sp) (sp_usTopicLength sp) \<noteq> eMQTTTopicFilterTypeInvalid
     then rc \<in> {eMQTTSuccess, eMQTTSendFailed, eMQTTNoFreeBuffer} \<and>
       sent_data (w_trace w') = (if rc = eMQTTNoFreeBuffer then [] else [mqtt_packet 0x82 (subscribe_body sp)]) @ sent_data (w_trace w)
     else rc = eMQTTSubscriptionManagerFull \<and> w_trace w' = w_trace w)"
proof -
  let ?m = "xSubscriptionManager (w_ctx w)"
  let ?st = "prvStoreSubscription ?m (sp_pucTopic sp) (sp_usTopicLength sp) (sp_pvPublishCallbackContext sp) (sp_pxPublishCallback sp)"
  have "unat (sp_usTopicLength sp) \<le> length (sp_pucTopic sp)" using assms(2) by (simp add: subscribe_params_ok_def string_ok_def)
  from store_spec(1) [OF firmware_tab [OF assms(1)] this]
  have stored: "fst ?st \<longleftrightarrow> unat (ulInUseSubscriptions ?m) < mqttconfigSUBSCRIPTION_MANAGER_MAX_SUBSCRIPTIONS \<and>
       unat (sp_usTopicLength sp) \<le> mqttconfigSUBSCRIPTION_MANAGER_MAX_TOPIC_LENGTH \<and>
       prvGetTopicFilterType (sp_pucTopic sp) (sp_usTopicLength sp) \<noteq> eMQTTTopicFilterTypeInvalid"
    by (simp add: sub_config_defs)
  show ?thesis
  proof (cases "fst ?st")
    case True
    then show ?thesis unfolding stored [symmetric] using bpool.Subscribe_bytes [OF firmware_ok(1) [OF assms(1)] assms(2-4)] by simp
  next
    case False
    then obtain m where "?st = (False, m)" by (metis prod.collapse)
    then show ?thesis unfolding stored [symmetric] using assms(3,4)
      by (auto simp: MQTT_Subscribe_def subscribe_packet_def transmit_def Let_def return_frame frame_simps)
  qed
qed

definition example_subscribe :: "u8 list \<Rightarrow> MQTTSubscribeParams_t" where
  "example_subscribe topic = \<lparr>sp_pucTopic = topic, sp_usTopicLength = 3, sp_xQos = eMQTTQoS1, sp_usPacketIdentifier = 8,
     sp_ulTimeoutTicks = 500, sp_pvPublishCallbackContext = 0, sp_pxPublishCallback = Some 1\<rparr>"

text \<open>With room in the table and in the pool the packet goes out.\<close>

lemma example_subscribe_stored:
  "unat (ulInUseSubscriptions (xSubscriptionManager (w_ctx example_connected))) = 0"
  unfolding example_connected_facts(3)
  by (simp add: example_start_def MQTT_Init_def Let_def frame_simps prvResetRxMessageState_def reset_rx_def example_world_def
      free_all_subscriptions_def example_ctx_def)

lemma example_subscribe_buffer: "fst (MQTT_Subscribe example_env (example_subscribe [97, 47, 35]) example_connected) \<noteq> eMQTTNoFreeBuffer"
proof -
  let ?sp = "example_subscribe [97, 47, 35]"
  obtain st mg where s: "prvStoreSubscription (xSubscriptionManager (w_ctx example_connected)) (sp_pucTopic ?sp) (sp_usTopicLength ?sp)
      (sp_pvPublishCallbackContext ?sp) (sp_pxPublishCallback ?sp) = (st, mg)" by fastforce
  let ?w = "upd_ctx (\<lambda>c. c\<lparr>xSubscriptionManager := mg\<rparr>) example_connected"
  have l: "subscribe_remaining_length ?sp = 8"
    by (simp add: subscribe_remaining_length_def example_subscribe_def mqttSTRLEN_def)
  have "pool_placed (w_pool ?w)" "card (pool_inuse (w_pool ?w)) < 8"
    using few_buffers [OF example_connected_state example_connected_facts(2)] example_connected_facts(1) by (simp_all add: frame_simps)
  then obtain h w' where "make_packet example_env 8 (sp_ulTimeoutTicks ?sp) (sp_usPacketIdentifier ?sp) (build_subscribe ?sp) ?w =
      (eMQTTSuccess, h, w')" "fst (transmit example_env eMQTTSuccess h w') = eMQTTSuccess"
    using example_packet [of ?w 8] by blast
  then show ?thesis
    using s l example_is_connected by (auto simp: MQTT_Subscribe_def subscribe_packet_def transmit_def Let_def split: prod.splits if_splits)
qed

text \<open>The filter a/# is subscribed to; the filter a#b is invalid.\<close>

theorem subscribe_sends_packet_witness:
  "sent_data (w_trace (snd (MQTT_Subscribe example_env (example_subscribe [97, 47, 35]) example_connected))) =
     [0x82, 8, 0, 8, 0, 3, 97, 47, 35, 1] # sent_data (w_trace example_connected) \<and>
   fst (MQTT_Subscribe example_env (example_subscribe [97, 35, 98]) example_connected) = eMQTTSubscriptionManagerFull"
proof
  have p: "subscribe_params_ok (example_subscribe [x, y, z])" for x y z
    by (simp add: subscribe_params_ok_def string_ok_def example_subscribe_def)
  have b: "mqtt_packet 0x82 (subscribe_body (example_subscribe [97, 47, 35])) = [0x82, 8, 0, 8, 0, 3, 97, 47, 35, 1]"
    by code_simp
  have v: "prvGetTopicFilterType [97, 47, 35] 3 \<noteq> eMQTTTopicFilterTypeInvalid" "prvGetTopicFilterType [97, 35, 98] 3 = eMQTTTopicFilterTypeInvalid"
    by code_simp+
  note t = subscribe_sends_packet [OF example_connected_state p example_is_connected prod.collapse [symmetric]]
  show "sent_data (w_trace (snd (MQTT_Subscribe example_env (example_subscribe [97, 47, 35]) example_connected))) =
     [0x82, 8, 0, 8, 0, 3, 97, 47, 35, 1] # sent_data (w_trace example_connected)"
    using t [of 97 47 35] example_subscribe_stored v(1) example_subscribe_buffer unfolding b
    by (simp add: example_subscribe_def sub_config_defs split: if_splits)
  show "fst (MQTT_Subscribe example_env (example_subscribe [97, 35, 98]) example_connected) = eMQTTSubscriptionManagerFull"
    using t [of 97 35 98] v(2) by (simp add: example_subscribe_def split: if_splits)
qed

end
