(* ===== verification/MqttDelivery.thy ===== *)
theory MqttDelivery
  imports MqttTable
begin

text \<open>
  Delivery of the messages the broker publishes: the packet that \<open>MQTT_Publish\<close> sends is, when
  it arrives at a client, delivered with the same topic, payload and quality of service to the
  subscribed callbacks, and acknowledged.
\<close>

section \<open>What the callbacks get to see\<close>

text \<open>
  A message as a callback sees it, and the calls with a message in a history, newest first:
  the callback of a subscription or, for None, the one of the connection, and whether it
  took the buffer.
\<close>

type_synonym message = "MQTTQoS_t \<times> u8 list \<times> u8 list"

definition message_of :: "MQTTPublishData_t \<Rightarrow> message" where
  "message_of pd = (pd_xQos pd, take (unat (pd_usTopicLength pd)) (pd_pucTopic pd), take (unat (pd_ulDataLength pd)) (pd_pvData pd))"

fun deliveries :: "obs list \<Rightarrow> (nat option \<times> bool \<times> message) list" where
  "deliveries [] = []"
| "deliveries (OPublish f pd b # tr) = (Some f, b, message_of pd) # deliveries tr"
| "deliveries (OEvent (eMQTTPublish pd) b # tr) = (None, b, message_of pd) # deliveries tr"
| "deliveries (ob # tr) = deliveries tr"

text \<open>The callbacks registered for a topic, in the order in which they are called.\<close>

definition simple_match :: "u8 list \<Rightarrow> MQTTSubscription_t \<Rightarrow> bool" where
  "simple_match t e \<longleftrightarrow> xInUse e \<and> xTopicFilterType e = eMQTTTopicFilterTypeSimple \<and>
     usTopicFilterLength e = of_nat (length t) \<and> take (length t) (ucTopicFilter e) = t"

definition wildcard_match :: "u8 list \<Rightarrow> MQTTSubscription_t \<Rightarrow> bool" where
  "wildcard_match t e \<longleftrightarrow> xInUse e \<and> xTopicFilterType e = eMQTTTopicFilterTypeWildCard \<and>
     prvDoesTopicMatchTopicFilter t (of_nat (length t)) (ucTopicFilter e) (usTopicFilterLength e)"

definition callbacks_of :: "(MQTTSubscription_t \<Rightarrow> bool) \<Rightarrow> MQTTSubscription_t list \<Rightarrow> nat list" where
  "callbacks_of P es = List.map_filter (\<lambda>e. if P e then pxPublishCallback e else None) es"

definition subscribers :: "MQTTContext_t \<Rightarrow> u8 list \<Rightarrow> nat option list" where
  "subscribers c t =
     (let es = xSubscriptions (xSubscriptionManager c);
          fs = callbacks_of (simple_match t) es @ callbacks_of (wildcard_match t) es in
      if fs = [] then (if pxCallback c = None then [] else [None]) else map Some fs)"

text \<open>
  The calls made for a list of callbacks, oldest first: every callback in its turn until
  one of them takes the buffer.
\<close>

fun calls_ok :: "'f list \<Rightarrow> ('f \<times> bool) list \<Rightarrow> bool" where
  "calls_ok [] ds \<longleftrightarrow> ds = []"
| "calls_ok (f # fs) ds \<longleftrightarrow> (case ds of [] \<Rightarrow> False | (g, b) # ds' \<Rightarrow> g = f \<and> (if b then ds' = [] else calls_ok fs ds'))"

definition took :: "('f \<times> bool) list \<Rightarrow> bool" where
  "took ds \<longleftrightarrow> ds \<noteq> [] \<and> snd (last ds)"

lemma took_Cons [simp]: "took ((g, b) # ds) \<longleftrightarrow> (if ds = [] then b else took ds)"
  by (simp add: took_def)

lemma took_Nil [simp]: "\<not> took []"
  by (simp add: took_def)

lemma calls_ok_Nil [simp]: "calls_ok fs [] \<longleftrightarrow> fs = []"
  by (cases fs) auto

lemma calls_append:
  "calls_ok fs ds \<Longrightarrow> if took ds then es = [] else calls_ok gs es \<Longrightarrow> calls_ok (fs @ gs) (ds @ es)"
  by (induction fs arbitrary: ds) (auto split: list.splits if_splits)

lemma calls_map: "inj h \<Longrightarrow> calls_ok (map h fs) (map (\<lambda>(f, b). (h f, b)) ds) = calls_ok fs ds"
  by (induction fs arbitrary: ds) (auto split: list.splits dest: injD)

lemma calls_Nil_iff: "calls_ok fs ds \<Longrightarrow> ds = [] \<longleftrightarrow> fs = []"
  by (cases fs) (auto split: list.splits)

section \<open>The loops over the subscriptions\<close>

lemma skip_level_take: "skip_level (take tn t) tn i = skip_level t tn i"
  by (induction t tn i rule: skip_level.induct) (subst (1 2) skip_level.simps, auto simp: rdb_take)

lemma match_loop_take: "match_loop (take tn t) tn f fn i j = match_loop t tn f fn i j"
  by (induction t tn f fn i j rule: match_loop.induct)
    (subst (1 2) match_loop.simps, simp add: rdb_take skip_level_take)

lemma match_take: "prvDoesTopicMatchTopicFilter (take (unat n) t) n f fn = prvDoesTopicMatchTopicFilter t n f fn"
  by (simp add: prvDoesTopicMatchTopicFilter_def match_loop_take)

text \<open>The state after the calls \<open>ds\<close> with the message \<open>pd\<close>.\<close>

definition after_calls :: "MQTTPublishData_t \<Rightarrow> (nat \<times> bool) list \<Rightarrow> 'p world \<Rightarrow> 'p world \<Rightarrow> bool" where
  "after_calls pd ds w w' \<longleftrightarrow> w_ctx w' = w_ctx w \<and> w_pool w' = w_pool w \<and> w_bufs w' = w_bufs w \<and> w_fault w' = w_fault w \<and>
     w_trace w' = rev (map (\<lambda>(f, b). OPublish f pd b) ds) @ w_trace w"

lemma after_call:
  "call_publish E f c pd w = (b, w1) \<Longrightarrow> after_calls pd ds w1 w' \<Longrightarrow> after_calls pd ((f, b) # ds) w w'"
  by (auto simp: after_calls_def call_publish_def Let_def frame_simps)

lemma callbacks_drop:
  "callbacks_of P (drop x es) = (if x < length es then
     (case (if P (es ! x) then pxPublishCallback (es ! x) else None) of None \<Rightarrow> [] | Some f \<Rightarrow> [f]) @ callbacks_of P (drop (Suc x) es)
   else [])"
  by (auto simp: callbacks_of_def map_filter_def Cons_nth_drop_Suc [symmetric] split: option.splits)

abbreviation subs :: "'p world \<Rightarrow> MQTTSubscription_t list" where
  "subs w \<equiv> xSubscriptions (xSubscriptionManager (w_ctx w))"

definition loop_calls :: "(MQTTSubscription_t \<Rightarrow> bool) \<Rightarrow> MQTTPublishData_t \<Rightarrow> nat \<Rightarrow> bool \<Rightarrow> 'p world \<Rightarrow> bool \<times> bool \<times> 'p world \<Rightarrow> bool" where
  "loop_calls P pd x invoked w r \<longleftrightarrow> (\<exists>ds. calls_ok (callbacks_of P (drop x (subs w))) ds \<and>
     after_calls pd ds w (snd (snd r)) \<and> fst r = took ds \<and> fst (snd r) = (invoked \<or> ds \<noteq> []))"

lemma loop_calls_end: "length (subs w) \<le> x \<Longrightarrow> loop_calls P pd x invoked w (False, invoked, w)"
  by (auto simp: loop_calls_def callbacks_of_def after_calls_def intro!: exI [of _ "[]"])

lemma loop_calls_skip:
  assumes "x < length (subs w)" and "P (subs w ! x) \<Longrightarrow> pxPublishCallback (subs w ! x) = None"
    and "loop_calls P pd (Suc x) invoked w r"
  shows "loop_calls P pd x invoked w r"
  using assms by (auto simp: loop_calls_def callbacks_drop [of P x])

lemma loop_calls_taken:
  assumes "x < length (subs w)" and "P (subs w ! x)" and "pxPublishCallback (subs w ! x) = Some f"
    and "call_publish E f c pd w = (True, w')"
  shows "loop_calls P pd x invoked w (True, True, w')"
  using assms after_call [OF assms(4), of "[]" w']
  by (auto simp: loop_calls_def callbacks_drop [of P x] after_calls_def intro!: exI [of _ "[(f, True)]"])

lemma loop_calls_next:
  assumes "x < length (subs w)" and "P (subs w ! x)" and "pxPublishCallback (subs w ! x) = Some f"
    and "call_publish E f c pd w = (False, w1)" and "loop_calls P pd (Suc x) True w1 r"
  shows "loop_calls P pd x invoked w r"
proof -
  have s: "subs w1 = subs w" using assms(4) by (auto simp: call_publish_def Let_def frame_simps)
  obtain ds where "calls_ok (callbacks_of P (drop (Suc x) (subs w))) ds" "after_calls pd ds w1 (snd (snd r))"
    "fst r = took ds" "fst (snd r)" using assms(5) unfolding loop_calls_def s by blast
  with assms(1-3) after_call [OF assms(4)] show ?thesis
    unfolding loop_calls_def by (intro exI [of _ "(f, False) # ds"]) (simp add: callbacks_drop [of P x])
qed

lemma simple_calls:
  assumes "topic_in_buffer pd"
  shows "length (subs w) = mqttconfigSUBSCRIPTION_MANAGER_MAX_SUBSCRIPTIONS \<Longrightarrow>
     loop_calls (simple_match (take (unat (pd_usTopicLength pd)) (pd_pucTopic pd))) pd x invoked w
       (simple_callbacks E pd x False invoked w)"
proof (induction "mqttconfigSUBSCRIPTION_MANAGER_MAX_SUBSCRIPTIONS - x" arbitrary: x invoked w)
  case 0
  then show ?case using loop_calls_end [of w x] by (subst simple_callbacks.simps) simp
next
  case (Suc k)
  let ?t = "take (unat (pd_usTopicLength pd)) (pd_pucTopic pd)" and ?e = "subs w ! x"
  have x: "x < mqttconfigSUBSCRIPTION_MANAGER_MAX_SUBSCRIPTIONS" "x < length (subs w)" using Suc.hyps(2) Suc.prems by auto
  have n: "length ?t = unat (pd_usTopicLength pd)" "chk (topic_in_buffer pd) w = w"
    using assms by (simp_all add: topic_in_buffer_def chk_def)
  have IH: "loop_calls (simple_match ?t) pd (Suc x) i v (simple_callbacks E pd (Suc x) False i v)"
    if "w_ctx v = w_ctx w" for i and v using Suc.hyps Suc.prems that by simp
  have m: "simple_match ?t ?e \<longleftrightarrow> xInUse ?e \<and> xTopicFilterType ?e = eMQTTTopicFilterTypeSimple \<and>
      usTopicFilterLength ?e = pd_usTopicLength pd \<and> take (unat (pd_usTopicLength pd)) (ucTopicFilter ?e) = ?t"
    unfolding simple_match_def n by (simp)
  show ?case
  proof (cases "simple_match ?t ?e \<and> pxPublishCallback ?e \<noteq> None")
    case False
    then have "simple_callbacks E pd x False invoked w = simple_callbacks E pd (Suc x) False invoked w"
      using x n m by (subst simple_callbacks.simps) (auto simp: Let_def)
    then show ?thesis using loop_calls_skip [OF x(2) _ IH [OF refl]] False by auto
  next
    case True
    then obtain f where f: "pxPublishCallback ?e = Some f" by blast
    obtain b w1 where c: "call_publish E f (pvPublishCallbackContext ?e) pd w = (b, w1)" by fastforce
    have w1: "w_ctx w1 = w_ctx w" using c by (auto simp: call_publish_def Let_def frame_simps)
    have "simple_callbacks E pd x False invoked w = (if b then (True, True, w1) else simple_callbacks E pd (Suc x) False True w1)"
      using x n(2) m True f c by (subst simple_callbacks.simps) (simp add: Let_def)
    then show ?thesis
      using loop_calls_taken [where P = "simple_match ?t", OF x(2) _ f] loop_calls_next [where P = "simple_match ?t", OF x(2) _ f _ IH [OF w1]] True c
      by (cases b) auto
  qed
qed

lemma wildcard_calls:
  assumes "topic_in_buffer pd"
  shows "length (subs w) = mqttconfigSUBSCRIPTION_MANAGER_MAX_SUBSCRIPTIONS \<Longrightarrow>
     loop_calls (wildcard_match (take (unat (pd_usTopicLength pd)) (pd_pucTopic pd))) pd x invoked w
       (wildcard_callbacks E pd x False invoked w)"
proof (induction "mqttconfigSUBSCRIPTION_MANAGER_MAX_SUBSCRIPTIONS - x" arbitrary: x invoked w)
  case 0
  then show ?case using loop_calls_end [of w x] by (subst wildcard_callbacks.simps) simp
next
  case (Suc k)
  let ?t = "take (unat (pd_usTopicLength pd)) (pd_pucTopic pd)" and ?e = "subs w ! x"
  have x: "x < mqttconfigSUBSCRIPTION_MANAGER_MAX_SUBSCRIPTIONS" "x < length (subs w)" using Suc.hyps(2) Suc.prems by auto
  have n: "length ?t = unat (pd_usTopicLength pd)" "chk (topic_in_buffer pd) w = w"
    using assms by (simp_all add: topic_in_buffer_def chk_def)
  have IH: "loop_calls (wildcard_match ?t) pd (Suc x) i v (wildcard_callbacks E pd (Suc x) False i v)"
    if "w_ctx v = w_ctx w" for i and v using Suc.hyps Suc.prems that by simp
  have m: "wildcard_match ?t ?e \<longleftrightarrow> xInUse ?e \<and> xTopicFilterType ?e = eMQTTTopicFilterTypeWildCard \<and>
      prvDoesTopicMatchTopicFilter (pd_pucTopic pd) (pd_usTopicLength pd) (ucTopicFilter ?e) (usTopicFilterLength ?e)"
    unfolding wildcard_match_def n by (simp add: match_take)
  show ?case
  proof (cases "wildcard_match ?t ?e \<and> pxPublishCallback ?e \<noteq> None")
    case False
    then have "wildcard_callbacks E pd x False invoked w = wildcard_callbacks E pd (Suc x) False invoked w"
      using x n m by (subst wildcard_callbacks.simps) (auto simp: Let_def)
    then show ?thesis using loop_calls_skip [OF x(2) _ IH [OF refl]] False by auto
  next
    case True
    then obtain f where f: "pxPublishCallback ?e = Some f" by blast
    obtain b w1 where c: "call_publish E f (pvPublishCallbackContext ?e) pd w = (b, w1)" by fastforce
    have w1: "w_ctx w1 = w_ctx w" using c by (auto simp: call_publish_def Let_def frame_simps)
    have "wildcard_callbacks E pd x False invoked w = (if b then (True, True, w1) else wildcard_callbacks E pd (Suc x) False True w1)"
      using x n(2) m True f c by (subst wildcard_callbacks.simps) (simp add: Let_def)
    then show ?thesis
      using loop_calls_taken [where P = "wildcard_match ?t", OF x(2) _ f] loop_calls_next [where P = "wildcard_match ?t", OF x(2) _ f _ IH [OF w1]] True c
      by (cases b) auto
  qed
qed

section \<open>The callbacks for a message\<close>

definition delivered :: "message \<Rightarrow> (nat option \<times> bool) list \<Rightarrow> 'p world \<Rightarrow> 'p world \<Rightarrow> bool" where
  "delivered msg ds w w' \<longleftrightarrow> w_ctx w' = w_ctx w \<and> w_pool w' = w_pool w \<and> w_bufs w' = w_bufs w \<and> w_fault w' = w_fault w \<and>
     sent_data (w_trace w') = sent_data (w_trace w) \<and>
     deliveries (w_trace w') = rev (map (\<lambda>(f, b). (f, b, msg)) ds) @ deliveries (w_trace w)"

lemma deliveries_calls:
  "deliveries (map (\<lambda>(f, b). OPublish f pd b) ds @ tr) = map (\<lambda>(f, b). (Some f, b, message_of pd)) ds @ deliveries tr"
  "sent_data (map (\<lambda>(f, b). OPublish f pd b) ds @ tr) = sent_data tr"
  by (induction ds) auto

lemma delivered_after:
  "after_calls pd ds w w' \<Longrightarrow> delivered (message_of pd) (map (\<lambda>(f, b). (Some f, b)) ds) w w'"
  using deliveries_calls [of pd "rev ds"] by (simp add: delivered_def after_calls_def rev_map comp_def case_prod_unfold)

lemma subscription_calls:
  assumes "topic_in_buffer pd" and "length (subs w) = mqttconfigSUBSCRIPTION_MANAGER_MAX_SUBSCRIPTIONS"
    and "prvInvokeSubscriptionCallbacks E pd w = (taken, invoked, w')"
  obtains ds where "calls_ok (callbacks_of (simple_match (take (unat (pd_usTopicLength pd)) (pd_pucTopic pd))) (subs w) @
      callbacks_of (wildcard_match (take (unat (pd_usTopicLength pd)) (pd_pucTopic pd))) (subs w)) ds"
    "after_calls pd ds w w'" "taken = took ds" "invoked = (ds \<noteq> [])"
proof -
  let ?t = "take (unat (pd_usTopicLength pd)) (pd_pucTopic pd)"
  obtain t1 i1 w1 where s: "simple_callbacks E pd 0 False False w = (t1, i1, w1)" by (metis prod_cases3)
  obtain ds where d: "calls_ok (callbacks_of (simple_match ?t) (subs w)) ds" "after_calls pd ds w w1" "t1 = took ds" "i1 = (ds \<noteq> [])"
    using simple_calls [OF assms(1,2), of 0 False E] unfolding s by (auto simp: loop_calls_def)
  show thesis
  proof (cases t1)
    case True
    with s assms(3) d show ?thesis
      by (intro that [of ds]) (auto simp: prvInvokeSubscriptionCallbacks_def intro: calls_append [of _ ds "[]", simplified])
  next
    case False
    have w1: "subs w1 = subs w" using d(2) by (simp add: after_calls_def)
    obtain es where e: "calls_ok (callbacks_of (wildcard_match ?t) (subs w)) es" "after_calls pd es w1 w'"
      "taken = took es" "invoked = (ds \<noteq> [] \<or> es \<noteq> [])"
      using wildcard_calls [OF assms(1), of w1 0 "ds \<noteq> []" E] s assms(2,3) False d(4) w1
      by (auto simp: loop_calls_def prvInvokeSubscriptionCallbacks_def)
    show ?thesis
    proof (rule that [of "ds @ es"])
      show "calls_ok (callbacks_of (simple_match ?t) (subs w) @ callbacks_of (wildcard_match ?t) (subs w)) (ds @ es)"
        using calls_append [OF d(1)] e(1) False d(3) by simp
      show "after_calls pd (ds @ es) w w'" using d(2) e(2) by (simp add: after_calls_def)
      show "taken = took (ds @ es)" using e(3) d(3) False by (cases "es = []") (auto simp: took_def)
      show "invoked = (ds @ es \<noteq> [])" using e(4) by simp
    qed
  qed
qed

lemma publish_calls:
  assumes "topic_in_buffer pd" and "length (subs w) = mqttconfigSUBSCRIPTION_MANAGER_MAX_SUBSCRIPTIONS"
    and "prvInvokeCallback E (eMQTTPublish pd) w = (taken, w')"
  obtains ds where "calls_ok (subscribers (w_ctx w) (take (unat (pd_usTopicLength pd)) (pd_pucTopic pd))) ds"
    "delivered (message_of pd) ds w w'" "taken = took ds"
proof -
  let ?t = "take (unat (pd_usTopicLength pd)) (pd_pucTopic pd)"
  obtain t1 i1 w1 where s: "prvInvokeSubscriptionCallbacks E pd w = (t1, i1, w1)" by (metis prod_cases3)
  obtain ds where d: "calls_ok (callbacks_of (simple_match ?t) (subs w) @ callbacks_of (wildcard_match ?t) (subs w)) ds"
    "after_calls pd ds w w1" "t1 = took ds" "i1 = (ds \<noteq> [])" by (rule subscription_calls [OF assms(1,2) s])
  have w1: "w_ctx w1 = w_ctx w" using d(2) by (simp add: after_calls_def)
  show thesis
  proof (cases "ds = [] \<and> pxCallback (w_ctx w) \<noteq> None")
    case True
    then obtain f where f: "pxCallback (w_ctx w) = Some f" by blast
    show ?thesis
      by (rule that [of "[(None, taken)]"])
        (use True f s assms(3) d w1 in \<open>auto simp: prvInvokeCallback_def Let_def subscribers_def delivered_def after_calls_def frame_simps\<close>)
  next
    case False
    then have "taken = t1" "w' = w1" using s assms(3) d(4) w1 by (auto simp: prvInvokeCallback_def split: option.splits)
    moreover have "calls_ok (subscribers (w_ctx w) ?t) (map (\<lambda>(f, b). (Some f, b)) ds)"
    proof (cases "ds = []")
      case True
      then show ?thesis using False calls_Nil_iff [OF d(1)] by (simp add: subscribers_def Let_def)
    next
      case False
      then have "subscribers (w_ctx w) ?t = map Some (callbacks_of (simple_match ?t) (subs w) @ callbacks_of (wildcard_match ?t) (subs w))"
        using calls_Nil_iff [OF d(1)] by (simp add: subscribers_def Let_def)
      then show ?thesis using d(1) by (simp only: calls_map [OF inj_Some])
    qed
    moreover have "took (map (\<lambda>(f, b). (Some f, b)) ds) = took ds"
      by (auto simp: took_def last_map case_prod_unfold)
    ultimately show ?thesis using delivered_after [OF d(2)] d(3) by (intro that [of "map (\<lambda>(f, b). (Some f, b)) ds"]) simp_all
  qed
qed

section \<open>A received PUBLISH\<close>

lemma publish_qos: "q \<noteq> eMQTTQoS2 \<Longrightarrow> mqttPUBLISH_QoS_BITS (publish_control q) = qos_value q"
  "q \<noteq> eMQTTQoS2 \<Longrightarrow> publish_control q AND mqttTOP_NIBBLE_MASK = mqttCONTROL_PUBLISH"
  by (cases q; simp add: mqttPUBLISH_QoS_BITS_def publish_control_def mqtt_control_defs)+

definition sent_message :: "MQTTPublishParams_t \<Rightarrow> message" where
  "sent_message pp = (pp_xQos pp, take (unat (pp_usTopicLength pp)) (pp_pucTopic pp), take (unat (pp_ulDataLength pp)) (pp_pvData pp))"

definition puback_for :: "MQTTPublishParams_t \<Rightarrow> u8 list list" where
  "puback_for pp = (if pp_xQos pp = eMQTTQoS1 then [[0x40, 2, msb16 (pp_usPacketIdentifier pp), lsb16 (pp_usPacketIdentifier pp)]] else [])"

definition id_bytes :: "MQTTPublishParams_t \<Rightarrow> u8 list" where
  "id_bytes pp = (if pp_xQos pp = eMQTTQoS0 then [] else [msb16 (pp_usPacketIdentifier pp), lsb16 (pp_usPacketIdentifier pp)])"

text \<open>The fields of a received PUBLISH packet.\<close>

lemma publish_fields:
  assumes "publish_params_ok pp" and "holds_packet (mqtt_packet ctl (publish_body pp)) (length (varint (of_nat (length (publish_body pp))))) w"
  shows "message_of (publish_data w (pp_xQos pp)) = sent_message pp"
    and "topic_in_buffer (publish_data w (pp_xQos pp))"
    and "take (unat (pd_usTopicLength (publish_data w (pp_xQos pp)))) (pd_pucTopic (publish_data w (pp_xQos pp))) =
      take (unat (pp_usTopicLength pp)) (pp_pucTopic pp)"
    and "mqttADJUST_OFFSET 3 (rx_len_bytes w) < length (mb_data (rx_buf w))"
    and "pp_xQos pp = eMQTTQoS1 \<Longrightarrow>
      (let i = mqttADJUST_OFFSET 4 (rx_len_bytes w) + unat (pd_usTopicLength (publish_data w (pp_xQos pp))) in
       i + 1 < length (mb_data (rx_buf w)) \<and> rdb (mb_data (rx_buf w)) i = msb16 (pp_usPacketIdentifier pp) \<and>
       rdb (mb_data (rx_buf w)) (i + 1) = lsb16 (pp_usPacketIdentifier pp))"
proof -
  let ?p = "mqtt_packet ctl (publish_body pp)" and ?d = "mb_data (rx_buf w)" and ?n = "rx_len_bytes w"
  let ?t = "take (unat (pp_usTopicLength pp)) (pp_pucTopic pp)" and ?m = "take (unat (pp_ulDataLength pp)) (pp_pvData pp)"
  have l: "length ?t = unat (pp_usTopicLength pp)" "length ?m = unat (pp_ulDataLength pp)"
    using assms(1) by (simp_all add: publish_params_ok_def string_ok_def)
  obtain rest where "?d = ?p @ rest" using assms(2) by (metis holds_packet_def append_take_drop_id)
  moreover have n: "?n = length (varint (of_nat (length (publish_body pp))))" "unat (ulTotalMessageLength (xRxMessageState (w_ctx w))) = length ?p"
    using assms(2) by (simp_all add: holds_packet_def)
  ultimately have d: "drop (Suc ?n) ?d = mqtt_string ?t @ id_bytes pp @ ?m @ rest"
    by (simp add: mqtt_packet_def publish_body_def id_bytes_def)
  have r: "rdb ?d (Suc (?n + i)) = rdb (mqtt_string ?t @ id_bytes pp @ ?m @ rest) i" for i
    using rdb_drop [of "Suc ?n" ?d i] unfolding d by simp
  have dd: "drop (Suc (?n + i)) ?d = drop i (mqtt_string ?t @ id_bytes pp @ ?m @ rest)" for i
    unfolding d [symmetric] by (simp add: add.commute)
  have pl: "length ?p = Suc ?n + 2 + unat (pp_usTopicLength pp) + length (id_bytes pp) + unat (pp_ulDataLength pp)"
    using l n(1) by (simp add: mqtt_packet_def publish_body_def id_bytes_def)
  have ld: "length ?d = Suc ?n + 2 + unat (pp_usTopicLength pp) + length (id_bytes pp) + unat (pp_ulDataLength pp) + length rest"
    using \<open>?d = ?p @ rest\<close> pl by simp
  have total: "ulTotalMessageLength (xRxMessageState (w_ctx w)) =
      of_nat (Suc ?n + 2 + unat (pp_usTopicLength pp) + length (id_bytes pp)) + pp_ulDataLength pp"
    using arg_cong [OF n(2) [unfolded pl], of "of_nat :: nat \<Rightarrow> u32"] by simp
  have off: "mqttADJUST_OFFSET 2 ?n = Suc (?n + 0)" "mqttADJUST_OFFSET 3 ?n = Suc (?n + 1)" "mqttADJUST_OFFSET 4 ?n = Suc (?n + 2)"
    by (simp_all add: mqttADJUST_OFFSET_def)
  have lt: "pd_usTopicLength (publish_data w (pp_xQos pp)) = pp_usTopicLength pp"
    unfolding publish_data_def Let_def off r using l(1) by (simp add: mqtt_string_def)
  have tp: "pd_pucTopic (publish_data w (pp_xQos pp)) = ?t @ id_bytes pp @ ?m @ rest"
    unfolding publish_data_def Let_def off dd by (simp add: mqtt_string_def)
  show "topic_in_buffer (publish_data w (pp_xQos pp))" using l(1) lt tp by (simp add: topic_in_buffer_def)
  show "take (unat (pd_usTopicLength (publish_data w (pp_xQos pp)))) (pd_pucTopic (publish_data w (pp_xQos pp))) = ?t"
    using lt tp l(1) by simp
  show "mqttADJUST_OFFSET 3 ?n < length ?d" unfolding off ld by simp
  show "let i = mqttADJUST_OFFSET 4 ?n + unat (pd_usTopicLength (publish_data w (pp_xQos pp))) in
       i + 1 < length ?d \<and> rdb ?d i = msb16 (pp_usPacketIdentifier pp) \<and> rdb ?d (i + 1) = lsb16 (pp_usPacketIdentifier pp)"
    if "pp_xQos pp = eMQTTQoS1"
  proof -
    have ib: "id_bytes pp = [msb16 (pp_usPacketIdentifier pp), lsb16 (pp_usPacketIdentifier pp)]" using that by (simp add: id_bytes_def)
    have i: "mqttADJUST_OFFSET 4 ?n + unat (pp_usTopicLength pp) = Suc (?n + (2 + unat (pp_usTopicLength pp)))" unfolding off by simp
    have "rdb ?d (Suc (?n + (2 + unat (pp_usTopicLength pp)))) = msb16 (pp_usPacketIdentifier pp)"
      "rdb ?d (Suc (?n + (3 + unat (pp_usTopicLength pp)))) = lsb16 (pp_usPacketIdentifier pp)"
      unfolding r using l(1) by (simp_all add: mqtt_string_def ib rdb_append2 eval_nat_numeral)
    then show ?thesis unfolding Let_def lt i ld using ib by (simp add: eval_nat_numeral)
  qed
  have il: "(if pp_xQos pp = eMQTTQoS0 then 0 else 2) = length (id_bytes pp)" by (simp add: id_bytes_def)
  have "pd_pvData (publish_data w (pp_xQos pp)) = drop (Suc (?n + (2 + unat (pp_usTopicLength pp) + length (id_bytes pp)))) ?d"
    using lt unfolding publish_data_def Let_def off il by (simp add: add.assoc)
  then have "pd_pvData (publish_data w (pp_xQos pp)) = ?m @ rest" unfolding dd using l(1) by (simp add: mqtt_string_def)
  moreover have "pd_ulDataLength (publish_data w (pp_xQos pp)) = pp_ulDataLength pp"
    using lt total unfolding publish_data_def Let_def off il by (simp add: algebra_simps)
  ultimately show "message_of (publish_data w (pp_xQos pp)) = sent_message pp"
    using lt tp l by (simp add: message_of_def sent_message_def) (simp add: publish_data_def Let_def)
qed

text \<open>What the handler of a PUBLISH packet does, when the packet is the one of \<open>pp\<close>.\<close>

lemma deliveries_ticks: "prvGetCurrentTickCount E w = (t, w') \<Longrightarrow> deliveries (w_trace w') = deliveries (w_trace w)"
  by (auto dest!: ticks_frame(5) split: option.splits)

lemma deliveries_send: "prvSendData E d n w = (rc, w') \<Longrightarrow> deliveries (w_trace w') = deliveries (w_trace w)"
  by (auto simp: prvSendData_def Let_def frame_simps split: if_splits prod.splits dest!: deliveries_ticks)

lemma PUBLISH_effect:
  assumes "publish_params_ok pp" and "xRxBuffer (w_ctx w) \<noteq> 0" and "length (subs w) = mqttconfigSUBSCRIPTION_MANAGER_MAX_SUBSCRIPTIONS"
    and "holds_packet (mqtt_packet (publish_control (pp_xQos pp)) (publish_body pp)) (length (varint (of_nat (length (publish_body pp))))) w"
  obtains ds where "calls_ok (subscribers (w_ctx w) (take (unat (pp_usTopicLength pp)) (pp_pucTopic pp))) ds"
    "deliveries (w_trace (handle_packet E w)) = rev (map (\<lambda>(f, b). (f, b, sent_message pp)) ds) @ deliveries (w_trace w)"
    "sent_data (w_trace (handle_packet E w)) = puback_for pp @ sent_data (w_trace w)"
    "w_fault (handle_packet E w) = w_fault w" "xConnectionState (w_ctx (handle_packet E w)) = xConnectionState (w_ctx w)"
proof -
  let ?q = "pp_xQos pp" and ?pd = "publish_data w (pp_xQos pp)"
  have q: "?q = eMQTTQoS0 \<or> ?q = eMQTTQoS1" using assms(1) by (cases ?q) (simp_all add: publish_params_ok_def)
  note f = publish_fields [OF assms(1,4)]
  have c: "rdb (mb_data (rx_buf w)) 0 = publish_control ?q" using holds_byte [OF assms(4), of 0] by (simp add: mqtt_packet_def)
  define w1 where "w1 = (if ?q = eMQTTQoS1 then send_puback E ?pd w else w)"
  have h: "handle_packet E w = prvResetRxMessageState (case prvInvokeCallback E (eMQTTPublish ?pd) w1 of (taken, w2) \<Rightarrow>
      if \<not> taken then return_rx E w2 else w2)"
  proof -
    have "handle_packet E w = prvResetRxMessageState (prvProcessReceivedPublish E w)"
      using assms(2) c q publish_qos(2) [of ?q]
      by (simp only: handle_packet_def prvProcessReceivedMQTTPacket_def Let_def control_byte_def if_False) auto
    moreover have "chk (mqttADJUST_OFFSET 3 (rx_len_bytes w) < length (mb_data (rx_buf w))) w = w" using f(4) by (simp add: chk_def)
    moreover have "pd_xQos (publish_data w x) = x" for x by (simp add: publish_data_def Let_def)
    ultimately show ?thesis
      using q by (elim disjE) (simp_all add: prvProcessReceivedPublish_def Let_def c publish_qos(1) w1_def)
  qed
  have "same_but_time (w_ctx w) (w_ctx w1) \<and> w_fault w1 = w_fault w \<and> deliveries (w_trace w1) = deliveries (w_trace w) \<and>
    sent_data (w_trace w1) = puback_for pp @ sent_data (w_trace w)"
  proof (cases "?q = eMQTTQoS1")
    case True
    let ?b = "[0x40, 2, msb16 (pp_usPacketIdentifier pp), lsb16 (pp_usPacketIdentifier pp)]"
    obtain rc w' where s: "prvSendData E ?b 4 w = (rc, w')" by fastforce
    have "w1 = w'" using True s f(5) [OF True] by (simp add: w1_def send_puback_def Let_def chk_def mqtt_control_defs)
    then show ?thesis
      using True send_frame(1,4) [OF s] deliveries_send [OF s] sent_data_send [OF s] by (simp add: puback_for_def)
  qed (simp add: w1_def puback_for_def same_but_time_def)
  then have w1: "same_but_time (w_ctx w) (w_ctx w1)" "w_fault w1 = w_fault w" "deliveries (w_trace w1) = deliveries (w_trace w)"
    "sent_data (w_trace w1) = puback_for pp @ sent_data (w_trace w)" by blast+
  obtain taken w2 where i: "prvInvokeCallback E (eMQTTPublish ?pd) w1 = (taken, w2)" by fastforce
  obtain ds where d: "calls_ok (subscribers (w_ctx w1) (take (unat (pd_usTopicLength ?pd)) (pd_pucTopic ?pd))) ds"
    "delivered (message_of ?pd) ds w1 w2" "taken = took ds"
    by (rule publish_calls [OF f(2) _ i]) (use assms(3) same_but_time_fields [OF w1(1)] in auto)
  have s: "subscribers (w_ctx w1) = subscribers (w_ctx w)" using same_but_time_fields [OF w1(1)] by (auto simp: subscribers_def fun_eq_iff)
  have r: "w_trace (handle_packet E w) = w_trace w2" "w_fault (handle_packet E w) = w_fault w2"
    "xConnectionState (w_ctx (handle_packet E w)) = xConnectionState (w_ctx w2)"
    unfolding h i by (simp_all add: reset_rx_frame return_rx_frame)
  show thesis
    by (rule that [of ds]) (use d s r w1 f(1,3) same_but_time_fields [OF w1(1)] in \<open>auto simp: delivered_def\<close>)
qed

section \<open>Properties\<close>

text \<open>
  C4. Messages reach their subscribers. When the packet that \<open>MQTT_Publish\<close> produces for some
  parameters arrives and a buffer of the pool is free and large enough for it, then the
  callbacks whose topic filters match are called in the order of the table, the filters
  without wild-cards first, until one of them takes the buffer; every one of them sees
  the topic, the payload and the quality of service that were published. When no filter
  matches, the callback of the connection gets the message. A QoS 1 message is
  acknowledged once, with its packet identifier. No access is out of bounds.
\<close>

theorem published_message_delivered:
  assumes "firmware_state E w F" and "idle w" and "publish_params_ok pp" and "card (pool_inuse (w_pool w)) < 8"
    and "p = mqtt_packet (publish_control (pp_xQos pp)) (publish_body pp)" and "length p \<le> 2144"
    and "MQTT_ParseReceivedData E p (length p) w = (rc, w')"
  shows "rc = eMQTTSuccess \<and> w_fault w' = w_fault w \<and> xConnectionState (w_ctx w') = xConnectionState (w_ctx w) \<and>
    sent_data (w_trace w') = puback_for pp @ sent_data (w_trace w) \<and>
    (\<exists>ds. calls_ok (subscribers (w_ctx w) (take (unat (pp_usTopicLength pp)) (pp_pucTopic pp))) ds \<and>
       deliveries (w_trace w') = rev (map (\<lambda>(f, b). (f, b, sent_message pp)) ds) @ deliveries (w_trace w))"
proof -
  have b: "publish_body pp \<noteq> []" "length (publish_body pp) < 268435456"
    using assms(5,6) by (auto simp: publish_body_def mqtt_string_def mqtt_packet_def)
  obtain w3 where q: "MQTT_ParseReceivedData E p (length p) w = (eMQTTSuccess, handle_packet E w3)"
    and s: "same_but_rx (w_ctx w) (w_ctx w3)" and tr: "w_trace w3 = w_trace w" "w_fault w3 = w_fault w"
    and h: "xRxBuffer (w_ctx w3) \<noteq> 0 \<Longrightarrow> holds_packet p (length (varint (of_nat (length (publish_body pp))))) w3"
    and n: "xRxBuffer (w_ctx w3) = 0 \<longleftrightarrow> fst (BUFFERPOOL_GetFreeBuffer (w_pool w) (of_nat (length p) + 32)) = None"
    using firmware_packet [OF assms(1,2) b, of "publish_control (pp_xQos pp)", folded assms(5)] by metis
  have "unat (of_nat (length p) + 32 :: u32) = length p + 32" using assms(6) by (simp add: unat_word_ariths unat_of_nat)
  then have "of_nat (length p) + 32 \<le> (2176 :: u32)" using assms(6) by (simp add: word_le_nat_alt)
  then have rx: "xRxBuffer (w_ctx w3) \<noteq> 0" using n get_buffer_available [OF _ _ assms(4)] firmware_ok(1) [OF assms(1)]
    by (simp add: pool_ok_def)
  have len: "length (subs w3) = mqttconfigSUBSCRIPTION_MANAGER_MAX_SUBSCRIPTIONS"
    using firmware_tab [OF assms(1)] same_but_rx_fields(3) [OF s] by (simp add: sub_inv_def)
  have e: "subscribers (w_ctx w3) = subscribers (w_ctx w)" using same_but_rx_fields [OF s] by (auto simp: subscribers_def fun_eq_iff)
  show ?thesis
    by (rule PUBLISH_effect [OF assms(3) rx len h [OF rx, unfolded assms(5)], of E])
      (use q assms(7) tr e same_but_rx_fields [OF s] in auto)
qed

theorem published_message_delivered_witness:
  "sent_data (w_trace (snd (MQTT_ParseReceivedData example_env [0x32, 9, 0, 3, 97, 47, 98, 0, 7, 1, 2] 11 example_connecting))) =
     [0x40, 2, 0, 7] # sent_data (w_trace example_connecting)"
proof -
  have b: "[0x32, 9, 0, 3, 97, 47, 98, 0, 7, 1, 2] = mqtt_packet (publish_control (pp_xQos example_publish)) (publish_body example_publish)"
    by code_simp
  have p: "publish_params_ok example_publish" by (simp add: publish_params_ok_def string_ok_def example_publish_def)
  have "puback_for example_publish = [[0x40, 2, 0, 7]]" by code_simp
  then show ?thesis
    using published_message_delivered [OF example_connecting_state example_connecting_facts(2) p example_connecting_facts(3) b _ prod.collapse [symmetric]]
    by (simp add: numeral_eq_Suc)
qed

end
