(* ===== verification/LwipTimers.thy ===== *)
theory LwipTimers
  imports Prelude "HOL-Library.Multiset"
begin

text \<open>
  The one-shot timers of the TCP/IP stack (\<open>LwIP/src/core/timeouts.c\<close>), which the SNTP client
  uses: a list of pending timers, each with the time between it and the one before it.
  The list is related to the deadlines of the timers, and the interface the clients
  rely on, a multiset of pending timers, is a locale.
\<close>

section \<open>State\<close>

text \<open>\<open>struct sys_timeo\<close>; the \<open>next\<close> pointers are the order of the list.\<close>

record 'h sys_timeo =
  t_time :: u32
  t_h :: 'h
  t_arg :: addr

text \<open>The static variables of the file.\<close>

record 'h timers =
  next_timeout :: "'h sys_timeo list"
  timeouts_last_time :: u32

text \<open>The pool of \<open>struct sys_timeo\<close>: every allocated element is in the list.\<close>

definition MEMP_NUM_SYS_TIMEOUT :: nat where
  "MEMP_NUM_SYS_TIMEOUT = 10"

section \<open>Operations\<close>

text \<open>
  The loop that puts the new timer behind the first of the list; \<open>first\<close> is the time of that
  one. In every iteration the time of the element passed is subtracted.
\<close>

fun timeout_insert :: "u32 \<Rightarrow> u32 \<Rightarrow> 'h sys_timeo \<Rightarrow> 'h sys_timeo list \<Rightarrow> 'h sys_timeo list" where
  "timeout_insert msecs first tmo [] = []"
| "timeout_insert msecs first tmo (t # ts) =
     (let tmo = tmo\<lparr>t_time := t_time tmo - t_time t\<rparr> in
      case ts of
        [] \<Rightarrow> [t, if t_time tmo > msecs then tmo\<lparr>t_time := msecs + first\<rparr> else tmo]
      | n # ns \<Rightarrow>
          if t_time n > t_time tmo then t # tmo # n\<lparr>t_time := t_time n - t_time tmo\<rparr> # ns
          else t # timeout_insert msecs first tmo ts)"

definition sys_timeout :: "u32 \<Rightarrow> u32 \<Rightarrow> 'h \<Rightarrow> addr \<Rightarrow> 'h timers \<Rightarrow> 'h timers" where
  "sys_timeout now msecs handler a q =
     (if length (next_timeout q) \<ge> MEMP_NUM_SYS_TIMEOUT then q
      else (case next_timeout q of
              [] \<Rightarrow> q\<lparr>timeouts_last_time := now, next_timeout := [\<lparr>t_time = msecs + 0, t_h = handler, t_arg = a\<rparr>]\<rparr>
            | t # ts \<Rightarrow>
                (let diff = now - timeouts_last_time q; tmo = \<lparr>t_time = msecs + diff, t_h = handler, t_arg = a\<rparr> in
                 if t_time t > msecs then q\<lparr>next_timeout := tmo # t\<lparr>t_time := t_time t - msecs\<rparr> # ts\<rparr>
                 else q\<lparr>next_timeout := timeout_insert msecs (t_time t) tmo (t # ts)\<rparr>)))"

fun untimeout_remove :: "'h \<Rightarrow> addr \<Rightarrow> 'h sys_timeo list \<Rightarrow> 'h sys_timeo list" where
  "untimeout_remove handler a [] = []"
| "untimeout_remove handler a (t # ts) =
     (if t_h t = handler \<and> t_arg t = a then
        (case ts of [] \<Rightarrow> [] | n # ns \<Rightarrow> n\<lparr>t_time := t_time n + t_time t\<rparr> # ns)
      else t # untimeout_remove handler a ts)"

definition sys_untimeout :: "'h \<Rightarrow> addr \<Rightarrow> 'h timers \<Rightarrow> 'h timers" where
  "sys_untimeout handler a q = q\<lparr>next_timeout := untimeout_remove handler a (next_timeout q)\<rparr>"

text \<open>
  The handlers that have expired are called; \<open>run\<close> is what a call of a handler does to the
  rest of the state and to the timers. A handler that is the null pointer, here \<open>None\<close>, is
  not called. A handler may add timers, so the loop need not end; None stands for that.
\<close>

definition expire_first :: "'h timers \<Rightarrow> 'h timers" where
  "expire_first q = q\<lparr>timeouts_last_time := timeouts_last_time q + t_time (hd (next_timeout q)), next_timeout := tl (next_timeout q)\<rparr>"

partial_function (option) check_loop ::
  "('h \<Rightarrow> addr \<Rightarrow> 's \<times> 'h option timers \<Rightarrow> 's \<times> 'h option timers) \<Rightarrow> u32 \<Rightarrow> 's \<times> 'h option timers \<Rightarrow>
     ('s \<times> 'h option timers) option" where
  "check_loop run diff s =
     (case next_timeout (snd s) of
        [] \<Rightarrow> Some s
      | t # ts \<Rightarrow>
          if t_time t \<le> diff then
            (let s = (fst s, expire_first (snd s)) in
             check_loop run (diff - t_time t) (case t_h t of None \<Rightarrow> s | Some handler \<Rightarrow> run handler (t_arg t) s))
          else Some s)"

declare check_loop.simps [code]

definition sys_check_timeouts ::
  "('h \<Rightarrow> addr \<Rightarrow> 's \<times> 'h option timers \<Rightarrow> 's \<times> 'h option timers) \<Rightarrow> u32 \<Rightarrow> 's \<times> 'h option timers \<Rightarrow>
     ('s \<times> 'h option timers) option" where
  "sys_check_timeouts run now s =
     (if next_timeout (snd s) \<noteq> [] then check_loop run (now - timeouts_last_time (snd s)) s else Some s)"

definition sys_restart_timeouts :: "u32 \<Rightarrow> 'h timers \<Rightarrow> 'h timers" where
  "sys_restart_timeouts now q = q\<lparr>timeouts_last_time := now\<rparr>"

definition sys_timeouts_sleeptime :: "u32 \<Rightarrow> 'h timers \<Rightarrow> u32" where
  "sys_timeouts_sleeptime now q =
     (case next_timeout q of
        [] \<Rightarrow> 0xFFFFFFFF
      | t # ts \<Rightarrow> (let diff = now - timeouts_last_time q in if diff > t_time t then 0 else t_time t - diff))"

section \<open>Pending timers\<close>

definition timer_id :: "'h sys_timeo \<Rightarrow> 'h \<times> addr" where
  "timer_id t = (t_h t, t_arg t)"

lemma timer_id_time [simp]: "timer_id (t\<lparr>t_time := x\<rparr>) = timer_id t"
  by (simp add: timer_id_def)

definition pending :: "'h timers \<Rightarrow> ('h \<times> addr) multiset" where
  "pending q = mset (map timer_id (next_timeout q))"

text \<open>
  What the clients of the timers rely on: a timer that is started is pending if the pool is
  not exhausted, and cancelling removes one timer of the given handler.
\<close>

locale timer_service =
  fixes start :: "u32 \<Rightarrow> u32 \<Rightarrow> 'h \<Rightarrow> addr \<Rightarrow> 'q \<Rightarrow> 'q"
    and cancel :: "'h \<Rightarrow> addr \<Rightarrow> 'q \<Rightarrow> 'q"
    and waiting :: "'q \<Rightarrow> ('h \<times> addr) multiset"
    and room :: "'q \<Rightarrow> bool"
  assumes start_waiting: "room q \<Longrightarrow> waiting (start now ms h a q) = add_mset (h, a) (waiting q)"
    and start_full: "\<not> room q \<Longrightarrow> start now ms h a q = q"
    and cancel_waiting: "waiting (cancel h a q) = waiting q - {#(h, a)#}"
    and cancel_room: "room q \<Longrightarrow> room (cancel h a q)"
begin

lemma start_keeps: "x \<in># waiting q \<Longrightarrow> x \<in># waiting (start now ms h a q)"
  by (cases "room q") (simp_all add: start_waiting start_full)

lemma cancel_keeps: "x \<in># waiting q \<Longrightarrow> x \<noteq> (h, a) \<Longrightarrow> x \<in># waiting (cancel h a q)"
  by (simp add: cancel_waiting in_diff_count)

lemma restart:
  "room q \<Longrightarrow> waiting (start now ms h a (cancel h a q)) = (if (h, a) \<in># waiting q then waiting q else add_mset (h, a) (waiting q))"
  by (simp add: start_waiting cancel_room cancel_waiting diff_single_trivial)

lemma cancel_two:
  "room q \<Longrightarrow> room (cancel h a (cancel h' a' q)) \<and> waiting (cancel h a (cancel h' a' q)) = waiting q - {#(h', a'), (h, a)#}"
  by (simp add: cancel_waiting cancel_room add_mset_commute)

end

lemma timeout_insert_step:
  "timeout_insert ms f tmo [t] =
     [t, if t_time tmo - t_time t > ms then tmo\<lparr>t_time := ms + f\<rparr> else tmo\<lparr>t_time := t_time tmo - t_time t\<rparr>]"
  "timeout_insert ms f tmo (t # n # ns) =
     (if t_time n > t_time tmo - t_time t
      then t # tmo\<lparr>t_time := t_time tmo - t_time t\<rparr> # n\<lparr>t_time := t_time n - (t_time tmo - t_time t)\<rparr> # ns
      else t # timeout_insert ms f (tmo\<lparr>t_time := t_time tmo - t_time t\<rparr>) (n # ns))"
  by (simp_all add: Let_def)

declare timeout_insert.simps(2) [simp del]

lemma insert_pending:
  "mset (map timer_id (timeout_insert ms f tmo (t # ts))) = add_mset (timer_id tmo) (mset (map timer_id (t # ts)))"
proof (induction ts arbitrary: t tmo)
  case (Cons n ns)
  show ?case using Cons [of "tmo\<lparr>t_time := t_time tmo - t_time t\<rparr>" n] by (simp add: timeout_insert_step)
qed (simp add: timeout_insert_step)

lemma remove_pending: "mset (map timer_id (untimeout_remove h a ts)) = mset (map timer_id ts) - {#(h, a)#}"
  by (induction ts) (auto simp: timer_id_def split: list.splits)

lemma length_remove: "length (untimeout_remove h a ts) \<le> length ts"
  by (induction ts) (auto split: list.splits)

interpretation lwip: timer_service sys_timeout sys_untimeout pending "\<lambda>q. length (next_timeout q) < MEMP_NUM_SYS_TIMEOUT"
proof unfold_locales
  fix q :: "'h timers" and now ms and h :: 'h and a
  assume "length (next_timeout q) < MEMP_NUM_SYS_TIMEOUT"
  then show "pending (sys_timeout now ms h a q) = add_mset (h, a) (pending q)"
    by (cases "next_timeout q")
      (auto simp: sys_timeout_def pending_def Let_def insert_pending [simplified] simp flip: timer_id_def, simp_all add: timer_id_def)
next
  show "length (next_timeout q) < MEMP_NUM_SYS_TIMEOUT \<Longrightarrow> length (next_timeout (sys_untimeout h a q)) < MEMP_NUM_SYS_TIMEOUT"
    for q :: "'h timers" and h a using length_remove [of h a "next_timeout q"] by (simp add: sys_untimeout_def)
qed (auto simp: sys_timeout_def sys_untimeout_def pending_def remove_pending [simplified])

section \<open>Deadlines\<close>

text \<open>
  The times at which the timers of a list expire, counted from \<open>timeouts_last_time\<close>, with the
  operations on deadlines: a new one goes behind those that are not later, and cancelling
  removes the first one of a handler.
\<close>

type_synonym 'h deadline = "nat \<times> 'h \<times> addr"

fun due :: "nat \<Rightarrow> 'h sys_timeo list \<Rightarrow> 'h deadline list" where
  "due b [] = []"
| "due b (t # ts) = (b + unat (t_time t), timer_id t) # due (b + unat (t_time t)) ts"

definition deadlines :: "'h timers \<Rightarrow> 'h deadline list" where
  "deadlines q = due 0 (next_timeout q)"

fun add_deadline :: "'h deadline \<Rightarrow> 'h deadline list \<Rightarrow> 'h deadline list" where
  "add_deadline x [] = [x]"
| "add_deadline x (y # ys) = (if fst y > fst x then x # y # ys else y # add_deadline x ys)"

fun cancel_deadline :: "'h \<times> addr \<Rightarrow> 'h deadline list \<Rightarrow> 'h deadline list" where
  "cancel_deadline i [] = []"
| "cancel_deadline i (y # ys) = (if snd y = i then ys else y # cancel_deadline i ys)"

definition delay :: "nat \<Rightarrow> 'h deadline \<Rightarrow> 'h deadline" where
  "delay n = map_prod ((+) n) id"

lemma delay_0 [simp]: "delay 0 = id"
  by (auto simp: delay_def fun_eq_iff)

definition total_time :: "'h sys_timeo list \<Rightarrow> nat" where
  "total_time ts = sum_list (map (\<lambda>t. unat (t_time t)) ts)"

lemma due_Nil: "due b ts = [] \<longleftrightarrow> ts = []"
  by (cases ts) simp_all

lemma total_time_simps [simp]: "total_time [] = 0" "total_time (t # ts) = unat (t_time t) + total_time ts"
  by (simp_all add: total_time_def)

lemma due_delay: "due (n + b) ts = map (delay n) (due b ts)"
  by (induction ts arbitrary: b) (simp_all add: delay_def add.assoc)

lemma unat_minus_u32: "(y::u32) \<le> x \<Longrightarrow> unat (x - y) = unat x - unat y"
  by (simp add: unat_sub)

lemma unat_add_u32': "unat (x::u32) + unat y < 2 ^ 32 \<Longrightarrow> unat (x + y) = unat x + unat y"
  by (simp add: unat_word_ariths)

lemma due_remove:
  "total_time ts < 2 ^ 32 \<Longrightarrow> due b (untimeout_remove h a ts) = cancel_deadline (h, a) (due b ts)"
proof (induction ts arbitrary: b)
  case (Cons t ts)
  then show ?case by (cases ts) (auto simp: timer_id_def unat_add_u32' ac_simps)
qed simp

lemma total_remove: "total_time (untimeout_remove h a ts) \<le> total_time ts"
proof (induction ts)
  case (Cons t ts)
  have "unat (x + y) \<le> unat x + unat y" for x y :: u32 by (simp add: unat_word_ariths)
  then show ?case using Cons by (cases ts) (auto simp: add.commute)
qed simp

lemma due_insert:
  "t_time t \<le> t_time tmo \<Longrightarrow> unat (t_time tmo) \<le> unat ms + total_time (t # ts) \<Longrightarrow>
     due b (timeout_insert ms f tmo (t # ts)) = add_deadline (b + unat (t_time tmo), timer_id tmo) (due b (t # ts))"
proof (induction ts arbitrary: t tmo b)
  case Nil
  then have "\<not> t_time tmo - t_time t > ms" by (simp add: word_less_nat_alt unat_minus_u32)
  then show ?case using Nil by (simp add: timeout_insert_step unat_minus_u32 word_le_nat_alt)
next
  case (Cons n ns)
  let ?m = "tmo\<lparr>t_time := t_time tmo - t_time t\<rparr>"
  have m: "unat (t_time ?m) = unat (t_time tmo) - unat (t_time t)" "unat (t_time t) \<le> unat (t_time tmo)"
    using Cons.prems(1) by (simp_all add: unat_minus_u32 word_le_nat_alt)
  show ?case
  proof (cases "t_time n > t_time ?m")
    case True
    then have "unat (t_time n - t_time ?m) = unat (t_time n) - unat (t_time ?m)" "unat (t_time ?m) < unat (t_time n)"
      using unat_minus_u32 [OF order.strict_implies_order [OF True]] True by (simp_all add: word_less_nat_alt)
    with True m show ?thesis by (simp add: timeout_insert_step) (auto simp: ac_simps)
  next
    case False
    then have "due (b + unat (t_time t)) (timeout_insert ms f ?m (n # ns)) =
        add_deadline (b + unat (t_time t) + unat (t_time ?m), timer_id ?m) (due (b + unat (t_time t)) (n # ns))"
      using Cons.prems m by (intro Cons.IH) (simp_all add: not_less)
    then show ?thesis using False m by (simp add: timeout_insert_step word_less_nat_alt not_less)
  qed
qed

text \<open>
  A new timer that is later than the whole list by more than its own time: the list was not
  looked at for longer than it lasts.
\<close>

lemma insert_late:
  "t_time t \<le> t_time tmo \<Longrightarrow> unat ms + total_time (t # ts) < unat (t_time tmo) \<Longrightarrow>
     timeout_insert ms f tmo (t # ts) = t # ts @ [tmo\<lparr>t_time := ms + f\<rparr>]"
proof (induction ts arbitrary: t tmo)
  case Nil
  then show ?case by (simp add: timeout_insert_step word_less_nat_alt unat_minus_u32)
next
  case (Cons n ns)
  have "unat (t_time tmo - t_time t) = unat (t_time tmo) - unat (t_time t)" using Cons.prems(1) by (rule unat_minus_u32)
  then have "t_time n \<le> t_time tmo - t_time t" "unat ms + total_time (n # ns) < unat (t_time tmo - t_time t)"
    using Cons.prems(2) by (simp_all add: word_le_nat_alt)
  then show ?case using Cons.IH [of n "tmo\<lparr>t_time := t_time tmo - t_time t\<rparr>"] by (simp add: timeout_insert_step leD)
qed

lemma due_append: "due b (ts @ us) = due b ts @ due (b + total_time ts) us"
  by (induction ts arbitrary: b) (simp_all add: add.assoc)

lemma due_last: "ts \<noteq> [] \<Longrightarrow> fst (last (due b ts)) = b + total_time ts"
  by (induction ts arbitrary: b) (auto simp: due_Nil)

lemma due_sorted: "d \<in> set (due b ts) \<Longrightarrow> b \<le> fst d"
  by (induction ts arbitrary: b) fastforce+

lemma add_deadline_first: "ys = [] \<or> fst x < fst (hd ys) \<Longrightarrow> add_deadline x ys = x # ys"
  by (cases ys) auto

section \<open>Expiry\<close>

text \<open>
  What is expected of a check \<open>n\<close> milliseconds after \<open>timeouts_last_time\<close>, on the deadlines: they are
  taken one after the other as long as they are not later than \<open>n\<close>. The handler does \<open>act\<close> and
  cancels the timers \<open>cancels\<close>, so that these are not called in turn.
\<close>

lemma length_cancel: "length (cancel_deadline i ds) \<le> length ds"
  by (induction ds) auto

lemma length_cancels: "length (fold cancel_deadline cs ds) \<le> length ds"
  by (induction cs arbitrary: ds) (auto intro: order_trans length_cancel)

function serve ::
  "('h \<Rightarrow> addr \<Rightarrow> 's \<Rightarrow> 's) \<Rightarrow> ('h \<Rightarrow> addr \<Rightarrow> 's \<Rightarrow> ('h option \<times> addr) list) \<Rightarrow> nat \<Rightarrow> 's \<Rightarrow> 'h option deadline list \<Rightarrow>
     's \<times> 'h option deadline list" where
  "serve act cancels n x [] = (x, [])"
| "serve act cancels n x ((d, h, a) # ds) =
     (if d \<le> n then
        (case h of
           None \<Rightarrow> serve act cancels n x ds
         | Some f \<Rightarrow> serve act cancels n (act f a x) (fold cancel_deadline (cancels f a x) ds))
      else (x, (d, h, a) # ds))"
  by pat_completeness auto
termination
  by (relation "measure (\<lambda>(_, _, _, _, ds). length ds)") (auto simp: less_Suc_eq_le length_cancels)

lemma cancel_delay: "cancel_deadline i (map (delay k) ds) = map (delay k) (cancel_deadline i ds)"
  by (induction ds) (auto simp: delay_def)

lemma cancels_delay: "fold cancel_deadline cs (map (delay k) ds) = map (delay k) (fold cancel_deadline cs ds)"
  by (induction cs arbitrary: ds) (simp_all add: cancel_delay)

lemma serve_delay:
  "serve act cancels n x (map (delay k) ds) =
     (if k \<le> n then map_prod id (map (delay k)) (serve act cancels (n - k) x ds) else (x, map (delay k) ds))"
proof (induction act cancels "n - k" x ds rule: serve.induct)
  case (2 act cancels x d h a ds)
  show ?case
  proof (cases "k + d \<le> n")
    case True
    moreover from this have "k \<le> n" "d \<le> n - k" by simp_all
    ultimately show ?thesis using 2 by (cases h) (simp_all add: delay_def [of k, THEN fun_cong] cancels_delay)
  qed (auto simp: delay_def)
qed simp

definition cancel_all :: "('h \<times> addr) list \<Rightarrow> 'h timers \<Rightarrow> 'h timers" where
  "cancel_all = fold (\<lambda>(h, a). sys_untimeout h a)"

lemma cancel_all_deadlines:
  "total_time (next_timeout q) < 2 ^ 32 \<Longrightarrow>
     deadlines (cancel_all cs q) = fold cancel_deadline cs (deadlines q) \<and> total_time (next_timeout (cancel_all cs q)) < 2 ^ 32 \<and>
     timeouts_last_time (cancel_all cs q) = timeouts_last_time q \<and> length (next_timeout (cancel_all cs q)) \<le> length (next_timeout q)"
proof (induction cs arbitrary: q)
  case (Cons c cs)
  obtain h a where c: "c = (h, a)" by (cases c)
  let ?q = "sys_untimeout h a q"
  have "deadlines ?q = cancel_deadline c (deadlines q)" "total_time (next_timeout ?q) < 2 ^ 32"
    using due_remove [OF Cons.prems] total_remove [of h a "next_timeout q"] Cons.prems
    by (simp_all add: c sys_untimeout_def deadlines_def)
  then show ?case using Cons.IH [of ?q] length_remove [of h a "next_timeout q"] by (simp add: cancel_all_def c sys_untimeout_def)
qed (simp add: cancel_all_def)

lemma expire_first_deadlines:
  assumes "next_timeout q = t # ts"
  shows "deadlines q = (unat (t_time t), t_h t, t_arg t) # map (delay (unat (t_time t))) (deadlines (expire_first q))"
  using due_delay [of "unat (t_time t)" 0 ts] assms by (simp add: deadlines_def expire_first_def timer_id_def)

lemma check_loop_serves:
  assumes "\<And>f a x q. run f a (x, q) = (act f a x, cancel_all (cancels f a x) q)"
  shows "total_time (next_timeout q) < 2 ^ 32 \<Longrightarrow> \<exists>x' q' k. check_loop run diff (x, q) = Some (x', q') \<and>
     timeouts_last_time q' = timeouts_last_time q + of_nat k \<and> k \<le> unat diff \<and>
     serve act cancels (unat diff) x (deadlines q) = (x', map (delay k) (deadlines q'))"
proof (induction "length (next_timeout q)" arbitrary: q x diff rule: less_induct)
  case less
  show ?case
  proof (cases "next_timeout q = [] \<or> \<not> t_time (hd (next_timeout q)) \<le> diff")
    case True
    then have "check_loop run diff (x, q) = Some (x, q)" by (subst check_loop.simps) (auto split: list.split)
    moreover have "serve act cancels (unat diff) x (deadlines q) = (x, deadlines q)"
      using True by (cases "next_timeout q") (auto simp: deadlines_def timer_id_def word_le_nat_alt)
    ultimately show ?thesis by (intro exI [of _ x] exI [of _ q] exI [of _ 0]) simp
  next
    case False
    then obtain t ts where q: "next_timeout q = t # ts" and t: "t_time t \<le> diff" by (cases "next_timeout q") auto
    let ?d = "diff - t_time t" and ?e = "expire_first q"
    let ?x = "case t_h t of None \<Rightarrow> x | Some f \<Rightarrow> act f (t_arg t) x"
    let ?cs = "case t_h t of None \<Rightarrow> [] | Some f \<Rightarrow> cancels f (t_arg t) x"
    let ?q = "cancel_all ?cs ?e"
    have d: "unat ?d = unat diff - unat (t_time t)" "unat (t_time t) \<le> unat diff"
      using t by (simp_all add: unat_minus_u32 word_le_nat_alt)
    have e: "total_time (next_timeout ?e) < 2 ^ 32" "length (next_timeout ?e) < length (next_timeout q)"
      "timeouts_last_time ?e = timeouts_last_time q + t_time t" using less.prems q by (simp_all add: expire_first_def)
    note c = cancel_all_deadlines [OF e(1), of ?cs]
    from c e(2) have l: "length (next_timeout ?q) < length (next_timeout q)" by linarith
    obtain x' q' k where IH: "check_loop run ?d (?x, ?q) = Some (x', q')" "timeouts_last_time q' = timeouts_last_time ?q + of_nat k"
      "k \<le> unat ?d" "serve act cancels (unat ?d) ?x (deadlines ?q) = (x', map (delay k) (deadlines q'))"
      using less.hyps [OF l, of ?d ?x] c by blast
    have "check_loop run diff (x, q) = check_loop run ?d (?x, ?q)"
      using t q assms by (subst check_loop.simps) (auto simp: Let_def cancel_all_def split: option.split)
    moreover have "serve act cancels (unat diff) x (deadlines q) =
        serve act cancels (unat diff) ?x (map (delay (unat (t_time t))) (deadlines ?q))"
      unfolding expire_first_deadlines [OF q] using d(2) c by (simp add: cancels_delay [symmetric] split: option.split)
    moreover have "\<dots> = (x', map (delay (unat (t_time t) + k)) (deadlines q'))"
      using IH(4) d by (simp add: serve_delay) (auto simp: delay_def)
    ultimately show ?thesis
      using IH(1-3) d c e(3)
      by (intro exI [of _ x'] exI [of _ q'] exI [of _ "unat (t_time t) + k"]) (simp add: ac_simps)
  qed
qed

text \<open>Nothing that is due is left.\<close>

lemma cancel_subset: "set (fold cancel_deadline cs ds) \<subseteq> set ds"
proof -
  have "set (cancel_deadline i ds) \<subseteq> set ds" for i and ds :: "'a deadline list" by (induction ds) auto
  then show ?thesis by (induction cs arbitrary: ds) fastforce+
qed

lemma sorted_cancel: "sorted (map fst ds) \<Longrightarrow> sorted (map fst (fold cancel_deadline cs ds))"
proof -
  have "sorted (map fst (cancel_deadline i ds))" if "sorted (map fst ds)" for i and ds :: "'a deadline list"
    using that cancel_subset [of "[i]"] by (induction ds) fastforce+
  then show "sorted (map fst ds) \<Longrightarrow> sorted (map fst (fold cancel_deadline cs ds))" by (induction cs arbitrary: ds) auto
qed

lemma due_is_sorted: "sorted (map fst (due b ts))"
  by (induction ts arbitrary: b) (auto dest: due_sorted)

lemma serve_none_due: "sorted (map fst ds) \<Longrightarrow> d \<in> set (snd (serve act cancels n x ds)) \<Longrightarrow> n < fst d"
proof (induction act cancels n x ds rule: serve.induct)
  case (2 act cancels n x e h a ds)
  then show ?case by (cases h) (auto simp: sorted_cancel split: if_splits)
qed simp

lemma start_deadline:
  assumes "next_timeout q = t # ts" and "length (next_timeout q) < MEMP_NUM_SYS_TIMEOUT"
    and "diff = now - timeouts_last_time q" and "unat msecs + unat diff < 2 ^ 32"
  shows "deadlines (sys_timeout now msecs h a q) =
      (if fst (hd (deadlines q)) > unat msecs then (unat diff + unat msecs, h, a) # map (delay (unat diff)) (deadlines q)
       else if unat diff \<le> fst (last (deadlines q)) then add_deadline (unat diff + unat msecs, h, a) (deadlines q)
       else deadlines q @ [(fst (last (deadlines q)) + fst (hd (deadlines q)) + unat msecs, h, a)])"
proof (cases "t_time t > msecs")
  case True
  then have "unat (t_time t - msecs) = unat (t_time t) - unat msecs" "unat msecs < unat (t_time t)"
    using unat_minus_u32 [OF order.strict_implies_order [OF True]] by (simp_all add: word_less_nat_alt)
  moreover have "unat (msecs + diff) = unat msecs + unat diff" using assms(4) by (rule unat_add_u32')
  ultimately show ?thesis
    using True assms(1-3) due_delay [of "unat diff" "unat (t_time t)" ts]
    by (simp add: sys_timeout_def Let_def deadlines_def timer_id_def delay_def ac_simps)
next
  case False
  let ?tmo = "\<lparr>t_time = msecs + diff, t_h = h, t_arg = a\<rparr>"
  have n: "unat (msecs + diff) = unat msecs + unat diff" using assms(4) by (rule unat_add_u32')
  then have t: "t_time t \<le> t_time ?tmo" using False by (simp add: word_less_nat_alt word_le_nat_alt)
  have s: "deadlines (sys_timeout now msecs h a q) = due 0 (timeout_insert msecs (t_time t) ?tmo (t # ts))"
    using False assms(1-3) by (simp add: sys_timeout_def Let_def deadlines_def)
  have l: "fst (last (deadlines q)) = total_time (t # ts)" "\<not> fst (hd (deadlines q)) > unat msecs" "fst (hd (deadlines q)) = unat (t_time t)"
    using due_last [of "t # ts" 0] False assms(1) by (simp_all add: deadlines_def word_less_nat_alt)
  show ?thesis
  proof (cases "unat diff \<le> total_time (t # ts)")
    case True
    then have "due 0 (timeout_insert msecs (t_time t) ?tmo (t # ts)) = add_deadline (unat (msecs + diff), h, a) (due 0 (t # ts))"
      using due_insert [OF t, of msecs ts 0 "t_time t"] n by (simp add: timer_id_def)
    then show ?thesis unfolding s l(1) using l(2) True n assms(1) by (simp add: deadlines_def add.commute)
  next
    case late: False
    have "timeout_insert msecs (t_time t) ?tmo (t # ts) = t # ts @ [?tmo\<lparr>t_time := msecs + t_time t\<rparr>]"
      using late n by (intro insert_late [OF t]) simp
    moreover have "unat (msecs + t_time t) = unat msecs + unat (t_time t)"
      using late assms(4) by (intro unat_add_u32') simp
    ultimately show ?thesis
      unfolding s l(1,3) using l(2,3) late assms(1) due_append [of 0 "t # ts" "[?tmo\<lparr>t_time := msecs + t_time t\<rparr>]"]
      by (simp add: deadlines_def timer_id_def ac_simps)
  qed
qed

section \<open>Properties\<close>

text \<open>
  C25. Deadlines of the timers. When the pool has room and no sum exceeds 32 bits, a timer
  started \<open>diff\<close> milliseconds after \<open>timeouts_last_time\<close> gets the deadline \<open>diff + msecs\<close>, in its
  place among the others, and they keep their deadlines, with two exceptions: if the first of
  them is later than \<open>msecs\<close>, all of them are delayed by \<open>diff\<close>; and if the first is not, but the list was
  not looked at for longer than until its last deadline, the new timer comes last and expires the time of
  the first timer plus \<open>msecs\<close> after the last one. In an empty list time starts anew. Cancelling
  removes the first timer of the handler and leaves the deadlines of all others alone.
\<close>

theorem timer_deadlines:
  assumes "total_time (next_timeout q) < 2 ^ 32" and "length (next_timeout q) < MEMP_NUM_SYS_TIMEOUT"
    and "diff = now - timeouts_last_time q" and "unat msecs + unat diff < 2 ^ 32"
  shows "deadlines (sys_timeout now msecs h a q) =
      (if next_timeout q = [] then [(unat msecs, h, a)]
       else if fst (hd (deadlines q)) > unat msecs then (unat diff + unat msecs, h, a) # map (delay (unat diff)) (deadlines q)
       else if unat diff \<le> fst (last (deadlines q)) then add_deadline (unat diff + unat msecs, h, a) (deadlines q)
       else deadlines q @ [(fst (last (deadlines q)) + fst (hd (deadlines q)) + unat msecs, h, a)]) \<and>
    timeouts_last_time (sys_timeout now msecs h a q) = (if next_timeout q = [] then now else timeouts_last_time q) \<and>
    deadlines (sys_untimeout h a q) = cancel_deadline (h, a) (deadlines q)"
proof (intro conjI)
  show "timeouts_last_time (sys_timeout now msecs h a q) = (if next_timeout q = [] then now else timeouts_last_time q)"
    using assms(2) by (auto simp: sys_timeout_def Let_def split: list.split)
  show "deadlines (sys_untimeout h a q) = cancel_deadline (h, a) (deadlines q)"
    using due_remove [OF assms(1)] by (simp add: sys_untimeout_def deadlines_def)
  show "deadlines (sys_timeout now msecs h a q) =
      (if next_timeout q = [] then [(unat msecs, h, a)]
       else if fst (hd (deadlines q)) > unat msecs then (unat diff + unat msecs, h, a) # map (delay (unat diff)) (deadlines q)
       else if unat diff \<le> fst (last (deadlines q)) then add_deadline (unat diff + unat msecs, h, a) (deadlines q)
       else deadlines q @ [(fst (last (deadlines q)) + fst (hd (deadlines q)) + unat msecs, h, a)])"
  proof (cases "next_timeout q")
    case Nil
    then show ?thesis using assms(2) by (simp add: sys_timeout_def deadlines_def timer_id_def)
  next
    case (Cons t ts)
    then show ?thesis using start_deadline [OF Cons assms(2-4)] by simp
  qed
qed

definition example_timers :: "nat option timers" where
  "example_timers = sys_timeout 100 500 (Some 1) 0 (sys_timeout 100 250 (Some 0) 0 \<lparr>next_timeout = [], timeouts_last_time = 0\<rparr>)"

lemma example_timers_eq:
  "example_timers = \<lparr>next_timeout = [\<lparr>t_time = 250, t_h = Some 0, t_arg = 0\<rparr>, \<lparr>t_time = 250, t_h = Some 1, t_arg = 0\<rparr>],
     timeouts_last_time = 100\<rparr>"
  by (simp add: example_timers_def sys_timeout_def MEMP_NUM_SYS_TIMEOUT_def timeout_insert.simps)

theorem timer_deadlines_witness:
  "deadlines example_timers = [(250, Some 0, 0), (500, Some 1, 0)] \<and>
   deadlines (sys_timeout 150 300 (Some 2) 0 example_timers) = [(250, Some 0, 0), (350, Some 2, 0), (500, Some 1, 0)] \<and>
   deadlines (sys_timeout 150 100 (Some 2) 0 example_timers) = [(150, Some 2, 0), (300, Some 0, 0), (550, Some 1, 0)] \<and>
   deadlines (sys_timeout 900 300 (Some 2) 0 example_timers) = [(250, Some 0, 0), (500, Some 1, 0), (1050, Some 2, 0)]"
proof -
  have d: "deadlines example_timers = [(250, Some 0, 0), (500, Some 1, 0)]" by (simp add: example_timers_eq deadlines_def timer_id_def)
  then show ?thesis
    using timer_deadlines [of example_timers 50 150 300 "Some 2" 0] timer_deadlines [of example_timers 50 150 100 "Some 2" 0]
      timer_deadlines [of example_timers 800 900 300 "Some 2" 0]
    by (simp add: example_timers_eq MEMP_NUM_SYS_TIMEOUT_def delay_def)
qed

text \<open>
  C26. \<open>sys_check_timeouts\<close> ends and calls exactly the handlers that are due, in the order of
  their deadlines, when the handlers start no new timers. They may cancel timers: one that
  is cancelled is not called any more, also if it was due. Afterwards no timer
  is due, and those that were not cancelled stay pending with their deadlines unchanged.
\<close>

theorem check_timeouts_calls_due:
  assumes "total_time (next_timeout q) < 2 ^ 32" and "\<And>f a x q. run f a (x, q) = (act f a x, cancel_all (cancels f a x) q)"
    and "n = unat (now - timeouts_last_time q)"
  shows "\<exists>x' q' k. sys_check_timeouts run now (x, q) = Some (x', q') \<and>
     serve act cancels n x (deadlines q) = (x', map (delay k) (deadlines q')) \<and>
     timeouts_last_time q' = timeouts_last_time q + of_nat k \<and> k \<le> n \<and> (\<forall>d\<in>set (deadlines q'). n < k + fst d)"
proof -
  have l: "\<exists>x' q' k. sys_check_timeouts run now (x, q) = Some (x', q') \<and>
     serve act cancels n x (deadlines q) = (x', map (delay k) (deadlines q')) \<and>
     timeouts_last_time q' = timeouts_last_time q + of_nat k \<and> k \<le> n"
  proof (cases "next_timeout q = []")
    case True
    then show ?thesis
      by (intro exI [of _ x] exI [of _ q] exI [of _ 0]) (simp add: sys_check_timeouts_def deadlines_def)
  next
    case False
    then show ?thesis
      using check_loop_serves [where run = run and diff = "now - timeouts_last_time q" and x = x, OF assms(2,1)] assms(3)
      by (fastforce simp: sys_check_timeouts_def)
  qed
  have "n < k + fst d" if "serve act cancels n x (deadlines q) = (x', map (delay k) (deadlines q'))" "d \<in> set (deadlines q')" for x' k q' d
    using serve_none_due [of "deadlines q" "delay k d" act cancels n x] due_is_sorted [of 0 "next_timeout q"] that
    by (auto simp: deadlines_def delay_def)
  with l show ?thesis by blast
qed

text \<open>Handler 0 cancels handler 1, which is due too, and handler 2 is called.\<close>

theorem check_timeouts_calls_due_witness:
  "\<exists>q'. sys_check_timeouts (\<lambda>f a (x, q). (x @ [f], cancel_all (if f = 0 then [(Some 1, 0)] else []) q)) 900
     ([], sys_timeout 150 600 (Some 2) 0 example_timers) = Some ([0, 2], q') \<and> next_timeout q' = []"
proof -
  let ?q = "sys_timeout 150 600 (Some 2) 0 example_timers"
  have d: "deadlines ?q = [(250, Some 0, 0), (500, Some 1, 0), (650, Some 2, 0)]" "timeouts_last_time ?q = 100"
    "total_time (next_timeout ?q) < 2 ^ 32"
    by (simp_all add: example_timers_eq sys_timeout_def MEMP_NUM_SYS_TIMEOUT_def deadlines_def timer_id_def timeout_insert_step)
  obtain x' q' k where r: "sys_check_timeouts (\<lambda>f a (x, q). (x @ [f], cancel_all (if f = 0 then [(Some 1, 0)] else []) q)) 900 ([], ?q) =
      Some (x', q')"
    "serve (\<lambda>f a x. x @ [f]) (\<lambda>f a x. if f = 0 then [(Some 1, 0)] else []) 800 [] (deadlines ?q) = (x', map (delay k) (deadlines q'))"
    using check_timeouts_calls_due [of ?q "\<lambda>f a (x, q). (x @ [f], cancel_all (if f = 0 then [(Some 1, 0)] else []) q)" "\<lambda>f a x. x @ [f]"
        "\<lambda>f a x. if f = 0 then [(Some 1, 0)] else []" 800 900 "[]"] d(2,3) by auto
  have "x' = [0, 2]" "deadlines q' = []" using r(2) unfolding d(1) by auto
  then show ?thesis using r(1) by (auto simp: deadlines_def due_Nil)
qed

end
