(* ===== verification/Calendar.thy ===== *)
theory Calendar
  imports Prelude
begin

text \<open>
  The clock of the firmware (\<open>OSTime.c\<close>): the uptime counters \<open>Hora\<close> and \<open>Data\<close>, the calendar
  \<open>OSRtc\<close>, and the task \<open>System_Time\<close> of \<open>tarefas.c\<close> that advances them,
  while the SNTP client may set the calendar between its iterations. The calendar is related
  to the number of seconds since the start of year 0 of the Gregorian calendar.
\<close>

section \<open>State\<close>

record OSTime =
  RTC_Second :: u8
  RTC_Minute :: u8
  RTC_Hour :: u8

record OSDate =
  RTC_Day :: u8
  RTC_Month :: u8
  RTC_Year :: u16

record OS_RTC =
  Year :: u16
  Month :: u8
  Day :: u8
  Hour :: u8
  Min :: u8
  Sec :: u8

text \<open>The static variables of the file.\<close>

record ostime =
  Hora :: OSTime
  Data :: OSDate
  OSRtc :: OS_RTC
  LeapMonth :: u8

definition MonthLength :: "u8 list" where
  "MonthLength = [0, 31, 28, 31, 30, 31, 30, 31, 31, 30, 31, 30, 31]"

section \<open>Operations\<close>

definition OSUpdateTime :: "ostime \<Rightarrow> ostime" where
  "OSUpdateTime s =
     (let h = Hora s; h = h\<lparr>RTC_Second := RTC_Second h + 1\<rparr>;
          h = (if RTC_Second h = 60 then
                 (let h = h\<lparr>RTC_Second := 0, RTC_Minute := RTC_Minute h + 1\<rparr> in
                  if RTC_Minute h = 60 then
                    (let h = h\<lparr>RTC_Minute := 0, RTC_Hour := RTC_Hour h + 1\<rparr> in
                     if RTC_Hour h = 24 then h\<lparr>RTC_Hour := 0\<rparr> else h)
                  else h)
               else h) in
      s\<lparr>Hora := h\<rparr>)"

definition OSUpdateUptime :: "ostime \<Rightarrow> ostime" where
  "OSUpdateUptime s =
     (let s = s\<lparr>Hora := (Hora s)\<lparr>RTC_Second := RTC_Second (Hora s) + 1\<rparr>\<rparr> in
      if RTC_Second (Hora s) = 60 then
        (let s = s\<lparr>Hora := (Hora s)\<lparr>RTC_Second := 0, RTC_Minute := RTC_Minute (Hora s) + 1\<rparr>\<rparr> in
         if RTC_Minute (Hora s) = 60 then
           (let s = s\<lparr>Hora := (Hora s)\<lparr>RTC_Minute := 0, RTC_Hour := RTC_Hour (Hora s) + 1\<rparr>\<rparr> in
            if RTC_Hour (Hora s) = 24 then
              s\<lparr>Hora := (Hora s)\<lparr>RTC_Hour := 0\<rparr>, Data := (Data s)\<lparr>RTC_Day := RTC_Day (Data s) + 1\<rparr>\<rparr>
            else s)
         else s)
      else s)"

definition OSUpdateDate :: "ostime \<Rightarrow> ostime" where
  "OSUpdateDate s =
     (let d = Data s; d = d\<lparr>RTC_Day := RTC_Day d + 1\<rparr>;
          d = (if RTC_Day d = 30 then
                 (let d = d\<lparr>RTC_Day := 0, RTC_Month := RTC_Month d + 1\<rparr> in
                  if RTC_Month d = 12 then
                    (let d = d\<lparr>RTC_Month := 0, RTC_Year := RTC_Year d + 1\<rparr> in
                     if RTC_Year d = 9999 then d\<lparr>RTC_Year := 0\<rparr> else d)
                  else d)
               else d) in
      s\<lparr>Data := d\<rparr>)"

definition OSResetTime :: "ostime \<Rightarrow> ostime" where
  "OSResetTime s = s\<lparr>Hora := \<lparr>RTC_Second = 0, RTC_Minute = 0, RTC_Hour = 0\<rparr>\<rparr>"

definition OSResetDate :: "ostime \<Rightarrow> ostime" where
  "OSResetDate s = s\<lparr>Data := \<lparr>RTC_Day = 0, RTC_Month = 0, RTC_Year = 0\<rparr>\<rparr>"

definition OSUptime :: "ostime \<Rightarrow> OSTime" where
  "OSUptime s = Hora s"

definition OSUpDate :: "ostime \<Rightarrow> OSDate" where
  "OSUpDate s = Data s"

text \<open>The value assigned to \<open>LeapMonth\<close> when a day has passed.\<close>

definition leap_month :: "OS_RTC \<Rightarrow> u8" where
  "leap_month r =
     (if Month r = 2 then
        if Year r AND 0x0003 = 0 then
          if Year r mod 100 = 0 then
            if Year r mod 400 = 0 then 1 else 0
          else 1
        else 0
      else 0)"

text \<open>
  One second later. The table of month lengths is read at the index \<open>OSRtc.Month\<close>; \<open>None\<close>
  stands for a read outside the table.
\<close>

definition OSUpdateCalendar :: "ostime \<Rightarrow> ostime option" where
  "OSUpdateCalendar s =
     (let r = OSRtc s; r = r\<lparr>Sec := Sec r + 1\<rparr> in
      if Sec r = 60 then
        (let r = r\<lparr>Sec := 0, Min := Min r + 1\<rparr> in
         if Min r > 59 then
           (let r = r\<lparr>Min := 0, Hour := Hour r + 1\<rparr> in
            if Hour r > 23 then
              (let r = r\<lparr>Hour := 0, Day := Day r + 1\<rparr>; lm = leap_month r; s = s\<lparr>LeapMonth := lm\<rparr> in
               if unat (Month r) < length MonthLength then
                 if unat (Day r) > unat (MonthLength ! unat (Month r)) + unat lm then
                   (let r = r\<lparr>Day := 1, Month := Month r + 1\<rparr> in
                    if Month r > 12
                    then Some (s\<lparr>OSRtc := r\<lparr>Month := 1, Year := Year r + 1\<rparr>\<rparr>)
                    else Some (s\<lparr>OSRtc := r\<rparr>))
                 else Some (s\<lparr>OSRtc := r\<rparr>)
               else None)
            else Some (s\<lparr>OSRtc := r\<rparr>))
         else Some (s\<lparr>OSRtc := r\<rparr>))
      else Some (s\<lparr>OSRtc := r\<rparr>))"

definition GetCalendar :: "ostime \<Rightarrow> OS_RTC" where
  "GetCalendar s = OSRtc s"

definition SetCalendar :: "OS_RTC \<Rightarrow> ostime \<Rightarrow> ostime" where
  "SetCalendar rtc s = s\<lparr>OSRtc := rtc\<rparr>"

definition Init_Calendar :: "ostime \<Rightarrow> ostime" where
  "Init_Calendar s = SetCalendar \<lparr>Year = 2011, Month = 3, Day = 28, Hour = 9, Min = 0, Sec = 30\<rparr> s"

section \<open>The task System_Time\<close>

text \<open>The local variable \<open>i\<close> counts delays of 10 ms; the state is paired with it.\<close>

definition System_Time_setup :: "ostime \<Rightarrow> nat \<times> ostime" where
  "System_Time_setup s = (0, Init_Calendar (OSResetTime s))"

definition System_Time_iteration :: "nat \<times> ostime \<Rightarrow> (nat \<times> ostime) option" where
  "System_Time_iteration p =
     (case p of (i, s) \<Rightarrow>
        (let i = i + 1 in
         if i \<ge> 100 then map_option (Pair 0) (OSUpdateCalendar (OSUpdateUptime s)) else Some (i, s)))"

fun System_Time_run :: "nat \<Rightarrow> nat \<times> ostime \<Rightarrow> (nat \<times> ostime) option" where
  "System_Time_run 0 p = Some p"
| "System_Time_run (Suc n) p = Option.bind (System_Time_iteration p) (System_Time_run n)"

text \<open>
  The calendar has another writer: the SNTP client calls \<open>SetCalendar\<close> in the task of the TCP/IP stack
  whenever a response arrives. A run of both: iterations of the task \<open>System_Time\<close>, and calendars
  that are set between two of them.
\<close>

datatype clock_event = Ev_iteration | Ev_set OS_RTC

fun clock_run :: "clock_event list \<Rightarrow> nat \<times> ostime \<Rightarrow> (nat \<times> ostime) option" where
  "clock_run [] p = Some p"
| "clock_run (Ev_iteration # es) p = Option.bind (System_Time_iteration p) (clock_run es)"
| "clock_run (Ev_set rtc # es) p = (case p of (i, s) \<Rightarrow> clock_run es (i, SetCalendar rtc s))"

section \<open>Calendar arithmetic\<close>

definition leap_year :: "nat \<Rightarrow> bool" where
  "leap_year y \<longleftrightarrow> 4 dvd y \<and> (\<not> 100 dvd y \<or> 400 dvd y)"

definition days_in_month :: "nat \<Rightarrow> nat \<Rightarrow> nat" where
  "days_in_month y m = (if m = 2 then (if leap_year y then 29 else 28) else if m \<in> {4, 6, 9, 11} then 30 else 31)"

primrec days_before_year :: "nat \<Rightarrow> nat" where
  "days_before_year 0 = 0"
| "days_before_year (Suc y) = days_before_year y + (if leap_year y then 366 else 365)"

fun days_before_month :: "nat \<Rightarrow> nat \<Rightarrow> nat" where
  "days_before_month y 0 = 0"
| "days_before_month y (Suc 0) = 0"
| "days_before_month y (Suc (Suc m)) = days_before_month y (Suc m) + days_in_month y (Suc m)"

definition rtc_valid :: "OS_RTC \<Rightarrow> bool" where
  "rtc_valid r \<longleftrightarrow> 1 \<le> unat (Month r) \<and> unat (Month r) \<le> 12 \<and>
     1 \<le> unat (Day r) \<and> unat (Day r) \<le> days_in_month (unat (Year r)) (unat (Month r)) \<and>
     unat (Hour r) < 24 \<and> unat (Min r) < 60 \<and> unat (Sec r) < 60"

definition rtc_days :: "OS_RTC \<Rightarrow> nat" where
  "rtc_days r = days_before_year (unat (Year r)) + days_before_month (unat (Year r)) (unat (Month r)) + (unat (Day r) - 1)"

definition rtc_seconds :: "OS_RTC \<Rightarrow> nat" where
  "rtc_seconds r = ((rtc_days r * 24 + unat (Hour r)) * 60 + unat (Min r)) * 60 + unat (Sec r)"

text \<open>The last second the calendar can represent.\<close>

definition last_second :: nat where
  "last_second = days_before_year 65536 * 86400 - 1"


section \<open>Lemmas\<close>

lemma unat_plus_one_u8: "unat (x::u8) < 255 \<Longrightarrow> unat (x + 1) = unat x + 1"
  by (simp add: unat_word_ariths)

lemma unat_plus_one_u16: "unat (x::u16) < 65535 \<Longrightarrow> unat (x + 1) = unat x + 1"
  by (simp add: unat_word_ariths)

lemma u8_eq_iff: "(x::u8) = y \<longleftrightarrow> unat x = unat y"
  by (simp add: word_unat_eq_iff)

lemma and_3_mod_4: "((x::u16) AND 3 = 0) \<longleftrightarrow> 4 dvd unat x"
proof -
  have "x AND 3 = x mod 4"
    using take_bit_eq_mod [of 2 x] by (simp add: take_bit_eq_mask mask_eq_exp_minus_1)
  then have "unat (x AND 3) = unat x mod 4" by (simp add: unat_mod_distrib)
  then show ?thesis by (metis dvd_eq_mod_eq_0 unat_0_iff)
qed

lemma mod_eq_0_u16: "((x::u16) mod k = 0) \<longleftrightarrow> unat k dvd unat x"
  by (metis dvd_eq_mod_eq_0 unat_0_iff unat_mod_distrib)

lemma unat_leap_month: "unat (leap_month r) = (if Month r = 2 \<and> leap_year (unat (Year r)) then 1 else 0)"
  by (auto simp: leap_month_def leap_year_def and_3_mod_4 mod_eq_0_u16)

lemma month_cases:
  assumes "1 \<le> m" and "m \<le> (12::nat)"
  obtains "m = 1" | "m = 2" | "m = 3" | "m = 4" | "m = 5" | "m = 6" | "m = 7" | "m = 8" | "m = 9" | "m = 10" | "m = 11" | "m = 12"
  using assms by (auto simp: le_Suc_eq numeral_eq_Suc)

lemma month_length:
  assumes "1 \<le> unat (Month r)" and "unat (Month r) \<le> 12"
  shows "unat (MonthLength ! unat (Month r)) + unat (leap_month r) = days_in_month (unat (Year r)) (unat (Month r))"
  by (rule month_cases [OF assms]) (simp_all add: MonthLength_def unat_leap_month days_in_month_def u8_eq_iff)

lemma days_in_month_bounds: "28 \<le> days_in_month y m" "days_in_month y m \<le> 31"
  by (simp_all add: days_in_month_def)

lemma days_before_month_Suc: "1 \<le> m \<Longrightarrow> days_before_month y (Suc m) = days_before_month y m + days_in_month y m"
  by (cases m) simp_all

lemma days_before_month_mono: "m \<le> n \<Longrightarrow> days_before_month y m \<le> days_before_month y n"
proof (rule lift_Suc_mono_le [of "days_before_month y"])
  show "days_before_month y k \<le> days_before_month y (Suc k)" for k by (cases k) simp_all
qed

lemma days_in_year: "days_before_month y 13 = (if leap_year y then 366 else 365)"
  by (simp add: numeral_eq_Suc days_in_month_def)

lemma days_before_year_mono: "y \<le> z \<Longrightarrow> days_before_year y \<le> days_before_year z"
  by (rule lift_Suc_mono_le) simp_all

subsection \<open>One second later\<close>

text \<open>The next day of a valid date.\<close>

lemma day_after:
  assumes "1 \<le> m" and "m \<le> 12" and "1 \<le> d" and "d \<le> days_in_month y m"
  shows "d < days_in_month y m \<Longrightarrow> days_before_year y + days_before_month y m + d =
      days_before_year y + days_before_month y m + (d - 1) + 1"
    and "d = days_in_month y m \<Longrightarrow> m < 12 \<Longrightarrow> days_before_year y + days_before_month y (Suc m) =
      days_before_year y + days_before_month y m + (d - 1) + 1"
    and "d = days_in_month y m \<Longrightarrow> m = 12 \<Longrightarrow> days_before_year (Suc y) =
      days_before_year y + days_before_month y m + (d - 1) + 1"
proof -
  show "d < days_in_month y m \<Longrightarrow> days_before_year y + days_before_month y m + d =
      days_before_year y + days_before_month y m + (d - 1) + 1" using assms(3) by simp
  show "d = days_in_month y m \<Longrightarrow> m < 12 \<Longrightarrow> days_before_year y + days_before_month y (Suc m) =
      days_before_year y + days_before_month y m + (d - 1) + 1"
    using assms(1,3) by (simp add: days_before_month_Suc)
  have "days_before_month y 12 + days_in_month y 12 = (if leap_year y then 366 else 365)"
    using days_in_year [of y] days_before_month_Suc [of 12 y] by simp
  then show "d = days_in_month y m \<Longrightarrow> m = 12 \<Longrightarrow> days_before_year (Suc y) =
      days_before_year y + days_before_month y m + (d - 1) + 1"
    using assms(3) by simp
qed

text \<open>A day in a month of a year comes before the end of that month and that year.\<close>

lemma rtc_days_lt:
  assumes "rtc_valid r"
  shows "rtc_days r < days_before_year (unat (Year r)) + days_before_month (unat (Year r)) (Suc (unat (Month r)))"
    and "rtc_days r < days_before_year (Suc (unat (Year r)))"
proof -
  let ?y = "unat (Year r)" and ?m = "unat (Month r)"
  show a: "rtc_days r < days_before_year ?y + days_before_month ?y (Suc ?m)"
    using assms by (auto simp: rtc_valid_def rtc_days_def days_before_month_Suc)
  have "days_before_month ?y (Suc ?m) \<le> days_before_month ?y 13"
    using assms by (intro days_before_month_mono) (simp add: rtc_valid_def)
  then show "rtc_days r < days_before_year (Suc ?y)" using a days_in_year [of ?y] by simp
qed

lemma rtc_days_ge:
  "days_before_year (unat (Year r)) + days_before_month (unat (Year r)) (unat (Month r)) \<le> rtc_days r"
  by (simp add: rtc_days_def)

text \<open>Different valid calendars stand for different seconds.\<close>

lemma rtc_days_inj:
  assumes "rtc_valid r" and "rtc_valid r'" and "rtc_days r = rtc_days r'"
  shows "Year r = Year r' \<and> Month r = Month r' \<and> Day r = Day r'"
proof -
  have le: "unat (Year a) \<le> unat (Year b)" if "rtc_valid b" "rtc_days a = rtc_days b" for a b
  proof (rule ccontr)
    assume "\<not> unat (Year a) \<le> unat (Year b)"
    then have "days_before_year (Suc (unat (Year b))) \<le> days_before_year (unat (Year a))"
      by (intro days_before_year_mono) simp
    then show False using rtc_days_lt(2) [OF that(1)] rtc_days_ge [of a] that(2) by linarith
  qed
  have y: "unat (Year r) = unat (Year r')"
    using le [OF assms(2,3)] le [OF assms(1) assms(3) [symmetric]] by simp
  have lm: "unat (Month a) \<le> unat (Month b)"
    if "rtc_valid b" "rtc_days a = rtc_days b" "unat (Year a) = unat (Year b)" for a b
  proof (rule ccontr)
    assume "\<not> unat (Month a) \<le> unat (Month b)"
    then have "days_before_month (unat (Year b)) (Suc (unat (Month b))) \<le> days_before_month (unat (Year b)) (unat (Month a))"
      by (intro days_before_month_mono) simp
    then show False using rtc_days_lt(1) [OF that(1)] rtc_days_ge [of a] that(2,3) by simp
  qed
  have m: "unat (Month r) = unat (Month r')"
    using lm [OF assms(2,3) y] lm [OF assms(1) assms(3) [symmetric] y [symmetric]] by simp
  have "unat (Day r) = unat (Day r')"
    using assms y m unfolding rtc_days_def rtc_valid_def by simp linarith
  then show ?thesis using y m by (simp add: word_unat_eq_iff)
qed

lemma mixed_radix: "(a::nat) < k \<Longrightarrow> b < k \<Longrightarrow> x * k + a = y * k + b \<longleftrightarrow> x = y \<and> a = b"
  by (metis add.commute add_left_cancel div_mult_self3 div_less add.right_neutral gr_implies_not0 mult.commute)

lemma rtc_seconds_inj:
  assumes "rtc_valid r" and "rtc_valid r'" and "rtc_seconds r = rtc_seconds r'"
  shows "r = r'"
proof -
  have "unat (Sec r) < 60" "unat (Sec r') < 60" "unat (Min r) < 60" "unat (Min r') < 60" "unat (Hour r) < 24" "unat (Hour r') < 24"
    using assms(1,2) by (simp_all add: rtc_valid_def)
  note mr = mixed_radix [OF this(1,2)] mixed_radix [OF this(3,4)] mixed_radix [OF this(5,6)]
  have s: "unat (Sec r) = unat (Sec r')" and n: "unat (Min r) = unat (Min r')"
    and "unat (Hour r) = unat (Hour r')" "rtc_days r = rtc_days r'"
    using assms(3) unfolding rtc_seconds_def mr by blast+
  with s n rtc_days_inj [OF assms(1,2)] show ?thesis
    by (cases r; cases r') (simp add: word_unat_eq_iff)
qed


text \<open>The state after one call of \<open>OSUpdateCalendar\<close> on a valid calendar.\<close>

lemma update_calendar:
  assumes v: "rtc_valid (OSRtc s)" and l: "rtc_seconds (OSRtc s) < last_second"
  obtains s' where "OSUpdateCalendar s = Some s'" "rtc_valid (OSRtc s')"
    "rtc_seconds (OSRtc s') = rtc_seconds (OSRtc s) + 1" "Hora s' = Hora s" "Data s' = Data s"
proof -
  let ?r = "OSRtc s"
  let ?y = "unat (Year ?r)" and ?m = "unat (Month ?r)" and ?d = "unat (Day ?r)"
  have b: "1 \<le> ?m" "?m \<le> 12" "1 \<le> ?d" "?d \<le> days_in_month ?y ?m" "unat (Hour ?r) < 24" "unat (Min ?r) < 60" "unat (Sec ?r) < 60"
    using v by (simp_all add: rtc_valid_def)
  have d31: "?d \<le> 31" using b(4) days_in_month_bounds(2) [of ?y ?m] by simp
  note inc = unat_plus_one_u8 [of "Sec ?r"] unat_plus_one_u8 [of "Min ?r"] unat_plus_one_u8 [of "Hour ?r"]
    unat_plus_one_u8 [of "Day ?r"] unat_plus_one_u8 [of "Month ?r"]
  note simps = OSUpdateCalendar_def Let_def u8_eq_iff word_less_nat_alt inc
  consider (sec) "unat (Sec ?r) < 59" | (min) "unat (Sec ?r) = 59" "unat (Min ?r) < 59"
    | (hour) "unat (Sec ?r) = 59" "unat (Min ?r) = 59" "unat (Hour ?r) < 23"
    | (day) "unat (Sec ?r) = 59" "unat (Min ?r) = 59" "unat (Hour ?r) = 23"
    using b by linarith
  then show ?thesis
  proof cases
    case sec
    then show ?thesis
      using b by (intro that [of "s\<lparr>OSRtc := ?r\<lparr>Sec := Sec ?r + 1\<rparr>\<rparr>"])
        (simp_all add: simps rtc_valid_def rtc_seconds_def rtc_days_def)
  next
    case min
    then show ?thesis
      using b by (intro that [of "s\<lparr>OSRtc := ?r\<lparr>Sec := 0, Min := Min ?r + 1\<rparr>\<rparr>"])
        (simp_all add: simps rtc_valid_def rtc_seconds_def rtc_days_def)
  next
    case hour
    then show ?thesis
      using b by (intro that [of "s\<lparr>OSRtc := ?r\<lparr>Sec := 0, Min := 0, Hour := Hour ?r + 1\<rparr>\<rparr>"])
        (simp_all add: simps rtc_valid_def rtc_seconds_def rtc_days_def)
  next
    case day
    let ?r1 = "?r\<lparr>Sec := 0, Min := 0, Hour := 0, Day := Day ?r + 1\<rparr>"
    have ml: "unat (MonthLength ! ?m) + unat (leap_month ?r1) = days_in_month ?y ?m"
      using month_length [of ?r1] b(1,2) by simp
    have t: "length MonthLength = 13" by (simp add: MonthLength_def)
    consider (next_day) "?d < days_in_month ?y ?m" | (next_month) "?d = days_in_month ?y ?m" "?m < 12"
      | (next_year) "?d = days_in_month ?y ?m" "?m = 12"
      using b by linarith
    then show ?thesis
    proof cases
      case next_day
      then show ?thesis
        using b d31 day ml t next_day by (intro that [of "s\<lparr>LeapMonth := leap_month ?r1, OSRtc := ?r1\<rparr>"])
          (simp_all add: simps rtc_valid_def rtc_seconds_def rtc_days_def)
    next
      case next_month
      then show ?thesis
        using b d31 day ml t days_in_month_bounds(1) [of ?y "Suc ?m"] day_after(2) [OF b(1-4)]
        by (intro that [of "s\<lparr>LeapMonth := leap_month ?r1, OSRtc := ?r1\<lparr>Day := 1, Month := Month ?r + 1\<rparr>\<rparr>"])
          (simp_all add: simps rtc_valid_def rtc_seconds_def rtc_days_def)
    next
      case next_year
      have "rtc_seconds ?r + 1 = days_before_year (Suc ?y) * 86400"
        using day_after(3) [OF b(1-4) next_year] day by (simp add: rtc_seconds_def rtc_days_def)
      then have "days_before_year (Suc ?y) < days_before_year 65536"
        using l by (simp add: last_second_def)
      then have "?y < 65535" using days_before_year_mono [of 65536 "Suc ?y"] unat_u16_lt [of "Year ?r"] by linarith
      then show ?thesis
        using b d31 day ml t next_year day_after(3) [OF b(1-4) next_year] unat_plus_one_u16 [of "Year ?r"]
        by (intro that [of "s\<lparr>LeapMonth := leap_month ?r1, OSRtc := ?r1\<lparr>Day := 1, Month := 1, Year := Year ?r + 1\<rparr>\<rparr>"])
          (simp_all add: simps rtc_valid_def rtc_seconds_def rtc_days_def days_in_month_def)
    qed
  qed
qed


section \<open>The time of day and the uptime\<close>

definition time_valid :: "OSTime \<Rightarrow> bool" where
  "time_valid h \<longleftrightarrow> unat (RTC_Hour h) < 24 \<and> unat (RTC_Minute h) < 60 \<and> unat (RTC_Second h) < 60"

definition time_seconds :: "OSTime \<Rightarrow> nat" where
  "time_seconds h = (unat (RTC_Hour h) * 60 + unat (RTC_Minute h)) * 60 + unat (RTC_Second h)"

text \<open>The uptime: the time of day and the number of days, an 8-bit counter.\<close>

definition uptime_seconds :: "ostime \<Rightarrow> nat" where
  "uptime_seconds s = unat (RTC_Day (Data s)) * 86400 + time_seconds (Hora s)"

lemma time_seconds_lt: "time_valid h \<Longrightarrow> time_seconds h < 86400"
  by (simp add: time_valid_def time_seconds_def)

lemma unat_plus_one_wrap: "unat ((x::u8) + 1) = (unat x + 1) mod 256"
  by (simp add: unat_word_ariths)

lemma update_uptime:
  assumes "time_valid (Hora s)"
  shows "time_valid (Hora (OSUpdateUptime s))" "OSRtc (OSUpdateUptime s) = OSRtc s"
    "uptime_seconds (OSUpdateUptime s) = (uptime_seconds s + 1) mod (256 * 86400)"
proof -
  let ?h = "Hora s"
  have b: "unat (RTC_Hour ?h) < 24" "unat (RTC_Minute ?h) < 60" "unat (RTC_Second ?h) < 60"
    using assms by (simp_all add: time_valid_def)
  note simps = OSUpdateUptime_def Let_def u8_eq_iff unat_plus_one_u8 [of "RTC_Second ?h"]
    unat_plus_one_u8 [of "RTC_Minute ?h"] unat_plus_one_u8 [of "RTC_Hour ?h"]
  have d: "unat (RTC_Day (Data s)) < 256" by (rule unat_u8_lt)
  show "time_valid (Hora (OSUpdateUptime s))" "OSRtc (OSUpdateUptime s) = OSRtc s"
    using b by (auto simp: simps time_valid_def)
  consider (sec) "unat (RTC_Second ?h) < 59" | (min) "unat (RTC_Second ?h) = 59" "unat (RTC_Minute ?h) < 59"
    | (hour) "unat (RTC_Second ?h) = 59" "unat (RTC_Minute ?h) = 59" "unat (RTC_Hour ?h) < 23"
    | (day) "unat (RTC_Second ?h) = 59" "unat (RTC_Minute ?h) = 59" "unat (RTC_Hour ?h) = 23"
    using b by linarith
  then show "uptime_seconds (OSUpdateUptime s) = (uptime_seconds s + 1) mod (256 * 86400)"
  proof cases
    case day
    then have "uptime_seconds s + 1 = (unat (RTC_Day (Data s)) + 1) * 86400"
      by (simp add: uptime_seconds_def time_seconds_def)
    moreover have "uptime_seconds (OSUpdateUptime s) = (unat (RTC_Day (Data s)) + 1) mod 256 * 86400"
      using day by (simp add: simps uptime_seconds_def time_seconds_def unat_plus_one_wrap)
    ultimately show ?thesis by (simp add: mult_mod_left)
  qed (use d b in \<open>simp_all add: simps uptime_seconds_def time_seconds_def\<close>)
qed

lemma update_time:
  assumes "time_valid (Hora s)"
  shows "time_valid (Hora (OSUpdateTime s))" "time_seconds (Hora (OSUpdateTime s)) = (time_seconds (Hora s) + 1) mod 86400"
proof -
  let ?h = "Hora s"
  have b: "unat (RTC_Hour ?h) < 24" "unat (RTC_Minute ?h) < 60" "unat (RTC_Second ?h) < 60"
    using assms by (simp_all add: time_valid_def)
  note simps = OSUpdateTime_def Let_def u8_eq_iff unat_plus_one_u8 [of "RTC_Second ?h"]
    unat_plus_one_u8 [of "RTC_Minute ?h"] unat_plus_one_u8 [of "RTC_Hour ?h"]
  show "time_valid (Hora (OSUpdateTime s))" using b by (auto simp: simps time_valid_def)
  consider "unat (RTC_Second ?h) < 59" | "unat (RTC_Second ?h) = 59" "unat (RTC_Minute ?h) < 59"
    | "unat (RTC_Second ?h) = 59" "unat (RTC_Minute ?h) = 59" "unat (RTC_Hour ?h) < 23"
    | "unat (RTC_Second ?h) = 59" "unat (RTC_Minute ?h) = 59" "unat (RTC_Hour ?h) = 23"
    using b by linarith
  then show "time_seconds (Hora (OSUpdateTime s)) = (time_seconds (Hora s) + 1) mod 86400"
    by cases (use b in \<open>simp_all add: simps time_seconds_def\<close>)
qed

text \<open>\<open>OSUpdateDate\<close> counts in months of thirty days and years of twelve months.\<close>

definition date_valid :: "OSDate \<Rightarrow> bool" where
  "date_valid d \<longleftrightarrow> unat (RTC_Day d) < 30 \<and> unat (RTC_Month d) < 12 \<and> unat (RTC_Year d) < 9999"

definition date_days :: "OSDate \<Rightarrow> nat" where
  "date_days d = (unat (RTC_Year d) * 12 + unat (RTC_Month d)) * 30 + unat (RTC_Day d)"

lemma u16_eq_iff: "(x::u16) = y \<longleftrightarrow> unat x = unat y"
  by (simp add: word_unat_eq_iff)

lemma update_date:
  assumes "date_valid (Data s)"
  shows "date_valid (Data (OSUpdateDate s))" "date_days (Data (OSUpdateDate s)) = (date_days (Data s) + 1) mod (9999 * 360)"
proof -
  let ?d = "Data s"
  have b: "unat (RTC_Day ?d) < 30" "unat (RTC_Month ?d) < 12" "unat (RTC_Year ?d) < 9999"
    using assms by (simp_all add: date_valid_def)
  note simps = OSUpdateDate_def Let_def u8_eq_iff u16_eq_iff unat_plus_one_u8 [of "RTC_Day ?d"]
    unat_plus_one_u8 [of "RTC_Month ?d"] unat_plus_one_u16 [of "RTC_Year ?d"]
  show "date_valid (Data (OSUpdateDate s))" using b by (auto simp: simps date_valid_def)
  consider "unat (RTC_Day ?d) < 29" | "unat (RTC_Day ?d) = 29" "unat (RTC_Month ?d) < 11"
    | "unat (RTC_Day ?d) = 29" "unat (RTC_Month ?d) = 11" "unat (RTC_Year ?d) < 9998"
    | "unat (RTC_Day ?d) = 29" "unat (RTC_Month ?d) = 11" "unat (RTC_Year ?d) = 9998"
    using b by linarith
  then show "date_days (Data (OSUpdateDate s)) = (date_days (Data s) + 1) mod (9999 * 360)"
    by cases (use b in \<open>simp_all add: simps date_days_def\<close>)
qed

section \<open>The task\<close>

text \<open>
  The state after \<open>n\<close> iterations of the task's loop: the calendar and the uptime have
  advanced by one second for every hundred iterations.
\<close>

lemma System_Time_run_state:
  assumes "rtc_valid (OSRtc s)" and "time_valid (Hora s)" and "i < 100"
    and "rtc_seconds (OSRtc s) + (i + n) div 100 \<le> last_second"
  shows "\<exists>s'. System_Time_run n (i, s) = Some ((i + n) mod 100, s') \<and> rtc_valid (OSRtc s') \<and> time_valid (Hora s') \<and>
    rtc_seconds (OSRtc s') = rtc_seconds (OSRtc s) + (i + n) div 100 \<and>
    uptime_seconds s' mod (256 * 86400) = (uptime_seconds s + (i + n) div 100) mod (256 * 86400)"
  using assms
proof (induction n arbitrary: i s)
  case (Suc n)
  show ?case
  proof (cases "i = 99")
    case False
    then show ?thesis
      using Suc.IH [of s "Suc i"] Suc.prems by (simp add: System_Time_iteration_def)
  next
    case True
    have k: "(i + Suc n) div 100 = Suc (n div 100)" "(i + Suc n) mod 100 = n mod 100" using True by simp_all
    note u = update_uptime [OF Suc.prems(2)]
    have "rtc_valid (OSRtc (OSUpdateUptime s))" "rtc_seconds (OSRtc (OSUpdateUptime s)) < last_second"
      using Suc.prems(1,4) k by (simp_all add: u(2))
    then obtain s' where s': "OSUpdateCalendar (OSUpdateUptime s) = Some s'" "rtc_valid (OSRtc s')"
      "rtc_seconds (OSRtc s') = rtc_seconds (OSRtc (OSUpdateUptime s)) + 1" "Hora s' = Hora (OSUpdateUptime s)"
      "Data s' = Data (OSUpdateUptime s)"
      by (rule update_calendar)
    have us: "uptime_seconds s' = (uptime_seconds s + 1) mod (256 * 86400)"
      using u(3) s'(4,5) by (simp add: uptime_seconds_def)
    obtain s'' where "System_Time_run n (0, s') = Some (n mod 100, s'')" "rtc_valid (OSRtc s'')" "time_valid (Hora s'')"
      "rtc_seconds (OSRtc s'') = rtc_seconds (OSRtc s') + n div 100"
      "uptime_seconds s'' mod (256 * 86400) = (uptime_seconds s' + n div 100) mod (256 * 86400)"
      using Suc.IH [of s' 0] Suc.prems(4) s' u k by auto
    then show ?thesis
      using True s' u us unfolding k by (simp add: System_Time_iteration_def mod_simps)
  qed
qed simp


section \<open>Properties\<close>

lemma days_before_year_bounds: "365 * y \<le> days_before_year y" "days_before_year y \<le> 366 * y"
  by (induction y) auto

lemma last_second_large: "2066715000000 \<le> last_second"
proof -
  have "365 * 65536 * 86400 \<le> days_before_year 65536 * 86400"
    using days_before_year_bounds(1) [of 65536] by simp
  then show ?thesis unfolding last_second_def by simp
qed

definition start_calendar :: OS_RTC where
  "start_calendar = \<lparr>Year = 2011, Month = 3, Day = 28, Hour = 9, Min = 0, Sec = 30\<rparr>"

lemma start_calendar_valid: "rtc_valid start_calendar"
  by (simp add: start_calendar_def rtc_valid_def days_in_month_def)

lemma start_calendar_seconds: "rtc_seconds start_calendar \<le> 63700000000"
proof -
  have "days_before_month 2011 3 = 59"
    by (simp add: numeral_3_eq_3 days_in_month_def leap_year_def)
  then have "rtc_days start_calendar \<le> 736112"
    using days_before_year_bounds(2) [of 2011] by (simp add: rtc_days_def start_calendar_def)
  then show ?thesis by (simp add: rtc_seconds_def start_calendar_def)
qed

text \<open>Runs of both writers.\<close>

definition iterations :: "clock_event list \<Rightarrow> nat" where
  "iterations es = length (filter ((=) Ev_iteration) es)"

lemma clock_run_append: "clock_run (es @ fs) p = Option.bind (clock_run es p) (clock_run fs)"
  by (induction es p rule: clock_run.induct) (auto simp: elem_set split: prod.split intro!: bind_option_cong)

lemma clock_run_iterations: "clock_run (replicate n Ev_iteration) p = System_Time_run n p"
  by (induction n arbitrary: p) (simp_all cong: bind_option_cong)

lemma clock_run_last_set: "clock_run (es @ [Ev_set r]) p = Some (i, s) \<Longrightarrow> OSRtc s = r"
  by (auto simp: clock_run_append Option.bind_eq_Some_conv SetCalendar_def)

lemma ticks_split: "(k::nat) div 100 + (k mod 100 + n) div 100 = (k + n) div 100"
  by (metis add.commute div_mult_self4 mod_mult_div_eq mult.commute zero_neq_numeral add.assoc)

lemma clock_run_state:
  assumes "rtc_valid (OSRtc s)" and "time_valid (Hora s)" and "i < 100"
    and "rtc_seconds (OSRtc s) + (i + length es) div 100 \<le> last_second"
    and "\<forall>rtc. Ev_set rtc \<in> set es \<longrightarrow> rtc_valid rtc \<and> rtc_seconds rtc + (99 + length es) div 100 \<le> last_second"
  shows "\<exists>s'. clock_run es (i, s) = Some ((i + iterations es) mod 100, s') \<and> rtc_valid (OSRtc s') \<and> time_valid (Hora s') \<and>
    uptime_seconds s' mod (256 * 86400) = (uptime_seconds s + (i + iterations es) div 100) mod (256 * 86400)"
  using assms
proof (induction es arbitrary: i s)
  case (Cons e es)
  have sets: "\<forall>rtc. Ev_set rtc \<in> set es \<longrightarrow> rtc_valid rtc \<and> rtc_seconds rtc + (99 + length es) div 100 \<le> last_second"
    using Cons.prems(5) by (auto intro: order_trans [OF add_left_mono [OF div_le_mono]])
  show ?case
  proof (cases e)
    case Ev_iteration
    let ?i = "(i + 1) mod 100"
    have b: "rtc_seconds (OSRtc s) + (i + 1) div 100 \<le> last_second"
      using Cons.prems(4) div_le_mono [of "i + 1" "i + length (e # es)" 100] by simp
    obtain s1 where s1: "System_Time_iteration (i, s) = Some (?i, s1)" "rtc_valid (OSRtc s1)" "time_valid (Hora s1)"
      "rtc_seconds (OSRtc s1) = rtc_seconds (OSRtc s) + (i + 1) div 100"
      "uptime_seconds s1 mod (256 * 86400) = (uptime_seconds s + (i + 1) div 100) mod (256 * 86400)"
      using System_Time_run_state [OF Cons.prems(1-3) b] by (auto simp: Option.bind_eq_Some_conv)
    have "rtc_seconds (OSRtc s1) + (?i + length es) div 100 \<le> last_second"
      using Cons.prems(4) ticks_split [of "i + 1" "length es"] s1(4) by simp
    then obtain s' where s': "clock_run es (?i, s1) = Some ((?i + iterations es) mod 100, s')" "rtc_valid (OSRtc s')" "time_valid (Hora s')"
      "uptime_seconds s' mod (256 * 86400) = (uptime_seconds s1 + (?i + iterations es) div 100) mod (256 * 86400)"
      using Cons.IH [OF s1(2,3) _ _ sets, of ?i] by auto
    have it: "iterations (e # es) = Suc (iterations es)" using Ev_iteration by (simp add: iterations_def)
    have "(i + 1) div 100 + (?i + iterations es) div 100 = (i + iterations (e # es)) div 100"
      using ticks_split [of "i + 1" "iterations es"] it by simp
    then have "uptime_seconds s' mod (256 * 86400) = (uptime_seconds s + (i + iterations (e # es)) div 100) mod (256 * 86400)"
      using s'(4) s1(5) by (metis add.assoc mod_add_left_eq)
    moreover have "(?i + iterations es) mod 100 = (i + iterations (e # es)) mod 100" using it by (simp add: mod_simps)
    ultimately show ?thesis using Ev_iteration s1(1) s'(1-3) by simp
  next
    case (Ev_set rtc)
    then have r: "rtc_valid rtc" "rtc_seconds rtc + (99 + length (e # es)) div 100 \<le> last_second" using Cons.prems(5) by auto
    have "(i + length es) div 100 \<le> (99 + length (e # es)) div 100" using Cons.prems(3) by (intro div_le_mono) simp
    then have "rtc_seconds rtc + (i + length es) div 100 \<le> last_second" using r(2) by linarith
    then show ?thesis
      using Cons.IH [OF _ _ Cons.prems(3) _ sets, of "SetCalendar rtc s"] r(1) Cons.prems(2) Ev_set
      by (simp add: SetCalendar_def iterations_def uptime_seconds_def)
  qed
qed (simp add: iterations_def)

text \<open>
  C27. A call of \<open>OSUpdateCalendar\<close> on a valid calendar never reads outside the table of month
  lengths, gives a valid calendar again, and this one is exactly one second later in the
  Gregorian calendar (with its rule for leap years), until the 16-bit year is exhausted.
\<close>

theorem calendar_tick:
  assumes "rtc_valid (OSRtc s)" and "rtc_seconds (OSRtc s) < last_second"
  shows "\<exists>s'. OSUpdateCalendar s = Some s' \<and> rtc_valid (OSRtc s') \<and>
    rtc_seconds (OSRtc s') = rtc_seconds (OSRtc s) + 1 \<and> Hora s' = Hora s \<and> Data s' = Data s"
  using update_calendar [OF assms] by metis

definition example_clock :: "OS_RTC \<Rightarrow> ostime" where
  "example_clock r = \<lparr>Hora = \<lparr>RTC_Second = 0, RTC_Minute = 0, RTC_Hour = 0\<rparr>,
     Data = \<lparr>RTC_Day = 0, RTC_Month = 0, RTC_Year = 0\<rparr>, OSRtc = r, LeapMonth = 0\<rparr>"

theorem calendar_tick_witness:
  "map_option OSRtc (OSUpdateCalendar (example_clock \<lparr>Year = 2000, Month = 2, Day = 28, Hour = 23, Min = 59, Sec = 59\<rparr>)) =
     Some \<lparr>Year = 2000, Month = 2, Day = 29, Hour = 0, Min = 0, Sec = 0\<rparr> \<and>
   rtc_valid \<lparr>Year = 2000, Month = 2, Day = 29, Hour = 0, Min = 0, Sec = 0\<rparr> \<and>
   rtc_seconds \<lparr>Year = 2000, Month = 2, Day = 29, Hour = 0, Min = 0, Sec = 0\<rparr> =
     rtc_seconds \<lparr>Year = 2000, Month = 2, Day = 28, Hour = 23, Min = 59, Sec = 59\<rparr> + 1"
proof -
  let ?r = "\<lparr>Year = 2000, Month = 2, Day = 28, Hour = 23, Min = 59, Sec = 59\<rparr> :: OS_RTC"
  let ?q = "\<lparr>Year = 2000, Month = 2, Day = 29, Hour = 0, Min = 0, Sec = 0\<rparr> :: OS_RTC"
  have v: "rtc_valid (OSRtc (example_clock ?r))"
    by (simp add: example_clock_def rtc_valid_def days_in_month_def)
  have "days_before_month 2000 2 = 31" by (simp add: numeral_2_eq_2 days_in_month_def)
  then have "rtc_days ?r \<le> 732058"
    using days_before_year_bounds(2) [of 2000] by (simp add: rtc_days_def)
  then have l: "rtc_seconds (OSRtc (example_clock ?r)) < last_second"
    using last_second_large by (simp add: rtc_seconds_def example_clock_def)
  have u: "map_option OSRtc (OSUpdateCalendar (example_clock ?r)) = Some ?q"
    by (simp add: OSUpdateCalendar_def example_clock_def Let_def leap_month_def MonthLength_def)
  then show ?thesis using calendar_tick [OF v l] by (auto simp: example_clock_def)
qed

text \<open>
  C28. The task \<open>System_Time\<close> keeps the calendar and the uptime, also when the SNTP client sets the
  calendar any number of times between its iterations. Take the calendar \<open>r\<close> that was set last (or, before
  any was set, the initial one of \<open>Init_Calendar\<close>) and the \<open>n\<close> iterations since then. The
  calendar is the one and only valid date and time that lies as many seconds after \<open>r\<close> as there were ticks in these
  iterations: one in every hundred, counted from the start of the task. The uptime counters have advanced by the number of all
  ticks, modulo the 256 days that the day counter can hold. The calendars that are set must be valid
  ones, as those of the SNTP client are, and neither they nor the initial one may come so close to the end of the
  year 65535 that the iterations of the run pass it. Each update of the calendar is taken as one step: that no
  task interrupts another one in it is assumed, the code does not see to it.
\<close>

theorem system_time_keeps_calendar:
  assumes "es = before @ replicate n Ev_iteration"
    and "before = [] \<and> r = start_calendar \<or> (\<exists>earlier. before = earlier @ [Ev_set r])"
    and "\<forall>rtc. Ev_set rtc \<in> set es \<longrightarrow> rtc_valid rtc"
    and "\<forall>rtc. rtc = start_calendar \<or> Ev_set rtc \<in> set es \<longrightarrow> rtc_seconds rtc + (99 + length es) div 100 \<le> last_second"
    and "k = iterations before mod 100"
  shows "\<exists>i s'. clock_run es (System_Time_setup s) = Some (i, s') \<and> rtc_valid (GetCalendar s') \<and>
    rtc_seconds (GetCalendar s') = rtc_seconds r + (k + n) div 100 \<and>
    (\<forall>rtc. rtc_valid rtc \<longrightarrow> rtc_seconds rtc = rtc_seconds r + (k + n) div 100 \<longrightarrow> rtc = GetCalendar s') \<and>
    uptime_seconds s' mod (256 * 86400) = (unat (RTC_Day (Data s)) * 86400 + iterations es div 100) mod (256 * 86400)"
proof -
  let ?s = "Init_Calendar (OSResetTime s)"
  have s: "System_Time_setup s = (0, ?s)" "OSRtc ?s = start_calendar" "time_valid (Hora ?s)"
    "uptime_seconds ?s = unat (RTC_Day (Data s)) * 86400"
    by (simp_all add: System_Time_setup_def Init_Calendar_def SetCalendar_def start_calendar_def OSResetTime_def
        time_valid_def uptime_seconds_def time_seconds_def)
  have before: "rtc_seconds start_calendar + length before div 100 \<le> last_second"
    "\<forall>rtc. Ev_set rtc \<in> set before \<longrightarrow> rtc_valid rtc \<and> rtc_seconds rtc + (99 + length before) div 100 \<le> last_second"
    using assms(1,3,4) by (auto intro: order_trans [OF add_left_mono [OF div_le_mono]])
  obtain s1 where s1: "clock_run before (0, ?s) = Some (k, s1)" "rtc_valid (OSRtc s1)" "time_valid (Hora s1)"
    "uptime_seconds s1 mod (256 * 86400) = (uptime_seconds ?s + iterations before div 100) mod (256 * 86400)"
    using clock_run_state [of ?s 0 before] before s start_calendar_valid assms(5) by auto
  have r: "OSRtc s1 = r" using assms(2) s1(1) s(2) clock_run_last_set by auto
  have "rtc_seconds r + (k + n) div 100 \<le> rtc_seconds r + (99 + length es) div 100"
    using assms(1,5) by (intro add_left_mono div_le_mono) simp
  moreover have "r = start_calendar \<or> Ev_set r \<in> set es" using assms(1,2) by auto
  ultimately have b: "rtc_seconds (OSRtc s1) + (k + n) div 100 \<le> last_second" using assms(4) r by fastforce
  have "k < 100" using assms(5) by simp
  from System_Time_run_state [OF s1(2,3) this b] obtain s' where s': "System_Time_run n (k, s1) = Some ((k + n) mod 100, s')"
    "rtc_valid (OSRtc s')" "rtc_seconds (OSRtc s') = rtc_seconds r + (k + n) div 100"
    "uptime_seconds s' mod (256 * 86400) = (uptime_seconds s1 + (k + n) div 100) mod (256 * 86400)"
    using r by auto
  have "clock_run es (System_Time_setup s) = Some ((k + n) mod 100, s')"
    using s'(1) s1(1) by (simp add: assms(1) s(1) clock_run_append clock_run_iterations)
  moreover have "\<forall>rtc. rtc_valid rtc \<longrightarrow> rtc_seconds rtc = rtc_seconds r + (k + n) div 100 \<longrightarrow> rtc = OSRtc s'"
    using rtc_seconds_inj [OF _ s'(2)] s'(3) by simp
  moreover have "iterations before div 100 + (k + n) div 100 = iterations es div 100"
    using assms(1,5) ticks_split [of "iterations before" n] by (simp add: iterations_def)
  then have "uptime_seconds s' mod (256 * 86400) = (uptime_seconds ?s + iterations es div 100) mod (256 * 86400)"
    using s'(4) s1(4) by (metis add.assoc mod_add_left_eq)
  ultimately show ?thesis using s'(2,3) s(4) unfolding GetCalendar_def by metis
qed

text \<open>After 150 iterations a response sets the calendar, and the next tick comes 50 iterations later.\<close>

theorem system_time_keeps_calendar_witness:
  "\<exists>i s'. clock_run (replicate 150 Ev_iteration @ [Ev_set \<lparr>Year = 2018, Month = 1, Day = 9, Hour = 13, Min = 7, Sec = 58\<rparr>] @
       replicate 50 Ev_iteration) (System_Time_setup (example_clock start_calendar)) = Some (i, s') \<and>
     GetCalendar s' = \<lparr>Year = 2018, Month = 1, Day = 9, Hour = 13, Min = 7, Sec = 59\<rparr>"
proof -
  let ?r = "\<lparr>Year = 2018, Month = 1, Day = 9, Hour = 13, Min = 7, Sec = 58\<rparr> :: OS_RTC"
  let ?q = "\<lparr>Year = 2018, Month = 1, Day = 9, Hour = 13, Min = 7, Sec = 59\<rparr> :: OS_RTC"
  let ?es = "replicate 150 Ev_iteration @ [Ev_set ?r]"
  have v: "rtc_valid ?r" "rtc_valid ?q" by (simp_all add: rtc_valid_def days_in_month_def)
  have "rtc_days ?r \<le> 738600"
    using days_before_year_bounds(2) [of 2018] by (simp add: rtc_days_def)
  then have b: "rtc_seconds ?r + 4 \<le> last_second" using last_second_large by (simp add: rtc_seconds_def)
  have n: "rtc_seconds ?q = rtc_seconds ?r + 1" by (simp add: rtc_seconds_def rtc_days_def)
  have "iterations ?es mod 100 = 50" by (simp add: iterations_def)
  then show ?thesis
    using system_time_keeps_calendar [of "?es @ replicate 50 Ev_iteration" ?es 50 ?r 50 "example_clock start_calendar"]
      v b n start_calendar_seconds last_second_large by fastforce
qed

text \<open>
  The counters of the time of day and of the date. \<open>OSUpdateTime\<close> counts the seconds of a
  day and starts again at midnight, and \<open>OSUpdateDate\<close> counts days in months of thirty days
  and years of twelve months, up to the year 9999; both keep their fields in range.
\<close>

theorem clock_counters:
  assumes "time_valid (Hora s)" and "date_valid (Data s)"
  shows "time_valid (Hora (OSUpdateTime s)) \<and>
    time_seconds (Hora (OSUpdateTime s)) = (time_seconds (Hora s) + 1) mod 86400 \<and> Data (OSUpdateTime s) = Data s \<and>
    date_valid (Data (OSUpdateDate s)) \<and>
    date_days (Data (OSUpdateDate s)) = (date_days (Data s) + 1) mod (9999 * 360) \<and> Hora (OSUpdateDate s) = Hora s"
  using update_time [OF assms(1)] update_date [OF assms(2)] by (simp add: OSUpdateTime_def OSUpdateDate_def Let_def)

theorem clock_counters_witness:
  "time_seconds (Hora (OSUpdateTime (example_clock start_calendar))) = 1 \<and>
   date_days (Data (OSUpdateDate (example_clock start_calendar))) = 1"
  using clock_counters [of "example_clock start_calendar"]
  by (simp add: example_clock_def time_valid_def date_valid_def time_seconds_def date_days_def)

end
