(* ===== verification/Sntp.thy ===== *)
theory Sntp
  imports LwipTimers Calendar
begin

text \<open>
  The SNTP client (\<open>sntp_client/sntp.c\<close>): requests and retries driven by the timers of the
  TCP/IP stack, validation of responses, and setting the calendar from a response. The
  configuration is the one of the firmware: one server, given by its DNS name, and no
  checks of the sender of a response.
\<close>

section \<open>Local time\<close>

text \<open>
  \<open>localtime\<close> of the C library with the time zone \<open>STD3\<close>, three hours behind UTC and without
  daylight saving time: the date is found by counting years and months from January 1,
  1969, 0 o'clock. A time is a non-negative number of seconds since 1970. The width of \<open>time_t\<close>
  is a matter of the C library; the model takes the 32 bits that the arithmetic of the client leaves, and
  the properties are about times below \<open>2 ^ 31\<close>, which are the same in a signed and in a wider \<open>time_t\<close>.
\<close>

record tm =
  tm_sec :: nat
  tm_min :: nat
  tm_hour :: nat
  tm_mday :: nat
  tm_mon :: nat
  tm_year :: nat

definition days_in_year :: "nat \<Rightarrow> nat" where
  "days_in_year y = (if leap_year y then 366 else 365)"

function find_year :: "nat \<Rightarrow> nat \<Rightarrow> nat \<times> nat" where
  "find_year y d = (if d < days_in_year y then (y, d) else find_year (Suc y) (d - days_in_year y))"
  by pat_completeness auto
termination by (relation "measure snd") (auto simp: days_in_year_def)

declare find_year.simps [simp del]

function find_month :: "nat \<Rightarrow> nat \<Rightarrow> nat \<Rightarrow> nat \<times> nat" where
  "find_month y m d = (if d < days_in_month y m then (m, d) else find_month y (Suc m) (d - days_in_month y m))"
  by pat_completeness auto
termination by (relation "measure (\<lambda>(_, _, d). d)") (auto simp: days_in_month_def)

declare find_month.simps [simp del]

definition localtime_STD3 :: "u32 \<Rightarrow> tm" where
  "localtime_STD3 t =
     (let secs = unat t + 365 * 86400 - 10800; days = secs div 86400; r = secs mod 86400 in
      case find_year 1969 days of (y, yday) \<Rightarrow>
      case find_month y 1 yday of (m, mday) \<Rightarrow>
        \<lparr>tm_sec = r mod 60, tm_min = r div 60 mod 60, tm_hour = r div 3600, tm_mday = Suc mday, tm_mon = m - 1, tm_year = y - 1900\<rparr>)"

section \<open>State\<close>

text \<open>The functions of the client that the timers call; other modules have timers too.\<close>

datatype timer_fn = Fn_sntp_request | Fn_sntp_retry | Fn_other nat

text \<open>
  The static variables, the calendar, the timers, the number of queries for which the DNS
  client will still call \<open>sntp_dns_found\<close>, and the datagrams handed to \<open>udp_sendto\<close> (newest
  first), each with the control block given with it; True stands for one that is not
  \<open>NULL\<close>.
\<close>

record sntp =
  sntp_pcb :: bool
  sntp_retry_timeout :: u32
  mbedtls_now :: u32
  sntp_clock :: ostime
  sntp_timers :: "timer_fn timers"
  sntp_queries :: nat
  sntp_sent :: "(bool \<times> u8 list) list"

definition SNTP_RECV_TIMEOUT :: u32 where "SNTP_RECV_TIMEOUT = 3000"
definition SNTP_RETRY_TIMEOUT :: u32 where "SNTP_RETRY_TIMEOUT = SNTP_RECV_TIMEOUT"
definition SNTP_RETRY_TIMEOUT_MAX :: u32 where "SNTP_RETRY_TIMEOUT_MAX = SNTP_RETRY_TIMEOUT * 10"
definition SNTP_UPDATE_DELAY :: u32 where "SNTP_UPDATE_DELAY = 3600000"
definition SNTP_MSG_LEN :: nat where "SNTP_MSG_LEN = 48"
definition SNTP_OFFSET_LI_VN_MODE :: nat where "SNTP_OFFSET_LI_VN_MODE = 0"
definition SNTP_LI_NO_WARNING :: u8 where "SNTP_LI_NO_WARNING = 0x00"
definition SNTP_VERSION :: u8 where "SNTP_VERSION = push_bit 3 4"
definition SNTP_MODE_MASK :: u8 where "SNTP_MODE_MASK = 0x07"
definition SNTP_MODE_CLIENT :: u8 where "SNTP_MODE_CLIENT = 0x03"
definition SNTP_MODE_SERVER :: u8 where "SNTP_MODE_SERVER = 0x04"
definition SNTP_MODE_BROADCAST :: u8 where "SNTP_MODE_BROADCAST = 0x05"
definition SNTP_OFFSET_STRATUM :: nat where "SNTP_OFFSET_STRATUM = 1"
definition SNTP_STRATUM_KOD :: u8 where "SNTP_STRATUM_KOD = 0x00"
definition SNTP_OFFSET_RECEIVE_TIME :: nat where "SNTP_OFFSET_RECEIVE_TIME = 32"
definition DIFF_SEC_1900_1970 :: u32 where "DIFF_SEC_1900_1970 = 2208988800"

lemmas sntp_config = SNTP_RECV_TIMEOUT_def SNTP_RETRY_TIMEOUT_def SNTP_RETRY_TIMEOUT_MAX_def SNTP_UPDATE_DELAY_def
  SNTP_MSG_LEN_def SNTP_OFFSET_LI_VN_MODE_def SNTP_LI_NO_WARNING_def SNTP_VERSION_def SNTP_MODE_MASK_def SNTP_MODE_CLIENT_def
  SNTP_MODE_SERVER_def SNTP_MODE_BROADCAST_def SNTP_OFFSET_STRATUM_def SNTP_STRATUM_KOD_def SNTP_OFFSET_RECEIVE_TIME_def
  DIFF_SEC_1900_1970_def

section \<open>Setting the time\<close>

definition time_c_library :: "sntp \<Rightarrow> u32" where
  "time_c_library s = mbedtls_now s"

definition SNTP_SET_SYSTEM_TIME_RTC :: "u32 \<Rightarrow> sntp \<Rightarrow> sntp" where
  "SNTP_SET_SYSTEM_TIME_RTC time s =
     (let s = s\<lparr>mbedtls_now := time\<rparr>; ts = localtime_STD3 time;
          rtc = \<lparr>Year = of_nat (tm_year ts + 1900), Month = of_nat (tm_mon ts + 1), Day = of_nat (tm_mday ts),
                 Hour = of_nat (tm_hour ts), Min = of_nat (tm_min ts), Sec = of_nat (tm_sec ts)\<rparr> in
      s\<lparr>sntp_clock := SetCalendar rtc (sntp_clock s)\<rparr>)"

text \<open>\<open>ntohl\<close> of the first word of the time stamp, given as the bytes of the datagram.\<close>

definition be32 :: "u8 list \<Rightarrow> u32" where
  "be32 b = push_bit 24 (ucast (rdb b 0)) OR push_bit 16 (ucast (rdb b 1)) OR push_bit 8 (ucast (rdb b 2)) OR ucast (rdb b 3)"

definition sntp_process :: "u8 list \<Rightarrow> sntp \<Rightarrow> sntp" where
  "sntp_process receive_timestamp s = SNTP_SET_SYSTEM_TIME_RTC (be32 receive_timestamp - DIFF_SEC_1900_1970) s"

section \<open>Requests\<close>

text \<open>
  The time \<open>now\<close> of \<open>sys_now\<close>, whether \<open>pbuf_alloc\<close> succeeds (\<open>mem\<close>) and what \<open>dns_gethostbyname\<close>
  returns are arguments.
\<close>

datatype dns_result = ERR_OK | ERR_INPROGRESS | ERR_other

definition set_timer :: "u32 \<Rightarrow> u32 \<Rightarrow> timer_fn \<Rightarrow> sntp \<Rightarrow> sntp" where
  "set_timer now msecs f s = s\<lparr>sntp_timers := sys_timeout now msecs f 0 (sntp_timers s)\<rparr>"

definition stop_timer :: "timer_fn \<Rightarrow> sntp \<Rightarrow> sntp" where
  "stop_timer f s = s\<lparr>sntp_timers := sys_untimeout f 0 (sntp_timers s)\<rparr>"

definition sntp_initialize_request :: "u8 list" where
  "sntp_initialize_request = (replicate SNTP_MSG_LEN 0)[0 := SNTP_LI_NO_WARNING OR SNTP_VERSION OR SNTP_MODE_CLIENT]"

definition sntp_retry :: "u32 \<Rightarrow> sntp \<Rightarrow> sntp" where
  "sntp_retry now s =
     (let s = set_timer now (sntp_retry_timeout s) Fn_sntp_request s;
          new_retry_timeout = push_bit 1 (sntp_retry_timeout s) in
      if new_retry_timeout \<le> SNTP_RETRY_TIMEOUT_MAX \<and> new_retry_timeout > sntp_retry_timeout s
      then s\<lparr>sntp_retry_timeout := new_retry_timeout\<rparr> else s)"

definition sntp_send_request :: "u32 \<Rightarrow> bool \<Rightarrow> sntp \<Rightarrow> sntp" where
  "sntp_send_request now mem s =
     (if mem then set_timer now SNTP_RECV_TIMEOUT Fn_sntp_retry (s\<lparr>sntp_sent := (sntp_pcb s, sntp_initialize_request) # sntp_sent s\<rparr>)
      else set_timer now SNTP_RETRY_TIMEOUT Fn_sntp_request s)"

definition sntp_dns_found :: "u32 \<Rightarrow> bool \<Rightarrow> bool \<Rightarrow> sntp \<Rightarrow> sntp" where
  "sntp_dns_found now mem resolved s = (if resolved then sntp_send_request now mem s else sntp_retry now s)"

definition sntp_request :: "u32 \<Rightarrow> bool \<Rightarrow> dns_result \<Rightarrow> sntp \<Rightarrow> sntp" where
  "sntp_request now mem err s =
     (if err = ERR_INPROGRESS then s\<lparr>sntp_queries := sntp_queries s + 1\<rparr>
      else if err = ERR_OK then sntp_send_request now mem s
      else set_timer now SNTP_RETRY_TIMEOUT Fn_sntp_retry s)"

section \<open>Responses\<close>

text \<open>The value of \<open>err\<close> after a datagram was examined, with the time stamp copied from it.\<close>

datatype sntp_err = Resp_OK "u8 list" | SNTP_ERR_KOD | Resp_ERR_ARG

definition sntp_examine :: "u8 list \<Rightarrow> sntp_err" where
  "sntp_examine p =
     (if length p = SNTP_MSG_LEN then
        (let mode = p ! SNTP_OFFSET_LI_VN_MODE AND SNTP_MODE_MASK in
         if mode = SNTP_MODE_SERVER \<or> mode = SNTP_MODE_BROADCAST then
           (let stratum = p ! SNTP_OFFSET_STRATUM in
            if stratum = SNTP_STRATUM_KOD then SNTP_ERR_KOD else Resp_OK (take 4 (drop SNTP_OFFSET_RECEIVE_TIME p)))
         else Resp_ERR_ARG)
      else Resp_ERR_ARG)"

definition sntp_recv :: "u32 \<Rightarrow> u8 list \<Rightarrow> sntp \<Rightarrow> sntp" where
  "sntp_recv now p s =
     (let s = stop_timer Fn_sntp_request (stop_timer Fn_sntp_retry s) in
      case sntp_examine p of
        Resp_OK ts \<Rightarrow> set_timer now SNTP_UPDATE_DELAY Fn_sntp_request (sntp_process ts (s\<lparr>sntp_retry_timeout := SNTP_RETRY_TIMEOUT\<rparr>))
      | SNTP_ERR_KOD \<Rightarrow> sntp_retry now s
      | Resp_ERR_ARG \<Rightarrow> sntp_retry now s)"

section \<open>Start and stop\<close>

definition sntp_init :: "u32 \<Rightarrow> bool \<Rightarrow> bool \<Rightarrow> dns_result \<Rightarrow> sntp \<Rightarrow> sntp" where
  "sntp_init now udp_ok mem err s =
     (if \<not> sntp_pcb s then
        (let s = s\<lparr>sntp_retry_timeout := SNTP_RETRY_TIMEOUT, sntp_pcb := udp_ok\<rparr> in
         if sntp_pcb s then sntp_request now mem err s else s)
      else s)"

definition sntp_stop :: "sntp \<Rightarrow> sntp" where
  "sntp_stop s = (if sntp_pcb s then (stop_timer Fn_sntp_request s)\<lparr>sntp_pcb := False\<rparr> else s)"

text \<open>What happens when a timer of the client expires.\<close>

definition run_timer :: "u32 \<Rightarrow> bool \<Rightarrow> dns_result \<Rightarrow> timer_fn \<Rightarrow> sntp \<Rightarrow> sntp" where
  "run_timer now mem err f s =
     (case f of Fn_sntp_request \<Rightarrow> sntp_request now mem err s | Fn_sntp_retry \<Rightarrow> sntp_retry now s | Fn_other n \<Rightarrow> s)"

section \<open>The local time is right\<close>

lemma days_before_year_Suc: "days_before_year (Suc y) = days_before_year y + days_in_year y"
  by (simp add: days_in_year_def)

lemma days_before_year_ge: "days_before_year y + 365 * n \<le> days_before_year (y + n)"
  by (induction n) auto

lemma find_year_spec:
  "find_year y d = (y', d') \<Longrightarrow> days_before_year y + d = days_before_year y' + d' \<and> d' < days_in_year y' \<and> y \<le> y'"
proof (induction y d rule: find_year.induct)
  case (1 y d)
  show ?case
  proof (cases "d < days_in_year y")
    case False
    then have "find_year (Suc y) (d - days_in_year y) = (y', d')" using "1.prems" by (simp add: find_year.simps [of y d])
    from "1.IH" [OF False this] show ?thesis using False unfolding days_before_year_Suc by auto
  qed (use "1.prems" in \<open>auto simp: find_year.simps [of y d]\<close>)
qed

lemma find_month_spec:
  "find_month y m d = (m', d') \<Longrightarrow> 1 \<le> m \<Longrightarrow> m \<le> 12 \<Longrightarrow> days_before_month y m + d < days_before_month y 13 \<Longrightarrow>
     days_before_month y m + d = days_before_month y m' + d' \<and> d' < days_in_month y m' \<and> 1 \<le> m' \<and> m' \<le> 12"
proof (induction y m d rule: find_month.induct)
  case (1 y m d)
  show ?case
  proof (cases "d < days_in_month y m")
    case False
    have s: "days_before_month y (Suc m) = days_before_month y m + days_in_month y m"
      using "1.prems"(2) by (rule days_before_month_Suc)
    have "m \<noteq> 12" using False s "1.prems"(4) by auto
    then have "Suc m \<le> 12" using "1.prems"(3) by simp
    moreover have "find_month y (Suc m) (d - days_in_month y m) = (m', d')"
      using False "1.prems"(1) by (simp add: find_month.simps [of y m d])
    ultimately show ?thesis using "1.IH" [OF False] "1.prems" s False by simp
  qed (use "1.prems" in \<open>auto simp: find_month.simps [of y m d]\<close>)
qed

lemma hms: "(x div 3600 * 60 + x div 60 mod 60) * 60 + x mod 60 = (x::nat)"
  using div_mult2_eq [of x 60 60] div_mult_mod_eq [of "x div 60" 60] div_mult_mod_eq [of x 60] by simp

lemma local_calendar:
  "rtc_valid (OSRtc (sntp_clock (SNTP_SET_SYSTEM_TIME_RTC t s)))"
  "rtc_seconds (OSRtc (sntp_clock (SNTP_SET_SYSTEM_TIME_RTC t s))) + 10800 = days_before_year 1970 * 86400 + unat t"
proof -
  let ?n = "unat t + 365 * 86400 - 10800" and ?r = "OSRtc (sntp_clock (SNTP_SET_SYSTEM_TIME_RTC t s))"
  have t: "unat t < 4294967296" using unsigned_less [of t] by simp
  obtain y d where y: "find_year 1969 (?n div 86400) = (y, d)" by fastforce
  note ys = find_year_spec [OF y]
  obtain m e where m: "find_month y 1 d = (m, e)" by fastforce
  have "days_before_month y 1 + d < days_before_month y 13"
    using ys by (simp add: Calendar.days_in_year days_in_year_def)
  note ms = find_month_spec [OF m _ _ this, simplified]
  have "365 * (y - 1969) \<le> ?n div 86400"
    using days_before_year_ge [of 1969 "y - 1969"] ys by simp
  then have yb: "y < 65536" using t by linarith
  have mb: "m < 256" using ms by simp
  have eb: "e < 31" using ms days_in_month_bounds(2) [of y m] by linarith
  have r: "?r = \<lparr>Year = of_nat y, Month = of_nat m, Day = of_nat (Suc e), Hour = of_nat (?n mod 86400 div 3600),
      Min = of_nat (?n mod 86400 div 60 mod 60), Sec = of_nat (?n mod 86400 mod 60)\<rparr>"
  proof -
    have "localtime_STD3 t = \<lparr>tm_sec = ?n mod 86400 mod 60, tm_min = ?n mod 86400 div 60 mod 60, tm_hour = ?n mod 86400 div 3600,
        tm_mday = Suc e, tm_mon = m - 1, tm_year = y - 1900\<rparr>"
      unfolding localtime_STD3_def Let_def y prod.case m by (rule refl)
    moreover have "m - 1 + 1 = m" "y - 1900 + 1900 = y" using ms ys by simp_all
    ultimately show ?thesis by (simp only: SNTP_SET_SYSTEM_TIME_RTC_def Let_def SetCalendar_def tm.simps) simp
  qed
  have u: "unat (Year ?r) = y" "unat (Month ?r) = m" "unat (Day ?r) = Suc e" "unat (Hour ?r) = ?n mod 86400 div 3600"
    "unat (Min ?r) = ?n mod 86400 div 60 mod 60" "unat (Sec ?r) = ?n mod 86400 mod 60"
  proof -
    have small: "?n mod 86400 div 3600 < 24" "?n mod 86400 div 60 mod 60 < 60" "?n mod 86400 mod 60 < 60" by (simp_all add: less_mult_imp_div_less)
    have w8: "unat (of_nat k :: u8) = k" if "k < 256" for k using that by (simp add: unat_of_nat)
    have w16: "unat (of_nat k :: u16) = k" if "k < 65536" for k using that by (simp add: unat_of_nat)
    have "Suc e < 256" "?n mod 86400 div 3600 < 256" "?n mod 86400 div 60 mod 60 < 256" "?n mod 86400 mod 60 < 256"
      using eb small by linarith+
    note w = this [THEN w8]
    show "unat (Year ?r) = y" "unat (Month ?r) = m" "unat (Day ?r) = Suc e" "unat (Hour ?r) = ?n mod 86400 div 3600"
      "unat (Min ?r) = ?n mod 86400 div 60 mod 60" "unat (Sec ?r) = ?n mod 86400 mod 60"
      unfolding r OS_RTC.simps by (rule w16 [OF yb] w8 [OF mb] w)+
  qed
  show "rtc_valid ?r" unfolding rtc_valid_def u using ms by (auto simp: less_mult_imp_div_less)
  have "rtc_days ?r = days_before_year 1969 + ?n div 86400" using ys ms unfolding rtc_days_def u by simp
  moreover have "rtc_seconds ?r = rtc_days ?r * 86400 + ((unat (Hour ?r) * 60 + unat (Min ?r)) * 60 + unat (Sec ?r))"
    by (simp add: rtc_seconds_def algebra_simps)
  ultimately have "rtc_seconds ?r = (days_before_year 1969 + ?n div 86400) * 86400 + ?n mod 86400" unfolding u(4-6) hms by simp
  moreover have "days_before_year 1970 = days_before_year 1969 + 365"
    using days_before_year_Suc [of 1969] by (simp add: days_in_year_def leap_year_def)
  ultimately show "rtc_seconds ?r + 10800 = days_before_year 1970 * 86400 + unat t"
    using div_mult_mod_eq [of ?n 86400] by (simp add: distrib_right)
qed

section \<open>The client as a transition system\<close>

text \<open>
  What can happen to the client once it runs: a datagram arrives, the DNS client answers a
  query, a timer of the client expires, other modules use the timers, or the firmware
  calls \<open>sntp_init\<close> again. The pool of timers has a free element whenever a datagram or an
  answer is processed, and the operations of the other modules do not touch the timers
  of the client.
\<close>

definition timer_room :: "sntp \<Rightarrow> bool" where
  "timer_room s \<longleftrightarrow> length (next_timeout (sntp_timers s)) < MEMP_NUM_SYS_TIMEOUT"

inductive sntp_step :: "sntp \<Rightarrow> sntp \<Rightarrow> bool" where
  recv: "timer_room s \<Longrightarrow> sntp_step s (sntp_recv now p s)"
| answer: "timer_room s \<Longrightarrow> sntp_queries s = Suc n \<Longrightarrow> sntp_step s (sntp_dns_found now mem resolved (s\<lparr>sntp_queries := n\<rparr>))"
| expire: "next_timeout (sntp_timers s) = t # ts \<Longrightarrow> length ts < MEMP_NUM_SYS_TIMEOUT \<Longrightarrow>
    sntp_step s (run_timer now mem err (t_h t) (s\<lparr>sntp_timers := expire_first (sntp_timers s)\<rparr>))"
| other_start: "sntp_step s (s\<lparr>sntp_timers := sys_timeout now ms (Fn_other k) a (sntp_timers s)\<rparr>)"
| other_cancel: "sntp_step s (s\<lparr>sntp_timers := sys_untimeout (Fn_other k) a (sntp_timers s)\<rparr>)"
| again: "sntp_step s (sntp_init now udp_ok mem err s)"

inductive sntp_reachable :: "sntp \<Rightarrow> sntp \<Rightarrow> bool" for s0 where
  start: "sntp_reachable s0 s0"
| step: "sntp_reachable s0 s \<Longrightarrow> sntp_step s s' \<Longrightarrow> sntp_reachable s0 s'"

inductive_cases sntp_stepE: "sntp_step s s'"

text \<open>The client is alive: one of its own timers is pending or a query will be answered.\<close>

definition own :: "sntp \<Rightarrow> (timer_fn \<times> addr) multiset" where
  "own s = filter_mset (\<lambda>(f, a). f \<in> {Fn_sntp_request, Fn_sntp_retry}) (pending (sntp_timers s))"

definition alive :: "sntp \<Rightarrow> bool" where
  "alive s \<longleftrightarrow> own s \<noteq> {#} \<or> sntp_queries s > 0"

definition sntp_inv :: "sntp \<Rightarrow> bool" where
  "sntp_inv s \<longleftrightarrow> sntp_pcb s \<and> alive s \<and> sntp_retry_timeout s \<in> {3000, 6000, 12000, 24000}"

lemma set_timer_own: "timer_room s \<Longrightarrow> f \<in> {Fn_sntp_request, Fn_sntp_retry} \<Longrightarrow> own (set_timer now ms f s) = add_mset (f, 0) (own s)"
  by (auto simp: own_def set_timer_def timer_room_def lwip.start_waiting)

lemma set_timer_fields [simp]:
  "sntp_pcb (set_timer now ms f s) = sntp_pcb s" "sntp_retry_timeout (set_timer now ms f s) = sntp_retry_timeout s"
  "sntp_queries (set_timer now ms f s) = sntp_queries s" "mbedtls_now (set_timer now ms f s) = mbedtls_now s"
  "sntp_clock (set_timer now ms f s) = sntp_clock s" "sntp_sent (set_timer now ms f s) = sntp_sent s"
  by (simp_all add: set_timer_def)

lemma stop_timer_fields [simp]:
  "sntp_pcb (stop_timer f s) = sntp_pcb s" "sntp_retry_timeout (stop_timer f s) = sntp_retry_timeout s"
  "sntp_queries (stop_timer f s) = sntp_queries s" "mbedtls_now (stop_timer f s) = mbedtls_now s"
  "sntp_clock (stop_timer f s) = sntp_clock s" "sntp_sent (stop_timer f s) = sntp_sent s"
  by (simp_all add: stop_timer_def)

lemma stop_timer_room: "timer_room s \<Longrightarrow> timer_room (stop_timer f s)"
  by (simp add: timer_room_def stop_timer_def lwip.cancel_room)

lemma retry_range:
  assumes "r \<in> {3000, 6000, 12000, 24000 :: u32}"
  shows "(if push_bit 1 r \<le> SNTP_RETRY_TIMEOUT_MAX \<and> push_bit 1 r > r then push_bit 1 r else r) =
     (if r = 24000 then 24000 else 2 * r)" "(if r = 24000 then 24000 else 2 * r) \<in> {3000, 6000, 12000, 24000}"
  using assms by (auto simp: sntp_config)

lemma sntp_retry_effect:
  assumes "timer_room s" and "sntp_retry_timeout s \<in> {3000, 6000, 12000, 24000}"
  shows "own (sntp_retry now s) = add_mset (Fn_sntp_request, 0) (own s)" "sntp_pcb (sntp_retry now s) = sntp_pcb s"
    "sntp_retry_timeout (sntp_retry now s) = (if sntp_retry_timeout s = 24000 then 24000 else 2 * sntp_retry_timeout s)"
    "sntp_clock (sntp_retry now s) = sntp_clock s" "mbedtls_now (sntp_retry now s) = mbedtls_now s"
proof -
  let ?t = "set_timer now (sntp_retry_timeout s) Fn_sntp_request s"
  have "own (?t\<lparr>sntp_retry_timeout := x\<rparr>) = own ?t" for x by (simp add: own_def)
  then show "own (sntp_retry now s) = add_mset (Fn_sntp_request, 0) (own s)"
    using set_timer_own [OF assms(1), of Fn_sntp_request] by (simp add: sntp_retry_def Let_def)
  show "sntp_retry_timeout (sntp_retry now s) = (if sntp_retry_timeout s = 24000 then 24000 else 2 * sntp_retry_timeout s)"
    unfolding sntp_retry_def Let_def using retry_range(1) [OF assms(2)] by (simp split: if_splits)
qed (simp_all add: sntp_retry_def Let_def)

lemma send_request_inv:
  assumes "timer_room s" and "sntp_pcb s" and "sntp_retry_timeout s \<in> {3000, 6000, 12000, 24000}"
  shows "sntp_inv (sntp_send_request now mem s)" "sntp_inv (sntp_retry now s)" "sntp_inv (sntp_request now mem err s)"
proof -
  have r: "timer_room (s\<lparr>sntp_sent := x\<rparr>)" for x using assms(1) by (simp add: timer_room_def)
  show a: "sntp_inv (sntp_send_request now mem s)"
    using assms set_timer_own [OF r, of Fn_sntp_retry] set_timer_own [OF assms(1), of Fn_sntp_request]
    by (simp add: sntp_send_request_def sntp_inv_def alive_def)
  show "sntp_inv (sntp_retry now s)"
    using sntp_retry_effect [OF assms(1,3), of now] retry_range(2) [OF assms(3)] assms(2) by (simp add: sntp_inv_def alive_def)
  show "sntp_inv (sntp_request now mem err s)"
    using a assms set_timer_own [OF assms(1), of Fn_sntp_retry] by (simp add: sntp_request_def) (simp add: sntp_inv_def alive_def)
qed

lemma process_fields [simp]:
  "sntp_pcb (sntp_process ts s) = sntp_pcb s" "sntp_retry_timeout (sntp_process ts s) = sntp_retry_timeout s"
  "sntp_queries (sntp_process ts s) = sntp_queries s" "sntp_timers (sntp_process ts s) = sntp_timers s"
  by (simp_all add: sntp_process_def SNTP_SET_SYSTEM_TIME_RTC_def Let_def)

lemma recv_room:
  "timer_room s \<Longrightarrow> timer_room (stop_timer Fn_sntp_request (stop_timer Fn_sntp_retry s))"
  "timer_room s \<Longrightarrow> timer_room (sntp_process ts ((stop_timer Fn_sntp_request (stop_timer Fn_sntp_retry s))\<lparr>sntp_retry_timeout := r\<rparr>))"
  using stop_timer_room [of s Fn_sntp_retry] stop_timer_room [of "stop_timer Fn_sntp_retry s" Fn_sntp_request]
  by (simp_all add: timer_room_def)

lemma recv_inv:
  assumes "sntp_inv s" and "timer_room s"
  shows "sntp_inv (sntp_recv now p s)"
proof (cases "sntp_examine p")
  case (Resp_OK ts)
  then show ?thesis
    using assms(1) set_timer_own [OF recv_room(2) [OF assms(2)], of Fn_sntp_request]
    by (simp add: sntp_recv_def Let_def sntp_inv_def alive_def sntp_config)
qed (use assms send_request_inv(2) [OF recv_room(1) [OF assms(2)]] in \<open>simp_all add: sntp_recv_def Let_def sntp_inv_def\<close>)

lemma own_frame:
  "own (s\<lparr>sntp_queries := n\<rparr>) = own s" "own (s\<lparr>sntp_timers := sys_untimeout (Fn_other k) a (sntp_timers s)\<rparr>) = own s"
  "own (s\<lparr>sntp_timers := sys_timeout now ms (Fn_other k) a (sntp_timers s)\<rparr>) = own s"
proof -
  show "own (s\<lparr>sntp_timers := sys_timeout now ms (Fn_other k) a (sntp_timers s)\<rparr>) = own s"
    by (cases "length (next_timeout (sntp_timers s)) < MEMP_NUM_SYS_TIMEOUT")
      (simp_all add: own_def lwip.start_waiting lwip.start_full)
qed (simp_all add: own_def lwip.cancel_waiting)

lemma expire_inv:
  assumes "sntp_inv s" and "next_timeout (sntp_timers s) = t # ts" and "length ts < MEMP_NUM_SYS_TIMEOUT"
  shows "sntp_inv (run_timer now mem err (t_h t) (s\<lparr>sntp_timers := expire_first (sntp_timers s)\<rparr>))"
proof -
  let ?s = "s\<lparr>sntp_timers := expire_first (sntp_timers s)\<rparr>"
  have r: "timer_room ?s" "sntp_pcb ?s" "sntp_retry_timeout ?s \<in> {3000, 6000, 12000, 24000}"
    using assms by (simp_all add: timer_room_def expire_first_def sntp_inv_def)
  have "pending (sntp_timers s) = add_mset (timer_id t) (pending (sntp_timers ?s))"
    by (simp add: pending_def expire_first_def assms(2))
  then have "own ?s = own s" if "t_h t = Fn_other n" for n using that by (simp add: own_def timer_id_def)
  then show ?thesis
    using send_request_inv [OF r] assms(1) by (cases "t_h t") (simp_all add: run_timer_def sntp_inv_def alive_def)
qed

lemma sntp_inv_step: "sntp_step s s' \<Longrightarrow> sntp_inv s \<Longrightarrow> sntp_inv s'"
proof (induction rule: sntp_step.induct)
  case (answer s n now mem resolved)
  have "timer_room (s\<lparr>sntp_queries := n\<rparr>)" using answer(1) by (simp add: timer_room_def)
  from send_request_inv [OF this] answer show ?case by (simp add: sntp_dns_found_def sntp_inv_def)
next
  case (expire s t ts now mem err)
  then show ?case using expire_inv by blast
next
  case (recv s now p)
  then show ?case using recv_inv by blast
qed (simp_all add: sntp_inv_def alive_def own_frame sntp_init_def)

lemma sntp_inv_reachable: "sntp_reachable s0 s \<Longrightarrow> sntp_inv s0 \<Longrightarrow> sntp_inv s"
  by (induction rule: sntp_reachable.induct) (auto intro: sntp_inv_step)

section \<open>Properties\<close>

text \<open>
  C23. The client never gets stuck. Once started, and in whatever order datagrams, valid or
  not, answers of the DNS client and expired timers come in, it always has a timer of
  its own pending or waits for an answer of the DNS client, so that it will send another
  request; the delay before a retry is 3, 6, 12 or 24 seconds.
\<close>

theorem sntp_never_stuck:
  assumes "\<not> sntp_pcb s0" and "timer_room s0" and "sntp_reachable (sntp_init now True mem err s0) s"
  shows "sntp_pcb s \<and> ((\<exists>f\<in>{Fn_sntp_request, Fn_sntp_retry}. \<exists>a. (f, a) \<in># pending (sntp_timers s)) \<or> sntp_queries s > 0) \<and>
     sntp_retry_timeout s \<in> {3000, 6000, 12000, 24000}"
proof -
  have "timer_room (s0\<lparr>sntp_retry_timeout := SNTP_RETRY_TIMEOUT, sntp_pcb := True\<rparr>)" using assms(2) by (simp add: timer_room_def)
  from send_request_inv(3) [OF this] have "sntp_inv (sntp_init now True mem err s0)"
    using assms(1) by (simp add: sntp_init_def Let_def sntp_config)
  then have "sntp_inv s" using sntp_inv_reachable [OF assms(3)] by simp
  moreover have "\<exists>f\<in>{Fn_sntp_request, Fn_sntp_retry}. \<exists>a. (f, a) \<in># pending (sntp_timers s)" if "own s \<noteq> {#}"
    using that by (elim multiset_nonemptyE) (auto simp: own_def)
  ultimately show ?thesis by (auto simp: sntp_inv_def alive_def)
qed

definition example_sntp :: sntp where
  "example_sntp = \<lparr>sntp_pcb = False, sntp_retry_timeout = 0, mbedtls_now = 1515514078,
     sntp_clock = \<lparr>Hora = \<lparr>RTC_Second = 0, RTC_Minute = 0, RTC_Hour = 0\<rparr>, Data = \<lparr>RTC_Day = 0, RTC_Month = 0, RTC_Year = 0\<rparr>,
       OSRtc = \<lparr>Year = 2011, Month = 3, Day = 28, Hour = 9, Min = 0, Sec = 30\<rparr>, LeapMonth = 0\<rparr>,
     sntp_timers = \<lparr>next_timeout = [], timeouts_last_time = 0\<rparr>, sntp_queries = 0, sntp_sent = []\<rparr>"

lemma example_sntp_room: "timer_room example_sntp"
  by (simp add: timer_room_def example_sntp_def MEMP_NUM_SYS_TIMEOUT_def)

theorem sntp_never_stuck_witness:
  "sntp_pcb (sntp_recv 5 [] (sntp_init 0 True True ERR_OK example_sntp))"
proof -
  let ?s = "sntp_init 0 True True ERR_OK example_sntp"
  have "timer_room ?s"
    by (simp add: timer_room_def example_sntp_def sntp_init_def sntp_request_def sntp_send_request_def set_timer_def sys_timeout_def
        MEMP_NUM_SYS_TIMEOUT_def)
  then have "sntp_reachable ?s (sntp_recv 5 [] ?s)" by (meson sntp_reachable.intros sntp_step.recv)
  then show ?thesis using sntp_never_stuck [OF _ example_sntp_room, of 0 True ERR_OK] by (simp add: example_sntp_def)
qed

text \<open>
  C24. A valid response sets the time. After a datagram of 48 bytes from a server or a
  broadcast, not a kiss-of-death, whose receive time stamp is the one of the Unix time
  \<open>u\<close>, the calendar holds the valid date and time of day of \<open>u\<close> three hours behind UTC, the
  time given to the TLS library is \<open>u\<close>, and the next request is scheduled. This is so for every \<open>u\<close> below
  \<open>2 ^ 31\<close>, that is up to January 2038 and so for any width of \<open>time_t\<close>; the stamp is the number of
  seconds since 1900 modulo \<open>2 ^ 32\<close>. Stamps with the most significant bit set are those before
  February 2036: they are read as counted from 1900, and it is the ones without that bit that are counted
  from 2036, other than the comments at \<open>sntp_process\<close> and at the packet format say.
\<close>

theorem sntp_sets_local_time:
  assumes "timer_room s" and "length p = 48" and "p ! 0 AND 7 \<in> {4, 5}" and "p ! 1 \<noteq> 0"
    and "be32 (take 4 (drop 32 p)) = of_nat (u + 2208988800)" and "u < 2 ^ 31" and "s' = sntp_recv now p s"
  shows "rtc_valid (GetCalendar (sntp_clock s')) \<and>
    rtc_seconds (GetCalendar (sntp_clock s')) + 10800 = days_before_year 1970 * 86400 + u \<and>
    time_c_library s' = of_nat u \<and> sntp_retry_timeout s' = 3000 \<and> (Fn_sntp_request, 0) \<in># pending (sntp_timers s')"
proof -
  let ?ts = "take 4 (drop 32 p)" and ?s = "(stop_timer Fn_sntp_request (stop_timer Fn_sntp_retry s))\<lparr>sntp_retry_timeout := 3000\<rparr>"
  have "sntp_examine p = Resp_OK ?ts" using assms(2-4) by (auto simp: sntp_examine_def Let_def sntp_config)
  then have s': "s' = set_timer now SNTP_UPDATE_DELAY Fn_sntp_request (sntp_process ?ts ?s)"
    using assms(7) by (simp add: sntp_recv_def Let_def sntp_config)
  have t: "be32 ?ts - DIFF_SEC_1900_1970 = of_nat u" using assms(5) by (simp add: sntp_config)
  have u: "unat (of_nat u :: u32) = u" using assms(6) by (simp add: unat_of_nat)
  have "(Fn_sntp_request, 0) \<in># pending (sntp_timers s')"
    using lwip.start_waiting [of "sntp_timers (sntp_process ?ts ?s)"] recv_room(2) [OF assms(1), of ?ts 3000]
    by (simp add: s' set_timer_def timer_room_def)
  then show ?thesis
    using local_calendar [of "of_nat u" ?s] u s' t
    by (simp add: GetCalendar_def sntp_process_def time_c_library_def) (simp add: SNTP_SET_SYSTEM_TIME_RTC_def Let_def)
qed

definition example_response :: "u8 list" where
  "example_response = [0x24, 1] @ replicate 30 0 @ [0xE0, 0, 0, 0] @ replicate 12 0"

theorem sntp_sets_local_time_witness:
  "rtc_seconds (GetCalendar (sntp_clock (sntp_recv 0 example_response example_sntp))) + 10800 = days_before_year 1970 * 86400 + 1549107584"
proof -
  have "length example_response = 48" "example_response ! 0 AND 7 \<in> {4, 5}" "example_response ! 1 \<noteq> 0"
    "be32 (take 4 (drop 32 example_response)) = of_nat (1549107584 + 2208988800)"
    by (simp_all add: example_response_def be32_def rdb_def)
  from sntp_sets_local_time [OF example_sntp_room this _ refl, of 0] show ?thesis by simp
qed

text \<open>
  C33. An invalid response changes nothing but the timers: a datagram of another length, of
  another mode or a kiss-of-death leaves the calendar and the time of the TLS library as
  they are, schedules another request, and doubles the delay before the next retry up
  to the limit.
\<close>

theorem sntp_rejects_invalid:
  assumes "timer_room s" and "sntp_retry_timeout s \<in> {3000, 6000, 12000, 24000}"
    and "length p \<noteq> 48 \<or> p ! 0 AND 7 \<notin> {4, 5} \<or> p ! 1 = 0" and "s' = sntp_recv now p s"
  shows "sntp_clock s' = sntp_clock s \<and> time_c_library s' = time_c_library s \<and>
    sntp_retry_timeout s' = (if sntp_retry_timeout s = 24000 then 24000 else 2 * sntp_retry_timeout s) \<and>
    (Fn_sntp_request, 0) \<in># pending (sntp_timers s')"
proof -
  let ?s = "stop_timer Fn_sntp_request (stop_timer Fn_sntp_retry s)"
  have "sntp_examine p = SNTP_ERR_KOD \<or> sntp_examine p = Resp_ERR_ARG"
    using assms(3) by (auto simp: sntp_examine_def Let_def sntp_config)
  then have s': "s' = sntp_retry now ?s" using assms(4) by (auto simp: sntp_recv_def Let_def)
  have "own s' = add_mset (Fn_sntp_request, 0) (own ?s)"
    using sntp_retry_effect(1) [OF recv_room(1) [OF assms(1)]] assms(2) s' by simp
  then have "(Fn_sntp_request, 0) \<in># own s'" by simp
  then show ?thesis
    using sntp_retry_effect(3-5) [OF recv_room(1) [OF assms(1)]] assms(2) s' by (auto simp: own_def time_c_library_def)
qed

theorem sntp_rejects_invalid_witness:
  "sntp_clock (sntp_recv 9 [1, 2, 3] (example_sntp\<lparr>sntp_retry_timeout := 3000\<rparr>)) = sntp_clock example_sntp"
  using sntp_rejects_invalid [of "example_sntp\<lparr>sntp_retry_timeout := 3000\<rparr>" "[1, 2, 3]" _ 9] example_sntp_room
  by (simp add: timer_room_def)

text \<open>
  \<open>sntp_stop\<close> does not cancel the timer for the receive timeout: after a request was sent and the
  client was stopped, the timer expires and leads to a request without a control block.
\<close>

lemma sntp_stop_leaves_timer:
  "let s1 = sntp_init 0 True True ERR_OK example_sntp; s2 = sntp_stop s1;
       s3 = sntp_retry 3000 (s2\<lparr>sntp_timers := expire_first (sntp_timers s2)\<rparr>);
       s4 = sntp_request 6000 True ERR_OK (s3\<lparr>sntp_timers := expire_first (sntp_timers s3)\<rparr>) in
   pending (sntp_timers s2) = {#(Fn_sntp_retry, 0)#} \<and> \<not> sntp_pcb s2 \<and> map fst (sntp_sent s4) = [False, True]"
  by (simp add: Let_def example_sntp_def sntp_init_def sntp_request_def sntp_send_request_def sntp_retry_def set_timer_def
      stop_timer_def sys_timeout_def sys_untimeout_def sntp_stop_def expire_first_def pending_def timer_id_def MEMP_NUM_SYS_TIMEOUT_def)

end
