(* ===== verification/Jsmn.thy ===== *)
theory Jsmn
  imports Prelude "HOL-Library.Monad_Syntax"
begin

text \<open>
  The JSON tokeniser (\<open>AWS/lib/third_party/jsmn/jsmn.c\<close>, with \<open>JSMN_PARENT_LINKS\<close> and without
  \<open>JSMN_STRICT\<close>) on a document given as a list of bytes and its length. It is modelled for an
  array of tokens, as the firmware calls it; the mode that only counts tokens is left out.
  Every access to the document and to the array of tokens is checked against its bounds: an access outside of
  them has the result \<open>None\<close>, as has a loop that does not end. Every token of a successful parse is shown to be a well-formed piece of the document.
\<close>

section \<open>Checked accesses\<close>

text \<open>An element of an array; an index outside of it is an error.\<close>

definition fetch :: "'a list \<Rightarrow> nat \<Rightarrow> 'a option" where
  "fetch xs i = (if i < length xs then Some (xs ! i) else None)"

text \<open>The same for a signed index.\<close>

definition fetch_int :: "'a list \<Rightarrow> int \<Rightarrow> 'a option" where
  "fetch_int xs i = (if 0 \<le> i then fetch xs (nat i) else None)"

lemma fetch_Some [simp]: "fetch xs i = Some x \<longleftrightarrow> i < length xs \<and> x = xs ! i"
  by (auto simp: fetch_def)

lemma fetch_in: "i < length xs \<Longrightarrow> fetch xs i = Some (xs ! i)"
  by simp

section \<open>Data\<close>

datatype jsmntype_t = JSMN_UNDEFINED | JSMN_OBJECT | JSMN_ARRAY | JSMN_STRING | JSMN_PRIMITIVE

datatype jsmnerr = JSMN_ERROR_NOMEM | JSMN_ERROR_INVAL | JSMN_ERROR_PART

record jsmntok_t =
  jt_type :: jsmntype_t
  jt_start :: int
  jt_end :: int
  jt_size :: int
  jt_parent :: int

text \<open>The parser together with the array of tokens it fills.\<close>

record jsmn_parser =
  jp_pos :: nat
  jp_toknext :: nat
  jp_toksuper :: int
  jp_tokens :: "jsmntok_t list"

definition jsmn_init :: "jsmntok_t list \<Rightarrow> jsmn_parser" where
  "jsmn_init ts = \<lparr>jp_pos = 0, jp_toknext = 0, jp_toksuper = -1, jp_tokens = ts\<rparr>"

text \<open>Characters of the grammar.\<close>

abbreviation chQuote :: u8 where "chQuote \<equiv> 34"
abbreviation chComma :: u8 where "chComma \<equiv> 44"
abbreviation chColon :: u8 where "chColon \<equiv> 58"
abbreviation chLBracket :: u8 where "chLBracket \<equiv> 91"
abbreviation chBackslash :: u8 where "chBackslash \<equiv> 92"
abbreviation chRBracket :: u8 where "chRBracket \<equiv> 93"
abbreviation chLBrace :: u8 where "chLBrace \<equiv> 123"
abbreviation chRBrace :: u8 where "chRBrace \<equiv> 125"

definition is_blank :: "u8 \<Rightarrow> bool" where
  "is_blank c \<longleftrightarrow> c \<in> {9, 13, 10, 32}"

section \<open>Tokens\<close>

definition put_tok :: "nat \<Rightarrow> (jsmntok_t \<Rightarrow> jsmntok_t) \<Rightarrow> jsmn_parser \<Rightarrow> jsmn_parser" where
  "put_tok i f s = s\<lparr>jp_tokens := (jp_tokens s)[i := f (jp_tokens s ! i)]\<rparr>"

definition upd_tok :: "nat \<Rightarrow> (jsmntok_t \<Rightarrow> jsmntok_t) \<Rightarrow> jsmn_parser \<Rightarrow> jsmn_parser option" where
  "upd_tok i f s = (if i < length (jp_tokens s) then Some (put_tok i f s) else None)"

text \<open>The index of the token, or \<open>None\<close> for the null pointer.\<close>

definition jsmn_alloc_token :: "jsmn_parser \<Rightarrow> nat \<Rightarrow> (nat option \<times> jsmn_parser) option" where
  "jsmn_alloc_token s num_tokens =
     (if jp_toknext s \<ge> num_tokens then Some (None, s)
      else do {
        let i = jp_toknext s;
        let s = s\<lparr>jp_toknext := jp_toknext s + 1\<rparr>;
        s \<leftarrow> upd_tok i (\<lambda>t. t\<lparr>jt_start := -1, jt_end := -1, jt_size := 0, jt_parent := -1\<rparr>) s;
        Some (Some i, s) })"

definition jsmn_fill_token :: "nat \<Rightarrow> jsmntype_t \<Rightarrow> int \<Rightarrow> int \<Rightarrow> jsmn_parser \<Rightarrow> jsmn_parser option" where
  "jsmn_fill_token i ty a b s = upd_tok i (\<lambda>t. t\<lparr>jt_type := ty, jt_start := a, jt_end := b, jt_size := 0\<rparr>) s"

section \<open>Primitives\<close>

definition primitive_end :: "u8 \<Rightarrow> bool" where
  "primitive_end c \<longleftrightarrow> c = chColon \<or> is_blank c \<or> c = chComma \<or> c = chRBracket \<or> c = chRBrace"

text \<open>The position after the primitive; the inner \<open>None\<close> is for a character that is not allowed.\<close>

function primitive_loop :: "u8 list \<Rightarrow> nat \<Rightarrow> nat \<Rightarrow> nat option option" where
  "primitive_loop js len p =
     (if p < len then do {
        c \<leftarrow> fetch js p;
        if c = 0 then Some (Some p)
        else if primitive_end c then Some (Some p)
        else if c < 32 \<or> c \<ge> 127 then Some None
        else primitive_loop js len (p + 1) }
      else Some (Some p))"
  by pat_completeness auto
termination by (relation "measure (\<lambda>(_, len, p). len - p)") auto

declare primitive_loop.simps [simp del]

definition jsmn_parse_primitive :: "u8 list \<Rightarrow> nat \<Rightarrow> nat \<Rightarrow> jsmn_parser \<Rightarrow> (jsmnerr option \<times> jsmn_parser) option" where
  "jsmn_parse_primitive js len num_tokens s =
     (let start = jp_pos s in do {
        r \<leftarrow> primitive_loop js len start;
        (case r of
           None \<Rightarrow> Some (Some JSMN_ERROR_INVAL, s\<lparr>jp_pos := start\<rparr>)
         | Some p \<Rightarrow> do {
             (a, s) \<leftarrow> jsmn_alloc_token (s\<lparr>jp_pos := p\<rparr>) num_tokens;
             (case a of
                None \<Rightarrow> Some (Some JSMN_ERROR_NOMEM, s\<lparr>jp_pos := start\<rparr>)
              | Some i \<Rightarrow> do {
                  s \<leftarrow> jsmn_fill_token i JSMN_PRIMITIVE (int start) (int p) s;
                  s \<leftarrow> upd_tok i (\<lambda>t. t\<lparr>jt_parent := jp_toksuper s\<rparr>) s;
                  Some (None, s\<lparr>jp_pos := jp_pos s - 1\<rparr>) }) }) })"

section \<open>Strings\<close>

definition is_hex :: "u8 \<Rightarrow> bool" where
  "is_hex c \<longleftrightarrow> c \<ge> 48 \<and> c \<le> 57 \<or> c \<ge> 65 \<and> c \<le> 70 \<or> c \<ge> 97 \<and> c \<le> 102"

text \<open>The characters that may follow a backslash, apart from \<open>u\<close>.\<close>

definition is_escape :: "u8 \<Rightarrow> bool" where
  "is_escape c \<longleftrightarrow> c \<in> {34, 47, 92, 98, 102, 114, 110, 116}"

function hex_loop :: "u8 list \<Rightarrow> nat \<Rightarrow> nat \<Rightarrow> nat \<Rightarrow> nat option option" where
  "hex_loop js len i p =
     (if i < 4 \<and> p < len then do {
        c \<leftarrow> fetch js p;
        if c = 0 then Some (Some p)
        else if is_hex c then hex_loop js len (i + 1) (p + 1)
        else Some None }
      else Some (Some p))"
  by pat_completeness auto
termination by (relation "measure (\<lambda>(_, _, i, _). 4 - i)") auto

declare hex_loop.simps [simp del]

datatype string_result = StringEnd nat | StringInval | StringPart

lemma hex_loop_ge: "hex_loop js len i p = Some (Some q) \<Longrightarrow> p \<le> q"
proof (induction js len i p rule: hex_loop.induct)
  case (1 js len i p)
  then show ?case by (subst (asm) (2) hex_loop.simps) (auto simp: Option.bind_eq_Some_conv split: if_splits)
qed

text \<open>The loop from \<open>p\<close> on, which is behind the quote at the start.\<close>

function string_loop :: "u8 list \<Rightarrow> nat \<Rightarrow> nat \<Rightarrow> string_result option" where
  "string_loop js len p =
     (if p < len then do {
        c \<leftarrow> fetch js p;
        if c = 0 then Some StringPart
        else if c = chQuote then Some (StringEnd p)
        else if c = chBackslash \<and> p + 1 < len then do {
          e \<leftarrow> fetch js (p + 1);
          if is_escape e then string_loop js len (p + 2)
          else if e = 117 then do {
            r \<leftarrow> hex_loop js len 0 (p + 2);
            (case r of None \<Rightarrow> Some StringInval | Some q \<Rightarrow> string_loop js len q) }
          else Some StringInval }
        else string_loop js len (p + 1) }
      else Some StringPart)"
  by pat_completeness auto
termination
  by (relation "measure (\<lambda>(_, len, p). len - p)") (auto dest: hex_loop_ge)

declare string_loop.simps [simp del]

definition jsmn_parse_string :: "u8 list \<Rightarrow> nat \<Rightarrow> nat \<Rightarrow> jsmn_parser \<Rightarrow> (jsmnerr option \<times> jsmn_parser) option" where
  "jsmn_parse_string js len num_tokens s =
     (let start = jp_pos s in do {
        r \<leftarrow> string_loop js len (start + 1);
        (case r of
           StringInval \<Rightarrow> Some (Some JSMN_ERROR_INVAL, s\<lparr>jp_pos := start\<rparr>)
         | StringPart \<Rightarrow> Some (Some JSMN_ERROR_PART, s\<lparr>jp_pos := start\<rparr>)
         | StringEnd p \<Rightarrow> do {
             (a, s) \<leftarrow> jsmn_alloc_token (s\<lparr>jp_pos := p\<rparr>) num_tokens;
             (case a of
                None \<Rightarrow> Some (Some JSMN_ERROR_NOMEM, s\<lparr>jp_pos := start\<rparr>)
              | Some i \<Rightarrow> do {
                  s \<leftarrow> jsmn_fill_token i JSMN_STRING (int start + 1) (int p) s;
                  s \<leftarrow> upd_tok i (\<lambda>t. t\<lparr>jt_parent := jp_toksuper s\<rparr>) s;
                  Some (None, s) }) }) })"

section \<open>Brackets\<close>

text \<open>\<open>tokens[parser->toksuper].size++\<close>, if there is a superior token.\<close>

definition count_child :: "jsmn_parser \<Rightarrow> jsmn_parser option" where
  "count_child s =
     (if jp_toksuper s \<noteq> -1 then
        (if jp_toksuper s < 0 then None else upd_tok (nat (jp_toksuper s)) (\<lambda>t. t\<lparr>jt_size := jt_size t + 1\<rparr>) s)
      else Some s)"

definition open_bracket :: "jsmntype_t \<Rightarrow> nat \<Rightarrow> jsmn_parser \<Rightarrow> (jsmnerr option \<times> jsmn_parser) option" where
  "open_bracket ty num_tokens s = do {
     (a, s) \<leftarrow> jsmn_alloc_token s num_tokens;
     (case a of
        None \<Rightarrow> Some (Some JSMN_ERROR_NOMEM, s)
      | Some i \<Rightarrow> do {
          s \<leftarrow> (if jp_toksuper s \<noteq> -1 then do {
                  s \<leftarrow> count_child s;
                  upd_tok i (\<lambda>t. t\<lparr>jt_parent := jp_toksuper s\<rparr>) s }
                else Some s);
          s \<leftarrow> upd_tok i (\<lambda>t. t\<lparr>jt_type := ty, jt_start := int (jp_pos s)\<rparr>) s;
          Some (None, s\<lparr>jp_toksuper := int (jp_toknext s) - 1\<rparr>) }) }"

text \<open>
  The loop that looks for the token a closing bracket belongs to, along the parent links. It
  ends at an open token, at the outermost token without one, or with an error.
\<close>

datatype close_result = CloseToken nat | CloseNone | CloseInval

definition is_open :: "jsmntok_t \<Rightarrow> bool" where
  "is_open t \<longleftrightarrow> jt_start t \<noteq> -1 \<and> jt_end t = -1"

partial_function (option) close_loop :: "jsmntok_t list \<Rightarrow> int \<Rightarrow> jsmntype_t \<Rightarrow> int \<Rightarrow> close_result option" where
  "close_loop ts toksuper ty i = do {
     t \<leftarrow> fetch_int ts i;
     if is_open t then Some (if jt_type t \<noteq> ty then CloseInval else CloseToken (nat i))
     else if jt_parent t = -1 then
       Some (if jt_type t \<noteq> ty \<or> toksuper = -1 then CloseInval else CloseNone)
     else close_loop ts toksuper ty (jt_parent t) }"

declare close_loop.simps [code]

definition close_bracket :: "jsmntype_t \<Rightarrow> jsmn_parser \<Rightarrow> (jsmnerr option \<times> jsmn_parser) option" where
  "close_bracket ty s =
     (if jp_toknext s < 1 then Some (Some JSMN_ERROR_INVAL, s)
      else do {
        r \<leftarrow> close_loop (jp_tokens s) (jp_toksuper s) ty (int (jp_toknext s) - 1);
        (case r of
           CloseInval \<Rightarrow> Some (Some JSMN_ERROR_INVAL, s)
         | CloseNone \<Rightarrow> Some (None, s)
         | CloseToken i \<Rightarrow> do {
             s \<leftarrow> upd_tok i (\<lambda>t. t\<lparr>jt_end := int (jp_pos s) + 1\<rparr>) s;
             t \<leftarrow> fetch (jp_tokens s) i;
             Some (None, s\<lparr>jp_toksuper := jt_parent t\<rparr>) }) })"

section \<open>The parser\<close>

text \<open>
  The body of the loop: an error or the number of new tokens, with the new state. The
  position is moved on by the loop.
\<close>

definition report :: "nat \<Rightarrow> jsmnerr option \<Rightarrow> jsmnerr + nat" where
  "report n e = (case e of Some e \<Rightarrow> Inl e | None \<Rightarrow> Inr n)"

text \<open>A string or a primitive: one more token, and one more child.\<close>

definition scalar :: "(jsmnerr option \<times> jsmn_parser) option \<Rightarrow> ((jsmnerr + nat) \<times> jsmn_parser) option" where
  "scalar r = do {
     (e, s) \<leftarrow> r;
     if e = None then do { s \<leftarrow> count_child s; Some (Inr 1, s) } else Some (report 1 e, s) }"

definition jsmn_step :: "u8 list \<Rightarrow> nat \<Rightarrow> nat \<Rightarrow> jsmn_parser \<Rightarrow> ((jsmnerr + nat) \<times> jsmn_parser) option" where
  "jsmn_step js len num_tokens s = do {
     c \<leftarrow> fetch js (jp_pos s);
     if c = chLBrace \<or> c = chLBracket then do {
       (e, s) \<leftarrow> open_bracket (if c = chLBrace then JSMN_OBJECT else JSMN_ARRAY) num_tokens s;
       Some (report 1 e, s) }
     else if c = chRBrace \<or> c = chRBracket then do {
       (e, s) \<leftarrow> close_bracket (if c = chRBrace then JSMN_OBJECT else JSMN_ARRAY) s;
       Some (report 0 e, s) }
     else if c = chQuote then scalar (jsmn_parse_string js len num_tokens s)
     else if is_blank c then Some (Inr 0, s)
     else if c = chColon then Some (Inr 0, s\<lparr>jp_toksuper := int (jp_toknext s) - 1\<rparr>)
     else if c = chComma then
       (if jp_toksuper s \<noteq> -1 then do {
          t \<leftarrow> fetch_int (jp_tokens s) (jp_toksuper s);
          Some (Inr 0, if jt_type t \<noteq> JSMN_ARRAY \<and> jt_type t \<noteq> JSMN_OBJECT then s\<lparr>jp_toksuper := jt_parent t\<rparr> else s) }
        else Some (Inr 0, s))
     else scalar (jsmn_parse_primitive js len num_tokens s) }"

lemma primitive_loop_ge:
  "primitive_loop js len p = Some (Some q) \<Longrightarrow> p \<le> q \<and> (p < len \<and> js ! p \<noteq> 0 \<and> \<not> primitive_end (js ! p) \<longrightarrow> p < q)"
proof (induction js len p rule: primitive_loop.induct)
  case (1 js len p)
  show ?case
  proof (cases "p < len \<and> p < length js \<and> js ! p \<noteq> 0 \<and> \<not> primitive_end (js ! p) \<and> \<not> (js ! p < 32 \<or> js ! p \<ge> 127)")
    case True
    then have "primitive_loop js len (p + 1) = Some (Some q)" using "1.prems" by (simp add: primitive_loop.simps [of js len p] fetch_in)
    then show ?thesis using "1.IH" [of "js ! p"] True by auto
  qed (use "1.prems" in \<open>auto simp: primitive_loop.simps [of js len p] Option.bind_eq_Some_conv split: if_splits\<close>)
qed

lemma string_loop_ge: "string_loop js len p = Some (StringEnd q) \<Longrightarrow> p \<le> q"
proof (induction js len p rule: string_loop.induct)
  case (1 js len p)
  show ?case
    using "1.prems" "1.IH" hex_loop_ge [of js len 0 "p + 2"]
    by (subst (asm) (1) string_loop.simps) (fastforce simp: Option.bind_eq_Some_conv split: if_splits option.splits)
qed

lemma tok_pos [simp]: "jp_pos (put_tok i f s) = jp_pos s"
  by (simp add: put_tok_def)

lemma upd_pos: "upd_tok i f s = Some s' \<Longrightarrow> jp_pos s' = jp_pos s"
  by (auto simp: upd_tok_def split: if_splits)

lemma fill_pos: "jsmn_fill_token i ty a b s = Some s' \<Longrightarrow> jp_pos s' = jp_pos s"
  by (auto simp: jsmn_fill_token_def dest: upd_pos)

lemma count_pos: "count_child s = Some s' \<Longrightarrow> jp_pos s' = jp_pos s"
  by (auto simp: count_child_def dest: upd_pos split: if_splits)

lemma alloc_pos: "jsmn_alloc_token s n = Some (i, s') \<Longrightarrow> jp_pos s' = jp_pos s"
  by (auto simp: jsmn_alloc_token_def Let_def Option.bind_eq_Some_conv dest: upd_pos split: if_splits)

lemma close_bracket_pos:
  assumes "close_bracket ty s = Some (e, s')"
  shows "jp_pos s' = jp_pos s"
proof (cases "jp_toknext s < 1")
  case False
  then obtain r where r: "close_loop (jp_tokens s) (jp_toksuper s) ty (int (jp_toknext s) - 1) = Some r"
    using assms by (auto simp: close_bracket_def Option.bind_eq_Some_conv)
  then show ?thesis using assms False by (cases r) (auto simp: close_bracket_def Option.bind_eq_Some_conv dest!: upd_pos)
qed (use assms in \<open>simp add: close_bracket_def\<close>)

lemma open_bracket_pos: "open_bracket ty n s = Some (e, s') \<Longrightarrow> jp_pos s' = jp_pos s"
  by (auto simp: open_bracket_def Option.bind_eq_Some_conv dest!: upd_pos count_pos alloc_pos split: if_split_asm option.split_asm)

lemma parse_string_pos:
  assumes "jsmn_parse_string js len n s = Some (None, s')"
  shows "jp_pos s \<le> jp_pos s'"
proof -
  obtain r where r: "string_loop js len (jp_pos s + 1) = Some r"
    using assms by (auto simp: jsmn_parse_string_def Let_def Option.bind_eq_Some_conv)
  obtain p where p: "r = StringEnd p" using assms r by (cases r) (auto simp: jsmn_parse_string_def Let_def)
  have "jp_pos s + 1 \<le> p" using string_loop_ge r p by blast
  moreover obtain a s1 where a: "jsmn_alloc_token (s\<lparr>jp_pos := p\<rparr>) n = Some (a, s1)"
    using assms r unfolding p by (auto simp: jsmn_parse_string_def Let_def Option.bind_eq_Some_conv)
  ultimately show ?thesis
    using assms r alloc_pos [OF a] unfolding p jsmn_parse_string_def Let_def
    by (cases a) (auto simp: Option.bind_eq_Some_conv dest!: upd_pos fill_pos)
qed

lemma parse_primitive_pos:
  assumes "jsmn_parse_primitive js len n s = Some (None, s')" "jp_pos s < len" "js ! jp_pos s \<noteq> 0" "\<not> primitive_end (js ! jp_pos s)"
  shows "jp_pos s \<le> jp_pos s'"
proof -
  obtain r where r: "primitive_loop js len (jp_pos s) = Some r"
    using assms(1) by (auto simp: jsmn_parse_primitive_def Let_def Option.bind_eq_Some_conv)
  obtain p where p: "r = Some p" using assms(1) r by (cases r) (auto simp: jsmn_parse_primitive_def Let_def)
  have "jp_pos s < p" using primitive_loop_ge [of js len "jp_pos s" p] r p assms(2-4) by simp
  moreover obtain a s1 where a: "jsmn_alloc_token (s\<lparr>jp_pos := p\<rparr>) n = Some (a, s1)"
    using assms(1) r unfolding p by (auto simp: jsmn_parse_primitive_def Let_def Option.bind_eq_Some_conv)
  ultimately show ?thesis
    using assms(1) r alloc_pos [OF a] unfolding p jsmn_parse_primitive_def Let_def
    by (cases a) (auto simp: Option.bind_eq_Some_conv dest!: upd_pos fill_pos)
qed

lemma scalar_pos: "scalar r = Some (Inr k, s') \<Longrightarrow> \<exists>s. r = Some (None, s) \<and> jp_pos s' = jp_pos s"
  by (auto simp: scalar_def report_def Option.bind_eq_Some_conv dest!: count_pos split: if_splits option.splits)

lemma jsmn_step_pos:
  assumes "jsmn_step js len n s = Some (Inr k, s')" and "jp_pos s < len" and "js ! jp_pos s \<noteq> 0"
  shows "jp_pos s \<le> jp_pos s'"
  using assms
  by (auto simp: jsmn_step_def Option.bind_eq_Some_conv primitive_end_def
      dest!: scalar_pos parse_string_pos parse_primitive_pos close_bracket_pos open_bracket_pos split: if_splits)

function jsmn_loop :: "u8 list \<Rightarrow> nat \<Rightarrow> nat \<Rightarrow> nat \<Rightarrow> jsmn_parser \<Rightarrow> ((jsmnerr + nat) \<times> jsmn_parser) option" where
  "jsmn_loop js len num_tokens count s =
     (if jp_pos s < len then do {
        c \<leftarrow> fetch js (jp_pos s);
        if c = 0 then Some (Inr count, s)
        else
          (case jsmn_step js len num_tokens s of
             None \<Rightarrow> None
           | Some (Inl e, s) \<Rightarrow> Some (Inl e, s)
           | Some (Inr k, s) \<Rightarrow> jsmn_loop js len num_tokens (count + k) (s\<lparr>jp_pos := jp_pos s + 1\<rparr>)) }
      else Some (Inr count, s))"
  by pat_completeness auto
termination
  by (relation "measure (\<lambda>(_, len, _, _, s). len - jp_pos s)") (auto dest!: jsmn_step_pos)

declare jsmn_loop.simps [simp del]

text \<open>The last loop over the tokens, of which one that is still open makes the document an incomplete one.\<close>

primrec open_left :: "nat \<Rightarrow> jsmntok_t list \<Rightarrow> bool option" where
  "open_left 0 ts = Some False"
| "open_left (Suc i) ts = do { t \<leftarrow> fetch ts i; if is_open t then Some True else open_left i ts }"

definition jsmn_parse :: "jsmn_parser \<Rightarrow> u8 list \<Rightarrow> nat \<Rightarrow> nat \<Rightarrow> ((jsmnerr + nat) \<times> jsmn_parser) option" where
  "jsmn_parse s js len num_tokens =
     (case jsmn_loop js len num_tokens (jp_toknext s) s of
        None \<Rightarrow> None
      | Some (Inl e, s) \<Rightarrow> Some (Inl e, s)
      | Some (Inr count, s) \<Rightarrow> do {
          left \<leftarrow> open_left (jp_toknext s) (jp_tokens s);
          Some (if left then Inl JSMN_ERROR_PART else Inr count, s) })"

lemma open_left_eq: "n \<le> length ts \<Longrightarrow> open_left n ts = Some (list_ex is_open (take n ts))"
  by (induction n) (auto simp: take_Suc_conv_app_nth fetch_in)

section \<open>Well-formed tokens\<close>

text \<open>
  What the fields of a token say about the document: an object or array starts at its
  opening bracket and, once it is closed, ends after a closing bracket of its kind; a
  string lies between two quotes; a primitive is a longest non-empty piece without
  separators. \<open>p\<close> is the position up to which the document has been read.
\<close>

definition container_ok :: "u8 list \<Rightarrow> nat \<Rightarrow> nat \<Rightarrow> u8 \<Rightarrow> u8 \<Rightarrow> jsmntok_t \<Rightarrow> bool" where
  "container_ok js len p opening closing t \<longleftrightarrow>
     0 \<le> jt_start t \<and> nat (jt_start t) < len \<and> nat (jt_start t) < p \<and> js ! nat (jt_start t) = opening \<and>
     (jt_end t = -1 \<or> jt_start t < jt_end t \<and> nat (jt_end t) \<le> p \<and> nat (jt_end t) \<le> len \<and> js ! (nat (jt_end t) - 1) = closing)"

definition string_token_ok :: "u8 list \<Rightarrow> nat \<Rightarrow> jsmntok_t \<Rightarrow> bool" where
  "string_token_ok js len t \<longleftrightarrow> 1 \<le> jt_start t \<and> jt_start t \<le> jt_end t \<and> nat (jt_end t) < len \<and>
     js ! (nat (jt_start t) - 1) = chQuote \<and> js ! nat (jt_end t) = chQuote \<and>
     (\<forall>i\<in>{nat (jt_start t)..<nat (jt_end t)}. js ! i \<noteq> 0)"

definition primitive_token_ok :: "u8 list \<Rightarrow> nat \<Rightarrow> jsmntok_t \<Rightarrow> bool" where
  "primitive_token_ok js len t \<longleftrightarrow> 0 \<le> jt_start t \<and> jt_start t < jt_end t \<and> nat (jt_end t) \<le> len \<and>
     (\<forall>i\<in>{nat (jt_start t)..<nat (jt_end t)}. js ! i \<noteq> 0 \<and> \<not> primitive_end (js ! i)) \<and>
     (nat (jt_end t) < len \<longrightarrow> js ! nat (jt_end t) = 0 \<or> primitive_end (js ! nat (jt_end t)))"

definition token_ok :: "u8 list \<Rightarrow> nat \<Rightarrow> nat \<Rightarrow> jsmntok_t \<Rightarrow> bool" where
  "token_ok js len p t \<longleftrightarrow>
     (case jt_type t of
        JSMN_UNDEFINED \<Rightarrow> False
      | JSMN_OBJECT \<Rightarrow> container_ok js len p chLBrace chRBrace t
      | JSMN_ARRAY \<Rightarrow> container_ok js len p chLBracket chRBracket t
      | JSMN_STRING \<Rightarrow> string_token_ok js len t
      | JSMN_PRIMITIVE \<Rightarrow> primitive_token_ok js len t)"

text \<open>The place of a token in the array: its parent comes before it, its children after it.\<close>

definition link_ok :: "nat \<Rightarrow> nat \<Rightarrow> jsmntok_t \<Rightarrow> bool" where
  "link_ok k i t \<longleftrightarrow> -1 \<le> jt_parent t \<and> jt_parent t < int i \<and> 0 \<le> jt_size t \<and> (0 < jt_size t \<longrightarrow> Suc i < k)"

definition jsmn_inv :: "u8 list \<Rightarrow> nat \<Rightarrow> nat \<Rightarrow> nat \<Rightarrow> jsmn_parser \<Rightarrow> bool" where
  "jsmn_inv js len n p s \<longleftrightarrow> jp_toknext s \<le> n \<and> n \<le> length (jp_tokens s) \<and> -1 \<le> jp_toksuper s \<and> jp_toksuper s < int (jp_toknext s) \<and>
     (\<forall>i<jp_toknext s. token_ok js len p (jp_tokens s ! i) \<and> link_ok (jp_toknext s) i (jp_tokens s ! i))"

lemma token_ok_mono: "token_ok js len p t \<Longrightarrow> p \<le> q \<Longrightarrow> token_ok js len q t"
  by (auto simp: token_ok_def container_ok_def split: jsmntype_t.splits)

lemma token_ok_links [simp]:
  "token_ok js len p (t\<lparr>jt_size := n\<rparr>) = token_ok js len p t" "token_ok js len p (t\<lparr>jt_parent := n\<rparr>) = token_ok js len p t"
  by (simp_all add: token_ok_def container_ok_def string_token_ok_def primitive_token_ok_def split: jsmntype_t.split)

lemma link_ok_mono: "link_ok k i t \<Longrightarrow> k \<le> k' \<Longrightarrow> link_ok k' i t"
  by (auto simp: link_ok_def)

lemma inv_pos [simp]: "jsmn_inv js len n p (s\<lparr>jp_pos := q\<rparr>) = jsmn_inv js len n p s"
  by (simp add: jsmn_inv_def)

lemma inv_mono: "jsmn_inv js len n p s \<Longrightarrow> p \<le> q \<Longrightarrow> jsmn_inv js len n q s"
  by (auto simp: jsmn_inv_def intro: token_ok_mono)

lemma inv_toksuper: "jsmn_inv js len n p s \<Longrightarrow> -1 \<le> v \<Longrightarrow> v < int (jp_toknext s) \<Longrightarrow> jsmn_inv js len n p (s\<lparr>jp_toksuper := v\<rparr>)"
  by (auto simp: jsmn_inv_def)

section \<open>New tokens\<close>

definition push_token :: "jsmntok_t \<Rightarrow> jsmn_parser \<Rightarrow> jsmn_parser" where
  "push_token t s = s\<lparr>jp_toknext := Suc (jp_toknext s), jp_tokens := (jp_tokens s)[jp_toknext s := t]\<rparr>"

lemma push_fields [simp]:
  "jp_toknext (push_token t s) = Suc (jp_toknext s)" "jp_toksuper (push_token t s) = jp_toksuper s" "jp_pos (push_token t s) = jp_pos s"
  by (simp_all add: push_token_def)

text \<open>What \<open>count_child\<close> does where the superior token exists.\<close>

definition add_child :: "jsmn_parser \<Rightarrow> jsmn_parser" where
  "add_child s = (if jp_toksuper s \<noteq> -1 then put_tok (nat (jp_toksuper s)) (\<lambda>t. t\<lparr>jt_size := jt_size t + 1\<rparr>) s else s)"

lemma count_child_eq:
  "-1 \<le> jp_toksuper s \<Longrightarrow> jp_toksuper s < int (length (jp_tokens s)) \<Longrightarrow> count_child s = Some (add_child s)"
  by (auto simp: count_child_def add_child_def upd_tok_def)

lemma count_fields [simp]:
  "jp_toknext (add_child s) = jp_toknext s" "jp_toksuper (add_child s) = jp_toksuper s" "jp_pos (add_child s) = jp_pos s"
  "length (jp_tokens (add_child s)) = length (jp_tokens s)"
  by (simp_all add: add_child_def put_tok_def)

lemma inv_push:
  assumes "jsmn_inv js len n p s" and "jp_toknext s < n" and "token_ok js len q t" and "p \<le> q"
    and "jt_parent t = jp_toksuper s" and "jt_size t = 0"
  shows "jsmn_inv js len n q (add_child (push_token t s))"
proof -
  let ?k = "jp_toknext s" and ?s = "push_token t s"
  have s: "?k < length (jp_tokens s)" "-1 \<le> jp_toksuper s" "jp_toksuper s < int ?k" using assms(1,2) by (auto simp: jsmn_inv_def)
  have "link_ok (Suc ?k) ?k t" using assms(5,6) s by (simp add: link_ok_def)
  then have i: "jsmn_inv js len n q ?s"
    using assms s by (auto simp: jsmn_inv_def push_token_def nth_list_update less_Suc_eq intro: token_ok_mono link_ok_mono)
  show ?thesis
  proof (cases "jp_toksuper s = -1")
    case False
    then have "0 \<le> jp_toksuper s" using s(2) by linarith
    then obtain j where "jp_toksuper s = int j" by (rule nonneg_int_cases)
    moreover from this have "j < ?k" using s(3) by simp
    ultimately show ?thesis
      using i False by (auto simp: jsmn_inv_def add_child_def put_tok_def nth_list_update link_ok_def)
  qed (use i in \<open>simp add: add_child_def\<close>)
qed

lemma upd_pushed: "jp_toknext s < length (jp_tokens s) \<Longrightarrow> upd_tok (jp_toknext s) f (push_token t s) = Some (push_token (f t) s)"
  by (simp add: upd_tok_def put_tok_def push_token_def)

lemma push_pos: "push_token t (s\<lparr>jp_pos := p\<rparr>) = (push_token t s)\<lparr>jp_pos := p\<rparr>"
  "put_tok i f (s\<lparr>jp_pos := p\<rparr>) = (put_tok i f s)\<lparr>jp_pos := p\<rparr>"
  "upd_tok i f (s\<lparr>jp_pos := p\<rparr>) = map_option (jp_pos_update (\<lambda>_. p)) (upd_tok i f s)"
  by (simp_all add: push_token_def put_tok_def upd_tok_def)

lemma add_child_pos: "add_child (s\<lparr>jp_pos := q\<rparr>) = (add_child s)\<lparr>jp_pos := q\<rparr>"
  by (simp add: add_child_def put_tok_def)

lemma length_push [simp]: "length (jp_tokens (push_token t s)) = length (jp_tokens s)"
  by (simp add: push_token_def)

text \<open>Allocating a token and setting all its fields.\<close>

definition fresh :: "jsmn_parser \<Rightarrow> jsmntok_t" where
  "fresh s = (jp_tokens s ! jp_toknext s)\<lparr>jt_start := -1, jt_end := -1, jt_size := 0, jt_parent := -1\<rparr>"

lemma alloc_eq:
  "n \<le> length (jp_tokens s) \<Longrightarrow>
     jsmn_alloc_token s n = Some (if jp_toknext s < n then (Some (jp_toknext s), push_token (fresh s) s) else (None, s))"
  by (auto simp: jsmn_alloc_token_def Let_def upd_tok_def put_tok_def push_token_def fresh_def)

lemma fresh_pos [simp]: "fresh (s\<lparr>jp_pos := p\<rparr>) = fresh s"
  by (simp add: fresh_def)

lemma fresh_cases:
  obtains ty where "fresh s = \<lparr>jt_type = ty, jt_start = -1, jt_end = -1, jt_size = 0, jt_parent = -1\<rparr>"
  by (cases "jp_tokens s ! jp_toknext s") (simp add: fresh_def)

lemma parse_string_eq:
  assumes "n \<le> length (jp_tokens s)" and "string_loop js len (jp_pos s + 1) = Some r"
  shows "jsmn_parse_string js len n s = Some (case r of
      StringInval \<Rightarrow> (Some JSMN_ERROR_INVAL, s) | StringPart \<Rightarrow> (Some JSMN_ERROR_PART, s)
    | StringEnd p \<Rightarrow> if jp_toknext s < n
        then (None, (push_token \<lparr>jt_type = JSMN_STRING, jt_start = int (jp_pos s) + 1, jt_end = int p, jt_size = 0,
           jt_parent = jp_toksuper s\<rparr> s)\<lparr>jp_pos := p\<rparr>)
        else (Some JSMN_ERROR_NOMEM, s))"
proof (cases r)
  case (StringEnd p)
  have l: "n \<le> length (jp_tokens (s\<lparr>jp_pos := p\<rparr>))" using assms(1) by simp
  show ?thesis
  proof (cases "jp_toknext s < n")
    case True
    then have k: "jp_toknext s < length (jp_tokens s)" using assms(1) by simp
    show ?thesis
      unfolding jsmn_parse_string_def Let_def assms(2) StringEnd bind.simps string_result.case alloc_eq [OF l] jsmn_fill_token_def
      by (rule fresh_cases [of s]) (simp add: True push_pos upd_pushed [OF k])
  next
    case False
    then show ?thesis
      unfolding jsmn_parse_string_def Let_def assms(2) StringEnd bind.simps string_result.case alloc_eq [OF l] by simp
  qed
qed (simp_all add: jsmn_parse_string_def Let_def assms(2) [unfolded Suc_eq_plus1 [symmetric]])

lemma parse_primitive_eq:
  assumes "n \<le> length (jp_tokens s)" and "primitive_loop js len (jp_pos s) = Some r"
  shows "jsmn_parse_primitive js len n s = Some (case r of
      None \<Rightarrow> (Some JSMN_ERROR_INVAL, s)
    | Some p \<Rightarrow> if jp_toknext s < n
        then (None, (push_token \<lparr>jt_type = JSMN_PRIMITIVE, jt_start = int (jp_pos s), jt_end = int p, jt_size = 0,
           jt_parent = jp_toksuper s\<rparr> s)\<lparr>jp_pos := p - 1\<rparr>)
        else (Some JSMN_ERROR_NOMEM, s))"
proof (cases r)
  case (Some p)
  have l: "n \<le> length (jp_tokens (s\<lparr>jp_pos := p\<rparr>))" using assms(1) by simp
  show ?thesis
  proof (cases "jp_toknext s < n")
    case True
    then have k: "jp_toknext s < length (jp_tokens s)" using assms(1) by simp
    show ?thesis
      unfolding jsmn_parse_primitive_def Let_def assms(2) Some bind.simps option.case alloc_eq [OF l] jsmn_fill_token_def
      by (rule fresh_cases [of s]) (simp add: True push_pos upd_pushed [OF k])
  qed (simp add: jsmn_parse_primitive_def Let_def assms(2) Some alloc_eq [OF l])
qed (simp add: jsmn_parse_primitive_def Let_def assms(2))

lemma open_bracket_eq:
  assumes "n \<le> length (jp_tokens s)" and "-1 \<le> jp_toksuper s" and "jp_toksuper s < int (jp_toknext s)"
  shows "open_bracket ty n s = Some (if jp_toknext s < n
     then (None, (add_child (push_token \<lparr>jt_type = ty, jt_start = int (jp_pos s), jt_end = -1, jt_size = 0,
         jt_parent = jp_toksuper s\<rparr> s))\<lparr>jp_toksuper := int (jp_toknext s)\<rparr>)
     else (Some JSMN_ERROR_NOMEM, s))"
proof (cases "jp_toknext s < n")
  case True
  then have k: "jp_toknext s < length (jp_tokens s)" using assms(1) by simp
  show ?thesis
  proof (cases "jp_toksuper s = -1")
    case super: True
    show ?thesis
      by (rule fresh_cases [of s]) (simp add: True super open_bracket_def alloc_eq [OF assms(1)] upd_pushed [OF k] add_child_def)
  next
    case False
    then have ne: "nat (jp_toksuper s) \<noteq> jp_toknext s" using assms(2,3) by linarith
    have swap: "upd_tok (jp_toknext s) f (add_child (push_token t s)) = Some (add_child (push_token (f t) s))" for f t
      using ne k by (simp add: add_child_def upd_tok_def put_tok_def push_token_def list_update_swap [OF ne])
    have c: "count_child (push_token t s) = Some (add_child (push_token t s))" for t
      using assms(2,3) k by (intro count_child_eq) simp_all
    show ?thesis by (rule fresh_cases [of s]) (simp add: True False open_bracket_def alloc_eq [OF assms(1)] swap c)
  qed
qed (simp add: open_bracket_def alloc_eq [OF assms(1)])

subsection \<open>The tokens are well-formed\<close>

lemma hex_loop_token: "hex_loop js len i p = Some (Some q) \<Longrightarrow> p \<le> q \<and> (\<forall>i\<in>{p..<q}. js ! i \<noteq> 0)"
proof (induction js len i p rule: hex_loop.induct)
  case (1 js len i p)
  show ?case
  proof (cases "i < 4 \<and> p < len \<and> p < length js \<and> js ! p \<noteq> 0 \<and> is_hex (js ! p)")
    case True
    then have "p + 1 \<le> q \<and> (\<forall>i\<in>{p + 1..<q}. js ! i \<noteq> 0)"
      using 1 by (simp add: hex_loop.simps [of js len i p] fetch_in)
    moreover from this have "{p..<q} = insert p {p + 1..<q}" by auto
    ultimately show ?thesis using True by auto
  qed (use "1.prems" in \<open>auto simp: hex_loop.simps [of js len i p] Option.bind_eq_Some_conv split: if_splits\<close>)
qed

text \<open>What one turn of the loop over a string does; first the part behind a backslash.\<close>

definition string_escape :: "u8 list \<Rightarrow> nat \<Rightarrow> nat \<Rightarrow> string_result option" where
  "string_escape js len p = do {
     e \<leftarrow> fetch js p;
     if is_escape e then string_loop js len (p + 1)
     else if e = 117 then do {
       r \<leftarrow> hex_loop js len 0 (p + 1);
       (case r of None \<Rightarrow> Some StringInval | Some q \<Rightarrow> string_loop js len q) }
     else Some StringInval }"

lemma string_escape_cases:
  assumes "string_escape js len p = Some (StringEnd q)"
  shows "is_escape (js ! p) \<and> string_loop js len (p + 1) = Some (StringEnd q) \<or>
    (\<exists>r. js ! p = 117 \<and> hex_loop js len 0 (p + 1) = Some (Some r) \<and> string_loop js len r = Some (StringEnd q))"
  using assms by (auto simp: string_escape_def Option.bind_eq_Some_conv split: if_splits option.splits)

lemma string_loop_cases:
  assumes "string_loop js len p = Some (StringEnd q)"
  obtains "p < len" "js ! p = chQuote" "q = p"
    | "p < len" "js ! p \<noteq> 0" "string_loop js len (p + 1) = Some (StringEnd q)"
    | "p < len" "js ! p \<noteq> 0" "is_escape (js ! (p + 1))" "string_loop js len (p + 2) = Some (StringEnd q)"
    | r where "p < len" "js ! p \<noteq> 0" "js ! (p + 1) = 117" "hex_loop js len 0 (p + 2) = Some (Some r)" "string_loop js len r = Some (StringEnd q)"
proof -
  have p: "p < len" "p < length js" "js ! p \<noteq> 0"
    using assms by (auto simp: string_loop.simps [of js len p] Option.bind_eq_Some_conv split: if_splits)
  have f: "fetch js p = Some (js ! p)" using p(2) by (rule fetch_in)
  consider "js ! p = chQuote" | "js ! p \<noteq> chQuote" "\<not> (js ! p = chBackslash \<and> p + 1 < len)" | "js ! p = chBackslash" "p + 1 < len" by blast
  then show thesis
  proof cases
    case 1
    have "string_loop js len p = Some (StringEnd p)"
      unfolding string_loop.simps [of js len p] f bind.simps if_P [OF p(1)] if_not_P [OF p(3)] if_P [OF 1] ..
    then show ?thesis using assms p(1) that(1) 1 by simp
  next
    case 2
    have "string_loop js len p = string_loop js len (p + 1)"
      unfolding string_loop.simps [of js len p] f bind.simps if_P [OF p(1)] if_not_P [OF p(3)] if_not_P [OF 2(1)] if_not_P [OF 2(2)] ..
    then show ?thesis using assms p(1,3) that(2) by simp
  next
    case 3
    then have nq: "js ! p \<noteq> chQuote" and b: "js ! p = chBackslash \<and> p + 1 < len" by simp_all
    have s: "p + 1 + 1 = p + 2" by simp
    have u: "string_loop js len p = string_escape js len (p + 1)"
      unfolding string_loop.simps [of js len p] string_escape_def f bind.simps if_P [OF p(1)] if_not_P [OF p(3)] if_not_P [OF nq] if_P [OF b] s ..
    then show ?thesis using assms p(1,3) that(3,4) string_escape_cases [of js len "p + 1" q] by fastforce
  qed
qed

definition string_ends :: "u8 list \<Rightarrow> nat \<Rightarrow> nat \<Rightarrow> nat \<Rightarrow> bool" where
  "string_ends js len p q \<longleftrightarrow> p \<le> q \<and> q < len \<and> js ! q = chQuote \<and> (\<forall>i. p \<le> i \<and> i < q \<longrightarrow> js ! i \<noteq> 0)"

lemma string_ends_further:
  "string_ends js len r q \<Longrightarrow> p \<le> r \<Longrightarrow> (\<And>i. p \<le> i \<Longrightarrow> i < r \<Longrightarrow> js ! i \<noteq> 0) \<Longrightarrow> string_ends js len p q"
  unfolding string_ends_def by (meson le_trans not_le)

lemma string_loop_ends: "string_loop js len p = Some (StringEnd q) \<Longrightarrow> string_ends js len p q"
proof (induction "len - p" arbitrary: p rule: less_induct)
  case less
  have IH: "string_ends js len r q" if "p < r" "p < len" "string_loop js len r = Some (StringEnd q)" for r
    by (rule less.hyps) (use that in linarith, rule that(3))
  show ?case
  proof (rule string_loop_cases [OF less.prems])
    assume "p < len" "js ! p = chQuote" "q = p"
    then show ?case by (auto simp: string_ends_def)
  next
    assume c: "p < len" "js ! p \<noteq> 0" "string_loop js len (p + 1) = Some (StringEnd q)"
    show ?case by (rule string_ends_further [OF IH [OF _ c(1,3)]]) (use c(2) in \<open>auto simp: less_Suc_eq\<close>)
  next
    assume c: "p < len" "js ! p \<noteq> 0" "is_escape (js ! (p + 1))" "string_loop js len (p + 2) = Some (StringEnd q)"
    have "js ! (p + 1) \<noteq> 0" using c(3) by (auto simp: is_escape_def)
    moreover have "i = p \<or> i = p + 1" if "p \<le> i" "i < p + 2" for i using that by linarith
    ultimately show ?case by (intro string_ends_further [OF IH [OF _ c(1,4)]]) (use c(2) in auto)
  next
    fix r
    assume c: "p < len" "js ! p \<noteq> 0" "js ! (p + 1) = 117" "hex_loop js len 0 (p + 2) = Some (Some r)" "string_loop js len r = Some (StringEnd q)"
    have h: "p + 2 \<le> r" "\<forall>i\<in>{p + 2..<r}. js ! i \<noteq> 0" using hex_loop_token [OF c(4)] by auto
    have "js ! i \<noteq> 0" if "p \<le> i" "i < r" for i
    proof -
      have "i = p \<or> i = p + 1 \<or> i \<in> {p + 2..<r}" using that by auto
      then show ?thesis using c(2,3) h(2) by auto
    qed
    then show ?case using h(1) by (intro string_ends_further [OF IH [OF _ c(1,5)]]) simp_all
  qed
qed

lemma string_loop_token:
  "string_loop js len p = Some (StringEnd q) \<Longrightarrow> p \<le> q \<and> q < len \<and> js ! q = chQuote \<and> (\<forall>i\<in>{p..<q}. js ! i \<noteq> 0)"
  using string_loop_ends [of js len p q] by (simp add: string_ends_def)

lemma primitive_loop_token:
  "primitive_loop js len p = Some (Some q) \<Longrightarrow> p \<le> len \<Longrightarrow>
     p \<le> q \<and> q \<le> len \<and> (\<forall>i\<in>{p..<q}. js ! i \<noteq> 0 \<and> \<not> primitive_end (js ! i)) \<and>
     (q < len \<longrightarrow> js ! q = 0 \<or> primitive_end (js ! q))"
proof (induction js len p rule: primitive_loop.induct)
  case (1 js len p)
  show ?case
  proof (cases "p < len \<and> p < length js \<and> js ! p \<noteq> 0 \<and> \<not> primitive_end (js ! p) \<and> \<not> (js ! p < 32 \<or> js ! p \<ge> 127)")
    case True
    then have q: "primitive_loop js len (p + 1) = Some (Some q)" using "1.prems" by (simp add: primitive_loop.simps [of js len p] fetch_in)
    have IH: "p + 1 \<le> q" "q \<le> len" "\<forall>i\<in>{p + 1..<q}. js ! i \<noteq> 0 \<and> \<not> primitive_end (js ! i)"
      "q < len \<longrightarrow> js ! q = 0 \<or> primitive_end (js ! q)" using "1.IH" [of "js ! p"] q True by auto
    moreover have "{p..<q} = insert p {p + 1..<q}" using IH(1) by auto
    ultimately show ?thesis using True by auto
  qed (use "1.prems" in \<open>auto simp: primitive_loop.simps [of js len p] Option.bind_eq_Some_conv split: if_splits\<close>)
qed

subsection \<open>All reads are inside the document\<close>

lemma primitive_loop_reads:
  assumes "len \<le> length js"
  shows "\<exists>r. primitive_loop js len p = Some r"
proof (induction "len - p" arbitrary: p rule: less_induct)
  case less
  then show ?case using assms by (subst primitive_loop.simps) (auto simp: fetch_in)
qed

lemma hex_loop_reads:
  assumes "len \<le> length js"
  shows "\<exists>r. hex_loop js len i p = Some r"
proof (induction "4 - i" arbitrary: i p rule: less_induct)
  case less
  then show ?case using assms by (subst hex_loop.simps) (auto simp: fetch_in)
qed

lemma string_loop_reads:
  assumes "len \<le> length js"
  shows "\<exists>r. string_loop js len p = Some r"
proof (induction "len - p" arbitrary: p rule: less_induct)
  case less
  obtain r where r: "hex_loop js len 0 (p + 2) = Some r" using hex_loop_reads [OF assms] by blast
  have "p + 2 \<le> q" if "r = Some q" for q using hex_loop_ge r that by blast
  then show ?case using assms less r by (subst string_loop.simps) (auto simp: fetch_in split: option.split)
qed

section \<open>Brackets\<close>

lemma close_loop_ends:
  assumes "\<forall>i<k. link_ok k i (ts ! i)" and "k \<le> length ts"
  shows "i < k \<Longrightarrow> \<exists>r. close_loop ts super ty (int i) = Some r \<and> (\<forall>j. r = CloseToken j \<longrightarrow> j < k \<and> is_open (ts ! j) \<and> jt_type (ts ! j) = ty)"
proof (induction i rule: less_induct)
  case (less i)
  have f: "fetch_int ts (int i) = Some (ts ! i)" using less.prems assms(2) by (simp add: fetch_int_def fetch_in)
  show ?case
  proof (cases "is_open (ts ! i) \<or> jt_parent (ts ! i) = -1")
    case True
    then show ?thesis using less.prems f by (subst close_loop.simps) auto
  next
    case False
    then have "close_loop ts super ty (int i) = close_loop ts super ty (jt_parent (ts ! i))" using f by (subst close_loop.simps) simp
    moreover have "0 \<le> jt_parent (ts ! i)" "nat (jt_parent (ts ! i)) < i" using assms(1) less.prems False by (force simp: link_ok_def)+
    ultimately show ?thesis using less.IH [of "nat (jt_parent (ts ! i))"] less.prems by simp
  qed
qed

lemma closed_token:
  assumes "token_ok js len p t" and "p < len" and "jt_type t = ty"
    and "(ty, js ! p) \<in> {(JSMN_OBJECT, chRBrace), (JSMN_ARRAY, chRBracket)}"
  shows "token_ok js len (Suc p) (t\<lparr>jt_end := int p + 1\<rparr>)"
proof -
  have "nat (int p + 1) = Suc p" by simp
  then have "container_ok js len (Suc p) a (js ! p) (t\<lparr>jt_end := int p + 1\<rparr>)" if "container_ok js len p a b t" for a b
    using that assms(2) unfolding container_ok_def by simp linarith
  then show ?thesis using assms(1,3,4) by (auto simp: token_ok_def)
qed

lemma close_bracket_inv:
  assumes "jsmn_inv js len n (jp_pos s) s" and "jp_pos s < len"
    and "(ty, js ! jp_pos s) \<in> {(JSMN_OBJECT, chRBrace), (JSMN_ARRAY, chRBracket)}"
  shows "\<exists>e s'. close_bracket ty s = Some (e, s') \<and> jsmn_inv js len n (Suc (jp_pos s)) s' \<and> jp_pos s' = jp_pos s \<and> jp_toknext s' = jp_toknext s"
proof (cases "jp_toknext s < 1")
  case True
  then show ?thesis using inv_mono [OF assms(1)] by (simp add: close_bracket_def)
next
  case False
  have i: "jsmn_inv js len n (Suc (jp_pos s)) s" using inv_mono [OF assms(1)] by simp
  have l: "\<forall>i<jp_toknext s. link_ok (jp_toknext s) i (jp_tokens s ! i)" using assms(1) by (simp add: jsmn_inv_def)
  have "jp_toknext s - 1 < jp_toknext s" using False by simp
  moreover have k: "jp_toknext s \<le> length (jp_tokens s)" using assms(1) by (simp add: jsmn_inv_def)
  moreover have "int (jp_toknext s - 1) = int (jp_toknext s) - 1" using False by simp
  ultimately obtain r
    where r: "close_loop (jp_tokens s) (jp_toksuper s) ty (int (jp_toknext s) - 1) = Some r"
    "\<forall>j. r = CloseToken j \<longrightarrow> j < jp_toknext s \<and> is_open (jp_tokens s ! j) \<and> jt_type (jp_tokens s ! j) = ty"
    using close_loop_ends [OF l k, of "jp_toknext s - 1" "jp_toksuper s" ty] by auto
  show ?thesis
  proof (cases r)
    case (CloseToken j)
    let ?t = "jp_tokens s ! j" and ?s = "put_tok j (\<lambda>t. t\<lparr>jt_end := int (jp_pos s) + 1\<rparr>) s"
    have j: "j < jp_toknext s" "jt_type ?t = ty" "j < length (jp_tokens s)" using r(2) CloseToken assms(1) by (auto simp: jsmn_inv_def)
    have "token_ok js len (jp_pos s) ?t" "link_ok (jp_toknext s) j ?t" using assms(1) j(1) by (auto simp: jsmn_inv_def)
    moreover from this have "token_ok js len (Suc (jp_pos s)) (?t\<lparr>jt_end := int (jp_pos s) + 1\<rparr>)"
      using closed_token j(2) assms(2,3) by blast
    ultimately have "jsmn_inv js len n (Suc (jp_pos s)) (?s\<lparr>jp_toksuper := jt_parent ?t\<rparr>)"
      using i j by (auto simp: jsmn_inv_def put_tok_def nth_list_update link_ok_def)
    moreover have "jt_parent (jp_tokens ?s ! j) = jt_parent ?t" "jp_toknext ?s = jp_toknext s" "j < length (jp_tokens ?s)"
      using j(3) by (simp_all add: put_tok_def)
    ultimately show ?thesis using False r(1) CloseToken j(3) by (simp add: close_bracket_def upd_tok_def fetch_in)
  qed (use False r(1) i in \<open>simp_all add: close_bracket_def\<close>)
qed

section \<open>The invariant\<close>

declare fetch_Some [simp del]

text \<open>One iteration ends, keeps the invariant and reads on.\<close>

definition step_ok :: "u8 list \<Rightarrow> nat \<Rightarrow> nat \<Rightarrow> jsmn_parser \<Rightarrow> (jsmnerr + nat) \<times> jsmn_parser \<Rightarrow> bool" where
  "step_ok js len n s r \<longleftrightarrow> jsmn_inv js len n (Suc (jp_pos (snd r))) (snd r) \<and> jp_pos s \<le> jp_pos (snd r) \<and> jp_pos (snd r) < len \<and>
     (\<forall>k. fst r = Inr k \<longrightarrow> jp_toknext (snd r) = jp_toknext s + k)"

lemma step_ok_error: "jsmn_inv js len n (jp_pos s) s \<Longrightarrow> jp_pos s < len \<Longrightarrow> step_ok js len n s (Inl e, s)"
  using inv_mono by (auto simp: step_ok_def)

lemma step_ok_same:
  "jsmn_inv js len n (jp_pos s) s \<Longrightarrow> jp_pos s < len \<Longrightarrow> -1 \<le> v \<Longrightarrow> v < int (jp_toknext s) \<Longrightarrow>
     step_ok js len n s (Inr 0, s\<lparr>jp_toksuper := v\<rparr>)"
  using inv_mono inv_toksuper by (fastforce simp: step_ok_def)

lemma step_ok_token:
  assumes "jsmn_inv js len n (jp_pos s) s" and "jp_toknext s < n" and "token_ok js len (Suc q) t" and "jp_pos s \<le> q" and "q < len"
    and "jt_parent t = jp_toksuper s" and "jt_size t = 0"
  shows "step_ok js len n s (Inr 1, (add_child (push_token t s))\<lparr>jp_pos := q\<rparr>)"
  using inv_push [OF assms(1-3) _ assms(6,7)] assms(4,5) by (simp add: step_ok_def)

lemma scalar_token:
  assumes "jsmn_inv js len n p s" and "jp_toknext s < n"
  shows "scalar (Some (None, (push_token t s)\<lparr>jp_pos := q\<rparr>)) = Some (Inr 1, (add_child (push_token t s))\<lparr>jp_pos := q\<rparr>)"
proof -
  have "count_child ((push_token t s)\<lparr>jp_pos := q\<rparr>) = Some (add_child ((push_token t s)\<lparr>jp_pos := q\<rparr>))"
    using assms by (intro count_child_eq) (auto simp: jsmn_inv_def)
  then show ?thesis by (simp add: scalar_def add_child_pos)
qed

lemma jsmn_step_inv:
  assumes "jsmn_inv js len n (jp_pos s) s" and "jp_pos s < len" and "js ! jp_pos s \<noteq> 0" and len: "len \<le> length js"
  shows "\<exists>r. jsmn_step js len n s = Some r \<and> step_ok js len n s r"
proof -
  let ?c = "js ! jp_pos s" and ?p = "jp_pos s"
  have b: "n \<le> length (jp_tokens s)" "-1 \<le> jp_toksuper s" "jp_toksuper s < int (jp_toknext s)" using assms(1) by (auto simp: jsmn_inv_def)
  have f: "fetch js ?p = Some ?c" using assms(2) len by (simp add: fetch_in)
  note err = step_ok_error [OF assms(1,2)]
  consider (brk_open) "?c = chLBrace \<or> ?c = chLBracket" | (brk_close) "?c = chRBrace \<or> ?c = chRBracket" | (str) "?c = chQuote"
    | (space) "is_blank ?c" | (col) "?c = chColon" | (com) "?c = chComma"
    | (other) "?c \<notin> {chLBrace, chLBracket, chRBrace, chRBracket, chQuote, chColon, chComma}" "\<not> is_blank ?c" by blast
  then show ?thesis
  proof cases
    case brk_open
    let ?ty = "if ?c = chLBrace then JSMN_OBJECT else JSMN_ARRAY"
    let ?t = "\<lparr>jt_type = ?ty, jt_start = int ?p, jt_end = -1, jt_size = 0, jt_parent = jp_toksuper s\<rparr>"
    have "token_ok js len (Suc ?p) ?t" using brk_open assms(2) by (auto simp: token_ok_def container_ok_def)
    then have "step_ok js len n s (Inr 1, (add_child (push_token ?t s))\<lparr>jp_toksuper := int (jp_toknext s)\<rparr>)" if "jp_toknext s < n"
      using inv_push [OF assms(1) that, of "Suc ?p" ?t] inv_toksuper [of js len n "Suc ?p" "add_child (push_token ?t s)" "int (jp_toknext s)"] assms(2)
      by (simp add: step_ok_def)
    then show ?thesis using brk_open err f by (auto simp: jsmn_step_def open_bracket_eq [OF b] report_def)
  next
    case brk_close
    let ?ty = "if ?c = chRBrace then JSMN_OBJECT else JSMN_ARRAY"
    have "(?ty, ?c) \<in> {(JSMN_OBJECT, chRBrace), (JSMN_ARRAY, chRBracket)}" using brk_close by auto
    from close_bracket_inv [OF assms(1,2) this] obtain e s' where c: "close_bracket ?ty s = Some (e, s')"
      "jsmn_inv js len n (Suc ?p) s'" "jp_pos s' = ?p" "jp_toknext s' = jp_toknext s" by blast
    have "jsmn_step js len n s = Some (report 0 e, s')"
      using brk_close c(1) f by (auto simp: jsmn_step_def)
    then show ?thesis using c(2-4) assms(2) by (auto simp: step_ok_def report_def split: option.split)
  next
    case str
    obtain r where r: "string_loop js len (?p + 1) = Some r" using string_loop_reads [OF len] by blast
    have t: "token_ok js len (Suc q) \<lparr>jt_type = JSMN_STRING, jt_start = int ?p + 1, jt_end = int q, jt_size = 0, jt_parent = x\<rparr>"
      if "r = StringEnd q" for q x
      using string_loop_token [of js len "?p + 1" q] r that str by (auto simp: token_ok_def string_token_ok_def nat_add_distrib)
    have "step_ok js len n s (Inr 1, (add_child (push_token
        \<lparr>jt_type = JSMN_STRING, jt_start = int ?p + 1, jt_end = int q, jt_size = 0, jt_parent = jp_toksuper s\<rparr> s))\<lparr>jp_pos := q\<rparr>)"
      if "r = StringEnd q" "jp_toknext s < n" for q
      using step_ok_token [OF assms(1) that(2) t [OF that(1)]] string_loop_token [of js len "?p + 1" q] r that(1) by simp
    moreover have "jsmn_step js len n s = scalar (jsmn_parse_string js len n s)"
      using str f by (simp add: jsmn_step_def is_blank_def)
    ultimately show ?thesis
      unfolding parse_string_eq [OF b(1) r] using err scalar_token [OF assms(1)]
      by (cases r) (auto simp: scalar_def [of "Some (Some _, _)"] report_def)
  next
    case other
    then have ne: "\<not> primitive_end ?c" by (auto simp: primitive_end_def)
    obtain r where r: "primitive_loop js len ?p = Some r" using primitive_loop_reads [OF len] by blast
    have g: "?p < q" "q \<le> len" "?p \<le> q - 1" "q - 1 < len" "Suc (q - 1) = q" if "r = Some q" for q
      using primitive_loop_ge [of js len ?p q] primitive_loop_token [of js len ?p q] r that assms(2,3) ne by auto
    have t: "token_ok js len q \<lparr>jt_type = JSMN_PRIMITIVE, jt_start = int ?p, jt_end = int q, jt_size = 0, jt_parent = x\<rparr>"
      if "r = Some q" for q x
      using primitive_loop_token [of js len ?p q] r g [OF that] that assms(2) by (auto simp: token_ok_def primitive_token_ok_def)
    have "step_ok js len n s (Inr 1, (add_child (push_token
        \<lparr>jt_type = JSMN_PRIMITIVE, jt_start = int ?p, jt_end = int q, jt_size = 0, jt_parent = jp_toksuper s\<rparr> s))\<lparr>jp_pos := q - 1\<rparr>)"
      if "r = Some q" "jp_toknext s < n" for q
      using step_ok_token [OF assms(1) that(2), of "q - 1"] t [OF that(1)] g [OF that(1)] by simp
    moreover have "jsmn_step js len n s = scalar (jsmn_parse_primitive js len n s)"
      using other f by (simp add: jsmn_step_def)
    ultimately show ?thesis
      unfolding parse_primitive_eq [OF b(1) r] using err scalar_token [OF assms(1)]
      by (cases r) (auto simp: scalar_def [of "Some (Some _, _)"] report_def)
  next
    case com
    let ?i = "nat (jp_toksuper s)"
    have "-1 \<le> jt_parent (jp_tokens s ! ?i)" "jt_parent (jp_tokens s ! ?i) < int (jp_toknext s)" if "jp_toksuper s \<noteq> -1"
    proof -
      have "?i < jp_toknext s" using that b by linarith
      then have "link_ok (jp_toknext s) ?i (jp_tokens s ! ?i)" using assms(1) by (simp add: jsmn_inv_def)
      then show "-1 \<le> jt_parent (jp_tokens s ! ?i)" "jt_parent (jp_tokens s ! ?i) < int (jp_toknext s)"
        using \<open>?i < jp_toknext s\<close> b(3) by (auto simp: link_ok_def split: if_splits)
    qed
    moreover have "fetch_int (jp_tokens s) (jp_toksuper s) = Some (jp_tokens s ! ?i)" if "jp_toksuper s \<noteq> -1"
      using that b assms(1) by (auto simp: fetch_int_def jsmn_inv_def intro!: fetch_in)
    ultimately show ?thesis
      using com f step_ok_same [OF assms(1,2)] step_ok_same [OF assms(1,2) b(2,3)]
      by (auto simp: jsmn_step_def is_blank_def)
  qed (use f step_ok_same [OF assms(1,2) b(2,3)] step_ok_same [OF assms(1,2), of "int (jp_toknext s) - 1"] in
      \<open>auto simp: jsmn_step_def is_blank_def\<close>)
qed

lemma jsmn_loop_inv:
  assumes len: "len \<le> length js"
  shows "jsmn_inv js len n (jp_pos s) s \<Longrightarrow> jp_pos s \<le> len \<Longrightarrow>
     \<exists>r s'. jsmn_loop js len n count s = Some (r, s') \<and> jsmn_inv js len n (Suc len) s' \<and>
       (\<forall>m. r = Inr m \<longrightarrow> m + jp_toknext s = count + jp_toknext s')"
proof (induction "len - jp_pos s" arbitrary: s count rule: less_induct)
  case less
  show ?case
  proof (cases "jp_pos s < len \<and> js ! jp_pos s \<noteq> 0")
    case False
    then show ?thesis using inv_mono [OF less.prems(1)] less.prems(2) len by (subst jsmn_loop.simps) (auto simp: fetch_in)
  next
    case True
    then have f: "fetch js (jp_pos s) = Some (js ! jp_pos s)" using len by (simp add: fetch_in)
    obtain r s' where st: "jsmn_step js len n s = Some (r, s')" "step_ok js len n s (r, s')"
      using jsmn_step_inv [OF less.prems(1) _ _ len] True by (metis prod.collapse)
    show ?thesis
    proof (cases r)
      case (Inl e)
      have "jsmn_inv js len n (Suc len) s'" using st(2) inv_mono by (auto simp: step_ok_def)
      then show ?thesis using True st(1) Inl f by (subst jsmn_loop.simps) simp
    next
      case (Inr k)
      let ?s = "s'\<lparr>jp_pos := jp_pos s' + 1\<rparr>"
      have s': "jp_pos s \<le> jp_pos s'" "jp_pos s' < len" "jp_toknext s' = jp_toknext s + k" "jsmn_inv js len n (Suc (jp_pos s')) s'"
        using st(2) Inr by (auto simp: step_ok_def)
      then have "\<exists>r s''. jsmn_loop js len n (count + k) ?s = Some (r, s'') \<and> jsmn_inv js len n (Suc len) s'' \<and>
          (\<forall>m. r = Inr m \<longrightarrow> m + jp_toknext ?s = count + k + jp_toknext s'')"
        using True by (intro less.hyps) auto
      moreover have "jsmn_loop js len n count s = jsmn_loop js len n (count + k) ?s"
        using True st(1) Inr f by (subst jsmn_loop.simps) simp
      ultimately show ?thesis using s'(3) by auto
    qed
  qed
qed

text \<open>The tokens of a complete document.\<close>

definition tokens_ok :: "u8 list \<Rightarrow> nat \<Rightarrow> nat \<Rightarrow> jsmntok_t list \<Rightarrow> bool" where
  "tokens_ok js len m ts \<longleftrightarrow> m \<le> length ts \<and>
     (\<forall>i<m. token_ok js len (Suc len) (ts ! i) \<and> link_ok m i (ts ! i) \<and> \<not> is_open (ts ! i))"

lemma jsmn_parse_tokens:
  assumes "n \<le> length ts" and "len \<le> length js"
  shows "\<exists>r s. jsmn_parse (jsmn_init ts) js len n = Some (r, s) \<and> jp_toknext s \<le> n \<and> n \<le> length (jp_tokens s) \<and>
    (\<forall>m. r = Inr m \<longrightarrow> m = jp_toknext s \<and> tokens_ok js len m (jp_tokens s))"
proof -
  have "jsmn_inv js len n (jp_pos (jsmn_init ts)) (jsmn_init ts)" using assms(1) by (simp add: jsmn_inv_def jsmn_init_def)
  from jsmn_loop_inv [OF assms(2) this, of 0] obtain r s where l: "jsmn_loop js len n 0 (jsmn_init ts) = Some (r, s)"
    "jsmn_inv js len n (Suc len) s" "\<forall>m. r = Inr m \<longrightarrow> m = jp_toknext s"
    by (auto simp: jsmn_init_def)
  show ?thesis
  proof (cases r)
    case (Inl e)
    then show ?thesis using l(1,2) by (simp add: jsmn_parse_def) (simp add: jsmn_init_def jsmn_inv_def)
  next
    case (Inr m)
    have "jp_toknext (jsmn_init ts) = 0" by (simp add: jsmn_init_def)
    then have "jsmn_parse (jsmn_init ts) js len n = Some (if list_ex is_open (take (jp_toknext s) (jp_tokens s)) then Inl JSMN_ERROR_PART else Inr m, s)"
      using l(1,2) Inr by (simp add: jsmn_parse_def open_left_eq jsmn_inv_def)
    moreover have "jp_toknext s \<le> n" "n \<le> length (jp_tokens s)" using l(2) by (simp_all add: jsmn_inv_def)
    ultimately show ?thesis using l(2,3) Inr by (auto simp: list_ex_length tokens_ok_def jsmn_inv_def)
  qed
qed

section \<open>Properties\<close>

text \<open>
  C22. \<open>jsmn_parse\<close> always ends, for every document and every array of tokens, and reads and writes only inside the
  \<open>len\<close> bytes of the document and the tokens it was given (a result exists, and an access outside would have
  none, also where the document is an array of exactly \<open>len\<close> bytes). When it succeeds it returns the number of tokens, and
  each of them is a well-formed piece of the document: objects and arrays run from
  their opening to a closing bracket of the same kind, strings lie between two quotes,
  primitives are longest non-empty pieces without separators; parents come before
  their children and a token with a child is followed by another token.
\<close>

theorem jsmn_parse_sound:
  assumes "n \<le> length ts" and "len \<le> length js"
  shows "\<exists>r s. jsmn_parse (jsmn_init ts) js len n = Some (r, s) \<and> jp_toknext s \<le> n \<and>
    (\<forall>m. r = Inr m \<longrightarrow> m = jp_toknext s \<and> tokens_ok js len m (jp_tokens s))"
  using jsmn_parse_tokens [OF assms] by blast

definition example_doc :: "u8 list" where
  "example_doc = [123, 34, 97, 34, 58, 91, 49, 44, 50, 93, 125]"

definition blank_token :: jsmntok_t where
  "blank_token = \<lparr>jt_type = JSMN_UNDEFINED, jt_start = 0, jt_end = 0, jt_size = 0, jt_parent = 0\<rparr>"

theorem jsmn_parse_sound_witness:
  "map_option (\<lambda>(r, s). (r, map jt_start (take 5 (jp_tokens s)), map jt_end (take 5 (jp_tokens s))))
     (jsmn_parse (jsmn_init (replicate 6 blank_token)) example_doc 11 6) = Some (Inr 5, [0, 2, 5, 6, 8], [11, 3, 10, 7, 9]) \<and>
   (\<exists>ts. tokens_ok example_doc 11 5 ts) \<and>
   map_option fst (jsmn_parse (jsmn_init (replicate 6 blank_token)) [chQuote, chBackslash] 2 6) = Some (Inl JSMN_ERROR_PART)"
proof (intro conjI)
  show e: "map_option (\<lambda>(r, s). (r, map jt_start (take 5 (jp_tokens s)), map jt_end (take 5 (jp_tokens s))))
     (jsmn_parse (jsmn_init (replicate 6 blank_token)) example_doc 11 6) = Some (Inr 5, [0, 2, 5, 6, 8], [11, 3, 10, 7, 9])"
    by code_simp
  show "\<exists>ts. tokens_ok example_doc 11 5 ts"
    using jsmn_parse_sound [of 6 "replicate 6 blank_token" 11 example_doc] e by (auto simp: example_doc_def)
  show "map_option fst (jsmn_parse (jsmn_init (replicate 6 blank_token)) [chQuote, chBackslash] 2 6) = Some (Inl JSMN_ERROR_PART)"
    by code_simp
qed

end
