(* ===== verification/ShadowJson.thy ===== *)
theory ShadowJson
  imports Jsmn
begin

text \<open>
  The JSON functions of the shadow client (\<open>AWS/shadow/aws_shadow_json.c\<close>): finding the value of
  a key among the tokens of a document, comparing the client tokens of two documents,
  and reading the code and the message of an error document.
\<close>

section \<open>The C library\<close>

text \<open>
  \<open>strncmp(a, b, n) == 0\<close> on the memory from the two pointers on; None stands for a read past
  the end of one of them.
\<close>

fun strncmp_eq :: "u8 list \<Rightarrow> u8 list \<Rightarrow> nat \<Rightarrow> bool option" where
  "strncmp_eq a b 0 = Some True"
| "strncmp_eq (x # a) (y # b) (Suc n) = (if x \<noteq> y then Some False else if x = 0 then Some True else strncmp_eq a b n)"
| "strncmp_eq a b (Suc n) = None"

text \<open>
  \<open>strtol(p, NULL, 0)\<close>: spaces, a sign, the prefix that gives the base, and the digits, with
  saturation at the limits of a 32-bit \<open>long\<close>; None stands for a read past the end.
\<close>

definition digit_value :: "u8 \<Rightarrow> nat" where
  "digit_value c = (let n = unat c in
     if 48 \<le> n \<and> n \<le> 57 then n - 48 else if 97 \<le> n \<and> n \<le> 122 then n - 87 else if 65 \<le> n \<and> n \<le> 90 then n - 55 else 36)"

fun read_digits :: "nat \<Rightarrow> nat \<Rightarrow> u8 list \<Rightarrow> nat option" where
  "read_digits base v [] = None"
| "read_digits base v (c # cs) = (if digit_value c < base then read_digits base (v * base + digit_value c) cs else Some v)"

fun skip_spaces :: "u8 list \<Rightarrow> u8 list" where
  "skip_spaces [] = []"
| "skip_spaces (c # cs) = (if c = 32 \<or> 9 \<le> c \<and> c \<le> 13 then skip_spaces cs else c # cs)"

definition read_number :: "u8 list \<Rightarrow> nat option" where
  "read_number p =
     (case p of
        [] \<Rightarrow> None
      | c # cs \<Rightarrow>
          if c \<noteq> 48 then read_digits 10 0 p
          else (case cs of
                  [] \<Rightarrow> None
                | x # ds \<Rightarrow>
                    if x \<noteq> 120 \<and> x \<noteq> 88 then read_digits 8 0 p
                    else (case ds of [] \<Rightarrow> None | d # _ \<Rightarrow> if digit_value d < 16 then read_digits 16 0 ds else Some 0)))"

definition strtol :: "u8 list \<Rightarrow> int option" where
  "strtol p =
     (case skip_spaces p of
        [] \<Rightarrow> None
      | c # cs \<Rightarrow>
          if c = 45 then map_option (\<lambda>n. max (- (2 ^ 31)) (- int n)) (read_number cs)
          else map_option (\<lambda>n. min (2 ^ 31 - 1) (int n)) (read_number (if c = 43 then cs else c # cs)))"

text \<open>Conversion to \<open>int16_t\<close> and \<open>uint16_t\<close>.\<close>

definition int16 :: "int \<Rightarrow> int" where
  "int16 x = signed_take_bit 15 x"

definition uint16 :: "int \<Rightarrow> int" where
  "uint16 x = x mod 65536"

section \<open>Finding a value\<close>

definition shadowconfigJSON_JSMN_TOKENS :: nat where
  "shadowconfigJSON_JSMN_TOKENS = 64"

definition shadowJSON_ERROR_CODE :: "u8 list" where
  "shadowJSON_ERROR_CODE = [99, 111, 100, 101]"

definition shadowJSON_ERROR_MESSAGE :: "u8 list" where
  "shadowJSON_ERROR_MESSAGE = [109, 101, 115, 115, 97, 103, 101]"

definition shadowJSON_CLIENT_TOKEN :: "u8 list" where
  "shadowJSON_CLIENT_TOKEN = [99, 108, 105, 101, 110, 116, 84, 111, 107, 101, 110]"

text \<open>
  The search, from the last token to the first: the value is the token after the one that
  matches. The result is None for a read outside the document or the tokens, and
  otherwise the value's offset and length, if it was found.
\<close>

definition compare_length :: "u8 list \<Rightarrow> jsmntok_t \<Rightarrow> int" where
  "compare_length key t = uint16 (max (uint16 (jt_end t) - uint16 (jt_start t)) (uint16 (int (length key))))"

fun value_loop :: "u8 list \<Rightarrow> u8 list \<Rightarrow> jsmntok_t list \<Rightarrow> nat \<Rightarrow> (nat \<times> int) option option" where
  "value_loop key doc ts 0 = Some None"
| "value_loop key doc ts (Suc i) =
     (case strncmp_eq (key @ [0]) (drop (nat (jt_start (ts ! i))) doc) (nat (compare_length key (ts ! i))) of
        None \<Rightarrow> None
      | Some eq \<Rightarrow>
          if eq \<and> jt_size (ts ! i) = 1 then
            if Suc i < length ts
            then Some (Some (nat (jt_start (ts ! Suc i)), uint16 (uint16 (jt_end (ts ! Suc i)) - uint16 (jt_start (ts ! Suc i)))))
            else None
          else value_loop key doc ts i)"

text \<open>The length is 0 when the value was not found; then the pointer is not set.\<close>

definition prvGetJSONValue :: "u8 list \<Rightarrow> u8 list \<Rightarrow> jsmntok_t list \<Rightarrow> int \<Rightarrow> (int \<times> nat option) option" where
  "prvGetJSONValue key doc ts sTokensParsed =
     map_option (\<lambda>r. case r of None \<Rightarrow> (0, None) | Some (a, n) \<Rightarrow> (n, Some a)) (value_loop key doc ts (nat sTokensParsed))"

definition jsmn_code :: "jsmnerr + nat \<Rightarrow> int" where
  "jsmn_code r = (case r of Inr n \<Rightarrow> int n | Inl JSMN_ERROR_NOMEM \<Rightarrow> -1 | Inl JSMN_ERROR_INVAL \<Rightarrow> -2 | Inl JSMN_ERROR_PART \<Rightarrow> -3)"

text \<open>The array of tokens comes in with arbitrary contents and goes out filled.\<close>

definition prvParseJSON :: "u8 list \<Rightarrow> nat \<Rightarrow> jsmntok_t list \<Rightarrow> (int \<times> jsmntok_t list) option" where
  "prvParseJSON doc len ts =
     map_option (\<lambda>(r, s). (int16 (jsmn_code r), jp_tokens s)) (jsmn_parse (jsmn_init ts) doc len shadowconfigJSON_JSMN_TOKENS)"

section \<open>Operations\<close>

definition SHADOW_JSONDocClientTokenMatch :: "jsmntok_t list \<Rightarrow> u8 list \<Rightarrow> nat \<Rightarrow> u8 list \<Rightarrow> nat \<Rightarrow> bool option" where
  "SHADOW_JSONDocClientTokenMatch ts doc1 len1 doc2 len2 =
     Option.bind (prvParseJSON doc1 len1 ts) (\<lambda>(sNbTokens, ts).
       if sNbTokens > 0 then
         Option.bind (prvGetJSONValue shadowJSON_CLIENT_TOKEN doc1 ts sNbTokens) (\<lambda>(n1, p1).
           if n1 > 0 then
             Option.bind (prvParseJSON doc2 len2 ts) (\<lambda>(sNbTokens, ts).
               if sNbTokens > 0 then
                 Option.bind (prvGetJSONValue shadowJSON_CLIENT_TOKEN doc2 ts sNbTokens) (\<lambda>(n2, p2).
                   if n2 = n1 then strncmp_eq (drop (the p1) doc1) (drop (the p2) doc2) (nat n1) else Some False)
               else Some False)
           else Some False)
       else Some False)"

text \<open>
  The result code and, when it is asked for and was found, the offset and the length of the
  message; \<open>want\<close> tells whether the two pointers for the message are not null.
\<close>

definition SHADOW_JSONGetErrorCodeAndMessage ::
  "jsmntok_t list \<Rightarrow> u8 list \<Rightarrow> nat \<Rightarrow> bool \<Rightarrow> (int \<times> (int \<times> nat option) option) option" where
  "SHADOW_JSONGetErrorCodeAndMessage ts doc len want =
     Option.bind (prvParseJSON doc len ts) (\<lambda>(sTokensParsed, ts).
       if sTokensParsed > 0 then
         Option.bind (prvGetJSONValue shadowJSON_ERROR_CODE doc ts sTokensParsed) (\<lambda>(n, p).
           let sReturn = int16 n in
           if sReturn > 0 then
             Option.bind (strtol (drop (the p) doc)) (\<lambda>v.
               let sReturn = int16 v in
               if want then map_option (\<lambda>m. (sReturn, Some m)) (prvGetJSONValue shadowJSON_ERROR_MESSAGE doc ts sTokensParsed)
               else Some (sReturn, None))
           else Some (sReturn, None))
       else Some (sTokensParsed, None))"

section \<open>The search is exact\<close>

text \<open>
  The text of a token. Keys are made of letters. A document is regular if it is shorter than
  64 KB, ends with a closing brace, and lies in memory as far as its length says.
\<close>

definition token_text :: "u8 list \<Rightarrow> jsmntok_t \<Rightarrow> u8 list" where
  "token_text doc t = take (nat (jt_end t) - nat (jt_start t)) (drop (nat (jt_start t)) doc)"

definition letter :: "u8 \<Rightarrow> bool" where
  "letter c \<longleftrightarrow> 65 \<le> c \<and> c \<le> 90 \<or> 97 \<le> c \<and> c \<le> 122"

definition key_ok :: "u8 list \<Rightarrow> bool" where
  "key_ok key \<longleftrightarrow> key \<noteq> [] \<and> length key < 65536 \<and> list_all letter key"

definition doc_ok :: "u8 list \<Rightarrow> nat \<Rightarrow> bool" where
  "doc_ok doc len \<longleftrightarrow> 0 < len \<and> len < 65536 \<and> len \<le> length doc \<and> doc ! (len - 1) = chRBrace"

lemma letter_facts:
  assumes "letter c"
  shows "c \<noteq> 0" "c \<noteq> chQuote" "\<not> primitive_end c" "c \<noteq> chLBrace" "c \<noteq> chLBracket"
  using assms by (auto simp: letter_def primitive_end_def is_blank_def word_le_nat_alt)

lemma strncmp_text:
  "0 \<notin> set key \<Longrightarrow> 0 \<notin> set x \<Longrightarrow> c \<notin> set key \<Longrightarrow>
     strncmp_eq (key @ [0]) (x @ c # rest) (max (length x) (length key)) = Some (x = key)"
proof (induction key arbitrary: x)
  case Nil
  then show ?case by (cases x) auto
next
  case (Cons k key)
  show ?case
  proof (cases x)
    case (Cons y ys)
    have "max (length x) (length (k # key)) = Suc (max (length ys) (length key))" using Cons by simp
    then show ?thesis using Cons.IH [of ys] Cons.prems Cons by auto
  qed (use Cons.prems in auto)
qed

lemma strncmp_first:
  "x \<noteq> y \<Longrightarrow> 0 < n \<Longrightarrow> strncmp_eq (x # a) (y # b) n = Some False"
  by (cases n) simp_all

text \<open>A token of a regular document lies inside it, and so does the byte after a scalar.\<close>

lemma token_span:
  assumes "token_ok doc len (Suc len) t" and "\<not> is_open t" and "doc_ok doc len"
  shows "0 \<le> jt_start t" "jt_start t \<le> jt_end t" "nat (jt_end t) \<le> len"
    and "jt_type t = JSMN_PRIMITIVE \<Longrightarrow> nat (jt_end t) < len"
proof -
  show "0 \<le> jt_start t" "jt_start t \<le> jt_end t" "nat (jt_end t) \<le> len"
    using assms(1,2)
    by (auto simp: token_ok_def container_ok_def string_token_ok_def primitive_token_ok_def is_open_def split: jsmntype_t.splits)
  show "nat (jt_end t) < len" if "jt_type t = JSMN_PRIMITIVE"
  proof (rule ccontr)
    assume "\<not> nat (jt_end t) < len"
    moreover have p: "primitive_token_ok doc len t" using assms(1) that by (simp add: token_ok_def)
    ultimately have "nat (jt_end t) = len" "jt_start t < jt_end t" "0 \<le> jt_start t" by (auto simp: primitive_token_ok_def)
    then have "len - 1 \<in> {nat (jt_start t)..<nat (jt_end t)}" using assms(3) by (auto simp: doc_ok_def)
    then have "\<not> primitive_end (doc ! (len - 1))" using p by (simp add: primitive_token_ok_def)
    then show False using assms(3) by (simp add: doc_ok_def primitive_end_def)
  qed
qed

lemma compare_length_eq:
  assumes "token_ok doc len (Suc len) t" and "\<not> is_open t" and "doc_ok doc len" and "key_ok key"
  shows "nat (compare_length key t) = max (length (token_text doc t)) (length key)"
proof -
  note s = token_span [OF assms(1-3)]
  have "uint16 (jt_end t) = jt_end t" "uint16 (jt_start t) = jt_start t" "uint16 (int (length key)) = int (length key)"
    using s assms(3,4) by (auto simp: uint16_def doc_ok_def key_ok_def)
  moreover have "length (token_text doc t) = nat (jt_end t - jt_start t)"
    using s assms(3) by (auto simp: token_text_def doc_ok_def)
  ultimately show ?thesis using s assms(3,4) by (auto simp: compare_length_def uint16_def doc_ok_def key_ok_def max_def)
qed

lemma compare_token:
  assumes "token_ok doc len (Suc len) t" and "\<not> is_open t" and "doc_ok doc len" and "key_ok key"
  shows "strncmp_eq (key @ [0]) (drop (nat (jt_start t)) doc) (nat (compare_length key t)) = Some (token_text doc t = key)"
proof -
  let ?a = "nat (jt_start t)" and ?b = "nat (jt_end t)" and ?x = "token_text doc t"
  note s = token_span [OF assms(1-3)]
  have k: "\<forall>c\<in>set key. letter c" "key \<noteq> []" using assms(4) by (auto simp: key_ok_def list_all_iff)
  have len: "?b \<le> length doc" using s(3) assms(3) by (auto simp: doc_ok_def)
  have d: "drop ?a doc = ?x @ drop ?b doc" using s len unfolding token_text_def by (metis add_diff_inverse_nat append_take_drop_id drop_drop le_add_diff_inverse2 nat_mono not_less add.commute)
  have x: "0 \<notin> set ?x" if "\<forall>i\<in>{?a..<?b}. doc ! i \<noteq> 0"
    using that len s by (auto simp: token_text_def in_set_conv_nth)
  show ?thesis
  proof (cases "jt_type t = JSMN_OBJECT \<or> jt_type t = JSMN_ARRAY")
    case True
    then have "doc ! ?a \<in> {chLBrace, chLBracket}" "?a < ?b"
      using assms(1,2) by (auto simp: token_ok_def container_ok_def is_open_def)
    moreover from this obtain rest where "drop ?a doc = doc ! ?a # rest" using len by (metis Cons_nth_drop_Suc less_le_trans)
    moreover obtain c cs where key: "key = c # cs" using k(2) by (cases key) auto
    moreover have "?x \<noteq> key"
    proof
      assume "?x = key"
      then have "c = doc ! ?a" using \<open>?a < ?b\<close> \<open>drop ?a doc = doc ! ?a # rest\<close> key by (simp add: token_text_def take_Cons')
      then show False using k(1) key letter_facts(4,5) [of c] \<open>doc ! ?a \<in> _\<close> by auto
    qed
    moreover have "c \<noteq> doc ! ?a" using k(1) key letter_facts(4,5) [of c] \<open>doc ! ?a \<in> _\<close> by auto
    ultimately show ?thesis using strncmp_first [of c "doc ! ?a"] compare_length_eq [OF assms] by simp
  next
    case False
    then have ty: "jt_type t = JSMN_STRING \<or> jt_type t = JSMN_PRIMITIVE" using assms(1) by (cases "jt_type t") (auto simp: token_ok_def)
    have b: "?b < length doc \<and> doc ! ?b \<notin> set key \<and> (\<forall>i\<in>{?a..<?b}. doc ! i \<noteq> 0)"
    proof (cases "jt_type t = JSMN_STRING")
      case True
      then have "string_token_ok doc len t" using assms(1) by (simp add: token_ok_def)
      then show ?thesis using assms(3) k(1) letter_facts(2) by (auto simp: string_token_ok_def doc_ok_def)
    next
      case False
      then have "jt_type t = JSMN_PRIMITIVE" using ty by simp
      moreover from this have "primitive_token_ok doc len t" using assms(1) by (simp add: token_ok_def)
      ultimately show ?thesis using s(4) assms(3) k(1) letter_facts(1,3) by (auto simp: primitive_token_ok_def doc_ok_def)
    qed
    then have b: "?b < length doc" "doc ! ?b \<notin> set key" "0 \<notin> set ?x" using x by blast+
    then have "drop ?a doc = ?x @ doc ! ?b # drop (Suc ?b) doc" using d by (simp add: Cons_nth_drop_Suc)
    then show ?thesis
      using strncmp_text [of key ?x "doc ! ?b" "drop (Suc ?b) doc"] b k(1) letter_facts(1) compare_length_eq [OF assms] by auto
  qed
qed

text \<open>The last token whose text is the key and which has one child.\<close>

definition key_index :: "u8 list \<Rightarrow> u8 list \<Rightarrow> jsmntok_t list \<Rightarrow> nat \<Rightarrow> nat option" where
  "key_index key doc ts k = find (\<lambda>i. token_text doc (ts ! i) = key \<and> jt_size (ts ! i) = 1) (rev [0..<k])"

lemma value_loop_exact:
  assumes "tokens_ok doc len m ts" and "doc_ok doc len" and "key_ok key"
  shows "k \<le> m \<Longrightarrow> value_loop key doc ts k =
    Some (map_option (\<lambda>i. (nat (jt_start (ts ! Suc i)), int (length (token_text doc (ts ! Suc i))))) (key_index key doc ts k))"
proof (induction k)
  case (Suc k)
  have t: "token_ok doc len (Suc len) (ts ! k)" "\<not> is_open (ts ! k)" "link_ok m k (ts ! k)" using assms(1) Suc.prems by (auto simp: tokens_ok_def)
  have n: "Suc k < length ts" "uint16 (uint16 (jt_end (ts ! Suc k)) - uint16 (jt_start (ts ! Suc k))) = int (length (token_text doc (ts ! Suc k)))"
    if "jt_size (ts ! k) = 1"
  proof -
    have k: "Suc k < m" using that t(3) by (simp add: link_ok_def)
    then show "Suc k < length ts" using assms(1) by (simp add: tokens_ok_def)
    have "token_ok doc len (Suc len) (ts ! Suc k)" "\<not> is_open (ts ! Suc k)" using k assms(1) by (auto simp: tokens_ok_def)
    note s = token_span [OF this assms(2)]
    show "uint16 (uint16 (jt_end (ts ! Suc k)) - uint16 (jt_start (ts ! Suc k))) = int (length (token_text doc (ts ! Suc k)))"
      using s assms(2) by (auto simp: uint16_def doc_ok_def token_text_def)
  qed
  show ?case using Suc compare_token [OF t(1,2) assms(2,3)] n by (auto simp: key_index_def)
qed (simp add: key_index_def)

text \<open>Parsing a document with the array of the shadow client.\<close>

lemma doc_ok_length: "doc_ok doc len \<Longrightarrow> len \<le> length doc"
  by (simp add: doc_ok_def)

lemma parse_json:
  assumes "shadowconfigJSON_JSMN_TOKENS \<le> length ts" and "len \<le> length doc"
  obtains r ts' where "prvParseJSON doc len ts = Some (r, ts')" "shadowconfigJSON_JSMN_TOKENS \<le> length ts'"
    "0 < r \<Longrightarrow> tokens_ok doc len (nat r) ts'"
proof -
  obtain r s where p: "jsmn_parse (jsmn_init ts) doc len shadowconfigJSON_JSMN_TOKENS = Some (r, s)"
    "jp_toknext s \<le> shadowconfigJSON_JSMN_TOKENS" "shadowconfigJSON_JSMN_TOKENS \<le> length (jp_tokens s)"
    "\<forall>m. r = Inr m \<longrightarrow> m = jp_toknext s \<and> tokens_ok doc len m (jp_tokens s)"
    using jsmn_parse_tokens [of shadowconfigJSON_JSMN_TOKENS ts len doc] assms by auto
  have i: "int16 (int m) = int m" if "m \<le> 64" for m using that by (simp add: int16_def signed_take_bit_int_eq_self)
  show thesis
  proof (rule that)
    show "prvParseJSON doc len ts = Some (int16 (jsmn_code r), jp_tokens s)" by (simp add: prvParseJSON_def p(1))
    show "shadowconfigJSON_JSMN_TOKENS \<le> length (jp_tokens s)" by (rule p(3))
    assume "0 < int16 (jsmn_code r)"
    then obtain m where m: "r = Inr m"
      by (cases r) (auto simp: jsmn_code_def int16_def split: jsmnerr.splits)
    then show "tokens_ok doc len (nat (int16 (jsmn_code r))) (jp_tokens s)"
      using p(2,4) i [of m] by (auto simp: jsmn_code_def shadowconfigJSON_JSMN_TOKENS_def)
  qed
qed

lemma strncmp_same_length:
  "length x = length y \<Longrightarrow> 0 \<notin> set x \<Longrightarrow> strncmp_eq (x @ a) (y @ b) (length x) = Some (x = y)"
  by (induction x y rule: list_induct2) auto

lemma drop_token:
  assumes "token_ok doc len (Suc len) t" and "\<not> is_open t" and "doc_ok doc len"
  shows "drop (nat (jt_start t)) doc = token_text doc t @ drop (nat (jt_end t)) doc" "set (token_text doc t) \<subseteq> set (take len doc)"
proof -
  note s = token_span [OF assms]
  show "drop (nat (jt_start t)) doc = token_text doc t @ drop (nat (jt_end t)) doc"
    using append_take_drop_id [of "nat (jt_end t) - nat (jt_start t)" "drop (nat (jt_start t)) doc"] s by (simp add: token_text_def)
  have "token_text doc t = drop (nat (jt_start t)) (take (nat (jt_end t)) doc)" by (simp add: token_text_def drop_take)
  also have "set \<dots> \<subseteq> set (take (nat (jt_end t)) doc)" by (rule set_drop_subset)
  also have "\<dots> \<subseteq> set (take len doc)" using s(3) by (rule set_take_subset_set_take)
  finally show "set (token_text doc t) \<subseteq> set (take len doc)" .
qed

section \<open>Properties\<close>

text \<open>
  C34. On the tokens of a complete document that is shorter than 64 KB, lies in memory as far as its
  length says and has a closing brace as its last byte (\<open>doc_ok\<close>), and for a non-empty key of letters
  (\<open>key_ok\<close>), \<open>prvGetJSONValue\<close> reads nothing outside the document and the tokens, and returns offset and
  length of the text of the token after the last one whose text is the key and which has one
  child, or length 0 if there is no such token. Without the closing brace the search can
  read past the end, see \<open>search_reads_past_end\<close>.
\<close>

theorem json_value_exact:
  assumes "tokens_ok doc len m ts" and "doc_ok doc len" and "key_ok key"
  shows "prvGetJSONValue key doc ts (int m) = Some (case key_index key doc ts m of
     None \<Rightarrow> (0, None)
   | Some i \<Rightarrow> (int (length (token_text doc (ts ! Suc i))), Some (nat (jt_start (ts ! Suc i)))))"
  using value_loop_exact [OF assms, of m] by (simp add: prvGetJSONValue_def split: option.split)

text \<open>The value of a key in a document, by the tokens.\<close>

definition json_value :: "u8 list \<Rightarrow> u8 list \<Rightarrow> int \<times> jsmntok_t list \<Rightarrow> u8 list option" where
  "json_value key doc p = (if fst p > 0 then map_option (\<lambda>i. token_text doc (snd p ! Suc i)) (key_index key doc (snd p) (nat (fst p))) else None)"

lemma get_value:
  assumes "tokens_ok doc len (nat r) ts" and "0 < r" and "doc_ok doc len" and "key_ok key"
  obtains "json_value key doc (r, ts) = None" "prvGetJSONValue key doc ts r = Some (0, None)"
  | i where "json_value key doc (r, ts) = Some (token_text doc (ts ! Suc i))" "Suc i < nat r"
      "prvGetJSONValue key doc ts r = Some (int (length (token_text doc (ts ! Suc i))), Some (nat (jt_start (ts ! Suc i))))"
      "token_ok doc len (Suc len) (ts ! Suc i)" "\<not> is_open (ts ! Suc i)"
proof -
  have v: "value_loop key doc ts (nat r) =
      Some (map_option (\<lambda>i. (nat (jt_start (ts ! Suc i)), int (length (token_text doc (ts ! Suc i))))) (key_index key doc ts (nat r)))"
    by (rule value_loop_exact [OF assms(1,3,4) order_refl])
  show thesis
  proof (cases "key_index key doc ts (nat r)")
    case None
    then show ?thesis using that(1) v assms(2) by (simp add: json_value_def prvGetJSONValue_def)
  next
    case (Some i)
    then have "i < nat r" "jt_size (ts ! i) = 1" by (auto simp: key_index_def find_Some_iff rev_nth)
    then have "Suc i < nat r" using assms(1) by (force simp: tokens_ok_def link_ok_def)
    moreover from this have "token_ok doc len (Suc len) (ts ! Suc i)" "\<not> is_open (ts ! Suc i)" using assms(1) by (auto simp: tokens_ok_def)
    ultimately show ?thesis using that(2) [of i] v Some assms(2) by (simp add: json_value_def prvGetJSONValue_def)
  qed
qed

lemma keys_ok: "key_ok shadowJSON_CLIENT_TOKEN" "key_ok shadowJSON_ERROR_CODE" "key_ok shadowJSON_ERROR_MESSAGE"
  by (simp_all add: key_ok_def letter_def shadowJSON_CLIENT_TOKEN_def shadowJSON_ERROR_CODE_def shadowJSON_ERROR_MESSAGE_def)

text \<open>
  C35. \<open>SHADOW_JSONDocClientTokenMatch\<close> on two documents that are shorter than 64 KB, lie in memory as far as
  their lengths say and have a closing brace as their last byte (\<open>doc_ok\<close>), the first of them
  without a zero byte, reads nothing out of bounds and succeeds exactly if both documents are
  complete and the value of \<open>clientToken\<close> is there, not empty, and the same in both. In all other
  cases its result is \<open>pdFAIL\<close>; that includes a document the tokeniser rejects, for which the
  comment in \<open>aws_shadow_json.h\<close> documents an error code of the tokeniser instead.
\<close>

theorem client_token_match:
  assumes "shadowconfigJSON_JSMN_TOKENS \<le> length ts" and "doc_ok doc1 len1" and "doc_ok doc2 len2" and "0 \<notin> set (take len1 doc1)"
  shows "\<exists>p1 p2. prvParseJSON doc1 len1 ts = Some p1 \<and> prvParseJSON doc2 len2 (snd p1) = Some p2 \<and>
    SHADOW_JSONDocClientTokenMatch ts doc1 len1 doc2 len2 =
      Some (\<exists>v. v \<noteq> [] \<and> json_value shadowJSON_CLIENT_TOKEN doc1 p1 = Some v \<and> json_value shadowJSON_CLIENT_TOKEN doc2 p2 = Some v) \<and>
    (fst p1 < 0 \<or> fst p2 < 0 \<longrightarrow> SHADOW_JSONDocClientTokenMatch ts doc1 len1 doc2 len2 = Some False)"
proof -
  let ?k = shadowJSON_CLIENT_TOKEN
  obtain r1 t1 where p1: "prvParseJSON doc1 len1 ts = Some (r1, t1)" "shadowconfigJSON_JSMN_TOKENS \<le> length t1"
    "0 < r1 \<Longrightarrow> tokens_ok doc1 len1 (nat r1) t1" using parse_json [OF assms(1) doc_ok_length [OF assms(2)]] by metis
  obtain r2 t2 where p2: "prvParseJSON doc2 len2 t1 = Some (r2, t2)" "0 < r2 \<Longrightarrow> tokens_ok doc2 len2 (nat r2) t2"
    using parse_json [OF p1(2) doc_ok_length [OF assms(3)]] by metis
  have "SHADOW_JSONDocClientTokenMatch ts doc1 len1 doc2 len2 =
      Some (\<exists>v. v \<noteq> [] \<and> json_value ?k doc1 (r1, t1) = Some v \<and> json_value ?k doc2 (r2, t2) = Some v)"
  proof (cases "0 < r1 \<and> 0 < r2")
    case True
    show ?thesis
    proof (rule get_value [OF p1(3) _ assms(2) keys_ok(1)])
      fix i
      assume v1: "json_value ?k doc1 (r1, t1) = Some (token_text doc1 (t1 ! Suc i))"
        "prvGetJSONValue ?k doc1 t1 r1 = Some (int (length (token_text doc1 (t1 ! Suc i))), Some (nat (jt_start (t1 ! Suc i))))"
        "token_ok doc1 len1 (Suc len1) (t1 ! Suc i)" "\<not> is_open (t1 ! Suc i)"
      note d1 = drop_token [OF v1(3,4) assms(2)]
      have z: "0 \<notin> set (token_text doc1 (t1 ! Suc i))" using d1(2) assms(4) by blast
      show ?thesis
      proof (rule get_value [OF p2(2) _ assms(3) keys_ok(1)])
        fix j
        assume v2: "json_value ?k doc2 (r2, t2) = Some (token_text doc2 (t2 ! Suc j))"
          "prvGetJSONValue ?k doc2 t2 r2 = Some (int (length (token_text doc2 (t2 ! Suc j))), Some (nat (jt_start (t2 ! Suc j))))"
          "token_ok doc2 len2 (Suc len2) (t2 ! Suc j)" "\<not> is_open (t2 ! Suc j)"
        note d2 = drop_token(1) [OF v2(3,4) assms(3)]
        let ?x = "token_text doc1 (t1 ! Suc i)" and ?y = "token_text doc2 (t2 ! Suc j)"
        have "strncmp_eq (drop (nat (jt_start (t1 ! Suc i))) doc1) (drop (nat (jt_start (t2 ! Suc j))) doc2) (length ?x) = Some (?y = ?x)"
          if "length ?y = length ?x"
          using strncmp_same_length [OF that [symmetric] z] unfolding d1(1) d2 by auto
        then show ?thesis using True p1(1) p2(1) v1(1,2) v2(1,2) by (auto simp: SHADOW_JSONDocClientTokenMatch_def)
      qed (use True p1(1) p2(1) v1(1,2) in \<open>auto simp: SHADOW_JSONDocClientTokenMatch_def\<close>)
    qed (use True p1(1) in \<open>auto simp: SHADOW_JSONDocClientTokenMatch_def\<close>)
  next
    case False
    show ?thesis
    proof (cases "0 < r1")
      case r1: True
      show ?thesis
        by (rule get_value [OF p1(3) r1 assms(2) keys_ok(1)])
          (use False r1 p1(1) p2(1) in \<open>auto simp: SHADOW_JSONDocClientTokenMatch_def json_value_def\<close>)
    qed (use p1(1) in \<open>auto simp: SHADOW_JSONDocClientTokenMatch_def json_value_def\<close>)
  qed
  then show ?thesis using p1(1) p2(1) by (auto simp: json_value_def)
qed

definition example_token_doc :: "u8 list" where
  "example_token_doc = [123, 34, 99, 108, 105, 101, 110, 116, 84, 111, 107, 101, 110, 34, 58, 34, 120, 49, 34, 125]"

lemma example_token_doc_ok: "doc_ok example_token_doc 20" "0 \<notin> set (take 20 example_token_doc)"
  by (simp_all add: doc_ok_def example_token_doc_def)

theorem client_token_match_witness:
  "SHADOW_JSONDocClientTokenMatch (replicate 64 blank_token) example_token_doc 20 example_token_doc 20 = Some True \<and>
   (\<exists>v p. v \<noteq> [] \<and> json_value shadowJSON_CLIENT_TOKEN example_token_doc p = Some v)"
proof
  show m: "SHADOW_JSONDocClientTokenMatch (replicate 64 blank_token) example_token_doc 20 example_token_doc 20 = Some True"
    by code_simp
  show "\<exists>v p. v \<noteq> [] \<and> json_value shadowJSON_CLIENT_TOKEN example_token_doc p = Some v"
    using client_token_match [of "replicate 64 blank_token", OF _ example_token_doc_ok(1) example_token_doc_ok(1,2)] m
    by (auto simp: shadowconfigJSON_JSMN_TOKENS_def)
qed

theorem json_value_exact_witness:
  "\<exists>ts. tokens_ok example_token_doc 20 3 ts \<and> prvGetJSONValue shadowJSON_CLIENT_TOKEN example_token_doc ts 3 = Some (2, Some 16)"
proof -
  obtain r ts where p: "prvParseJSON example_token_doc 20 (replicate 64 blank_token) = Some (r, ts)"
    "0 < r \<Longrightarrow> tokens_ok example_token_doc 20 (nat r) ts"
    using parse_json [OF _ doc_ok_length [OF example_token_doc_ok(1)], of "replicate 64 blank_token"]
    by (metis length_replicate order_refl shadowconfigJSON_JSMN_TOKENS_def)
  have e: "map_option (\<lambda>(r, ts). (r, key_index shadowJSON_CLIENT_TOKEN example_token_doc ts 3, jt_start (ts ! 2), jt_end (ts ! 2)))
      (prvParseJSON example_token_doc 20 (replicate 64 blank_token)) = Some (3, Some 1, 16, 18)"
    by code_simp
  then have r: "r = 3" "key_index shadowJSON_CLIENT_TOKEN example_token_doc ts 3 = Some 1" "jt_start (ts ! 2) = 16" "jt_end (ts ! 2) = 18"
    using p(1) by auto
  then have t: "tokens_ok example_token_doc 20 3 ts" using p(2) by simp
  have "length (token_text example_token_doc (ts ! 2)) = 2" using r by (simp add: token_text_def example_token_doc_def)
  then show ?thesis
    using json_value_exact [OF t example_token_doc_ok(1) keys_ok(1)] t r by (auto simp: numeral_2_eq_2)
qed

section \<open>Error documents\<close>

definition is_digit :: "u8 \<Rightarrow> bool" where
  "is_digit c \<longleftrightarrow> 48 \<le> c \<and> c \<le> 57"

definition decimal :: "u8 list \<Rightarrow> nat" where
  "decimal v = foldl (\<lambda>n c. n * 10 + digit_value c) 0 v"

lemma digit_facts:
  "is_digit c \<Longrightarrow> digit_value c < 10" "is_digit c \<Longrightarrow> c \<noteq> chLBrace \<and> c \<noteq> chLBracket \<and> c \<noteq> 32 \<and> \<not> c \<le> 13 \<and> c \<noteq> 45 \<and> c \<noteq> 43"
  by (auto simp: is_digit_def digit_value_def Let_def word_le_nat_alt)

lemma not_digit: "c = chQuote \<or> c = 0 \<or> primitive_end c \<Longrightarrow> \<not> digit_value c < 10"
  by (auto simp: digit_value_def primitive_end_def is_blank_def)

lemma read_digits_decimal:
  "list_all is_digit v \<Longrightarrow> \<not> digit_value c < 10 \<Longrightarrow> read_digits 10 n (v @ c # rest) = Some (foldl (\<lambda>n c. n * 10 + digit_value c) n v)"
  by (induction v arbitrary: n) (auto dest: digit_facts(1))

lemma strtol_decimal:
  assumes "list_all is_digit v" and "v \<noteq> []" and "hd v \<noteq> 48" and "\<not> digit_value c < 10" and "decimal v < 2 ^ 31"
  shows "strtol (v @ c # rest) = Some (int (decimal v))"
proof -
  obtain d ds where v: "v = d # ds" using assms(2) by (cases v) auto
  have d: "is_digit d" "d \<noteq> 48" using assms(1,3) v by auto
  have "skip_spaces (v @ c # rest) = v @ c # rest" using digit_facts(2) [OF d(1)] v by simp
  moreover have "read_number (v @ c # rest) = Some (decimal v)"
    using read_digits_decimal [OF assms(1,4), of 0 rest] d(2) v by (simp add: read_number_def decimal_def)
  ultimately show ?thesis using digit_facts(2) [OF d(1)] v assms(5) by (simp add: strtol_def)
qed

text \<open>What follows a token that is not an object or array.\<close>

lemma after_scalar:
  assumes "token_ok doc len (Suc len) t" and "\<not> is_open t" and "doc_ok doc len" and "list_all is_digit (token_text doc t)"
    and "token_text doc t \<noteq> []"
  obtains c rest where "drop (nat (jt_start t)) doc = token_text doc t @ c # rest" "\<not> digit_value c < 10"
proof -
  note s = token_span [OF assms(1-3)] and d = drop_token(1) [OF assms(1-3)]
  have len: "len \<le> length doc" using assms(3) by (simp add: doc_ok_def)
  have "nat (jt_start t) < nat (jt_end t)" "nat (jt_start t) < length doc" using assms(5) by (auto simp: token_text_def)
  then have "hd (token_text doc t) = doc ! nat (jt_start t)"
    by (simp add: token_text_def hd_take hd_drop_conv_nth del: zless_nat_conj)
  then have first: "is_digit (doc ! nat (jt_start t))" using assms(4,5) by (cases "token_text doc t") auto
  have b: "nat (jt_end t) < len \<and> (doc ! nat (jt_end t) = chQuote \<or> doc ! nat (jt_end t) = 0 \<or> primitive_end (doc ! nat (jt_end t)))"
  proof (cases "jt_type t")
    case JSMN_PRIMITIVE
    then show ?thesis using s(4) assms(1) by (auto simp: token_ok_def primitive_token_ok_def)
  next
    case JSMN_STRING
    then show ?thesis using assms(1) by (simp add: token_ok_def string_token_ok_def)
  next
    case JSMN_UNDEFINED
    then show ?thesis using assms(1) by (simp add: token_ok_def)
  next
    case JSMN_OBJECT
    then show ?thesis using first assms(1) digit_facts(2) by (auto simp: token_ok_def container_ok_def)
  next
    case JSMN_ARRAY
    then show ?thesis using first assms(1) digit_facts(2) by (auto simp: token_ok_def container_ok_def)
  qed
  then show thesis
    using that [of "doc ! nat (jt_end t)" "drop (Suc (nat (jt_end t))) doc"] d not_digit len by (simp add: Cons_nth_drop_Suc)
qed

text \<open>
  \<open>SHADOW_JSONGetErrorCodeAndMessage\<close> on a regular document reads nothing out of bounds. It
  returns the error of the tokeniser if the document is not complete, 0 if there is no
  \<open>code\<close>, and the number if the value of \<open>code\<close> is a decimal number below 32768 without leading
  zeros (\<open>strtol\<close> would read it as octal); then the message is, if it is asked for, the
  value of \<open>message\<close>.
\<close>

theorem error_code_and_message:
  assumes "shadowconfigJSON_JSMN_TOKENS \<le> length ts" and "doc_ok doc len" and "prvParseJSON doc len ts = Some (r, ts')"
  shows "(r \<le> 0 \<longrightarrow> SHADOW_JSONGetErrorCodeAndMessage ts doc len want = Some (r, None)) \<and>
    (0 < r \<longrightarrow> json_value shadowJSON_ERROR_CODE doc (r, ts') = None \<longrightarrow> SHADOW_JSONGetErrorCodeAndMessage ts doc len want = Some (0, None)) \<and>
    (\<forall>v. json_value shadowJSON_ERROR_CODE doc (r, ts') = Some v \<longrightarrow> v \<noteq> [] \<longrightarrow> list_all is_digit v \<longrightarrow> hd v \<noteq> 48 \<longrightarrow>
       length v < 32768 \<longrightarrow> decimal v < 32768 \<longrightarrow>
       SHADOW_JSONGetErrorCodeAndMessage ts doc len want =
         Some (int (decimal v), if want then prvGetJSONValue shadowJSON_ERROR_MESSAGE doc ts' r else None))"
proof (cases "0 < r")
  case False
  then show ?thesis using assms(3) by (simp add: SHADOW_JSONGetErrorCodeAndMessage_def json_value_def)
next
  case True
  have ok: "tokens_ok doc len (nat r) ts'" using parse_json [OF assms(1) doc_ok_length [OF assms(2)]] assms(3) True by (metis option.inject prod.inject)
  have i16: "int16 (int n) = int n" if "n < 32768" for n using that by (simp add: int16_def signed_take_bit_int_eq_self)
  obtain m where msg: "prvGetJSONValue shadowJSON_ERROR_MESSAGE doc ts' r = Some m"
    using get_value [OF ok True assms(2) keys_ok(3)] by metis
  show ?thesis
  proof (rule get_value [OF ok True assms(2) keys_ok(2)])
    assume "json_value shadowJSON_ERROR_CODE doc (r, ts') = None" "prvGetJSONValue shadowJSON_ERROR_CODE doc ts' r = Some (0, None)"
    then show ?thesis using True assms(3) i16 [of 0] by (simp add: SHADOW_JSONGetErrorCodeAndMessage_def)
  next
    fix i
    let ?v = "token_text doc (ts' ! Suc i)"
    assume c: "json_value shadowJSON_ERROR_CODE doc (r, ts') = Some ?v"
      "prvGetJSONValue shadowJSON_ERROR_CODE doc ts' r = Some (int (length ?v), Some (nat (jt_start (ts' ! Suc i))))"
      "token_ok doc len (Suc len) (ts' ! Suc i)" "\<not> is_open (ts' ! Suc i)"
    have "SHADOW_JSONGetErrorCodeAndMessage ts doc len want = Some (int (decimal ?v), if want then Some m else None)"
      if v: "?v \<noteq> []" "list_all is_digit ?v" "hd ?v \<noteq> 48" "length ?v < 32768" "decimal ?v < 32768"
    proof -
      obtain x rest where d: "drop (nat (jt_start (ts' ! Suc i))) doc = ?v @ x # rest" "\<not> digit_value x < 10"
        by (rule after_scalar [OF c(3,4) assms(2) v(2,1)])
      have "strtol (drop (nat (jt_start (ts' ! Suc i))) doc) = Some (int (decimal ?v))"
        unfolding d(1) using v d(2) by (intro strtol_decimal) simp_all
      then show ?thesis
        using True assms(3) c(2) msg v i16 by (simp add: SHADOW_JSONGetErrorCodeAndMessage_def Let_def)
    qed
    then show ?thesis using c(1) True msg by simp
  qed
qed

definition example_error_doc :: "u8 list" where
  "example_error_doc = [123, 34, 99, 111, 100, 101, 34, 58, 52, 48, 57, 125]"

theorem error_code_and_message_witness:
  "SHADOW_JSONGetErrorCodeAndMessage (replicate 64 blank_token) example_error_doc 12 False = Some (409, None)"
proof -
  have "doc_ok example_error_doc 12" by (simp add: doc_ok_def example_error_doc_def)
  moreover from this obtain r ts where p: "prvParseJSON example_error_doc 12 (replicate 64 blank_token) = Some (r, ts)"
    using parse_json [OF _ doc_ok_length, of "replicate 64 blank_token"] by (metis length_replicate order_refl shadowconfigJSON_JSMN_TOKENS_def)
  have e: "map_option (json_value shadowJSON_ERROR_CODE example_error_doc) (prvParseJSON example_error_doc 12 (replicate 64 blank_token)) =
      Some (Some [52, 48, 57])"
    by code_simp
  moreover have "decimal [52, 48, 57] = 409" "list_all is_digit [52, 48, 57]" by code_simp+
  ultimately show ?thesis
    using error_code_and_message [OF _ _ p, of False] e p by (simp add: shadowconfigJSON_JSMN_TOKENS_def)
qed

text \<open>
  A document that ends with a primitive makes the search read past its end: the key is compared
  with more bytes than are left.
\<close>

lemma search_reads_past_end:
  "SHADOW_JSONGetErrorCodeAndMessage (replicate 64 blank_token) [99, 111] 2 False = None"
  by code_simp

end
