(* ===== verification/ShadowTopic.thy ===== *)
theory ShadowTopic
  imports ShadowJson "HOL-Library.Monad_Syntax" "HOL-Library.Sublist"
begin

text \<open>
  Topics of the shadow service (\<open>AWS/shadow/aws_shadow.c\<close>): building a topic from a format and a
  thing name, and recognising the topics of received messages. C strings are lists of bytes
  without their terminator, a pointer to memory is the list of bytes from there on, and None
  stands for an access outside of the memory.
\<close>

section \<open>Formats\<close>

definition cstr :: "string \<Rightarrow> u8 list" where
  "cstr s = map of_char s"

definition shadowTOPIC_PREFIX :: "u8 list" where
  "shadowTOPIC_PREFIX = cstr ''$aws/things/%s/shadow/''"

definition shadowTOPIC_OPERATION_UPDATE :: "u8 list" where
  "shadowTOPIC_OPERATION_UPDATE = cstr ''update''"

definition shadowTOPIC_OPERATION_GET :: "u8 list" where
  "shadowTOPIC_OPERATION_GET = cstr ''get''"

definition shadowTOPIC_OPERATION_DELETE :: "u8 list" where
  "shadowTOPIC_OPERATION_DELETE = cstr ''delete''"

definition shadowTOPIC_SUFFIX_ACCEPTED :: "u8 list" where
  "shadowTOPIC_SUFFIX_ACCEPTED = cstr ''/accepted''"

definition shadowTOPIC_SUFFIX_REJECTED :: "u8 list" where
  "shadowTOPIC_SUFFIX_REJECTED = cstr ''/rejected''"

definition shadowTOPIC_UPDATE :: "u8 list" where
  "shadowTOPIC_UPDATE = shadowTOPIC_PREFIX @ shadowTOPIC_OPERATION_UPDATE"

definition shadowTOPIC_UPDATE_ACCEPTED :: "u8 list" where
  "shadowTOPIC_UPDATE_ACCEPTED = shadowTOPIC_UPDATE @ shadowTOPIC_SUFFIX_ACCEPTED"

definition shadowTOPIC_UPDATE_REJECTED :: "u8 list" where
  "shadowTOPIC_UPDATE_REJECTED = shadowTOPIC_UPDATE @ shadowTOPIC_SUFFIX_REJECTED"

definition shadowTOPIC_UPDATE_DOCUMENTS :: "u8 list" where
  "shadowTOPIC_UPDATE_DOCUMENTS = shadowTOPIC_UPDATE @ cstr ''/documents''"

definition shadowTOPIC_UPDATE_DELTA :: "u8 list" where
  "shadowTOPIC_UPDATE_DELTA = shadowTOPIC_UPDATE @ cstr ''/delta''"

definition shadowTOPIC_GET :: "u8 list" where
  "shadowTOPIC_GET = shadowTOPIC_PREFIX @ shadowTOPIC_OPERATION_GET"

definition shadowTOPIC_GET_ACCEPTED :: "u8 list" where
  "shadowTOPIC_GET_ACCEPTED = shadowTOPIC_GET @ shadowTOPIC_SUFFIX_ACCEPTED"

definition shadowTOPIC_GET_REJECTED :: "u8 list" where
  "shadowTOPIC_GET_REJECTED = shadowTOPIC_GET @ shadowTOPIC_SUFFIX_REJECTED"

definition shadowTOPIC_DELETE :: "u8 list" where
  "shadowTOPIC_DELETE = shadowTOPIC_PREFIX @ shadowTOPIC_OPERATION_DELETE"

definition shadowTOPIC_DELETE_ACCEPTED :: "u8 list" where
  "shadowTOPIC_DELETE_ACCEPTED = shadowTOPIC_DELETE @ shadowTOPIC_SUFFIX_ACCEPTED"

definition shadowTOPIC_DELETE_REJECTED :: "u8 list" where
  "shadowTOPIC_DELETE_REJECTED = shadowTOPIC_DELETE @ shadowTOPIC_SUFFIX_REJECTED"

definition configMAX_THING_NAME_LENGTH :: nat where
  "configMAX_THING_NAME_LENGTH = 128"

text \<open>\<open>sizeof\<close> of a string literal counts its terminator.\<close>

definition shadowTOPIC_BUFFER_LENGTH :: nat where
  "shadowTOPIC_BUFFER_LENGTH = configMAX_THING_NAME_LENGTH + (length shadowTOPIC_UPDATE_DOCUMENTS + 1)"

section \<open>Building a topic\<close>

definition store_byte :: "nat \<Rightarrow> u8 \<Rightarrow> u8 list \<Rightarrow> u8 list option" where
  "store_byte i c buf = (if i < length buf then Some (buf[i := c]) else None)"

fun store_bytes :: "nat \<Rightarrow> u8 list \<Rightarrow> u8 list \<Rightarrow> u8 list option" where
  "store_bytes i [] buf = Some buf"
| "store_bytes i (c # cs) buf = do { buf \<leftarrow> store_byte i c buf; store_bytes (i + 1) cs buf }"

text \<open>
  The loop over the format: the arguments are the rest of the format, the thing name, the index
  into the format, \<open>usTopicIdx\<close>, \<open>cPrevChar\<close> and the buffer.
\<close>

fun create_loop :: "u8 list \<Rightarrow> u8 list \<Rightarrow> nat \<Rightarrow> u16 \<Rightarrow> u8 \<Rightarrow> u8 list \<Rightarrow> (u16 \<times> u8 list) option" where
  "create_loop [] name i usTopicIdx cPrevChar buf = Some (usTopicIdx, buf)"
| "create_loop (c # cs) name i usTopicIdx cPrevChar buf =
     (if cPrevChar = 37 \<and> c = 115 then do {
        buf \<leftarrow> store_bytes (i - 1) name buf;
        create_loop cs name (i + 1) (usTopicIdx + (of_nat (length name) - 1)) c buf
      } else do {
        buf \<leftarrow> store_byte (unat usTopicIdx) c buf;
        create_loop cs name (i + 1) (usTopicIdx + 1) c buf
      })"

definition prvCreateTopic :: "u8 list \<Rightarrow> u16 \<Rightarrow> u8 list \<Rightarrow> u8 list \<Rightarrow> (u16 \<times> u8 list) option" where
  "prvCreateTopic pcTopicString usBufferLength pcTopicFormat pcThingName =
     (let usTopicFormatSize = of_nat (length pcTopicFormat) :: u16;
          usThingNameSize = of_nat (length pcThingName) :: u16 in
      if unat usTopicFormatSize + unat usThingNameSize \<ge> unat usBufferLength then Some (0, pcTopicString)
      else
        (let usTopicSize = usTopicFormatSize + usThingNameSize - 2 in
         do {
           (usTopicIdx, buf) \<leftarrow> create_loop (take (unat usTopicFormatSize) pcTopicFormat)
             (take (unat usThingNameSize) pcThingName) 0 0 48 pcTopicString;
           buf \<leftarrow> store_byte (unat usTopicIdx) 0 buf;
           Some (usTopicSize, buf)
         }))"

section \<open>Recognising a topic\<close>

datatype ShadowOperationName_t =
    eShadowOperationUpdate
  | eShadowOperationGet
  | eShadowOperationDelete
  | eShadowOperationUpdateDocuments
  | eShadowOperationUpdateDelta
  | eShadowOperationDeletedByAnother
  | eShadowOperationOther

text \<open>\<open>ShadowReturnCode_t\<close> is a 16-bit integer: these codes and those of the service.\<close>

definition eShadowJSMNInval :: int where "eShadowJSMNInval = -2"
definition eShadowSuccess :: int where "eShadowSuccess = 0"
definition eShadowTimeout :: int where "eShadowTimeout = 1"
definition eShadowFailure :: int where "eShadowFailure = 2"
definition eShadowUnknown :: int where "eShadowUnknown = 3"

text \<open>Function pointers are numbers, None is the null pointer.\<close>

record ShadowCallbackParams_t =
  cb_pcThingName :: "u8 list"
  xShadowUpdatedCallback :: "nat option"
  xShadowDeletedCallback :: "nat option"
  xShadowDeltaCallback :: "nat option"

record CallbackCatalogEntry_t =
  xCallbackInfo :: ShadowCallbackParams_t
  ce_xInUse :: bool

definition prvParseShadowOperationStatus :: "u8 list \<Rightarrow> u16 \<Rightarrow> int option" where
  "prvParseShadowOperationStatus pucTopic usTopicLength =
     (if unat usTopicLength < length shadowTOPIC_SUFFIX_ACCEPTED then None
      else do {
        eq \<leftarrow> strncmp_eq (drop (unat usTopicLength - length shadowTOPIC_SUFFIX_ACCEPTED) pucTopic)
                (shadowTOPIC_SUFFIX_ACCEPTED @ [0]) (length shadowTOPIC_SUFFIX_ACCEPTED);
        if eq then Some eShadowSuccess
        else do {
          eq \<leftarrow> strncmp_eq (drop (unat usTopicLength - length shadowTOPIC_SUFFIX_REJECTED) pucTopic)
                  (shadowTOPIC_SUFFIX_REJECTED @ [0]) (length shadowTOPIC_SUFFIX_REJECTED);
          Some (if eq then eShadowFailure else eShadowUnknown)
        }
      })"

text \<open>
  One comparison of the received topic: the topic is built in the buffer and compared over its
  length or the length of the received topic, if that is bigger.
\<close>

definition matches_format :: "u8 list \<Rightarrow> u8 list \<Rightarrow> u8 list \<Rightarrow> u16 \<Rightarrow> u8 list \<Rightarrow> (bool \<times> u8 list) option" where
  "matches_format fmt pcThingName pucTopic usTopicLength ucTopicBuffer = do {
     (n, ucTopicBuffer) \<leftarrow> prvCreateTopic ucTopicBuffer (of_nat shadowTOPIC_BUFFER_LENGTH) fmt pcThingName;
     eq \<leftarrow> strncmp_eq ucTopicBuffer pucTopic (max (unat n) (unat usTopicLength));
     Some (eq, ucTopicBuffer)
   }"

definition match_operation :: "u8 list \<Rightarrow> u8 list \<Rightarrow> u16 \<Rightarrow> u8 list \<Rightarrow> ShadowOperationName_t option" where
  "match_operation pcThingName pucTopic usTopicLength ucTopicBuffer = do {
     (eq, ucTopicBuffer) \<leftarrow> matches_format shadowTOPIC_UPDATE_DOCUMENTS pcThingName pucTopic usTopicLength ucTopicBuffer;
     if eq then Some eShadowOperationUpdateDocuments
     else do {
       (eq, ucTopicBuffer) \<leftarrow> matches_format shadowTOPIC_UPDATE_DELTA pcThingName pucTopic usTopicLength ucTopicBuffer;
       if eq then Some eShadowOperationUpdateDelta
       else do {
         (eq, ucTopicBuffer) \<leftarrow> matches_format shadowTOPIC_DELETE_ACCEPTED pcThingName pucTopic usTopicLength ucTopicBuffer;
         Some (if eq then eShadowOperationDeletedByAnother else eShadowOperationOther)
       }
     }
   }"

text \<open>
  The search of the catalog, from entry \<open>i\<close> on. The result is the index of the entry that was
  found and, if it is asked for, the operation. \<open>ucTopicBuffer\<close> is a local array with
  arbitrary contents at the start.
\<close>

fun match_catalog ::
  "CallbackCatalogEntry_t list \<Rightarrow> nat \<Rightarrow> u8 list \<Rightarrow> u16 \<Rightarrow> bool \<Rightarrow> u8 list \<Rightarrow> (nat \<times> ShadowOperationName_t option) option option" where
  "match_catalog [] i pucTopic usTopicLength want ucTopicBuffer = Some None"
| "match_catalog (e # es) i pucTopic usTopicLength want ucTopicBuffer =
     (if ce_xInUse e then do {
        (n, ucTopicBuffer) \<leftarrow> prvCreateTopic ucTopicBuffer (of_nat shadowTOPIC_BUFFER_LENGTH) shadowTOPIC_PREFIX (cb_pcThingName (xCallbackInfo e));
        eq \<leftarrow> strncmp_eq ucTopicBuffer pucTopic (unat n);
        if eq then
          if want then do {
            operation \<leftarrow> match_operation (cb_pcThingName (xCallbackInfo e)) pucTopic usTopicLength ucTopicBuffer;
            Some (Some (i, Some operation))
          } else Some (Some (i, None))
        else match_catalog es (i + 1) pucTopic usTopicLength want ucTopicBuffer
      } else match_catalog es (i + 1) pucTopic usTopicLength want ucTopicBuffer)"

definition prvMatchCallbackTopic ::
  "CallbackCatalogEntry_t list \<Rightarrow> u8 list \<Rightarrow> u16 \<Rightarrow> bool \<Rightarrow> u8 list \<Rightarrow> (nat \<times> ShadowOperationName_t option) option option" where
  "prvMatchCallbackTopic xCallbackCatalog pucTopic usTopicLength want ucTopicBuffer =
     match_catalog xCallbackCatalog 0 pucTopic usTopicLength want ucTopicBuffer"

section \<open>What is built\<close>

lemma store_byte_ok: "i < length buf \<Longrightarrow> store_byte i c buf = Some (blit i [c] buf)"
  by (simp add: store_byte_def blit_single)

lemma blit_Cons: "i \<le> length d \<Longrightarrow> blit (Suc i) cs (blit i [c] d) = blit i (c # cs) d"
  using blit_append [of i d "[c]" cs] by simp

lemma blit_over: "length ys \<le> length xs \<Longrightarrow> i + length ys \<le> length d \<Longrightarrow> blit i xs (blit i ys d) = blit i xs d"
  by (simp add: blit_def ac_simps)

lemma store_bytes_ok: "i + length cs \<le> length buf \<Longrightarrow> store_bytes i cs buf = Some (blit i cs buf)"
proof (induction cs arbitrary: i buf)
  case (Cons c cs)
  then show ?case by (simp add: store_byte_ok blit_Cons)
qed simp

text \<open>A piece of the format without placeholder is copied.\<close>

lemma create_loop_plain:
  assumes "37 \<notin> set cs" and "prev \<noteq> 37" and "unat t + length cs < 65536" and "unat t + length cs \<le> length buf"
  shows "create_loop (cs @ ds) name i t prev buf =
    create_loop ds name (i + length cs) (t + of_nat (length cs)) (if cs = [] then prev else last cs) (blit (unat t) cs buf)"
  using assms
proof (induction cs arbitrary: i t prev buf)
  case (Cons c cs)
  have t: "unat (t + 1) = unat t + 1" using Cons.prems(3) by (subst unat_add_lem [THEN iffD1]) auto
  have "create_loop ((c # cs) @ ds) name i t prev buf = create_loop (cs @ ds) name (i + 1) (t + 1) c (blit (unat t) [c] buf)"
    using Cons.prems by (simp add: store_byte_ok)
  also have "\<dots> = create_loop ds name (i + 1 + length cs) (t + 1 + of_nat (length cs)) (if cs = [] then c else last cs)
      (blit (unat t + 1) cs (blit (unat t) [c] buf))"
    using Cons.prems by (subst Cons.IH) (auto simp: t)
  also have "blit (unat t + 1) cs (blit (unat t) [c] buf) = blit (unat t) (c # cs) buf"
    using Cons.prems by (simp add: blit_Cons)
  finally show ?case by (simp add: algebra_simps)
qed simp

text \<open>The topic for a format with one placeholder.\<close>

definition topic_of :: "u8 list \<Rightarrow> u8 list \<Rightarrow> u8 list" where
  "topic_of fmt name = takeWhile (\<lambda>c. c \<noteq> 37) fmt @ name @ drop 2 (dropWhile (\<lambda>c. c \<noteq> 37) fmt)"

definition format_ok :: "u8 list \<Rightarrow> bool" where
  "format_ok fmt \<longleftrightarrow> (let r = dropWhile (\<lambda>c. c \<noteq> 37) fmt in 2 \<le> length r \<and> r ! 1 = 115 \<and> 37 \<notin> set (drop 2 r))"

lemma format_split:
  assumes "format_ok fmt"
  obtains a b where "fmt = a @ 37 # 115 # b" "37 \<notin> set a" "37 \<notin> set b" "topic_of fmt name = a @ name @ b"
proof -
  obtain r where r: "dropWhile (\<lambda>c. c \<noteq> 37) fmt = r" "2 \<le> length r" "r ! 1 = 115" "37 \<notin> set (drop 2 r)"
    using assms by (auto simp: format_ok_def Let_def)
  then have "hd r = 37" using hd_dropWhile [of "\<lambda>c. c \<noteq> 37" fmt] by (cases r) auto
  then obtain b where b: "r = 37 # 115 # b" using r(2,3) by (cases r; cases "tl r") auto
  show thesis
    using that [of "takeWhile (\<lambda>c. c \<noteq> 37) fmt" b] r(1,4) b takeWhile_dropWhile_id [of "\<lambda>c. c \<noteq> 37" fmt]
    by (force simp: topic_of_def dest: set_takeWhileD)
qed

lemma topic_of_length: "format_ok fmt \<Longrightarrow> length (topic_of fmt name) + 2 = length fmt + length name"
  by (erule format_split [of fmt name]) simp

lemma create_topic_ok:
  assumes fmt: "format_ok fmt" and N: "length fmt + length name < unat N" and buf: "unat N \<le> length buf"
  shows "prvCreateTopic buf N fmt name = Some (of_nat (length (topic_of fmt name)), blit 0 (topic_of fmt name @ [0]) buf)"
proof -
  obtain a b where s: "fmt = a @ 37 # 115 # b" "37 \<notin> set a" "37 \<notin> set b" "topic_of fmt name = a @ name @ b"
    using format_split [OF fmt] by metis
  have lt: "length fmt + length name < 65536" using N unat_u16_lt [of N] by simp
  then have l: "length a + length b + length name + 2 < 65536" "length a + length b + length name + 2 < length buf" using s(1) N buf by auto
  let ?a = "of_nat (length a) :: u16" and ?n = "of_nat (length name) :: u16" and ?b = "of_nat (length b) :: u16"
  let ?m = "blit (length a) (37 # []) (blit 0 a buf)"
  have un: "unat ?a = length a" "unat ?n = length name" "unat ?b = length b" using l(1) by (simp_all add: unat_of_nat_u16)
  have un2: "unat (?a + ?n) = length a + length name" "unat (?a + ?n + ?b) = length a + length name + length b"
    using l(1) by (simp_all flip: of_nat_add add: unat_of_nat_u16)
  have "create_loop fmt name 0 0 48 buf = create_loop (37 # 115 # b) name (length a) ?a (if a = [] then 48 else last a) (blit 0 a buf)"
    unfolding s(1) using s(2) l by (subst create_loop_plain) auto
  also have "\<dots> = create_loop (115 # b) name (length a + 1) (?a + 1) 37 ?m"
    using s(2) l un by (auto simp: store_byte_ok)
  also have "\<dots> = create_loop b name (length a + 2) (?a + ?n) 115 (blit (length a) name ?m)"
    using l by (simp add: store_bytes_ok)
  also have "\<dots> = Some (?a + ?n + ?b, blit (length a + length name) b (blit (length a) name ?m))"
    using create_loop_plain [of b 115 "?a + ?n" "blit (length a) name ?m" "[]" name] s(3) l un2 by simp
  finally have loop: "create_loop fmt name 0 0 48 buf = Some (?a + ?n + ?b, blit (length a + length name) b (blit (length a) name ?m))" .
  have "blit (length a + length name + length b) [0] (blit (length a + length name) b (blit (length a) name ?m)) =
      blit (length a) (name @ b @ [0]) ?m"
    using l blit_append [of "length a" ?m "name @ b" "[0]"] by (simp add: blit_append add.assoc)
  also have "\<dots> = blit (length a) (name @ b @ [0]) (blit 0 a buf)" using l by (simp add: blit_over)
  also have "\<dots> = blit 0 (topic_of fmt name @ [0]) buf"
    using blit_append [of 0 buf a "name @ b @ [0]"] by (simp add: s(4))
  finally have final: "store_byte (unat (?a + ?n + ?b)) 0 (blit (length a + length name) b (blit (length a) name ?m)) =
      Some (blit 0 (topic_of fmt name @ [0]) buf)"
    using l un2 by (subst store_byte_ok) (auto simp: ac_simps)
  have f: "unat (of_nat (length fmt) :: u16) = length fmt" "unat (of_nat (length name) :: u16) = length name"
    using lt by (simp_all add: unat_of_nat_u16)
  have "of_nat (length fmt) + of_nat (length name) - 2 = (of_nat (length (topic_of fmt name)) :: u16)"
    unfolding s(4) by (simp add: s(1) algebra_simps)
  then show ?thesis using N final by (simp add: prvCreateTopic_def Let_def f loop)
qed

lemma create_topic_too_long:
  assumes "length fmt < 65536" and "length name < 65536" and "unat N \<le> length fmt + length name"
  shows "prvCreateTopic buf N fmt name = Some (0, buf)"
  using assms by (simp add: prvCreateTopic_def Let_def unat_of_nat_u16)

text \<open>The formats of the shadow client, and their topics.\<close>

lemmas topic_format_defs = shadowTOPIC_PREFIX_def shadowTOPIC_UPDATE_def shadowTOPIC_GET_def shadowTOPIC_DELETE_def
  shadowTOPIC_UPDATE_ACCEPTED_def shadowTOPIC_UPDATE_REJECTED_def shadowTOPIC_UPDATE_DOCUMENTS_def shadowTOPIC_UPDATE_DELTA_def
  shadowTOPIC_GET_ACCEPTED_def shadowTOPIC_GET_REJECTED_def shadowTOPIC_DELETE_ACCEPTED_def shadowTOPIC_DELETE_REJECTED_def
  shadowTOPIC_OPERATION_UPDATE_def shadowTOPIC_OPERATION_GET_def shadowTOPIC_OPERATION_DELETE_def
  shadowTOPIC_SUFFIX_ACCEPTED_def shadowTOPIC_SUFFIX_REJECTED_def

definition shadow_formats :: "u8 list set" where
  "shadow_formats = {shadowTOPIC_PREFIX, shadowTOPIC_UPDATE, shadowTOPIC_GET, shadowTOPIC_DELETE, shadowTOPIC_UPDATE_ACCEPTED,
     shadowTOPIC_UPDATE_REJECTED, shadowTOPIC_UPDATE_DOCUMENTS, shadowTOPIC_UPDATE_DELTA, shadowTOPIC_GET_ACCEPTED,
     shadowTOPIC_GET_REJECTED, shadowTOPIC_DELETE_ACCEPTED, shadowTOPIC_DELETE_REJECTED}"

lemma buffer_length [simp]: "shadowTOPIC_BUFFER_LENGTH = 167"
  by code_simp

lemma formats_ok: "\<forall>fmt\<in>shadow_formats. format_ok fmt \<and> length fmt \<le> 38"
  unfolding shadow_formats_def by code_simp

lemma formats_prefix: "\<forall>fmt\<in>shadow_formats. 0 \<notin> set fmt \<and> take (length shadowTOPIC_PREFIX) fmt = shadowTOPIC_PREFIX"
  unfolding shadow_formats_def by code_simp

lemma format_suffix:
  assumes "fmt \<in> shadow_formats"
  obtains s where "fmt = shadowTOPIC_PREFIX @ s" "0 \<notin> set s"
proof -
  have p: "0 \<notin> set fmt" "take (length shadowTOPIC_PREFIX) fmt = shadowTOPIC_PREFIX" using formats_prefix assms by auto
  then have "fmt = shadowTOPIC_PREFIX @ drop (length shadowTOPIC_PREFIX) fmt" by (metis append_take_drop_id)
  moreover have "0 \<notin> set (drop (length shadowTOPIC_PREFIX) fmt)" using p(1) by (meson in_set_dropD)
  ultimately show thesis using that by blast
qed

lemma topic_of_append: "topic_of (shadowTOPIC_PREFIX @ s) name = cstr ''$aws/things/'' @ name @ cstr ''/shadow/'' @ s"
  by (simp add: topic_of_def shadowTOPIC_PREFIX_def cstr_def)
text \<open>
  \<open>prvCreateTopic\<close> builds the topics of the shadow service: for every format of the client and
  every thing name of at most 128 bytes it fills the buffer, without leaving it, with
  \<open>$aws/things/\<close>, the name, \<open>/shadow/\<close> and the name of the operation, ends the string
  with a null byte, and returns its length. A name that does not fit leaves the buffer
  alone and gives the length 0.
\<close>

theorem create_topic_exact:
  assumes "fmt \<in> shadow_formats" and "length buf = shadowTOPIC_BUFFER_LENGTH" and "length name < 65536"
  shows "\<exists>suffix. fmt = shadowTOPIC_PREFIX @ suffix \<and>
    prvCreateTopic buf (of_nat shadowTOPIC_BUFFER_LENGTH) fmt name =
      (let topic = cstr ''$aws/things/'' @ name @ cstr ''/shadow/'' @ suffix in
       if length fmt + length name < shadowTOPIC_BUFFER_LENGTH
       then Some (of_nat (length topic), topic @ 0 # drop (length topic + 1) buf) else Some (0, buf)) \<and>
    (length name \<le> configMAX_THING_NAME_LENGTH \<longrightarrow> length fmt + length name < shadowTOPIC_BUFFER_LENGTH)"
proof -
  have f: "format_ok fmt" "length fmt \<le> 38" using formats_ok assms(1) by auto
  obtain s where s: "fmt = shadowTOPIC_PREFIX @ s" using format_suffix [OF assms(1)] by blast
  have "prvCreateTopic buf (of_nat 167) fmt name = Some (of_nat (length (topic_of fmt name)), topic_of fmt name @ 0 # drop (length (topic_of fmt name) + 1) buf)"
    if "length fmt + length name < 167"
    using create_topic_ok [OF f(1), of name "of_nat 167" buf] assms(2) that by (simp add: unat_of_nat_u16 blit_def)
  moreover have "prvCreateTopic buf (of_nat 167) fmt name = Some (0, buf)" if "\<not> length fmt + length name < 167"
    using create_topic_too_long [of fmt name "of_nat 167" buf] f(2) assms(3) that by (simp add: unat_of_nat_u16)
  ultimately show ?thesis using s f(2) topic_of_append [of s name] by (auto simp: Let_def configMAX_THING_NAME_LENGTH_def)
qed

theorem create_topic_exact_witness:
  "map_option fst (prvCreateTopic (replicate 167 0) 167 shadowTOPIC_UPDATE [116, 49]) = Some 28"
proof -
  have "shadowTOPIC_UPDATE \<in> shadow_formats" by (simp add: shadow_formats_def)
  then show ?thesis
    using create_topic_exact [of shadowTOPIC_UPDATE "replicate 167 0" "[116, 49]"]
    by (auto simp: Let_def configMAX_THING_NAME_LENGTH_def cstr_def topic_format_defs)
qed

section \<open>What is recognised\<close>

lemma strncmp_topic:
  assumes "0 \<notin> set s" and "length s < length mem" and "length s \<le> n"
  shows "strncmp_eq (s @ 0 # r) mem n = Some (take (length s) mem = s \<and> (n = length s \<or> mem ! length s = 0))"
  using assms
proof (induction s arbitrary: mem n)
  case Nil
  then show ?case by (cases mem; cases n) auto
next
  case (Cons c s)
  obtain y m k where "mem = y # m" "n = Suc k" using Cons.prems by (cases mem; cases n) auto
  then show ?case using Cons.IH [of m k] Cons.prems by auto
qed

text \<open>A message on the topic \<open>t\<close>, as it lies in the buffer.\<close>

definition topic_in :: "u8 list \<Rightarrow> u8 list \<Rightarrow> u16 \<Rightarrow> bool" where
  "topic_in t mem len \<longleftrightarrow> unat len \<le> length mem \<and> take (unat len) mem = t \<and> shadowTOPIC_BUFFER_LENGTH \<le> length mem \<and> 0 \<notin> set t"

definition name_ok :: "u8 list \<Rightarrow> bool" where
  "name_ok name \<longleftrightarrow> length name \<le> configMAX_THING_NAME_LENGTH \<and> 0 \<notin> set name"

lemma format_topic:
  assumes "fmt \<in> shadow_formats" and "name_ok name"
  shows "length (topic_of fmt name) < shadowTOPIC_BUFFER_LENGTH" "0 \<notin> set (topic_of fmt name)"
    "unat (of_nat (length (topic_of fmt name)) :: u16) = length (topic_of fmt name)"
    "length buf = shadowTOPIC_BUFFER_LENGTH \<Longrightarrow> prvCreateTopic buf (of_nat shadowTOPIC_BUFFER_LENGTH) fmt name =
       Some (of_nat (length (topic_of fmt name)), topic_of fmt name @ 0 # drop (length (topic_of fmt name) + 1) buf)"
proof -
  have f: "format_ok fmt" "length fmt \<le> 38" using formats_ok assms(1) by auto
  show l: "length (topic_of fmt name) < shadowTOPIC_BUFFER_LENGTH"
    using topic_of_length [OF f(1), of name] f(2) assms(2) by (simp add: name_ok_def configMAX_THING_NAME_LENGTH_def)
  then show "unat (of_nat (length (topic_of fmt name)) :: u16) = length (topic_of fmt name)" by (simp add: unat_of_nat_u16)
  obtain s where s: "fmt = shadowTOPIC_PREFIX @ s" "0 \<notin> set s" using format_suffix [OF assms(1)] by blast
  then show "0 \<notin> set (topic_of fmt name)" using assms(2) by (simp add: s(1) topic_of_append name_ok_def cstr_def)
  show "length buf = shadowTOPIC_BUFFER_LENGTH \<Longrightarrow> prvCreateTopic buf (of_nat shadowTOPIC_BUFFER_LENGTH) fmt name =
       Some (of_nat (length (topic_of fmt name)), topic_of fmt name @ 0 # drop (length (topic_of fmt name) + 1) buf)"
    using create_topic_ok [OF f(1), of name "of_nat 167" buf] f(2) assms(2)
    by (simp add: unat_of_nat_u16 blit_def name_ok_def configMAX_THING_NAME_LENGTH_def)
qed

lemma topic_in_take: "topic_in t mem len \<Longrightarrow> n \<le> length t \<Longrightarrow> take n mem = take n t"
  by (auto simp: topic_in_def min_def split: if_splits)

lemma take_prefix:
  assumes "topic_in t mem len" and "length s \<le> length t"
  shows "take (length s) mem = s \<longleftrightarrow> prefix s t"
proof -
  have "take (length s) mem = take (length s) t" using topic_in_take [OF assms] .
  moreover have "take (length s) t = s \<longleftrightarrow> prefix s t" by (metis append_eq_conv_conj prefix_def take_is_prefix)
  ultimately show ?thesis by simp
qed

lemma strict_prefix_take:
  assumes "topic_in t mem len" and "length t < length s" and "take (length s) mem = s"
  shows "strict_prefix t s"
proof -
  have "take (length t) s = take (length t) mem" using assms(2) take_take [of "length t" "length s" mem] by (simp add: assms(3))
  also have "\<dots> = t" using topic_in_take [OF assms(1), of "length t"] by simp
  finally have "prefix t s" using take_is_prefix [of "length t" s] by simp
  then show ?thesis using assms(2) by (auto simp: strict_prefix_def)
qed

text \<open>
  A comparison is exact for a received topic that is not a proper beginning of the topic in
  question; otherwise it goes on with the bytes of the message after the topic.
\<close>

lemma matches_format_exact:
  assumes "fmt \<in> shadow_formats" and "name_ok name" and "topic_in t mem len" and "\<not> strict_prefix t (topic_of fmt name)"
    and "length buf = shadowTOPIC_BUFFER_LENGTH"
  shows "\<exists>buf'. matches_format fmt name mem len buf = Some (t = topic_of fmt name, buf') \<and> length buf' = shadowTOPIC_BUFFER_LENGTH"
proof -
  let ?s = "topic_of fmt name" and ?n = "max (length (topic_of fmt name)) (unat len)"
  note f = format_topic [OF assms(1,2)]
  have len: "unat len = length t" "length ?s < length mem" using assms(3) f(1) by (auto simp: topic_in_def)
  have "(take (length ?s) mem = ?s \<and> (?n = length ?s \<or> mem ! length ?s = 0)) \<longleftrightarrow> t = ?s"
  proof (cases "length t = length ?s")
    case True
    then show ?thesis using assms(3) len by (auto simp: topic_in_def)
  next
    case ne: False
    show ?thesis
    proof (cases "length t < length ?s")
      case True
      then show ?thesis using strict_prefix_take [OF assms(3) True] assms(4) by auto
    next
      case False
      then have "take (unat len) mem ! length ?s \<in> set t" using ne assms(3) len(1) by (simp add: topic_in_def)
      then have "mem ! length ?s \<in> set t" using ne False len(1) by simp
      then show ?thesis using assms(3) ne False len(1) by (auto simp: topic_in_def max_def)
    qed
  qed
  then show ?thesis
    using strncmp_topic [OF f(2) len(2), of ?n] f(1,3) f(4) [OF assms(5)] assms(5) by (simp add: matches_format_def)
qed

definition operation_of :: "u8 list \<Rightarrow> u8 list \<Rightarrow> ShadowOperationName_t" where
  "operation_of name t =
     (if t = topic_of shadowTOPIC_UPDATE_DOCUMENTS name then eShadowOperationUpdateDocuments
      else if t = topic_of shadowTOPIC_UPDATE_DELTA name then eShadowOperationUpdateDelta
      else if t = topic_of shadowTOPIC_DELETE_ACCEPTED name then eShadowOperationDeletedByAnother
      else eShadowOperationOther)"

text \<open>No topic of the callbacks for a thing has \<open>t\<close> as a proper beginning.\<close>

definition no_beginning :: "u8 list \<Rightarrow> u8 list \<Rightarrow> bool" where
  "no_beginning name t \<longleftrightarrow>
     list_all (\<lambda>fmt. \<not> strict_prefix t (topic_of fmt name)) [shadowTOPIC_UPDATE_DOCUMENTS, shadowTOPIC_UPDATE_DELTA, shadowTOPIC_DELETE_ACCEPTED]"

lemma callback_formats:
  "shadowTOPIC_PREFIX \<in> shadow_formats" "shadowTOPIC_UPDATE_DOCUMENTS \<in> shadow_formats"
  "shadowTOPIC_UPDATE_DELTA \<in> shadow_formats" "shadowTOPIC_DELETE_ACCEPTED \<in> shadow_formats"
  by (simp_all add: shadow_formats_def)

lemma match_operation_exact:
  assumes "name_ok name" and "topic_in t mem len" and "no_beginning name t" and "length buf = shadowTOPIC_BUFFER_LENGTH"
  shows "match_operation name mem len buf = Some (operation_of name t)"
proof -
  note m = matches_format_exact [OF _ assms(1,2)]
  have nb: "\<not> strict_prefix t (topic_of shadowTOPIC_UPDATE_DOCUMENTS name)" "\<not> strict_prefix t (topic_of shadowTOPIC_UPDATE_DELTA name)"
    "\<not> strict_prefix t (topic_of shadowTOPIC_DELETE_ACCEPTED name)" using assms(3) by (auto simp: no_beginning_def)
  obtain b1 where b1: "matches_format shadowTOPIC_UPDATE_DOCUMENTS name mem len buf = Some (t = topic_of shadowTOPIC_UPDATE_DOCUMENTS name, b1)"
    "length b1 = shadowTOPIC_BUFFER_LENGTH" using m [OF callback_formats(2) nb(1) assms(4)] by blast
  obtain b2 where b2: "matches_format shadowTOPIC_UPDATE_DELTA name mem len b1 = Some (t = topic_of shadowTOPIC_UPDATE_DELTA name, b2)"
    "length b2 = shadowTOPIC_BUFFER_LENGTH" using m [OF callback_formats(3) nb(2) b1(2)] by blast
  obtain b3 where b3: "matches_format shadowTOPIC_DELETE_ACCEPTED name mem len b2 = Some (t = topic_of shadowTOPIC_DELETE_ACCEPTED name, b3)"
    using m [OF callback_formats(4) nb(3) b2(2)] by blast
  show ?thesis unfolding match_operation_def operation_of_def b1(1) by (simp add: b2(1) b3)
qed

abbreviation entry_name :: "CallbackCatalogEntry_t \<Rightarrow> u8 list" where
  "entry_name e \<equiv> cb_pcThingName (xCallbackInfo e)"

text \<open>The entry of the catalog a topic belongs to.\<close>

definition catalog_entry :: "CallbackCatalogEntry_t list \<Rightarrow> u8 list \<Rightarrow> nat option" where
  "catalog_entry cat t = find (\<lambda>i. ce_xInUse (cat ! i) \<and> prefix (topic_of shadowTOPIC_PREFIX (entry_name (cat ! i))) t) [0..<length cat]"

definition catalog_ok :: "CallbackCatalogEntry_t list \<Rightarrow> bool" where
  "catalog_ok cat \<longleftrightarrow> (\<forall>e\<in>set cat. ce_xInUse e \<longrightarrow> name_ok (entry_name e))"

lemma topic_prefix_documents: "prefix (topic_of shadowTOPIC_PREFIX name) (topic_of shadowTOPIC_UPDATE_DOCUMENTS name)"
  using topic_of_append [of "[]" name] topic_of_append [of "shadowTOPIC_OPERATION_UPDATE @ cstr ''/documents''" name]
  by (simp add: shadowTOPIC_UPDATE_DOCUMENTS_def shadowTOPIC_UPDATE_def)

lemma prefix_compare:
  assumes "name_ok name" and "topic_in t mem len" and "no_beginning name t"
  shows "strncmp_eq (topic_of shadowTOPIC_PREFIX name @ 0 # r) mem (length (topic_of shadowTOPIC_PREFIX name)) =
    Some (prefix (topic_of shadowTOPIC_PREFIX name) t)"
proof -
  let ?p = "topic_of shadowTOPIC_PREFIX name"
  note f = format_topic [OF callback_formats(1) assms(1)]
  have "take (length ?p) mem = ?p \<longleftrightarrow> prefix ?p t"
  proof (cases "length ?p \<le> length t")
    case True
    then show ?thesis by (rule take_prefix [OF assms(2)])
  next
    case False
    then have "take (length ?p) mem = ?p \<Longrightarrow> strict_prefix t (topic_of shadowTOPIC_UPDATE_DOCUMENTS name)"
      using strict_prefix_take [OF assms(2), of ?p] prefix_order.less_le_trans topic_prefix_documents by auto
    then show ?thesis using False assms(3) prefix_length_le by (auto simp: no_beginning_def)
  qed
  then show ?thesis using strncmp_topic [OF f(2), of mem "length ?p" r] f(1) assms(2) by (auto simp: topic_in_def)
qed

lemma match_catalog_exact:
  assumes "catalog_ok cat" and "topic_in t mem len" and "\<forall>e\<in>set cat. ce_xInUse e \<longrightarrow> no_beginning (entry_name e) t"
    and "length buf = shadowTOPIC_BUFFER_LENGTH" and "i \<le> length cat"
  shows "match_catalog (drop i cat) i mem len want buf = Some (map_option
    (\<lambda>j. (j, if want then Some (operation_of (entry_name (cat ! j)) t) else None))
    (find (\<lambda>j. ce_xInUse (cat ! j) \<and> prefix (topic_of shadowTOPIC_PREFIX (entry_name (cat ! j))) t) [i..<length cat]))"
  using assms(4,5)
proof (induction "length cat - i" arbitrary: i buf)
  case (Suc k)
  then have i: "i < length cat" by simp
  let ?e = "cat ! i" and ?n = "entry_name (cat ! i)"
  have d: "drop i cat = ?e # drop (i + 1) cat" "[i..<length cat] = i # [i + 1..<length cat]"
    using i by (simp_all add: Cons_nth_drop_Suc upt_conv_Cons)
  have IH: "match_catalog (drop (i + 1) cat) (i + 1) mem len want b = Some (map_option
    (\<lambda>j. (j, if want then Some (operation_of (entry_name (cat ! j)) t) else None))
    (find (\<lambda>j. ce_xInUse (cat ! j) \<and> prefix (topic_of shadowTOPIC_PREFIX (entry_name (cat ! j))) t) [i + 1..<length cat]))"
    if "length b = shadowTOPIC_BUFFER_LENGTH" for b using Suc.hyps(1) [of "i + 1" b] Suc.hyps(2) that i by simp
  show ?case
  proof (cases "ce_xInUse ?e")
    case False
    then show ?thesis using IH [OF Suc.prems(1)] by (simp add: d)
  next
    case True
    then have ok: "name_ok ?n" "no_beginning ?n t" using assms(1,3) i by (auto simp: catalog_ok_def)
    note f = format_topic [OF callback_formats(1) ok(1)] and f4 = format_topic(4) [OF callback_formats(1) ok(1) Suc.prems(1)]
    let ?b = "topic_of shadowTOPIC_PREFIX ?n @ 0 # drop (length (topic_of shadowTOPIC_PREFIX ?n) + 1) buf"
    have l: "length ?b = shadowTOPIC_BUFFER_LENGTH" using f(1) Suc.prems(1) by simp
    show ?thesis
      using True IH [OF l] match_operation_exact [OF ok(1) assms(2) ok(2) l] f(3) f4 prefix_compare [OF ok(1) assms(2) ok(2)]
      by (auto simp: d)
  qed
qed simp

lemma match_callback_exact:
  assumes "catalog_ok cat" and "topic_in t mem len" and "\<forall>e\<in>set cat. ce_xInUse e \<longrightarrow> no_beginning (entry_name e) t"
    and "length buf = shadowTOPIC_BUFFER_LENGTH"
  shows "prvMatchCallbackTopic cat mem len want buf =
    Some (map_option (\<lambda>j. (j, if want then Some (operation_of (entry_name (cat ! j)) t) else None)) (catalog_entry cat t))"
  using match_catalog_exact [OF assms, of 0] by (simp add: prvMatchCallbackTopic_def catalog_entry_def)

lemma callback_topics:
  "topic_of shadowTOPIC_UPDATE_DOCUMENTS name = cstr ''$aws/things/'' @ name @ cstr ''/shadow/update/documents''"
  "topic_of shadowTOPIC_UPDATE_DELTA name = cstr ''$aws/things/'' @ name @ cstr ''/shadow/update/delta''"
  "topic_of shadowTOPIC_DELETE_ACCEPTED name = cstr ''$aws/things/'' @ name @ cstr ''/shadow/delete/accepted''"
  by (simp_all add: topic_of_def topic_format_defs cstr_def)

text \<open>
  C38. \<open>prvMatchCallbackTopic\<close> finds the right callback: for a received topic that is not a proper
  beginning of a topic with a callback, it stays within the message, returns the first
  entry of the catalog for whose thing the topic is, and tells whether it is exactly the
  topic of updated documents, of deltas, or of deletions.
\<close>

theorem match_callback_topic:
  assumes "catalog_ok cat" and "topic_in t mem len" and "\<forall>e\<in>set cat. ce_xInUse e \<longrightarrow> no_beginning (entry_name e) t"
    and "length buf = shadowTOPIC_BUFFER_LENGTH"
  shows "prvMatchCallbackTopic cat mem len True buf =
    Some (case catalog_entry cat t of
            None \<Rightarrow> None
          | Some j \<Rightarrow> Some (j, Some
              (if t = cstr ''$aws/things/'' @ entry_name (cat ! j) @ cstr ''/shadow/update/documents'' then eShadowOperationUpdateDocuments
               else if t = cstr ''$aws/things/'' @ entry_name (cat ! j) @ cstr ''/shadow/update/delta'' then eShadowOperationUpdateDelta
               else if t = cstr ''$aws/things/'' @ entry_name (cat ! j) @ cstr ''/shadow/delete/accepted'' then eShadowOperationDeletedByAnother
               else eShadowOperationOther)))"
  using match_callback_exact [OF assms, of True] by (auto simp: operation_of_def callback_topics split: option.split)

definition example_catalog :: "CallbackCatalogEntry_t list" where
  "example_catalog = [\<lparr>xCallbackInfo = \<lparr>cb_pcThingName = [116, 49], xShadowUpdatedCallback = None, xShadowDeletedCallback = None,
     xShadowDeltaCallback = Some 1\<rparr>, ce_xInUse = True\<rparr>]"

definition example_delta :: "u8 list" where
  "example_delta = cstr ''$aws/things/t1/shadow/update/delta''"

theorem match_callback_topic_witness:
  "prvMatchCallbackTopic example_catalog (example_delta @ replicate 200 1) 34 True (replicate 167 0) =
     Some (Some (0, Some eShadowOperationUpdateDelta))"
proof -
  let ?d = "cstr ''$aws/things/'' @ [116, 49] @ cstr ''/shadow/update/delta''"
  have e: "example_delta = ?d" "length ?d = 34" by (simp_all add: example_delta_def cstr_def)
  have "catalog_ok example_catalog" by (simp add: catalog_ok_def name_ok_def example_catalog_def configMAX_THING_NAME_LENGTH_def)
  moreover have "topic_in ?d (example_delta @ replicate 200 1) 34" unfolding e(1) topic_in_def using e(2) by (simp add: cstr_def)
  moreover have "\<forall>x\<in>set example_catalog. ce_xInUse x \<longrightarrow> no_beginning (entry_name x) ?d"
    by (simp add: example_catalog_def no_beginning_def topic_of_def topic_format_defs cstr_def strict_prefix_def prefix_def)
  moreover have "catalog_entry example_catalog ?d = Some 0"
    by (simp add: catalog_entry_def example_catalog_def topic_of_def topic_format_defs cstr_def)
  ultimately show ?thesis
    using match_callback_topic [of example_catalog ?d "example_delta @ replicate 200 1" 34 "replicate 167 0"]
    by (simp add: example_catalog_def cstr_def)
qed

text \<open>The result of an operation is the end of the topic.\<close>

lemma suffix_compare:
  assumes "topic_in t mem len" and "length s \<le> length t" and "0 \<notin> set s"
  shows "strncmp_eq (drop (unat len - length s) mem) (s @ [0]) (length s) = Some (suffix s t)"
proof -
  let ?x = "drop (length t - length s) t"
  have l: "unat len = length t" "length ?x = length s" "0 \<notin> set ?x" using assms by (auto simp: topic_in_def dest: in_set_dropD)
  have "mem = t @ drop (length t) mem" using assms(1) append_take_drop_id [of "length t" mem] topic_in_take [OF assms(1), of "length t"] by simp
  then have "drop (length t - length s) mem = ?x @ drop (length t) mem" using assms(2) by (metis append_Nil2 diff_le_self drop_append drop_eq_Nil2 diff_is_0_eq drop0)
  moreover have "?x = s \<longleftrightarrow> suffix s t" using l(2) by (metis append_eq_conv_conj append_take_drop_id length_append add_diff_cancel_right' suffix_def)
  ultimately show ?thesis using strncmp_same_length [OF l(2,3), of "drop (length t) mem" "[0]"] l(1,2) by simp
qed

lemma operation_status:
  assumes "topic_in t mem len" and "9 \<le> length t"
  shows "prvParseShadowOperationStatus mem len =
    Some (if suffix shadowTOPIC_SUFFIX_ACCEPTED t then eShadowSuccess
          else if suffix shadowTOPIC_SUFFIX_REJECTED t then eShadowFailure else eShadowUnknown)"
proof -
  have s: "length shadowTOPIC_SUFFIX_ACCEPTED = 9" "length shadowTOPIC_SUFFIX_REJECTED = 9"
    "0 \<notin> set shadowTOPIC_SUFFIX_ACCEPTED" "0 \<notin> set shadowTOPIC_SUFFIX_REJECTED"
    by (simp_all add: shadowTOPIC_SUFFIX_ACCEPTED_def shadowTOPIC_SUFFIX_REJECTED_def cstr_def)
  have len: "unat len = length t" using assms(1) by (auto simp: topic_in_def)
  show ?thesis
    using suffix_compare [OF assms(1) _ s(3)] suffix_compare [OF assms(1) _ s(4)] assms(2) s(1,2) len
    by (simp add: prvParseShadowOperationStatus_def)
qed

end
