(* ===== verification/AgentTypes.thy ===== *)
theory AgentTypes
  imports MqttContext
begin

text \<open>
  The types of the interface of the MQTT agent (\<open>FreeRTOS/include/aws_mqtt_agent.h\<close>), which the
  agent and its user, the shadow client, share.
\<close>

datatype MQTTAgentReturnCode_t = eMQTTAgentSuccess | eMQTTAgentFailure | eMQTTAgentTimeout | eMQTTAgentAPICalledFromCallback

datatype MQTTAgentCallbackParams_t = eMQTTAgentPublish MQTTPublishData_t | eMQTTAgentDisconnect

record MQTTAgentSubscribeParams_t =
  as_pucTopic :: "u8 list"
  as_usTopicLength :: u16
  as_xQoS :: MQTTQoS_t
  as_pvPublishCallbackContext :: u32
  as_pxPublishCallback :: "nat option"

record MQTTAgentUnsubscribeParams_t =
  au_pucTopic :: "u8 list"
  au_usTopicLength :: u16

record MQTTAgentPublishParams_t =
  ap_pucTopic :: "u8 list"
  ap_usTopicLength :: u16
  ap_xQoS :: MQTTQoS_t
  ap_pvData :: "u8 list"
  ap_ulDataLength :: u32

text \<open>
  The callbacks of the users of the agent: the one of the shadow client, and others. The number
  stands for what \<open>pvUserData\<close> points to, for the shadow client the handle of the client.
\<close>

datatype agent_callback = NullCallback | prvShadowMQTTCallback_ptr | OtherCallback nat

record MQTTAgentConnectParams_t =
  ac_pcURL :: "u8 list"
  ac_xFlags :: u32
  ac_xURLIsIPAddress :: int
  ac_usPort :: u16
  ac_pucClientId :: "u8 list"
  ac_usClientIdLength :: u16
  ac_xSecuredConnection :: int
  ac_pvUserData :: int
  ac_pxCallback :: agent_callback
  ac_pcCertificate :: "u8 list option"
  ac_ulCertificateSize :: u32

end
