(* ===== verification/ShadowClient.thy ===== *)
theory ShadowClient
  imports ShadowTopic AgentTypes
begin

text \<open>
  The shadow client (\<open>AWS/shadow/aws_shadow.c\<close>): operations on the shadow of a thing, the callback
  that receives the messages of the shadow service, and the catalog of user callbacks.

  Two tasks share a client. The task of the user runs an operation; the task of the MQTT
  agent runs the callback for every message. The callback is one step of the model, and it can
  happen before every statement of the operation that uses the client: the environment
  decides, from everything that was observed so far, which messages arrive at such a point.
  It also gives the results of the calls of the MQTT agent, the contents of local arrays that
  are not initialised, and the results of the callbacks of the user. None is the result of a
  run that accesses memory outside of an object, stops in a failed assertion, or waits for
  a semaphore forever.
\<close>

section \<open>Data\<close>

definition shadowconfigMAX_CLIENTS :: nat where "shadowconfigMAX_CLIENTS = 1"
definition shadowconfigMAX_THINGS_WITH_CALLBACKS :: nat where "shadowconfigMAX_THINGS_WITH_CALLBACKS = 1"

text \<open>\<open>pdMS_TO_TICKS\<close> of \<open>shadowconfigCLEANUP_TIME_MS\<close>, at 1000 ticks a second.\<close>

definition shadowconfigCLEANUP_TIME_TICKS :: u32 where "shadowconfigCLEANUP_TIME_TICKS = 5000"

datatype agent_call =
    CallAgentCreate
  | CallAgentDelete nat
  | CallAgentConnect nat MQTTAgentConnectParams_t u32
  | CallAgentDisconnect nat u32
  | CallAgentSubscribe nat MQTTAgentSubscribeParams_t u32
  | CallAgentUnsubscribe nat MQTTAgentUnsubscribeParams_t u32
  | CallAgentPublish nat MQTTAgentPublishParams_t u32
  | CallAgentReturnBuffer nat addr

text \<open>Calls of the callbacks of the user: the pointer, the client, the thing, and the message.\<close>

datatype user_call =
    UpdatedCallback nat int "u8 list" "u8 list" u32 addr
  | DeletedCallback nat int "u8 list"
  | DeltaCallback nat int "u8 list" "u8 list" u32 addr

text \<open>What is observed: calls of the agent with their results, messages with the result of the callback, calls of the user's callbacks, and points at which the other task may run.\<close>

datatype shadow_obs =
    OAgent agent_call MQTTAgentReturnCode_t
  | OMessage int MQTTAgentCallbackParams_t bool
  | OUser user_call bool
  | OYield

record shadow_env =
  se_agent :: "shadow_obs list \<Rightarrow> agent_call \<Rightarrow> MQTTAgentReturnCode_t"
  se_handle :: "shadow_obs list \<Rightarrow> nat"
  se_events :: "shadow_obs list \<Rightarrow> (int \<times> MQTTAgentCallbackParams_t) list"
  se_wait :: "shadow_obs list \<Rightarrow> (int \<times> MQTTAgentCallbackParams_t) list"
  se_user :: "shadow_obs list \<Rightarrow> user_call \<Rightarrow> bool"
  se_stack :: "shadow_obs list \<Rightarrow> u8 list"
  se_tokens :: "shadow_obs list \<Rightarrow> jsmntok_t list"

record ShadowOperationParams_t =
  op_pcThingName :: "u8 list"
  op_pcData :: "u8 list option"
  op_ulDataLength :: u32
  op_xBuffer :: addr
  op_ucKeepSubscriptions :: u8
  op_xQoS :: MQTTQoS_t

record ShadowOperationCallParams_t =
  xShadowClientID :: int
  xOperationName :: ShadowOperationName_t
  pcOperationTopic :: "u8 list"
  pcOperationAcceptedTopic :: "u8 list"
  pcOperationRejectedTopic :: "u8 list"
  pcPublishMessage :: "u8 list"
  ulPublishMessageLength :: u32
  pxOperationParams :: ShadowOperationParams_t
  xTimeoutTicks :: u32

text \<open>
  A semaphore is None if its handle is null, and otherwise tells whether it can be taken. The
  parameters of the operation in progress are kept where the callback writes them, in the data
  of the operation.
\<close>

record ShadowClient_t =
  xMQTTClient :: nat
  sc_xInUse :: bool
  xUpdateSubscribed :: bool
  xGetSubscribed :: bool
  xDeleteSubscribed :: bool
  xOperationDataMutex :: "bool option"
  xOperationMutex :: "bool option"
  xCallbackSemaphore :: "bool option"
  pxOperationData :: "(ShadowOperationName_t \<times> ShadowOperationParams_t) option"
  xOperationResult :: int
  xCallbackCatalog :: "CallbackCatalogEntry_t list"
  ucTopicBuffer :: "u8 list"

definition zero_entry :: CallbackCatalogEntry_t where
  "zero_entry = \<lparr>xCallbackInfo = \<lparr>cb_pcThingName = [], xShadowUpdatedCallback = None, xShadowDeletedCallback = None,
     xShadowDeltaCallback = None\<rparr>, ce_xInUse = False\<rparr>"

definition zero_client :: ShadowClient_t where
  "zero_client = \<lparr>xMQTTClient = 0, sc_xInUse = False, xUpdateSubscribed = False, xGetSubscribed = False, xDeleteSubscribed = False,
     xOperationDataMutex = None, xOperationMutex = None, xCallbackSemaphore = None, pxOperationData = None, xOperationResult = 0,
     xCallbackCatalog = replicate shadowconfigMAX_THINGS_WITH_CALLBACKS zero_entry,
     ucTopicBuffer = replicate shadowTOPIC_BUFFER_LENGTH 0\<rparr>"

record shadow =
  xShadowClients :: "ShadowClient_t list"
  sh_trace :: "shadow_obs list"

abbreviation client :: "shadow \<Rightarrow> int \<Rightarrow> ShadowClient_t" where
  "client w i \<equiv> xShadowClients w ! nat i"

definition upd_client :: "int \<Rightarrow> (ShadowClient_t \<Rightarrow> ShadowClient_t) \<Rightarrow> shadow \<Rightarrow> shadow" where
  "upd_client i f w = w\<lparr>xShadowClients := (xShadowClients w)[nat i := f (client w i)]\<rparr>"

definition record_obs :: "shadow_obs \<Rightarrow> shadow \<Rightarrow> shadow" where
  "record_obs x w = w\<lparr>sh_trace := x # sh_trace w\<rparr>"

section \<open>Assertions and semaphores\<close>

definition configASSERT :: "bool \<Rightarrow> unit option" where
  "configASSERT b = (if b then Some () else None)"

text \<open>\<open>xSemaphoreGive\<close> fails for a semaphore that was not taken.\<close>

definition xSemaphoreGive :: "bool option \<Rightarrow> (bool \<times> bool option) option" where
  "xSemaphoreGive s = map_option (\<lambda>free. (\<not> free, Some True)) s"

definition give_callback_semaphore :: "int \<Rightarrow> shadow \<Rightarrow> shadow option" where
  "give_callback_semaphore i w = do {
     (ok, s) \<leftarrow> xSemaphoreGive (xCallbackSemaphore (client w i));
     configASSERT ok;
     Some (upd_client i (\<lambda>c. c\<lparr>xCallbackSemaphore := s\<rparr>) w)
   }"

definition give_operation_mutex :: "int \<Rightarrow> shadow \<Rightarrow> shadow option" where
  "give_operation_mutex i w = do {
     (ok, s) \<leftarrow> xSemaphoreGive (xOperationMutex (client w i));
     configASSERT ok;
     Some (upd_client i (\<lambda>c. c\<lparr>xOperationMutex := s\<rparr>) w)
   }"

definition give_data_mutex :: "int \<Rightarrow> shadow \<Rightarrow> shadow option" where
  "give_data_mutex i w = do {
     (ok, s) \<leftarrow> xSemaphoreGive (xOperationDataMutex (client w i));
     configASSERT ok;
     Some (upd_client i (\<lambda>c. c\<lparr>xOperationDataMutex := s\<rparr>) w)
   }"

text \<open>\<open>xSemaphoreTake\<close> with \<open>portMAX_DELAY\<close>; no other task would give this mutex meanwhile.\<close>

definition take_data_mutex :: "int \<Rightarrow> shadow \<Rightarrow> shadow option" where
  "take_data_mutex i w =
     (if xOperationDataMutex (client w i) = Some True
      then Some (upd_client i (\<lambda>c. c\<lparr>xOperationDataMutex := Some False\<rparr>) w) else None)"

section \<open>Helpers\<close>

fun free_client :: "ShadowClient_t list \<Rightarrow> nat \<Rightarrow> int" where
  "free_client [] i = -1"
| "free_client (c # cs) i = (if \<not> sc_xInUse c then int i else free_client cs (i + 1))"

definition prvGetFreeShadowClient :: "shadow \<Rightarrow> int \<times> shadow" where
  "prvGetFreeShadowClient w =
     (let xReturn = free_client (xShadowClients w) 0 in
      (xReturn, if xReturn \<ge> 0 then upd_client xReturn (\<lambda>c. c\<lparr>sc_xInUse := True\<rparr>) w else w))"

text \<open>The slot for a thing: whether it was found, and the index.\<close>

fun catalog_slot :: "CallbackCatalogEntry_t list \<Rightarrow> nat \<Rightarrow> u8 list \<Rightarrow> int \<Rightarrow> (bool \<times> int) option" where
  "catalog_slot [] i pcThingName xReturn = Some (False, xReturn)"
| "catalog_slot (e # es) i pcThingName xReturn =
     (if \<not> ce_xInUse e then catalog_slot es (i + 1) pcThingName (int i)
      else if length (entry_name e) = length pcThingName then do {
        eq \<leftarrow> strncmp_eq (pcThingName @ [0]) (entry_name e @ [0]) (length (entry_name e));
        if eq then Some (True, int i) else catalog_slot es (i + 1) pcThingName xReturn
      } else catalog_slot es (i + 1) pcThingName xReturn)"

definition prvGetCallbackCatalogEntry :: "CallbackCatalogEntry_t list \<Rightarrow> u8 list \<Rightarrow> (int \<times> CallbackCatalogEntry_t list) option" where
  "prvGetCallbackCatalogEntry cat pcThingName = do {
     (xThingNameFound, xReturn) \<leftarrow> catalog_slot cat 0 pcThingName (-1);
     if xThingNameFound then Some (xReturn, cat)
     else if 0 \<le> xReturn then
       Some (xReturn, cat[nat xReturn := (cat ! nat xReturn)
         \<lparr>ce_xInUse := True, xCallbackInfo := (xCallbackInfo (cat ! nat xReturn))\<lparr>cb_pcThingName := pcThingName\<rparr>\<rparr>])
     else None
   }"

definition prvConvertMQTTReturnCode :: "MQTTAgentReturnCode_t \<Rightarrow> int" where
  "prvConvertMQTTReturnCode r =
     (case r of
        eMQTTAgentSuccess \<Rightarrow> eShadowSuccess
      | eMQTTAgentTimeout \<Rightarrow> eShadowTimeout
      | _ \<Rightarrow> eShadowFailure)"

definition prvSetSubscribedFlag :: "ShadowOperationName_t \<Rightarrow> bool \<Rightarrow> ShadowClient_t \<Rightarrow> ShadowClient_t" where
  "prvSetSubscribedFlag operation v c =
     (case operation of
        eShadowOperationUpdate \<Rightarrow> c\<lparr>xUpdateSubscribed := v\<rparr>
      | eShadowOperationGet \<Rightarrow> c\<lparr>xGetSubscribed := v\<rparr>
      | eShadowOperationDelete \<Rightarrow> c\<lparr>xDeleteSubscribed := v\<rparr>
      | _ \<Rightarrow> c)"

definition prvGetSubscribedFlag :: "ShadowOperationName_t \<Rightarrow> ShadowClient_t \<Rightarrow> bool" where
  "prvGetSubscribedFlag operation c =
     (case operation of
        eShadowOperationUpdate \<Rightarrow> xUpdateSubscribed c
      | eShadowOperationGet \<Rightarrow> xGetSubscribed c
      | eShadowOperationDelete \<Rightarrow> xDeleteSubscribed c
      | _ \<Rightarrow> False)"

section \<open>The callback\<close>

definition prvGetErrorCodeAndMessage :: "shadow_env \<Rightarrow> u8 list \<Rightarrow> u32 \<Rightarrow> shadow \<Rightarrow> int option" where
  "prvGetErrorCodeAndMessage E pcData ulDataLength w = do {
     (xErrorCode, _) \<leftarrow> SHADOW_JSONGetErrorCodeAndMessage (se_tokens E (sh_trace w)) pcData (unat ulDataLength) True;
     Some (if xErrorCode = 0 then eShadowJSMNInval else xErrorCode)
   }"

definition set_result :: "int \<Rightarrow> int \<Rightarrow> shadow \<Rightarrow> shadow" where
  "set_result i r w = upd_client i (\<lambda>c. c\<lparr>xOperationResult := r\<rparr>) w"

definition prvShadowUpdateCallback ::
  "shadow_env \<Rightarrow> int \<Rightarrow> int \<Rightarrow> ShadowOperationParams_t \<Rightarrow> u8 list \<Rightarrow> u32 \<Rightarrow> shadow \<Rightarrow> shadow option" where
  "prvShadowUpdateCallback E i xResult ps pcData ulDataLength w = do {
     sent \<leftarrow> op_pcData ps;
     same \<leftarrow> SHADOW_JSONDocClientTokenMatch (se_tokens E (sh_trace w)) sent (unat (op_ulDataLength ps)) pcData (unat ulDataLength);
     if same then do {
       w \<leftarrow> Some (set_result i xResult w);
       w \<leftarrow> (if xResult = eShadowFailure then do {
               code \<leftarrow> prvGetErrorCodeAndMessage E pcData ulDataLength w;
               Some (set_result i code w)
             } else Some w);
       give_callback_semaphore i w
     } else Some w
   }"

text \<open>The parameters of the user are written through the pointer in the data of the operation.\<close>

definition upd_params :: "int \<Rightarrow> (ShadowOperationParams_t \<Rightarrow> ShadowOperationParams_t) \<Rightarrow> shadow \<Rightarrow> shadow" where
  "upd_params i f w = upd_client i (\<lambda>c. c\<lparr>pxOperationData := map_option (\<lambda>(n, ps). (n, f ps)) (pxOperationData c)\<rparr>) w"

definition prvShadowGetCallback ::
  "shadow_env \<Rightarrow> int \<Rightarrow> int \<Rightarrow> u8 list \<Rightarrow> u32 \<Rightarrow> addr \<Rightarrow> shadow \<Rightarrow> shadow option" where
  "prvShadowGetCallback E i xResult pcData ulDataLength xBuffer w = do {
     w \<leftarrow> Some (set_result i xResult w);
     w \<leftarrow> (if xResult = eShadowSuccess then
             Some (upd_params i (\<lambda>ps. ps\<lparr>op_pcData := Some pcData, op_ulDataLength := ulDataLength, op_xBuffer := xBuffer\<rparr>) w)
           else do {
             code \<leftarrow> prvGetErrorCodeAndMessage E pcData ulDataLength w;
             w \<leftarrow> Some (set_result i code w);
             Some (upd_params i (\<lambda>ps. ps\<lparr>op_pcData := None, op_ulDataLength := 0\<rparr>) w)
           });
     give_callback_semaphore i w
   }"

definition prvShadowDeleteCallback :: "shadow_env \<Rightarrow> int \<Rightarrow> int \<Rightarrow> u8 list \<Rightarrow> u32 \<Rightarrow> shadow \<Rightarrow> shadow option" where
  "prvShadowDeleteCallback E i xResult pcData ulDataLength w = do {
     w \<leftarrow> Some (set_result i xResult w);
     w \<leftarrow> (if xResult = eShadowFailure then do {
             code \<leftarrow> prvGetErrorCodeAndMessage E pcData ulDataLength w;
             Some (set_result i code w)
           } else Some w);
     give_callback_semaphore i w
   }"

text \<open>The answer to the operation in progress; the result tells whether the buffer was taken.\<close>

definition operation_answer ::
  "shadow_env \<Rightarrow> int \<Rightarrow> ShadowOperationName_t \<Rightarrow> ShadowOperationParams_t \<Rightarrow> int \<Rightarrow> MQTTPublishData_t \<Rightarrow> shadow \<Rightarrow> (bool \<times> shadow) option" where
  "operation_answer E i operation ps xResult pd w =
     (case operation of
        eShadowOperationUpdate \<Rightarrow> do {
          w \<leftarrow> prvShadowUpdateCallback E i xResult ps (pd_pvData pd) (pd_ulDataLength pd) w;
          Some (False, w)
        }
      | eShadowOperationGet \<Rightarrow> do {
          w \<leftarrow> prvShadowGetCallback E i xResult (pd_pvData pd) (pd_ulDataLength pd) (pd_xBuffer pd) w;
          Some (xResult = eShadowSuccess, w)
        }
      | eShadowOperationDelete \<Rightarrow> do {
          w \<leftarrow> prvShadowDeleteCallback E i xResult (pd_pvData pd) (pd_ulDataLength pd) w;
          Some (False, w)
        }
      | _ \<Rightarrow> Some (False, w))"

definition strlen :: "u8 list \<Rightarrow> nat option" where
  "strlen mem = (if 0 \<in> set mem then Some (length (takeWhile (\<lambda>c. c \<noteq> 0) mem)) else None)"

text \<open>Whether a message answers the operation in progress, and if so what the callback did.\<close>

definition match_answer :: "shadow_env \<Rightarrow> int \<Rightarrow> MQTTPublishData_t \<Rightarrow> shadow \<Rightarrow> (bool \<times> bool \<times> shadow) option" where
  "match_answer E i pd w =
     (case pxOperationData (client w i) of
        None \<Rightarrow> Some (False, False, w)
      | Some (operation, ps) \<Rightarrow> do {
          n \<leftarrow> strlen (ucTopicBuffer (client w i));
          eq \<leftarrow> strncmp_eq (pd_pucTopic pd) (ucTopicBuffer (client w i)) (min n (unat (pd_usTopicLength pd)));
          if eq then do {
            xResult \<leftarrow> prvParseShadowOperationStatus (pd_pucTopic pd) (pd_usTopicLength pd);
            if xResult \<noteq> eShadowUnknown \<and> operation \<noteq> eShadowOperationOther then do {
              (taken, w) \<leftarrow> operation_answer E i operation ps xResult pd w;
              Some (True, taken, w)
            } else Some (False, False, w)
          } else Some (False, False, w)
        })"

definition call_user :: "shadow_env \<Rightarrow> user_call \<Rightarrow> shadow \<Rightarrow> bool \<times> shadow" where
  "call_user E c w = (let r = se_user E (sh_trace w) c in (r, record_obs (OUser c r) w))"

text \<open>Passing a message on to the callback the user registered for it.\<close>

definition notify_user :: "shadow_env \<Rightarrow> int \<Rightarrow> MQTTPublishData_t \<Rightarrow> shadow \<Rightarrow> (bool \<times> shadow) option" where
  "notify_user E i pd w = do {
     m \<leftarrow> prvMatchCallbackTopic (xCallbackCatalog (client w i)) (pd_pucTopic pd) (pd_usTopicLength pd) True (se_stack E (sh_trace w));
     (case m of
        Some (j, Some eShadowOperationUpdateDocuments) \<Rightarrow> do {
          f \<leftarrow> xShadowUpdatedCallback (xCallbackInfo (xCallbackCatalog (client w i) ! j));
          Some (call_user E (UpdatedCallback f i (entry_name (xCallbackCatalog (client w i) ! j)) (pd_pvData pd) (pd_ulDataLength pd) (pd_xBuffer pd)) w)
        }
      | Some (j, Some eShadowOperationUpdateDelta) \<Rightarrow> do {
          f \<leftarrow> xShadowDeltaCallback (xCallbackInfo (xCallbackCatalog (client w i) ! j));
          Some (call_user E (DeltaCallback f i (entry_name (xCallbackCatalog (client w i) ! j)) (pd_pvData pd) (pd_ulDataLength pd) (pd_xBuffer pd)) w)
        }
      | Some (j, Some eShadowOperationDeletedByAnother) \<Rightarrow> do {
          f \<leftarrow> xShadowDeletedCallback (xCallbackInfo (xCallbackCatalog (client w i) ! j));
          Some (False, snd (call_user E (DeletedCallback f i (entry_name (xCallbackCatalog (client w i) ! j))) w))
        }
      | _ \<Rightarrow> Some (False, w))
   }"

definition clear_flags :: "ShadowClient_t \<Rightarrow> ShadowClient_t" where
  "clear_flags c = prvSetSubscribedFlag eShadowOperationDelete False (prvSetSubscribedFlag eShadowOperationGet False
     (prvSetSubscribedFlag eShadowOperationUpdate False c))"

definition prvShadowMQTTCallback :: "shadow_env \<Rightarrow> int \<Rightarrow> MQTTAgentCallbackParams_t \<Rightarrow> shadow \<Rightarrow> (bool \<times> shadow) option" where
  "prvShadowMQTTCallback E i p w =
     (case p of
        eMQTTAgentPublish pd \<Rightarrow> do {
          w \<leftarrow> take_data_mutex i w;
          (xOperationMatched, taken, w) \<leftarrow> match_answer E i pd w;
          w \<leftarrow> give_data_mutex i w;
          if xOperationMatched then Some (taken, w) else notify_user E i pd w
        }
      | eMQTTAgentDisconnect \<Rightarrow> Some (False, upd_client i clear_flags w))"

section \<open>The other task\<close>

definition mqtt_event :: "shadow_env \<Rightarrow> int \<times> MQTTAgentCallbackParams_t \<Rightarrow> shadow \<Rightarrow> shadow option" where
  "mqtt_event E e w = do {
     (taken, w) \<leftarrow> prvShadowMQTTCallback E (fst e) (snd e) w;
     Some (record_obs (OMessage (fst e) (snd e) taken) w)
   }"

fun mqtt_events :: "shadow_env \<Rightarrow> (int \<times> MQTTAgentCallbackParams_t) list \<Rightarrow> shadow \<Rightarrow> shadow option" where
  "mqtt_events E [] w = Some w"
| "mqtt_events E (e # es) w = do { w \<leftarrow> mqtt_event E e w; mqtt_events E es w }"

text \<open>A point at which messages may arrive, and a call of the agent, during which they may arrive.\<close>

definition others :: "shadow_env \<Rightarrow> shadow \<Rightarrow> shadow option" where
  "others E w = mqtt_events E (se_events E (sh_trace w)) (record_obs OYield w)"

definition agent :: "shadow_env \<Rightarrow> agent_call \<Rightarrow> shadow \<Rightarrow> (MQTTAgentReturnCode_t \<times> shadow) option" where
  "agent E c w = do {
     w \<leftarrow> others E w;
     (let r = se_agent E (sh_trace w) c in Some (r, record_obs (OAgent c r) w))
   }"

text \<open>
  \<open>xSemaphoreTake\<close> of the callback semaphore: messages arrive until it can be taken, or until
  the time is over.
\<close>

fun wait_loop :: "shadow_env \<Rightarrow> int \<Rightarrow> (int \<times> MQTTAgentCallbackParams_t) list \<Rightarrow> shadow \<Rightarrow> (bool \<times> shadow) option" where
  "wait_loop E i es w = do {
     free \<leftarrow> xCallbackSemaphore (client w i);
     if free then Some (True, upd_client i (\<lambda>c. c\<lparr>xCallbackSemaphore := Some False\<rparr>) w)
     else case es of [] \<Rightarrow> Some (False, w) | e # es \<Rightarrow> do { w \<leftarrow> mqtt_event E e w; wait_loop E i es w }
   }"

declare wait_loop.simps [simp del]

definition take_callback_semaphore :: "shadow_env \<Rightarrow> int \<Rightarrow> shadow \<Rightarrow> (bool \<times> shadow) option" where
  "take_callback_semaphore E i w = wait_loop E i (se_wait E (sh_trace w)) (record_obs OYield w)"

section \<open>Subscriptions\<close>

definition create_topic :: "int \<Rightarrow> u8 list \<Rightarrow> u8 list \<Rightarrow> shadow \<Rightarrow> (u16 \<times> shadow) option" where
  "create_topic i fmt name w = do {
     (n, buf) \<leftarrow> prvCreateTopic (ucTopicBuffer (client w i)) (of_nat shadowTOPIC_BUFFER_LENGTH) fmt name;
     Some (n, upd_client i (\<lambda>c. c\<lparr>ucTopicBuffer := buf\<rparr>) w)
   }"

definition subscribe_topic :: "shadow_env \<Rightarrow> int \<Rightarrow> u8 list \<Rightarrow> u8 list \<Rightarrow> u32 \<Rightarrow> shadow \<Rightarrow> (int \<times> shadow) option" where
  "subscribe_topic E i name fmt ticks w = do {
     w \<leftarrow> others E w;
     (n, w) \<leftarrow> create_topic i fmt name w;
     (r, w) \<leftarrow> agent E (CallAgentSubscribe (xMQTTClient (client w i))
       \<lparr>as_pucTopic = ucTopicBuffer (client w i), as_usTopicLength = n, as_xQoS = eMQTTQoS1, as_pvPublishCallbackContext = 0,
        as_pxPublishCallback = None\<rparr> ticks) w;
     Some (prvConvertMQTTReturnCode r, w)
   }"

definition unsubscribe_topic :: "shadow_env \<Rightarrow> int \<Rightarrow> u8 list \<Rightarrow> u8 list \<Rightarrow> u32 \<Rightarrow> shadow \<Rightarrow> (int \<times> shadow) option" where
  "unsubscribe_topic E i name fmt ticks w = do {
     w \<leftarrow> others E w;
     (n, w) \<leftarrow> create_topic i fmt name w;
     (r, w) \<leftarrow> agent E (CallAgentUnsubscribe (xMQTTClient (client w i)) \<lparr>au_pucTopic = ucTopicBuffer (client w i), au_usTopicLength = n\<rparr> ticks) w;
     Some (prvConvertMQTTReturnCode r, w)
   }"

definition prvShadowSubscribeToAcceptedRejected ::
  "shadow_env \<Rightarrow> int \<Rightarrow> u8 list \<Rightarrow> u8 list \<Rightarrow> u8 list \<Rightarrow> u32 \<Rightarrow> shadow \<Rightarrow> (int \<times> shadow) option" where
  "prvShadowSubscribeToAcceptedRejected E i name acceptedTopic rejectedTopic ticks w = do {
     (xReturn, w) \<leftarrow> subscribe_topic E i name acceptedTopic ticks w;
     if xReturn = eShadowSuccess then do {
       (xReturn, w) \<leftarrow> subscribe_topic E i name rejectedTopic ticks w;
       if xReturn \<noteq> eShadowSuccess then do {
         (_, w) \<leftarrow> unsubscribe_topic E i name acceptedTopic shadowconfigCLEANUP_TIME_TICKS w;
         Some (xReturn, w)
       } else Some (xReturn, w)
     } else Some (xReturn, w)
   }"

definition prvShadowUnsubscribeFromAcceptedRejected ::
  "shadow_env \<Rightarrow> int \<Rightarrow> u8 list \<Rightarrow> u8 list option \<Rightarrow> u8 list option \<Rightarrow> u32 \<Rightarrow> shadow \<Rightarrow> (int \<times> shadow) option" where
  "prvShadowUnsubscribeFromAcceptedRejected E i name acceptedTopic rejectedTopic ticks w = do {
     (xReturn, w) \<leftarrow> (case acceptedTopic of
         None \<Rightarrow> Some (eShadowFailure, w)
       | Some fmt \<Rightarrow> unsubscribe_topic E i name fmt ticks w);
     (case rejectedTopic of
        None \<Rightarrow> Some (xReturn, w)
      | Some fmt \<Rightarrow> unsubscribe_topic E i name fmt ticks w)
   }"

section \<open>Operations\<close>

text \<open>The request, once the client is subscribed to the answers.\<close>

definition shadow_request :: "shadow_env \<Rightarrow> ShadowOperationCallParams_t \<Rightarrow> shadow \<Rightarrow> (int \<times> shadow) option" where
  "shadow_request E p w =
     (let i = xShadowClientID p in do {
        w \<leftarrow> others E w;
        w \<leftarrow> Some (upd_client i (prvSetSubscribedFlag (xOperationName p) True) w);
        (ok, w) \<leftarrow> take_callback_semaphore E i w;
        configASSERT ok;
        w \<leftarrow> others E w;
        (n, w) \<leftarrow> create_topic i (pcOperationTopic p) (op_pcThingName (pxOperationParams p)) w;
        w \<leftarrow> others E w;
        w \<leftarrow> Some (upd_client i (\<lambda>c. c\<lparr>pxOperationData := Some (xOperationName p, pxOperationParams p)\<rparr>) w);
        (r, w) \<leftarrow> agent E (CallAgentPublish (xMQTTClient (client w i))
          \<lparr>ap_pucTopic = ucTopicBuffer (client w i), ap_usTopicLength = n, ap_xQoS = op_xQoS (pxOperationParams p),
           ap_pvData = pcPublishMessage p, ap_ulDataLength = ulPublishMessageLength p\<rparr> (xTimeoutTicks p)) w;
        xReturn \<leftarrow> Some (prvConvertMQTTReturnCode r);
        (xReturn, w) \<leftarrow> (if xReturn = eShadowSuccess then do {
            (ok, w) \<leftarrow> take_callback_semaphore E i w;
            if \<not> ok then Some (eShadowTimeout, w)
            else do {
              w \<leftarrow> others E w;
              Some (xOperationResult (client w i), w)
            }
          } else Some (xReturn, w));
        w \<leftarrow> others E w;
        w \<leftarrow> give_callback_semaphore i w;
        Some (xReturn, w)
      })"

text \<open>The end of the subscriptions, if they are not kept.\<close>

definition shadow_unsubscribe :: "shadow_env \<Rightarrow> ShadowOperationCallParams_t \<Rightarrow> shadow \<Rightarrow> shadow option" where
  "shadow_unsubscribe E p w =
     (let i = xShadowClientID p; name = op_pcThingName (pxOperationParams p);
          ticks = max (xTimeoutTicks p) shadowconfigCLEANUP_TIME_TICKS;
          unsubscribe = (\<lambda>accepted w. do {
            (r, w) \<leftarrow> prvShadowUnsubscribeFromAcceptedRejected E i name accepted (Some (pcOperationRejectedTopic p)) ticks w;
            if r = eShadowSuccess then do {
              w \<leftarrow> others E w;
              Some (upd_client i (prvSetSubscribedFlag (xOperationName p) False) w)
            } else Some w
          }) in
      if xOperationName p = eShadowOperationDelete then do {
        w \<leftarrow> others E w;
        (_, w) \<leftarrow> create_topic i shadowTOPIC_DELETE_ACCEPTED name w;
        w \<leftarrow> others E w;
        n \<leftarrow> strlen (ucTopicBuffer (client w i));
        m \<leftarrow> prvMatchCallbackTopic (xCallbackCatalog (client w i)) (ucTopicBuffer (client w i)) (of_nat n) False (se_stack E (sh_trace w));
        (case m of None \<Rightarrow> unsubscribe None w | Some _ \<Rightarrow> Some w)
      } else unsubscribe (Some (pcOperationAcceptedTopic p)) w)"

text \<open>
  The end of the operation. The parameters of the user, as the callback left them, go back to
  the caller.
\<close>

definition shadow_finish :: "shadow_env \<Rightarrow> ShadowOperationCallParams_t \<Rightarrow> shadow \<Rightarrow> (ShadowOperationParams_t \<times> shadow) option" where
  "shadow_finish E p w =
     (let i = xShadowClientID p in do {
        w \<leftarrow> others E w;
        w \<leftarrow> take_data_mutex i w;
        ps \<leftarrow> Some (case pxOperationData (client w i) of None \<Rightarrow> pxOperationParams p | Some (_, ps) \<Rightarrow> ps);
        w \<leftarrow> Some (upd_client i (\<lambda>c. c\<lparr>pxOperationData := None\<rparr>) w);
        w \<leftarrow> give_data_mutex i w;
        w \<leftarrow> others E w;
        w \<leftarrow> Some (set_result i eShadowSuccess w);
        w \<leftarrow> others E w;
        w \<leftarrow> Some (upd_client i (\<lambda>c. c\<lparr>ucTopicBuffer := replicate shadowTOPIC_BUFFER_LENGTH 0\<rparr>) w);
        w \<leftarrow> others E w;
        w \<leftarrow> give_operation_mutex i w;
        Some (ps, w)
      })"

text \<open>
  The whole operation. The mutex of the operation is free or held by another task until the
  time is over; a wait that ends before is a later start.
\<close>

definition prvShadowOperation ::
  "shadow_env \<Rightarrow> ShadowOperationCallParams_t \<Rightarrow> shadow \<Rightarrow> (int \<times> ShadowOperationParams_t \<times> shadow) option" where
  "prvShadowOperation E p w =
     (let i = xShadowClientID p in do {
        w \<leftarrow> others E w;
        free \<leftarrow> xOperationMutex (client w i);
        if free then do {
          w \<leftarrow> Some (upd_client i (\<lambda>c. c\<lparr>xOperationMutex := Some False\<rparr>) w);
          w \<leftarrow> others E w;
          (xReturn, w) \<leftarrow> (if \<not> prvGetSubscribedFlag (xOperationName p) (client w i) then
              prvShadowSubscribeToAcceptedRejected E i (op_pcThingName (pxOperationParams p))
                (pcOperationAcceptedTopic p) (pcOperationRejectedTopic p) (xTimeoutTicks p) w
            else Some (eShadowSuccess, w));
          (xReturn, w) \<leftarrow> (if xReturn = eShadowSuccess then shadow_request E p w else Some (xReturn, w));
          w \<leftarrow> (if op_ucKeepSubscriptions (pxOperationParams p) = 0 then shadow_unsubscribe E p w else Some w);
          (ps, w) \<leftarrow> shadow_finish E p w;
          Some (xReturn, ps, w)
        } else Some (eShadowFailure, pxOperationParams p, w)
      })"

definition handle_ok :: "int \<Rightarrow> bool" where
  "handle_ok xShadowClientHandle \<longleftrightarrow> 0 \<le> xShadowClientHandle \<and> xShadowClientHandle < int shadowconfigMAX_CLIENTS"

definition qos_0_or_1 :: "MQTTQoS_t \<Rightarrow> bool" where
  "qos_0_or_1 q \<longleftrightarrow> q = eMQTTQoS0 \<or> q = eMQTTQoS1"

definition SHADOW_Update ::
  "shadow_env \<Rightarrow> int \<Rightarrow> ShadowOperationParams_t \<Rightarrow> u32 \<Rightarrow> shadow \<Rightarrow> (int \<times> ShadowOperationParams_t \<times> shadow) option" where
  "SHADOW_Update E xShadowClientHandle ps ticks w = do {
     configASSERT (handle_ok xShadowClientHandle);
     pcData \<leftarrow> op_pcData ps;
     configASSERT (qos_0_or_1 (op_xQoS ps));
     prvShadowOperation E
       \<lparr>xShadowClientID = xShadowClientHandle, xOperationName = eShadowOperationUpdate, pcOperationTopic = shadowTOPIC_UPDATE,
        pcOperationAcceptedTopic = shadowTOPIC_UPDATE_ACCEPTED, pcOperationRejectedTopic = shadowTOPIC_UPDATE_REJECTED,
        pcPublishMessage = pcData, ulPublishMessageLength = op_ulDataLength ps, pxOperationParams = ps, xTimeoutTicks = ticks\<rparr> w
   }"

definition SHADOW_Get ::
  "shadow_env \<Rightarrow> int \<Rightarrow> ShadowOperationParams_t \<Rightarrow> u32 \<Rightarrow> shadow \<Rightarrow> (int \<times> ShadowOperationParams_t \<times> shadow) option" where
  "SHADOW_Get E xShadowClientHandle ps ticks w = do {
     configASSERT (handle_ok xShadowClientHandle);
     configASSERT (qos_0_or_1 (op_xQoS ps));
     prvShadowOperation E
       \<lparr>xShadowClientID = xShadowClientHandle, xOperationName = eShadowOperationGet, pcOperationTopic = shadowTOPIC_GET,
        pcOperationAcceptedTopic = shadowTOPIC_GET_ACCEPTED, pcOperationRejectedTopic = shadowTOPIC_GET_REJECTED,
        pcPublishMessage = [0], ulPublishMessageLength = 0, pxOperationParams = ps, xTimeoutTicks = ticks\<rparr> w
   }"

definition SHADOW_Delete ::
  "shadow_env \<Rightarrow> int \<Rightarrow> ShadowOperationParams_t \<Rightarrow> u32 \<Rightarrow> shadow \<Rightarrow> (int \<times> ShadowOperationParams_t \<times> shadow) option" where
  "SHADOW_Delete E xShadowClientHandle ps ticks w = do {
     configASSERT (handle_ok xShadowClientHandle);
     configASSERT (qos_0_or_1 (op_xQoS ps));
     prvShadowOperation E
       \<lparr>xShadowClientID = xShadowClientHandle, xOperationName = eShadowOperationDelete, pcOperationTopic = shadowTOPIC_DELETE,
        pcOperationAcceptedTopic = shadowTOPIC_DELETE_ACCEPTED, pcOperationRejectedTopic = shadowTOPIC_DELETE_REJECTED,
        pcPublishMessage = [0], ulPublishMessageLength = 0, pxOperationParams = ps, xTimeoutTicks = ticks\<rparr> w
   }"

section \<open>Clients and callbacks\<close>

definition SHADOW_ClientDelete :: "shadow_env \<Rightarrow> int \<Rightarrow> shadow \<Rightarrow> (int \<times> shadow) option" where
  "SHADOW_ClientDelete E xShadowClientHandle w = do {
     configASSERT (handle_ok xShadowClientHandle);
     configASSERT (sc_xInUse (client w xShadowClientHandle));
     (r, w) \<leftarrow> agent E (CallAgentDelete (xMQTTClient (client w xShadowClientHandle))) w;
     if prvConvertMQTTReturnCode r = eShadowSuccess
     then Some (prvConvertMQTTReturnCode r, upd_client xShadowClientHandle (\<lambda>_. zero_client) w)
     else Some (prvConvertMQTTReturnCode r, w)
   }"

text \<open>The result is the code, the contents of \<open>*pxShadowClientHandle\<close>, and the state.\<close>

definition SHADOW_ClientCreate :: "shadow_env \<Rightarrow> int \<Rightarrow> shadow \<Rightarrow> (int \<times> int \<times> shadow) option" where
  "SHADOW_ClientCreate E handle w =
     (case prvGetFreeShadowClient w of (i, w) \<Rightarrow> do {
        configASSERT (i \<ge> 0);
        (r, w) \<leftarrow> agent E CallAgentCreate w;
        w \<leftarrow> Some (if r = eMQTTAgentSuccess then upd_client i (\<lambda>c. c\<lparr>xMQTTClient := se_handle E (sh_trace w)\<rparr>) w else w);
        if prvConvertMQTTReturnCode r = eShadowSuccess then do {
          w \<leftarrow> Some (upd_client i (\<lambda>c. c\<lparr>xCallbackSemaphore := Some False, xOperationMutex := Some True, xOperationDataMutex := Some True\<rparr>) w);
          w \<leftarrow> give_callback_semaphore i w;
          Some (prvConvertMQTTReturnCode r, i, w)
        } else do {
          (xReturn, w) \<leftarrow> SHADOW_ClientDelete E handle w;
          Some (xReturn, handle, w)
        }
      })"

definition SHADOW_ClientConnect ::
  "shadow_env \<Rightarrow> int \<Rightarrow> MQTTAgentConnectParams_t \<Rightarrow> u32 \<Rightarrow> shadow \<Rightarrow> (int \<times> MQTTAgentConnectParams_t \<times> shadow) option" where
  "SHADOW_ClientConnect E xShadowClientHandle cp ticks w = do {
     configASSERT (handle_ok xShadowClientHandle);
     configASSERT (xShadowClientHandle = ac_pvUserData cp);
     configASSERT (sc_xInUse (client w xShadowClientHandle));
     cp \<leftarrow> Some (cp\<lparr>ac_pxCallback := prvShadowMQTTCallback_ptr\<rparr>);
     (r, w) \<leftarrow> agent E (CallAgentConnect (xMQTTClient (client w xShadowClientHandle)) cp ticks) w;
     Some (prvConvertMQTTReturnCode r, cp\<lparr>ac_pxCallback := NullCallback\<rparr>, w)
   }"

definition SHADOW_ClientDisconnect :: "shadow_env \<Rightarrow> int \<Rightarrow> shadow \<Rightarrow> (int \<times> shadow) option" where
  "SHADOW_ClientDisconnect E xShadowClientHandle w = do {
     configASSERT (handle_ok xShadowClientHandle);
     configASSERT (sc_xInUse (client w xShadowClientHandle));
     (r, w) \<leftarrow> agent E (CallAgentDisconnect (xMQTTClient (client w xShadowClientHandle)) shadowconfigCLEANUP_TIME_TICKS) w;
     Some (prvConvertMQTTReturnCode r, w)
   }"

definition SHADOW_ReturnMQTTBuffer :: "shadow_env \<Rightarrow> int \<Rightarrow> addr \<Rightarrow> shadow \<Rightarrow> (int \<times> shadow) option" where
  "SHADOW_ReturnMQTTBuffer E xShadowClientHandle xBufferHandle w = do {
     configASSERT (handle_ok xShadowClientHandle);
     configASSERT (sc_xInUse (client w xShadowClientHandle));
     (r, w) \<leftarrow> agent E (CallAgentReturnBuffer (xMQTTClient (client w xShadowClientHandle)) xBufferHandle) w;
     Some (prvConvertMQTTReturnCode r, w)
   }"

text \<open>
  Registering one callback: \<open>get\<close> and \<open>put\<close> access the field of entry \<open>j\<close> that \<open>ppvOldCallback\<close>
  points to.
\<close>

definition upd_entry :: "int \<Rightarrow> nat \<Rightarrow> (ShadowCallbackParams_t \<Rightarrow> ShadowCallbackParams_t) \<Rightarrow> shadow \<Rightarrow> shadow" where
  "upd_entry i j f w = upd_client i (\<lambda>c. c\<lparr>xCallbackCatalog :=
     (xCallbackCatalog c)[j := (xCallbackCatalog c ! j)\<lparr>xCallbackInfo := f (xCallbackInfo (xCallbackCatalog c ! j))\<rparr>]\<rparr>) w"

definition prvRegisterCallback ::
  "shadow_env \<Rightarrow> int \<Rightarrow> nat \<Rightarrow> (ShadowCallbackParams_t \<Rightarrow> nat option) \<Rightarrow> (nat option \<Rightarrow> ShadowCallbackParams_t \<Rightarrow> ShadowCallbackParams_t) \<Rightarrow>
   nat option \<Rightarrow> u8 list \<Rightarrow> u8 list \<Rightarrow> u32 \<Rightarrow> shadow \<Rightarrow> (int \<times> shadow) option" where
  "prvRegisterCallback E i j get put new pcThingName fmt ticks w = do {
     (n, ucTopicString) \<leftarrow> prvCreateTopic (se_stack E (sh_trace w)) (of_nat shadowTOPIC_BUFFER_LENGTH) fmt pcThingName;
     w \<leftarrow> others E w;
     (xReturn, w) \<leftarrow> (if get (xCallbackInfo (xCallbackCatalog (client w i) ! j)) \<noteq> None then do {
         (r, w) \<leftarrow> agent E (CallAgentUnsubscribe (xMQTTClient (client w i)) \<lparr>au_pucTopic = ucTopicString, au_usTopicLength = n\<rparr> ticks) w;
         Some (prvConvertMQTTReturnCode r, w)
       } else Some (eShadowSuccess, w));
     (xReturn, w) \<leftarrow> (if new \<noteq> None then do {
         (r, w) \<leftarrow> agent E (CallAgentSubscribe (xMQTTClient (client w i))
           \<lparr>as_pucTopic = ucTopicString, as_usTopicLength = n, as_xQoS = eMQTTQoS1, as_pvPublishCallbackContext = 0,
        as_pxPublishCallback = None\<rparr> ticks) w;
         Some (prvConvertMQTTReturnCode r, w)
       } else Some (xReturn, w));
     w \<leftarrow> others E w;
     Some (xReturn, if xReturn = eShadowSuccess then upd_entry i j (put new) w else w)
   }"

definition SHADOW_RegisterCallbacks :: "shadow_env \<Rightarrow> int \<Rightarrow> ShadowCallbackParams_t \<Rightarrow> u32 \<Rightarrow> shadow \<Rightarrow> (int \<times> shadow) option" where
  "SHADOW_RegisterCallbacks E xShadowClientHandle cb ticks w = do {
     configASSERT (handle_ok xShadowClientHandle);
     configASSERT (sc_xInUse (client w xShadowClientHandle));
     (j, cat) \<leftarrow> prvGetCallbackCatalogEntry (xCallbackCatalog (client w xShadowClientHandle)) (cb_pcThingName cb);
     configASSERT (j \<ge> 0);
     j \<leftarrow> Some (nat j);
     w \<leftarrow> Some (upd_client xShadowClientHandle (\<lambda>c. c\<lparr>xCallbackCatalog := cat\<rparr>) w);
     (xReturn, w) \<leftarrow> prvRegisterCallback E xShadowClientHandle j xShadowUpdatedCallback (\<lambda>f e. e\<lparr>xShadowUpdatedCallback := f\<rparr>)
       (xShadowUpdatedCallback cb) (cb_pcThingName cb) shadowTOPIC_UPDATE_DOCUMENTS ticks w;
     (xReturn, w) \<leftarrow> (if xReturn = eShadowSuccess then
         prvRegisterCallback E xShadowClientHandle j xShadowDeletedCallback (\<lambda>f e. e\<lparr>xShadowDeletedCallback := f\<rparr>)
           (xShadowDeletedCallback cb) (cb_pcThingName cb) shadowTOPIC_DELETE_ACCEPTED ticks w
       else Some (xReturn, w));
     (xReturn, w) \<leftarrow> (if xReturn = eShadowSuccess then
         prvRegisterCallback E xShadowClientHandle j xShadowDeltaCallback (\<lambda>f e. e\<lparr>xShadowDeltaCallback := f\<rparr>)
           (xShadowDeltaCallback cb) (cb_pcThingName cb) shadowTOPIC_UPDATE_DELTA ticks w
       else Some (xReturn, w));
     w \<leftarrow> others E w;
     (let e = xCallbackInfo (xCallbackCatalog (client w xShadowClientHandle) ! j) in
      Some (xReturn,
        if xShadowUpdatedCallback e = None \<and> xShadowDeltaCallback e = None \<and> xShadowDeletedCallback e = None
        then upd_client xShadowClientHandle (\<lambda>c. c\<lparr>xCallbackCatalog := (xCallbackCatalog c)[j := zero_entry]\<rparr>) w else w))
   }"

end
