(* ===== verification/ShadowMessages.thy ===== *)
theory ShadowMessages
  imports ShadowClient
begin

text \<open>
  What a message of the shadow service does to a client, whether or not an operation is in
  progress, and the invariants that hold while messages arrive: the locale
  \<open>message_invariant\<close> carries a predicate over all the points at which they may arrive.
\<close>

section \<open>What a message changes\<close>

definition in_range :: "shadow \<Rightarrow> int \<Rightarrow> bool" where
  "in_range w i \<longleftrightarrow> nat i < length (xShadowClients w)"

lemma client_upd:
  "client (upd_client i f w) j = (if nat i = nat j \<and> in_range w i then f (client w i) else client w j)"
  by (cases "in_range w i") (auto simp: upd_client_def in_range_def nth_list_update list_update_beyond)

lemma upd_upd [simp]: "upd_client i f (upd_client i g w) = upd_client i (\<lambda>c. f (g c)) w"
  by (cases "in_range w i") (auto simp: upd_client_def in_range_def list_update_beyond)

lemma shadow_frame [simp]:
  "length (xShadowClients (upd_client i f w)) = length (xShadowClients w)" "sh_trace (upd_client i f w) = sh_trace w"
  "xShadowClients (record_obs x w) = xShadowClients w" "sh_trace (record_obs x w) = x # sh_trace w"
  "in_range (upd_client i f w) j = in_range w j" "in_range (record_obs x w) j = in_range w j"
  by (simp_all add: upd_client_def record_obs_def in_range_def)

lemma give_callback_iff:
  "give_callback_semaphore i w = Some w' \<longleftrightarrow>
     xCallbackSemaphore (client w i) = Some False \<and> w' = upd_client i (\<lambda>c. c\<lparr>xCallbackSemaphore := Some True\<rparr>) w"
  by (auto simp: give_callback_semaphore_def xSemaphoreGive_def configASSERT_def bind_eq_Some_conv split: if_splits)

lemma give_operation_iff:
  "give_operation_mutex i w = Some w' \<longleftrightarrow>
     xOperationMutex (client w i) = Some False \<and> w' = upd_client i (\<lambda>c. c\<lparr>xOperationMutex := Some True\<rparr>) w"
  by (auto simp: give_operation_mutex_def xSemaphoreGive_def configASSERT_def bind_eq_Some_conv split: if_splits)

lemma give_data_iff:
  "give_data_mutex i w = Some w' \<longleftrightarrow>
     xOperationDataMutex (client w i) = Some False \<and> w' = upd_client i (\<lambda>c. c\<lparr>xOperationDataMutex := Some True\<rparr>) w"
  by (auto simp: give_data_mutex_def xSemaphoreGive_def configASSERT_def bind_eq_Some_conv split: if_splits)

lemma take_data_iff:
  "take_data_mutex i w = Some w' \<longleftrightarrow>
     xOperationDataMutex (client w i) = Some True \<and> w' = upd_client i (\<lambda>c. c\<lparr>xOperationDataMutex := Some False\<rparr>) w"
  by (auto simp: take_data_mutex_def)

lemmas semaphore_iffs = give_callback_iff give_operation_iff give_data_iff take_data_iff

text \<open>
  A message changes a client only in its flags, and, during an operation, in the result, the
  parameters of the operation and the callback semaphore, which it can only give.
\<close>

definition event_frame :: "ShadowClient_t \<Rightarrow> ShadowClient_t \<Rightarrow> bool" where
  "event_frame c c' \<longleftrightarrow> xMQTTClient c' = xMQTTClient c \<and> sc_xInUse c' = sc_xInUse c \<and> xOperationDataMutex c' = xOperationDataMutex c \<and>
     xOperationMutex c' = xOperationMutex c \<and> xCallbackCatalog c' = xCallbackCatalog c \<and> ucTopicBuffer c' = ucTopicBuffer c \<and>
     map_option fst (pxOperationData c') = map_option fst (pxOperationData c) \<and>
     (pxOperationData c = None \<longrightarrow> xCallbackSemaphore c' = xCallbackSemaphore c \<and> xOperationResult c' = xOperationResult c) \<and>
     (xCallbackSemaphore c' = xCallbackSemaphore c \<or> xCallbackSemaphore c = Some False \<and> xCallbackSemaphore c' = Some True)"

lemma event_frame_refl [simp]: "event_frame c c"
  by (simp add: event_frame_def)

lemma event_frame_trans: "event_frame c d \<Longrightarrow> event_frame d e \<Longrightarrow> event_frame c e"
  by (auto simp: event_frame_def)

text \<open>What an answer to the operation in progress does to the client: the result and the parameters.\<close>

definition answer_result :: "int \<Rightarrow> MQTTPublishData_t \<Rightarrow> int \<Rightarrow> bool" where
  "answer_result s pd r \<longleftrightarrow>
     (if s = eShadowSuccess then r = eShadowSuccess
      else \<exists>ts m code. SHADOW_JSONGetErrorCodeAndMessage ts (pd_pvData pd) (unat (pd_ulDataLength pd)) True = Some (code, m) \<and>
        r = (if code = 0 then eShadowJSMNInval else code))"

lemma status_values: "prvParseShadowOperationStatus t n = Some s \<Longrightarrow> s \<in> {eShadowSuccess, eShadowFailure, eShadowUnknown}"
  by (auto simp: prvParseShadowOperationStatus_def bind_eq_Some_conv split: if_splits)

lemmas shadow_codes = eShadowSuccess_def eShadowFailure_def eShadowUnknown_def eShadowTimeout_def eShadowJSMNInval_def

lemma error_code_result:
  assumes "prvGetErrorCodeAndMessage E (pd_pvData pd) (pd_ulDataLength pd) w = Some code" and "s \<noteq> eShadowSuccess"
  shows "answer_result s pd code"
proof -
  obtain r m where "SHADOW_JSONGetErrorCodeAndMessage (se_tokens E (sh_trace w)) (pd_pvData pd) (unat (pd_ulDataLength pd)) True = Some (r, m)"
    "code = (if r = 0 then eShadowJSMNInval else r)"
    using assms(1) by (auto simp: prvGetErrorCodeAndMessage_def bind_eq_Some_conv)
  then show ?thesis using assms(2) unfolding answer_result_def by (metis (full_types))
qed

lemma read_after_result [simp]:
  "xCallbackSemaphore (client (set_result i r w) i) = xCallbackSemaphore (client w i)"
  "xCallbackSemaphore (client (upd_params i f w) i) = xCallbackSemaphore (client w i)"
  "pxOperationData (client (set_result i r w) i) = pxOperationData (client w i)"
  by (simp_all add: set_result_def upd_params_def client_upd)

definition update_answer :: "ShadowOperationName_t \<Rightarrow> ShadowOperationParams_t \<Rightarrow> MQTTPublishData_t \<Rightarrow> bool" where
  "update_answer operation ps pd \<longleftrightarrow>
     (operation = eShadowOperationUpdate \<longrightarrow> (\<exists>ts sent. op_pcData ps = Some sent \<and>
        SHADOW_JSONDocClientTokenMatch ts sent (unat (op_ulDataLength ps)) (pd_pvData pd) (unat (pd_ulDataLength pd)) = Some True))"

definition answered_params :: "ShadowOperationName_t \<Rightarrow> int \<Rightarrow> MQTTPublishData_t \<Rightarrow> ShadowOperationParams_t \<Rightarrow> ShadowOperationParams_t" where
  "answered_params operation s pd ps =
     (if operation = eShadowOperationGet then
        if s = eShadowSuccess then ps\<lparr>op_pcData := Some (pd_pvData pd), op_ulDataLength := pd_ulDataLength pd, op_xBuffer := pd_xBuffer pd\<rparr>
        else ps\<lparr>op_pcData := None, op_ulDataLength := 0\<rparr>
      else ps)"

definition set_answer :: "int \<Rightarrow> int \<Rightarrow> ShadowOperationName_t \<Rightarrow> ShadowOperationParams_t \<Rightarrow> shadow \<Rightarrow> shadow" where
  "set_answer i r operation ps w = upd_client i (\<lambda>c. c\<lparr>xCallbackSemaphore := Some True, xOperationResult := r, pxOperationData := Some (operation, ps)\<rparr>) w"

lemma upd_client_cong: "f (client w i) = g (client w i) \<Longrightarrow> upd_client i f w = upd_client i g w"
  by (simp add: upd_client_def)

lemma result_code:
  assumes "(if s = eShadowFailure then do {
      code \<leftarrow> prvGetErrorCodeAndMessage E (pd_pvData pd) (pd_ulDataLength pd) (set_result i s w);
      Some (set_result i code (set_result i s w)) } else Some (set_result i s w)) = Some w'"
    and "s = eShadowSuccess \<or> s = eShadowFailure"
  obtains r where "answer_result s pd r" "w' = set_result i r w"
proof (cases "s = eShadowFailure")
  case True
  then obtain code where "prvGetErrorCodeAndMessage E (pd_pvData pd) (pd_ulDataLength pd) (set_result i s w) = Some code"
    "w' = set_result i code (set_result i s w)" using assms(1) by (auto simp: bind_eq_Some_conv)
  then show thesis using that [of code] error_code_result [of E pd _ code s] True by (auto simp: set_result_def shadow_codes)
next
  case False
  then show thesis using that [of s] assms by (auto simp: answer_result_def)
qed

text \<open>A callback that recorded the result \<open>r\<close> and gave the semaphore.\<close>

lemma give_answer:
  assumes "give_callback_semaphore i (set_result i r w) = Some w'" and "pxOperationData (client w i) = Some (operation, ps)"
  shows "xCallbackSemaphore (client w i) = Some False" "w' = set_answer i r operation ps w"
  using assms by (auto simp: give_callback_iff set_result_def client_upd set_answer_def intro!: upd_client_cong split: if_splits)

lemma update_callback_effect:
  assumes "prvShadowUpdateCallback E i s ps (pd_pvData pd) (pd_ulDataLength pd) w = Some w'"
    and "pxOperationData (client w i) = Some (eShadowOperationUpdate, ps)" and "s = eShadowSuccess \<or> s = eShadowFailure"
  shows "w' = w \<or> xCallbackSemaphore (client w i) = Some False \<and>
    (\<exists>r. answer_result s pd r \<and> update_answer eShadowOperationUpdate ps pd \<and> w' = set_answer i r eShadowOperationUpdate ps w)"
proof -
  obtain sent same where m: "op_pcData ps = Some sent"
    "SHADOW_JSONDocClientTokenMatch (se_tokens E (sh_trace w)) sent (unat (op_ulDataLength ps)) (pd_pvData pd) (unat (pd_ulDataLength pd)) = Some same"
    using assms(1) by (auto simp: prvShadowUpdateCallback_def bind_eq_Some_conv)
  show ?thesis
  proof (cases same)
    case True
    then have u: "update_answer eShadowOperationUpdate ps pd" using m by (auto simp: update_answer_def)
    obtain w1 where w1: "(if s = eShadowFailure then do {
      code \<leftarrow> prvGetErrorCodeAndMessage E (pd_pvData pd) (pd_ulDataLength pd) (set_result i s w);
      Some (set_result i code (set_result i s w)) } else Some (set_result i s w)) = Some w1" "give_callback_semaphore i w1 = Some w'"
      using assms(1) True m by (auto simp: prvShadowUpdateCallback_def bind_eq_Some_conv)
    obtain r where "answer_result s pd r" "w1 = set_result i r w" by (rule result_code [OF w1(1) assms(3)])
    then show ?thesis using give_answer [OF _ assms(2)] w1(2) u by blast
  qed (use assms(1) m in \<open>auto simp: prvShadowUpdateCallback_def\<close>)
qed

lemma delete_callback_effect:
  assumes "prvShadowDeleteCallback E i s (pd_pvData pd) (pd_ulDataLength pd) w = Some w'"
    and "pxOperationData (client w i) = Some (operation, ps)" and "s = eShadowSuccess \<or> s = eShadowFailure"
  shows "xCallbackSemaphore (client w i) = Some False \<and> (\<exists>r. answer_result s pd r \<and> w' = set_answer i r operation ps w)"
proof -
  obtain w1 where w1: "(if s = eShadowFailure then do {
      code \<leftarrow> prvGetErrorCodeAndMessage E (pd_pvData pd) (pd_ulDataLength pd) (set_result i s w);
      Some (set_result i code (set_result i s w)) } else Some (set_result i s w)) = Some w1" "give_callback_semaphore i w1 = Some w'"
    using assms(1) by (auto simp: prvShadowDeleteCallback_def bind_eq_Some_conv)
  obtain r where "answer_result s pd r" "w1 = set_result i r w" by (rule result_code [OF w1(1) assms(3)])
  then show ?thesis using give_answer [OF _ assms(2)] w1(2) by blast
qed

lemma get_callback_effect:
  assumes "prvShadowGetCallback E i s (pd_pvData pd) (pd_ulDataLength pd) (pd_xBuffer pd) w = Some w'"
    and "pxOperationData (client w i) = Some (eShadowOperationGet, ps)" and "s = eShadowSuccess \<or> s = eShadowFailure"
  shows "xCallbackSemaphore (client w i) = Some False \<and>
    (\<exists>r. answer_result s pd r \<and> w' = set_answer i r eShadowOperationGet (answered_params eShadowOperationGet s pd ps) w)"
proof (cases "s = eShadowSuccess")
  case True
  then show ?thesis
    using assms(1,2)
    by (auto simp: prvShadowGetCallback_def give_callback_iff set_result_def upd_params_def client_upd set_answer_def answer_result_def
        answered_params_def intro!: upd_client_cong split: if_splits)
next
  case False
  then obtain code where "answer_result s pd code" "xCallbackSemaphore (client w i) = Some False"
    "w' = upd_client i (\<lambda>c. c\<lparr>xCallbackSemaphore := Some True\<rparr>)
      (upd_params i (\<lambda>ps. ps\<lparr>op_pcData := None, op_ulDataLength := 0\<rparr>) (set_result i code (set_result i s w)))"
    using assms(1) by (auto simp: prvShadowGetCallback_def bind_eq_Some_conv give_callback_iff dest!: error_code_result)
  then show ?thesis
    using assms(2) False
    by (auto simp: set_result_def upd_params_def set_answer_def answered_params_def intro!: exI upd_client_cong)
qed

lemma operation_answer_effect:
  assumes "operation_answer E i operation ps s pd w = Some (taken, w')" and "pxOperationData (client w i) = Some (operation, ps)"
    and "s = eShadowSuccess \<or> s = eShadowFailure"
  shows "w' = w \<or> xCallbackSemaphore (client w i) = Some False \<and>
    (\<exists>r. answer_result s pd r \<and> update_answer operation ps pd \<and> w' = set_answer i r operation (answered_params operation s pd ps) w)"
proof (cases operation)
  case eShadowOperationUpdate
  then have "prvShadowUpdateCallback E i s ps (pd_pvData pd) (pd_ulDataLength pd) w = Some w'"
    using assms(1) by (auto simp: operation_answer_def bind_eq_Some_conv)
  then show ?thesis
    using update_callback_effect [of E i s ps pd w w'] assms(2,3) eShadowOperationUpdate by (auto simp: answered_params_def)
next
  case eShadowOperationGet
  then have "prvShadowGetCallback E i s (pd_pvData pd) (pd_ulDataLength pd) (pd_xBuffer pd) w = Some w'"
    using assms(1) by (auto simp: operation_answer_def bind_eq_Some_conv)
  then show ?thesis
    using get_callback_effect [of E i s pd w w' ps] assms(2,3) eShadowOperationGet by (auto simp: update_answer_def)
next
  case eShadowOperationDelete
  then have "prvShadowDeleteCallback E i s (pd_pvData pd) (pd_ulDataLength pd) w = Some w'"
    using assms(1) by (auto simp: operation_answer_def bind_eq_Some_conv)
  then show ?thesis
    using delete_callback_effect [of E i s pd w w' operation ps] assms(2,3) eShadowOperationDelete
    by (auto simp: update_answer_def answered_params_def)
qed (use assms(1) in \<open>auto simp: operation_answer_def\<close>)

text \<open>The topic of a message fits an operation with the topic \<open>T\<close> and reports its status.\<close>

definition message_topic :: "MQTTPublishData_t \<Rightarrow> u8 list" where
  "message_topic pd = take (unat (pd_usTopicLength pd)) (pd_pucTopic pd)"

definition message_status :: "u8 list \<Rightarrow> MQTTPublishData_t \<Rightarrow> int \<Rightarrow> bool" where
  "message_status T pd s \<longleftrightarrow> (prefix T (message_topic pd) \<or> prefix (message_topic pd) T) \<and>
     (s = eShadowSuccess \<and> suffix shadowTOPIC_SUFFIX_ACCEPTED (message_topic pd) \<or>
      s = eShadowFailure \<and> suffix shadowTOPIC_SUFFIX_REJECTED (message_topic pd))"

lemma strncmp_true:
  "strncmp_eq a b n = Some True \<Longrightarrow> 0 \<notin> set (take n b) \<Longrightarrow> n \<le> length b \<Longrightarrow> n \<le> length a \<and> take n a = take n b"
  by (induction a b n rule: strncmp_eq.induct) (auto split: if_splits)

lemma take_common: "take (min m n) a = take (min m n) b \<Longrightarrow> n \<le> length a \<Longrightarrow> m \<le> length b \<Longrightarrow> prefix (take m b) (take n a) \<or> prefix (take n a) (take m b)"
  by (metis min.absorb_iff1 min.absorb_iff2 nle_le take_is_prefix take_take min.commute)

lemma suffix_status:
  assumes "strncmp_eq (drop (unat n - 9) topic) (s @ [0]) 9 = Some True" and "length s = 9" and "0 \<notin> set s" and "9 \<le> unat n"
  shows "unat n \<le> length topic" "suffix s (take (unat n) topic)"
proof -
  have t: "9 \<le> length (drop (unat n - 9) topic)" "take 9 (drop (unat n - 9) topic) = s"
    using strncmp_true [OF assms(1)] assms(2,3) by auto
  show "unat n \<le> length topic" using t(1) assms(4) by simp
  have "drop (unat n - 9) (take (unat n) topic) = s" using t(2) assms(4) by (simp add: drop_take)
  then show "suffix s (take (unat n) topic)" by (metis suffix_drop)
qed

lemma parse_status:
  assumes "prvParseShadowOperationStatus topic n = Some s" and "s \<noteq> eShadowUnknown"
  shows "unat n \<le> length topic \<and> (s = eShadowSuccess \<and> suffix shadowTOPIC_SUFFIX_ACCEPTED (take (unat n) topic) \<or>
      s = eShadowFailure \<and> suffix shadowTOPIC_SUFFIX_REJECTED (take (unat n) topic))"
proof -
  have s: "length shadowTOPIC_SUFFIX_ACCEPTED = 9" "length shadowTOPIC_SUFFIX_REJECTED = 9"
    "0 \<notin> set shadowTOPIC_SUFFIX_ACCEPTED" "0 \<notin> set shadowTOPIC_SUFFIX_REJECTED"
    by (simp_all add: shadowTOPIC_SUFFIX_ACCEPTED_def shadowTOPIC_SUFFIX_REJECTED_def cstr_def)
  show ?thesis
    using assms suffix_status [OF _ s(1,3), of n topic] suffix_status [OF _ s(2,4), of n topic]
    by (auto simp: prvParseShadowOperationStatus_def bind_eq_Some_conv s(1,2) split: if_splits)
qed

abbreviation operation_topic :: "ShadowClient_t \<Rightarrow> u8 list" where
  "operation_topic c \<equiv> takeWhile (\<lambda>c. c \<noteq> 0) (ucTopicBuffer c)"

lemma operation_answer_taken:
  "operation_answer E i operation ps s pd w = Some (taken, w') \<Longrightarrow> taken = (operation = eShadowOperationGet \<and> s = eShadowSuccess)"
  by (cases operation) (auto simp: operation_answer_def bind_eq_Some_conv)

lemma match_answer_effect:
  assumes "match_answer E i pd w = Some (m, taken, w')"
  shows "w' = w \<or> m \<and> (\<exists>operation ps s r. taken = (operation = eShadowOperationGet \<and> s = eShadowSuccess) \<and> pxOperationData (client w i) = Some (operation, ps) \<and> xCallbackSemaphore (client w i) = Some False \<and>
    message_status (operation_topic (client w i)) pd s \<and> answer_result s pd r \<and> update_answer operation ps pd \<and>
    w' = set_answer i r operation (answered_params operation s pd ps) w)"
proof (cases "pxOperationData (client w i)")
  case None
  then show ?thesis using assms by (simp add: match_answer_def)
next
  case (Some d)
  obtain operation ps where d: "pxOperationData (client w i) = Some (operation, ps)" using Some by (cases d) auto
  let ?buf = "ucTopicBuffer (client w i)" and ?T = "operation_topic (client w i)" and ?n = "unat (pd_usTopicLength pd)"
  show ?thesis
  proof (cases "w' = w")
    case False
    then obtain s where s: "strncmp_eq (pd_pucTopic pd) ?buf (min (length ?T) ?n) = Some True"
      "prvParseShadowOperationStatus (pd_pucTopic pd) (pd_usTopicLength pd) = Some s" "s \<noteq> eShadowUnknown"
      "operation_answer E i operation ps s pd w = Some (taken, w')" m
      using assms d by (auto simp: match_answer_def strlen_def bind_eq_Some_conv split: if_splits)
    note p = parse_status [OF s(2,3)]
    have tT: "take (length ?T) ?buf = ?T" using takeWhile_eq_take [of "\<lambda>c. c \<noteq> 0" ?buf] by metis
    have l: "length ?T \<le> length ?buf" by (rule length_takeWhile_le)
    have "0 \<notin> set (take (min (length ?T) ?n) ?buf)"
      using tT by (metis (mono_tags, lifting) in_set_takeD min.commute set_takeWhileD take_take)
    then have "take (min (length ?T) ?n) (pd_pucTopic pd) = take (min (length ?T) ?n) ?buf" using strncmp_true [OF s(1)] l by auto
    then have "prefix ?T (message_topic pd) \<or> prefix (message_topic pd) ?T"
      using take_common [of "length ?T" ?n "pd_pucTopic pd" ?buf] p l unfolding tT message_topic_def by auto
    then have "message_status ?T pd s" using p by (auto simp: message_status_def message_topic_def)
    then show ?thesis using operation_answer_effect [OF s(4) d] operation_answer_taken [OF s(4)] s(5) p d False by blast
  qed simp
qed

lemma upd_client_id: "f (client w i) = client w i \<Longrightarrow> upd_client i f w = w"
  by (simp add: upd_client_def)

lemma notify_user_frame:
  assumes "notify_user E i pd w = Some (taken, w')"
  shows "xShadowClients w' = xShadowClients w \<and> (\<exists>new. sh_trace w' = new @ sh_trace w)"
proof -
  obtain m where m: "prvMatchCallbackTopic (xCallbackCatalog (client w i)) (pd_pucTopic pd) (pd_usTopicLength pd) True (se_stack E (sh_trace w)) = Some m"
    using assms by (auto simp: notify_user_def bind_eq_Some_conv)
  consider "m = None" | j where "m = Some (j, None)" | j operation where "m = Some (j, Some operation)"
    by (cases m; cases "snd (the m)") auto
  then show ?thesis
  proof cases
    case (3 j operation)
    then show ?thesis
      using assms m by (cases operation) (auto simp: notify_user_def bind_eq_Some_conv call_user_def Let_def)
  qed (use assms m in \<open>auto simp: notify_user_def\<close>)
qed

text \<open>The effect of the callback on the clients.\<close>

inductive message_effect :: "int \<Rightarrow> MQTTAgentCallbackParams_t \<Rightarrow> shadow \<Rightarrow> bool \<Rightarrow> ShadowClient_t list \<Rightarrow> bool" where
  unchanged: "message_effect j p w taken (xShadowClients w)"
| disconnected: "message_effect j eMQTTAgentDisconnect w taken (xShadowClients (upd_client j clear_flags w))"
| answered: "pxOperationData (client w j) = Some (operation, ps) \<Longrightarrow> xCallbackSemaphore (client w j) = Some False \<Longrightarrow>
    message_status (operation_topic (client w j)) pd s \<Longrightarrow> answer_result s pd r \<Longrightarrow> update_answer operation ps pd \<Longrightarrow>
    taken = (operation = eShadowOperationGet \<and> s = eShadowSuccess) \<Longrightarrow>
    message_effect j (eMQTTAgentPublish pd) w taken (xShadowClients (set_answer j r operation (answered_params operation s pd ps) w))"

lemma callback_effect:
  assumes "prvShadowMQTTCallback E j p w = Some (taken, w')"
  shows "message_effect j p w taken (xShadowClients w') \<and> (\<exists>new. sh_trace w' = new @ sh_trace w)"
proof (cases p)
  case eMQTTAgentDisconnect
  then show ?thesis using assms by (auto simp: prvShadowMQTTCallback_def intro: message_effect.disconnected)
next
  case (eMQTTAgentPublish pd)
  let ?w1 = "upd_client j (\<lambda>c. c\<lparr>xOperationDataMutex := Some False\<rparr>) w"
  obtain m t w2 where c: "xOperationDataMutex (client w j) = Some True" "match_answer E j pd ?w1 = Some (m, t, w2)"
    "if m then taken = t \<and> w' = upd_client j (\<lambda>c. c\<lparr>xOperationDataMutex := Some True\<rparr>) w2
     else notify_user E j pd (upd_client j (\<lambda>c. c\<lparr>xOperationDataMutex := Some True\<rparr>) w2) = Some (taken, w')"
    using assms eMQTTAgentPublish by (auto simp: prvShadowMQTTCallback_def bind_eq_Some_conv semaphore_iffs split: if_splits)
  let ?w3 = "upd_client j (\<lambda>c. c\<lparr>xOperationDataMutex := Some True\<rparr>) w2"
  have w': "xShadowClients w' = xShadowClients ?w3" "\<exists>new. sh_trace w' = new @ sh_trace w2" "m \<Longrightarrow> taken = t"
    using c(3) notify_user_frame by (fastforce split: if_splits)+
  have rd: "pxOperationData (client ?w1 j) = pxOperationData (client w j)" "xCallbackSemaphore (client ?w1 j) = xCallbackSemaphore (client w j)"
    "ucTopicBuffer (client ?w1 j) = ucTopicBuffer (client w j)" by (simp_all add: client_upd)
  have dm: "(client w j)\<lparr>xOperationDataMutex := Some True\<rparr> = client w j" using c(1) by simp
  consider "w2 = ?w1" | operation ps s r where "pxOperationData (client w j) = Some (operation, ps)" "xCallbackSemaphore (client w j) = Some False"
    "message_status (operation_topic (client w j)) pd s" "answer_result s pd r" "update_answer operation ps pd"
    "t = (operation = eShadowOperationGet \<and> s = eShadowSuccess)" m
    "w2 = set_answer j r operation (answered_params operation s pd ps) ?w1"
    using match_answer_effect [OF c(2)] unfolding rd by blast
  then show ?thesis
  proof cases
    case 1
    then have "?w3 = w" using dm by (simp add: upd_client_id)
    then show ?thesis using w' 1 by (auto intro: message_effect.unchanged)
  next
    case 2
    then have "?w3 = set_answer j r operation (answered_params operation s pd ps) w"
      using c(1) by (auto simp: set_answer_def intro: upd_client_cong)
    moreover have "sh_trace w2 = sh_trace w" using 2(8) by (simp add: set_answer_def)
    ultimately show ?thesis using w' 2(1-7) eMQTTAgentPublish by (auto intro: message_effect.answered)
  qed
qed

lemma event_effect:
  assumes "mqtt_event E (j, p) w = Some w'"
  shows "\<exists>taken new. message_effect j p w taken (xShadowClients w') \<and> sh_trace w' = OMessage j p taken # new @ sh_trace w"
  using assms callback_effect [of E j p w] by (fastforce simp: mqtt_event_def bind_eq_Some_conv)

section \<open>Invariants of a running operation\<close>

text \<open>
  A predicate that every message and every observation keeps is kept at every point at which
  messages may arrive, and while the operation waits for the semaphore.
\<close>

locale message_invariant =
  fixes Q :: "shadow \<Rightarrow> bool"
  assumes message: "Q w \<Longrightarrow> message_effect j p w taken cs \<Longrightarrow> xShadowClients w' = cs \<Longrightarrow> sh_trace w' = OMessage j p taken # new @ sh_trace w \<Longrightarrow> Q w'"
    and observation: "Q w \<Longrightarrow> Q (record_obs x w)"
begin

lemma event: "Q w \<Longrightarrow> mqtt_event E e w = Some w' \<Longrightarrow> Q w'"
  using event_effect [of E "fst e" "snd e" w w'] message by auto

lemma events: "Q w \<Longrightarrow> mqtt_events E es w = Some w' \<Longrightarrow> Q w'"
  by (induction es arbitrary: w) (auto simp: bind_eq_Some_conv dest: event)

lemma others: "Q w \<Longrightarrow> others E w = Some w' \<Longrightarrow> Q w'"
  unfolding others_def using events observation by blast

lemma agent_call:
  assumes "Q w" and "agent E c w = Some (r, w')"
  obtains w1 where "Q w1" "w' = record_obs (OAgent c r) w1"
  using assms by (auto simp: agent_def bind_eq_Some_conv Let_def dest: others)

lemma agent: "Q w \<Longrightarrow> agent E c w = Some (r, w') \<Longrightarrow> Q w'"
  by (erule agent_call) (auto intro: observation)

lemma wait_loop:
  "Q w \<Longrightarrow> wait_loop E i es w = Some (ok, w') \<Longrightarrow>
     \<exists>w1. Q w1 \<and> xCallbackSemaphore (client w1 i) = Some ok \<and>
       w' = (if ok then upd_client i (\<lambda>c. c\<lparr>xCallbackSemaphore := Some False\<rparr>) w1 else w1)"
proof (induction es arbitrary: w)
  case Nil
  then show ?case by (subst (asm) wait_loop.simps) (auto simp: bind_eq_Some_conv split: if_splits)
next
  case (Cons e es)
  consider "xCallbackSemaphore (client w i) = Some True" "ok" "w' = upd_client i (\<lambda>c. c\<lparr>xCallbackSemaphore := Some False\<rparr>) w"
    | w1 where "mqtt_event E e w = Some w1" "wait_loop E i es w1 = Some (ok, w')"
    using Cons.prems(2) unfolding wait_loop.simps [of E i "e # es" w] by (auto simp: bind_eq_Some_conv split: if_splits)
  then show ?case
  proof cases
    case 2
    then show ?thesis using Cons.IH event Cons.prems(1) by blast
  qed (use Cons.prems(1) in auto)
qed

lemma take_semaphore:
  assumes "Q w" and "take_callback_semaphore E i w = Some (ok, w')"
  obtains w1 where "Q w1" "xCallbackSemaphore (client w1 i) = Some ok"
    "w' = (if ok then upd_client i (\<lambda>c. c\<lparr>xCallbackSemaphore := Some False\<rparr>) w1 else w1)"
  using wait_loop [OF observation [OF assms(1)], of E i _ OYield] assms(2) unfolding take_callback_semaphore_def by blast

end

text \<open>The history only grows.\<close>

interpretation history: message_invariant "\<lambda>w. suffix tr (sh_trace w)" for tr
  by unfold_locales (auto simp: suffix_def)

text \<open>
  Outside of an operation, and when its semaphore was given, a message changes at most the
  flags of a client.
\<close>

definition quiet :: "int \<Rightarrow> ShadowClient_t \<Rightarrow> shadow_obs list \<Rightarrow> shadow \<Rightarrow> bool" where
  "quiet i c0 tr0 w \<longleftrightarrow> in_range w i \<and> (pxOperationData c0 = None \<or> xCallbackSemaphore c0 = Some True) \<and>
     clear_flags (client w i) = clear_flags c0 \<and> (\<exists>new. sh_trace w = new @ tr0)"

lemma flags_frame [simp]:
  "xMQTTClient (clear_flags c) = xMQTTClient c" "sc_xInUse (clear_flags c) = sc_xInUse c"
  "xOperationDataMutex (clear_flags c) = xOperationDataMutex c" "xOperationMutex (clear_flags c) = xOperationMutex c"
  "xCallbackSemaphore (clear_flags c) = xCallbackSemaphore c" "pxOperationData (clear_flags c) = pxOperationData c"
  "xOperationResult (clear_flags c) = xOperationResult c" "xCallbackCatalog (clear_flags c) = xCallbackCatalog c"
  "ucTopicBuffer (clear_flags c) = ucTopicBuffer c" "clear_flags (clear_flags c) = clear_flags c"
  "clear_flags (prvSetSubscribedFlag n v c) = clear_flags c"
  by (simp_all add: clear_flags_def prvSetSubscribedFlag_def split: ShadowOperationName_t.split)

lemma quiet_fields:
  assumes "quiet i c0 tr0 w"
  shows "xMQTTClient (client w i) = xMQTTClient c0" "sc_xInUse (client w i) = sc_xInUse c0"
    "xOperationDataMutex (client w i) = xOperationDataMutex c0" "xOperationMutex (client w i) = xOperationMutex c0"
    "xCallbackSemaphore (client w i) = xCallbackSemaphore c0" "pxOperationData (client w i) = pxOperationData c0"
    "xOperationResult (client w i) = xOperationResult c0" "xCallbackCatalog (client w i) = xCallbackCatalog c0"
    "ucTopicBuffer (client w i) = ucTopicBuffer c0" "in_range w i"
  using assms unfolding quiet_def by (metis flags_frame(1-9))+

lemma client_cong: "xShadowClients w' = xShadowClients w'' \<Longrightarrow> client w' i = client w'' i \<and> in_range w' i = in_range w'' i"
  by (simp add: in_range_def)

interpretation quiet: message_invariant "quiet i c0 tr0" for i c0 tr0
proof
  fix w w' :: shadow and j p taken cs new
  assume q: "quiet i c0 tr0 w" and e: "message_effect j p w taken cs" "xShadowClients w' = cs" "sh_trace w' = OMessage j p taken # new @ sh_trace w"
  have tr: "\<exists>new. sh_trace w' = new @ tr0" using q e(3) by (auto simp: quiet_def)
  show "quiet i c0 tr0 w'"
    using e(1)
  proof cases
    case unchanged
    then show ?thesis using q tr e(2) client_cong [of w' w i] by (auto simp: quiet_def)
  next
    case disconnected
    then show ?thesis using q tr e(2) client_cong [of w' "upd_client j clear_flags w" i] by (auto simp: quiet_def client_upd)
  next
    case (answered operation ps pd s r)
    then have "nat j \<noteq> nat i" using q quiet_fields(5,6) [OF q] by (auto simp: quiet_def)
    then show ?thesis using q tr e(2) answered(2) client_cong [of w' "set_answer j r operation (answered_params operation s pd ps) w" i]
      by (auto simp: quiet_def client_upd set_answer_def)
  qed
qed (auto simp: quiet_def)

text \<open>
  During an operation: once the semaphore was given, a message of the service with the result
  of the operation has arrived. \<open>answered\<close> tells that the semaphore was taken again.
\<close>

definition evidence ::
  "int \<Rightarrow> ShadowOperationName_t \<Rightarrow> ShadowOperationParams_t \<Rightarrow> u8 list \<Rightarrow> shadow_obs list \<Rightarrow> int \<Rightarrow> ShadowOperationParams_t \<Rightarrow> bool" where
  "evidence i operation ps0 T new r ps \<longleftrightarrow> (\<exists>j pd s. nat j = nat i \<and>
     OMessage j (eMQTTAgentPublish pd) (operation = eShadowOperationGet \<and> s = eShadowSuccess) \<in> set new \<and>
     message_status T pd s \<and> answer_result s pd r \<and> update_answer operation ps0 pd \<and>
     (operation = eShadowOperationGet \<longrightarrow>
        (if s = eShadowSuccess then op_pcData ps = Some (pd_pvData pd) \<and> op_ulDataLength ps = pd_ulDataLength pd \<and> op_xBuffer ps = pd_xBuffer pd
         else op_pcData ps = None \<and> op_ulDataLength ps = 0)))"

definition core :: "ShadowClient_t \<Rightarrow> ShadowClient_t" where
  "core c = clear_flags (c\<lparr>xCallbackSemaphore := None, xOperationResult := 0, pxOperationData := None\<rparr>)"

definition pending :: "int \<Rightarrow> ShadowClient_t \<Rightarrow> shadow_obs list \<Rightarrow> bool \<Rightarrow> shadow \<Rightarrow> bool" where
  "pending i c0 tr0 answered w \<longleftrightarrow> in_range w i \<and> core (client w i) = core c0 \<and> xCallbackSemaphore (client w i) \<in> {Some False, Some True} \<and>
     (\<exists>operation ps0 ps new. pxOperationData c0 = Some (operation, ps0) \<and> pxOperationData (client w i) = Some (operation, ps) \<and>
        (operation = eShadowOperationUpdate \<longrightarrow> ps = ps0) \<and> sh_trace w = new @ tr0 \<and>
        (answered \<or> xCallbackSemaphore (client w i) = Some True \<longrightarrow>
           evidence i operation ps0 (operation_topic c0) new (xOperationResult (client w i)) ps))"

lemma core_frame [simp]:
  "core (clear_flags c) = core c" "core (c\<lparr>xCallbackSemaphore := s\<rparr>) = core c" "core (c\<lparr>xOperationResult := r\<rparr>) = core c"
  "core (c\<lparr>pxOperationData := d\<rparr>) = core c" "core (prvSetSubscribedFlag n v c) = core c"
  by (simp_all add: core_def clear_flags_def prvSetSubscribedFlag_def split: ShadowOperationName_t.split)

lemma core_fields:
  assumes "core c = core d"
  shows "xMQTTClient c = xMQTTClient d" "sc_xInUse c = sc_xInUse d" "xOperationDataMutex c = xOperationDataMutex d"
    "xOperationMutex c = xOperationMutex d" "xCallbackCatalog c = xCallbackCatalog d" "ucTopicBuffer c = ucTopicBuffer d"
proof -
  have "xMQTTClient (core e) = xMQTTClient e" "sc_xInUse (core e) = sc_xInUse e" "xOperationDataMutex (core e) = xOperationDataMutex e"
    "xOperationMutex (core e) = xOperationMutex e" "xCallbackCatalog (core e) = xCallbackCatalog e" "ucTopicBuffer (core e) = ucTopicBuffer e" for e
    by (simp_all add: core_def)
  then show "xMQTTClient c = xMQTTClient d" "sc_xInUse c = sc_xInUse d" "xOperationDataMutex c = xOperationDataMutex d"
    "xOperationMutex c = xOperationMutex d" "xCallbackCatalog c = xCallbackCatalog d" "ucTopicBuffer c = ucTopicBuffer d"
    using assms by metis+
qed

lemma evidence_mono: "evidence i operation ps0 T new r ps \<Longrightarrow> set new \<subseteq> set new' \<Longrightarrow> evidence i operation ps0 T new' r ps"
  unfolding evidence_def by blast

lemma pending_observation: "pending i c0 tr0 answered w \<Longrightarrow> pending i c0 tr0 answered (record_obs x w)"
  unfolding pending_def by (fastforce intro: evidence_mono)

lemma pending_message:
  assumes q: "pending i c0 tr0 b w" and e: "message_effect j p w taken cs" "xShadowClients w' = cs" "sh_trace w' = OMessage j p taken # new @ sh_trace w"
  shows "pending i c0 tr0 b w'"
proof -
  obtain operation ps0 ps n where d: "pxOperationData c0 = Some (operation, ps0)" "pxOperationData (client w i) = Some (operation, ps)"
    "operation = eShadowOperationUpdate \<longrightarrow> ps = ps0" "sh_trace w = n @ tr0"
    "b \<or> xCallbackSemaphore (client w i) = Some True \<longrightarrow> evidence i operation ps0 (operation_topic c0) n (xOperationResult (client w i)) ps"
    and c: "in_range w i" "core (client w i) = core c0" "xCallbackSemaphore (client w i) \<in> {Some False, Some True}"
    using q unfolding pending_def by blast
  let ?n = "OMessage j p taken # new @ n"
  have tr: "sh_trace w' = ?n @ tr0" using e(3) d(4) by simp
  have old: "pending i c0 tr0 b w'"
    if "in_range w' i" "core (client w' i) = core (client w i)" "xCallbackSemaphore (client w' i) = xCallbackSemaphore (client w i)"
      "xOperationResult (client w' i) = xOperationResult (client w i)" "pxOperationData (client w' i) = pxOperationData (client w i)"
    using that c d tr evidence_mono [of i operation ps0 "operation_topic c0" n _ ps ?n] unfolding pending_def by fastforce
  show ?thesis
    using e(1)
  proof cases
    case unchanged
    then show ?thesis using old e(2) client_cong [of w' w i] c(1) by simp
  next
    case disconnected
    then show ?thesis using old e(2) client_cong [of w' "upd_client j clear_flags w" i] c(1) by (auto simp: client_upd)
  next
    case (answered op' ps' pd s r)
    note cl = client_cong [of w' "set_answer j r op' (answered_params op' s pd ps') w" i]
    show ?thesis
    proof (cases "nat j = nat i")
      case False
      then show ?thesis using old e(2) answered(2) cl c(1) by (simp add: client_upd set_answer_def)
    next
      case True
      then have eq: "op' = operation" "ps' = ps" using answered(3) d(2) by auto
      have T: "operation_topic (client w j) = operation_topic c0" using core_fields(6) [OF c(2)] True by simp
      have "evidence i operation ps0 (operation_topic c0) ?n r (answered_params operation s pd ps)"
        unfolding evidence_def using answered(1,5-8) True d(3) eq T
        by (intro exI [of _ j] exI [of _ pd] exI [of _ s]) (auto simp: answered_params_def update_answer_def)
      moreover have "operation = eShadowOperationUpdate \<longrightarrow> answered_params operation s pd ps = ps0" using d(3) by (simp add: answered_params_def)
      ultimately show ?thesis
        using tr d(1) c e(2) answered(2) cl True eq unfolding pending_def by (auto simp: client_upd set_answer_def in_range_def)
    qed
  qed
qed

interpretation pending: message_invariant "pending i c0 tr0 answered" for i c0 tr0 answered
  by unfold_locales (blast intro: pending_message, rule pending_observation)

end
