(* ===== verification/ShadowOperation.thy ===== *)
theory ShadowOperation
  imports ShadowMessages
begin

text \<open>
  What the operations of the shadow client guarantee, for every behaviour of the MQTT agent and
  every sequence of messages that arrive meanwhile: a success that is reported was reported
  by the service, an operation that returns leaves the client ready for the next one, and messages reach
  the callbacks that are registered for them.
\<close>

section \<open>The request\<close>

lemma quiet_start: "in_range w i \<Longrightarrow> pxOperationData (client w i) = None \<or> xCallbackSemaphore (client w i) = Some True \<Longrightarrow>
    quiet i (client w i) (sh_trace w) w"
  by (simp add: quiet_def)

lemma pending_start:
  "in_range w i \<Longrightarrow> pxOperationData (client w i) = Some (operation, ps) \<Longrightarrow> xCallbackSemaphore (client w i) = Some False \<Longrightarrow>
    pending i (client w i) (sh_trace w) False w"
  by (simp add: pending_def)

lemma clear_flags_core: "clear_flags c = clear_flags d \<Longrightarrow> core c = core d"
  by (metis core_frame(1))

lemma quiet_core: "quiet i c0 tr0 w \<Longrightarrow> core (client w i) = core c0"
  unfolding quiet_def by (blast intro: clear_flags_core)

lemma core_update: "core (c\<lparr>ucTopicBuffer := b\<rparr>) = (core c)\<lparr>ucTopicBuffer := b\<rparr>" "core (c\<lparr>xOperationMutex := m\<rparr>) = (core c)\<lparr>xOperationMutex := m\<rparr>"
  by (simp_all add: core_def clear_flags_def prvSetSubscribedFlag_def)

lemma create_topic_effect:
  assumes "create_topic i fmt name w = Some (n, w')" and "fmt \<in> shadow_formats" and "name_ok name"
    and "length (ucTopicBuffer (client w i)) = shadowTOPIC_BUFFER_LENGTH"
  obtains buf where "w' = upd_client i (\<lambda>c. c\<lparr>ucTopicBuffer := buf\<rparr>) w" "length buf = shadowTOPIC_BUFFER_LENGTH"
    "unat n = length (topic_of fmt name)" "take (unat n) buf = topic_of fmt name" "takeWhile (\<lambda>c. c \<noteq> 0) buf = topic_of fmt name"
proof -
  note f = format_topic [OF assms(2,3)]
  have "takeWhile (\<lambda>c. c \<noteq> 0) (topic_of fmt name @ 0 # r) = topic_of fmt name" for r
    using f(2) by (subst takeWhile_append2) auto
  then show thesis
    using that [of "topic_of fmt name @ 0 # drop (length (topic_of fmt name) + 1) (ucTopicBuffer (client w i))"]
      assms(1,4) f(1,3) f(4) [OF assms(4)] by (auto simp: create_topic_def)
qed

text \<open>An operation up to its request.\<close>

definition published :: "ShadowOperationCallParams_t \<Rightarrow> nat \<Rightarrow> shadow_obs list \<Rightarrow> bool" where
  "published p h new \<longleftrightarrow> (\<exists>pub. OAgent (CallAgentPublish h pub (xTimeoutTicks p)) eMQTTAgentSuccess \<in> set new \<and>
     take (unat (ap_usTopicLength pub)) (ap_pucTopic pub) = topic_of (pcOperationTopic p) (op_pcThingName (pxOperationParams p)) \<and>
     ap_pvData pub = pcPublishMessage p \<and> ap_ulDataLength pub = ulPublishMessageLength p \<and> ap_xQoS pub = op_xQoS (pxOperationParams p))"

text \<open>The first part of the request: the client is prepared for the answer.\<close>

lemma request_prepare:
  assumes w: "in_range w i" "pxOperationData (client w i) = None" "length (ucTopicBuffer (client w i)) = shadowTOPIC_BUFFER_LENGTH"
    and p: "fmt \<in> shadow_formats" "name_ok name"
    and steps: "others E w = Some w1" "take_callback_semaphore E i (upd_client i (prvSetSubscribedFlag operation True) w1) = Some (True, w2)"
      "others E w2 = Some w3" "create_topic i fmt name w3 = Some (n, w4)" "others E w4 = Some w5"
  obtains buf new where "core (client w5 i) = core ((client w i)\<lparr>ucTopicBuffer := buf\<rparr>)" "length buf = shadowTOPIC_BUFFER_LENGTH"
    "unat n = length (topic_of fmt name)" "take (unat n) buf = topic_of fmt name" "takeWhile (\<lambda>c. c \<noteq> 0) buf = topic_of fmt name"
    "in_range w5 i" "pxOperationData (client w5 i) = None" "xCallbackSemaphore (client w5 i) = Some False" "sh_trace w5 = new @ sh_trace w"
proof -
  let ?f = "upd_client i (prvSetSubscribedFlag operation True) w1"
  have q1: "quiet i (client w i) (sh_trace w) w1" using quiet.others [OF quiet_start [of w i] steps(1)] w(1,2) by simp
  have qf: "quiet i (client w i) (sh_trace w) ?f" using q1 by (simp add: quiet_def client_upd)
  obtain v where v: "quiet i (client w i) (sh_trace w) v" "xCallbackSemaphore (client v i) = Some True"
    "w2 = (if True then upd_client i (\<lambda>c. c\<lparr>xCallbackSemaphore := Some False\<rparr>) v else v)"
    by (rule quiet.take_semaphore [OF qf steps(2)])
  note vf = quiet_fields [OF v(1)]
  have cv: "core (client v i) = core (client w i)" by (rule quiet_core [OF v(1)])
  have w2: "in_range w2 i" "pxOperationData (client w2 i) = None" "core (client w2 i) = core (client w i)" "xCallbackSemaphore (client w2 i) = Some False"
    using vf(6,10) w(2) cv by (simp_all add: v(3) client_upd)
  have q3: "quiet i (client w2 i) (sh_trace w2) w3" using quiet.others [OF quiet_start [of w2 i] steps(3)] w2(1,2) by simp
  note f3 = quiet_fields [OF q3]
  have b3: "length (ucTopicBuffer (client w3 i)) = shadowTOPIC_BUFFER_LENGTH" using f3(9) core_fields(6) [OF w2(3)] w(3) by simp
  obtain buf where buf: "w4 = upd_client i (\<lambda>c. c\<lparr>ucTopicBuffer := buf\<rparr>) w3" "length buf = shadowTOPIC_BUFFER_LENGTH"
    "unat n = length (topic_of fmt name)" "take (unat n) buf = topic_of fmt name" "takeWhile (\<lambda>c. c \<noteq> 0) buf = topic_of fmt name"
    by (rule create_topic_effect [OF steps(4) p b3])
  have q5: "quiet i (client w4 i) (sh_trace w4) w5" using quiet.others [OF quiet_start [of w4 i] steps(5)] buf(1) f3(6,10) w2(2) by (simp add: client_upd)
  have "core (client w3 i) = core (client w i)" using quiet_core [OF q3] w2(3) by simp
  then have "core (client w4 i) = core ((client w i)\<lparr>ucTopicBuffer := buf\<rparr>)" using f3(10) by (simp add: buf(1) client_upd core_update)
  then have "core (client w5 i) = core ((client w i)\<lparr>ucTopicBuffer := buf\<rparr>)" using quiet_core [OF q5] by simp
  moreover have "suffix (sh_trace w) (sh_trace w5)"
    using q5 q3 v suffix_order.trans unfolding quiet_def by (fastforce simp: buf(1) suffix_def)
  moreover have "pxOperationData (client w5 i) = None" "xCallbackSemaphore (client w5 i) = Some False" "in_range w5 i"
    using quiet_fields(5,6,10) [OF q5] f3(5,6,10) w2(2,4) by (simp_all add: buf(1) client_upd)
  ultimately show thesis using that [of buf] buf(2-5) by (auto simp: suffix_def)
qed

text \<open>
  The second part: the request is published, and its result is the one of an answer that has
  arrived since.
\<close>

definition untouched :: "int \<Rightarrow> ShadowClient_t \<Rightarrow> shadow \<Rightarrow> bool" where
  "untouched i c0 w \<longleftrightarrow> in_range w i \<and> (xCallbackSemaphore (client w i) = Some False \<longrightarrow>
     xOperationResult (client w i) = xOperationResult c0 \<and> pxOperationData (client w i) = pxOperationData c0)"

interpretation untouched: message_invariant "untouched i c0" for i c0
proof
  fix w w' :: shadow and j p taken cs new
  assume q: "untouched i c0 w" and e: "message_effect j p w taken cs" "xShadowClients w' = cs"
  show "untouched i c0 w'"
    using e(1)
  proof cases
    case unchanged
    then show ?thesis using q e(2) client_cong [of w' w i] by (simp add: untouched_def)
  next
    case disconnected
    then show ?thesis using q e(2) client_cong [of w' "upd_client j clear_flags w" i] by (auto simp: untouched_def client_upd)
  next
    case (answered operation ps pd s r)
    then show ?thesis
      using q e(2) client_cong [of w' "set_answer j r operation (answered_params operation s pd ps) w" i]
      by (auto simp: untouched_def client_upd set_answer_def)
  qed
qed (simp add: untouched_def)

text \<open>What the result of a request tells: the request failed, the time was over, or it is the one of an answer.\<close>

definition answer_outcome ::
  "int \<Rightarrow> agent_call \<Rightarrow> ShadowOperationName_t \<Rightarrow> ShadowOperationParams_t \<Rightarrow> u8 list \<Rightarrow> shadow_obs list \<Rightarrow> int \<Rightarrow> ShadowOperationParams_t \<Rightarrow> bool" where
  "answer_outcome i c operation ps0 T new r ps \<longleftrightarrow> (\<exists>ret. OAgent c ret \<in> set new \<and>
     (if ret = eMQTTAgentSuccess then r = eShadowTimeout \<or> evidence i operation ps0 T new r ps else r = prvConvertMQTTReturnCode ret))"

lemma answer_outcome_mono: "answer_outcome i c operation ps0 T new r ps \<Longrightarrow> set new \<subseteq> set new' \<Longrightarrow> answer_outcome i c operation ps0 T new' r ps"
  unfolding answer_outcome_def by (metis evidence_mono subsetD)

lemma convert_success: "prvConvertMQTTReturnCode ret = eShadowSuccess \<longleftrightarrow> ret = eMQTTAgentSuccess"
  by (simp add: prvConvertMQTTReturnCode_def shadow_codes split: MQTTAgentReturnCode_t.split)

lemma request_await:
  assumes w: "in_range w i" "pxOperationData (client w i) = Some (operation, ps0)" "xCallbackSemaphore (client w i) = Some False"
    and steps: "agent E c w = Some (ra, w1)"
      "(if prvConvertMQTTReturnCode ra = eShadowSuccess then do {
          (ok, w) \<leftarrow> take_callback_semaphore E i w1;
          if \<not> ok then Some (eShadowTimeout, w)
          else do { w \<leftarrow> others E w; Some (xOperationResult (client w i), w) }
        } else Some (prvConvertMQTTReturnCode ra, w1)) = Some (r, w2)"
      "others E w2 = Some w3" "give_callback_semaphore i w3 = Some w4"
  obtains ps new where "core (client w4 i) = core (client w i)" "in_range w4 i" "xCallbackSemaphore (client w4 i) = Some True"
    "pxOperationData (client w4 i) = Some (operation, ps)" "sh_trace w4 = new @ sh_trace w"
    "answer_outcome i c operation ps0 (operation_topic (client w i)) new r ps"
proof -
  note result = that
  let ?P = "pending i (client w i) (sh_trace w)" and ?T = "operation_topic (client w i)"
  obtain u where u: "?P False u" "w1 = record_obs (OAgent c ra) u" by (rule pending.agent_call [OF pending_start [OF w] steps(1)])
  have p1: "?P False w1" using pending.agent [OF pending_start [OF w] steps(1)] .
  obtain n1 where n1: "sh_trace w1 = n1 @ sh_trace w" "OAgent c ra \<in> set n1" using u by (auto simp: pending_def)
  have finish: thesis if p2: "?P b w2" and h: "suffix (sh_trace w1) (sh_trace w2)"
    and r: "if ra = eMQTTAgentSuccess then r = eShadowTimeout \<or> b \<and> r = xOperationResult (client w2 i) else r = prvConvertMQTTReturnCode ra" for b
  proof -
    have p3: "?P b w3" using pending.others [OF p2 steps(3)] .
    have "suffix (sh_trace w2) (sh_trace w3)" using history.others [OF suffix_order.refl steps(3)] .
    then have tr: "OAgent c ra \<in> set n" if "sh_trace w3 = n @ sh_trace w" for n using that n1 h by (auto simp: suffix_def)
    have w4: "w4 = upd_client i (\<lambda>c. c\<lparr>xCallbackSemaphore := Some True\<rparr>) w3" "xCallbackSemaphore (client w3 i) = Some False"
      using steps(4) by (simp_all add: give_callback_iff)
    have "untouched i (client w2 i) w3" by (rule untouched.others [OF _ steps(3)]) (use p2 in \<open>simp add: untouched_def pending_def\<close>)
    then have same: "xOperationResult (client w3 i) = xOperationResult (client w2 i)" using w4(2) by (simp add: untouched_def)
    obtain ps new where d: "pxOperationData (client w3 i) = Some (operation, ps)" "sh_trace w3 = new @ sh_trace w"
      "b \<longrightarrow> evidence i operation ps0 ?T new (xOperationResult (client w3 i)) ps" "core (client w3 i) = core (client w i)" "in_range w3 i"
      using p3 w(2) by (auto simp: pending_def)
    have "answer_outcome i c operation ps0 ?T new r ps"
      unfolding answer_outcome_def using tr [OF d(2)] r d(3) same by (intro exI [of _ ra]) auto
    then show thesis using result [of ps new] d by (simp add: w4 client_upd)
  qed
  show thesis
  proof (cases "ra = eMQTTAgentSuccess")
    case False
    then show thesis using finish [of False] steps(2) p1 by (auto simp: convert_success)
  next
    case True
    obtain ok v where v: "take_callback_semaphore E i w1 = Some (ok, v)"
      "if ok then others E v = Some w2 \<and> r = xOperationResult (client w2 i) else w2 = v \<and> r = eShadowTimeout"
      using steps(2) True by (auto simp: convert_success bind_eq_Some_conv split: if_splits)
    obtain v1 where v1: "?P False v1" "xCallbackSemaphore (client v1 i) = Some ok"
      "v = (if ok then upd_client i (\<lambda>c. c\<lparr>xCallbackSemaphore := Some False\<rparr>) v1 else v1)"
      by (rule pending.take_semaphore [OF p1 v(1)])
    obtain x where "suffix (sh_trace w1) (sh_trace x)" "v = (if ok then upd_client i (\<lambda>c. c\<lparr>xCallbackSemaphore := Some False\<rparr>) x else x)"
      by (rule history.take_semaphore [OF suffix_order.refl v(1)])
    then have tr: "suffix (sh_trace w1) (sh_trace v)" by (simp split: if_splits)
    show thesis
    proof (cases ok)
      case False
      then show thesis using finish [of False] v(2) v1 tr True by simp
    next
      case ok: True
      have "?P True v" using v1 ok by (auto simp: pending_def client_upd)
      then have "?P True w2" using pending.others v(2) ok by auto
      then show thesis using finish [of True] history.others [OF tr, of E w2] v(2) ok True by simp
    qed
  qed
qed

abbreviation request_topic :: "ShadowOperationCallParams_t \<Rightarrow> u8 list" where
  "request_topic p \<equiv> topic_of (pcOperationTopic p) (op_pcThingName (pxOperationParams p))"

definition request_ok :: "ShadowOperationCallParams_t \<Rightarrow> bool" where
  "request_ok p \<longleftrightarrow> {pcOperationTopic p, pcOperationAcceptedTopic p, pcOperationRejectedTopic p} \<subseteq> shadow_formats \<and>
     name_ok (op_pcThingName (pxOperationParams p))"

text \<open>
  The result of an operation: a call of the agent has failed, or the request was published and
  the time was over or an answer has come.
\<close>

definition outcome :: "ShadowOperationCallParams_t \<Rightarrow> nat \<Rightarrow> shadow_obs list \<Rightarrow> int \<Rightarrow> ShadowOperationParams_t \<Rightarrow> bool" where
  "outcome p h new r ps \<longleftrightarrow>
     (\<exists>c ret. OAgent c ret \<in> set new \<and> ret \<noteq> eMQTTAgentSuccess \<and> r = prvConvertMQTTReturnCode ret) \<or>
     published p h new \<and> (r = eShadowTimeout \<or>
       evidence (xShadowClientID p) (xOperationName p) (pxOperationParams p) (request_topic p) new r ps)"

lemma outcome_mono: "outcome p h new r ps \<Longrightarrow> set new \<subseteq> set new' \<Longrightarrow> outcome p h new' r ps"
  unfolding outcome_def published_def using evidence_mono by blast

text \<open>Only an accepting message makes the result of an operation success.\<close>

lemma answer_success: "answer_result s pd eShadowSuccess \<Longrightarrow> s = eShadowSuccess"
proof (rule ccontr)
  assume a: "answer_result s pd eShadowSuccess" "s \<noteq> eShadowSuccess"
  then obtain code where "eShadowSuccess = (if code = 0 then eShadowJSMNInval else code)" unfolding answer_result_def by metis
  then show False by (cases "code = 0") (simp_all add: eShadowSuccess_def eShadowJSMNInval_def)
qed

lemma outcome_success:
  "outcome p h new eShadowSuccess ps \<Longrightarrow>
     published p h new \<and> evidence (xShadowClientID p) (xOperationName p) (pxOperationParams p) (request_topic p) new eShadowSuccess ps"
  unfolding outcome_def using convert_success by (metis eShadowSuccess_def eShadowTimeout_def zero_neq_one)

lemma request_effect:
  assumes i: "i = xShadowClientID p" and w: "in_range w i" "pxOperationData (client w i) = None"
      "length (ucTopicBuffer (client w i)) = shadowTOPIC_BUFFER_LENGTH"
    and ok: "request_ok p" and run: "shadow_request E p w = Some (r, w')"
  obtains buf ps new where "core (client w' i) = core ((client w i)\<lparr>ucTopicBuffer := buf\<rparr>)" "length buf = shadowTOPIC_BUFFER_LENGTH"
    "in_range w' i" "xCallbackSemaphore (client w' i) = Some True" "pxOperationData (client w' i) = Some (xOperationName p, ps)"
    "sh_trace w' = new @ sh_trace w" "outcome p (xMQTTClient (client w i)) new r ps"
proof -
  note result = that
  let ?name = "op_pcThingName (pxOperationParams p)"
  have fmt: "pcOperationTopic p \<in> shadow_formats" "name_ok ?name" using ok by (auto simp: request_ok_def)
  obtain w1 w2 w3 n w4 w5 where prep: "others E w = Some w1"
      "take_callback_semaphore E i (upd_client i (prvSetSubscribedFlag (xOperationName p) True) w1) = Some (True, w2)"
      "others E w2 = Some w3" "create_topic i (pcOperationTopic p) ?name w3 = Some (n, w4)" "others E w4 = Some w5"
    and rest: "\<exists>ra w6 w7 w8. let wd = upd_client i (\<lambda>c. c\<lparr>pxOperationData := Some (xOperationName p, pxOperationParams p)\<rparr>) w5;
        c = CallAgentPublish (xMQTTClient (client wd i)) \<lparr>ap_pucTopic = ucTopicBuffer (client wd i), ap_usTopicLength = n,
          ap_xQoS = op_xQoS (pxOperationParams p), ap_pvData = pcPublishMessage p, ap_ulDataLength = ulPublishMessageLength p\<rparr> (xTimeoutTicks p) in
      agent E c wd = Some (ra, w6) \<and>
      (if prvConvertMQTTReturnCode ra = eShadowSuccess then do {
          (ok, w) \<leftarrow> take_callback_semaphore E i w6;
          if \<not> ok then Some (eShadowTimeout, w)
          else do { w \<leftarrow> others E w; Some (xOperationResult (client w i), w) }
        } else Some (prvConvertMQTTReturnCode ra, w6)) = Some (r, w7) \<and>
      others E w7 = Some w8 \<and> give_callback_semaphore i w8 = Some w'"
    using run unfolding i by (auto simp: shadow_request_def Let_def bind_eq_Some_conv configASSERT_def split: if_splits)
  obtain buf new1 where b: "core (client w5 i) = core ((client w i)\<lparr>ucTopicBuffer := buf\<rparr>)" "length buf = shadowTOPIC_BUFFER_LENGTH"
    "unat n = length (request_topic p)" "take (unat n) buf = request_topic p" "takeWhile (\<lambda>c. c \<noteq> 0) buf = request_topic p"
    "in_range w5 i" "pxOperationData (client w5 i) = None" "xCallbackSemaphore (client w5 i) = Some False" "sh_trace w5 = new1 @ sh_trace w"
    by (rule request_prepare [OF w fmt prep])
  let ?wd = "upd_client i (\<lambda>c. c\<lparr>pxOperationData := Some (xOperationName p, pxOperationParams p)\<rparr>) w5"
  have d: "in_range ?wd i" "pxOperationData (client ?wd i) = Some (xOperationName p, pxOperationParams p)"
    "xCallbackSemaphore (client ?wd i) = Some False" "core (client ?wd i) = core ((client w i)\<lparr>ucTopicBuffer := buf\<rparr>)"
    using b by (simp_all add: client_upd)
  have bd: "ucTopicBuffer (client ?wd i) = buf" "xMQTTClient (client ?wd i) = xMQTTClient (client w i)"
    using core_fields(1,6) [OF d(4)] by simp_all
  let ?pub = "\<lparr>ap_pucTopic = buf, ap_usTopicLength = n, ap_xQoS = op_xQoS (pxOperationParams p), ap_pvData = pcPublishMessage p,
    ap_ulDataLength = ulPublishMessageLength p\<rparr>"
  let ?c = "CallAgentPublish (xMQTTClient (client w i)) ?pub (xTimeoutTicks p)"
  obtain ra w6 w7 w8 where s: "agent E ?c ?wd = Some (ra, w6)"
      "(if prvConvertMQTTReturnCode ra = eShadowSuccess then do {
          (ok, w) \<leftarrow> take_callback_semaphore E i w6;
          if \<not> ok then Some (eShadowTimeout, w)
          else do { w \<leftarrow> others E w; Some (xOperationResult (client w i), w) }
        } else Some (prvConvertMQTTReturnCode ra, w6)) = Some (r, w7)"
      "others E w7 = Some w8" "give_callback_semaphore i w8 = Some w'"
    using rest unfolding Let_def bd by blast
  obtain ps new2 where e: "core (client w' i) = core (client ?wd i)" "in_range w' i" "xCallbackSemaphore (client w' i) = Some True"
    "pxOperationData (client w' i) = Some (xOperationName p, ps)" "sh_trace w' = new2 @ sh_trace ?wd"
    "answer_outcome i ?c (xOperationName p) (pxOperationParams p) (request_topic p) new2 r ps"
    using request_await [OF d(1-3) s] unfolding bd b(5) by blast
  have "outcome p (xMQTTClient (client w i)) new2 r ps"
  proof -
    have pub: "published p (xMQTTClient (client w i)) new2" if "OAgent ?c eMQTTAgentSuccess \<in> set new2"
      using that b(3,4) unfolding published_def by (intro exI [of _ ?pub]) auto
    show ?thesis using e(6) pub unfolding outcome_def answer_outcome_def i by metis
  qed
  then have "outcome p (xMQTTClient (client w i)) (new2 @ new1) r ps" using outcome_mono by fastforce
  then show thesis using result [of buf ps "new2 @ new1"] b(2,9) d(4) e by simp
qed

section \<open>The whole operation\<close>

text \<open>The steps before the request and after it change only the flags and the topic buffer.\<close>

definition steady :: "int \<Rightarrow> ShadowClient_t \<Rightarrow> shadow_obs list \<Rightarrow> shadow \<Rightarrow> bool" where
  "steady i c0 tr0 w \<longleftrightarrow> (\<exists>buf. length buf = shadowTOPIC_BUFFER_LENGTH \<and> quiet i (c0\<lparr>ucTopicBuffer := buf\<rparr>) tr0 w)"

interpretation steady: message_invariant "steady i c0 tr0" for i c0 tr0
  by unfold_locales (unfold steady_def, blast intro: quiet.message, blast intro: quiet.observation)

lemma steady_start:
  assumes "in_range w i" and "pxOperationData (client w i) = None \<or> xCallbackSemaphore (client w i) = Some True"
    and "length (ucTopicBuffer (client w i)) = shadowTOPIC_BUFFER_LENGTH"
  shows "steady i (client w i) (sh_trace w) w"
  unfolding steady_def by (rule exI [of _ "ucTopicBuffer (client w i)"]) (use assms quiet_start in simp)

lemma steady_fields:
  assumes "steady i c0 tr0 w"
  shows "xMQTTClient (client w i) = xMQTTClient c0" "sc_xInUse (client w i) = sc_xInUse c0"
    "xOperationDataMutex (client w i) = xOperationDataMutex c0" "xOperationMutex (client w i) = xOperationMutex c0"
    "xCallbackSemaphore (client w i) = xCallbackSemaphore c0" "pxOperationData (client w i) = pxOperationData c0"
    "xOperationResult (client w i) = xOperationResult c0" "xCallbackCatalog (client w i) = xCallbackCatalog c0"
    "length (ucTopicBuffer (client w i)) = shadowTOPIC_BUFFER_LENGTH" "in_range w i" "suffix tr0 (sh_trace w)"
    "pxOperationData c0 = None \<or> xCallbackSemaphore c0 = Some True"
proof -
  obtain buf where b: "length buf = shadowTOPIC_BUFFER_LENGTH" "quiet i (c0\<lparr>ucTopicBuffer := buf\<rparr>) tr0 w" using assms by (auto simp: steady_def)
  note q = quiet_fields [OF b(2)]
  show "xMQTTClient (client w i) = xMQTTClient c0" "sc_xInUse (client w i) = sc_xInUse c0"
    "xOperationDataMutex (client w i) = xOperationDataMutex c0" "xOperationMutex (client w i) = xOperationMutex c0"
    "xCallbackSemaphore (client w i) = xCallbackSemaphore c0" "pxOperationData (client w i) = pxOperationData c0"
    "xOperationResult (client w i) = xOperationResult c0" "xCallbackCatalog (client w i) = xCallbackCatalog c0"
    "length (ucTopicBuffer (client w i)) = shadowTOPIC_BUFFER_LENGTH" "in_range w i"
    using q b(1) by simp_all
  show "suffix tr0 (sh_trace w)" "pxOperationData c0 = None \<or> xCallbackSemaphore c0 = Some True"
    using b(2) by (auto simp: quiet_def suffix_def)
qed

lemma steady_flags: "steady i c0 tr0 w \<Longrightarrow> steady i c0 tr0 (upd_client i (prvSetSubscribedFlag n v) w)"
  by (auto simp: steady_def quiet_def client_upd)

lemma steady_topic:
  assumes "steady i c0 tr0 w" and "create_topic i fmt name w = Some (n, w')" and "fmt \<in> shadow_formats" and "name_ok name"
  shows "steady i c0 tr0 w'"
proof -
  obtain buf where b: "quiet i (c0\<lparr>ucTopicBuffer := buf\<rparr>) tr0 w" using assms(1) by (auto simp: steady_def)
  obtain buf' where b': "w' = upd_client i (\<lambda>c. c\<lparr>ucTopicBuffer := buf'\<rparr>) w" "length buf' = shadowTOPIC_BUFFER_LENGTH"
    using create_topic_effect [OF assms(2-4) steady_fields(9) [OF assms(1)]] by metis
  have "clear_flags (c\<lparr>ucTopicBuffer := x\<rparr>) = (clear_flags c)\<lparr>ucTopicBuffer := x\<rparr>" for c x
    by (simp add: clear_flags_def prvSetSubscribedFlag_def)
  then have "quiet i (c0\<lparr>ucTopicBuffer := buf'\<rparr>) tr0 w'" using b unfolding quiet_def by (simp add: b'(1) client_upd)
  then show ?thesis using b'(2) unfolding steady_def by blast
qed

lemma steady_unsubscribe_topic:
  assumes "steady i c0 tr0 w" and "unsubscribe_topic E i name fmt ticks w = Some (r, w')" and "fmt \<in> shadow_formats" and "name_ok name"
  shows "steady i c0 tr0 w'"
proof -
  obtain w1 n w2 c ra where s: "others E w = Some w1" "create_topic i fmt name w1 = Some (n, w2)" "agent E c w2 = Some (ra, w')"
    using assms(2) by (auto simp: unsubscribe_topic_def bind_eq_Some_conv)
  show ?thesis by (rule steady.agent [OF steady_topic [OF steady.others [OF assms(1) s(1)] s(2) assms(3,4)] s(3)])
qed

text \<open>The result of a subscription that failed is the one of a call of the agent.\<close>

definition failed_call :: "shadow \<Rightarrow> int \<Rightarrow> shadow \<Rightarrow> bool" where
  "failed_call w r w' \<longleftrightarrow> (\<exists>c ret new. sh_trace w' = new @ sh_trace w \<and> OAgent c ret \<in> set new \<and> r = prvConvertMQTTReturnCode ret)"

lemma failed_call_frame: "failed_call w r w' \<Longrightarrow> suffix (sh_trace w') (sh_trace w'') \<Longrightarrow> failed_call w r w''"
  unfolding failed_call_def by (fastforce simp: suffix_def)

lemma failed_call_start: "failed_call w r w' \<Longrightarrow> suffix (sh_trace v) (sh_trace w) \<Longrightarrow> failed_call v r w'"
  unfolding failed_call_def by (fastforce simp: suffix_def)

lemma agent_recorded:
  assumes "agent E c w = Some (ret, w')"
  shows "failed_call w (prvConvertMQTTReturnCode ret) w'"
proof -
  obtain u where "suffix (sh_trace w) (sh_trace u)" "w' = record_obs (OAgent c ret) u"
    by (rule history.agent_call [OF suffix_order.refl assms])
  then show ?thesis unfolding failed_call_def by (fastforce simp: suffix_def)
qed

lemma create_topic_trace: "create_topic i fmt name w = Some (n, w') \<Longrightarrow> sh_trace w' = sh_trace w"
  by (auto simp: create_topic_def bind_eq_Some_conv)

lemma subscribe_topic_recorded:
  assumes "subscribe_topic E i name fmt ticks w = Some (r, w')"
  shows "failed_call w r w'"
proof -
  obtain w1 n w2 c ret where s: "others E w = Some w1" "create_topic i fmt name w1 = Some (n, w2)" "agent E c w2 = Some (ret, w')"
    "r = prvConvertMQTTReturnCode ret"
    using assms by (auto simp: subscribe_topic_def bind_eq_Some_conv)
  show ?thesis
    using failed_call_start [OF agent_recorded [OF s(3)]] history.others [OF suffix_order.refl s(1)] create_topic_trace [OF s(2)] s(4) by simp
qed

lemma unsubscribe_topic_history:
  assumes "unsubscribe_topic E i name fmt ticks w = Some (r, w')"
  shows "suffix (sh_trace w) (sh_trace w')"
proof -
  obtain w1 n w2 c ret where s: "others E w = Some w1" "create_topic i fmt name w1 = Some (n, w2)" "agent E c w2 = Some (ret, w')"
    using assms by (auto simp: unsubscribe_topic_def bind_eq_Some_conv)
  have "suffix (sh_trace w) (sh_trace w2)" using history.others [OF suffix_order.refl s(1)] create_topic_trace [OF s(2)] by simp
  then show ?thesis by (rule history.agent [OF _ s(3)])
qed

lemma subscribe_recorded:
  assumes "prvShadowSubscribeToAcceptedRejected E i name a b ticks w = Some (r, w')"
  shows "failed_call w r w'"
proof -
  obtain ra w1 where 1: "subscribe_topic E i name a ticks w = Some (ra, w1)"
    using assms by (auto simp: prvShadowSubscribeToAcceptedRejected_def bind_eq_Some_conv)
  note f1 = subscribe_topic_recorded [OF 1]
  show ?thesis
  proof (cases "ra = eShadowSuccess")
    case False
    then show ?thesis using assms 1 f1 by (simp add: prvShadowSubscribeToAcceptedRejected_def)
  next
    case True
    then obtain w2 where 2: "subscribe_topic E i name b ticks w1 = Some (r, w2)"
      using assms 1 by (auto simp: prvShadowSubscribeToAcceptedRejected_def bind_eq_Some_conv split: if_splits)
    have "suffix (sh_trace w) (sh_trace w1)" using f1 by (auto simp: failed_call_def suffix_def)
    then have f2: "failed_call w r w2" by (rule failed_call_start [OF subscribe_topic_recorded [OF 2]])
    consider "w' = w2" | rc where "unsubscribe_topic E i name a shadowconfigCLEANUP_TIME_TICKS w2 = Some (rc, w')"
      using assms 1 2 True by (auto simp: prvShadowSubscribeToAcceptedRejected_def bind_eq_Some_conv split: if_splits)
    then show ?thesis using f2 failed_call_frame [OF f2 unsubscribe_topic_history] by cases auto
  qed
qed

lemma steady_subscribe_topic:
  assumes "steady i c0 tr0 w" and "subscribe_topic E i name fmt ticks w = Some (r, w')" and "fmt \<in> shadow_formats" and "name_ok name"
  shows "steady i c0 tr0 w'"
proof -
  obtain w1 n w2 c ra where s: "others E w = Some w1" "create_topic i fmt name w1 = Some (n, w2)" "agent E c w2 = Some (ra, w')"
    using assms(2) by (auto simp: subscribe_topic_def bind_eq_Some_conv)
  show ?thesis by (rule steady.agent [OF steady_topic [OF steady.others [OF assms(1) s(1)] s(2) assms(3,4)] s(3)])
qed

lemma steady_subscribe:
  assumes "steady i c0 tr0 w" and "prvShadowSubscribeToAcceptedRejected E i name a b ticks w = Some (r, w')"
    and "a \<in> shadow_formats" and "b \<in> shadow_formats" and "name_ok name"
  shows "steady i c0 tr0 w'"
proof -
  obtain ra w1 where 1: "subscribe_topic E i name a ticks w = Some (ra, w1)"
    using assms(2) by (auto simp: prvShadowSubscribeToAcceptedRejected_def bind_eq_Some_conv)
  note s1 = steady_subscribe_topic [OF assms(1) 1 assms(3,5)]
  show ?thesis
  proof (cases "ra = eShadowSuccess")
    case False
    then show ?thesis using assms(2) 1 s1 by (simp add: prvShadowSubscribeToAcceptedRejected_def)
  next
    case True
    then obtain rb w2 where 2: "subscribe_topic E i name b ticks w1 = Some (rb, w2)"
      using assms(2) 1 by (auto simp: prvShadowSubscribeToAcceptedRejected_def bind_eq_Some_conv)
    note s2 = steady_subscribe_topic [OF s1 2 assms(4,5)]
    consider "w' = w2" | rc where "unsubscribe_topic E i name a shadowconfigCLEANUP_TIME_TICKS w2 = Some (rc, w')"
      using assms(2) 1 2 True by (auto simp: prvShadowSubscribeToAcceptedRejected_def bind_eq_Some_conv split: if_splits)
    then show ?thesis using s2 steady_unsubscribe_topic [OF s2 _ assms(3,5)] by cases blast+
  qed
qed

lemma steady_unsubscribe:
  assumes "steady i c0 tr0 w" and "prvShadowUnsubscribeFromAcceptedRejected E i name a (Some b) ticks w = Some (r, w')"
    and "set_option a \<subseteq> shadow_formats" and "b \<in> shadow_formats" and "name_ok name"
  shows "steady i c0 tr0 w'"
proof -
  obtain ra w1 where 1: "(case a of None \<Rightarrow> Some (eShadowFailure, w) | Some fmt \<Rightarrow> unsubscribe_topic E i name fmt ticks w) = Some (ra, w1)"
    and 2: "unsubscribe_topic E i name b ticks w1 = Some (r, w')"
    using assms(2) by (auto simp: prvShadowUnsubscribeFromAcceptedRejected_def bind_eq_Some_conv)
  have "steady i c0 tr0 w1"
    using 1 assms(1,3,5) steady_unsubscribe_topic [OF assms(1)] by (cases a) auto
  then show ?thesis by (rule steady_unsubscribe_topic [OF _ 2 assms(4,5)])
qed

lemma steady_unsubscribe_operation:
  assumes "steady i c0 tr0 w" and "shadow_unsubscribe E p w = Some w'" and "request_ok p" and "i = xShadowClientID p"
  shows "steady i c0 tr0 w'"
proof -
  have f: "pcOperationAcceptedTopic p \<in> shadow_formats" "pcOperationRejectedTopic p \<in> shadow_formats" "name_ok (op_pcThingName (pxOperationParams p))"
    using assms(3) by (auto simp: request_ok_def)
  have u: "steady i c0 tr0 v'"
    if "steady i c0 tr0 v" "prvShadowUnsubscribeFromAcceptedRejected E i (op_pcThingName (pxOperationParams p)) a
        (Some (pcOperationRejectedTopic p)) t v = Some (r, u)" "set_option a \<subseteq> shadow_formats"
      "(if r = eShadowSuccess then do { w \<leftarrow> others E u; Some (upd_client i (prvSetSubscribedFlag (xOperationName p) False) w) } else Some u) = Some v'"
    for v v' u r a t
  proof -
    have "steady i c0 tr0 u" by (rule steady_unsubscribe [OF that(1,2,3) f(2,3)])
    then show ?thesis using that(4) by (auto simp: bind_eq_Some_conv split: if_splits dest: steady.others intro: steady_flags)
  qed
  show ?thesis
  proof (cases "xOperationName p = eShadowOperationDelete")
    case False
    then show ?thesis
      using assms(1,2,4) f u [of w "Some (pcOperationAcceptedTopic p)"]
      by (auto simp: shadow_unsubscribe_def Let_def bind_eq_Some_conv simp del: not_None_eq split: if_splits prod.splits)
  next
    case True
    obtain w1 n w2 w3 where s: "others E w = Some w1"
      "create_topic i shadowTOPIC_DELETE_ACCEPTED (op_pcThingName (pxOperationParams p)) w1 = Some (n, w2)" "others E w2 = Some w3"
      using assms(2,4) True by (auto simp: shadow_unsubscribe_def Let_def bind_eq_Some_conv)
    have w3: "steady i c0 tr0 w3"
      by (rule steady.others [OF steady_topic [OF steady.others [OF assms(1) s(1)] s(2) callback_formats(4) f(3)] s(3)])
    obtain m where "(case m of None \<Rightarrow> (\<lambda>w. do {
            (r, w) \<leftarrow> prvShadowUnsubscribeFromAcceptedRejected E i (op_pcThingName (pxOperationParams p)) None
              (Some (pcOperationRejectedTopic p)) (max (xTimeoutTicks p) shadowconfigCLEANUP_TIME_TICKS) w;
            if r = eShadowSuccess then do {
              w \<leftarrow> others E w;
              Some (upd_client i (prvSetSubscribedFlag (xOperationName p) False) w)
            } else Some w
          }) w3 | Some (_ :: nat \<times> ShadowOperationName_t option) \<Rightarrow> Some w3) = Some w'"
      using assms(2,4) True s by (auto simp: shadow_unsubscribe_def Let_def bind_eq_Some_conv)
    then show ?thesis
      using w3 u [OF w3, of None] by (cases m) (auto simp: bind_eq_Some_conv simp del: not_None_eq)
  qed
qed




text \<open>A client that is ready for an operation.\<close>

definition client_ready :: "ShadowClient_t \<Rightarrow> bool" where
  "client_ready c \<longleftrightarrow> pxOperationData c = None \<and> xCallbackSemaphore c = Some True \<and> xOperationMutex c = Some True \<and>
     xOperationDataMutex c = Some True \<and> xOperationResult c = eShadowSuccess \<and> length (ucTopicBuffer c) = shadowTOPIC_BUFFER_LENGTH"

lemma finish_effect:
  assumes i: "i = xShadowClientID p" and w: "steady i c0 tr0 w" and c0: "xCallbackSemaphore c0 = Some True" "xOperationMutex c0 = Some False"
    and run: "shadow_finish E p w = Some (ps, w')"
  shows "client_ready (client w' i)" "xMQTTClient (client w' i) = xMQTTClient c0" "xCallbackCatalog (client w' i) = xCallbackCatalog c0"
    "sc_xInUse (client w' i) = sc_xInUse c0" "suffix tr0 (sh_trace w')" "in_range w' i"
    "ps = (case pxOperationData c0 of None \<Rightarrow> pxOperationParams p | Some (_, ps) \<Rightarrow> ps)"
proof -
  obtain w1 where w1: "others E w = Some w1" "xOperationDataMutex (client w1 i) = Some True"
    using run by (auto simp: shadow_finish_def Let_def bind_eq_Some_conv take_data_iff i)
  note s1 = steady.others [OF w w1(1)] and f1 = steady_fields [OF steady.others [OF w w1(1)]]
  let ?w2 = "upd_client i (\<lambda>c. c\<lparr>pxOperationData := None, xOperationDataMutex := Some True\<rparr>) w1"
  obtain w3 w5 w7 where s: "others E ?w2 = Some w3" "others E (set_result i eShadowSuccess w3) = Some w5"
    "others E (upd_client i (\<lambda>c. c\<lparr>ucTopicBuffer := replicate shadowTOPIC_BUFFER_LENGTH 0\<rparr>) w5) = Some w7"
    "w' = upd_client i (\<lambda>c. c\<lparr>xOperationMutex := Some True\<rparr>) w7"
    and ps: "ps = (case pxOperationData (client w1 i) of None \<Rightarrow> pxOperationParams p | Some (_, ps) \<Rightarrow> ps)"
    using run w1 f1(10) unfolding i
    by (auto simp: shadow_finish_def Let_def bind_eq_Some_conv semaphore_iffs client_upd split: option.splits)
  show "ps = (case pxOperationData c0 of None \<Rightarrow> pxOperationParams p | Some (_, ps) \<Rightarrow> ps)" using ps f1(6) by simp
  have q3: "quiet i (client ?w2 i) (sh_trace w1) w3" using quiet.others [OF quiet_start [of ?w2 i] s(1)] f1(10) by (simp add: client_upd)
  note f3 = quiet_fields [OF q3]
  let ?w4 = "set_result i eShadowSuccess w3"
  have q5: "quiet i (client ?w4 i) (sh_trace w3) w5"
    using quiet.others [OF quiet_start [of ?w4 i] s(2)] f3(5,6,10) f1(10) by (simp add: client_upd set_result_def)
  note f5 = quiet_fields [OF q5]
  let ?w6 = "upd_client i (\<lambda>c. c\<lparr>ucTopicBuffer := replicate shadowTOPIC_BUFFER_LENGTH 0\<rparr>) w5"
  have q7: "quiet i (client ?w6 i) (sh_trace w5) w7"
    using quiet.others [OF quiet_start [of ?w6 i] s(3)] f5(5,6,10) f3(5,6,10) f1(10) by (simp add: client_upd set_result_def)
  note f7 = quiet_fields [OF q7]
  have c4: "client ?w4 i = (client w3 i)\<lparr>xOperationResult := eShadowSuccess\<rparr>" using f3(10) by (simp add: set_result_def client_upd)
  have c6: "client ?w6 i = (client w5 i)\<lparr>ucTopicBuffer := replicate shadowTOPIC_BUFFER_LENGTH 0\<rparr>" using f5(10) by (simp add: client_upd)
  have c2: "client ?w2 i = (client w1 i)\<lparr>pxOperationData := None, xOperationDataMutex := Some True\<rparr>" using f1(10) by (simp add: client_upd)
  have c8: "client w' i = (client w7 i)\<lparr>xOperationMutex := Some True\<rparr>" using f7(10) by (simp add: s(4) client_upd)
  note fields = f7(1-9) [unfolded c6] f5(1-9) [unfolded c4] f3(1-9) [unfolded c2] f1(1-8) c0
  show "client_ready (client w' i)" "xMQTTClient (client w' i) = xMQTTClient c0" "xCallbackCatalog (client w' i) = xCallbackCatalog c0"
    "sc_xInUse (client w' i) = sc_xInUse c0"
    unfolding c8 by (simp_all add: fields client_ready_def)
  show "in_range w' i" using f7(10) by (simp add: s(4))
  have "suffix (sh_trace w1) (sh_trace w7)"
    using q7 q5 q3 by (auto simp: quiet_def suffix_def set_result_def)
  then show "suffix tr0 (sh_trace w')" using f1(11) suffix_order.trans by (auto simp: s(4))
qed

lemma operation_effect:
  assumes i: "i = xShadowClientID p" and w: "in_range w i" "client_ready (client w i)" and ok: "request_ok p"
    and run: "prvShadowOperation E p w = Some (r, ps, w')"
  obtains new where "client_ready (client w' i)" "in_range w' i" "xMQTTClient (client w' i) = xMQTTClient (client w i)"
    "xCallbackCatalog (client w' i) = xCallbackCatalog (client w i)" "sc_xInUse (client w' i) = sc_xInUse (client w i)"
    "sh_trace w' = new @ sh_trace w" "outcome p (xMQTTClient (client w i)) new r ps"
proof -
  note result = that
  let ?c0 = "client w i" and ?name = "op_pcThingName (pxOperationParams p)"
  have f: "pcOperationAcceptedTopic p \<in> shadow_formats" "pcOperationRejectedTopic p \<in> shadow_formats" "name_ok ?name"
    using ok by (auto simp: request_ok_def)
  have r0: "pxOperationData ?c0 = None" "xCallbackSemaphore ?c0 = Some True" "xOperationMutex ?c0 = Some True"
    "xOperationDataMutex ?c0 = Some True" "length (ucTopicBuffer ?c0) = shadowTOPIC_BUFFER_LENGTH" using w(2) by (auto simp: client_ready_def)
  obtain w1 where w1: "others E w = Some w1" using run by (auto simp: prvShadowOperation_def Let_def bind_eq_Some_conv)
  have q1: "quiet i ?c0 (sh_trace w) w1" using quiet.others [OF quiet_start [of w i] w1] w(1) r0 by simp
  note f1 = quiet_fields [OF q1]
  let ?w2 = "upd_client i (\<lambda>c. c\<lparr>xOperationMutex := Some False\<rparr>) w1"
  let ?c2 = "client ?w2 i"
  have c2: "pxOperationData ?c2 = None" "xCallbackSemaphore ?c2 = Some True" "xOperationMutex ?c2 = Some False"
    "xOperationDataMutex ?c2 = Some True" "length (ucTopicBuffer ?c2) = shadowTOPIC_BUFFER_LENGTH" "xMQTTClient ?c2 = xMQTTClient ?c0"
    "xCallbackCatalog ?c2 = xCallbackCatalog ?c0" "sc_xInUse ?c2 = sc_xInUse ?c0" "in_range ?w2 i"
    using f1 r0 by (simp_all add: client_upd)
  obtain w3 ra w4 rb w5 w6 where s: "others E ?w2 = Some w3"
      "(if \<not> prvGetSubscribedFlag (xOperationName p) (client w3 i) then
          prvShadowSubscribeToAcceptedRejected E i ?name (pcOperationAcceptedTopic p) (pcOperationRejectedTopic p) (xTimeoutTicks p) w3
        else Some (eShadowSuccess, w3)) = Some (ra, w4)"
      "(if ra = eShadowSuccess then shadow_request E p w4 else Some (ra, w4)) = Some (rb, w5)"
      "(if op_ucKeepSubscriptions (pxOperationParams p) = 0 then shadow_unsubscribe E p w5 else Some w5) = Some w6"
      "shadow_finish E p w6 = Some (ps, w')" "r = rb"
    using run w1 f1(4) r0(3) unfolding i
    by (auto simp: prvShadowOperation_def Let_def bind_eq_Some_conv simp del: not_None_eq split del: if_split)
  let ?S = "steady i ?c2 (sh_trace w1)"
  have "?S ?w2" using steady_start [of ?w2 i] c2 by simp
  then have s3: "?S w3" by (rule steady.others [OF _ s(1)])
  have s4: "?S w4" using s(2) s3 steady_subscribe [OF s3 _ f] by (auto split: if_splits)
  note f4 = steady_fields [OF s4]
  have "suffix (sh_trace w) (sh_trace w1)" using q1 by (auto simp: quiet_def suffix_def)
  then have tr4: "suffix (sh_trace w) (sh_trace w4)" using f4(11) suffix_order.trans by blast
  show thesis
  proof (cases "ra = eShadowSuccess")
    case False
    then have "?S w5" "w5 = w4" "r = ra" using s(3,6) s4 by auto
    then have s6: "?S w6" using s(4) steady_unsubscribe_operation [OF _ _ ok i] by (auto split: if_splits)
    note e = finish_effect [OF i s6 c2(2,3) s(5)]
    have h: "suffix (sh_trace w4) (sh_trace w')"
    proof -
      have "steady i ?c2 (sh_trace w4) w4" using s4 steady_start [of w4 i]
        by (auto simp: steady_def quiet_def)
      then have "steady i ?c2 (sh_trace w4) w6"
        using s(4) steady_unsubscribe_operation [OF _ _ ok i] \<open>w5 = w4\<close> by (auto split: if_splits)
      then show ?thesis using finish_effect(5) [OF i _ c2(2,3) s(5)] by blast
    qed
    have h3: "suffix (sh_trace w) (sh_trace w3)"
      using \<open>suffix (sh_trace w) (sh_trace w1)\<close> steady_fields(11) [OF s3] suffix_order.trans by blast
    have "failed_call w3 r w4" using s(2) False subscribe_recorded \<open>r = ra\<close> by (auto split: if_splits)
    then have "failed_call w r w'" using failed_call_start failed_call_frame h h3 by blast
    then obtain c ret new where new: "sh_trace w' = new @ sh_trace w" "OAgent c ret \<in> set new" "r = prvConvertMQTTReturnCode ret"
      by (auto simp: failed_call_def)
    moreover have "ret \<noteq> eMQTTAgentSuccess" using False \<open>r = ra\<close> new(3) convert_success [of ret] by auto
    ultimately have "outcome p (xMQTTClient (client w i)) new r ps" unfolding outcome_def by blast
    then show thesis using result [of new] e(1-4,6) c2(6-8) new(1) by simp
  next
    case True
    then have run4: "shadow_request E p w4 = Some (r, w5)" using s(3,6) by simp
    obtain buf ps5 new5 where e5: "core (client w5 i) = core ((client w4 i)\<lparr>ucTopicBuffer := buf\<rparr>)" "length buf = shadowTOPIC_BUFFER_LENGTH"
      "in_range w5 i" "xCallbackSemaphore (client w5 i) = Some True" "pxOperationData (client w5 i) = Some (xOperationName p, ps5)"
      "sh_trace w5 = new5 @ sh_trace w4" "outcome p (xMQTTClient (client w4 i)) new5 r ps5"
      using request_effect [OF i f4(10) _ f4(9) ok run4] f4(6) c2(1) by metis
    have c5: "xMQTTClient (client w5 i) = xMQTTClient ?c0" "xOperationMutex (client w5 i) = Some False" "sc_xInUse (client w5 i) = sc_xInUse ?c0"
      "xCallbackCatalog (client w5 i) = xCallbackCatalog ?c0" "length (ucTopicBuffer (client w5 i)) = shadowTOPIC_BUFFER_LENGTH"
      by (simp_all add: core_fields [OF e5(1)] f4(1,2,4,8) c2(3,6-8) e5(2) del: buffer_length)
    have s5: "steady i (client w5 i) (sh_trace w5) w5" using steady_start [of w5 i] e5(3,4) c5(5) by simp
    have s6: "steady i (client w5 i) (sh_trace w5) w6"
      using s(4) s5 steady_unsubscribe_operation [OF s5 _ ok i] by (auto split: if_splits)
    note e = finish_effect [OF i s6 e5(4) c5(2) s(5)]
    obtain n6 where n6: "sh_trace w' = n6 @ sh_trace w5" using e(5) by (auto simp: suffix_def)
    obtain n4 where n4: "sh_trace w4 = n4 @ sh_trace w" using tr4 by (auto simp: suffix_def)
    have "outcome p (xMQTTClient ?c0) (n6 @ new5 @ n4) r ps"
      using e5(7) e(7) e5(5) f4(1) c2(6) outcome_mono [of p _ new5 r ps5 "n6 @ new5 @ n4"] by auto
    then show thesis using result [of "n6 @ new5 @ n4"] e(1-4,6) c5 n6 n4 e5(6) by simp
  qed
qed

section \<open>The operations\<close>

text \<open>The three operations differ in the parameters of the common code.\<close>

definition operation_params :: "ShadowOperationName_t \<Rightarrow> int \<Rightarrow> ShadowOperationParams_t \<Rightarrow> u32 \<Rightarrow> ShadowOperationCallParams_t" where
  "operation_params operation i ps ticks =
     (let f = (case operation of eShadowOperationUpdate \<Rightarrow> shadowTOPIC_UPDATE | eShadowOperationGet \<Rightarrow> shadowTOPIC_GET | _ \<Rightarrow> shadowTOPIC_DELETE) in
      \<lparr>xShadowClientID = i, xOperationName = operation, pcOperationTopic = f,
       pcOperationAcceptedTopic = f @ shadowTOPIC_SUFFIX_ACCEPTED, pcOperationRejectedTopic = f @ shadowTOPIC_SUFFIX_REJECTED,
       pcPublishMessage = (if operation = eShadowOperationUpdate then the (op_pcData ps) else [0]),
       ulPublishMessageLength = (if operation = eShadowOperationUpdate then op_ulDataLength ps else 0),
       pxOperationParams = ps, xTimeoutTicks = ticks\<rparr>)"

lemma update_operation:
  "SHADOW_Update E i ps ticks w = (if handle_ok i \<and> op_pcData ps \<noteq> None \<and> qos_0_or_1 (op_xQoS ps)
     then prvShadowOperation E (operation_params eShadowOperationUpdate i ps ticks) w else None)"
  by (auto simp: SHADOW_Update_def operation_params_def configASSERT_def shadowTOPIC_UPDATE_ACCEPTED_def shadowTOPIC_UPDATE_REJECTED_def)

lemma get_operation:
  "SHADOW_Get E i ps ticks w = (if handle_ok i \<and> qos_0_or_1 (op_xQoS ps)
     then prvShadowOperation E (operation_params eShadowOperationGet i ps ticks) w else None)"
  by (auto simp: SHADOW_Get_def operation_params_def configASSERT_def shadowTOPIC_GET_ACCEPTED_def shadowTOPIC_GET_REJECTED_def)

lemma delete_operation:
  "SHADOW_Delete E i ps ticks w = (if handle_ok i \<and> qos_0_or_1 (op_xQoS ps)
     then prvShadowOperation E (operation_params eShadowOperationDelete i ps ticks) w else None)"
  by (auto simp: SHADOW_Delete_def operation_params_def configASSERT_def shadowTOPIC_DELETE_ACCEPTED_def shadowTOPIC_DELETE_REJECTED_def)

lemmas shadow_operations = update_operation get_operation delete_operation

lemma operation_params_ok: "name_ok (op_pcThingName ps) \<Longrightarrow> request_ok (operation_params operation i ps ticks)"
  by (simp add: request_ok_def operation_params_def Let_def shadow_formats_def shadowTOPIC_UPDATE_ACCEPTED_def
      shadowTOPIC_UPDATE_REJECTED_def shadowTOPIC_GET_ACCEPTED_def shadowTOPIC_GET_REJECTED_def shadowTOPIC_DELETE_ACCEPTED_def
      shadowTOPIC_DELETE_REJECTED_def split: ShadowOperationName_t.split)

lemma operation_params_fields [simp]:
  "xShadowClientID (operation_params operation i ps ticks) = i" "xOperationName (operation_params operation i ps ticks) = operation"
  "pxOperationParams (operation_params operation i ps ticks) = ps" "xTimeoutTicks (operation_params operation i ps ticks) = ticks"
  by (simp_all add: operation_params_def Let_def)

text \<open>
  C12. Every operation on a shadow that returns leaves the client ready for the next one, whatever its
  result is and whatever messages arrived meanwhile: no operation is in progress, the semaphores
  can be taken, and the connection and the catalog of callbacks are the same. An operation need not return: the model
  has no result where an assertion of the code fails, and a second or late answer makes one fail,
  see \<open>late_answer_halts\<close>.
\<close>

theorem operation_leaves_ready:
  assumes "in_range w i" and "client_ready (client w i)" and "name_ok (op_pcThingName ps)"
    and "SHADOW_Update E i ps ticks w = Some (r, ps', w') \<or> SHADOW_Get E i ps ticks w = Some (r, ps', w') \<or>
      SHADOW_Delete E i ps ticks w = Some (r, ps', w')"
  shows "in_range w' i \<and> client_ready (client w' i) \<and> xMQTTClient (client w' i) = xMQTTClient (client w i) \<and>
    xCallbackCatalog (client w' i) = xCallbackCatalog (client w i) \<and> sc_xInUse (client w' i) = sc_xInUse (client w i)"
proof -
  obtain operation where run: "prvShadowOperation E (operation_params operation i ps ticks) w = Some (r, ps', w')" "handle_ok i"
    using assms(4) by (auto simp: shadow_operations split: if_splits)
  show ?thesis
    by (rule operation_effect [OF _ assms(1,2) operation_params_ok [OF assms(3)] run(1)]) simp_all
qed

text \<open>The topic of an operation, and a message of the service that tells its status.\<close>

definition thing_topic :: "u8 list \<Rightarrow> ShadowOperationName_t \<Rightarrow> u8 list" where
  "thing_topic name operation = cstr ''$aws/things/'' @ name @ cstr ''/shadow/'' @
     cstr (case operation of eShadowOperationUpdate \<Rightarrow> ''update'' | eShadowOperationGet \<Rightarrow> ''get'' | _ \<Rightarrow> ''delete'')"

definition answers :: "u8 list \<Rightarrow> string \<Rightarrow> MQTTPublishData_t \<Rightarrow> bool" where
  "answers topic status pd \<longleftrightarrow> suffix (cstr status) (message_topic pd) \<and>
     (prefix topic (message_topic pd) \<or> prefix (message_topic pd) topic)"

lemma thing_topic_request: "request_topic (operation_params operation i ps ticks) = thing_topic (op_pcThingName ps) operation"
  using topic_of_append [of shadowTOPIC_OPERATION_UPDATE] topic_of_append [of shadowTOPIC_OPERATION_GET] topic_of_append [of shadowTOPIC_OPERATION_DELETE]
  by (simp add: thing_topic_def operation_params_def shadowTOPIC_UPDATE_def shadowTOPIC_GET_def shadowTOPIC_DELETE_def
      shadowTOPIC_OPERATION_UPDATE_def shadowTOPIC_OPERATION_GET_def shadowTOPIC_OPERATION_DELETE_def split: ShadowOperationName_t.split)

lemma message_status_answers:
  "message_status T pd s \<longleftrightarrow> s = eShadowSuccess \<and> answers T ''/accepted'' pd \<or> s = eShadowFailure \<and> answers T ''/rejected'' pd"
  by (auto simp: message_status_def answers_def shadowTOPIC_SUFFIX_ACCEPTED_def shadowTOPIC_SUFFIX_REJECTED_def)

lemma success_evidence:
  assumes "evidence i operation ps T new eShadowSuccess ps'"
  obtains j pd where "nat j = nat i" "OMessage j (eMQTTAgentPublish pd) (operation = eShadowOperationGet) \<in> set new"
    "answers T ''/accepted'' pd" "update_answer operation ps pd"
    "operation = eShadowOperationGet \<Longrightarrow> op_pcData ps' = Some (pd_pvData pd) \<and> op_ulDataLength ps' = pd_ulDataLength pd \<and> op_xBuffer ps' = pd_xBuffer pd"
proof -
  obtain j pd s where e: "nat j = nat i" "OMessage j (eMQTTAgentPublish pd) (operation = eShadowOperationGet \<and> s = eShadowSuccess) \<in> set new"
    "message_status T pd s" "answer_result s pd eShadowSuccess" "update_answer operation ps pd"
    "operation = eShadowOperationGet \<longrightarrow>
        (if s = eShadowSuccess then op_pcData ps' = Some (pd_pvData pd) \<and> op_ulDataLength ps' = pd_ulDataLength pd \<and> op_xBuffer ps' = pd_xBuffer pd
         else op_pcData ps' = None \<and> op_ulDataLength ps' = 0)"
    using assms unfolding evidence_def by blast
  have s: "s = eShadowSuccess" by (rule answer_success [OF e(4)])
  have "answers T ''/accepted'' pd" using e(3) s by (auto simp: message_status_answers eShadowSuccess_def eShadowFailure_def)
  then show thesis using that [of j pd] e s by simp
qed

text \<open>
  C5. \<open>SHADOW_Update\<close> reports success only if the service confirmed this update: since the call
  the document was published on the update topic of the thing, and a message on a topic that
  fits it and ends with \<open>/accepted\<close> has arrived that carries the client token of the document.
\<close>

theorem update_success_confirmed:
  assumes "in_range w i" and "client_ready (client w i)" and "name_ok (op_pcThingName ps)"
    and "SHADOW_Update E i ps ticks w = Some (eShadowSuccess, ps', w')"
  shows "\<exists>new sent pub j pd ts. sh_trace w' = new @ sh_trace w \<and> op_pcData ps = Some sent \<and>
    OAgent (CallAgentPublish (xMQTTClient (client w i)) pub ticks) eMQTTAgentSuccess \<in> set new \<and>
    take (unat (ap_usTopicLength pub)) (ap_pucTopic pub) = thing_topic (op_pcThingName ps) eShadowOperationUpdate \<and>
    ap_pvData pub = sent \<and> ap_ulDataLength pub = op_ulDataLength ps \<and>
    OMessage j (eMQTTAgentPublish pd) False \<in> set new \<and> nat j = nat i \<and>
    answers (thing_topic (op_pcThingName ps) eShadowOperationUpdate) ''/accepted'' pd \<and>
    SHADOW_JSONDocClientTokenMatch ts sent (unat (op_ulDataLength ps)) (pd_pvData pd) (unat (pd_ulDataLength pd)) = Some True"
proof -
  let ?p = "operation_params eShadowOperationUpdate i ps ticks"
  have run: "prvShadowOperation E ?p w = Some (eShadowSuccess, ps', w')" "handle_ok i" "op_pcData ps \<noteq> None"
    using assms(4) by (auto simp: update_operation split: if_splits)
  obtain new where new: "sh_trace w' = new @ sh_trace w" "outcome ?p (xMQTTClient (client w i)) new eShadowSuccess ps'"
    by (rule operation_effect [OF _ assms(1,2) operation_params_ok [OF assms(3)] run(1)]) simp_all
  note o = outcome_success [OF new(2), unfolded thing_topic_request, unfolded operation_params_fields]
  obtain pub where pub: "OAgent (CallAgentPublish (xMQTTClient (client w i)) pub ticks) eMQTTAgentSuccess \<in> set new"
     "take (unat (ap_usTopicLength pub)) (ap_pucTopic pub) = thing_topic (op_pcThingName ps) eShadowOperationUpdate"
     "ap_pvData pub = the (op_pcData ps)" "ap_ulDataLength pub = op_ulDataLength ps"
    using o thing_topic_request [of eShadowOperationUpdate i ps ticks] by (auto simp: published_def operation_params_def)
  obtain j pd where e: "nat j = nat i" "OMessage j (eMQTTAgentPublish pd) False \<in> set new"
    "answers (thing_topic (op_pcThingName ps) eShadowOperationUpdate) ''/accepted'' pd" "update_answer eShadowOperationUpdate ps pd"
    by (rule success_evidence [OF conjunct2 [OF o]]) auto
  obtain ts sent where "op_pcData ps = Some sent"
    "SHADOW_JSONDocClientTokenMatch ts sent (unat (op_ulDataLength ps)) (pd_pvData pd) (unat (pd_ulDataLength pd)) = Some True"
    using e(4) by (auto simp: update_answer_def)
  then show ?thesis using new(1) pub e(1-3)
    by (intro exI [of _ new] exI [of _ sent] exI [of _ pub] exI [of _ j] exI [of _ pd] exI [of _ ts] conjI) simp_all
qed

text \<open>
  C14. \<open>SHADOW_Get\<close> that reports success hands over the document of a message that has arrived
  since the call, on a topic that fits the get topic of the thing and ends with \<open>/accepted\<close>, together
  with its buffer, which the callback has taken from the MQTT library. The length is always the one of the whole
  document: the truncation to the length given by the caller, which the comment on \<open>ulDataLength\<close> in
  \<open>aws_shadow.h\<close> announces, is not done.
\<close>

theorem get_success_delivers:
  assumes "in_range w i" and "client_ready (client w i)" and "name_ok (op_pcThingName ps)"
    and "SHADOW_Get E i ps ticks w = Some (eShadowSuccess, ps', w')"
  shows "\<exists>new j pd. sh_trace w' = new @ sh_trace w \<and> OMessage j (eMQTTAgentPublish pd) True \<in> set new \<and> nat j = nat i \<and>
    answers (thing_topic (op_pcThingName ps) eShadowOperationGet) ''/accepted'' pd \<and>
    op_pcData ps' = Some (pd_pvData pd) \<and> op_ulDataLength ps' = pd_ulDataLength pd \<and> op_xBuffer ps' = pd_xBuffer pd"
proof -
  let ?p = "operation_params eShadowOperationGet i ps ticks"
  have run: "prvShadowOperation E ?p w = Some (eShadowSuccess, ps', w')" using assms(4) by (auto simp: get_operation split: if_splits)
  obtain new where new: "sh_trace w' = new @ sh_trace w" "outcome ?p (xMQTTClient (client w i)) new eShadowSuccess ps'"
    by (rule operation_effect [OF _ assms(1,2) operation_params_ok [OF assms(3)] run]) simp_all
  note o = outcome_success [OF new(2), unfolded thing_topic_request, unfolded operation_params_fields]
  obtain j pd where "nat j = nat i" "OMessage j (eMQTTAgentPublish pd) True \<in> set new"
    "answers (thing_topic (op_pcThingName ps) eShadowOperationGet) ''/accepted'' pd"
    "op_pcData ps' = Some (pd_pvData pd)" "op_ulDataLength ps' = pd_ulDataLength pd" "op_xBuffer ps' = pd_xBuffer pd"
    using success_evidence [OF conjunct2 [OF o]] by metis
  then show ?thesis using new(1) by blast
qed


end
