(* ===== verification/ShadowCallbacks.thy ===== *)
theory ShadowCallbacks
  imports ShadowMessages
begin

text \<open>
  The callbacks of the user: \<open>SHADOW_RegisterCallbacks\<close> stores them in the catalog of the client,
  and a message that is no answer is passed on to the callback for its topic.
\<close>

section \<open>Registration\<close>

definition catalog_is :: "int \<Rightarrow> nat \<Rightarrow> CallbackCatalogEntry_t list \<Rightarrow> shadow \<Rightarrow> bool" where
  "catalog_is i h cat w \<longleftrightarrow> in_range w i \<and> xMQTTClient (client w i) = h \<and> xCallbackCatalog (client w i) = cat"

lemma clear_flags_catalog [simp]: "xCallbackCatalog (prvSetSubscribedFlag n v c) = xCallbackCatalog c"
  by (simp add: prvSetSubscribedFlag_def split: ShadowOperationName_t.split)

interpretation catalog: message_invariant "catalog_is i h cat" for i h cat
proof
  fix w w' :: shadow and j p taken cs new
  assume q: "catalog_is i h cat w" and e: "message_effect j p w taken cs" "xShadowClients w' = cs"
  show "catalog_is i h cat w'"
    using e(1)
  proof cases
    case unchanged
    then show ?thesis using q e(2) client_cong [of w' w i] by (simp add: catalog_is_def)
  next
    case disconnected
    then show ?thesis using q e(2) client_cong [of w' "upd_client j clear_flags w" i] by (auto simp: catalog_is_def client_upd)
  next
    case (answered operation ps pd s r)
    then show ?thesis
      using q e(2) client_cong [of w' "set_answer j r operation (answered_params operation s pd ps) w" i]
      by (auto simp: catalog_is_def client_upd set_answer_def)
  qed
qed (simp add: catalog_is_def)

text \<open>The slot that is used for a thing: the one it has, or a free one.\<close>

lemma strncmp_names: "length a = length b \<Longrightarrow> 0 \<notin> set a \<Longrightarrow> 0 \<notin> set b \<Longrightarrow> strncmp_eq (a @ x) (b @ y) (length b) = Some (a = b)"
  by (induction a b rule: list_induct2) auto

lemma catalog_slot_Cons:
  assumes "0 \<notin> set name" and "ce_xInUse e \<longrightarrow> 0 \<notin> set (entry_name e)"
  shows "catalog_slot (e # es) i name x =
    (if \<not> ce_xInUse e then catalog_slot es (i + 1) name (int i)
     else if entry_name e = name then Some (True, int i) else catalog_slot es (i + 1) name x)"
  using strncmp_names [of name "entry_name e" "[0]" "[0]"] assms by (cases "length (entry_name e) = length name") auto

definition slot_ok :: "CallbackCatalogEntry_t list \<Rightarrow> nat \<Rightarrow> u8 list \<Rightarrow> int \<Rightarrow> bool \<Rightarrow> int \<Rightarrow> bool" where
  "slot_ok es i name x found j \<longleftrightarrow>
    (if found then \<exists>k<length es. j = int (i + k) \<and> ce_xInUse (es ! k) \<and> entry_name (es ! k) = name
     else (\<forall>e\<in>set es. ce_xInUse e \<longrightarrow> entry_name e \<noteq> name) \<and> (j = x \<or> (\<exists>k<length es. j = int (i + k) \<and> \<not> ce_xInUse (es ! k))))"

lemma slot_ok_Cons:
  assumes "slot_ok es (i + 1) name y found j" and "y = x \<or> y = int i \<and> \<not> ce_xInUse e" and "ce_xInUse e \<longrightarrow> entry_name e \<noteq> name"
  shows "slot_ok (e # es) i name x found j"
proof -
  have up: "\<exists>k<length (e # es). j = int (i + k) \<and> P ((e # es) ! k)" if ex: "\<exists>k<length es. j = int (i + 1 + k) \<and> P (es ! k)" for P
  proof -
    obtain k where "k < length es" "j = int (i + 1 + k)" "P (es ! k)" using ex by blast
    then show ?thesis by (intro exI [of _ "Suc k"]) simp
  qed
  show ?thesis
  proof (cases found)
    case True
    then show ?thesis using assms(1) up [of "\<lambda>e. ce_xInUse e \<and> entry_name e = name"] by (simp add: slot_ok_def)
  next
    case False
    have "j = y \<or> (\<exists>k<length es. j = int (i + 1 + k) \<and> \<not> ce_xInUse (es ! k))" "\<forall>e\<in>set (e # es). ce_xInUse e \<longrightarrow> entry_name e \<noteq> name"
      using assms(1,3) False by (auto simp: slot_ok_def)
    moreover have "\<exists>k<length (e # es). j = int (i + k) \<and> \<not> ce_xInUse ((e # es) ! k)" if "j = int i" "\<not> ce_xInUse e"
      using that by (intro exI [of _ 0]) simp
    ultimately have "j = x \<or> (\<exists>k<length (e # es). j = int (i + k) \<and> \<not> ce_xInUse ((e # es) ! k))"
      using assms(2) up [of "\<lambda>e. \<not> ce_xInUse e"] by blast
    then show ?thesis
      using False \<open>\<forall>e\<in>set (e # es). ce_xInUse e \<longrightarrow> entry_name e \<noteq> name\<close> unfolding slot_ok_def by simp
  qed
qed

lemma catalog_slot_found:
  assumes "catalog_slot es i name x = Some (found, j)" and "0 \<notin> set name" and "\<forall>e\<in>set es. ce_xInUse e \<longrightarrow> 0 \<notin> set (entry_name e)"
  shows "slot_ok es i name x found j"
  using assms(1,3)
proof (induction es arbitrary: i x)
  case (Cons e es)
  note IH = Cons.IH [of "i + 1"]
  have s: "catalog_slot (e # es) i name x = (if \<not> ce_xInUse e then catalog_slot es (i + 1) name (int i)
     else if entry_name e = name then Some (True, int i) else catalog_slot es (i + 1) name x)"
    by (rule catalog_slot_Cons [OF assms(2)]) (use Cons.prems in simp)
  consider "ce_xInUse e" "entry_name e = name" | "\<not> ce_xInUse e" | "ce_xInUse e" "entry_name e \<noteq> name" by blast
  then show ?case
  proof cases
    case 1
    then have "found" "j = int i" using Cons.prems(1) unfolding s by auto
    then show ?thesis using 1 unfolding slot_ok_def by (auto intro!: exI [of _ 0])
  next
    case 2
    then show ?thesis using slot_ok_Cons [OF IH [of "int i"], of x e] Cons.prems unfolding s by simp
  next
    case 3
    then show ?thesis using slot_ok_Cons [OF IH [of x], of x e] Cons.prems unfolding s by simp
  qed
qed (simp add: slot_ok_def)

lemma catalog_entry_for:
  assumes "prvGetCallbackCatalogEntry cat name = Some (j, cat')" and "0 \<notin> set name" and "\<forall>e\<in>set cat. ce_xInUse e \<longrightarrow> 0 \<notin> set (entry_name e)"
  shows "0 \<le> j" "nat j < length cat" "length cat' = length cat" "ce_xInUse (cat' ! nat j)" "entry_name (cat' ! nat j) = name"
    "\<forall>k. k \<noteq> nat j \<longrightarrow> cat' ! k = cat ! k"
proof -
  obtain found k where s: "catalog_slot cat 0 name (-1) = Some (found, k)" using assms(1) by (auto simp: prvGetCallbackCatalogEntry_def bind_eq_Some_conv)
  note c = catalog_slot_found [OF s assms(2,3)]
  have "0 \<le> j \<and> nat j < length cat \<and> length cat' = length cat \<and> ce_xInUse (cat' ! nat j) \<and> entry_name (cat' ! nat j) = name \<and>
    (\<forall>k. k \<noteq> nat j \<longrightarrow> cat' ! k = cat ! k)"
    using assms(1) s c by (cases found) (auto simp: prvGetCallbackCatalogEntry_def slot_ok_def split: if_splits)
  then show "0 \<le> j" "nat j < length cat" "length cat' = length cat" "ce_xInUse (cat' ! nat j)" "entry_name (cat' ! nat j) = name"
    "\<forall>k. k \<noteq> nat j \<longrightarrow> cat' ! k = cat ! k" by blast+
qed

text \<open>A subscription to the topic with the format \<open>fmt\<close> that the agent accepted.\<close>

definition subscribed :: "nat \<Rightarrow> u8 list \<Rightarrow> u32 \<Rightarrow> shadow_obs list \<Rightarrow> bool" where
  "subscribed h topic ticks new \<longleftrightarrow> (\<exists>sub. OAgent (CallAgentSubscribe h sub ticks) eMQTTAgentSuccess \<in> set new \<and>
     take (unat (as_usTopicLength sub)) (as_pucTopic sub) = topic \<and> as_xQoS sub = eMQTTQoS1)"

lemma subscribed_mono: "subscribed h topic ticks new \<Longrightarrow> set new \<subseteq> set new' \<Longrightarrow> subscribed h topic ticks new'"
  unfolding subscribed_def by blast

lemma register_effect:
  assumes w: "catalog_is i h cat w" and fmt: "fmt \<in> shadow_formats" "name_ok name" and stack: "\<And>tr. length (se_stack E tr) = shadowTOPIC_BUFFER_LENGTH"
    and run: "prvRegisterCallback E i j get put new name fmt ticks w = Some (r, w')"
  obtains obs where "sh_trace w' = obs @ sh_trace w" "r = eShadowSuccess \<Longrightarrow> new \<noteq> None \<Longrightarrow> subscribed h (topic_of fmt name) ticks obs"
    "catalog_is i h (if r = eShadowSuccess then cat[j := (cat ! j)\<lparr>xCallbackInfo := put new (xCallbackInfo (cat ! j))\<rparr>] else cat) w'"
proof -
  note result = that
  obtain n buf w1 ra w2 w3 w4 where s: "prvCreateTopic (se_stack E (sh_trace w)) (of_nat shadowTOPIC_BUFFER_LENGTH) fmt name = Some (n, buf)"
    "others E w = Some w1"
    "(if get (xCallbackInfo (xCallbackCatalog (client w1 i) ! j)) \<noteq> None then do {
         (r, w) \<leftarrow> agent E (CallAgentUnsubscribe (xMQTTClient (client w1 i)) \<lparr>au_pucTopic = buf, au_usTopicLength = n\<rparr> ticks) w1;
         Some (prvConvertMQTTReturnCode r, w)
       } else Some (eShadowSuccess, w1)) = Some (ra, w2)"
    "(if new \<noteq> None then do {
         (r, w) \<leftarrow> agent E (CallAgentSubscribe (xMQTTClient (client w2 i))
           \<lparr>as_pucTopic = buf, as_usTopicLength = n, as_xQoS = eMQTTQoS1, as_pvPublishCallbackContext = 0, as_pxPublishCallback = None\<rparr> ticks) w2;
         Some (prvConvertMQTTReturnCode r, w)
       } else Some (ra, w2)) = Some (r, w3)"
    "others E w3 = Some w4" "w' = (if r = eShadowSuccess then upd_entry i j (put new) w4 else w4)"
    using run by (auto simp: prvRegisterCallback_def bind_eq_Some_conv simp del: not_None_eq split del: if_split)
  note f = format_topic [OF fmt]
  have buf: "take (unat n) buf = topic_of fmt name" using s(1) f(1,3) f(4) [OF stack] by auto
  have c1: "catalog_is i h cat w1" and h1: "suffix (sh_trace w) (sh_trace w1)"
    using catalog.others [OF w s(2)] history.others [OF suffix_order.refl s(2)] by simp_all
  have c2: "catalog_is i h cat w2" and h2: "suffix (sh_trace w) (sh_trace w2)"
    using s(3) c1 h1 catalog.agent [OF c1] history.agent [OF h1] by (auto simp: bind_eq_Some_conv simp del: not_None_eq split: if_splits)
  have "catalog_is i h cat w3 \<and> (\<exists>obs. sh_trace w3 = obs @ sh_trace w \<and> (r = eShadowSuccess \<longrightarrow> new \<noteq> None \<longrightarrow> subscribed h (topic_of fmt name) ticks obs))"
  proof (cases "new = None")
    case True
    then show ?thesis using s(4) c2 h2 by (auto simp: suffix_def)
  next
    case False
    let ?sub = "\<lparr>as_pucTopic = buf, as_usTopicLength = n, as_xQoS = eMQTTQoS1, as_pvPublishCallbackContext = 0, as_pxPublishCallback = None\<rparr>"
    obtain rs where a: "agent E (CallAgentSubscribe h ?sub ticks) w2 = Some (rs, w3)" "r = prvConvertMQTTReturnCode rs"
      using s(4) False c2 by (auto simp: bind_eq_Some_conv catalog_is_def)
    obtain u where u: "suffix (sh_trace w) (sh_trace u)" "w3 = record_obs (OAgent (CallAgentSubscribe h ?sub ticks) rs) u"
      by (rule history.agent_call [OF h2 a(1)])
    then obtain o' where o': "sh_trace w3 = (OAgent (CallAgentSubscribe h ?sub ticks) rs # o') @ sh_trace w" by (auto simp: suffix_def)
    have "subscribed h (topic_of fmt name) ticks (OAgent (CallAgentSubscribe h ?sub ticks) rs # o')" if "r = eShadowSuccess"
    proof -
      have "rs = eMQTTAgentSuccess" using that a(2) by (simp add: prvConvertMQTTReturnCode_def shadow_codes split: MQTTAgentReturnCode_t.splits)
      then show ?thesis unfolding subscribed_def using buf by (intro exI [of _ ?sub]) simp
    qed
    then show ?thesis using catalog.agent [OF c2 a(1)] o' by blast
  qed
  then obtain obs where o: "catalog_is i h cat w3" "sh_trace w3 = obs @ sh_trace w"
    "r = eShadowSuccess \<longrightarrow> new \<noteq> None \<longrightarrow> subscribed h (topic_of fmt name) ticks obs" by blast
  obtain more where m: "sh_trace w4 = more @ sh_trace w3" using history.others [OF suffix_order.refl s(5)] by (auto simp: suffix_def)
  have c4: "catalog_is i h cat w4" by (rule catalog.others [OF o(1) s(5)])
  have "r = eShadowSuccess \<Longrightarrow> new \<noteq> None \<Longrightarrow> subscribed h (topic_of fmt name) ticks (more @ obs)"
    using o(3) subscribed_mono by fastforce
  then show thesis
    using result [of "more @ obs"] m o(2) c4 s(6) by (auto simp: catalog_is_def upd_entry_def client_upd)
qed

text \<open>The three registrations of a successful call.\<close>

abbreviation register_updated where
  "register_updated E i j cb ticks \<equiv> prvRegisterCallback E i j xShadowUpdatedCallback (\<lambda>f e. e\<lparr>xShadowUpdatedCallback := f\<rparr>)
     (xShadowUpdatedCallback cb) (cb_pcThingName cb) shadowTOPIC_UPDATE_DOCUMENTS ticks"

abbreviation register_deleted where
  "register_deleted E i j cb ticks \<equiv> prvRegisterCallback E i j xShadowDeletedCallback (\<lambda>f e. e\<lparr>xShadowDeletedCallback := f\<rparr>)
     (xShadowDeletedCallback cb) (cb_pcThingName cb) shadowTOPIC_DELETE_ACCEPTED ticks"

abbreviation register_delta where
  "register_delta E i j cb ticks \<equiv> prvRegisterCallback E i j xShadowDeltaCallback (\<lambda>f e. e\<lparr>xShadowDeltaCallback := f\<rparr>)
     (xShadowDeltaCallback cb) (cb_pcThingName cb) shadowTOPIC_UPDATE_DELTA ticks"

definition release_entry :: "int \<Rightarrow> nat \<Rightarrow> shadow \<Rightarrow> shadow" where
  "release_entry i j w = (let e = xCallbackInfo (xCallbackCatalog (client w i) ! j) in
     if xShadowUpdatedCallback e = None \<and> xShadowDeltaCallback e = None \<and> xShadowDeletedCallback e = None
     then upd_client i (\<lambda>c. c\<lparr>xCallbackCatalog := (xCallbackCatalog c)[j := zero_entry]\<rparr>) w else w)"

lemma register_runs:
  assumes "SHADOW_RegisterCallbacks E i cb ticks w = Some (eShadowSuccess, w')"
  obtains j cat w1 w2 w3 w4 where
    "prvGetCallbackCatalogEntry (xCallbackCatalog (client w i)) (cb_pcThingName cb) = Some (j, cat)"
    "register_updated E i (nat j) cb ticks (upd_client i (\<lambda>c. c\<lparr>xCallbackCatalog := cat\<rparr>) w) = Some (eShadowSuccess, w1)"
    "register_deleted E i (nat j) cb ticks w1 = Some (eShadowSuccess, w2)" "register_delta E i (nat j) cb ticks w2 = Some (eShadowSuccess, w3)"
    "others E w3 = Some w4" "w' = release_entry i (nat j) w4"
proof -
  obtain j cat where g: "prvGetCallbackCatalogEntry (xCallbackCatalog (client w i)) (cb_pcThingName cb) = Some (j, cat)"
    using assms by (auto simp: SHADOW_RegisterCallbacks_def bind_eq_Some_conv)
  obtain ra w1 rb w2 w3 w4 where run:
    "register_updated E i (nat j) cb ticks (upd_client i (\<lambda>c. c\<lparr>xCallbackCatalog := cat\<rparr>) w) = Some (ra, w1)"
    "(if ra = eShadowSuccess then register_deleted E i (nat j) cb ticks w1 else Some (ra, w1)) = Some (rb, w2)"
    "(if rb = eShadowSuccess then register_delta E i (nat j) cb ticks w2 else Some (rb, w2)) = Some (eShadowSuccess, w3)"
    "others E w3 = Some w4" "w' = release_entry i (nat j) w4"
    using assms g by (auto simp: SHADOW_RegisterCallbacks_def release_entry_def bind_eq_Some_conv Let_def split del: if_split)
  have rb: "rb = eShadowSuccess" using run(3) by (cases "rb = eShadowSuccess") auto
  have "ra = eShadowSuccess" using run(2) rb by (cases "ra = eShadowSuccess") auto
  then show thesis using that [OF g] run rb by simp
qed

text \<open>
  C36. \<open>SHADOW_RegisterCallbacks\<close> that reports success has stored the callbacks in one entry of
  the catalog, whatever messages arrive meanwhile: the entry has the name of the thing and exactly
  the new callbacks, or is free again if there are none, and the other entries are as before.
  The agent has subscribed to the topic of every callback that is given.
\<close>

theorem callbacks_registered:
  assumes "in_range w i" and "catalog_ok (xCallbackCatalog (client w i))" and "name_ok (cb_pcThingName cb)"
    and "\<And>tr. length (se_stack E tr) = shadowTOPIC_BUFFER_LENGTH"
    and "SHADOW_RegisterCallbacks E i cb ticks w = Some (eShadowSuccess, w')"
  shows "\<exists>j obs. j < length (xCallbackCatalog (client w i)) \<and> length (xCallbackCatalog (client w' i)) = length (xCallbackCatalog (client w i)) \<and>
    xCallbackCatalog (client w' i) ! j =
      (if xShadowUpdatedCallback cb = None \<and> xShadowDeletedCallback cb = None \<and> xShadowDeltaCallback cb = None then zero_entry
       else \<lparr>xCallbackInfo = cb, ce_xInUse = True\<rparr>) \<and>
    (\<forall>k. k \<noteq> j \<longrightarrow> xCallbackCatalog (client w' i) ! k = xCallbackCatalog (client w i) ! k) \<and> sh_trace w' = obs @ sh_trace w \<and>
    (\<forall>(f, topic) \<in> {(xShadowUpdatedCallback cb, ''/shadow/update/documents''), (xShadowDeletedCallback cb, ''/shadow/delete/accepted''),
       (xShadowDeltaCallback cb, ''/shadow/update/delta'')}.
       f \<noteq> None \<longrightarrow> subscribed (xMQTTClient (client w i)) (cstr ''$aws/things/'' @ cb_pcThingName cb @ cstr topic) ticks obs)"
proof -
  let ?cat = "xCallbackCatalog (client w i)" and ?h = "xMQTTClient (client w i)" and ?name = "cb_pcThingName cb"
  obtain jj cat w1 w2 w3 w4 where g: "prvGetCallbackCatalogEntry ?cat ?name = Some (jj, cat)"
    and s: "register_updated E i (nat jj) cb ticks (upd_client i (\<lambda>c. c\<lparr>xCallbackCatalog := cat\<rparr>) w) = Some (eShadowSuccess, w1)"
    "register_deleted E i (nat jj) cb ticks w1 = Some (eShadowSuccess, w2)" "register_delta E i (nat jj) cb ticks w2 = Some (eShadowSuccess, w3)"
    "others E w3 = Some w4" "w' = release_entry i (nat jj) w4"
    by (rule register_runs [OF assms(5)])
  let ?j = "nat jj" and ?w0 = "upd_client i (\<lambda>c. c\<lparr>xCallbackCatalog := cat\<rparr>) w"
  have e: "?j < length ?cat" "length cat = length ?cat" "ce_xInUse (cat ! ?j)" "entry_name (cat ! ?j) = ?name"
    "\<forall>k. k \<noteq> ?j \<longrightarrow> cat ! k = ?cat ! k"
    using catalog_entry_for [OF g] assms(2,3) by (auto simp: catalog_ok_def name_ok_def)
  have c0: "catalog_is i ?h cat ?w0" using assms(1) by (simp add: catalog_is_def client_upd)
  obtain o1 where r1: "sh_trace w1 = o1 @ sh_trace ?w0"
    "xShadowUpdatedCallback cb \<noteq> None \<Longrightarrow> subscribed ?h (topic_of shadowTOPIC_UPDATE_DOCUMENTS ?name) ticks o1"
    and c1: "catalog_is i ?h (cat[?j := (cat ! ?j)\<lparr>xCallbackInfo := (xCallbackInfo (cat ! ?j))\<lparr>xShadowUpdatedCallback := xShadowUpdatedCallback cb\<rparr>\<rparr>]) w1"
    by (rule register_effect [OF c0 callback_formats(2) assms(3,4) s(1)]) simp
  obtain o2 where r2: "sh_trace w2 = o2 @ sh_trace w1"
    "xShadowDeletedCallback cb \<noteq> None \<Longrightarrow> subscribed ?h (topic_of shadowTOPIC_DELETE_ACCEPTED ?name) ticks o2"
    and c2: "catalog_is i ?h (cat[?j := (cat ! ?j)\<lparr>xCallbackInfo := (xCallbackInfo (cat ! ?j))\<lparr>xShadowUpdatedCallback := xShadowUpdatedCallback cb,
      xShadowDeletedCallback := xShadowDeletedCallback cb\<rparr>\<rparr>]) w2"
    by (rule register_effect [OF c1 callback_formats(4) assms(3,4) s(2)]) (use e in simp)
  obtain o3 where r3: "sh_trace w3 = o3 @ sh_trace w2"
    "xShadowDeltaCallback cb \<noteq> None \<Longrightarrow> subscribed ?h (topic_of shadowTOPIC_UPDATE_DELTA ?name) ticks o3"
    and c3: "catalog_is i ?h (cat[?j := (cat ! ?j)\<lparr>xCallbackInfo := (xCallbackInfo (cat ! ?j))\<lparr>xShadowUpdatedCallback := xShadowUpdatedCallback cb,
      xShadowDeletedCallback := xShadowDeletedCallback cb, xShadowDeltaCallback := xShadowDeltaCallback cb\<rparr>\<rparr>]) w3"
    by (rule register_effect [OF c2 callback_formats(3) assms(3,4) s(3)]) (use e in simp)
  have "(cat ! ?j)\<lparr>xCallbackInfo := (xCallbackInfo (cat ! ?j))\<lparr>xShadowUpdatedCallback := xShadowUpdatedCallback cb,
      xShadowDeletedCallback := xShadowDeletedCallback cb, xShadowDeltaCallback := xShadowDeltaCallback cb\<rparr>\<rparr> = \<lparr>xCallbackInfo = cb, ce_xInUse = True\<rparr>"
    using e(3,4) by (cases "cat ! ?j"; cases "xCallbackInfo (cat ! ?j)"; cases cb) auto
  then have c4: "catalog_is i ?h (cat[?j := \<lparr>xCallbackInfo = cb, ce_xInUse = True\<rparr>]) w4" using catalog.others [OF c3 s(4)] by simp
  obtain o4 where r4: "sh_trace w4 = o4 @ sh_trace w3" using history.others [OF suffix_order.refl s(4)] by (auto simp: suffix_def)
  have w': "xCallbackCatalog (client w' i) = cat[?j :=
      (if xShadowUpdatedCallback cb = None \<and> xShadowDeletedCallback cb = None \<and> xShadowDeltaCallback cb = None then zero_entry
       else \<lparr>xCallbackInfo = cb, ce_xInUse = True\<rparr>)]" "sh_trace w' = (o4 @ o3 @ o2 @ o1) @ sh_trace w"
    using c4 e(1,2) r1(1) r2(1) r3(1) r4 by (auto simp: s(5) release_entry_def Let_def catalog_is_def client_upd)
  have sub: "subscribed ?h (topic_of shadowTOPIC_UPDATE_DOCUMENTS ?name) ticks (o4 @ o3 @ o2 @ o1)" if "xShadowUpdatedCallback cb \<noteq> None"
    using r1(2) [OF that] by (rule subscribed_mono) auto
  moreover have "subscribed ?h (topic_of shadowTOPIC_DELETE_ACCEPTED ?name) ticks (o4 @ o3 @ o2 @ o1)" if "xShadowDeletedCallback cb \<noteq> None"
    using r2(2) [OF that] by (rule subscribed_mono) auto
  moreover have "subscribed ?h (topic_of shadowTOPIC_UPDATE_DELTA ?name) ticks (o4 @ o3 @ o2 @ o1)" if "xShadowDeltaCallback cb \<noteq> None"
    using r3(2) [OF that] by (rule subscribed_mono) auto
  ultimately show ?thesis
    using w' e(1,2,5) by (intro exI [of _ ?j] exI [of _ "o4 @ o3 @ o2 @ o1"]) (auto simp: callback_topics)
qed

section \<open>Messages\<close>





text \<open>
  An answer that finds the semaphore given: the assertion on giving it fails, unless the answer is one
  to an update of another client.
\<close>

lemma give_given: "in_range w i \<Longrightarrow> xCallbackSemaphore (client w i) = Some True \<Longrightarrow> give_callback_semaphore i w = None"
  by (simp add: give_callback_semaphore_def xSemaphoreGive_def configASSERT_def)

lemma answer_given:
  assumes "in_range v i" and "xCallbackSemaphore (client v i) = Some True" and "sh_trace v0 = sh_trace v"
  shows "operation_answer E i operation ps s pd v = None \<or> operation_answer E i operation ps s pd v0 = Some (False, v0)"
proof -
  have r: "give_callback_semaphore i (set_result i x v) = None" "give_callback_semaphore i (set_result i x (set_result i y v)) = None"
    "give_callback_semaphore i (upd_params i f (set_result i x v)) = None"
    "give_callback_semaphore i (upd_params i f (set_result i x (set_result i y v))) = None" for x y f
    using assms(1,2) by (auto intro!: give_given simp: set_result_def upd_params_def client_upd)
  have gd: "prvShadowGetCallback E i s d n b v = None" "prvShadowDeleteCallback E i s d n v = None" for d n b
    by (cases "prvGetErrorCodeAndMessage E d n (set_result i s v)";
        simp add: prvShadowGetCallback_def prvShadowDeleteCallback_def r)+
  have up: "prvShadowUpdateCallback E i s ps d n v = None \<or> prvShadowUpdateCallback E i s ps d n v0 = Some v0" for d n
  proof (cases "op_pcData ps")
    case (Some sent)
    let ?m = "SHADOW_JSONDocClientTokenMatch (se_tokens E (sh_trace v)) sent (unat (op_ulDataLength ps)) d (unat n)"
    consider "?m = None" | "?m = Some True" | "?m = Some False" by (cases ?m) auto
    then show ?thesis
      by cases (cases "prvGetErrorCodeAndMessage E d n (set_result i s v)", auto simp: prvShadowUpdateCallback_def Some r assms(3))
  qed (simp add: prvShadowUpdateCallback_def)
  show ?thesis using up [of "pd_pvData pd" "pd_ulDataLength pd"] by (cases operation) (auto simp: operation_answer_def gd)
qed

lemma match_given:
  assumes "in_range v i" and "xCallbackSemaphore (client v i) = Some True" and "v0 = upd_client i (\<lambda>c. c\<lparr>xCallbackSemaphore := Some False\<rparr>) v"
    and "match_answer E i pd v0 = Some (m, taken, u0)"
  shows "match_answer E i pd v = None \<or> u0 = v0"
proof (cases "pxOperationData (client v i)")
  case (Some d)
  obtain operation ps where d: "pxOperationData (client v i) = Some (operation, ps)" using Some by (cases d) auto
  have f: "pxOperationData (client v0 i) = Some (operation, ps)" "ucTopicBuffer (client v0 i) = ucTopicBuffer (client v i)"
    "sh_trace v0 = sh_trace v" using assms(1,3) d by (simp_all add: client_upd)
  obtain n eq where n: "strlen (ucTopicBuffer (client v i)) = Some n"
    "strncmp_eq (pd_pucTopic pd) (ucTopicBuffer (client v i)) (min n (unat (pd_usTopicLength pd))) = Some eq"
    using assms(4) f by (auto simp: match_answer_def bind_eq_Some_conv)
  show ?thesis
  proof (cases eq)
    case True
    then obtain s where s: "prvParseShadowOperationStatus (pd_pucTopic pd) (pd_usTopicLength pd) = Some s"
      using assms(4) f n by (auto simp: match_answer_def bind_eq_Some_conv)
    show ?thesis
    proof (cases "s \<noteq> eShadowUnknown \<and> operation \<noteq> eShadowOperationOther")
      case True
      then show ?thesis
        using answer_given [OF assms(1,2) f(3), of E operation ps s pd] assms(4) f(1,2) d n \<open>eq\<close> s by (auto simp: match_answer_def)
    next
      case False
      then have "match_answer E i pd v0 = Some (False, False, v0)"
        using f(1,2) n \<open>eq\<close> s by (cases "s = eShadowUnknown") (simp_all add: match_answer_def)
      then show ?thesis using assms(4) by simp
    qed
  next
    case False
    then have "match_answer E i pd v0 = Some (False, False, v0)" using f(1,2) n by (simp add: match_answer_def)
    then show ?thesis using assms(4) by simp
  qed
next
  case None
  then have "pxOperationData (client v0 i) = None" using assms(1,3) by (simp add: client_upd)
  then show ?thesis using assms(4) by (simp add: match_answer_def)
qed

text \<open>
  C39. A second or late answer stops the firmware. Take any message that is an answer, for any
  operation and any status: when the semaphore of the operation is being waited for, the callback handles it and gives the semaphore. If the same
  message comes when the semaphore has already been given, because another answer came before or the
  service answers twice, and all else is equal, the callback does not return: giving the semaphore fails,
  and with it the assertion on its result.
\<close>

theorem late_answer_halts:
  assumes "in_range w i" and "xCallbackSemaphore (client w i) = Some True"
    and "waiting = upd_client i (\<lambda>c. c\<lparr>xCallbackSemaphore := Some False\<rparr>) w"
    and "prvShadowMQTTCallback E i (eMQTTAgentPublish pd) waiting = Some (taken, w')" and "xCallbackSemaphore (client w' i) = Some True"
  shows "prvShadowMQTTCallback E i (eMQTTAgentPublish pd) w = None"
proof -
  let ?v = "upd_client i (\<lambda>c. c\<lparr>xOperationDataMutex := Some False\<rparr>) w"
  let ?u = "upd_client i (\<lambda>c. c\<lparr>xCallbackSemaphore := Some False\<rparr>) ?v"
  have v: "in_range ?v i" "xCallbackSemaphore (client ?v i) = Some True" using assms(1,2) by (simp, simp add: client_upd)
  have w: "upd_client i (\<lambda>c. c\<lparr>xOperationDataMutex := Some False\<rparr>) waiting = ?u"
    unfolding assms(3) upd_upd by (rule upd_client_cong) simp
  have d: "xOperationDataMutex (client waiting i) = xOperationDataMutex (client w i)" using assms(1,3) by (simp add: client_upd)
  obtain m taken' u0 u1 where run: "xOperationDataMutex (client w i) = Some True" "match_answer E i pd ?u = Some (m, taken', u0)"
    "give_data_mutex i u0 = Some u1" "if m then u1 = w' else \<exists>t. notify_user E i pd u1 = Some (t, w')"
    using assms(4) w d by (auto simp: prvShadowMQTTCallback_def bind_eq_Some_conv take_data_mutex_def split: if_splits)
  have "xCallbackSemaphore (client u1 i) = Some True"
    using run(4) assms(5) notify_user_frame [of E i pd u1 _ w'] client_cong [of w' u1 i] by (auto split: if_splits)
  then have "xCallbackSemaphore (client u0 i) = Some True"
    using run(3) by (auto simp: give_data_iff client_upd split: if_splits)
  then have "u0 \<noteq> ?u" using v(1) by (auto simp: client_upd)
  then have "match_answer E i pd ?v = None" using match_given [OF v refl run(2)] by blast
  then show ?thesis using run(1) by (simp add: prvShadowMQTTCallback_def take_data_mutex_def)
qed

end
