(* ===== verification/ShadowRuns.thy ===== *)
theory ShadowRuns
  imports ShadowOperation ShadowCallbacks
begin

text \<open>
  Runs of the shadow client in an environment that answers, and the callbacks of the user.
\<close>

section \<open>Concrete runs\<close>

text \<open>
  An agent whose calls succeed, and one message that arrives while the operation waits for its
  answer.
\<close>

definition answering_env :: "MQTTPublishData_t \<Rightarrow> shadow_env" where
  "answering_env pd =
     \<lparr>se_agent = (\<lambda>_ _. eMQTTAgentSuccess), se_handle = (\<lambda>_. 0), se_events = (\<lambda>_. []), se_wait = (\<lambda>_. [(0, eMQTTAgentPublish pd)]),
      se_user = (\<lambda>_ _. False), se_stack = (\<lambda>_. replicate shadowTOPIC_BUFFER_LENGTH 0),
      se_tokens = (\<lambda>_. replicate shadowconfigJSON_JSMN_TOKENS blank_token)\<rparr>"

definition connected_client :: ShadowClient_t where
  "connected_client = zero_client\<lparr>sc_xInUse := True, xMQTTClient := 7, xOperationDataMutex := Some True, xOperationMutex := Some True,
     xCallbackSemaphore := Some True\<rparr>"

definition connected_shadow :: shadow where
  "connected_shadow = \<lparr>xShadowClients = [connected_client], sh_trace = []\<rparr>"

definition example_params :: ShadowOperationParams_t where
  "example_params = \<lparr>op_pcThingName = cstr ''t1'', op_pcData = Some example_token_doc, op_ulDataLength = 20, op_xBuffer = 0,
     op_ucKeepSubscriptions = 0, op_xQoS = eMQTTQoS0\<rparr>"

definition example_answer :: "string \<Rightarrow> u8 list \<Rightarrow> MQTTPublishData_t" where
  "example_answer topic doc = \<lparr>pd_xQos = eMQTTQoS1, pd_pucTopic = cstr topic, pd_usTopicLength = of_nat (length topic),
     pd_pvData = doc, pd_ulDataLength = of_nat (length doc), pd_xBuffer = 5\<rparr>"

definition update_env :: shadow_env where
  "update_env = answering_env (example_answer ''$aws/things/t1/shadow/update/accepted'' example_token_doc)"

definition get_env :: shadow_env where
  "get_env = answering_env (example_answer ''$aws/things/t1/shadow/get/accepted'' example_token_doc)"

definition delete_env :: shadow_env where
  "delete_env = answering_env (example_answer ''$aws/things/t1/shadow/delete/rejected'' (cstr ''{\"code\":404,\"message\":\"m\"}''))"

lemma example_update:
  "map_option (\<lambda>(r, _, _). r) (SHADOW_Update update_env 0 example_params 100 connected_shadow) = Some eShadowSuccess"
  by code_simp

lemma example_get:
  "map_option (\<lambda>(r, ps, _). (r, op_xBuffer ps)) (SHADOW_Get get_env 0 example_params 100 connected_shadow) = Some (eShadowSuccess, 5)"
  by code_simp

lemma example_delete:
  "map_option (\<lambda>(r, _, _). r) (SHADOW_Delete delete_env 0 example_params 100 connected_shadow) = Some 404"
  by code_simp

lemma connected_ready: "in_range connected_shadow 0" "client_ready (client connected_shadow 0)" "name_ok (op_pcThingName example_params)"
  by (simp_all add: connected_shadow_def connected_client_def zero_client_def client_ready_def name_ok_def example_params_def cstr_def
      configMAX_THING_NAME_LENGTH_def in_range_def shadowconfigMAX_CLIENTS_def eShadowSuccess_def)

lemma example_results:
  obtains u gr g d where "SHADOW_Update update_env 0 example_params 100 connected_shadow = Some (eShadowSuccess, u)"
    "SHADOW_Get get_env 0 example_params 100 connected_shadow = Some (eShadowSuccess, gr, g)" "op_xBuffer gr = 5"
    "SHADOW_Delete delete_env 0 example_params 100 connected_shadow = Some (404, d)"
  using example_update example_get example_delete by auto

theorem operation_leaves_ready_witness:
  "\<exists>ps' w'. SHADOW_Update update_env 0 example_params 100 connected_shadow = Some (eShadowSuccess, ps', w') \<and>
     client_ready (client w' 0) \<and> xMQTTClient (client w' 0) = 7"
proof -
  obtain u where "SHADOW_Update update_env 0 example_params 100 connected_shadow = Some (eShadowSuccess, u)" by (rule example_results)
  then obtain ps' w' where run: "SHADOW_Update update_env 0 example_params 100 connected_shadow = Some (eShadowSuccess, ps', w')" by (cases u) auto
  then show ?thesis
    using operation_leaves_ready [OF connected_ready disjI1 [OF run]] by (auto simp: connected_shadow_def connected_client_def)
qed

theorem update_success_confirmed_witness:
  "\<exists>ps' w' j pd. SHADOW_Update update_env 0 example_params 100 connected_shadow = Some (eShadowSuccess, ps', w') \<and>
     OMessage j (eMQTTAgentPublish pd) False \<in> set (sh_trace w') \<and> suffix (cstr ''/accepted'') (message_topic pd)"
proof -
  obtain u where "SHADOW_Update update_env 0 example_params 100 connected_shadow = Some (eShadowSuccess, u)" by (rule example_results)
  then obtain ps' w' where run: "SHADOW_Update update_env 0 example_params 100 connected_shadow = Some (eShadowSuccess, ps', w')" by (cases u) auto
  obtain new j pd where "sh_trace w' = new @ sh_trace connected_shadow" "OMessage j (eMQTTAgentPublish pd) False \<in> set new"
    "answers (thing_topic (op_pcThingName example_params) eShadowOperationUpdate) ''/accepted'' pd"
    using update_success_confirmed [OF connected_ready run] by blast
  then have "OMessage j (eMQTTAgentPublish pd) False \<in> set (sh_trace w')" "suffix (cstr ''/accepted'') (message_topic pd)"
    by (simp_all add: answers_def)
  then show ?thesis using run by blast
qed

theorem get_success_delivers_witness:
  "\<exists>ps' w' j pd. SHADOW_Get get_env 0 example_params 100 connected_shadow = Some (eShadowSuccess, ps', w') \<and>
     OMessage j (eMQTTAgentPublish pd) True \<in> set (sh_trace w') \<and> pd_xBuffer pd = 5"
proof -
  obtain gr w' where run: "SHADOW_Get get_env 0 example_params 100 connected_shadow = Some (eShadowSuccess, gr, w')" "op_xBuffer gr = 5"
    by (rule example_results)
  obtain new j pd where "sh_trace w' = new @ sh_trace connected_shadow" "OMessage j (eMQTTAgentPublish pd) True \<in> set new"
    "op_xBuffer gr = pd_xBuffer pd"
    using get_success_delivers [OF connected_ready run(1)] by blast
  then have "OMessage j (eMQTTAgentPublish pd) True \<in> set (sh_trace w')" "pd_xBuffer pd = 5" using run(2) by simp_all
  then show ?thesis using run(1) by blast
qed




definition example_callbacks :: ShadowCallbackParams_t where
  "example_callbacks = \<lparr>cb_pcThingName = cstr ''t1'', xShadowUpdatedCallback = None, xShadowDeletedCallback = None, xShadowDeltaCallback = Some 1\<rparr>"

lemma example_register: "map_option fst (SHADOW_RegisterCallbacks update_env 0 example_callbacks 100 connected_shadow) = Some eShadowSuccess"
  by code_simp

lemma example_stack: "length (se_stack update_env tr) = shadowTOPIC_BUFFER_LENGTH"
  by (simp add: update_env_def answering_env_def)

theorem callbacks_registered_witness:
  "\<exists>w' obs. SHADOW_RegisterCallbacks update_env 0 example_callbacks 100 connected_shadow = Some (eShadowSuccess, w') \<and>
     xCallbackCatalog (client w' 0) ! 0 = \<lparr>xCallbackInfo = example_callbacks, ce_xInUse = True\<rparr> \<and>
     subscribed 7 (cstr ''$aws/things/t1/shadow/update/delta'') 100 obs"
proof -
  obtain w' where run: "SHADOW_RegisterCallbacks update_env 0 example_callbacks 100 connected_shadow = Some (eShadowSuccess, w')"
    using example_register by auto
  have ok: "catalog_ok (xCallbackCatalog (client connected_shadow 0))" "name_ok (cb_pcThingName example_callbacks)"
    by (simp_all add: catalog_ok_def name_ok_def connected_shadow_def connected_client_def zero_client_def example_callbacks_def cstr_def
        zero_entry_def shadowconfigMAX_THINGS_WITH_CALLBACKS_def configMAX_THING_NAME_LENGTH_def)
  have l: "length (xCallbackCatalog (client connected_shadow 0)) = 1" "xMQTTClient (client connected_shadow 0) = 7"
    by (simp_all add: connected_shadow_def connected_client_def zero_client_def shadowconfigMAX_THINGS_WITH_CALLBACKS_def)
  show ?thesis
    using callbacks_registered [OF connected_ready(1) ok example_stack run] run unfolding l
    by (auto simp: example_callbacks_def cstr_def)
qed


definition received :: "u8 list \<Rightarrow> MQTTPublishData_t" where
  "received t = \<lparr>pd_xQos = eMQTTQoS1, pd_pucTopic = t @ replicate 200 1, pd_usTopicLength = of_nat (length t),
     pd_pvData = example_token_doc, pd_ulDataLength = 20, pd_xBuffer = 5\<rparr>"



definition deleting_shadow :: shadow where
  "deleting_shadow = \<lparr>xShadowClients = [connected_client\<lparr>pxOperationData := Some (eShadowOperationDelete, example_params),
     ucTopicBuffer := cstr ''$aws/things/t1/shadow/delete'' @ replicate 139 0\<rparr>], sh_trace = []\<rparr>"

text \<open>The first answer to the deletion is handled, and the second one halts.\<close>

theorem late_answer_halts_witness:
  "\<exists>w'. prvShadowMQTTCallback update_env 0 (eMQTTAgentPublish (received (cstr ''$aws/things/t1/shadow/delete/accepted'')))
       (upd_client 0 (\<lambda>c. c\<lparr>xCallbackSemaphore := Some False\<rparr>) deleting_shadow) = Some (False, w') \<and>
     prvShadowMQTTCallback update_env 0 (eMQTTAgentPublish (received (cstr ''$aws/things/t1/shadow/delete/accepted''))) deleting_shadow = None"
proof -
  let ?m = "eMQTTAgentPublish (received (cstr ''$aws/things/t1/shadow/delete/accepted''))"
  let ?w = "upd_client 0 (\<lambda>c. c\<lparr>xCallbackSemaphore := Some False\<rparr>) deleting_shadow"
  have "map_option (\<lambda>(t, w). (t, xCallbackSemaphore (client w 0))) (prvShadowMQTTCallback update_env 0 ?m ?w) = Some (False, Some True)"
    by code_simp
  then obtain w' where w': "prvShadowMQTTCallback update_env 0 ?m ?w = Some (False, w')" "xCallbackSemaphore (client w' 0) = Some True" by auto
  have "in_range deleting_shadow 0" "xCallbackSemaphore (client deleting_shadow 0) = Some True"
    by (simp_all add: in_range_def deleting_shadow_def connected_client_def)
  from late_answer_halts [OF this refl w'] w'(1) show ?thesis by blast
qed

end
