(* ===== verification/FreeRTOSTask.thy ===== *)
theory FreeRTOSTask
  imports Prelude
begin

text \<open>
  The services of the kernel (\<open>FreeRTOS/tasks.c\<close>) that the MQTT agent is built on: timeouts that
  survive the overflow of the tick count, and notifications with a value.
\<close>

unbundle bit_operations_syntax

section \<open>Timeouts\<close>

text \<open>The tick count, and how often it has overflowed; a recorded time has the same two parts.\<close>

record TimeOut_t =
  xOverflowCount :: u32
  xTimeOnEntering :: u32

definition portMAX_DELAY :: u32 where "portMAX_DELAY = 0xFFFFFFFF"

definition vTaskSetTimeOutState :: "TimeOut_t \<Rightarrow> TimeOut_t" where
  "vTaskSetTimeOutState now = \<lparr>xOverflowCount = xOverflowCount now, xTimeOnEntering = xTimeOnEntering now\<rparr>"

text \<open>The result, and the new values behind the two pointers.\<close>

definition xTaskCheckForTimeOut :: "TimeOut_t \<Rightarrow> TimeOut_t \<Rightarrow> u32 \<Rightarrow> bool \<times> TimeOut_t \<times> u32" where
  "xTaskCheckForTimeOut now pxTimeOut pxTicksToWait =
     (let xConstTickCount = xTimeOnEntering now;
          xElapsedTime = xConstTickCount - xTimeOnEntering pxTimeOut in
      if pxTicksToWait = portMAX_DELAY then (False, pxTimeOut, pxTicksToWait)
      else if xOverflowCount now \<noteq> xOverflowCount pxTimeOut \<and> xConstTickCount \<ge> xTimeOnEntering pxTimeOut then (True, pxTimeOut, pxTicksToWait)
      else if xElapsedTime < pxTicksToWait then (False, vTaskSetTimeOutState now, pxTicksToWait - xElapsedTime)
      else (True, pxTimeOut, 0))"

section \<open>Notifications\<close>

datatype notify_state = taskNOT_WAITING_NOTIFICATION | taskWAITING_NOTIFICATION | taskNOTIFICATION_RECEIVED

record notification =
  ucNotifyState :: notify_state
  ulNotifiedValue :: u32

text \<open>\<open>xTaskNotify\<close> with \<open>eSetValueWithoutOverwrite\<close>.\<close>

definition xTaskNotify :: "u32 \<Rightarrow> notification \<Rightarrow> bool \<times> notification" where
  "xTaskNotify ulValue n =
     (if ucNotifyState n \<noteq> taskNOTIFICATION_RECEIVED
      then (True, n\<lparr>ucNotifyState := taskNOTIFICATION_RECEIVED, ulNotifiedValue := ulValue\<rparr>)
      else (False, n))"

text \<open>
  \<open>xTaskNotifyWait\<close> without bits to clear and with \<open>portMAX_DELAY\<close>: the task blocks if nothing was
  received, and otherwise gets the value.
\<close>

definition xTaskNotifyWait :: "notification \<Rightarrow> u32 option \<times> notification" where
  "xTaskNotifyWait n =
     (if ucNotifyState n \<noteq> taskNOTIFICATION_RECEIVED then (None, n\<lparr>ucNotifyState := taskWAITING_NOTIFICATION\<rparr>)
      else (Some (ulNotifiedValue n), n\<lparr>ucNotifyState := taskNOT_WAITING_NOTIFICATION\<rparr>))"

definition xTaskNotifyStateClear :: "notification \<Rightarrow> notification" where
  "xTaskNotifyStateClear n =
     (if ucNotifyState n = taskNOTIFICATION_RECEIVED then n\<lparr>ucNotifyState := taskNOT_WAITING_NOTIFICATION\<rparr> else n)"

section \<open>The elapsed time\<close>

text \<open>The time of the clock in ticks since the start.\<close>

definition clock_ticks :: "TimeOut_t \<Rightarrow> nat" where
  "clock_ticks t = unat (xOverflowCount t) * 2 ^ 32 + unat (xTimeOnEntering t)"

text \<open>
  C40. \<open>xTaskCheckForTimeOut\<close> measures time correctly across overflows of the tick count: if fewer than
  \<open>2 ^ 32\<close> ticks have passed since the recorded time, it reports a timeout exactly if at least the
  given number of ticks has passed; if not, it records the current time and leaves what remains
  of the ticks, so that repeated checks measure the time from the start. The maximal number of
  ticks never times out.
\<close>

theorem timeout_check_exact:
  assumes "clock_ticks t \<le> clock_ticks now" and "clock_ticks now < clock_ticks t + 2 ^ 32"
  shows "xTaskCheckForTimeOut now t ticks =
    (if ticks = portMAX_DELAY then (False, t, ticks)
     else if clock_ticks now - clock_ticks t < unat ticks then (False, now, ticks - of_nat (clock_ticks now - clock_ticks t))
     else (True, t, 0))"
proof -
  let ?d = "xTimeOnEntering now - xTimeOnEntering t"
  let ?o = "unat (xOverflowCount t)" and ?o' = "unat (xOverflowCount now)" and ?a = "unat (xTimeOnEntering t)" and ?b = "unat (xTimeOnEntering now)"
  have ab: "?a < 2 ^ 32" "?b < 2 ^ 32" by (simp_all add: unat_u32_lt)
  have ord: "?o * 2 ^ 32 + ?a \<le> ?o' * 2 ^ 32 + ?b" "?o' * 2 ^ 32 + ?b < ?o * 2 ^ 32 + ?a + 2 ^ 32"
    using assms by (simp_all add: clock_ticks_def)
  have cases: "?o' = ?o \<and> ?a \<le> ?b \<or> ?o' = ?o + 1 \<and> ?b < ?a" using ord ab by auto
  have elapsed: "unat ?d = clock_ticks now - clock_ticks t"
  proof (cases "?a \<le> ?b")
    case True
    then show ?thesis using cases by (auto simp: clock_ticks_def unat_sub word_le_nat_alt)
  next
    case False
    then show ?thesis using cases ab by (auto simp: clock_ticks_def unat_sub_if')
  qed
  have over: "xOverflowCount now \<noteq> xOverflowCount t \<and> xTimeOnEntering now \<ge> xTimeOnEntering t \<longleftrightarrow> False"
    using cases by (auto simp: word_le_nat_alt word_unat_eq_iff)
  have now: "vTaskSetTimeOutState now = now" by (simp add: vTaskSetTimeOutState_def)
  have "?d = of_nat (clock_ticks now - clock_ticks t)" using arg_cong [OF elapsed, of "of_nat :: nat \<Rightarrow> u32"] by simp
  then show ?thesis
    using over elapsed unfolding xTaskCheckForTimeOut_def Let_def now by (auto simp: word_less_nat_alt)
qed

theorem timeout_check_exact_witness:
  "xTaskCheckForTimeOut \<lparr>xOverflowCount = 1, xTimeOnEntering = 5\<rparr> \<lparr>xOverflowCount = 0, xTimeOnEntering = 0xFFFFFFFE\<rparr> 100 =
     (False, \<lparr>xOverflowCount = 1, xTimeOnEntering = 5\<rparr>, 93)"
  using timeout_check_exact [of "\<lparr>xOverflowCount = 0, xTimeOnEntering = 0xFFFFFFFE\<rparr>" "\<lparr>xOverflowCount = 1, xTimeOnEntering = 5\<rparr>" 100]
  by (simp add: clock_ticks_def portMAX_DELAY_def)

end
