(* ===== verification/MqttAgent.thy ===== *)
theory MqttAgent
  imports MqttPeriodic AgentTypes FreeRTOSTask "HOL-Library.Monad_Syntax"
begin

text \<open>
  The MQTT agent (\<open>AWS/mqtt/aws_mqtt_agent.c\<close>): one task owns the connections to the brokers and
  calls the MQTT library; all other tasks send it commands through a queue and wait for a
  notification with the result.

  The tasks run concurrently. The agent's task yields before every notification, every event of the
  library and every use of the queue: there the environment lets other tasks run, which take
  steps of the functions they call. Its other statements touch only memory that no other
  task uses. The calls of the library are those of the theories \<open>MqttSend\<close>, \<open>MqttRecv\<close> and
  \<open>MqttPeriodic\<close>, each connection with its own context on the common buffer pool; the events they
  report are handled in their order. The network, the clock and the user's callbacks are
  parameters. None is the result of a failed assertion.
\<close>

section \<open>Constants and types\<close>

definition mqttconfigMAX_BROKERS :: nat where "mqttconfigMAX_BROKERS = 3"
definition mqttconfigMAX_PARALLEL_OPS :: nat where "mqttconfigMAX_PARALLEL_OPS = 5"
definition mqttconfigKEEP_ALIVE_INTERVAL_SECONDS :: u16 where "mqttconfigKEEP_ALIVE_INTERVAL_SECONDS = 1200"
definition mqttconfigKEEP_ALIVE_ACTUAL_INTERVAL_TICKS :: u32 where "mqttconfigKEEP_ALIVE_ACTUAL_INTERVAL_TICKS = 300000"
definition mqttconfigKEEP_ALIVE_TIMEOUT_TICKS :: u32 where "mqttconfigKEEP_ALIVE_TIMEOUT_TICKS = 1000"
definition mqttconfigMQTT_TASK_MAX_BLOCK_TICKS :: u32 where "mqttconfigMQTT_TASK_MAX_BLOCK_TICKS = 100"
definition securesocketsMAX_DNS_NAME_LENGTH :: nat where "securesocketsMAX_DNS_NAME_LENGTH = 253"
definition securesocketsDEFAULT_TLS_DESTINATION_PORT :: u16 where "securesocketsDEFAULT_TLS_DESTINATION_PORT = 443"
definition SOCKETS_EWOULDBLOCK :: int where "SOCKETS_EWOULDBLOCK = -11"

definition mqttCOMMAND_QUEUE_LENGTH :: nat where
  "mqttCOMMAND_QUEUE_LENGTH = mqttconfigMAX_BROKERS * mqttconfigMAX_PARALLEL_OPS"

definition mqttMESSAGE_IDENTIFIER_MIN :: u32 where "mqttMESSAGE_IDENTIFIER_MIN = 0x00010000"
definition mqttMESSAGE_IDENTIFIER_MAX :: u32 where "mqttMESSAGE_IDENTIFIER_MAX = 0xFFFF0000"
definition mqttMESSAGE_IDENTIFIER_MASK :: u32 where "mqttMESSAGE_IDENTIFIER_MASK = 0xFFFF0000"

definition mqttMESSAGE_IDENTIFIER_EXTRACT :: "u32 \<Rightarrow> u16" where
  "mqttMESSAGE_IDENTIFIER_EXTRACT x = ucast (drop_bit 16 x)"

definition mqttNOTIFICATION_CODE_MASK :: u32 where "mqttNOTIFICATION_CODE_MASK = 0x0000FFFE"
definition mqttNOTIFICATION_STATUS_MASK :: u32 where "mqttNOTIFICATION_STATUS_MASK = 0x00000001"
definition mqttCONNECTION_SECURED :: u32 where "mqttCONNECTION_SECURED = 1"
definition mqttagentURL_IS_IP_ADDRESS :: u32 where "mqttagentURL_IS_IP_ADDRESS = 1"
definition mqttagentREQUIRE_TLS :: u32 where "mqttagentREQUIRE_TLS = 2"
definition mqttagentUSE_AWS_IOT_ALPN_443 :: u32 where "mqttagentUSE_AWS_IOT_ALPN_443 = 4"

definition mqttENCODE_BROKER_NUMBER :: "u32 \<Rightarrow> u32" where "mqttENCODE_BROKER_NUMBER x = x + 1"
definition mqttDECODE_BROKER_NUMBER :: "u32 \<Rightarrow> u32" where "mqttDECODE_BROKER_NUMBER x = x - 1"

text \<open>The union of the event data is part of the event type.\<close>

datatype MQTTAction_t =
    eMQTTServiceSocket
  | eMQTTConnectRequest MQTTAgentConnectParams_t
  | eMQTTDisconnectRequest
  | eMQTTSubscribeRequest MQTTAgentSubscribeParams_t
  | eMQTTUnsubscribeRequest MQTTAgentUnsubscribeParams_t
  | eMQTTPublishRequest MQTTAgentPublishParams_t

datatype MQTTNotifyCodes_t =
    eMQTTCONNCouldNotBeSent | eMQTTCONNACKConnectionAccepted | eMQTTDISCONNSent | eMQTTDISCONNCouldNotBeSent
  | eMQTTPUBCouldNotBeSent | eMQTTPUBSent | eMQTTPUBACKReceived | eMQTTSUBCouldNotBeSent
  | eMQTTSUBACKSubscriptionAccepted | eMQTTSUBACKSubscriptionRejected | eMQTTUNSUBCouldNotBeSent
  | eMQTTUNSUBACKReceived | eMQTTOperationTimedOut | eMQTTClientGotDisconnected

fun notify_code :: "MQTTNotifyCodes_t \<Rightarrow> u32" where
  "notify_code eMQTTCONNCouldNotBeSent = 2"
| "notify_code eMQTTCONNACKConnectionAccepted = 4"
| "notify_code eMQTTDISCONNSent = 8"
| "notify_code eMQTTDISCONNCouldNotBeSent = 10"
| "notify_code eMQTTPUBCouldNotBeSent = 12"
| "notify_code eMQTTPUBSent = 14"
| "notify_code eMQTTPUBACKReceived = 16"
| "notify_code eMQTTSUBCouldNotBeSent = 18"
| "notify_code eMQTTSUBACKSubscriptionAccepted = 20"
| "notify_code eMQTTSUBACKSubscriptionRejected = 22"
| "notify_code eMQTTUNSUBCouldNotBeSent = 24"
| "notify_code eMQTTUNSUBACKReceived = 26"
| "notify_code eMQTTOperationTimedOut = 32"
| "notify_code eMQTTClientGotDisconnected = 34"

text \<open>Tasks and sockets are numbers; None is the null handle and the invalid socket.\<close>

record MQTTNotificationData_t =
  xTaskToNotify :: "nat option"
  ulMessageIdentifier :: u32

record MQTTEventData_t =
  uxBrokerNumber :: u32
  xEventType :: MQTTAction_t
  xNotificationData :: MQTTNotificationData_t
  xEventCreationTimestamp :: TimeOut_t
  xTicksToWait :: u32

text \<open>The last field of a connection is not one of the code: what its context of the library has observed.\<close>

record MQTTBrokerConnection_t =
  xSocket :: "nat option"
  xMQTTContext :: MQTTContext_t
  xWaitingTasks :: "MQTTNotificationData_t list"
  bc_pvUserData :: int
  bc_pxCallback :: agent_callback
  uxFlags :: u32
  xConnectionInUse :: bool
  bc_trace :: "obs list"

section \<open>State and environment\<close>

datatype socket_option =
    SOCKETS_SO_WAKEUP_CALLBACK | SOCKETS_SO_REQUIRE_TLS | SOCKETS_SO_TRUSTED_SERVER_CERTIFICATE "u8 list" u32
  | SOCKETS_SO_SERVER_NAME_INDICATION "u8 list" nat | SOCKETS_SO_ALPN_PROTOCOLS | SOCKETS_SO_NONBLOCK

datatype socket_call =
    SOCKETS_GetHostByName "u8 list"
  | SOCKETS_Socket
  | SOCKETS_SetSockOpt "nat option" socket_option
  | SOCKETS_Connect "nat option" u32 u16
  | SOCKETS_Shutdown "nat option"
  | SOCKETS_Recv "nat option" nat
  | SOCKETS_Close "nat option"

text \<open>
  What is observed, the newest entry first: calls of the sockets, what the library does for
  a broker, calls of the user's callback, notifications with whether they were stored, the
  results of the requests to the library, commands with their identifier, and the results the
  callers get.
\<close>

datatype agent_obs =
    ASocket socket_call int
  | ALib nat obs
  | AUser nat MQTTAgentCallbackParams_t bool
  | ANotify nat u32 bool
  | ARequest MQTTEventData_t MQTTReturnCode_t
  | AIssue nat MQTTEventData_t
  | AReturn nat MQTTEventData_t MQTTAgentReturnCode_t
  | ACreated "u32 option"
  | AYield

text \<open>Where a task is in \<open>prvSendCommandToMQTTTask\<close>.\<close>

datatype caller_state = NotCalling | Issued MQTTEventData_t | Cleared MQTTEventData_t | Waiting MQTTEventData_t

record agent_task =
  tk_notification :: notification
  tk_state :: caller_state

record 'p agent =
  xMQTTConnections :: "MQTTBrokerConnection_t list"
  xCommandQueue :: "MQTTEventData_t list option"
  xMQTTTaskHandle :: "nat option"
  ulQueueMessageIdentifier :: u32
  ag_pool :: 'p
  ag_bufs :: "addr \<Rightarrow> MQTTBufferMetadata_t"
  ag_fault :: bool
  ag_tasks :: "nat \<Rightarrow> agent_task"
  ag_trace :: "agent_obs list"

text \<open>The requests to the agent, with the handle, the parameters and the timeout.\<close>

datatype agent_api =
    AgentConnect u32 MQTTAgentConnectParams_t u32
  | AgentDisconnect u32 u32
  | AgentSubscribe u32 MQTTAgentSubscribeParams_t u32
  | AgentUnsubscribe u32 MQTTAgentUnsubscribeParams_t u32
  | AgentPublish u32 MQTTAgentPublishParams_t u32

text \<open>What the other tasks may do: steps of the functions they have called.\<close>

datatype task_step =
    CreateAgent
  | DeleteAgent u32
  | SendCommand nat agent_api
  | ClearState nat
  | PostCommand nat
  | GiveUp nat
  | WaitForReply nat
  | ReturnBuffer addr
  | SocketWakeup

text \<open>
  What the agent does not determine: the functions the library gets for the broker \<open>b\<close> (only
  those for buffers and for the publish callbacks of subscriptions, and the answer of the
  user's callback to a message); for a call of the send callback, the time and the result
  of the socket in each of its iterations before the time is over; the clock when the
  library and when the agent reads it; the results of the sockets and the bytes received; when a
  socket is closed, the results of the socket and the times until the time is over;
  and the steps other tasks take when the agent's task yields.
\<close>

record 'p agent_env =
  ae_lib :: "nat \<Rightarrow> 'p mqtt_env"
  ae_send :: "nat option \<Rightarrow> obs list \<Rightarrow> TimeOut_t \<times> (TimeOut_t \<times> int) list"
  ae_clock :: "obs list \<Rightarrow> TimeOut_t"
  ae_now :: "agent_obs list \<Rightarrow> TimeOut_t"
  ae_socket :: "agent_obs list \<Rightarrow> socket_call \<Rightarrow> int"
  ae_received :: "agent_obs list \<Rightarrow> u8 list"
  ae_drain :: "agent_obs list \<Rightarrow> (int \<times> TimeOut_t) list"
  ae_tasks :: "agent_obs list \<Rightarrow> task_step list"

abbreviation connection :: "'p agent \<Rightarrow> nat \<Rightarrow> MQTTBrokerConnection_t" where
  "connection s b \<equiv> xMQTTConnections s ! b"

definition upd_connection :: "nat \<Rightarrow> (MQTTBrokerConnection_t \<Rightarrow> MQTTBrokerConnection_t) \<Rightarrow> 'p agent \<Rightarrow> 'p agent" where
  "upd_connection b f s = s\<lparr>xMQTTConnections := (xMQTTConnections s)[b := f (connection s b)]\<rparr>"

definition upd_task :: "nat \<Rightarrow> (agent_task \<Rightarrow> agent_task) \<Rightarrow> 'p agent \<Rightarrow> 'p agent" where
  "upd_task t f s = s\<lparr>ag_tasks := (ag_tasks s)(t := f (ag_tasks s t))\<rparr>"

definition note_obs :: "agent_obs \<Rightarrow> 'p agent \<Rightarrow> 'p agent" where
  "note_obs x s = s\<lparr>ag_trace := x # ag_trace s\<rparr>"

definition assert_that :: "bool \<Rightarrow> unit option" where
  "assert_that b = (if b then Some () else None)"

definition sockets :: "'p agent_env \<Rightarrow> socket_call \<Rightarrow> 'p agent \<Rightarrow> int \<times> 'p agent" where
  "sockets E c s = (let r = ae_socket E (ag_trace s) c in (r, note_obs (ASocket c r) s))"

section \<open>The other tasks\<close>

text \<open>Connections are given to the users of the agent, identified by their index plus one.\<close>

fun free_connection :: "MQTTBrokerConnection_t list \<Rightarrow> nat \<Rightarrow> nat option" where
  "free_connection [] x = None"
| "free_connection (c # cs) x = (if \<not> xConnectionInUse c then Some x else free_connection cs (x + 1))"

definition prvGetFreeConnection :: "'p agent \<Rightarrow> nat option \<times> 'p agent" where
  "prvGetFreeConnection s =
     (case free_connection (xMQTTConnections s) 0 of
        None \<Rightarrow> (None, s)
      | Some x \<Rightarrow> (Some x, upd_connection x (\<lambda>c. c\<lparr>xConnectionInUse := True\<rparr>) s))"

definition MQTT_AGENT_Create :: "'p agent \<Rightarrow> 'p agent" where
  "MQTT_AGENT_Create s =
     (case prvGetFreeConnection s of
        (None, s) \<Rightarrow> note_obs (ACreated None) s
      | (Some x, s) \<Rightarrow> note_obs (ACreated (Some (mqttENCODE_BROKER_NUMBER (of_nat x)))) s)"

definition prvReturnConnection :: "u32 \<Rightarrow> 'p agent \<Rightarrow> 'p agent option" where
  "prvReturnConnection uxBroker s = do {
     assert_that (unat uxBroker < mqttconfigMAX_BROKERS);
     Some (upd_connection (unat uxBroker) (\<lambda>c. c\<lparr>xConnectionInUse := False\<rparr>) s)
   }"

definition MQTT_AGENT_Delete :: "u32 \<Rightarrow> 'p agent \<Rightarrow> 'p agent option" where
  "MQTT_AGENT_Delete xMQTTHandle s = prvReturnConnection (mqttDECODE_BROKER_NUMBER xMQTTHandle) s"

text \<open>
  The five requests differ only in the event. The notification data and the time stamp are set
  by \<open>prvSendCommandToMQTTTask\<close>.
\<close>

definition agent_event :: "MQTTAction_t \<Rightarrow> u32 \<Rightarrow> u32 \<Rightarrow> MQTTEventData_t" where
  "agent_event action xMQTTHandle xTimeoutTicks =
     \<lparr>uxBrokerNumber = mqttDECODE_BROKER_NUMBER xMQTTHandle, xEventType = action,
      xNotificationData = \<lparr>xTaskToNotify = None, ulMessageIdentifier = 0\<rparr>,
      xEventCreationTimestamp = \<lparr>xOverflowCount = 0, xTimeOnEntering = 0\<rparr>, xTicksToWait = xTimeoutTicks\<rparr>"

definition MQTT_AGENT_Connect :: "u32 \<Rightarrow> MQTTAgentConnectParams_t \<Rightarrow> u32 \<Rightarrow> MQTTEventData_t" where
  "MQTT_AGENT_Connect xMQTTHandle pxConnectParams xTimeoutTicks = agent_event (eMQTTConnectRequest pxConnectParams) xMQTTHandle xTimeoutTicks"

definition MQTT_AGENT_Disconnect :: "u32 \<Rightarrow> u32 \<Rightarrow> MQTTEventData_t" where
  "MQTT_AGENT_Disconnect xMQTTHandle xTimeoutTicks = agent_event eMQTTDisconnectRequest xMQTTHandle xTimeoutTicks"

definition MQTT_AGENT_Subscribe :: "u32 \<Rightarrow> MQTTAgentSubscribeParams_t \<Rightarrow> u32 \<Rightarrow> MQTTEventData_t" where
  "MQTT_AGENT_Subscribe xMQTTHandle pxSubscribeParams xTimeoutTicks = agent_event (eMQTTSubscribeRequest pxSubscribeParams) xMQTTHandle xTimeoutTicks"

definition MQTT_AGENT_Unsubscribe :: "u32 \<Rightarrow> MQTTAgentUnsubscribeParams_t \<Rightarrow> u32 \<Rightarrow> MQTTEventData_t" where
  "MQTT_AGENT_Unsubscribe xMQTTHandle pxUnsubscribeParams xTimeoutTicks = agent_event (eMQTTUnsubscribeRequest pxUnsubscribeParams) xMQTTHandle xTimeoutTicks"

definition MQTT_AGENT_Publish :: "u32 \<Rightarrow> MQTTAgentPublishParams_t \<Rightarrow> u32 \<Rightarrow> MQTTEventData_t" where
  "MQTT_AGENT_Publish xMQTTHandle pxPublishParams xTimeoutTicks = agent_event (eMQTTPublishRequest pxPublishParams) xMQTTHandle xTimeoutTicks"

fun api_event :: "agent_api \<Rightarrow> MQTTEventData_t" where
  "api_event (AgentConnect h p n) = MQTT_AGENT_Connect h p n"
| "api_event (AgentDisconnect h n) = MQTT_AGENT_Disconnect h n"
| "api_event (AgentSubscribe h p n) = MQTT_AGENT_Subscribe h p n"
| "api_event (AgentUnsubscribe h p n) = MQTT_AGENT_Unsubscribe h p n"
| "api_event (AgentPublish h p n) = MQTT_AGENT_Publish h p n"

text \<open>
  \<open>prvSendCommandToMQTTTask\<close> in its steps: the command gets its identifier and time stamp; the
  state of the notification is cleared; the command goes into the queue, or the wait for room in
  the queue ends; and each round of the loop that waits for the reply.
\<close>

definition next_identifier :: "u32 \<Rightarrow> u32" where
  "next_identifier i =
     (let i = i + mqttMESSAGE_IDENTIFIER_MIN in if i \<ge> mqttMESSAGE_IDENTIFIER_MAX then mqttMESSAGE_IDENTIFIER_MIN else i)"

definition command_issue :: "'p agent_env \<Rightarrow> nat \<Rightarrow> MQTTEventData_t \<Rightarrow> 'p agent \<Rightarrow> 'p agent option" where
  "command_issue E t ev s = do {
     assert_that (xCommandQueue s \<noteq> None);
     if xMQTTTaskHandle s \<noteq> Some t then
       (let ev = ev\<lparr>xNotificationData := \<lparr>xTaskToNotify = Some t, ulMessageIdentifier = ulQueueMessageIdentifier s\<rparr>\<rparr>;
            s = s\<lparr>ulQueueMessageIdentifier := next_identifier (ulQueueMessageIdentifier s)\<rparr>;
            ev = ev\<lparr>xEventCreationTimestamp := vTaskSetTimeOutState (ae_now E (ag_trace s))\<rparr> in
        Some (upd_task t (\<lambda>k. k\<lparr>tk_state := Issued ev\<rparr>) (note_obs (AIssue t ev) s)))
     else Some (note_obs (AReturn t ev eMQTTAgentAPICalledFromCallback) s)
   }"

definition command_clear :: "nat \<Rightarrow> MQTTEventData_t \<Rightarrow> 'p agent \<Rightarrow> 'p agent" where
  "command_clear t ev s = upd_task t (\<lambda>k. k\<lparr>tk_notification := xTaskNotifyStateClear (tk_notification k), tk_state := Cleared ev\<rparr>) s"

definition command_post :: "nat \<Rightarrow> MQTTEventData_t \<Rightarrow> 'p agent \<Rightarrow> 'p agent" where
  "command_post t ev s =
     (case xCommandQueue s of
        None \<Rightarrow> s
      | Some q \<Rightarrow>
          if length q < mqttCOMMAND_QUEUE_LENGTH
          then upd_task t (\<lambda>k. k\<lparr>tk_state := Waiting ev\<rparr>) (s\<lparr>xCommandQueue := Some (q @ [ev])\<rparr>)
          else s)"

definition return_to_caller :: "nat \<Rightarrow> MQTTEventData_t \<Rightarrow> MQTTAgentReturnCode_t \<Rightarrow> 'p agent \<Rightarrow> 'p agent" where
  "return_to_caller t ev r s = upd_task t (\<lambda>k. k\<lparr>tk_state := NotCalling\<rparr>) (note_obs (AReturn t ev r) s)"

definition command_give_up :: "nat \<Rightarrow> MQTTEventData_t \<Rightarrow> 'p agent \<Rightarrow> 'p agent" where
  "command_give_up t ev s =
     (case xCommandQueue s of
        None \<Rightarrow> s
      | Some q \<Rightarrow> if length q < mqttCOMMAND_QUEUE_LENGTH then s else return_to_caller t ev eMQTTAgentFailure s)"

definition reply_code :: "u32 \<Rightarrow> MQTTAgentReturnCode_t" where
  "reply_code ulReceivedMessageIdentifier =
     (if ulReceivedMessageIdentifier AND mqttNOTIFICATION_STATUS_MASK \<noteq> 1 then
        if ulReceivedMessageIdentifier AND mqttNOTIFICATION_CODE_MASK = notify_code eMQTTOperationTimedOut
        then eMQTTAgentTimeout else eMQTTAgentFailure
      else eMQTTAgentSuccess)"

definition command_wait :: "nat \<Rightarrow> MQTTEventData_t \<Rightarrow> 'p agent \<Rightarrow> 'p agent" where
  "command_wait t ev s =
     (case xTaskNotifyWait (tk_notification (ag_tasks s t)) of (received, n) \<Rightarrow>
      let s = upd_task t (\<lambda>k. k\<lparr>tk_notification := n\<rparr>) s in
      (case received of
         None \<Rightarrow> s
       | Some v \<Rightarrow>
           if ulMessageIdentifier (xNotificationData ev) = v AND mqttMESSAGE_IDENTIFIER_MASK
           then return_to_caller t ev (reply_code v) s else s))"

text \<open>The callback of the sockets, which runs in the task of the TCP/IP stack; taken as one step.\<close>

definition prvMQTTClientSocketWakeupCallback :: "'p agent \<Rightarrow> 'p agent option" where
  "prvMQTTClientSocketWakeupCallback s = do {
     assert_that (xMQTTTaskHandle s \<noteq> None);
     q \<leftarrow> xCommandQueue s;
     Some (if q = [] then s\<lparr>xCommandQueue := Some [agent_event eMQTTServiceSocket 1 0]\<rparr> else s)
   }"

text \<open>The functions the agent gives to the library, and the functions of the buffer pool.\<close>

definition prvMQTTEventCallback_ptr :: nat where "prvMQTTEventCallback_ptr = 0"
definition prvMQTTSendCallback_ptr :: nat where "prvMQTTSendCallback_ptr = 1"
definition prvMQTTGetTicks_ptr :: nat where "prvMQTTGetTicks_ptr = 2"
definition mqttconfigGET_FREE_BUFFER_FXN :: nat where "mqttconfigGET_FREE_BUFFER_FXN = 3"
definition mqttconfigRETURN_BUFFER_FXN :: nat where "mqttconfigRETURN_BUFFER_FXN = 4"

definition MQTT_AGENT_ReturnBuffer :: "'p agent_env \<Rightarrow> addr \<Rightarrow> 'p agent \<Rightarrow> 'p agent" where
  "MQTT_AGENT_ReturnBuffer E xBufferHandle s = s\<lparr>ag_pool := e_ret (ae_lib E 0) mqttconfigRETURN_BUFFER_FXN (ag_pool s) xBufferHandle\<rparr>"

fun do_step :: "'p agent_env \<Rightarrow> task_step \<Rightarrow> 'p agent \<Rightarrow> 'p agent option" where
  "do_step E CreateAgent s = Some (MQTT_AGENT_Create s)"
| "do_step E (DeleteAgent h) s = MQTT_AGENT_Delete h s"
| "do_step E (SendCommand t call) s =
     (if tk_state (ag_tasks s t) = NotCalling then command_issue E t (api_event call) s else Some s)"
| "do_step E (ClearState t) s = (case tk_state (ag_tasks s t) of Issued ev \<Rightarrow> Some (command_clear t ev s) | _ \<Rightarrow> Some s)"
| "do_step E (PostCommand t) s = (case tk_state (ag_tasks s t) of Cleared ev \<Rightarrow> Some (command_post t ev s) | _ \<Rightarrow> Some s)"
| "do_step E (GiveUp t) s = (case tk_state (ag_tasks s t) of Cleared ev \<Rightarrow> Some (command_give_up t ev s) | _ \<Rightarrow> Some s)"
| "do_step E (WaitForReply t) s = (case tk_state (ag_tasks s t) of Waiting ev \<Rightarrow> Some (command_wait t ev s) | _ \<Rightarrow> Some s)"
| "do_step E (ReturnBuffer h) s = Some (MQTT_AGENT_ReturnBuffer E h s)"
| "do_step E SocketWakeup s = prvMQTTClientSocketWakeupCallback s"

fun do_steps :: "'p agent_env \<Rightarrow> task_step list \<Rightarrow> 'p agent \<Rightarrow> 'p agent option" where
  "do_steps E [] s = Some s"
| "do_steps E (x # xs) s = do { s \<leftarrow> do_step E x s; do_steps E xs s }"

definition yield :: "'p agent_env \<Rightarrow> 'p agent \<Rightarrow> 'p agent option" where
  "yield E s = do_steps E (ae_tasks E (ag_trace s)) (note_obs AYield s)"

section \<open>Notifications\<close>

fun free_waiting :: "MQTTNotificationData_t list \<Rightarrow> nat \<Rightarrow> nat option" where
  "free_waiting [] x = None"
| "free_waiting (d # ds) x = (if xTaskToNotify d = None then Some x else free_waiting ds (x + 1))"

definition prvStoreNotificationData :: "nat \<Rightarrow> MQTTNotificationData_t \<Rightarrow> 'p agent \<Rightarrow> nat option \<times> 'p agent" where
  "prvStoreNotificationData b d s =
     (case free_waiting (xWaitingTasks (connection s b)) 0 of
        None \<Rightarrow> (None, s)
      | Some x \<Rightarrow> (Some x, upd_connection b (\<lambda>c. c\<lparr>xWaitingTasks := (xWaitingTasks c)[x := d]\<rparr>) s))"

fun find_waiting :: "MQTTNotificationData_t list \<Rightarrow> u16 \<Rightarrow> nat \<Rightarrow> nat option" where
  "find_waiting [] usPacketIdentifier x = None"
| "find_waiting (d # ds) usPacketIdentifier x =
     (if xTaskToNotify d \<noteq> None \<and> usPacketIdentifier = mqttMESSAGE_IDENTIFIER_EXTRACT (ulMessageIdentifier d) then Some x
      else find_waiting ds usPacketIdentifier (x + 1))"

definition prvRetrieveNotificationData :: "nat \<Rightarrow> u16 \<Rightarrow> 'p agent \<Rightarrow> nat option" where
  "prvRetrieveNotificationData b usPacketIdentifier s = find_waiting (xWaitingTasks (connection s b)) usPacketIdentifier 0"

text \<open>The result is the notification data afterwards.\<close>

definition prvNotifyRequestingTask ::
  "'p agent_env \<Rightarrow> MQTTNotificationData_t \<Rightarrow> MQTTNotifyCodes_t \<Rightarrow> u32 \<Rightarrow> 'p agent \<Rightarrow> (MQTTNotificationData_t \<times> 'p agent) option" where
  "prvNotifyRequestingTask E d xNotificationCode uxStatus s =
     (case xTaskToNotify d of
        None \<Rightarrow> Some (d, s)
      | Some t \<Rightarrow> do {
          s \<leftarrow> yield E s;
          (let v = ulMessageIdentifier d OR notify_code xNotificationCode OR uxStatus in
           case xTaskNotify v (tk_notification (ag_tasks s t)) of (ok, n) \<Rightarrow>
             Some (d\<lparr>xTaskToNotify := None, ulMessageIdentifier := v\<rparr>,
                   note_obs (ANotify t v ok) (upd_task t (\<lambda>k. k\<lparr>tk_notification := n\<rparr>) s)))
        })"

definition set_waiting :: "nat \<Rightarrow> nat \<Rightarrow> MQTTNotificationData_t \<Rightarrow> 'p agent \<Rightarrow> 'p agent" where
  "set_waiting b x d s = upd_connection b (\<lambda>c. c\<lparr>xWaitingTasks := (xWaitingTasks c)[x := d]\<rparr>) s"

definition notify_waiting :: "'p agent_env \<Rightarrow> nat \<Rightarrow> nat \<Rightarrow> MQTTNotifyCodes_t \<Rightarrow> u32 \<Rightarrow> 'p agent \<Rightarrow> 'p agent option" where
  "notify_waiting E b x code st s = do {
     (d, s) \<leftarrow> prvNotifyRequestingTask E (xWaitingTasks (connection s b) ! x) code st s;
     Some (set_waiting b x d s)
   }"

text \<open>The end of a request that failed: the caller is notified and the stored data is freed.\<close>

definition fail_request :: "'p agent_env \<Rightarrow> nat \<Rightarrow> nat option \<Rightarrow> MQTTNotificationData_t \<Rightarrow> MQTTNotifyCodes_t \<Rightarrow> 'p agent \<Rightarrow> 'p agent option" where
  "fail_request E b stored d code s = do {
     (_, s) \<leftarrow> prvNotifyRequestingTask E d code 0 s;
     Some (case stored of None \<Rightarrow> s
           | Some x \<Rightarrow> set_waiting b x ((xWaitingTasks (connection s b) ! x)\<lparr>xTaskToNotify := None\<rparr>) s)
   }"

end
