(* ===== verification/MqttAgentTask.thy ===== *)
theory MqttAgentTask
  imports MqttAgent
begin

text \<open>
  The task of the MQTT agent: the callbacks it gives to the library, the requests it hands
  to the library, and its loop.
\<close>

unbundle bit_operations_syntax

section \<open>The callbacks for transmission and time\<close>

definition mqttconfigTCP_SEND_TIMEOUT_TICKS :: u32 where "mqttconfigTCP_SEND_TIMEOUT_TICKS = 2000"

text \<open>
  The loop of \<open>prvMQTTSendCallback\<close> with the recorded time, the ticks left and the bytes sent. Each
  entry of the list is the time at the check and the result of the socket; after the last
  one the time is over.
\<close>

fun send_loop :: "(TimeOut_t \<times> int) list \<Rightarrow> TimeOut_t \<Rightarrow> u32 \<Rightarrow> u32 \<Rightarrow> u32 \<Rightarrow> u32" where
  "send_loop attempts xTimestamp ticks ulBytesSent ulDataLength =
     (if ulBytesSent < ulDataLength then
        (case attempts of
           [] \<Rightarrow> ulBytesSent
         | (now, lSendRetVal) # rest \<Rightarrow>
             (case xTaskCheckForTimeOut now xTimestamp ticks of (over, xTimestamp, ticks) \<Rightarrow>
                if over then ulBytesSent
                else if lSendRetVal < 0 then
                  if lSendRetVal \<noteq> SOCKETS_EWOULDBLOCK then ulBytesSent
                  else send_loop rest xTimestamp ticks ulBytesSent ulDataLength
                else send_loop rest xTimestamp ticks (ulBytesSent + word_of_int lSendRetVal) ulDataLength))
      else ulBytesSent)"

declare send_loop.simps [simp del]

definition prvMQTTSendCallback :: "'p agent_env \<Rightarrow> nat option \<Rightarrow> obs list \<Rightarrow> u32 \<Rightarrow> u32" where
  "prvMQTTSendCallback E sock tr ulDataLength =
     (case ae_send E sock tr of (now, attempts) \<Rightarrow>
        send_loop attempts (vTaskSetTimeOutState now) mqttconfigTCP_SEND_TIMEOUT_TICKS 0 ulDataLength)"

definition prvMQTTGetTicks :: "TimeOut_t \<Rightarrow> u64" where
  "prvMQTTGetTicks now =
     (let xTimeout = vTaskSetTimeOutState now in
      push_bit 32 (ucast (xOverflowCount xTimeout)) OR ucast (xTimeOnEntering xTimeout))"

text \<open>
  The environment in which the library runs for the broker \<open>b\<close>. Of the event callback only the answer
  matters to the library; what it does is \<open>prvMQTTEventCallback\<close> below.
\<close>

definition lib_env :: "'p agent_env \<Rightarrow> 'p agent \<Rightarrow> nat \<Rightarrow> 'p mqtt_env" where
  "lib_env E s b = (ae_lib E b)
     \<lparr>e_send := (\<lambda>f tr pvSendContext d n. prvMQTTSendCallback E (xSocket (connection s (unat pvSendContext))) tr n),
      e_ticks := (\<lambda>f tr. prvMQTTGetTicks (ae_clock E tr)),
      e_event := (\<lambda>f tr pvCallbackContext ev. case ev of
          eMQTTPublish pd \<Rightarrow> bc_pxCallback (connection s b) \<noteq> NullCallback \<and> e_event (ae_lib E b) f tr pvCallbackContext ev
        | _ \<Rightarrow> False)\<rparr>"

section \<open>Closing a connection\<close>

definition mqttSOCKET_CLOSE_TICKS :: u32 where "mqttSOCKET_CLOSE_TICKS = 10 * 100"
definition mqttconfigRX_BUFFER_SIZE :: nat where "mqttconfigRX_BUFFER_SIZE = 1024"

fun drain_loop :: "(int \<times> TimeOut_t) list \<Rightarrow> nat option \<Rightarrow> TimeOut_t \<Rightarrow> u32 \<Rightarrow> 'p agent \<Rightarrow> 'p agent" where
  "drain_loop [] sock xTimeOut ticks s = s"
| "drain_loop ((r, now) # rest) sock xTimeOut ticks s =
     (let s = note_obs (ASocket (SOCKETS_Recv sock mqttconfigRX_BUFFER_SIZE) r) s in
      if r \<ge> 0 then
        (case xTaskCheckForTimeOut now xTimeOut ticks of (over, xTimeOut, ticks) \<Rightarrow>
           if over then s else drain_loop rest sock xTimeOut ticks s)
      else s)"

definition prvGracefulSocketClose :: "'p agent_env \<Rightarrow> nat \<Rightarrow> 'p agent \<Rightarrow> 'p agent" where
  "prvGracefulSocketClose E b s =
     (let xTimeOut = vTaskSetTimeOutState (ae_now E (ag_trace s));
          sock = xSocket (connection s b);
          s = snd (sockets E (SOCKETS_Shutdown sock) s);
          s = drain_loop (ae_drain E (ag_trace s)) sock xTimeOut mqttSOCKET_CLOSE_TICKS s;
          s = snd (sockets E (SOCKETS_Close sock) s) in
      upd_connection b (\<lambda>c. c\<lparr>xSocket := None\<rparr>) s)"

section \<open>Events of the library\<close>

definition agent_CONNACK :: "'p agent_env \<Rightarrow> nat \<Rightarrow> MQTTConnACKReturnCode_t \<Rightarrow> u16 \<Rightarrow> 'p agent \<Rightarrow> 'p agent option" where
  "agent_CONNACK E b xConnACKReturnCode usPacketIdentifier s =
     (case prvRetrieveNotificationData b usPacketIdentifier s of
        None \<Rightarrow> Some s
      | Some x \<Rightarrow>
          if xConnACKReturnCode = eMQTTConnACKConnectionAccepted
          then notify_waiting E b x eMQTTCONNACKConnectionAccepted 1 s
          else Some s)"

definition agent_SUBACK :: "'p agent_env \<Rightarrow> nat \<Rightarrow> MQTTSubACKReturnCode_t \<Rightarrow> u16 \<Rightarrow> 'p agent \<Rightarrow> 'p agent option" where
  "agent_SUBACK E b xSubACKReturnCode usPacketIdentifier s =
     (case prvRetrieveNotificationData b usPacketIdentifier s of
        None \<Rightarrow> Some s
      | Some x \<Rightarrow>
          if xSubACKReturnCode \<noteq> eMQTTSubACKFailure
          then notify_waiting E b x eMQTTSUBACKSubscriptionAccepted 1 s
          else notify_waiting E b x eMQTTSUBACKSubscriptionRejected 0 s)"

definition agent_UNSUBACK :: "'p agent_env \<Rightarrow> nat \<Rightarrow> u16 \<Rightarrow> 'p agent \<Rightarrow> 'p agent option" where
  "agent_UNSUBACK E b usPacketIdentifier s =
     (case prvRetrieveNotificationData b usPacketIdentifier s of
        None \<Rightarrow> Some s
      | Some x \<Rightarrow> notify_waiting E b x eMQTTUNSUBACKReceived 1 s)"

definition agent_PUBACK :: "'p agent_env \<Rightarrow> nat \<Rightarrow> u16 \<Rightarrow> 'p agent \<Rightarrow> 'p agent option" where
  "agent_PUBACK E b usPacketIdentifier s =
     (case prvRetrieveNotificationData b usPacketIdentifier s of
        None \<Rightarrow> Some s
      | Some x \<Rightarrow> notify_waiting E b x eMQTTPUBACKReceived 1 s)"

definition agent_Publish :: "nat \<Rightarrow> MQTTPublishData_t \<Rightarrow> bool \<Rightarrow> 'p agent \<Rightarrow> 'p agent" where
  "agent_Publish b pd xReturn s =
     (if bc_pxCallback (connection s b) \<noteq> NullCallback then note_obs (AUser b (eMQTTAgentPublish pd) xReturn) s else s)"

definition agent_Timeout :: "'p agent_env \<Rightarrow> nat \<Rightarrow> u16 \<Rightarrow> 'p agent \<Rightarrow> 'p agent option" where
  "agent_Timeout E b usPacketIdentifier s =
     (case prvRetrieveNotificationData b usPacketIdentifier s of
        None \<Rightarrow> Some s
      | Some x \<Rightarrow> notify_waiting E b x eMQTTOperationTimedOut 0 s)"

text \<open>The loop over the waiting tasks, from an index on.\<close>

fun notify_all :: "'p agent_env \<Rightarrow> nat \<Rightarrow> nat list \<Rightarrow> 'p agent \<Rightarrow> 'p agent option" where
  "notify_all E b [] s = Some s"
| "notify_all E b (x # xs) s =
     (if xTaskToNotify (xWaitingTasks (connection s b) ! x) \<noteq> None
      then do { s \<leftarrow> notify_waiting E b x eMQTTClientGotDisconnected 0 s; notify_all E b xs s }
      else notify_all E b xs s)"

definition agent_Disconnect :: "'p agent_env \<Rightarrow> nat \<Rightarrow> 'p agent \<Rightarrow> 'p agent option" where
  "agent_Disconnect E b s =
     (let s = (if xSocket (connection s b) \<noteq> None then
                 (let s = (if bc_pxCallback (connection s b) \<noteq> NullCallback
                           then note_obs (AUser b eMQTTAgentDisconnect False) s else s) in
                  prvGracefulSocketClose E b s)
               else s) in
      notify_all E b [0..<mqttconfigMAX_PARALLEL_OPS] s)"

text \<open>The answer is the one the library got.\<close>

definition prvMQTTEventCallback :: "'p agent_env \<Rightarrow> nat \<Rightarrow> MQTTEventCallbackParams_t \<Rightarrow> bool \<Rightarrow> 'p agent \<Rightarrow> 'p agent option" where
  "prvMQTTEventCallback E b ev xReturn s = do {
     assert_that (b < mqttconfigMAX_BROKERS);
     (case ev of
        eMQTTConnACK rc i \<Rightarrow> agent_CONNACK E b rc i s
      | eMQTTSubACK rc i \<Rightarrow> agent_SUBACK E b rc i s
      | eMQTTUnSubACK i \<Rightarrow> agent_UNSUBACK E b i s
      | eMQTTPubACK i \<Rightarrow> agent_PUBACK E b i s
      | eMQTTPublish pd \<Rightarrow> Some (agent_Publish b pd xReturn s)
      | eMQTTTimeout i \<Rightarrow> agent_Timeout E b i s
      | eMQTTClientDisconnected reason \<Rightarrow> agent_Disconnect E b s
      | _ \<Rightarrow> Some s)
   }"

section \<open>Calls of the library\<close>

text \<open>
  A call runs on the context of the connection and the common buffers. Then what happened
  is replayed in its order: the library's events run the event callback, whose context is the
  number of the broker.
\<close>

definition lib_world :: "'p agent \<Rightarrow> nat \<Rightarrow> 'p world" where
  "lib_world s b = \<lparr>w_ctx = xMQTTContext (connection s b), w_pool = ag_pool s, w_bufs = ag_bufs s,
     w_trace = bc_trace (connection s b), w_fault = ag_fault s\<rparr>"

definition put_world :: "nat \<Rightarrow> 'p world \<Rightarrow> 'p agent \<Rightarrow> 'p agent" where
  "put_world b w s =
     upd_connection b (\<lambda>c. c\<lparr>xMQTTContext := w_ctx w, bc_trace := w_trace w\<rparr>)
       (s\<lparr>ag_pool := w_pool w, ag_bufs := w_bufs w, ag_fault := w_fault w\<rparr>)"

definition new_obs :: "'p world \<Rightarrow> 'p world \<Rightarrow> obs list" where
  "new_obs w w' = rev (take (length (w_trace w') - length (w_trace w)) (w_trace w'))"

fun replay :: "'p agent_env \<Rightarrow> nat \<Rightarrow> obs list \<Rightarrow> 'p agent \<Rightarrow> 'p agent option" where
  "replay E b [] s = Some s"
| "replay E b (x # xs) s =
     (let s = note_obs (ALib b x) s in
      do {
        s \<leftarrow> (case x of OEvent ev r \<Rightarrow> prvMQTTEventCallback E b ev r s | _ \<Rightarrow> Some s);
        replay E b xs s
      })"

definition call_library ::
  "'p agent_env \<Rightarrow> nat \<Rightarrow> ('p mqtt_env \<Rightarrow> 'p world \<Rightarrow> 'a \<times> 'p world) \<Rightarrow> 'p agent \<Rightarrow> ('a \<times> 'p agent) option" where
  "call_library E b f s = do {
     s \<leftarrow> yield E s;
     (case f (lib_env E s b) (lib_world s b) of (r, w) \<Rightarrow>
        do { s \<leftarrow> replay E b (new_obs (lib_world s b) w) (put_world b w s); Some (r, s) })
   }"

end
