(* ===== verification/MqttAgentLoop.thy ===== *)
theory MqttAgentLoop
  imports MqttAgentTask
begin

text \<open>
  The requests of the MQTT agent's task (\<open>prvInitiateMQTT...\<close>), the service of the connections, the
  loop of the task, and the initialisation of the agent.
\<close>

unbundle bit_operations_syntax

section \<open>Establishing a connection\<close>

text \<open>On the target, which is little-endian.\<close>

definition SOCKETS_htons :: "u16 \<Rightarrow> u16" where "SOCKETS_htons usIn = push_bit 8 usIn OR drop_bit 8 usIn"

definition C_strlen :: "u8 list \<Rightarrow> nat" where "C_strlen str = length (takeWhile (\<lambda>c. c \<noteq> 0) str)"

text \<open>A socket option that must be accepted; it is set only if everything before it was.\<close>

definition require_option :: "'p agent_env \<Rightarrow> nat option \<Rightarrow> bool \<Rightarrow> socket_option \<Rightarrow> bool \<times> 'p agent \<Rightarrow> bool \<times> 'p agent" where
  "require_option E sock wanted opt st =
     (case st of (xStatus, s) \<Rightarrow>
        if xStatus \<and> wanted
        then (case sockets E (SOCKETS_SetSockOpt sock opt) s of (r, s) \<Rightarrow> (r = 0, s))
        else (xStatus, s))"

definition secure_socket :: "'p agent_env \<Rightarrow> MQTTAgentConnectParams_t \<Rightarrow> nat option \<Rightarrow> 'p agent \<Rightarrow> bool \<times> 'p agent" where
  "secure_socket E cp sock s =
     (let st = require_option E sock True SOCKETS_SO_REQUIRE_TLS (True, s);
          st = (case ac_pcCertificate cp of
                  None \<Rightarrow> st
                | Some cert \<Rightarrow> require_option E sock True (SOCKETS_SO_TRUSTED_SERVER_CERTIFICATE cert (ac_ulCertificateSize cp)) st);
          st = require_option E sock (ac_xFlags cp AND mqttagentURL_IS_IP_ADDRESS = 0 \<and> ac_xURLIsIPAddress cp = 0)
                 (SOCKETS_SO_SERVER_NAME_INDICATION (ac_pcURL cp) (1 + C_strlen (ac_pcURL cp))) st in
      require_option E sock (ac_xFlags cp AND mqttagentUSE_AWS_IOT_ALPN_443 \<noteq> 0) SOCKETS_SO_ALPN_PROTOCOLS st)"

text \<open>The result of \<open>SOCKETS_Socket\<close> is the number of the socket, or negative for the invalid one.\<close>

definition prvSetupConnection :: "'p agent_env \<Rightarrow> nat \<Rightarrow> MQTTAgentConnectParams_t \<Rightarrow> 'p agent \<Rightarrow> (bool \<times> 'p agent) option" where
  "prvSetupConnection E b cp s = do {
     assert_that (xSocket (connection s b) = None);
     if C_strlen (ac_pcURL cp) \<le> securesocketsMAX_DNS_NAME_LENGTH then
       (let usPort = SOCKETS_htons (if ac_xFlags cp AND mqttagentUSE_AWS_IOT_ALPN_443 \<noteq> 0
                                    then securesocketsDEFAULT_TLS_DESTINATION_PORT else ac_usPort cp) in
        case sockets E (SOCKETS_GetHostByName (ac_pcURL cp)) s of (ulAddress, s) \<Rightarrow>
        case sockets E SOCKETS_Socket s of (r, s) \<Rightarrow>
        let sock = (if r \<ge> 0 then Some (nat r) else None);
            s = upd_connection b (\<lambda>c. c\<lparr>xSocket := sock\<rparr>) s in
        if sock \<noteq> None then
          (let s = snd (sockets E (SOCKETS_SetSockOpt sock SOCKETS_SO_WAKEUP_CALLBACK) s) in
           case (if uxFlags (connection s b) AND mqttCONNECTION_SECURED = mqttCONNECTION_SECURED
                 then secure_socket E cp sock s else (True, s)) of (xStatus, s) \<Rightarrow>
           case (if xStatus
                 then (case sockets E (SOCKETS_Connect sock (word_of_int ulAddress) usPort) s of (r, s) \<Rightarrow> (r = 0, s))
                 else (xStatus, s)) of (xStatus, s) \<Rightarrow>
             if xStatus then Some (xStatus, snd (sockets E (SOCKETS_SetSockOpt sock SOCKETS_SO_NONBLOCK) s))
             else Some (xStatus, prvGracefulSocketClose E b s))
        else Some (True, s))
     else Some (False, s)
   }"

section \<open>The requests\<close>

definition cUserName :: "u8 list" where
  "cUserName = map of_char (''?SDK=AmazonFreeRTOS'' @ ''&Version='' @ ''V10.0.1'' @ ''&Platform='' @ ''Unknown'')"

abbreviation packet_identifier :: "MQTTEventData_t \<Rightarrow> u16" where
  "packet_identifier ev \<equiv> mqttMESSAGE_IDENTIFIER_EXTRACT (ulMessageIdentifier (xNotificationData ev))"

definition connect_params :: "MQTTAgentConnectParams_t \<Rightarrow> MQTTEventData_t \<Rightarrow> MQTTConnectParams_t" where
  "connect_params cp ev =
     \<lparr>cp_usKeepAliveIntervalSeconds = mqttconfigKEEP_ALIVE_INTERVAL_SECONDS,
      cp_ulKeepAliveActualIntervalTicks = mqttconfigKEEP_ALIVE_ACTUAL_INTERVAL_TICKS,
      cp_ulPingRequestTimeoutTicks = mqttconfigKEEP_ALIVE_TIMEOUT_TICKS,
      cp_pucClientId = ac_pucClientId cp, cp_usClientIdLength = ac_usClientIdLength cp,
      cp_pucUserName = cUserName, cp_usUserNameLength = of_nat (length cUserName),
      cp_usPacketIdentifier = packet_identifier ev, cp_ulTimeoutTicks = xTicksToWait ev\<rparr>"

definition subscribe_params :: "MQTTAgentSubscribeParams_t \<Rightarrow> MQTTEventData_t \<Rightarrow> MQTTSubscribeParams_t" where
  "subscribe_params sp ev =
     \<lparr>sp_pucTopic = as_pucTopic sp, sp_usTopicLength = as_usTopicLength sp, sp_xQos = as_xQoS sp,
      sp_usPacketIdentifier = packet_identifier ev, sp_ulTimeoutTicks = xTicksToWait ev,
      sp_pvPublishCallbackContext = as_pvPublishCallbackContext sp, sp_pxPublishCallback = as_pxPublishCallback sp\<rparr>"

definition unsubscribe_params :: "MQTTAgentUnsubscribeParams_t \<Rightarrow> MQTTEventData_t \<Rightarrow> MQTTUnsubscribeParams_t" where
  "unsubscribe_params up ev =
     \<lparr>up_pucTopic = au_pucTopic up, up_usTopicLength = au_usTopicLength up,
      up_usPacketIdentifier = packet_identifier ev, up_ulTimeoutTicks = xTicksToWait ev\<rparr>"

definition publish_params :: "MQTTAgentPublishParams_t \<Rightarrow> MQTTEventData_t \<Rightarrow> MQTTPublishParams_t" where
  "publish_params pp ev =
     \<lparr>pp_pucTopic = ap_pucTopic pp, pp_usTopicLength = ap_usTopicLength pp, pp_xQos = ap_xQoS pp,
      pp_pvData = ap_pvData pp, pp_ulDataLength = ap_ulDataLength pp,
      pp_usPacketIdentifier = packet_identifier ev, pp_ulTimeoutTicks = xTicksToWait ev\<rparr>"

abbreviation broker :: "MQTTEventData_t \<Rightarrow> nat" where
  "broker ev \<equiv> unat (uxBrokerNumber ev)"

definition library_request ::
  "'p agent_env \<Rightarrow> MQTTEventData_t \<Rightarrow> ('p mqtt_env \<Rightarrow> 'p world \<Rightarrow> MQTTReturnCode_t \<times> 'p world) \<Rightarrow> 'p agent \<Rightarrow> (bool \<times> 'p agent) option" where
  "library_request E ev f s = do {
     (rc, s) \<leftarrow> call_library E (broker ev) f s;
     Some (rc = eMQTTSuccess, note_obs (ARequest ev rc) s)
   }"

definition prvInitiateMQTTConnect :: "'p agent_env \<Rightarrow> MQTTEventData_t \<Rightarrow> MQTTAgentConnectParams_t \<Rightarrow> 'p agent \<Rightarrow> 'p agent option" where
  "prvInitiateMQTTConnect E ev cp s =
     (let b = broker ev in
      case prvStoreNotificationData b (xNotificationData ev) s of
        (None, s) \<Rightarrow> fail_request E b None (xNotificationData ev) eMQTTCONNCouldNotBeSent s
      | (Some x, s) \<Rightarrow> do {
          (xStatus, s) \<leftarrow> prvSetupConnection E b cp
             (upd_connection b (\<lambda>c. c\<lparr>bc_pvUserData := ac_pvUserData cp, bc_pxCallback := ac_pxCallback cp,
                uxFlags := (if ac_xSecuredConnection cp = 0 \<and> ac_xFlags cp AND mqttagentREQUIRE_TLS = 0
                            then uxFlags c AND NOT mqttCONNECTION_SECURED
                            else uxFlags c OR mqttCONNECTION_SECURED)\<rparr>) s);
          (xStatus, s) \<leftarrow>
            (if xStatus then do {
               (xStatus, s) \<leftarrow> library_request E ev (\<lambda>E'. MQTT_Connect E' (connect_params cp ev)) s;
               Some (xStatus, if xStatus then s else prvGracefulSocketClose E b s)
             } else Some (xStatus, s));
          if xStatus then Some s else fail_request E b (Some x) (xNotificationData ev) eMQTTCONNCouldNotBeSent s
        })"

definition prvInitiateMQTTDisconnect :: "'p agent_env \<Rightarrow> MQTTEventData_t \<Rightarrow> 'p agent \<Rightarrow> 'p agent option" where
  "prvInitiateMQTTDisconnect E ev s = do {
     (xStatus, s) \<leftarrow> library_request E ev MQTT_Disconnect s;
     (_, s) \<leftarrow> (if xStatus then prvNotifyRequestingTask E (xNotificationData ev) eMQTTDISCONNSent 1 s
                else prvNotifyRequestingTask E (xNotificationData ev) eMQTTDISCONNCouldNotBeSent 0 s);
     Some s
   }"

definition prvInitiateMQTTSubscribe :: "'p agent_env \<Rightarrow> MQTTEventData_t \<Rightarrow> MQTTAgentSubscribeParams_t \<Rightarrow> 'p agent \<Rightarrow> 'p agent option" where
  "prvInitiateMQTTSubscribe E ev sp s =
     (let b = broker ev in
      case prvStoreNotificationData b (xNotificationData ev) s of
        (None, s) \<Rightarrow> fail_request E b None (xNotificationData ev) eMQTTSUBCouldNotBeSent s
      | (Some x, s) \<Rightarrow> do {
          (xStatus, s) \<leftarrow> library_request E ev (\<lambda>E'. MQTT_Subscribe E' (subscribe_params sp ev)) s;
          if xStatus then Some s else fail_request E b (Some x) (xNotificationData ev) eMQTTSUBCouldNotBeSent s
        })"

definition prvInitiateMQTTUnSubscribe :: "'p agent_env \<Rightarrow> MQTTEventData_t \<Rightarrow> MQTTAgentUnsubscribeParams_t \<Rightarrow> 'p agent \<Rightarrow> 'p agent option" where
  "prvInitiateMQTTUnSubscribe E ev up s =
     (let b = broker ev in
      case prvStoreNotificationData b (xNotificationData ev) s of
        (None, s) \<Rightarrow> fail_request E b None (xNotificationData ev) eMQTTUNSUBCouldNotBeSent s
      | (Some x, s) \<Rightarrow> do {
          (xStatus, s) \<leftarrow> library_request E ev (\<lambda>E'. MQTT_Unsubscribe E' (unsubscribe_params up ev)) s;
          if xStatus then Some s else fail_request E b (Some x) (xNotificationData ev) eMQTTUNSUBCouldNotBeSent s
        })"

definition prvInitiateMQTTPublish :: "'p agent_env \<Rightarrow> MQTTEventData_t \<Rightarrow> MQTTAgentPublishParams_t \<Rightarrow> 'p agent \<Rightarrow> 'p agent option" where
  "prvInitiateMQTTPublish E ev pp s =
     (let b = broker ev in
      case (if ap_xQoS pp \<noteq> eMQTTQoS0 then prvStoreNotificationData b (xNotificationData ev) s else (None, s)) of
        (stored, s) \<Rightarrow> do {
          (xStatus, s) \<leftarrow>
            (if stored \<noteq> None \<or> ap_xQoS pp = eMQTTQoS0
             then library_request E ev (\<lambda>E'. MQTT_Publish E' (publish_params pp ev)) s
             else Some (False, s));
          if xStatus then
            if ap_xQoS pp = eMQTTQoS0 then do {
              (_, s) \<leftarrow> prvNotifyRequestingTask E (xNotificationData ev) eMQTTPUBSent 1 s;
              Some s
            } else Some s
          else fail_request E b stored (xNotificationData ev) eMQTTPUBCouldNotBeSent s
        })"

section \<open>The service of the connections\<close>

text \<open>The values that go around are whether any client is connected, and \<open>xNextTimeoutTicks\<close>.\<close>

definition receive_data :: "'p agent_env \<Rightarrow> nat \<Rightarrow> u32 \<Rightarrow> 'p agent \<Rightarrow> (u32 \<times> 'p agent) option" where
  "receive_data E b xNextTimeoutTicks s =
     (let ucRxBuffer = ae_received E (ag_trace s) in
      case sockets E (SOCKETS_Recv (xSocket (connection s b)) mqttconfigRX_BUFFER_SIZE) s of (lBytesReceived, s) \<Rightarrow>
        if lBytesReceived > 0 then do {
          (_, s) \<leftarrow> call_library E b (\<lambda>E'. MQTT_ParseReceivedData E' ucRxBuffer (nat lBytesReceived)) s;
          Some (0, s)
        }
        else if lBytesReceived < 0 \<and> lBytesReceived \<noteq> SOCKETS_EWOULDBLOCK then do {
          (_, s) \<leftarrow> call_library E b MQTT_Disconnect s;
          Some (xNextTimeoutTicks, s)
        }
        else Some (xNextTimeoutTicks, s))"

fun manage_connections :: "'p agent_env \<Rightarrow> nat list \<Rightarrow> bool \<Rightarrow> u32 \<Rightarrow> 'p agent \<Rightarrow> (bool \<times> u32 \<times> 'p agent) option" where
  "manage_connections E [] xAnyConnectedClient xNextTimeoutTicks s = Some (xAnyConnectedClient, xNextTimeoutTicks, s)"
| "manage_connections E (b # bs) xAnyConnectedClient xNextTimeoutTicks s = do {
     (xNextTimeoutTicks, s) \<leftarrow>
       (if xSocket (connection s b) \<noteq> None then receive_data E b xNextTimeoutTicks s else Some (xNextTimeoutTicks, s));
     (let xAnyConnectedClient = (xAnyConnectedClient \<or> xSocket (connection s b) \<noteq> None);
          xTickCount = prvMQTTGetTicks (ae_now E (ag_trace s)) in
      do {
        (next, s) \<leftarrow> call_library E b (\<lambda>E'. MQTT_Periodic E' xTickCount) s;
        manage_connections E bs xAnyConnectedClient (min xNextTimeoutTicks next) s
      })
   }"

definition prvManageConnections :: "'p agent_env \<Rightarrow> 'p agent \<Rightarrow> (u32 \<times> 'p agent) option" where
  "prvManageConnections E s = do {
     (xAnyConnectedClient, xNextTimeoutTicks, s) \<leftarrow> manage_connections E [0..<mqttconfigMAX_BROKERS] False portMAX_DELAY s;
     Some (if xAnyConnectedClient then min xNextTimeoutTicks mqttconfigMQTT_TASK_MAX_BLOCK_TICKS else xNextTimeoutTicks, s)
   }"

section \<open>The loop\<close>

definition process_command :: "'p agent_env \<Rightarrow> MQTTEventData_t \<Rightarrow> 'p agent \<Rightarrow> 'p agent option" where
  "process_command E ev s = do {
     assert_that (broker ev < mqttconfigMAX_BROKERS);
     (case xTaskCheckForTimeOut (ae_now E (ag_trace s)) (xEventCreationTimestamp ev) (xTicksToWait ev) of
        (True, _) \<Rightarrow> do {
          (_, s) \<leftarrow> prvNotifyRequestingTask E (xNotificationData ev) eMQTTOperationTimedOut 0 s;
          Some s
        }
      | (False, timestamp, ticks) \<Rightarrow>
          (let ev = ev\<lparr>xEventCreationTimestamp := timestamp, xTicksToWait := ticks\<rparr> in
           case xEventType ev of
             eMQTTConnectRequest cp \<Rightarrow> prvInitiateMQTTConnect E ev cp s
           | eMQTTDisconnectRequest \<Rightarrow> prvInitiateMQTTDisconnect E ev s
           | eMQTTSubscribeRequest sp \<Rightarrow> prvInitiateMQTTSubscribe E ev sp s
           | eMQTTUnsubscribeRequest up \<Rightarrow> prvInitiateMQTTUnSubscribe E ev up s
           | eMQTTPublishRequest pp \<Rightarrow> prvInitiateMQTTPublish E ev pp s
           | eMQTTServiceSocket \<Rightarrow> Some s))
   }"

text \<open>
  One iteration of the loop. The task yields while it waits for the queue; the wait ends with
  a command or when \<open>xNextTimeoutTicks\<close> have passed.
\<close>

definition prvMQTTTask :: "'p agent_env \<Rightarrow> 'p agent \<Rightarrow> (u32 \<times> 'p agent) option" where
  "prvMQTTTask E s = do {
     s \<leftarrow> yield E s;
     q \<leftarrow> xCommandQueue s;
     s \<leftarrow> (case q of [] \<Rightarrow> Some s | ev # q \<Rightarrow> process_command E ev (s\<lparr>xCommandQueue := Some q\<rparr>));
     prvManageConnections E s
   }"

section \<open>Initialisation\<close>

definition agent_init_params :: "nat \<Rightarrow> MQTTInitParams_t" where
  "agent_init_params x =
     \<lparr>ip_pvCallbackContext = of_nat x, ip_pxCallback = Some prvMQTTEventCallback_ptr, ip_pvSendContext = of_nat x,
      ip_pxMQTTSendFxn = prvMQTTSendCallback_ptr, ip_pxGetTicksFxn = Some prvMQTTGetTicks_ptr,
      ip_pxGetBufferFxn = mqttconfigGET_FREE_BUFFER_FXN, ip_pxReturnBufferFxn = mqttconfigRETURN_BUFFER_FXN\<rparr>"

text \<open>The connections after \<open>memset\<close>.\<close>

definition zero_context :: MQTTContext_t where
  "zero_context = \<lparr>xTxBufferList = [], xRxBuffer = 0,
     xRxMessageState = \<lparr>xRxNextByte = eMQTTRxNextBytePacketType, xRxMessageAction = eMQTTRxMessageStore,
       ucRemaingingLengthFieldBytes = 0, ulTotalMessageLength = 0\<rparr>,
     ucRxFixedHeaderBuffer = replicate mqttFIXED_HEADER_MAX_SIZE 0, ulRxMessageReceivedLength = 0,
     pvCallbackContext = 0, pxCallback = None, pvSendContext = 0, pxMQTTSendFxn = 0, pxGetTicksFxn = None,
     pxGetBufferFxn = 0, pxReturnBufferFxn = 0, xConnectionState = eMQTTNotConnected,
     xLastSentMessageTimestamp = 0, ulNextPeriodicInvokeTicks = 0, ulKeepAliveActualIntervalTicks = 0,
     ulPingRequestTimeoutTicks = 0, xWaitingForPingResp = False, xSubscriptionManager = empty_manager\<rparr>"

definition zero_connection :: MQTTBrokerConnection_t where
  "zero_connection = \<lparr>xSocket = Some 0, xMQTTContext = zero_context,
     xWaitingTasks = replicate mqttconfigMAX_PARALLEL_OPS \<lparr>xTaskToNotify = None, ulMessageIdentifier = 0\<rparr>,
     bc_pvUserData = 0, bc_pxCallback = NullCallback, uxFlags = 0, xConnectionInUse = False, bc_trace = []\<rparr>"

fun init_connections :: "nat list \<Rightarrow> 'p agent \<Rightarrow> bool \<times> 'p agent" where
  "init_connections [] s = (True, s)"
| "init_connections (x # xs) s =
     (let s = upd_connection x (\<lambda>c. c\<lparr>xSocket := None, bc_pvUserData := 0, bc_pxCallback := NullCallback, xConnectionInUse := False\<rparr>) s in
      case MQTT_Init (agent_init_params x) (lib_world s x) of (rc, w) \<Rightarrow>
        (let s = put_world x w s in
         if rc \<noteq> eMQTTSuccess then (False, s)
         else init_connections xs
           (upd_connection x (\<lambda>c. c\<lparr>xWaitingTasks := replicate mqttconfigMAX_PARALLEL_OPS \<lparr>xTaskToNotify = None, ulMessageIdentifier = 0\<rparr>\<rparr>) s)))"

text \<open>The handle of the new task is a parameter.\<close>

definition MQTT_AGENT_Init :: "nat \<Rightarrow> 'p agent \<Rightarrow> bool \<times> 'p agent" where
  "MQTT_AGENT_Init task s =
     (if xCommandQueue s = None then
        (case init_connections [0..<mqttconfigMAX_BROKERS] (s\<lparr>xMQTTConnections := replicate mqttconfigMAX_BROKERS zero_connection\<rparr>) of
           (xReturnCode, s) \<Rightarrow>
             (xReturnCode, s\<lparr>ulQueueMessageIdentifier := mqttMESSAGE_IDENTIFIER_MIN, xCommandQueue := Some [], xMQTTTaskHandle := Some task\<rparr>))
      else (True, s))"

section \<open>Executions\<close>

text \<open>
  The agent runs from a state in which no task waits for it: it is initialised, and then
  its loop and other tasks take turns.
\<close>

inductive agent_reachable :: "'p agent_env \<Rightarrow> 'p agent \<Rightarrow> bool" for E :: "'p agent_env" where
  start: "agent_reachable E (snd (MQTT_AGENT_Init task s))"
    if "xCommandQueue s = None" and "ag_trace s = []" and "\<forall>t. tk_state (ag_tasks s t) = NotCalling"
| iteration: "agent_reachable E s'" if "agent_reachable E s" and "prvMQTTTask E s = Some (ticks, s')"
| other_task: "agent_reachable E s'" if "agent_reachable E s" and "do_step E x s = Some s'"

end
