(* ===== verification/MqttAgentInv.thy ===== *)
theory MqttAgentInv
  imports MqttAgentLoop "HOL-Library.Multiset"
begin

text \<open>
  The invariant of the MQTT agent. A reference is a place that holds the notification data
  of a command: an entry of the queue, an entry of a table of waiting tasks, or the command the
  agent's task has taken and not yet stored. Each task that waits for a reply has exactly one
  reference, or else exactly the notification that answers its command; other tasks have none.
\<close>

unbundle bit_operations_syntax

section \<open>References\<close>

type_synonym ref = "nat \<times> u32 \<times> nat"

definition data_refs :: "nat \<Rightarrow> MQTTNotificationData_t \<Rightarrow> ref multiset" where
  "data_refs b d = (case xTaskToNotify d of None \<Rightarrow> {#} | Some t \<Rightarrow> {#(t, ulMessageIdentifier d, b)#})"

definition event_refs :: "MQTTEventData_t \<Rightarrow> ref multiset" where
  "event_refs ev = data_refs (broker ev) (xNotificationData ev)"

definition table_refs :: "nat \<Rightarrow> MQTTNotificationData_t list \<Rightarrow> ref multiset" where
  "table_refs b ds = sum_list (map (data_refs b) ds)"

definition tables :: "'p agent \<Rightarrow> MQTTNotificationData_t list list" where
  "tables s = map xWaitingTasks (xMQTTConnections s)"

definition queue_refs :: "MQTTEventData_t list option \<Rightarrow> ref multiset" where
  "queue_refs q = (case q of None \<Rightarrow> {#} | Some evs \<Rightarrow> sum_list (map event_refs evs))"

definition all_refs :: "'p agent \<Rightarrow> ref multiset" where
  "all_refs s = (\<Sum>b<length (tables s). table_refs b (tables s ! b)) + queue_refs (xCommandQueue s)"

definition refs_to :: "nat \<Rightarrow> ref multiset \<Rightarrow> ref multiset" where
  "refs_to t M = filter_mset (\<lambda>r. fst r = t) M"

lemma refs_to_simps [simp]:
  "refs_to t {#} = {#}" "refs_to t (M + N) = refs_to t M + refs_to t N"
  "refs_to t {#(t', i, b)#} = (if t' = t then {#(t', i, b)#} else {#})"
  "refs_to t (add_mset (t', i, b) M) = (if t' = t then add_mset (t', i, b) (refs_to t M) else refs_to t M)"
  by (simp_all add: refs_to_def)

lemma data_refs_simps [simp]:
  "xTaskToNotify d = None \<Longrightarrow> data_refs b d = {#}"
  "xTaskToNotify d = Some t \<Longrightarrow> data_refs b d = {#(t, ulMessageIdentifier d, b)#}"
  by (simp_all add: data_refs_def)

lemma sum_list_update_mset:
  "x < length ds \<Longrightarrow> sum_list (map f (ds[x := d])) + f (ds ! x) = sum_list (map f ds) + (f d :: 'a multiset)"
proof (induction ds arbitrary: x)
  case (Cons a ds)
  then show ?case by (cases x) (auto simp: ac_simps)
qed simp

section \<open>Answers and their evidence\<close>

text \<open>What happened since the last command of a task, and the last command.\<close>

definition since_issue :: "nat \<Rightarrow> agent_obs list \<Rightarrow> agent_obs list" where
  "since_issue t tr = takeWhile (\<lambda>x. \<forall>ev. x \<noteq> AIssue t ev) tr"

definition last_issued :: "nat \<Rightarrow> agent_obs list \<Rightarrow> MQTTEventData_t \<Rightarrow> bool" where
  "last_issued t tr ev \<longleftrightarrow> (\<exists>r. dropWhile (\<lambda>x. \<forall>ev. x \<noteq> AIssue t ev) tr = AIssue t ev # r)"

text \<open>An event of the library that acknowledges the packet with an identifier.\<close>

fun acknowledges :: "u16 \<Rightarrow> MQTTEventCallbackParams_t \<Rightarrow> bool" where
  "acknowledges i (eMQTTConnACK rc j) \<longleftrightarrow> j = i \<and> rc = eMQTTConnACKConnectionAccepted"
| "acknowledges i (eMQTTSubACK rc j) \<longleftrightarrow> j = i \<and> rc \<noteq> eMQTTSubACKFailure"
| "acknowledges i (eMQTTUnSubACK j) \<longleftrightarrow> j = i"
| "acknowledges i (eMQTTPubACK j) \<longleftrightarrow> j = i"
| "acknowledges i _ \<longleftrightarrow> False"

fun needs_no_ack :: "MQTTAction_t \<Rightarrow> bool" where
  "needs_no_ack eMQTTDisconnectRequest = True"
| "needs_no_ack (eMQTTPublishRequest pp) = (ap_xQoS pp = eMQTTQoS0)"
| "needs_no_ack _ = False"

fun confirms :: "u32 \<Rightarrow> nat \<Rightarrow> agent_obs \<Rightarrow> bool" where
  "confirms i b (ALib b' (OEvent ev r)) \<longleftrightarrow> b' = b \<and> acknowledges (mqttMESSAGE_IDENTIFIER_EXTRACT i) ev"
| "confirms i b (ARequest ev rc) \<longleftrightarrow>
     rc = eMQTTSuccess \<and> ulMessageIdentifier (xNotificationData ev) = i \<and> broker ev = b \<and> needs_no_ack (xEventType ev)"
| "confirms i b _ \<longleftrightarrow> False"

definition confirmed :: "agent_obs list \<Rightarrow> ref \<Rightarrow> bool" where
  "confirmed tr r \<longleftrightarrow> (case r of (t, i, b) \<Rightarrow> \<exists>x\<in>set (since_issue t tr). confirms i b x)"

fun answers_ok :: "agent_obs list \<Rightarrow> bool" where
  "answers_ok [] = True"
| "answers_ok (AReturn t ev r # tr) \<longleftrightarrow> answers_ok tr \<and>
     (r = eMQTTAgentSuccess \<longrightarrow> last_issued t tr ev \<and> confirmed tr (t, ulMessageIdentifier (xNotificationData ev), broker ev))"
| "answers_ok (x # tr) = answers_ok tr"

text \<open>Observations that are not of the callers.\<close>

fun quiet_obs :: "agent_obs \<Rightarrow> bool" where
  "quiet_obs (AIssue t ev) = False"
| "quiet_obs (AReturn t ev r) = False"
| "quiet_obs _ = True"

lemma since_issue_Cons:
  "(\<And>ev. x \<noteq> AIssue t ev) \<Longrightarrow> since_issue t (x # tr) = x # since_issue t tr"
  "(\<And>ev. x \<noteq> AIssue t ev) \<Longrightarrow> last_issued t (x # tr) ev' = last_issued t tr ev'"
  by (auto simp: since_issue_def last_issued_def)

lemma confirmed_Cons:
  "(\<And>ev. x \<noteq> AIssue t ev) \<Longrightarrow> confirmed tr (t, i, b) \<Longrightarrow> confirmed (x # tr) (t, i, b)"
  "(\<And>ev. x \<noteq> AIssue t ev) \<Longrightarrow> confirms i b x \<Longrightarrow> confirmed (x # tr) (t, i, b)"
  by (simp_all add: confirmed_def since_issue_Cons)

lemma quiet_not: "quiet_obs x \<Longrightarrow> x \<noteq> AIssue t ev" "quiet_obs x \<Longrightarrow> x \<noteq> AReturn t ev rc"
  by auto

lemma quiet_append:
  assumes "\<forall>x\<in>set xs. quiet_obs x"
  shows "(confirmed tr r \<longrightarrow> confirmed (xs @ tr) r) \<and> last_issued t (xs @ tr) ev = last_issued t tr ev \<and>
    answers_ok (xs @ tr) = answers_ok tr"
  using assms
proof (induction xs)
  case (Cons x xs)
  have q: "quiet_obs x" using Cons.prems by simp
  obtain t' i b where r: "r = (t', i, b)" by (cases r)
  have "answers_ok (x # xs @ tr) = answers_ok (xs @ tr)" using q by (cases x) simp_all
  then show ?case using Cons confirmed_Cons(1) [OF quiet_not(1) [OF q]] since_issue_Cons(2) [OF quiet_not(1) [OF q]] r by simp
qed simp

lemmas quiet_confirmed = quiet_append [THEN conjunct1, rule_format]

section \<open>The invariant\<close>

definition id_ok :: "u32 \<Rightarrow> bool" where "id_ok i \<longleftrightarrow> i AND mqttMESSAGE_IDENTIFIER_MASK = i"

definition command_ref :: "MQTTEventData_t \<Rightarrow> nat \<Rightarrow> ref" where
  "command_ref ev t = (t, ulMessageIdentifier (xNotificationData ev), broker ev)"

definition command_ok :: "agent_obs list \<Rightarrow> nat \<Rightarrow> MQTTEventData_t \<Rightarrow> bool" where
  "command_ok tr t ev \<longleftrightarrow> xTaskToNotify (xNotificationData ev) = Some t \<and> xEventType ev \<noteq> eMQTTServiceSocket \<and>
     id_ok (ulMessageIdentifier (xNotificationData ev)) \<and> last_issued t tr ev"

definition answered :: "agent_obs list \<Rightarrow> nat \<Rightarrow> MQTTEventData_t \<Rightarrow> notification \<Rightarrow> bool" where
  "answered tr t ev n \<longleftrightarrow> ucNotifyState n = taskNOTIFICATION_RECEIVED \<and>
     ulNotifiedValue n AND mqttMESSAGE_IDENTIFIER_MASK = ulMessageIdentifier (xNotificationData ev) \<and>
     (ulNotifiedValue n AND mqttNOTIFICATION_STATUS_MASK = 1 \<longrightarrow> confirmed tr (command_ref ev t))"

definition caller_ok :: "agent_obs list \<Rightarrow> ref multiset \<Rightarrow> nat \<Rightarrow> agent_task \<Rightarrow> bool" where
  "caller_ok tr M t k \<longleftrightarrow>
     (case tk_state k of
        NotCalling \<Rightarrow> refs_to t M = {#}
      | Issued ev \<Rightarrow> command_ok tr t ev \<and> refs_to t M = {#}
      | Cleared ev \<Rightarrow> command_ok tr t ev \<and> refs_to t M = {#} \<and> ucNotifyState (tk_notification k) \<noteq> taskNOTIFICATION_RECEIVED
      | Waiting ev \<Rightarrow> command_ok tr t ev \<and>
          (refs_to t M = {#command_ref ev t#} \<and> ucNotifyState (tk_notification k) \<noteq> taskNOTIFICATION_RECEIVED \<or>
           refs_to t M = {#} \<and> answered tr t ev (tk_notification k)))"

definition tables_ok :: "'p agent \<Rightarrow> bool" where
  "tables_ok s \<longleftrightarrow> length (tables s) = mqttconfigMAX_BROKERS \<and> (\<forall>ds\<in>set (tables s). length ds = mqttconfigMAX_PARALLEL_OPS)"

text \<open>No task waits for the event that wakes the agent's task up.\<close>

definition queue_ok :: "MQTTEventData_t list option \<Rightarrow> bool" where
  "queue_ok q \<longleftrightarrow> (\<forall>evs. q = Some evs \<longrightarrow>
     (\<forall>ev\<in>set evs. xEventType ev = eMQTTServiceSocket \<longrightarrow> xTaskToNotify (xNotificationData ev) = None))"

text \<open>The references in \<open>F\<close> are those of the command the agent's task is processing.\<close>

definition agent_inv :: "ref multiset \<Rightarrow> 'p agent \<Rightarrow> bool" where
  "agent_inv F s \<longleftrightarrow> tables_ok s \<and> id_ok (ulQueueMessageIdentifier s) \<and> answers_ok (ag_trace s) \<and> queue_ok (xCommandQueue s) \<and>
     (\<forall>t. caller_ok (ag_trace s) (all_refs s + F) t (ag_tasks s t))"

lemma inv_caller: "agent_inv F s \<Longrightarrow> caller_ok (ag_trace s) (all_refs s + F) t (ag_tasks s t)"
  by (simp add: agent_inv_def)

lemma caller_ok_cong: "refs_to t M = refs_to t N \<Longrightarrow> caller_ok tr M t k = caller_ok tr N t k"
  by (cases "tk_state k") (simp_all add: caller_ok_def)

text \<open>A task with a reference waits, and has not been notified.\<close>

lemma ref_waits:
  assumes "agent_inv F s" and "(t, i, b) \<in># all_refs s + F"
  obtains ev where "tk_state (ag_tasks s t) = Waiting ev" "command_ok (ag_trace s) t ev" "command_ref ev t = (t, i, b)"
    "refs_to t (all_refs s + F) = {#(t, i, b)#}" "ucNotifyState (tk_notification (ag_tasks s t)) \<noteq> taskNOTIFICATION_RECEIVED"
proof -
  have r: "(t, i, b) \<in># refs_to t (all_refs s + F)" using assms(2) by (simp add: refs_to_def)
  then have ne: "refs_to t (all_refs s + F) \<noteq> {#}" by (metis empty_not_add_mset insert_DiffM)
  have c: "caller_ok (ag_trace s) (all_refs s + F) t (ag_tasks s t)" using inv_caller [OF assms(1)] .
  obtain ev where w: "tk_state (ag_tasks s t) = Waiting ev" using c ne by (cases "tk_state (ag_tasks s t)") (simp_all add: caller_ok_def)
  have "command_ok (ag_trace s) t ev" and "refs_to t (all_refs s + F) = {#command_ref ev t#}"
    and u: "ucNotifyState (tk_notification (ag_tasks s t)) \<noteq> taskNOTIFICATION_RECEIVED"
    using c ne unfolding caller_ok_def w by auto
  moreover then have "command_ref ev t = (t, i, b)" using r by auto
  ultimately show thesis using that w u by metis
qed

section \<open>Steps that do not concern the callers\<close>

definition same_callers :: "'p agent \<Rightarrow> 'p agent \<Rightarrow> bool" where
  "same_callers s s' \<longleftrightarrow> tables s' = tables s \<and> xCommandQueue s' = xCommandQueue s \<and> ag_tasks s' = ag_tasks s \<and>
     ulQueueMessageIdentifier s' = ulQueueMessageIdentifier s \<and>
     (\<exists>xs. ag_trace s' = xs @ ag_trace s \<and> (\<forall>x\<in>set xs. quiet_obs x))"

lemma same_callers_refl [simp]: "same_callers s s"
  by (simp add: same_callers_def)

lemma same_callers_trans: "same_callers s s' \<Longrightarrow> same_callers s' s'' \<Longrightarrow> same_callers s s''"
  by (fastforce simp: same_callers_def)

lemma caller_ok_quiet:
  assumes "\<forall>x\<in>set xs. quiet_obs x" and "caller_ok tr M t k"
  shows "caller_ok (xs @ tr) M t k"
proof -
  have c: "confirmed tr (command_ref ev t) \<Longrightarrow> confirmed (xs @ tr) (command_ref ev t)" for ev
    using quiet_append [OF assms(1)] by blast
  have i: "last_issued t (xs @ tr) ev = last_issued t tr ev" for ev using quiet_append [OF assms(1)] by blast
  show ?thesis using assms(2) c unfolding caller_ok_def command_ok_def answered_def by (cases "tk_state k") (auto simp: i)
qed

lemma inv_same:
  assumes "agent_inv F s" and "same_callers s s'"
  shows "agent_inv F s'"
proof -
  obtain xs where x: "ag_trace s' = xs @ ag_trace s" "\<forall>x\<in>set xs. quiet_obs x" using assms(2) by (auto simp: same_callers_def)
  have "all_refs s' = all_refs s" "tables_ok s' = tables_ok s" using assms(2) by (simp_all add: same_callers_def all_refs_def tables_ok_def)
  then show ?thesis
    using assms x caller_ok_quiet [OF x(2)] quiet_append [OF x(2)] by (simp add: agent_inv_def same_callers_def)
qed

lemma confirmed_same: "same_callers s s' \<Longrightarrow> confirmed (ag_trace s) r \<Longrightarrow> confirmed (ag_trace s') r"
  using quiet_append unfolding same_callers_def by metis

lemma map_update_same: "f y = f (xs ! i) \<Longrightarrow> map f (xs[i := y]) = map f xs"
  by (metis list_update_beyond list_update_id map_update not_le_imp_less)

lemma tables_upd [simp]: "xWaitingTasks (f (connection s b)) = xWaitingTasks (connection s b) \<Longrightarrow> tables (upd_connection b f s) = tables s"
  unfolding tables_def upd_connection_def by (simp add: map_update_same)

lemma tables_simps [simp]:
  "tables (upd_task t f s) = tables s" "tables (note_obs x s) = tables s" "tables (xCommandQueue_update g s) = tables s"
  "tables (ulQueueMessageIdentifier_update h s) = tables s" "tables (ag_pool_update p s) = tables s"
  by (simp_all add: tables_def upd_task_def note_obs_def)

lemma same_upd_connection:
  "xWaitingTasks (f (connection s b)) = xWaitingTasks (connection s b) \<Longrightarrow> same_callers s (upd_connection b f s)"
  unfolding same_callers_def by (simp add: upd_connection_def [of b f s] tables_def map_update_same)

lemma same_note: "quiet_obs x \<Longrightarrow> same_callers s (note_obs x s)"
  by (simp add: same_callers_def note_obs_def tables_def)

lemma same_sockets: "sockets E c s = (r, s') \<Longrightarrow> same_callers s s'"
  using same_note [of "ASocket c r"] by (auto simp: sockets_def Let_def)

lemma same_drain: "same_callers s (drain_loop rest sock t n s)"
proof (induction rest sock t n s rule: drain_loop.induct)
  case (2 r now rest sock t n s)
  let ?s = "note_obs (ASocket (SOCKETS_Recv sock mqttconfigRX_BUFFER_SIZE) r) s"
  have q: "same_callers s ?s" by (rule same_note) simp
  obtain over t' n' where c: "xTaskCheckForTimeOut now t n = (over, t', n')" by (cases "xTaskCheckForTimeOut now t n")
  show ?case using q same_callers_trans [OF q 2] c by (simp add: Let_def)
qed simp

lemma same_close: "same_callers s (prvGracefulSocketClose E b s)"
proof -
  let ?sock = "xSocket (connection s b)"
  obtain r s1 where a: "sockets E (SOCKETS_Shutdown ?sock) s = (r, s1)" by (cases "sockets E (SOCKETS_Shutdown ?sock) s")
  let ?s2 = "drain_loop (ae_drain E (ag_trace s1)) ?sock (vTaskSetTimeOutState (ae_now E (ag_trace s))) mqttSOCKET_CLOSE_TICKS s1"
  obtain r' s3 where c: "sockets E (SOCKETS_Close ?sock) ?s2 = (r', s3)" by (cases "sockets E (SOCKETS_Close ?sock) ?s2")
  have "same_callers s s3"
    using same_callers_trans [OF same_sockets [OF a] same_callers_trans [OF same_drain same_sockets [OF c]]] .
  then show ?thesis
    using same_callers_trans [OF _ same_upd_connection [of "\<lambda>c. c\<lparr>xSocket := None\<rparr>"]] by (simp add: prvGracefulSocketClose_def Let_def a c)
qed

lemma same_put_world: "same_callers s (put_world b w s)"
  unfolding put_world_def same_callers_def by (simp add: upd_connection_def tables_def map_update_same)

section \<open>Moving references\<close>

lemma inv_move:
  assumes "agent_inv F s" and "all_refs s' + F' = all_refs s + F" and "tables_ok s'"
    and "queue_ok (xCommandQueue s')" "ag_tasks s' = ag_tasks s" "ag_trace s' = ag_trace s" "ulQueueMessageIdentifier s' = ulQueueMessageIdentifier s"
  shows "agent_inv F' s'"
  using assms by (simp add: agent_inv_def)

lemma set_waiting_simps [simp]:
  "ag_tasks (set_waiting b x d s) = ag_tasks s" "ag_trace (set_waiting b x d s) = ag_trace s"
  "ulQueueMessageIdentifier (set_waiting b x d s) = ulQueueMessageIdentifier s" "xCommandQueue (set_waiting b x d s) = xCommandQueue s"
  by (simp_all add: set_waiting_def upd_connection_def)

lemma tables_nth: "b < length (tables s) \<Longrightarrow> tables s ! b = xWaitingTasks (connection s b)"
  by (simp add: tables_def)

lemma tables_set_waiting:
  "b < length (tables s) \<Longrightarrow> tables (set_waiting b x d s) = (tables s)[b := (tables s ! b)[x := d]]"
  by (simp add: set_waiting_def upd_connection_def tables_def map_update)

lemma sum_tables_update:
  assumes "b < length dss" and "x < length (dss ! b)"
  shows "(\<Sum>c<length dss. table_refs c (dss[b := (dss ! b)[x := d]] ! c)) + data_refs b (dss ! b ! x) =
    (\<Sum>c<length dss. table_refs c (dss ! c)) + data_refs b d"
proof -
  let ?f = "\<lambda>c. table_refs c (dss ! c)" and ?g = "\<lambda>c. table_refs c (dss[b := (dss ! b)[x := d]] ! c)"
  have "sum ?g {..<length dss} = ?g b + sum ?g ({..<length dss} - {b})" "sum ?f {..<length dss} = ?f b + sum ?f ({..<length dss} - {b})"
    using assms(1) by (simp_all add: sum.remove)
  moreover have "sum ?g ({..<length dss} - {b}) = sum ?f ({..<length dss} - {b})" by (rule sum.cong) auto
  moreover have "?g b + data_refs b (dss ! b ! x) = ?f b + data_refs b d"
    using assms sum_list_update_mset [OF assms(2), of "data_refs b" d] by (simp add: table_refs_def)
  ultimately show ?thesis by (simp add: ac_simps)
qed

lemma set_waiting_refs:
  assumes "b < length (tables s)" and "x < length (tables s ! b)"
  shows "all_refs (set_waiting b x d s) + data_refs b (xWaitingTasks (connection s b) ! x) = all_refs s + data_refs b d"
  using sum_tables_update [OF assms, of d] assms(1)
  by (simp add: all_refs_def tables_set_waiting tables_nth ac_simps)

lemma tables_ok_bounds:
  assumes "tables_ok s" and "b < mqttconfigMAX_BROKERS" and "x < mqttconfigMAX_PARALLEL_OPS"
  shows "b < length (tables s)" "x < length (tables s ! b)" "x < length (xWaitingTasks (connection s b))"
  using assms unfolding tables_ok_def by (auto simp flip: tables_nth)

lemma tables_ok_set_waiting: "tables_ok s \<Longrightarrow> b < length (tables s) \<Longrightarrow> tables_ok (set_waiting b x d s)"
  unfolding tables_ok_def by (auto simp: tables_set_waiting dest!: set_update_subset_insert [THEN subsetD])

text \<open>An entry of a table and the command that is processed exchange their references.\<close>

lemma inv_set_waiting:
  assumes "agent_inv (F + data_refs b d) s" and "b < mqttconfigMAX_BROKERS" and "x < mqttconfigMAX_PARALLEL_OPS"
  shows "agent_inv (F + data_refs b (xWaitingTasks (connection s b) ! x)) (set_waiting b x d s)"
proof (rule inv_move [OF assms(1)])
  have t: "tables_ok s" using assms(1) by (simp add: agent_inv_def)
  note b = tables_ok_bounds [OF t assms(2,3)]
  show "tables_ok (set_waiting b x d s)" by (rule tables_ok_set_waiting [OF t b(1)])
  show "queue_ok (xCommandQueue (set_waiting b x d s))" using assms(1) by (simp add: agent_inv_def)
  show "all_refs (set_waiting b x d s) + (F + data_refs b (xWaitingTasks (connection s b) ! x)) = all_refs s + (F + data_refs b d)"
    using set_waiting_refs [OF b(1,2), of d] by (simp add: ac_simps)
qed simp_all

section \<open>Notifications\<close>

lemma identifier_bits:
  assumes "id_ok i" and "st = 0 \<or> st = 1"
  shows "(i OR notify_code c OR st) AND mqttMESSAGE_IDENTIFIER_MASK = i"
    "(i OR notify_code c OR st) AND mqttNOTIFICATION_STATUS_MASK = st"
proof -
  have z: "i AND 0xFFFF0000 = i" using assms(1) by (simp add: id_ok_def mqttMESSAGE_IDENTIFIER_MASK_def)
  have "i AND 1 = (i AND 0xFFFF0000) AND 1" using z by simp
  then have o: "i AND 1 = 0" by (simp add: bit_simps word_bw_assocs)
  show "(i OR notify_code c OR st) AND mqttMESSAGE_IDENTIFIER_MASK = i"
    using assms(2) z by (cases c) (auto simp: mqttMESSAGE_IDENTIFIER_MASK_def word_ao_dist)
  show "(i OR notify_code c OR st) AND mqttNOTIFICATION_STATUS_MASK = st"
    using assms(2) o by (cases c) (auto simp: mqttNOTIFICATION_STATUS_MASK_def word_ao_dist)
qed

lemma caller_ok_note:
  "quiet_obs x \<Longrightarrow> caller_ok tr M t k \<Longrightarrow> caller_ok (x # tr) M t k"
  using caller_ok_quiet [of "[x]"] by simp

text \<open>The notification of the only task with the reference.\<close>

lemma inv_notify:
  assumes inv: "agent_inv (add_mset (t, i, b) F) s" and st: "st = 0 \<or> st = 1"
    and evidence: "st = 1 \<Longrightarrow> confirmed (ag_trace s) (t, i, b)"
    and n: "xTaskNotify (i OR notify_code c OR st) (tk_notification (ag_tasks s t)) = (ok, n)"
  shows "ok" "agent_inv F (note_obs (ANotify t (i OR notify_code c OR st) ok) (upd_task t (\<lambda>k. k\<lparr>tk_notification := n\<rparr>) s))"
proof -
  let ?v = "i OR notify_code c OR st"
  let ?s = "note_obs (ANotify t ?v ok) (upd_task t (\<lambda>k. k\<lparr>tk_notification := n\<rparr>) s)"
  obtain ev where w: "tk_state (ag_tasks s t) = Waiting ev" and c: "command_ok (ag_trace s) t ev" and r: "command_ref ev t = (t, i, b)"
    and o: "refs_to t (all_refs s + add_mset (t, i, b) F) = {#(t, i, b)#}"
    and u: "ucNotifyState (tk_notification (ag_tasks s t)) \<noteq> taskNOTIFICATION_RECEIVED"
    using ref_waits [OF inv, of t i b] by auto
  show ok: "ok" using n u by (simp add: xTaskNotify_def)
  have nr: "ucNotifyState n = taskNOTIFICATION_RECEIVED" "ulNotifiedValue n = ?v" using n u by (auto simp: xTaskNotify_def)
  have i: "ulMessageIdentifier (xNotificationData ev) = i" "id_ok i" using r c by (auto simp: command_ref_def command_ok_def)
  have refs: "all_refs ?s = all_refs s" by (simp add: all_refs_def) (simp add: note_obs_def upd_task_def)
  have z: "refs_to t (all_refs s + F) = {#}" using o by simp
  have me: "caller_ok (ag_trace s) (all_refs s + F) t ((ag_tasks s t)\<lparr>tk_notification := n\<rparr>)"
    using c z nr evidence i identifier_bits [OF i(2) st] r st by (auto simp: caller_ok_def w answered_def)
  have others: "caller_ok (ag_trace s) (all_refs s + F) t' (ag_tasks s t')" if "t' \<noteq> t" for t'
    using inv_caller [OF inv, of t'] caller_ok_cong [of t' "all_refs s + F" "all_refs s + add_mset (t, i, b) F"] that by simp
  have "caller_ok (ag_trace ?s) (all_refs ?s + F) t' (ag_tasks ?s t')" for t'
    using me others unfolding refs by (auto simp: note_obs_def upd_task_def intro!: caller_ok_note)
  then show "agent_inv F ?s"
    using inv unfolding agent_inv_def by (simp add: tables_ok_def) (simp add: note_obs_def upd_task_def)
qed

section \<open>The steps of other tasks\<close>

text \<open>What the agent's task may rely on while other tasks run.\<close>

definition callers_run :: "ref multiset \<Rightarrow> 'p agent \<Rightarrow> 'p agent \<Rightarrow> bool" where
  "callers_run F s s' \<longleftrightarrow> agent_inv F s' \<and> tables s' = tables s \<and> all_refs s \<subseteq># all_refs s' \<and>
     (\<forall>r. r \<in># all_refs s + F \<longrightarrow> confirmed (ag_trace s) r \<longrightarrow> confirmed (ag_trace s') r)"

lemma run_refl: "agent_inv F s \<Longrightarrow> callers_run F s s"
  by (simp add: callers_run_def)

lemma run_trans: "callers_run F s s' \<Longrightarrow> callers_run F s' s'' \<Longrightarrow> callers_run F s s''"
proof -
  assume a: "callers_run F s s'" and b: "callers_run F s' s''"
  then have m: "all_refs s \<subseteq># all_refs s'" "all_refs s' \<subseteq># all_refs s''" by (simp_all add: callers_run_def)
  have "r \<in># all_refs s' + F" if "r \<in># all_refs s + F" for r using that mset_subset_eqD [OF m(1), of r] by auto
  then have "confirmed (ag_trace s'') r" if "r \<in># all_refs s + F" "confirmed (ag_trace s) r" for r
    using a b that unfolding callers_run_def by blast
  then show "callers_run F s s''" using a b subset_mset.order_trans [OF m] unfolding callers_run_def by simp
qed

lemma run_same:
  assumes "agent_inv F s" and "same_callers s s'"
  shows "callers_run F s s'"
proof -
  have "all_refs s' = all_refs s" using assms(2) by (simp add: same_callers_def all_refs_def)
  then show ?thesis
    using inv_same [OF assms] confirmed_same [OF assms(2)] assms(2) by (simp add: callers_run_def same_callers_def)
qed

lemma caller_ok_other:
  assumes "\<And>ev. x \<noteq> AIssue t ev" and "caller_ok tr M t k"
  shows "caller_ok (x # tr) M t k"
proof -
  have c: "confirmed tr (command_ref ev t) \<Longrightarrow> confirmed (x # tr) (command_ref ev t)" for ev
    using confirmed_Cons(1) [OF assms(1)] by (simp add: command_ref_def)
  have i: "last_issued t (x # tr) ev = last_issued t tr ev" for ev by (rule since_issue_Cons(2) [OF assms(1)])
  show ?thesis using assms(2) c unfolding caller_ok_def command_ok_def answered_def by (cases "tk_state k") (auto simp: i)
qed

text \<open>A step of the task \<open>t\<close>, with at most one observation.\<close>

lemma run_task:
  assumes inv: "agent_inv F s" and "tables s' = tables s"
    and refs: "all_refs s' = all_refs s + R" "\<And>t'. t' \<noteq> t \<Longrightarrow> refs_to t' R = {#}"
    and tasks: "ag_tasks s' = (ag_tasks s)(t := k)" and me: "caller_ok (ag_trace s') (all_refs s' + F) t k"
    and "id_ok (ulQueueMessageIdentifier s')" and "queue_ok (xCommandQueue s')"
    and tr: "ag_trace s' = xs @ ag_trace s" "xs = [] \<or> xs = [x]" "answers_ok (ag_trace s')"
    and issue: "\<And>t' ev. x = AIssue t' ev \<Longrightarrow> t' = t \<and> tk_state (ag_tasks s t) = NotCalling"
  shows "callers_run F s s'"
proof -
  have other: "x \<noteq> AIssue t' ev" if "t' \<noteq> t" for t' ev using issue that by blast
  have "caller_ok (ag_trace s') (all_refs s' + F) t' (ag_tasks s' t')" for t'
  proof (cases "t' = t")
    case True
    then show ?thesis using me tasks by simp
  next
    case False
    have "caller_ok (ag_trace s) (all_refs s' + F) t' (ag_tasks s t')"
      using inv_caller [OF inv, of t'] caller_ok_cong [of t' "all_refs s' + F" "all_refs s + F"] refs(2) [OF False] refs(1) by simp
    then show ?thesis using tr caller_ok_other [OF other [OF False]] tasks False by auto
  qed
  then have i: "agent_inv F s'" using inv assms(2,7,8) tr(3) by (simp add: agent_inv_def tables_ok_def)
  have "confirmed (ag_trace s') r" if r: "r \<in># all_refs s + F" and c: "confirmed (ag_trace s) r" for r
  proof -
    obtain t' i b where e: "r = (t', i, b)" by (cases r)
    obtain ev where "tk_state (ag_tasks s t') = Waiting ev" using ref_waits [OF inv] r e by metis
    then have "\<And>ev. x \<noteq> AIssue t' ev" using issue by fastforce
    then show ?thesis using tr(1,2) confirmed_Cons(1) c e by auto
  qed
  then show ?thesis using i assms(2) refs(1) by (simp add: callers_run_def)
qed

lemma id_ok_low: "id_ok i \<longleftrightarrow> take_bit 16 i = 0"
proof -
  have m: "mqttMESSAGE_IDENTIFIER_MASK = push_bit 16 (mask 16)" by (simp add: mqttMESSAGE_IDENTIFIER_MASK_def mask_eq_exp_minus_1)
  have "bit mqttMESSAGE_IDENTIFIER_MASK n \<longleftrightarrow> 16 \<le> n \<and> n < 32" for n
    unfolding m by (auto simp: bit_simps)
  then show ?thesis by (auto simp: id_ok_def bit_eq_iff bit_simps)
qed

lemma id_ok_next: "id_ok i \<Longrightarrow> id_ok (next_identifier i)"
proof -
  assume i: "id_ok i"
  have low: "id_ok j \<longleftrightarrow> unat j mod 2 ^ 16 = 0" for j
    unfolding id_ok_low by (metis take_bit_eq_mod unsigned_take_bit_eq unat_eq_zero)
  have "unat (i + 0x10000) = (unat i + 0x10000) mod 2 ^ 32" by (simp add: unat_word_ariths)
  moreover have "(unat i + 0x10000) mod 2 ^ 32 mod 2 ^ 16 = (unat i + 0x10000) mod 2 ^ 16" by (rule mod_mod_cancel) simp
  ultimately have "id_ok (i + 0x10000)" using i low by (simp add: mod_simps)
  then show ?thesis by (simp add: next_identifier_def id_ok_low mqttMESSAGE_IDENTIFIER_MIN_def Let_def)
qed

lemma all_refs_same: "tables s' = tables s \<Longrightarrow> xCommandQueue s' = xCommandQueue s \<Longrightarrow> all_refs s' = all_refs s"
  by (simp add: all_refs_def)

lemma queue_refs_append: "queue_refs (Some (q @ [ev])) = queue_refs (Some q) + event_refs ev"
  by (simp add: queue_refs_def)

lemma upd_task_simps [simp]:
  "ag_tasks (upd_task t f s) = (ag_tasks s)(t := f (ag_tasks s t))" "ag_trace (upd_task t f s) = ag_trace s"
  "xCommandQueue (upd_task t f s) = xCommandQueue s" "ulQueueMessageIdentifier (upd_task t f s) = ulQueueMessageIdentifier s"
  "ag_tasks (note_obs x s) = ag_tasks s" "ag_trace (note_obs x s) = x # ag_trace s"
  "xCommandQueue (note_obs x s) = xCommandQueue s" "ulQueueMessageIdentifier (note_obs x s) = ulQueueMessageIdentifier s"
  by (simp_all add: upd_task_def note_obs_def)

lemma all_refs_simps [simp]:
  "all_refs (upd_task t f s) = all_refs s" "all_refs (note_obs x s) = all_refs s"
  "all_refs (ulQueueMessageIdentifier_update g s) = all_refs s"
  by (simp_all add: all_refs_def)

lemma invD:
  "agent_inv F s \<Longrightarrow> answers_ok (ag_trace s)" "agent_inv F s \<Longrightarrow> id_ok (ulQueueMessageIdentifier s)" "agent_inv F s \<Longrightarrow> tables_ok s"
  "agent_inv F s \<Longrightarrow> queue_ok (xCommandQueue s)"
  unfolding agent_inv_def by blast+

lemma run_issue:
  assumes inv: "agent_inv F s" and n: "tk_state (ag_tasks s t) = NotCalling" and s: "command_issue E t ev s = Some s'"
    and a: "xEventType ev \<noteq> eMQTTServiceSocket"
  shows "callers_run F s s'"
proof (cases "xMQTTTaskHandle s = Some t")
  case True
  then have s': "s' = note_obs (AReturn t ev eMQTTAgentAPICalledFromCallback) s"
    using s by (auto simp: command_issue_def assert_that_def bind_eq_Some_conv split: if_splits)
  show ?thesis
  proof (rule run_task [OF inv, where t = t and xs = "[AReturn t ev eMQTTAgentAPICalledFromCallback]" and R = "{#}" and x = "AReturn t ev eMQTTAgentAPICalledFromCallback"])
    show "caller_ok (ag_trace s') (all_refs s' + F) t (ag_tasks s t)"
      unfolding s' using inv_caller [OF inv] by (simp add: caller_ok_other)
  qed (use invD [OF inv] in \<open>simp_all add: s'\<close>)
next
  case False
  then obtain ev' where s': "s' = upd_task t (\<lambda>k. k\<lparr>tk_state := Issued ev'\<rparr>)
      (note_obs (AIssue t ev') (s\<lparr>ulQueueMessageIdentifier := next_identifier (ulQueueMessageIdentifier s)\<rparr>))"
    and d: "xNotificationData ev' = \<lparr>xTaskToNotify = Some t, ulMessageIdentifier = ulQueueMessageIdentifier s\<rparr>" "xEventType ev' = xEventType ev"
    using s by (auto simp: command_issue_def assert_that_def bind_eq_Some_conv Let_def split: if_splits)
  have r: "all_refs s' = all_refs s" by (rule all_refs_same) (simp_all add: s')
  show ?thesis
  proof (rule run_task [OF inv, where t = t and xs = "[AIssue t ev']" and R = "{#}" and x = "AIssue t ev'"])
    show "caller_ok (ag_trace s') (all_refs s' + F) t ((ag_tasks s t)\<lparr>tk_state := Issued ev'\<rparr>)"
      using inv_caller [OF inv, of t] n invD(2) [OF inv] d a
      unfolding r by (simp add: s' caller_ok_def command_ok_def last_issued_def)
  qed (use n invD [OF inv] in \<open>simp_all add: r s' id_ok_next\<close>)
qed

lemma api_event_type: "xEventType (api_event call) \<noteq> eMQTTServiceSocket"
  by (cases call) (simp_all add: agent_event_def MQTT_AGENT_Connect_def MQTT_AGENT_Disconnect_def MQTT_AGENT_Subscribe_def
    MQTT_AGENT_Unsubscribe_def MQTT_AGENT_Publish_def)

lemmas run_send = run_issue [OF _ _ _ api_event_type]

lemma run_clear:
  assumes inv: "agent_inv F s" and n: "tk_state (ag_tasks s t) = Issued ev"
  shows "callers_run F s (command_clear t ev s)"
proof (rule run_task [OF inv, where t = t and xs = "[]" and R = "{#}" and x = AYield])
  show "caller_ok (ag_trace (command_clear t ev s)) (all_refs (command_clear t ev s) + F) t
      ((ag_tasks s t)\<lparr>tk_notification := xTaskNotifyStateClear (tk_notification (ag_tasks s t)), tk_state := Cleared ev\<rparr>)"
    using inv_caller [OF inv, of t] n by (simp add: command_clear_def caller_ok_def xTaskNotifyStateClear_def)
qed (use invD [OF inv] in \<open>simp_all add: command_clear_def\<close>)

lemma run_post:
  assumes inv: "agent_inv F s" and n: "tk_state (ag_tasks s t) = Cleared ev"
  shows "callers_run F s (command_post t ev s)"
proof (cases "\<exists>q. xCommandQueue s = Some q \<and> length q < mqttCOMMAND_QUEUE_LENGTH")
  case True
  then obtain q where q: "xCommandQueue s = Some q" "length q < mqttCOMMAND_QUEUE_LENGTH" by blast
  let ?s = "upd_task t (\<lambda>k. k\<lparr>tk_state := Waiting ev\<rparr>) (s\<lparr>xCommandQueue := Some (q @ [ev])\<rparr>)"
  have s: "command_post t ev s = ?s" using q by (simp add: command_post_def)
  have c: "command_ok (ag_trace s) t ev" "refs_to t (all_refs s + F) = {#}"
    "ucNotifyState (tk_notification (ag_tasks s t)) \<noteq> taskNOTIFICATION_RECEIVED"
    using inv_caller [OF inv, of t] n by (simp_all add: caller_ok_def)
  have e: "event_refs ev = {#command_ref ev t#}" using c(1) by (simp add: event_refs_def command_ok_def command_ref_def)
  have u: "queue_ok (Some (q @ [ev]))" using invD(4) [OF inv] q c(1) by (auto simp: queue_ok_def command_ok_def)
  have r: "all_refs ?s = all_refs s + event_refs ev"
    using q by (simp add: all_refs_def queue_refs_append ac_simps)
  show ?thesis unfolding s
  proof (rule run_task [OF inv, where t = t and xs = "[]" and R = "event_refs ev" and x = AYield])
    show "caller_ok (ag_trace ?s) (all_refs ?s + F) t ((ag_tasks s t)\<lparr>tk_state := Waiting ev\<rparr>)"
      using c e unfolding r by (simp add: caller_ok_def command_ref_def)
  qed (use invD [OF inv] e r u in \<open>simp_all add: command_ref_def\<close>)
next
  case False
  then have "command_post t ev s = s" by (auto simp: command_post_def split: option.splits)
  then show ?thesis using run_refl [OF inv] by simp
qed

lemma run_give_up:
  assumes inv: "agent_inv F s" and n: "tk_state (ag_tasks s t) = Cleared ev"
  shows "callers_run F s (command_give_up t ev s)"
proof -
  let ?s = "return_to_caller t ev eMQTTAgentFailure s"
  have "callers_run F s ?s"
  proof (rule run_task [OF inv, where t = t and xs = "[AReturn t ev eMQTTAgentFailure]" and R = "{#}" and x = "AReturn t ev eMQTTAgentFailure"])
    show "caller_ok (ag_trace ?s) (all_refs ?s + F) t ((ag_tasks s t)\<lparr>tk_state := NotCalling\<rparr>)"
      using inv_caller [OF inv, of t] n by (simp add: return_to_caller_def caller_ok_def)
  qed (use invD [OF inv] in \<open>simp_all add: return_to_caller_def\<close>)
  then show ?thesis using run_refl [OF inv] by (simp add: command_give_up_def split: option.split)
qed

lemma reply_success: "reply_code v = eMQTTAgentSuccess \<Longrightarrow> v AND mqttNOTIFICATION_STATUS_MASK = 1"
  by (simp add: reply_code_def split: if_splits)

lemma run_wait:
  assumes inv: "agent_inv F s" and n: "tk_state (ag_tasks s t) = Waiting ev"
  shows "callers_run F s (command_wait t ev s)"
proof -
  let ?k = "ag_tasks s t"
  have c: "caller_ok (ag_trace s) (all_refs s + F) t ?k" by (rule inv_caller [OF inv])
  have o: "command_ok (ag_trace s) t ev" using c n by (simp add: caller_ok_def)
  obtain r m where w: "xTaskNotifyWait (tk_notification ?k) = (r, m)" by (cases "xTaskNotifyWait (tk_notification ?k)")
  show ?thesis
  proof (cases "ucNotifyState (tk_notification ?k) = taskNOTIFICATION_RECEIVED")
    case False
    let ?s = "upd_task t (\<lambda>k. k\<lparr>tk_notification := m\<rparr>) s"
    have m: "r = None" "ucNotifyState m = taskWAITING_NOTIFICATION" using w False by (auto simp: xTaskNotifyWait_def)
    have s: "command_wait t ev s = ?s" using m w by (simp add: command_wait_def Let_def)
    show ?thesis unfolding s
    proof (rule run_task [OF inv, where t = t and xs = "[]" and R = "{#}" and x = AYield])
      show "caller_ok (ag_trace ?s) (all_refs ?s + F) t (?k\<lparr>tk_notification := m\<rparr>)"
        using c n m False by (simp add: caller_ok_def answered_def)
    qed (use invD [OF inv] in simp_all)
  next
    case True
    then have a: "refs_to t (all_refs s + F) = {#}" "answered (ag_trace s) t ev (tk_notification ?k)" using c n by (auto simp: caller_ok_def)
    let ?v = "ulNotifiedValue (tk_notification ?k)" and ?s = "upd_task t (\<lambda>k. k\<lparr>tk_notification := m\<rparr>) s"
    let ?s' = "return_to_caller t ev (reply_code ?v) ?s"
    have "r = Some ?v" using w True by (auto simp: xTaskNotifyWait_def)
    then have s: "command_wait t ev s = ?s'" using w a(2) by (simp add: command_wait_def Let_def answered_def)
    have ok: "reply_code ?v = eMQTTAgentSuccess \<Longrightarrow> last_issued t (ag_trace s) ev \<and>
        confirmed (ag_trace s) (t, ulMessageIdentifier (xNotificationData ev), broker ev)"
      using a(2) o reply_success by (auto simp: answered_def command_ok_def command_ref_def)
    show ?thesis unfolding s
    proof (rule run_task [OF inv, where t = t and xs = "[AReturn t ev (reply_code ?v)]" and R = "{#}" and x = "AReturn t ev (reply_code ?v)"])
      show "caller_ok (ag_trace ?s') (all_refs ?s' + F) t (?k\<lparr>tk_notification := m, tk_state := NotCalling\<rparr>)"
        using a(1) by (simp add: return_to_caller_def caller_ok_def)
    qed (use invD [OF inv] ok in \<open>simp_all add: return_to_caller_def\<close>)
  qed
qed

lemma same_upd_other: "same_callers s (s\<lparr>ag_pool := p\<rparr>)"
  by (simp add: same_callers_def)

lemma run_wakeup:
  assumes inv: "agent_inv F s" and w: "prvMQTTClientSocketWakeupCallback s = Some s'"
  shows "callers_run F s s'"
proof (cases "xCommandQueue s = Some []")
  case True
  let ?ev = "agent_event eMQTTServiceSocket 1 0"
  have s': "s' = s\<lparr>xCommandQueue := Some [?ev]\<rparr>" using w True by (auto simp: prvMQTTClientSocketWakeupCallback_def assert_that_def split: if_splits)
  have r: "all_refs s' = all_refs s"
    using True by (simp add: all_refs_def s' queue_refs_def event_refs_def agent_event_def)
  show ?thesis
  proof (rule run_task [OF inv, where t = 0 and xs = "[]" and R = "{#}" and x = AYield])
    show "caller_ok (ag_trace s') (all_refs s' + F) 0 (ag_tasks s 0)" using inv_caller [OF inv] r by (simp add: s')
  qed (use invD [OF inv] r in \<open>simp_all add: s' queue_ok_def agent_event_def\<close>)
next
  case False
  then have "s' = s" using w
    by (auto simp: prvMQTTClientSocketWakeupCallback_def assert_that_def bind_eq_Some_conv split: if_splits)
  then show ?thesis using run_refl [OF inv] by simp
qed

lemma run_create: "same_callers s (MQTT_AGENT_Create s)"
proof (cases "free_connection (xMQTTConnections s) 0")
  case None
  then show ?thesis using same_note [of "ACreated None"] by (simp add: MQTT_AGENT_Create_def prvGetFreeConnection_def)
next
  case (Some x)
  then show ?thesis
    by (auto simp: MQTT_AGENT_Create_def prvGetFreeConnection_def intro!: same_callers_trans [OF same_upd_connection same_note])
qed

lemma run_delete: "MQTT_AGENT_Delete h s = Some s' \<Longrightarrow> same_callers s s'"
  by (auto simp: MQTT_AGENT_Delete_def prvReturnConnection_def assert_that_def intro!: same_upd_connection split: if_splits)

lemma run_step:
  assumes "agent_inv F s" and "do_step E x s = Some s'"
  shows "callers_run F s s'"
  using assms
  by (cases x)
    (auto simp: MQTT_AGENT_ReturnBuffer_def intro: run_refl run_same run_create run_delete same_upd_other run_send run_clear run_post
      run_give_up run_wait run_wakeup split: if_splits caller_state.splits)

lemma run_steps: "agent_inv F s \<Longrightarrow> do_steps E xs s = Some s' \<Longrightarrow> callers_run F s s'"
proof (induction xs arbitrary: s)
  case (Cons x xs)
  then obtain s1 where s1: "do_step E x s = Some s1" "do_steps E xs s1 = Some s'" by (auto simp: bind_eq_Some_conv)
  have r: "callers_run F s s1" by (rule run_step [OF Cons.prems(1) s1(1)])
  then have "agent_inv F s1" by (simp add: callers_run_def)
  then show ?case by (rule run_trans [OF r Cons.IH [OF _ s1(2)]])
qed (simp add: run_refl)

lemma run_yield:
  assumes "agent_inv F s" and "yield E s = Some s'"
  shows "callers_run F s s'"
proof -
  have a: "callers_run F s (note_obs AYield s)" by (rule run_same [OF assms(1) same_note]) simp
  show ?thesis
    using run_trans [OF a run_steps] a assms(2) by (simp add: yield_def callers_run_def)
qed

section \<open>The steps of the agent's task\<close>

lemma tables_connection: "tables s' = tables s \<Longrightarrow> b < length (tables s) \<Longrightarrow> xWaitingTasks (connection s' b) = xWaitingTasks (connection s b)"
  by (metis tables_nth)

lemma slot_ref:
  assumes "tables_ok s" and "b < mqttconfigMAX_BROKERS" "x < mqttconfigMAX_PARALLEL_OPS"
    and "xTaskToNotify (xWaitingTasks (connection s b) ! x) = Some t"
  shows "(t, ulMessageIdentifier (xWaitingTasks (connection s b) ! x), b) \<in># all_refs s"
proof -
  let ?d = "\<lparr>xTaskToNotify = None, ulMessageIdentifier = 0\<rparr>"
  have "all_refs s = all_refs (set_waiting b x ?d s) + {#(t, ulMessageIdentifier (xWaitingTasks (connection s b) ! x), b)#}"
    using set_waiting_refs [OF tables_ok_bounds(1,2) [OF assms(1-3)], of ?d] assms(4) by simp
  then show ?thesis by simp
qed

text \<open>The notification of a task whose data is in a table, and the removal of the data.\<close>

lemma inv_notify_slot:
  assumes inv: "agent_inv F s" and b: "b < mqttconfigMAX_BROKERS" "x < mqttconfigMAX_PARALLEL_OPS"
    and slot: "xTaskToNotify (xWaitingTasks (connection s b) ! x) = Some t" "ulMessageIdentifier (xWaitingTasks (connection s b) ! x) = i"
    and d: "xTaskToNotify d = None" and st: "st = 0 \<or> st = 1" and evidence: "st = 1 \<Longrightarrow> confirmed (ag_trace s) (t, i, b)"
    and n: "xTaskNotify (i OR notify_code c OR st) (tk_notification (ag_tasks s t)) = (ok, n)"
  shows "agent_inv F (set_waiting b x d (note_obs (ANotify t (i OR notify_code c OR st) ok) (upd_task t (\<lambda>k. k\<lparr>tk_notification := n\<rparr>) s)))"
proof -
  let ?s = "set_waiting b x d s"
  have "agent_inv (F + data_refs b (xWaitingTasks (connection s b) ! x)) ?s"
    by (rule inv_set_waiting [OF _ b]) (simp add: inv d)
  then have i: "agent_inv (add_mset (t, i, b) F) ?s" using slot by simp
  have "agent_inv F (note_obs (ANotify t (i OR notify_code c OR st) ok) (upd_task t (\<lambda>k. k\<lparr>tk_notification := n\<rparr>) ?s))"
    by (rule inv_notify(2) [OF i st]) (use evidence n in simp_all)
  moreover have "note_obs v (upd_task t f ?s) = set_waiting b x d (note_obs v (upd_task t f s))" for v f
    by (simp add: note_obs_def upd_task_def set_waiting_def upd_connection_def)
  ultimately show ?thesis by simp
qed

lemma notify_task:
  assumes inv: "agent_inv (F + data_refs b d) s" and n: "prvNotifyRequestingTask E d c st s = Some (d', s')"
    and st: "st = 0 \<or> st = 1"
    and evidence: "\<And>t. st = 1 \<Longrightarrow> xTaskToNotify d = Some t \<Longrightarrow> confirmed (ag_trace s) (t, ulMessageIdentifier d, b)"
  shows "agent_inv F s'" "tables s' = tables s"
proof -
  have "agent_inv F s' \<and> tables s' = tables s"
  proof (cases "xTaskToNotify d")
    case None
    then show ?thesis using n inv by (simp add: prvNotifyRequestingTask_def)
  next
    case (Some t)
    let ?i = "ulMessageIdentifier d"
    obtain s1 where y: "yield E s = Some s1" using n Some by (auto simp: prvNotifyRequestingTask_def bind_eq_Some_conv)
    obtain ok m where x: "xTaskNotify (?i OR notify_code c OR st) (tk_notification (ag_tasks s1 t)) = (ok, m)"
      by (cases "xTaskNotify (?i OR notify_code c OR st) (tk_notification (ag_tasks s1 t))")
    have r: "callers_run (F + data_refs b d) s s1" by (rule run_yield [OF inv y])
    have s': "s' = note_obs (ANotify t (?i OR notify_code c OR st) ok) (upd_task t (\<lambda>k. k\<lparr>tk_notification := m\<rparr>) s1)"
      using n Some y x by (simp add: prvNotifyRequestingTask_def Let_def)
    have "agent_inv F s'" unfolding s'
    proof (rule inv_notify(2) [OF _ st _ x])
      show "agent_inv (add_mset (t, ?i, b) F) s1" using r Some by (simp add: callers_run_def)
      show "confirmed (ag_trace s1) (t, ?i, b)" if "st = 1"
        using r evidence [OF that Some] Some by (simp add: callers_run_def)
    qed
    then show ?thesis using r s' by (simp add: callers_run_def)
  qed
  then show "agent_inv F s'" "tables s' = tables s" by auto
qed

lemma inv_clear_slot:
  assumes "agent_inv F s" and "b < mqttconfigMAX_BROKERS" "x < mqttconfigMAX_PARALLEL_OPS"
    and "xTaskToNotify (xWaitingTasks (connection s b) ! x) = None" "xTaskToNotify d = None"
  shows "agent_inv F (set_waiting b x d s)"
  using inv_set_waiting [of F b d s x] assms by simp

lemma set_waiting_length: "b < length (tables s) \<Longrightarrow> length (tables (set_waiting b x d s)) = length (tables s)"
  by (simp add: tables_set_waiting)

text \<open>
  A task whose data is in a table is notified, through the entry itself or through a copy of it;
  then the entry is replaced by one without a task.
\<close>

lemma notify_slot:
  assumes inv: "agent_inv F s" and b: "b < mqttconfigMAX_BROKERS" "x < mqttconfigMAX_PARALLEL_OPS"
    and n: "prvNotifyRequestingTask E (xWaitingTasks (connection s b) ! x) c st s = Some (d', s')"
    and st: "st = 0 \<or> st = 1"
    and evidence: "\<And>t. st = 1 \<Longrightarrow> xTaskToNotify (xWaitingTasks (connection s b) ! x) = Some t \<Longrightarrow>
       confirmed (ag_trace s) (t, ulMessageIdentifier (xWaitingTasks (connection s b) ! x), b)"
  shows "xTaskToNotify d' = None" "xTaskToNotify d = None \<Longrightarrow> agent_inv F (set_waiting b x d s')" "tables s' = tables s"
proof -
  let ?d = "xWaitingTasks (connection s b) ! x"
  let ?i = "ulMessageIdentifier ?d"
  have t: "tables_ok s" by (rule invD(3) [OF inv])
  have "xTaskToNotify d' = None \<and> (xTaskToNotify d = None \<longrightarrow> agent_inv F (set_waiting b x d s')) \<and> tables s' = tables s"
  proof (cases "xTaskToNotify ?d")
    case None
    then show ?thesis using n inv_clear_slot [OF inv b None] by (auto simp: prvNotifyRequestingTask_def)
  next
    case (Some u)
    obtain s1 where y: "yield E s = Some s1" using n Some by (auto simp: prvNotifyRequestingTask_def bind_eq_Some_conv)
    obtain ok m where x: "xTaskNotify (?i OR notify_code c OR st) (tk_notification (ag_tasks s1 u)) = (ok, m)"
      by (cases "xTaskNotify (?i OR notify_code c OR st) (tk_notification (ag_tasks s1 u))")
    have r: "callers_run F s s1" by (rule run_yield [OF inv y])
    have s': "s' = note_obs (ANotify u (?i OR notify_code c OR st) ok) (upd_task u (\<lambda>k. k\<lparr>tk_notification := m\<rparr>) s1)"
      and d': "xTaskToNotify d' = None"
      using n Some y x by (auto simp: prvNotifyRequestingTask_def Let_def)
    have w: "xWaitingTasks (connection s1 b) = xWaitingTasks (connection s b)"
      by (rule tables_connection) (use r tables_ok_bounds(1) [OF t b] in \<open>simp_all add: callers_run_def\<close>)
    have "agent_inv F (set_waiting b x d s')" if d: "xTaskToNotify d = None" unfolding s'
    proof (rule inv_notify_slot [OF _ b _ _ d st _ x])
      show "agent_inv F s1" using r by (simp add: callers_run_def)
      show "confirmed (ag_trace s1) (u, ?i, b)" if "st = 1"
        using r evidence [OF that Some] slot_ref [OF t b Some] by (simp add: callers_run_def)
    qed (simp_all add: w Some)
    then show ?thesis using r s' d' by (simp add: callers_run_def)
  qed
  then show "xTaskToNotify d' = None" "xTaskToNotify d = None \<Longrightarrow> agent_inv F (set_waiting b x d s')" "tables s' = tables s" by auto
qed

lemma inv_notify_waiting:
  assumes inv: "agent_inv F s" and b: "b < mqttconfigMAX_BROKERS" "x < mqttconfigMAX_PARALLEL_OPS"
    and n: "notify_waiting E b x c st s = Some s'" and st: "st = 0 \<or> st = 1"
    and evidence: "\<And>t. st = 1 \<Longrightarrow> xTaskToNotify (xWaitingTasks (connection s b) ! x) = Some t \<Longrightarrow>
       confirmed (ag_trace s) (t, ulMessageIdentifier (xWaitingTasks (connection s b) ! x), b)"
  shows "agent_inv F s'"
proof -
  obtain d' s1 where s1: "prvNotifyRequestingTask E (xWaitingTasks (connection s b) ! x) c st s = Some (d', s1)" "s' = set_waiting b x d' s1"
    using n by (auto simp: notify_waiting_def bind_eq_Some_conv)
  show ?thesis using notify_slot(1,2) [OF inv b s1(1) st evidence] s1(2) by blast
qed

text \<open>The failure of a request, whose data may be stored.\<close>

lemma inv_fail:
  assumes inv: "agent_inv (F + (if stored = None then data_refs b d else {#})) s" and b: "b < mqttconfigMAX_BROKERS"
    and stored: "\<And>x. stored = Some x \<Longrightarrow> x < mqttconfigMAX_PARALLEL_OPS \<and> xWaitingTasks (connection s b) ! x = d"
    and f: "fail_request E b stored d c s = Some s'"
  shows "agent_inv F s'"
proof -
  obtain d' s1 where s1: "prvNotifyRequestingTask E d c 0 s = Some (d', s1)"
    and s': "s' = (case stored of None \<Rightarrow> s1 | Some x \<Rightarrow> set_waiting b x ((xWaitingTasks (connection s1 b) ! x)\<lparr>xTaskToNotify := None\<rparr>) s1)"
    using f by (auto simp: fail_request_def bind_eq_Some_conv)
  show ?thesis
  proof (cases stored)
    case None
    have "agent_inv (F + data_refs b d) s" using inv None by simp
    then show ?thesis using notify_task(1) [OF _ s1, of F b] None s' by simp
  next
    case (Some x)
    then show ?thesis
      using notify_slot(2) [of F s b x E c 0 d' s1] inv b stored s1 s' by simp
  qed
qed

section \<open>Events\<close>

lemma find_waiting_Some:
  "find_waiting ds i x = Some y \<Longrightarrow> x \<le> y \<and> y < x + length ds \<and> (\<exists>t. xTaskToNotify (ds ! (y - x)) = Some t) \<and>
     i = mqttMESSAGE_IDENTIFIER_EXTRACT (ulMessageIdentifier (ds ! (y - x)))"
proof (induction ds arbitrary: x)
  case (Cons d ds)
  show ?case
  proof (cases "xTaskToNotify d \<noteq> None \<and> i = mqttMESSAGE_IDENTIFIER_EXTRACT (ulMessageIdentifier d)")
    case True
    then show ?thesis using Cons.prems by auto
  next
    case False
    then have "find_waiting ds i (x + 1) = Some y" using Cons.prems by (auto split: if_splits)
    then have "x + 1 \<le> y" "y < x + 1 + length ds" "\<exists>t. xTaskToNotify (ds ! (y - (x + 1))) = Some t"
      "i = mqttMESSAGE_IDENTIFIER_EXTRACT (ulMessageIdentifier (ds ! (y - (x + 1))))" using Cons.IH by blast+
    moreover have "(d # ds) ! (y - x) = ds ! (y - (x + 1))" using \<open>x + 1 \<le> y\<close> by (simp add: nth_Cons' )
    ultimately show ?thesis by simp
  qed
qed simp

lemma retrieve_Some:
  assumes "prvRetrieveNotificationData b i s = Some x" and "tables_ok s" and "b < mqttconfigMAX_BROKERS"
  shows "x < mqttconfigMAX_PARALLEL_OPS"
    "i = mqttMESSAGE_IDENTIFIER_EXTRACT (ulMessageIdentifier (xWaitingTasks (connection s b) ! x))"
proof -
  have "xWaitingTasks (connection s b) \<in> set (tables s)" using assms(2,3) by (metis nth_mem tables_nth tables_ok_def)
  then have "length (xWaitingTasks (connection s b)) = mqttconfigMAX_PARALLEL_OPS" using assms(2) by (simp add: tables_ok_def)
  then show "x < mqttconfigMAX_PARALLEL_OPS"
    "i = mqttMESSAGE_IDENTIFIER_EXTRACT (ulMessageIdentifier (xWaitingTasks (connection s b) ! x))"
    using find_waiting_Some assms(1) unfolding prvRetrieveNotificationData_def by fastforce+
qed

text \<open>A task is told of a success only when the event acknowledges its packet.\<close>

lemma inv_acknowledge:
  assumes inv: "agent_inv F s" and b: "b < mqttconfigMAX_BROKERS" and x: "prvRetrieveNotificationData b i s = Some x"
    and tr: "ag_trace s = ALib b (OEvent ev r) # tr" and st: "st = 0 \<or> st = 1 \<and> acknowledges i ev"
    and n: "notify_waiting E b x c st s = Some s'"
  shows "agent_inv F s'"
proof (rule inv_notify_waiting [OF inv b _ n])
  note x = retrieve_Some [OF x invD(3) [OF inv] b]
  show "x < mqttconfigMAX_PARALLEL_OPS" "st = 0 \<or> st = 1" using x st by auto
  show "confirmed (ag_trace s) (t, ulMessageIdentifier (xWaitingTasks (connection s b) ! x), b)" if "st = 1" for t
    using confirmed_Cons(2) st that x(2) unfolding tr by simp
qed

lemma inv_notify_all:
  assumes "b < mqttconfigMAX_BROKERS"
  shows "agent_inv F s \<Longrightarrow> set xs \<subseteq> {..<mqttconfigMAX_PARALLEL_OPS} \<Longrightarrow> notify_all E b xs s = Some s' \<Longrightarrow> agent_inv F s'"
proof (induction xs arbitrary: s)
  case (Cons x xs)
  show ?case
  proof (cases "xTaskToNotify (xWaitingTasks (connection s b) ! x) = None")
    case False
    then obtain s1 where s1: "notify_waiting E b x eMQTTClientGotDisconnected 0 s = Some s1" "notify_all E b xs s1 = Some s'"
      using Cons.prems(3) by (auto simp: bind_eq_Some_conv)
    have "agent_inv F s1" by (rule inv_notify_waiting [OF Cons.prems(1) assms _ s1(1)]) (use Cons.prems(2) in auto)
    then show ?thesis using Cons.IH [OF _ _ s1(2)] Cons.prems(2) by simp
  qed (use Cons in simp)
qed simp

lemma inv_disconnected:
  assumes inv: "agent_inv F s" and b: "b < mqttconfigMAX_BROKERS" and d: "agent_Disconnect E b s = Some s'"
  shows "agent_inv F s'"
proof -
  let ?s = "if bc_pxCallback (connection s b) \<noteq> NullCallback then note_obs (AUser b eMQTTAgentDisconnect False) s else s"
  let ?s' = "if xSocket (connection s b) \<noteq> None then prvGracefulSocketClose E b ?s else s"
  have "same_callers s ?s" using same_note [of "AUser b eMQTTAgentDisconnect False" s] by simp
  then have "agent_inv F ?s'" using inv inv_same [OF inv_same [OF inv] same_close] by simp
  moreover have "notify_all E b [0..<mqttconfigMAX_PARALLEL_OPS] ?s' = Some s'"
    using d unfolding agent_Disconnect_def Let_def by (simp split: if_splits)
  ultimately show ?thesis by (intro inv_notify_all [OF b, of F ?s' "[0..<mqttconfigMAX_PARALLEL_OPS]" E s']) auto
qed

lemma inv_event:
  assumes inv: "agent_inv F s" and tr: "ag_trace s = ALib b (OEvent ev r) # tr" and e: "prvMQTTEventCallback E b ev r s = Some s'"
  shows "agent_inv F s'"
proof -
  have b: "b < mqttconfigMAX_BROKERS" using e by (auto simp: prvMQTTEventCallback_def assert_that_def split: if_splits)
  note ack = inv_acknowledge [OF inv b _ tr]
  have pub: "agent_inv F (agent_Publish b pd r s)" for pd
    using inv inv_same [OF inv same_note] by (simp add: agent_Publish_def)
  show ?thesis
    using e b inv pub
    by (cases ev)
      (auto simp: prvMQTTEventCallback_def assert_that_def agent_CONNACK_def agent_SUBACK_def agent_UNSUBACK_def agent_PUBACK_def
        agent_Timeout_def intro: ack inv_disconnected split: option.splits if_splits)
qed

end
