(* ===== verification/MqttAgentSafety.thy ===== *)
theory MqttAgentSafety
  imports MqttAgentInv
begin

text \<open>
  The invariant of the MQTT agent through calls of the library, requests, and the loop of the
  task; no caller is forgotten, and no caller is told of a success that did not happen.
\<close>

section \<open>Calls of the library\<close>

lemma inv_replay: "agent_inv F s \<Longrightarrow> replay E b xs s = Some s' \<Longrightarrow> agent_inv F s'"
proof (induction xs arbitrary: s)
  case (Cons x xs)
  let ?s = "note_obs (ALib b x) s"
  have i: "agent_inv F ?s" by (rule inv_same [OF Cons.prems(1) same_note]) simp
  obtain s1 where s1: "(case x of OEvent ev r \<Rightarrow> prvMQTTEventCallback E b ev r ?s | _ \<Rightarrow> Some ?s) = Some s1" "replay E b xs s1 = Some s'"
    using Cons.prems(2) by (auto simp: Let_def bind_eq_Some_conv)
  have "agent_inv F s1"
  proof (cases "\<exists>ev r. x = OEvent ev r")
    case True
    then obtain ev r where x: "x = OEvent ev r" by blast
    show ?thesis by (rule inv_event [OF i, of b ev r "ag_trace s" E]) (use s1(1) x in simp_all)
  next
    case False
    then show ?thesis using s1(1) i by (cases x) auto
  qed
  then show ?case by (rule Cons.IH [OF _ s1(2)])
qed simp

lemma call_cases:
  assumes "call_library E b f s = Some (r, s')"
  obtains s1 w where "yield E s = Some s1" "f (lib_env E s1 b) (lib_world s1 b) = (r, w)"
    "replay E b (new_obs (lib_world s1 b) w) (put_world b w s1) = Some s'"
proof -
  obtain s1 where y: "yield E s = Some s1" using assms by (auto simp: call_library_def bind_eq_Some_conv)
  obtain r' w where w: "f (lib_env E s1 b) (lib_world s1 b) = (r', w)" by (cases "f (lib_env E s1 b) (lib_world s1 b)")
  show thesis using that [OF y] w assms y by (simp add: call_library_def bind_eq_Some_conv)
qed

lemma inv_call:
  assumes inv: "agent_inv F s" and c: "call_library E b f s = Some (r, s')"
  shows "agent_inv F s'"
proof -
  obtain s1 w where y: "yield E s = Some s1" and w: "f (lib_env E s1 b) (lib_world s1 b) = (r, w)"
    and rp: "replay E b (new_obs (lib_world s1 b) w) (put_world b w s1) = Some s'"
    by (rule call_cases [OF c])
  have "agent_inv F s1" using run_yield [OF inv y] by (simp add: callers_run_def)
  then show ?thesis using inv_replay [OF inv_same [OF _ same_put_world] rp] by blast
qed

text \<open>Operations of the library that report no event.\<close>

definition no_events :: "obs list \<Rightarrow> bool" where
  "no_events xs \<longleftrightarrow> (\<forall>ev r. OEvent ev r \<notin> set xs)"

definition silent :: "'p world \<Rightarrow> 'p world \<Rightarrow> bool" where
  "silent w w' \<longleftrightarrow> (\<exists>xs. w_trace w' = xs @ w_trace w \<and> no_events xs)"

lemma silent_same: "w_trace w' = w_trace w \<Longrightarrow> silent w w'"
  by (simp add: silent_def no_events_def)

lemma silent_trans: "silent w w' \<Longrightarrow> silent w' w'' \<Longrightarrow> silent w w''"
  by (force simp: silent_def no_events_def)

lemma silent_ticks: "prvGetCurrentTickCount E w = (t, w') \<Longrightarrow> silent w w'"
  by (auto simp: prvGetCurrentTickCount_def silent_def no_events_def observe_def Let_def split: option.splits)

lemma silent_send: "prvSendData E d n w = (rc, w') \<Longrightarrow> silent w w'"
  by (auto simp: prvSendData_def prvGetCurrentTickCount_def silent_def no_events_def observe_def chk_def upd_ctx_def Let_def
      split: option.splits if_splits prod.splits)

lemma silent_make_packet: "make_packet E rl to i build w = (rc, h, w') \<Longrightarrow> silent w w'"
  by (auto simp: make_packet_def begin_tx_def with_data_def finish_tx_def prvGetFreeBuffer_def prvGetCurrentTickCount_def silent_def
      no_events_def observe_def upd_ctx_def upd_buf_def Let_def split: option.splits if_splits prod.splits)

lemma trace_return [simp]: "w_trace (prvReturnBuffer E h w) = w_trace w"
  by (simp add: prvReturnBuffer_def upd_ctx_def upd_buf_def Let_def)

lemma trace_upd_ctx [simp]: "w_trace (upd_ctx f w) = w_trace w"
  by (simp add: upd_ctx_def)

lemma silent_upd_ctx [simp]: "silent (upd_ctx f w) w' = silent w w'"
  by (simp add: silent_def)

lemma silent_transmit: "transmit E rc h w = (rc', w') \<Longrightarrow> silent w w'"
  by (auto simp: transmit_def silent_same dest: silent_send split: if_splits)

lemma silent_packet:
  "connect_packet E cp w = (rc, h, w') \<Longrightarrow> silent w w'"
  "subscribe_packet E sp w = (rc, h, w') \<Longrightarrow> silent w w'"
  "unsubscribe_packet E up w = (rc, h, w') \<Longrightarrow> silent w w'"
  "publish_packet E pp w = (rc, h, w') \<Longrightarrow> silent w w'"
  by (auto simp: connect_packet_def subscribe_packet_def unsubscribe_packet_def publish_packet_def Let_def silent_same
      dest!: silent_make_packet split: if_splits prod.splits)

lemma silent_Connect: "silent w (snd (MQTT_Connect E cp w))"
proof -
  obtain rc h w1 where p: "connect_packet E cp w = (rc, h, w1)" by (metis prod_cases3)
  obtain rc' w2 where t: "transmit E rc h w1 = (rc', w2)" by (cases "transmit E rc h w1")
  show ?thesis using silent_trans [OF silent_trans [OF silent_packet(1) [OF p] silent_transmit [OF t]] silent_same]
    by (simp add: MQTT_Connect_def p t)
qed

lemma silent_Subscribe: "silent w (snd (MQTT_Subscribe E sp w))"
proof -
  obtain rc h w1 where p: "subscribe_packet E sp w = (rc, h, w1)" by (metis prod_cases3)
  obtain rc' w2 where t: "transmit E rc h w1 = (rc', w2)" by (cases "transmit E rc h w1")
  show ?thesis using silent_trans [OF silent_trans [OF silent_packet(2) [OF p] silent_transmit [OF t]] silent_same]
    by (simp add: MQTT_Subscribe_def p t Let_def)
qed

lemma silent_Unsubscribe: "silent w (snd (MQTT_Unsubscribe E up w))"
proof -
  obtain rc h w1 where p: "unsubscribe_packet E up w = (rc, h, w1)" by (metis prod_cases3)
  obtain rc' w2 where t: "transmit E rc h w1 = (rc', w2)" by (cases "transmit E rc h w1")
  show ?thesis using silent_trans [OF silent_trans [OF silent_packet(3) [OF p] silent_transmit [OF t]] silent_same]
    by (simp add: MQTT_Unsubscribe_def p t)
qed

lemma silent_Publish: "silent w (snd (MQTT_Publish E pp w))"
proof -
  obtain rc h w1 where p: "publish_packet E pp w = (rc, h, w1)" by (metis prod_cases3)
  obtain rc' w2 where t: "transmit E rc h w1 = (rc', w2)" by (cases "transmit E rc h w1")
  show ?thesis using silent_trans [OF silent_trans [OF silent_packet(4) [OF p] silent_transmit [OF t]] silent_same]
    by (simp add: MQTT_Publish_def p t)
qed

lemma same_replay: "no_events xs \<Longrightarrow> replay E b xs s = Some s' \<Longrightarrow> same_callers s s'"
proof (induction xs arbitrary: s)
  case (Cons x xs)
  have "replay E b xs (note_obs (ALib b x) s) = Some s'"
    using Cons.prems by (cases x) (auto simp: no_events_def Let_def)
  then have "same_callers (note_obs (ALib b x) s) s'" using Cons.IH Cons.prems(1) by (simp add: no_events_def)
  then show ?case by (rule same_callers_trans [OF same_note, rotated]) simp
qed simp

lemma silent_call:
  assumes inv: "agent_inv F s" and c: "call_library E b f s = Some (r, s')" and f: "\<And>E w. silent w (snd (f E w))"
  shows "callers_run F s s'"
proof -
  obtain s1 w where y: "yield E s = Some s1" and w: "f (lib_env E s1 b) (lib_world s1 b) = (r, w)"
    and rp: "replay E b (new_obs (lib_world s1 b) w) (put_world b w s1) = Some s'"
    by (rule call_cases [OF c])
  have run: "callers_run F s s1" by (rule run_yield [OF inv y])
  obtain xs where "w_trace w = xs @ w_trace (lib_world s1 b)" "no_events xs"
    using f [of "lib_world s1 b" "lib_env E s1 b"] w by (auto simp: silent_def)
  then have "no_events (new_obs (lib_world s1 b) w)" by (simp add: new_obs_def no_events_def)
  then have "same_callers s1 s'" by (rule same_callers_trans [OF same_put_world same_replay [OF _ rp]])
  then show ?thesis using run_trans [OF run run_same] run by (simp add: callers_run_def)
qed

section \<open>Requests\<close>

lemma same_option: "require_option E sock wanted opt (st, s) = (st', s') \<Longrightarrow> same_callers s s'"
  by (auto simp: require_option_def dest: same_sockets split: if_splits prod.splits)

lemma same_secure:
  assumes "secure_socket E cp sock s = (st, s')"
  shows "same_callers s s'"
proof -
  let ?cert = "\<lambda>st. case ac_pcCertificate cp of None \<Rightarrow> st
    | Some cert \<Rightarrow> require_option E sock True (SOCKETS_SO_TRUSTED_SERVER_CERTIFICATE cert (ac_ulCertificateSize cp)) st"
  obtain st1 s1 where 1: "require_option E sock True SOCKETS_SO_REQUIRE_TLS (True, s) = (st1, s1)" by (metis prod.collapse)
  obtain st2 s2 where 2: "?cert (st1, s1) = (st2, s2)" by (metis prod.collapse)
  obtain st3 s3 where 3: "require_option E sock (ac_xFlags cp AND mqttagentURL_IS_IP_ADDRESS = 0 \<and> ac_xURLIsIPAddress cp = 0)
      (SOCKETS_SO_SERVER_NAME_INDICATION (ac_pcURL cp) (1 + C_strlen (ac_pcURL cp))) (st2, s2) = (st3, s3)" by (metis prod.collapse)
  have "require_option E sock (ac_xFlags cp AND mqttagentUSE_AWS_IOT_ALPN_443 \<noteq> 0) SOCKETS_SO_ALPN_PROTOCOLS (st3, s3) = (st, s')"
    using assms unfolding secure_socket_def Let_def 1 2 3 .
  moreover have "same_callers s1 s2" using 2 by (auto dest: same_option split: option.splits)
  ultimately show ?thesis using same_callers_trans same_option 1 3 by meson
qed

lemma same_setup:
  assumes "prvSetupConnection E b cp s = Some (st, s')"
  shows "same_callers s s'"
proof (cases "C_strlen (ac_pcURL cp) \<le> securesocketsMAX_DNS_NAME_LENGTH")
  case True
  note sockets_trans = same_callers_trans [OF _ same_sockets]
  obtain a s1 where 1: "sockets E (SOCKETS_GetHostByName (ac_pcURL cp)) s = (a, s1)" by (metis prod.collapse)
  obtain r s2 where 2: "sockets E SOCKETS_Socket s1 = (r, s2)" by (metis prod.collapse)
  let ?sock = "if r \<ge> 0 then Some (nat r) else None"
  let ?s3 = "upd_connection b (\<lambda>c. c\<lparr>xSocket := ?sock\<rparr>) s2"
  have 3: "same_callers s ?s3"
    by (rule same_callers_trans [OF same_callers_trans [OF same_sockets [OF 1] same_sockets [OF 2]] same_upd_connection]) simp
  show ?thesis
  proof (cases "r \<ge> 0")
    case False
    then show ?thesis using assms True 1 2 3 by (auto simp: prvSetupConnection_def assert_that_def Let_def split: if_splits)
  next
    case r: True
    obtain x s4 where 4: "sockets E (SOCKETS_SetSockOpt ?sock SOCKETS_SO_WAKEUP_CALLBACK) ?s3 = (x, s4)" by (metis prod.collapse)
    obtain st5 s5 where 5: "(if uxFlags (connection s4 b) AND mqttCONNECTION_SECURED = mqttCONNECTION_SECURED
       then secure_socket E cp ?sock s4 else (True, s4)) = (st5, s5)" by (metis prod.collapse)
    let ?port = "SOCKETS_htons (if ac_xFlags cp AND mqttagentUSE_AWS_IOT_ALPN_443 \<noteq> 0
       then securesocketsDEFAULT_TLS_DESTINATION_PORT else ac_usPort cp)"
    obtain st6 s6 where 6: "(if st5 then (case sockets E (SOCKETS_Connect ?sock (word_of_int a) ?port) s5 of (r, s) \<Rightarrow> (r = 0, s))
       else (st5, s5)) = (st6, s6)" by (metis prod.collapse)
    have s': "s' = (if st6 then snd (sockets E (SOCKETS_SetSockOpt ?sock SOCKETS_SO_NONBLOCK) s6) else prvGracefulSocketClose E b s6)"
      using assms True r 1 2 4 5 6 unfolding prvSetupConnection_def Let_def by (auto simp: assert_that_def split: if_splits)
    have "same_callers s4 s5" using 5 by (auto dest: same_secure split: if_splits)
    moreover have "same_callers s5 s6" using 6 by (auto dest: same_sockets split: if_splits prod.splits)
    ultimately have "same_callers s s6" using sockets_trans [OF 3 4] same_callers_trans by blast
    moreover have "same_callers s6 s'" unfolding s' by (auto intro: same_close same_sockets [OF prod.collapse [symmetric]])
    ultimately show ?thesis by (rule same_callers_trans)
  qed
next
  case False
  then show ?thesis using assms by (auto simp: prvSetupConnection_def assert_that_def split: if_splits)
qed

text \<open>The command of the task has a reference until its data is stored.\<close>

lemma free_waiting_Some:
  "free_waiting ds x = Some y \<Longrightarrow> x \<le> y \<and> y < x + length ds \<and> xTaskToNotify (ds ! (y - x)) = None"
proof (induction ds arbitrary: x)
  case (Cons d ds)
  show ?case
  proof (cases "xTaskToNotify d = None")
    case False
    then have i: "x + 1 \<le> y" "y < x + 1 + length ds" "xTaskToNotify (ds ! (y - (x + 1))) = None"
      using Cons.prems Cons.IH [of "x + 1"] by auto
    then have "(d # ds) ! (y - x) = ds ! (y - (x + 1))" by (simp add: nth_Cons')
    then show ?thesis using i by simp
  qed (use Cons.prems in auto)
qed simp

lemma inv_store:
  assumes inv: "agent_inv (F + data_refs b d) s" and b: "b < mqttconfigMAX_BROKERS" and s: "prvStoreNotificationData b d s = (stored, s')"
  shows "stored = None \<Longrightarrow> s' = s"
    "stored = Some x \<Longrightarrow> x < mqttconfigMAX_PARALLEL_OPS \<and> xWaitingTasks (connection s' b) ! x = d \<and> agent_inv F s'"
proof -
  show "stored = None \<Longrightarrow> s' = s" using s by (auto simp: prvStoreNotificationData_def split: option.splits)
  assume "stored = Some x"
  then have f: "free_waiting (xWaitingTasks (connection s b)) 0 = Some x" and s': "s' = set_waiting b x d s"
    using s by (auto simp: prvStoreNotificationData_def set_waiting_def split: option.splits)
  have t: "tables_ok s" by (rule invD(3) [OF inv])
  have bl: "b < length (tables s)" using t b by (simp add: tables_ok_def)
  have "length (tables s ! b) = mqttconfigMAX_PARALLEL_OPS" using t bl nth_mem by (auto simp: tables_ok_def)
  then have x: "x < mqttconfigMAX_PARALLEL_OPS" "xTaskToNotify (xWaitingTasks (connection s b) ! x) = None"
    using free_waiting_Some [OF f] bl by (simp_all add: tables_nth)
  have "xWaitingTasks (connection s' b) = (xWaitingTasks (connection s b))[x := d]"
    using tables_set_waiting [OF bl, of x d] bl tables_nth [of b s'] unfolding s' by (simp add: tables_nth)
  then have "xWaitingTasks (connection s' b) ! x = d" using tables_ok_bounds(3) [OF t b x(1)] by simp
  then show "x < mqttconfigMAX_PARALLEL_OPS \<and> xWaitingTasks (connection s' b) ! x = d \<and> agent_inv F s'"
    using x inv_set_waiting [OF inv b x(1)] s' by simp
qed

lemma request_cases:
  assumes "library_request E ev f s = Some (ok, s')"
  obtains rc s1 where "call_library E (broker ev) f s = Some (rc, s1)" "ok = (rc = eMQTTSuccess)" "s' = note_obs (ARequest ev rc) s1"
  using assms by (auto simp: library_request_def bind_eq_Some_conv)

lemma run_request:
  assumes inv: "agent_inv F s" and r: "library_request E ev f s = Some (ok, s')" and f: "\<And>E w. silent w (snd (f E w))"
  shows "callers_run F s s'" "ok \<Longrightarrow> \<exists>tr. ag_trace s' = ARequest ev eMQTTSuccess # tr"
proof -
  obtain rc s1 where c: "call_library E (broker ev) f s = Some (rc, s1)" and s: "ok = (rc = eMQTTSuccess)" "s' = note_obs (ARequest ev rc) s1"
    by (rule request_cases [OF r])
  have run: "callers_run F s s1" by (rule silent_call [OF inv c f])
  then have "callers_run F s1 s'" unfolding s(2) by (intro run_same same_note) (simp_all add: callers_run_def)
  then show "callers_run F s s'" by (rule run_trans [OF run])
  show "ok \<Longrightarrow> \<exists>tr. ag_trace s' = ARequest ev eMQTTSuccess # tr" using s by simp
qed

text \<open>The end of a request whose data was stored, or could not be stored.\<close>

lemma inv_stored_fail:
  assumes inv: "agent_inv F s" and b: "b < mqttconfigMAX_BROKERS" and x: "x < mqttconfigMAX_PARALLEL_OPS \<and> xWaitingTasks (connection s b) ! x = d"
    and run: "callers_run F s s1" and f: "fail_request E b (Some x) d c s1 = Some s'"
  shows "agent_inv F s'"
proof (rule inv_fail [OF _ b _ f])
  show "agent_inv (F + (if Some x = None then data_refs b d else {#})) s1" using run by (simp add: callers_run_def)
  have "xWaitingTasks (connection s1 b) = xWaitingTasks (connection s b)"
    by (rule tables_connection) (use run invD(3) [OF inv] b in \<open>simp_all add: callers_run_def tables_ok_def\<close>)
  then show "Some x = Some y \<Longrightarrow> y < mqttconfigMAX_PARALLEL_OPS \<and> xWaitingTasks (connection s1 b) ! y = d" for y using x by simp
qed

lemma inv_unstored_fail:
  assumes "agent_inv (F + data_refs b d) s" and "b < mqttconfigMAX_BROKERS" and "fail_request E b None d c s = Some s'"
  shows "agent_inv F s'"
  by (rule inv_fail [OF _ assms(2) _ assms(3)]) (use assms(1) in simp_all)

lemma inv_stored_request:
  assumes inv: "agent_inv (F + event_refs ev) s" and b: "broker ev < mqttconfigMAX_BROKERS"
    and f: "\<And>E w. silent w (snd (f E w))"
    and r: "(case prvStoreNotificationData (broker ev) (xNotificationData ev) s of
        (None, s) \<Rightarrow> fail_request E (broker ev) None (xNotificationData ev) c s
      | (Some x, s) \<Rightarrow> do {
          (ok, s) \<leftarrow> library_request E ev f s;
          if ok then Some s else fail_request E (broker ev) (Some x) (xNotificationData ev) c s
        }) = Some s'"
  shows "agent_inv F s'"
proof -
  let ?d = "xNotificationData ev"
  have i: "agent_inv (F + data_refs (broker ev) ?d) s" using inv by (simp add: event_refs_def)
  obtain st s1 where p: "prvStoreNotificationData (broker ev) ?d s = (st, s1)" by (metis prod.collapse)
  show ?thesis
  proof (cases st)
    case None
    then show ?thesis using inv_unstored_fail [OF i b] r p inv_store(1) [OF i b p] by simp
  next
    case (Some x)
    have x: "x < mqttconfigMAX_PARALLEL_OPS \<and> xWaitingTasks (connection s1 (broker ev)) ! x = ?d" "agent_inv F s1"
      using inv_store(2) [OF i b p Some] by auto
    obtain ok s2 where q: "library_request E ev f s1 = Some (ok, s2)"
      and s': "(if ok then Some s2 else fail_request E (broker ev) (Some x) ?d c s2) = Some s'"
      using r p Some by (auto simp: bind_eq_Some_conv)
    have run: "callers_run F s1 s2" by (rule run_request(1) [OF x(2) q f])
    show ?thesis using s' inv_stored_fail [OF x(2) b x(1) run] run by (auto simp: callers_run_def split: if_splits)
  qed
qed

lemma inv_Subscribe:
  assumes "agent_inv (F + event_refs ev) s" and "broker ev < mqttconfigMAX_BROKERS" and "prvInitiateMQTTSubscribe E ev sp s = Some s'"
  shows "agent_inv F s'"
  using assms(3) [unfolded prvInitiateMQTTSubscribe_def Let_def] by (rule inv_stored_request [OF assms(1,2) silent_Subscribe])

lemma inv_UnSubscribe:
  assumes "agent_inv (F + event_refs ev) s" and "broker ev < mqttconfigMAX_BROKERS" and "prvInitiateMQTTUnSubscribe E ev up s = Some s'"
  shows "agent_inv F s'"
  using assms(3) [unfolded prvInitiateMQTTUnSubscribe_def Let_def] by (rule inv_stored_request [OF assms(1,2) silent_Unsubscribe])

text \<open>A request that needs no acknowledgment is answered when the library has accepted it.\<close>

lemma inv_notify_request:
  assumes inv: "agent_inv (F + event_refs ev) s" and st: "st = 0 \<or> st = 1 \<and> needs_no_ack (xEventType ev) \<and> ag_trace s = ARequest ev eMQTTSuccess # tr"
    and n: "prvNotifyRequestingTask E (xNotificationData ev) c st s = Some (d', s')"
  shows "agent_inv F s'"
proof (rule notify_task(1) [OF _ n])
  show "agent_inv (F + data_refs (broker ev) (xNotificationData ev)) s" using inv by (simp add: event_refs_def)
  show "st = 0 \<or> st = 1" using st by blast
  show "confirmed (ag_trace s) (t, ulMessageIdentifier (xNotificationData ev), broker ev)" if "st = 1" for t
    using st that confirmed_Cons(2) by auto
qed

lemma inv_Disconnect:
  assumes inv: "agent_inv (F + event_refs ev) s" and e: "xEventType ev = eMQTTDisconnectRequest"
    and r: "prvInitiateMQTTDisconnect E ev s = Some s'"
  shows "agent_inv F s'"
proof -
  obtain ok s1 d where q: "library_request E ev MQTT_Disconnect s = Some (ok, s1)"
    and n: "(if ok then prvNotifyRequestingTask E (xNotificationData ev) eMQTTDISCONNSent 1 s1
       else prvNotifyRequestingTask E (xNotificationData ev) eMQTTDISCONNCouldNotBeSent 0 s1) = Some (d, s')"
    using r by (auto simp: prvInitiateMQTTDisconnect_def bind_eq_Some_conv)
  obtain rc s2 where c: "call_library E (broker ev) MQTT_Disconnect s = Some (rc, s2)" and s: "ok = (rc = eMQTTSuccess)" "s1 = note_obs (ARequest ev rc) s2"
    by (rule request_cases [OF q])
  have i: "agent_inv (F + event_refs ev) s1" unfolding s(2) by (rule inv_same [OF inv_call [OF inv c] same_note]) simp
  show ?thesis using n inv_notify_request [OF i, of 1] inv_notify_request [OF i, of 0] s e by (auto split: if_splits)
qed

lemma inv_Publish:
  assumes inv: "agent_inv (F + event_refs ev) s" and b: "broker ev < mqttconfigMAX_BROKERS" and e: "xEventType ev = eMQTTPublishRequest pp"
    and r: "prvInitiateMQTTPublish E ev pp s = Some s'"
  shows "agent_inv F s'"
proof (cases "ap_xQoS pp = eMQTTQoS0")
  case True
  obtain ok s1 where q: "library_request E ev (\<lambda>E'. MQTT_Publish E' (publish_params pp ev)) s = Some (ok, s1)"
    and n: "(if ok then if ap_xQoS pp = eMQTTQoS0 then do { (_, s) \<leftarrow> prvNotifyRequestingTask E (xNotificationData ev) eMQTTPUBSent 1 s1; Some s } else Some s1
       else fail_request E (broker ev) None (xNotificationData ev) eMQTTPUBCouldNotBeSent s1) = Some s'"
    using r True by (auto simp: prvInitiateMQTTPublish_def bind_eq_Some_conv)
  have run: "callers_run (F + event_refs ev) s s1" and tr: "ok \<Longrightarrow> \<exists>tr. ag_trace s1 = ARequest ev eMQTTSuccess # tr"
    using run_request [OF inv q silent_Publish] by auto
  have i: "agent_inv (F + event_refs ev) s1" using run by (simp add: callers_run_def)
  show ?thesis
  proof (cases ok)
    case ok: True
    obtain d where "prvNotifyRequestingTask E (xNotificationData ev) eMQTTPUBSent 1 s1 = Some (d, s')"
      using n ok True by (auto simp: bind_eq_Some_conv)
    moreover obtain tr where "ag_trace s1 = ARequest ev eMQTTSuccess # tr" using tr [OF ok] by blast
    ultimately show ?thesis using inv_notify_request [OF i, of 1 tr] e True by simp
  next
    case False
    then show ?thesis using inv_unstored_fail [OF _ b] i n by (simp add: event_refs_def)
  qed
next
  case False
  have "(case prvStoreNotificationData (broker ev) (xNotificationData ev) s of
        (None, s) \<Rightarrow> fail_request E (broker ev) None (xNotificationData ev) eMQTTPUBCouldNotBeSent s
      | (Some x, s) \<Rightarrow> do {
          (ok, s) \<leftarrow> library_request E ev (\<lambda>E'. MQTT_Publish E' (publish_params pp ev)) s;
          if ok then Some s else fail_request E (broker ev) (Some x) (xNotificationData ev) eMQTTPUBCouldNotBeSent s
        }) = Some s'"
    using r False by (auto simp: prvInitiateMQTTPublish_def split: prod.splits option.splits cong: if_cong)
  then show ?thesis by (rule inv_stored_request [OF inv b silent_Publish])
qed

lemma inv_Connect:
  assumes inv: "agent_inv (F + event_refs ev) s" and b: "broker ev < mqttconfigMAX_BROKERS"
    and r: "prvInitiateMQTTConnect E ev cp s = Some s'"
  shows "agent_inv F s'"
proof -
  let ?b = "broker ev" and ?d = "xNotificationData ev"
  have i: "agent_inv (F + data_refs ?b ?d) s" using inv by (simp add: event_refs_def)
  obtain st s1 where p: "prvStoreNotificationData ?b ?d s = (st, s1)" by (metis prod.collapse)
  show ?thesis
  proof (cases st)
    case None
    then show ?thesis using inv_unstored_fail [OF i b] r p inv_store(1) [OF i b p] by (simp add: prvInitiateMQTTConnect_def Let_def)
  next
    case (Some x)
    let ?f = "\<lambda>c. c\<lparr>bc_pvUserData := ac_pvUserData cp, bc_pxCallback := ac_pxCallback cp,
       uxFlags := (if ac_xSecuredConnection cp = 0 \<and> ac_xFlags cp AND mqttagentREQUIRE_TLS = 0
                   then uxFlags c AND NOT mqttCONNECTION_SECURED else uxFlags c OR mqttCONNECTION_SECURED)\<rparr>"
    have x: "x < mqttconfigMAX_PARALLEL_OPS \<and> xWaitingTasks (connection s1 ?b) ! x = ?d" "agent_inv F s1"
      using inv_store(2) [OF i b p Some] by auto
    obtain ok2 s2 where q2: "prvSetupConnection E ?b cp (upd_connection ?b ?f s1) = Some (ok2, s2)"
      using r p Some by (auto simp: prvInitiateMQTTConnect_def Let_def bind_eq_Some_conv)
    obtain ok3 s3 where q3: "(if ok2 then do {
         (xStatus, s) \<leftarrow> library_request E ev (\<lambda>E'. MQTT_Connect E' (connect_params cp ev)) s2;
         Some (xStatus, if xStatus then s else prvGracefulSocketClose E ?b s)
       } else Some (ok2, s2)) = Some (ok3, s3)"
      and s': "(if ok3 then Some s3 else fail_request E ?b (Some x) ?d eMQTTCONNCouldNotBeSent s3) = Some s'"
      using r p Some q2 by (auto simp: prvInitiateMQTTConnect_def Let_def bind_eq_Some_conv)
    have "same_callers s1 s2" by (rule same_callers_trans [OF same_upd_connection same_setup [OF q2]]) simp
    then have run2: "callers_run F s1 s2" by (rule run_same [OF x(2)])
    then have i2: "agent_inv F s2" by (simp add: callers_run_def)
    have "callers_run F s2 s3"
    proof (cases ok2)
      case True
      then obtain ok s where q: "library_request E ev (\<lambda>E'. MQTT_Connect E' (connect_params cp ev)) s2 = Some (ok, s)"
        and s3: "s3 = (if ok then s else prvGracefulSocketClose E ?b s)" using q3 by (auto simp: bind_eq_Some_conv)
      have run: "callers_run F s2 s" by (rule run_request(1) [OF i2 q silent_Connect])
      then have "agent_inv F s" by (simp add: callers_run_def)
      then have "callers_run F s s3" unfolding s3 by (rule run_same) (simp add: same_close)
      then show ?thesis by (rule run_trans [OF run])
    qed (use q3 run_refl [OF i2] in simp)
    then have run: "callers_run F s1 s3" by (rule run_trans [OF run2])
    show ?thesis using s' inv_stored_fail [OF x(2) b x(1) run] run by (auto simp: callers_run_def split: if_splits)
  qed
qed

section \<open>The loop\<close>

lemma inv_receive:
  assumes inv: "agent_inv F s" and r: "receive_data E b n s = Some (m, s')"
  shows "agent_inv F s'"
proof -
  obtain k s1 where k: "sockets E (SOCKETS_Recv (xSocket (connection s b)) mqttconfigRX_BUFFER_SIZE) s = (k, s1)" by (metis prod.collapse)
  have i: "agent_inv F s1" by (rule inv_same [OF inv same_sockets [OF k]])
  show ?thesis using r i k inv_call [OF i] by (auto simp: receive_data_def Let_def bind_eq_Some_conv split: if_splits)
qed

lemma inv_manage: "agent_inv F s \<Longrightarrow> manage_connections E bs any n s = Some (any', n', s') \<Longrightarrow> agent_inv F s'"
proof (induction bs arbitrary: any n s)
  case (Cons b bs)
  obtain n1 s1 where 1: "(if xSocket (connection s b) \<noteq> None then receive_data E b n s else Some (n, s)) = Some (n1, s1)"
    and rest: "(let any = any \<or> xSocket (connection s1 b) \<noteq> None; xTickCount = prvMQTTGetTicks (ae_now E (ag_trace s1)) in
      do {
        (next, s) \<leftarrow> call_library E b (\<lambda>E'. MQTT_Periodic E' xTickCount) s1;
        manage_connections E bs any (min n1 next) s
      }) = Some (any', n', s')"
    using Cons.prems(2) unfolding manage_connections.simps by (auto simp: bind_eq_Some_conv)
  obtain n2 s2 where 2: "call_library E b (\<lambda>E'. MQTT_Periodic E' (prvMQTTGetTicks (ae_now E (ag_trace s1)))) s1 = Some (n2, s2)"
    and 3: "manage_connections E bs (any \<or> xSocket (connection s1 b) \<noteq> None) (min n1 n2) s2 = Some (any', n', s')"
    using rest unfolding Let_def by (auto simp: bind_eq_Some_conv)
  have "agent_inv F s1" using 1 Cons.prems(1) inv_receive by (auto split: if_splits)
  then show ?case by (rule Cons.IH [OF inv_call [OF _ 2] 3])
qed simp

lemma inv_process:
  assumes inv: "agent_inv (F + event_refs ev) s" and p: "process_command E ev s = Some s'"
    and service: "xEventType ev = eMQTTServiceSocket \<longrightarrow> xTaskToNotify (xNotificationData ev) = None"
  shows "agent_inv F s'"
proof -
  have b: "broker ev < mqttconfigMAX_BROKERS" using p by (auto simp: process_command_def assert_that_def split: if_splits)
  obtain over stamp ticks where c: "xTaskCheckForTimeOut (ae_now E (ag_trace s)) (xEventCreationTimestamp ev) (xTicksToWait ev) = (over, stamp, ticks)"
    by (metis prod_cases3)
  let ?ev = "ev\<lparr>xEventCreationTimestamp := stamp, xTicksToWait := ticks\<rparr>"
  have i: "agent_inv (F + event_refs ?ev) s" and b': "broker ?ev < mqttconfigMAX_BROKERS" using inv b by (simp_all add: event_refs_def)
  show ?thesis
  proof (cases over)
    case True
    then obtain d where "prvNotifyRequestingTask E (xNotificationData ev) eMQTTOperationTimedOut 0 s = Some (d, s')"
      using p c b by (auto simp: process_command_def assert_that_def bind_eq_Some_conv)
    then show ?thesis by (rule inv_notify_request [OF inv, rotated]) simp
  next
    case False
    then have q: "(case xEventType ev of
         eMQTTConnectRequest cp \<Rightarrow> prvInitiateMQTTConnect E ?ev cp s
       | eMQTTDisconnectRequest \<Rightarrow> prvInitiateMQTTDisconnect E ?ev s
       | eMQTTSubscribeRequest sp \<Rightarrow> prvInitiateMQTTSubscribe E ?ev sp s
       | eMQTTUnsubscribeRequest up \<Rightarrow> prvInitiateMQTTUnSubscribe E ?ev up s
       | eMQTTPublishRequest pp \<Rightarrow> prvInitiateMQTTPublish E ?ev pp s
       | eMQTTServiceSocket \<Rightarrow> Some s) = Some s'"
      using p c b by (simp add: process_command_def assert_that_def Let_def)
    show ?thesis
      using q service i by (auto dest: inv_Connect [OF i b'] inv_Disconnect [OF i, rotated] inv_Subscribe [OF i b'] inv_UnSubscribe [OF i b']
          inv_Publish [OF i b', rotated] simp: event_refs_def split: MQTTAction_t.splits)
  qed
qed

lemma inv_iteration:
  assumes inv: "agent_inv {#} s" and i: "prvMQTTTask E s = Some (ticks, s')"
  shows "agent_inv {#} s'"
proof -
  obtain s1 q s2 where y: "yield E s = Some s1" and q: "xCommandQueue s1 = Some q"
    and c: "(case q of [] \<Rightarrow> Some s1 | ev # q \<Rightarrow> process_command E ev (s1\<lparr>xCommandQueue := Some q\<rparr>)) = Some s2"
    and m: "prvManageConnections E s2 = Some (ticks, s')"
    using i by (auto simp: prvMQTTTask_def bind_eq_Some_conv)
  have 1: "agent_inv {#} s1" using run_yield [OF inv y] by (simp add: callers_run_def)
  have "agent_inv {#} s2"
  proof (cases q)
    case (Cons ev q')
    let ?s = "s1\<lparr>xCommandQueue := Some q'\<rparr>"
    have k: "queue_ok (Some (ev # q'))" using invD(4) [OF 1] q Cons by simp
    have "agent_inv ({#} + event_refs ev) ?s"
    proof (rule inv_move [OF 1])
      show "all_refs ?s + ({#} + event_refs ev) = all_refs s1 + {#}"
        using q Cons by (simp add: all_refs_def queue_refs_def ac_simps)
    qed (use invD(3) [OF 1] k in \<open>simp_all add: tables_ok_def queue_ok_def\<close>)
    then show ?thesis by (rule inv_process) (use c Cons k in \<open>simp_all add: queue_ok_def\<close>)
  qed (use 1 c in simp)
  then show ?thesis using m inv_manage by (auto simp: prvManageConnections_def bind_eq_Some_conv)
qed

section \<open>The initial state\<close>

lemma replicate_update: "(replicate n a)[x := a] = replicate n a"
  by (cases "x < n") (simp_all add: list_update_same_conv list_update_beyond)

abbreviation empty_tables :: "MQTTNotificationData_t list list" where
  "empty_tables \<equiv> replicate mqttconfigMAX_BROKERS (replicate mqttconfigMAX_PARALLEL_OPS \<lparr>xTaskToNotify = None, ulMessageIdentifier = 0\<rparr>)"

lemma init_connections_tables:
  "tables s = empty_tables \<Longrightarrow> init_connections xs s = (r, s') \<Longrightarrow>
     tables s' = empty_tables \<and> ag_tasks s' = ag_tasks s \<and> ag_trace s' = ag_trace s"
proof (induction xs arbitrary: s)
  case (Cons x xs)
  let ?s1 = "upd_connection x (\<lambda>c. c\<lparr>xSocket := None, bc_pvUserData := 0, bc_pxCallback := NullCallback, xConnectionInUse := False\<rparr>) s"
  obtain rc w where w: "MQTT_Init (agent_init_params x) (lib_world ?s1 x) = (rc, w)" by (metis prod.collapse)
  let ?s2 = "put_world x w ?s1"
  let ?s3 = "upd_connection x (\<lambda>c. c\<lparr>xWaitingTasks := replicate mqttconfigMAX_PARALLEL_OPS \<lparr>xTaskToNotify = None, ulMessageIdentifier = 0\<rparr>\<rparr>) ?s2"
  have 2: "tables ?s2 = empty_tables" "ag_tasks ?s2 = ag_tasks s" "ag_trace ?s2 = ag_trace s"
  proof -
    have "same_callers s ?s2" by (rule same_callers_trans [OF same_upd_connection same_put_world]) simp
    then show "tables ?s2 = empty_tables" using Cons.prems(1) by (simp add: same_callers_def)
  qed (simp_all add: put_world_def upd_connection_def)
  have "tables ?s3 = (tables ?s2)[x := replicate mqttconfigMAX_PARALLEL_OPS \<lparr>xTaskToNotify = None, ulMessageIdentifier = 0\<rparr>]"
    by (simp add: tables_def upd_connection_def map_update)
  then have 3: "tables ?s3 = empty_tables" "ag_tasks ?s3 = ag_tasks s" "ag_trace ?s3 = ag_trace s"
    using 2 by (simp_all add: replicate_update upd_connection_def)
  show ?case
  proof (cases "rc = eMQTTSuccess")
    case True
    then have "init_connections xs ?s3 = (r, s')" using Cons.prems(2) w unfolding init_connections.simps Let_def by simp
    then show ?thesis using Cons.IH [OF 3(1)] 3 by simp
  next
    case False
    then have "s' = ?s2" using Cons.prems(2) w unfolding init_connections.simps Let_def by simp
    then show ?thesis using 2 by simp
  qed
qed simp

lemma sum_list_empty: "sum_list (replicate n {#}) = {#}"
  by (induction n) simp_all

lemma empty_refs: "tables s = empty_tables \<Longrightarrow> xCommandQueue s = Some [] \<Longrightarrow> all_refs s = {#}"
  by (simp add: all_refs_def queue_refs_def table_refs_def sum_list_empty)

lemma inv_start:
  assumes "xCommandQueue s = None" and "ag_trace s = []" and "\<forall>t. tk_state (ag_tasks s t) = NotCalling"
  shows "agent_inv {#} (snd (MQTT_AGENT_Init task s))"
proof -
  let ?s0 = "s\<lparr>xMQTTConnections := replicate mqttconfigMAX_BROKERS zero_connection\<rparr>"
  obtain r s1 where i: "init_connections [0..<mqttconfigMAX_BROKERS] ?s0 = (r, s1)" by (metis prod.collapse)
  have "tables ?s0 = empty_tables" by (simp add: tables_def zero_connection_def)
  then have 1: "tables s1 = empty_tables" "ag_tasks s1 = ag_tasks s" "ag_trace s1 = []"
    using init_connections_tables [OF _ i] assms(2) by auto
  let ?s = "s1\<lparr>ulQueueMessageIdentifier := mqttMESSAGE_IDENTIFIER_MIN, xCommandQueue := Some [], xMQTTTaskHandle := Some task\<rparr>"
  have s: "snd (MQTT_AGENT_Init task s) = ?s" by (simp add: MQTT_AGENT_Init_def assms(1) i)
  have t: "tables ?s = empty_tables" using 1(1) by (simp add: tables_def)
  have "all_refs ?s = {#}" by (rule empty_refs [OF t]) simp
  then show ?thesis
    using 1 assms(3) t unfolding s agent_inv_def
    by (simp add: tables_ok_def queue_ok_def caller_ok_def id_ok_def mqttMESSAGE_IDENTIFIER_MIN_def mqttMESSAGE_IDENTIFIER_MASK_def)
qed

lemma reachable_inv: "agent_reachable E s \<Longrightarrow> agent_inv {#} s"
proof (induction rule: agent_reachable.induct)
  case (start s task)
  then show ?case by (rule inv_start)
next
  case (iteration s ticks s')
  then show ?case by (blast intro: inv_iteration)
next
  case (other_task s x s')
  have "callers_run {#} s s'" by (rule run_step [OF other_task.IH other_task.hyps(2)])
  then show ?case by (simp add: callers_run_def)
qed

section \<open>No caller is forgotten\<close>

text \<open>
  C2. No task that waits for the MQTT agent is forgotten, and none is answered twice: whatever the network and the
  other tasks do, either exactly one entry of the command queue and of the tables of waiting tasks
  belongs to the task, it is that of its command, and the task has not been notified; or no entry
  belongs to it, and the notification it has received carries the identifier of its command.
\<close>

theorem caller_served_once:
  assumes "agent_reachable E s" and "tk_state (ag_tasks s t) = Waiting ev"
  shows "refs_to t (all_refs s) = {#command_ref ev t#} \<and> ucNotifyState (tk_notification (ag_tasks s t)) \<noteq> taskNOTIFICATION_RECEIVED \<or>
    refs_to t (all_refs s) = {#} \<and> ucNotifyState (tk_notification (ag_tasks s t)) = taskNOTIFICATION_RECEIVED \<and>
      ulNotifiedValue (tk_notification (ag_tasks s t)) AND mqttMESSAGE_IDENTIFIER_MASK = ulMessageIdentifier (xNotificationData ev)"
  using inv_caller [OF reachable_inv [OF assms(1)], of t] assms(2) by (auto simp: caller_ok_def answered_def)

text \<open>
  C3. The MQTT agent reports a success only if there was one: when a call returns success to its
  task, then since this command was issued the library has reported an acknowledgment with the
  packet identifier of the command by its broker, or the command was a disconnect or a
  publish with QoS 0, and the library has accepted it.
\<close>

theorem success_is_confirmed:
  assumes "agent_reachable E s" and "ag_trace s = later @ AReturn t ev eMQTTAgentSuccess # earlier"
  shows "last_issued t earlier ev \<and>
    (\<exists>x\<in>set (since_issue t earlier). confirms (ulMessageIdentifier (xNotificationData ev)) (broker ev) x)"
proof -
  have suffix: "answers_ok (xs @ tr) \<Longrightarrow> answers_ok tr" for xs tr
  proof (induction xs)
    case (Cons x xs)
    then show ?case by (cases x) auto
  qed simp
  have "answers_ok (AReturn t ev eMQTTAgentSuccess # earlier)" using invD(1) [OF reachable_inv [OF assms(1)]] assms(2) suffix by metis
  then show ?thesis by (simp add: confirmed_def)
qed

end
