(* ===== verification/MqttAgentRuns.thy ===== *)
theory MqttAgentRuns
  imports MqttAgentSafety
begin

text \<open>A run of the MQTT agent: a task disconnects from a broker it is not connected to.\<close>

definition agent_example_env :: "unit agent_env" where
  "agent_example_env = \<lparr>
     ae_lib = (\<lambda>b. \<lparr>e_send = (\<lambda>_ _ _ _ n. n), e_ticks = (\<lambda>_ _. 1000), e_event = (\<lambda>_ _ _ _. False), e_publish = (\<lambda>_ _ _ _. False),
       e_get = (\<lambda>_ p n. (None, p)), e_ret = (\<lambda>_ p h. p)\<rparr>),
     ae_send = (\<lambda>sock tr. (\<lparr>xOverflowCount = 0, xTimeOnEntering = 1000\<rparr>, [])),
     ae_clock = (\<lambda>tr. \<lparr>xOverflowCount = 0, xTimeOnEntering = 1000\<rparr>),
     ae_now = (\<lambda>tr. \<lparr>xOverflowCount = 0, xTimeOnEntering = 1000\<rparr>),
     ae_socket = (\<lambda>tr c. -1), ae_received = (\<lambda>tr. []), ae_drain = (\<lambda>tr. []), ae_tasks = (\<lambda>tr. [])\<rparr>"

definition agent_before :: "unit agent" where
  "agent_before = \<lparr>xMQTTConnections = [], xCommandQueue = None, xMQTTTaskHandle = None, ulQueueMessageIdentifier = 0,
     ag_pool = (),
     ag_bufs = (\<lambda>_. \<lparr>mb_xRecordedTickCount = 0, mb_ulTimeoutTicks = 0, mb_usPacketIdentifier = 0, mb_ulBufferLength = 0,
       mb_ulDataLength = 0, mb_data = []\<rparr>),
     ag_fault = False,
     ag_tasks = (\<lambda>t. \<lparr>tk_notification = \<lparr>ucNotifyState = taskNOT_WAITING_NOTIFICATION, ulNotifiedValue = 0\<rparr>, tk_state = NotCalling\<rparr>),
     ag_trace = []\<rparr>"

definition agent_start :: "unit agent" where
  "agent_start = snd (MQTT_AGENT_Init 1 agent_before)"

definition agent_waiting :: "unit agent" where
  "agent_waiting = the (do_steps agent_example_env [SendCommand 7 (AgentDisconnect 1 100), ClearState 7, PostCommand 7, WaitForReply 7] agent_start)"

definition agent_iterated :: "unit agent" where
  "agent_iterated = snd (the (prvMQTTTask agent_example_env agent_waiting))"

definition agent_returned :: "unit agent" where
  "agent_returned = the (do_step agent_example_env (WaitForReply 7) agent_iterated)"

definition example_event :: MQTTEventData_t where
  "example_event = \<lparr>uxBrokerNumber = 0, xEventType = eMQTTDisconnectRequest,
     xNotificationData = \<lparr>xTaskToNotify = Some 7, ulMessageIdentifier = 0x10000\<rparr>,
     xEventCreationTimestamp = \<lparr>xOverflowCount = 0, xTimeOnEntering = 1000\<rparr>, xTicksToWait = 100\<rparr>"

lemma agent_steps: "agent_reachable E s \<Longrightarrow> do_steps E xs s = Some s' \<Longrightarrow> agent_reachable E s'"
proof (induction xs arbitrary: s)
  case (Cons x xs)
  then obtain s1 where "do_step E x s = Some s1" "do_steps E xs s1 = Some s'" by (auto simp: bind_eq_Some_conv)
  then show ?case using Cons.IH agent_reachable.other_task [OF Cons.prems(1)] by blast
qed simp

lemma agent_waiting_state:
  "do_steps agent_example_env [SendCommand 7 (AgentDisconnect 1 100), ClearState 7, PostCommand 7, WaitForReply 7] agent_start \<noteq> None"
  "tk_state (ag_tasks agent_waiting 7) = Waiting example_event"
  "ucNotifyState (tk_notification (ag_tasks agent_waiting 7)) = taskWAITING_NOTIFICATION"
  by code_simp+

lemma agent_returned_state:
  "prvMQTTTask agent_example_env agent_waiting \<noteq> None" "do_step agent_example_env (WaitForReply 7) agent_iterated \<noteq> None"
  "hd (ag_trace agent_returned) = AReturn 7 example_event eMQTTAgentSuccess"
  by code_simp+

lemma agent_reached: "agent_reachable agent_example_env agent_waiting" "agent_reachable agent_example_env agent_returned"
proof -
  have s: "agent_reachable agent_example_env agent_start"
    unfolding agent_start_def by (rule agent_reachable.start) (simp_all add: agent_before_def)
  obtain s1 where 1: "do_steps agent_example_env [SendCommand 7 (AgentDisconnect 1 100), ClearState 7, PostCommand 7, WaitForReply 7]
      agent_start = Some s1" using agent_waiting_state(1) by blast
  then have w: "agent_waiting = s1" by (simp only: agent_waiting_def option.sel)
  show a: "agent_reachable agent_example_env agent_waiting" unfolding w by (rule agent_steps [OF s 1])
  obtain n s2 where 2: "prvMQTTTask agent_example_env agent_waiting = Some (n, s2)" using agent_returned_state(1) by (metis not_Some_eq prod.collapse)
  then have i: "agent_iterated = s2" by (simp only: agent_iterated_def option.sel snd_conv)
  obtain s3 where 3: "do_step agent_example_env (WaitForReply 7) s2 = Some s3" using agent_returned_state(2) unfolding i by blast
  then have r: "agent_returned = s3" by (simp only: agent_returned_def option.sel i)
  show "agent_reachable agent_example_env agent_returned"
    unfolding r by (rule agent_reachable.other_task [OF agent_reachable.iteration [OF a 2] 3])
qed

theorem caller_served_once_witness:
  "refs_to 7 (all_refs agent_waiting) = {#(7, 0x10000, 0)#}"
  using caller_served_once [OF agent_reached(1) agent_waiting_state(2)] agent_waiting_state(3)
  by (simp add: command_ref_def example_event_def)

theorem success_is_confirmed_witness:
  "\<exists>x\<in>set (since_issue 7 (tl (ag_trace agent_returned))). confirms 0x10000 0 x"
proof -
  have "ag_trace agent_returned \<noteq> []" by code_simp
  then have "ag_trace agent_returned = [] @ AReturn 7 example_event eMQTTAgentSuccess # tl (ag_trace agent_returned)"
    using agent_returned_state(3) by (simp only: append_Nil) (metis list.collapse)
  from success_is_confirmed [OF agent_reached(2) this] show ?thesis by (simp add: example_event_def)
qed

end
