(* ===== verification/Heap4.thy ===== *)
theory Heap4
  imports Prelude
begin

text \<open>
  The heap (\<open>FreeRTOS/portable/MemMang/heap_4.c\<close>): first fit in a list of free blocks in the order of their
  addresses, which are merged with their neighbours when they are freed. The memory is seen
  through the headers (\<open>BlockLink_t\<close>) in front of the blocks; they lie at multiples of 8 and have 8 bytes,
  so that no two of them overlap. The scheduler is suspended while the list is changed, so that each
  function is one step. None is the result of a failed assertion or of a loop that does not end.
\<close>

unbundle bit_operations_syntax

section \<open>State and operations\<close>

record BlockLink_t =
  pxNextFreeBlock :: addr
  xBlockSize :: u32

definition configTOTAL_HEAP_SIZE :: u32 where "configTOTAL_HEAP_SIZE = 152 * 1024"

definition xHeapStructSize :: u32 where
  "xHeapStructSize = (8 + (portBYTE_ALIGNMENT - 1)) AND NOT portBYTE_ALIGNMENT_MASK"

definition heapMINIMUM_BLOCK_SIZE :: u32 where "heapMINIMUM_BLOCK_SIZE = push_bit 1 xHeapStructSize"

text \<open>The first two fields are the addresses of the static objects \<open>xStart\<close> and \<open>ucHeap\<close>.\<close>

record heap4 =
  xStart :: addr
  ucHeap :: addr
  hp_link :: "addr \<Rightarrow> BlockLink_t"
  pxEnd :: addr
  xFreeBytesRemaining :: u32
  xMinimumEverFreeBytesRemaining :: u32
  xBlockAllocatedBit :: u32

abbreviation next_of :: "heap4 \<Rightarrow> addr \<Rightarrow> addr" where "next_of h p \<equiv> pxNextFreeBlock (hp_link h p)"
abbreviation size_of :: "heap4 \<Rightarrow> addr \<Rightarrow> u32" where "size_of h p \<equiv> xBlockSize (hp_link h p)"

definition set_next :: "addr \<Rightarrow> addr \<Rightarrow> heap4 \<Rightarrow> heap4" where
  "set_next p n h = h\<lparr>hp_link := (hp_link h)(p := (hp_link h p)\<lparr>pxNextFreeBlock := n\<rparr>)\<rparr>"

definition set_size :: "addr \<Rightarrow> u32 \<Rightarrow> heap4 \<Rightarrow> heap4" where
  "set_size p n h = h\<lparr>hp_link := (hp_link h)(p := (hp_link h p)\<lparr>xBlockSize := n\<rparr>)\<rparr>"

definition prvHeapInit :: "heap4 \<Rightarrow> heap4" where
  "prvHeapInit h =
     (let uxAddress = ucHeap h;
          (uxAddress, xTotalHeapSize) =
            (if uxAddress AND portBYTE_ALIGNMENT_MASK \<noteq> 0
             then (let a = (uxAddress + (portBYTE_ALIGNMENT - 1)) AND NOT portBYTE_ALIGNMENT_MASK in
                   (a, configTOTAL_HEAP_SIZE - (a - ucHeap h)))
             else (uxAddress, configTOTAL_HEAP_SIZE));
          pucAlignedHeap = uxAddress;
          h = set_size (xStart h) 0 (set_next (xStart h) pucAlignedHeap h);
          uxAddress = (pucAlignedHeap + xTotalHeapSize - xHeapStructSize) AND NOT portBYTE_ALIGNMENT_MASK;
          h = h\<lparr>pxEnd := uxAddress\<rparr>;
          h = set_next (pxEnd h) 0 (set_size (pxEnd h) 0 h);
          h = set_next pucAlignedHeap (pxEnd h) (set_size pucAlignedHeap (uxAddress - pucAlignedHeap) h) in
      h\<lparr>xMinimumEverFreeBytesRemaining := size_of h pucAlignedHeap, xFreeBytesRemaining := size_of h pucAlignedHeap,
        xBlockAllocatedBit := push_bit 31 1\<rparr>)"

text \<open>The loop that finds the place of a block, and the loop that looks for a block of a size with its predecessor.\<close>

partial_function (option) insert_position :: "heap4 \<Rightarrow> addr \<Rightarrow> addr \<Rightarrow> addr option" where
  "insert_position h pxBlockToInsert pxIterator =
     (if next_of h pxIterator < pxBlockToInsert then insert_position h pxBlockToInsert (next_of h pxIterator) else Some pxIterator)"

partial_function (option) find_block :: "heap4 \<Rightarrow> u32 \<Rightarrow> addr \<Rightarrow> addr \<Rightarrow> (addr \<times> addr) option" where
  "find_block h xWantedSize pxPreviousBlock pxBlock =
     (if size_of h pxBlock < xWantedSize \<and> next_of h pxBlock \<noteq> 0
      then find_block h xWantedSize pxBlock (next_of h pxBlock) else Some (pxPreviousBlock, pxBlock))"

definition prvInsertBlockIntoFreeList :: "addr \<Rightarrow> heap4 \<Rightarrow> heap4 option" where
  "prvInsertBlockIntoFreeList pxBlockToInsert h =
     (case insert_position h pxBlockToInsert (xStart h) of
        None \<Rightarrow> None
      | Some pxIterator \<Rightarrow>
          (let (pxBlockToInsert, h) =
                 (if pxIterator + size_of h pxIterator = pxBlockToInsert
                  then (pxIterator, set_size pxIterator (size_of h pxIterator + size_of h pxBlockToInsert) h)
                  else (pxBlockToInsert, h));
               h =
                 (if pxBlockToInsert + size_of h pxBlockToInsert = next_of h pxIterator then
                    if next_of h pxIterator \<noteq> pxEnd h
                    then (let h = set_size pxBlockToInsert (size_of h pxBlockToInsert + size_of h (next_of h pxIterator)) h in
                          set_next pxBlockToInsert (next_of h (next_of h pxIterator)) h)
                    else set_next pxBlockToInsert (pxEnd h) h
                  else set_next pxBlockToInsert (next_of h pxIterator) h) in
           Some (if pxIterator \<noteq> pxBlockToInsert then set_next pxIterator pxBlockToInsert h else h)))"

text \<open>The size of the block for a request.\<close>

definition block_size :: "u32 \<Rightarrow> u32" where
  "block_size xWantedSize =
     (if xWantedSize > 0
      then (let xWantedSize = xWantedSize + xHeapStructSize in
            if xWantedSize AND portBYTE_ALIGNMENT_MASK \<noteq> 0
            then xWantedSize + (portBYTE_ALIGNMENT - (xWantedSize AND portBYTE_ALIGNMENT_MASK)) else xWantedSize)
      else xWantedSize)"

text \<open>The block leaves the list of free blocks, is split if it is too big, and is marked.\<close>

definition split_block :: "u32 \<Rightarrow> addr \<Rightarrow> heap4 \<Rightarrow> heap4 option" where
  "split_block xWantedSize pxBlock h =
     (if size_of h pxBlock - xWantedSize > heapMINIMUM_BLOCK_SIZE
      then (let pxNewBlockLink = pxBlock + xWantedSize in
            if pxNewBlockLink AND portBYTE_ALIGNMENT_MASK = 0
            then (let h = set_size pxNewBlockLink (size_of h pxBlock - xWantedSize) h;
                      h = set_size pxBlock xWantedSize h in
                  prvInsertBlockIntoFreeList pxNewBlockLink h)
            else None)
      else Some h)"

definition mark_block :: "addr \<Rightarrow> heap4 \<Rightarrow> heap4" where
  "mark_block pxBlock h =
     (let h = h\<lparr>xFreeBytesRemaining := xFreeBytesRemaining h - size_of h pxBlock\<rparr>;
          h = (if xFreeBytesRemaining h < xMinimumEverFreeBytesRemaining h
               then h\<lparr>xMinimumEverFreeBytesRemaining := xFreeBytesRemaining h\<rparr> else h);
          h = set_size pxBlock (size_of h pxBlock OR xBlockAllocatedBit h) h in
      set_next pxBlock 0 h)"

definition take_block :: "u32 \<Rightarrow> addr \<Rightarrow> addr \<Rightarrow> heap4 \<Rightarrow> heap4 option" where
  "take_block xWantedSize pxPreviousBlock pxBlock h =
     map_option (mark_block pxBlock) (split_block xWantedSize pxBlock (set_next pxPreviousBlock (next_of h pxBlock) h))"

definition pvPortMalloc :: "u32 \<Rightarrow> heap4 \<Rightarrow> (addr \<times> heap4) option" where
  "pvPortMalloc xWantedSize h =
     (let h = (if pxEnd h = 0 then prvHeapInit h else h) in
      if xWantedSize AND xBlockAllocatedBit h = 0 then
        (let xWantedSize = block_size xWantedSize in
         if xWantedSize > 0 \<and> xWantedSize \<le> xFreeBytesRemaining h then
           (case find_block h xWantedSize (xStart h) (next_of h (xStart h)) of
              None \<Rightarrow> None
            | Some (pxPreviousBlock, pxBlock) \<Rightarrow>
                if pxBlock \<noteq> pxEnd h then
                  (let pvReturn = next_of h pxPreviousBlock + xHeapStructSize in
                   case take_block xWantedSize pxPreviousBlock pxBlock h of
                     None \<Rightarrow> None
                   | Some h \<Rightarrow> if pvReturn AND portBYTE_ALIGNMENT_MASK = 0 then Some (pvReturn, h) else None)
                else Some (0, h))
         else Some (0, h))
      else Some (0, h))"

text \<open>With the numbers of bytes that are cleared.\<close>

definition vPortCalloc :: "u32 \<Rightarrow> u32 \<Rightarrow> heap4 \<Rightarrow> (addr \<times> u32 \<times> heap4) option" where
  "vPortCalloc num item_size h =
     (case pvPortMalloc (item_size * num) h of
        None \<Rightarrow> None
      | Some (ret, h) \<Rightarrow> Some (ret, if ret \<noteq> 0 then item_size * num else 0, h))"

definition vPortFree :: "addr \<Rightarrow> heap4 \<Rightarrow> heap4 option" where
  "vPortFree pv h =
     (if pv \<noteq> 0 then
        (let pxLink = pv - xHeapStructSize in
         if size_of h pxLink AND xBlockAllocatedBit h \<noteq> 0 \<and> next_of h pxLink = 0 then
           (let h = set_size pxLink (size_of h pxLink AND NOT (xBlockAllocatedBit h)) h;
                h = h\<lparr>xFreeBytesRemaining := xFreeBytesRemaining h + size_of h pxLink\<rparr> in
            prvInsertBlockIntoFreeList pxLink h)
         else None)
      else Some h)"

definition xPortGetFreeHeapSize :: "heap4 \<Rightarrow> u32" where
  "xPortGetFreeHeapSize h = xFreeBytesRemaining h"

definition xPortGetMinimumEverFreeHeapSize :: "heap4 \<Rightarrow> u32" where
  "xPortGetMinimumEverFreeHeapSize h = xMinimumEverFreeBytesRemaining h"

section \<open>Lists of free blocks\<close>

lemma heap_sizes: "xHeapStructSize = 8" "heapMINIMUM_BLOCK_SIZE = 16"
  by (simp_all add: xHeapStructSize_def heapMINIMUM_BLOCK_SIZE_def portBYTE_ALIGNMENT_def portBYTE_ALIGNMENT_MASK_def)

lemma set_next_simps [simp]:
  "next_of (set_next p n h) q = (if q = p then n else next_of h q)" "size_of (set_next p n h) q = size_of h q"
  "xStart (set_next p n h) = xStart h" "pxEnd (set_next p n h) = pxEnd h" "ucHeap (set_next p n h) = ucHeap h"
  "xMinimumEverFreeBytesRemaining (set_next p n h) = xMinimumEverFreeBytesRemaining h"
  "xFreeBytesRemaining (set_next p n h) = xFreeBytesRemaining h" "xBlockAllocatedBit (set_next p n h) = xBlockAllocatedBit h"
  by (simp_all add: set_next_def)

lemma set_size_simps [simp]:
  "size_of (set_size p n h) q = (if q = p then n else size_of h q)" "next_of (set_size p n h) q = next_of h q"
  "xStart (set_size p n h) = xStart h" "pxEnd (set_size p n h) = pxEnd h" "ucHeap (set_size p n h) = ucHeap h"
  "xMinimumEverFreeBytesRemaining (set_size p n h) = xMinimumEverFreeBytesRemaining h"
  "xFreeBytesRemaining (set_size p n h) = xFreeBytesRemaining h" "xBlockAllocatedBit (set_size p n h) = xBlockAllocatedBit h"
  by (simp_all add: set_size_def)

text \<open>
  The header of a block is at its address. A chain follows the links from \<open>p\<close> through the headers of
  free blocks, whose sizes it knows, up to \<open>e\<close>.
\<close>

abbreviation at :: "nat \<Rightarrow> addr" where "at a \<equiv> of_nat a"

fun chain :: "heap4 \<Rightarrow> addr \<Rightarrow> (nat \<times> nat) list \<Rightarrow> addr \<Rightarrow> bool" where
  "chain h p [] e \<longleftrightarrow> next_of h p = e"
| "chain h p ((a, n) # fs) e \<longleftrightarrow> next_of h p = at a \<and> size_of h (at a) = of_nat n \<and> chain h (at a) fs e"

lemma chain_append:
  "chain h p (fs @ (a, n) # gs) e \<longleftrightarrow> chain h p fs (at a) \<and> size_of h (at a) = of_nat n \<and> chain h (at a) gs e"
  by (induction h p fs e rule: chain.induct) auto

lemma chain_cong:
  "next_of h' p = next_of h p \<Longrightarrow> \<forall>b\<in>set fs. hp_link h' (at (fst b)) = hp_link h (at (fst b)) \<Longrightarrow> chain h' p fs e = chain h p fs e"
  by (induction h p fs e rule: chain.induct) auto

lemma at_eq_iff: "a < 2 ^ 32 \<Longrightarrow> b < 2 ^ 32 \<Longrightarrow> (at a = at b) = (a = b)"
  unfolding word_unat_eq_iff [where 'a = 32] by (simp add: unat_of_nat_u32)

lemma at_less_iff: "a < 2 ^ 32 \<Longrightarrow> b < 2 ^ 32 \<Longrightarrow> (at a < at b) = (a < b)"
  by (simp add: word_less_nat_alt unat_of_nat_u32)

text \<open>Blocks in the order of their addresses, before the end of the heap.\<close>

fun blocks_below :: "nat \<Rightarrow> (nat \<times> nat) list \<Rightarrow> nat \<Rightarrow> bool" where
  "blocks_below lo [] e \<longleftrightarrow> lo \<le> e"
| "blocks_below lo ((a, n) # fs) e \<longleftrightarrow> lo \<le> a \<and> 0 < n \<and> blocks_below (a + n) fs e"

lemma blocks_below_bounds:
  "blocks_below lo fs e \<Longrightarrow> lo \<le> e" "blocks_below lo fs e \<Longrightarrow> (a, n) \<in> set fs \<Longrightarrow> lo \<le> a \<and> 0 < n \<and> a + n \<le> e"
  by (induction lo fs e rule: blocks_below.induct) auto

lemma blocks_below_mono: "blocks_below lo fs e \<Longrightarrow> lo' \<le> lo \<Longrightarrow> e \<le> e' \<Longrightarrow> blocks_below lo' fs e'"
  by (induction lo fs e arbitrary: lo' rule: blocks_below.induct) auto

lemma blocks_below_append:
  "blocks_below lo (fs @ (a, n) # gs) e \<longleftrightarrow> blocks_below lo fs a \<and> 0 < n \<and> blocks_below (a + n) gs e"
  by (induction lo fs e rule: blocks_below.induct) auto

lemma distinct_blocks: "blocks_below lo fs e \<Longrightarrow> e < 2 ^ 32 \<Longrightarrow> distinct (map (at \<circ> fst) fs @ [at e])"
proof (induction lo fs e rule: blocks_below.induct)
  case (2 lo a n fs e)
  have "at a \<noteq> at (fst b)" if "b \<in> set fs" for b
    using 2 that blocks_below_bounds(2) [of "a + n" fs e "fst b" "snd b"] by (auto simp: at_eq_iff)
  then have "at a \<notin> (\<lambda>b. at (fst b)) ` set fs" by blast
  moreover have "at a \<noteq> at e" using 2 blocks_below_bounds(1) [of "a + n" fs e] by (auto simp: at_eq_iff)
  ultimately show ?case using 2 by (auto simp del: of_nat_add)
qed simp

section \<open>Inserting a block\<close>

text \<open>The loop stops at the last block in front of the new one.\<close>

definition last_block :: "addr \<Rightarrow> (nat \<times> nat) list \<Rightarrow> addr" where
  "last_block p fs = (if fs = [] then p else at (fst (last fs)))"

lemma last_block_simps [simp]: "last_block p [] = p" "last_block p (fs @ [(a, n)]) = at a"
  by (simp_all add: last_block_def)

lemma position_found:
  "chain h p fs e \<Longrightarrow> \<forall>(b, k)\<in>set fs. at b < x \<Longrightarrow> \<not> e < x \<Longrightarrow> insert_position h x p = Some (last_block p fs)"
proof (induction h p fs e rule: chain.induct)
  case (2 h p b k fs e)
  then show ?case by (subst insert_position.simps) (auto simp: last_block_def)
qed (subst insert_position.simps, simp)

text \<open>The list with a new block between \<open>fs\<close> and \<open>gs\<close>, joined with its neighbours.\<close>

fun join_right :: "nat \<times> nat \<Rightarrow> (nat \<times> nat) list \<Rightarrow> (nat \<times> nat) list" where
  "join_right (a, n) [] = [(a, n)]"
| "join_right (a, n) ((c, j) # gs) = (if a + n = c then (a, n + j) # gs else (a, n) # (c, j) # gs)"

definition join :: "(nat \<times> nat) list \<Rightarrow> nat \<times> nat \<Rightarrow> (nat \<times> nat) list \<Rightarrow> (nat \<times> nat) list" where
  "join fs b gs =
     (if fs \<noteq> [] \<and> fst (last fs) + snd (last fs) = fst b
      then butlast fs @ join_right (fst (last fs), snd (last fs) + snd b) gs else fs @ join_right b gs)"

text \<open>Only the headers of \<open>A\<close> change.\<close>

definition changes :: "heap4 \<Rightarrow> heap4 \<Rightarrow> addr set \<Rightarrow> bool" where
  "changes h h' A \<longleftrightarrow> (\<exists>l. h' = h\<lparr>hp_link := l\<rparr>) \<and> (\<forall>q. q \<notin> A \<longrightarrow> hp_link h' q = hp_link h q)"

lemma changes_set [intro]:
  "changes h h' A \<Longrightarrow> p \<in> A \<Longrightarrow> changes h (set_next p n h') A" "changes h h' A \<Longrightarrow> p \<in> A \<Longrightarrow> changes h (set_size p n h') A"
  "changes h h A"
  by (auto simp: changes_def set_next_def set_size_def intro: exI [of _ "hp_link h"])

text \<open>The second half of the function: the block \<open>b\<close> is linked to what follows \<open>it\<close>.\<close>

definition link_right :: "addr \<Rightarrow> addr \<Rightarrow> heap4 \<Rightarrow> heap4" where
  "link_right it b h =
     (if b + size_of h b = next_of h it then
        if next_of h it \<noteq> pxEnd h
        then (let h = set_size b (size_of h b + size_of h (next_of h it)) h in set_next b (next_of h (next_of h it)) h)
        else set_next b (pxEnd h) h
      else set_next b (next_of h it) h)"

lemma link_right_chain:
  assumes "chain h it gs (at e)" "size_of h (at a) = of_nat n" "blocks_below (a + n) gs e" "pxEnd h = at e" "e < 2 ^ 32" "0 < n"
  shows "\<exists>n' gs'. join_right (a, n) gs = (a, n') # gs' \<and> size_of (link_right it (at a) h) (at a) = of_nat n' \<and>
    chain (link_right it (at a) h) (at a) gs' (at e)"
proof (cases gs)
  case Nil
  then show ?thesis using assms by (auto simp: link_right_def)
next
  case (Cons g gs')
  obtain c j where g: "g = (c, j)" by force
  have le: "a + n \<le> c" "c + j \<le> e" "0 < j" using assms(3) Cons g blocks_below_bounds(1) by auto
  have "distinct (map (at \<circ> fst) ((a, n) # gs) @ [at e])"
    by (rule distinct_blocks [where lo = a]) (use assms in simp_all)
  then have d: "at a \<notin> (at \<circ> fst) ` set gs" "at a \<noteq> at e" "at c \<notin> (at \<circ> fst) ` set gs'" "at c \<noteq> at e"
    using Cons g by (auto simp: image_comp)
  have eq: "(at a + of_nat n = (at c :: addr)) \<longleftrightarrow> a + n = c"
    using at_eq_iff [of "a + n" c] le assms(5) by simp
  have "\<forall>b\<in>set gs'. at (fst b) \<noteq> at a" using d(1) Cons by (force simp: image_iff)
  then have rest: "chain (set_next (at a) x (set_size (at a) y h)) (at c) gs' (at e)" for x y
    by (subst chain_cong [where h = h]) (use assms(1) Cons g d in \<open>auto simp: set_next_def set_size_def\<close>)
  show ?thesis
  proof (cases "a + n = c")
    case True
    then have "link_right it (at a) h = set_next (at a) (next_of h (at c)) (set_size (at a) (of_nat (n + j)) h)"
      using assms(1,2,4) Cons g d(4) eq by (simp add: link_right_def Let_def)
    moreover have "chain (set_next (at a) x (set_size (at a) y h)) (at a) gs' (at e)" if "x = next_of h (at c)" for x y
      using rest [of x y] d Cons g that by (cases gs') auto
    ultimately show ?thesis using Cons g True by (auto simp: image_iff)
  next
    case False
    then have "link_right it (at a) h = set_next (at a) (at c) h"
      using assms(1,2,4) Cons g eq by (simp add: link_right_def Let_def)
    moreover have "chain (set_next (at a) (at c) h) (at c) gs' (at e)"
      using rest [of "at c" "size_of h (at a)"] by (simp add: set_size_def)
    ultimately show ?thesis using Cons g assms(1,2) False d by (auto simp: image_iff)
  qed
qed

lemma link_right_changes: "changes h h0 A \<Longrightarrow> b \<in> A \<Longrightarrow> changes h (link_right it b h0) A"
  by (auto simp: link_right_def Let_def)

lemma link_right_simps [simp]: "p \<noteq> b \<Longrightarrow> hp_link (link_right it b h) p = hp_link h p"
  by (simp add: link_right_def Let_def set_next_def set_size_def)

lemma prvInsert_unfold:
  "prvInsertBlockIntoFreeList pxBlockToInsert h =
     (case insert_position h pxBlockToInsert (xStart h) of
        None \<Rightarrow> None
      | Some it \<Rightarrow>
          (let (b, h) = (if it + size_of h it = pxBlockToInsert then (it, set_size it (size_of h it + size_of h pxBlockToInsert) h)
                         else (pxBlockToInsert, h)) in
           Some (if it \<noteq> b then set_next it b (link_right it b h) else link_right it b h)))"
  unfolding prvInsertBlockIntoFreeList_def link_right_def by (simp add: Let_def split: option.split)

lemma chain_split:
  "chain h p (fs @ gs) e \<longleftrightarrow> chain h p fs (hd (map (at \<circ> fst) gs @ [e])) \<and> chain h (last_block p fs) gs e"
  by (induction fs arbitrary: p) (auto simp: last_block_def neq_Nil_conv, (cases gs; auto)+)

lemma join_right_tail: "join_right (a, n) gs = (a, n') # gs' \<Longrightarrow> set gs' \<subseteq> set gs"
  by (cases "((a, n), gs)" rule: join_right.cases) (auto split: if_splits)

text \<open>What is needed of the list of free blocks and of the block that is inserted between \<open>fs\<close> and \<open>gs\<close>.\<close>

definition insertable :: "heap4 \<Rightarrow> (nat \<times> nat) list \<Rightarrow> nat \<times> nat \<Rightarrow> (nat \<times> nat) list \<Rightarrow> nat \<Rightarrow> nat \<Rightarrow> bool" where
  "insertable h fs b gs lo e \<longleftrightarrow> chain h (xStart h) (fs @ gs) (at e) \<and> size_of h (at (fst b)) = of_nat (snd b) \<and> pxEnd h = at e \<and>
     e < 2 ^ 32 \<and> blocks_below lo (fs @ b # gs) e \<and> size_of h (xStart h) = 0 \<and> (\<forall>c. lo \<le> c \<and> c \<le> e \<longrightarrow> xStart h \<noteq> at c)"

lemma insertable_facts:
  assumes "insertable h fs (a, n) gs lo e"
  shows "lo \<le> a" "a + n \<le> e" "0 < n" "blocks_below (a + n) gs e" "(b, k) \<in> set fs \<Longrightarrow> b + k \<le> a"
    "distinct (map (at \<circ> fst) (fs @ (a, n) # gs))" "(b, k) \<in> set (fs @ (a, n) # gs) \<Longrightarrow> xStart h \<noteq> at b"
proof -
  have b: "blocks_below lo fs a" "0 < n" "blocks_below (a + n) gs e" "blocks_below lo (fs @ (a, n) # gs) e"
    using assms by (simp_all add: insertable_def blocks_below_append)
  then show le: "lo \<le> a" "a + n \<le> e" "0 < n" "blocks_below (a + n) gs e" using blocks_below_bounds(1) by blast+
  show "(b, k) \<in> set fs \<Longrightarrow> b + k \<le> a" using blocks_below_bounds(2) [OF b(1)] by blast
  show "distinct (map (at \<circ> fst) (fs @ (a, n) # gs))"
    using distinct_blocks [OF b(4)] assms by (simp add: insertable_def)
  assume "(b, k) \<in> set (fs @ (a, n) # gs)"
  then show "xStart h \<noteq> at b" using blocks_below_bounds(2) [OF b(4)] assms unfolding insertable_def by (metis add_leD1)
qed

lemma insert_position_spec:
  assumes "insertable h fs (a, n) gs lo e"
  shows "insert_position h (at a) (xStart h) = Some (last_block (xStart h) fs)"
proof (rule position_found)
  note f = insertable_facts [OF assms]
  have e: "e < 2 ^ 32" "chain h (xStart h) (fs @ gs) (at e)" using assms by (simp_all add: insertable_def)
  show "chain h (xStart h) fs (hd (map (at \<circ> fst) gs @ [at e]))" using e(2) by (simp add: chain_split)
  have "blocks_below lo (fs @ (a, n) # gs) e" using assms by (simp add: insertable_def)
  then have "b < a" if "(b, k) \<in> set fs" for b k
    using blocks_below_bounds(2) [of lo fs a b k] f(5) [OF that] that by (auto simp: blocks_below_append)
  then show "\<forall>(b, k)\<in>set fs. at b < at a" using f(1,2) e(1) by (fastforce simp: at_less_iff)
  show "\<not> hd (map (at \<circ> fst) gs @ [at e]) < at a"
  proof (cases gs)
    case Nil
    then show ?thesis using f(2) e(1) by (simp add: at_less_iff)
  next
    case (Cons g gs')
    then have "a + n \<le> fst g \<and> fst g \<le> e" using blocks_below_bounds(2) [OF f(4), of "fst g" "snd g"] by auto
    then show ?thesis using Cons e(1) by (simp add: at_less_iff)
  qed
qed

text \<open>The result of the function, joined with the block in front or not.\<close>

definition inserted :: "heap4 \<Rightarrow> (nat \<times> nat) list \<Rightarrow> nat \<times> nat \<Rightarrow> (nat \<times> nat) list \<Rightarrow> nat \<Rightarrow> heap4 \<Rightarrow> bool" where
  "inserted h fs b gs e h' \<longleftrightarrow> chain h' (xStart h) (join fs b gs) (at e) \<and>
     changes h h' (insert (xStart h) ((at \<circ> fst) ` set (fs @ b # gs))) \<and> size_of h' (xStart h) = 0"

lemma insert_joined:
  assumes "insertable h (fs @ [(b, k)]) (a, n) gs lo e" "b + k = a"
  shows "inserted h (fs @ [(b, k)]) (a, n) gs e (link_right (at b) (at b) (set_size (at b) (of_nat (k + n)) h))"
    (is "inserted _ _ _ _ _ (link_right _ _ ?h)")
proof -
  let ?h' = "link_right (at b) (at b) ?h"
  note f = insertable_facts [OF assms(1)]
  have ch: "chain h (xStart h) fs (at b)" "chain h (at b) gs (at e)"
    and e: "pxEnd h = at e" "e < 2 ^ 32" "size_of h (xStart h) = 0" "xStart h \<noteq> at b"
    using assms(1) f(7) [of b k] by (simp_all add: insertable_def chain_append)
  have new: "\<forall>c\<in>set fs \<union> set gs. at (fst c) \<noteq> at b" using f(6) by (force simp: image_iff)
  have "chain ?h (at b) gs (at e)" using ch(2) new by (subst chain_cong [where h = h]) (auto simp: set_size_def)
  then obtain n' gs' where r: "join_right (b, k + n) gs = (b, n') # gs'" "size_of ?h' (at b) = of_nat n'" "chain ?h' (at b) gs' (at e)"
    using link_right_chain [of ?h "at b" gs e b "k + n"] f(3,4) e assms(2) by (auto simp: ac_simps)
  have "chain ?h' (xStart h) fs (at b)" using ch(1) new e(4) by (subst chain_cong [where h = h]) (auto simp: set_size_def)
  moreover have "changes h ?h' (insert (xStart h) ((at \<circ> fst) ` set ((fs @ [(b, k)]) @ (a, n) # gs)))"
    by (intro link_right_changes changes_set) auto
  ultimately show ?thesis using r e assms(2) by (simp add: inserted_def join_def chain_append)
qed

lemma insert_separate:
  assumes "insertable h fs (a, n) gs lo e" "fs \<noteq> [] \<Longrightarrow> fst (last fs) + snd (last fs) \<noteq> a"
  shows "inserted h fs (a, n) gs e (set_next (last_block (xStart h) fs) (at a) (link_right (last_block (xStart h) fs) (at a) h))"
    (is "inserted _ _ _ _ _ (set_next ?it _ _)")
proof -
  let ?h = "link_right ?it (at a) h"
  let ?h' = "set_next ?it (at a) ?h"
  note f = insertable_facts [OF assms(1)]
  have ch: "chain h (xStart h) fs (hd (map (at \<circ> fst) gs @ [at e]))" "chain h ?it gs (at e)"
    and e: "pxEnd h = at e" "e < 2 ^ 32" "size_of h (xStart h) = 0" "size_of h (at a) = of_nat n"
    using assms(1) by (simp_all add: insertable_def chain_split)
  have it: "\<forall>c\<in>set ((a, n) # gs). ?it \<noteq> at (fst c)"
    using f(6,7) by (cases fs rule: rev_cases) (force simp: image_iff last_block_def)+
  obtain n' gs' where r: "join_right (a, n) gs = (a, n') # gs'" "size_of ?h (at a) = of_nat n'" "chain ?h (at a) gs' (at e)"
    using link_right_chain [of h ?it gs e a n] f(3,4) e ch(2) by auto
  have "\<forall>c\<in>set ((a, n) # gs'). at (fst c) \<noteq> ?it" using it join_right_tail [OF r(1)] by fastforce
  then have "chain ?h' (at a) gs' (at e)"
    using r(3) by (subst chain_cong [where h = ?h]) (auto simp: set_next_def)
  moreover have "chain ?h' (xStart h) fs (at a)"
  proof (cases fs rule: rev_cases)
    case (snoc fs' x)
    obtain b k where x: "x = (b, k)" by force
    have new: "\<forall>c\<in>set fs'. at (fst c) \<noteq> at b \<and> at (fst c) \<noteq> at a" using f(6) snoc x by (force simp: image_iff)
    have "chain h (xStart h) fs' (at b)" "size_of h (at b) = of_nat k" "at b \<noteq> at a" "xStart h \<noteq> at b" "xStart h \<noteq> at a"
      using ch(1) snoc x it f(7) [of b k] f(7) [of a n] by (auto simp: chain_append)
    moreover from this have "chain ?h' (xStart h) fs' (at b)"
      using new snoc x by (subst chain_cong [where h = h]) (auto simp: set_next_def)
    ultimately have "chain ?h' (xStart h) fs' (at b)" "size_of ?h' (at b) = of_nat k" "next_of ?h' (at b) = at a"
      using snoc x by simp_all
    then show ?thesis using snoc x by (simp add: chain_append)
  qed simp
  moreover have "changes h ?h' (insert (xStart h) ((at \<circ> fst) ` set (fs @ (a, n) # gs)))"
    by (intro link_right_changes changes_set) (auto simp: last_block_def)
  moreover have "xStart h \<noteq> at a" using f(7) [of a n] by simp
  ultimately show ?thesis using r e assms(2) it by (auto simp: inserted_def join_def chain_append)
qed

lemma insert_spec:
  assumes "insertable h fs (a, n) gs lo e"
  shows "\<exists>h'. prvInsertBlockIntoFreeList (at a) h = Some h' \<and> inserted h fs (a, n) gs e h'"
proof -
  note f = insertable_facts [OF assms] and pos = insert_position_spec [OF assms]
  have e: "e < 2 ^ 32" "size_of h (xStart h) = 0" "size_of h (at a) = of_nat n" "xStart h \<noteq> at a"
    using assms f(7) [of a n] by (simp_all add: insertable_def)
  show ?thesis
  proof (cases "fs \<noteq> [] \<and> fst (last fs) + snd (last fs) = a")
    case True
    then obtain fs' b k where fs: "fs = fs' @ [(b, k)]" "b + k = a" by (cases fs rule: rev_cases) auto
    have "size_of h (at b) = of_nat k" using assms fs by (simp add: insertable_def chain_append)
    then show ?thesis using insert_joined [of h fs' b k a n gs lo e] assms fs pos e
      by (auto simp: prvInsert_unfold simp flip: of_nat_add)
  next
    case False
    have "last_block (xStart h) fs + size_of h (last_block (xStart h) fs) \<noteq> at a \<and> last_block (xStart h) fs \<noteq> at a"
    proof (cases fs rule: rev_cases)
      case (snoc fs' x)
      then have "size_of h (at (fst x)) = of_nat (snd x)" using assms by (cases x) (simp add: insertable_def chain_append)
      moreover have "fst x + snd x \<le> a" using f(5) [of "fst x" "snd x"] snoc by simp
      moreover have "at (fst x) \<noteq> at a" using f(6) snoc by (simp add: image_iff)
      ultimately show ?thesis using False snoc f(2) e(1) at_eq_iff [of "fst x + snd x" a] by (cases x) simp
    qed (use e in simp)
    then show ?thesis using insert_separate [OF assms] False pos by (auto simp: prvInsert_unfold)
  qed
qed

end
