(* ===== verification/HeapBlocks.thy ===== *)
theory HeapBlocks
  imports Heap4
begin

text \<open>
  The promise of the heap: a row of blocks, free and used, that fills the heap without gaps and has no two
  free neighbours. A request takes the first free block that is big enough, and a block that is
  given back becomes one with its free neighbours. \<open>heap_rep\<close> relates the headers in memory to such a row, and
  the theorems show that \<open>pvPortMalloc\<close> and \<open>vPortFree\<close> do to the headers what the promise says about the row.
\<close>

unbundle bit_operations_syntax

section \<open>Rows of blocks\<close>

text \<open>The address of the header, the size with the header, and whether the block is used.\<close>

type_synonym tile = "nat \<times> nat \<times> bool"

fun tiles :: "nat \<Rightarrow> tile list \<Rightarrow> nat \<Rightarrow> bool" where
  "tiles a [] e \<longleftrightarrow> a = e"
| "tiles a ((b, n, u) # bs) e \<longleftrightarrow> b = a \<and> 0 < n \<and> 8 dvd n \<and> tiles (a + n) bs e"

fun coalesce :: "tile list \<Rightarrow> tile list" where
  "coalesce ((a, n, u) # (b, m, v) # bs) =
     (if u \<or> v then (a, n, u) # coalesce ((b, m, v) # bs) else coalesce ((a, n + m, False) # bs))"
| "coalesce bs = bs"

definition coalesced :: "tile list \<Rightarrow> bool" where
  "coalesced = successively (\<lambda>(_, _, u) (_, _, v). u \<or> v)"

definition tile_free :: "nat \<Rightarrow> tile list \<Rightarrow> tile list" where
  "tile_free a bs = coalesce (map (\<lambda>(b, n, u). (b, n, u \<and> b \<noteq> a)) bs)"

text \<open>The rest of a block becomes a free block if it is bigger than 16 bytes.\<close>

fun tile_alloc :: "nat \<Rightarrow> tile list \<Rightarrow> (nat \<times> tile list) option" where
  "tile_alloc w [] = None"
| "tile_alloc w ((a, n, u) # bs) =
     (if \<not> u \<and> w \<le> n
      then Some (a, if n - w > 16 then (a, w, True) # (a + w, n - w, False) # bs else (a, n, True) # bs)
      else map_option (\<lambda>(b, bs'). (b, (a, n, u) # bs')) (tile_alloc w bs))"

definition frees :: "tile list \<Rightarrow> (nat \<times> nat) list" where
  "frees bs = map (\<lambda>(a, n, u). (a, n)) (filter (\<lambda>(a, n, u). \<not> u) bs)"

definition useds :: "tile list \<Rightarrow> (nat \<times> nat) list" where
  "useds bs = map (\<lambda>(a, n, u). (a, n)) (filter (\<lambda>(a, n, u). u) bs)"

lemma row_simps [simp]:
  "frees [] = []" "frees ((a, n, u) # bs) = (if u then frees bs else (a, n) # frees bs)" "frees (xs @ ys) = frees xs @ frees ys"
  "useds [] = []" "useds ((a, n, u) # bs) = (if u then (a, n) # useds bs else useds bs)" "useds (xs @ ys) = useds xs @ useds ys"
  by (simp_all add: frees_def useds_def)

lemma coalesced_simps [simp]:
  "coalesced []" "coalesced [x]" "coalesced ((a, n, u) # (b, m, v) # bs) \<longleftrightarrow> (u \<or> v) \<and> coalesced ((b, m, v) # bs)"
  by (simp_all add: coalesced_def)

lemma coalesced_append: "coalesced (xs @ (a, n, u) # ys) \<longleftrightarrow> coalesced (xs @ [(a, n, u)]) \<and> coalesced ((a, n, u) # ys)"
  unfolding coalesced_def by (cases ys) (auto simp: successively_append_iff)

lemma tiles_append: "tiles lo (xs @ (a, n, u) # ys) e \<longleftrightarrow> tiles lo xs a \<and> 0 < n \<and> 8 dvd n \<and> tiles (a + n) ys e"
  by (induction lo xs e rule: tiles.induct) auto

lemma tiles_blocks: "tiles lo bs e \<Longrightarrow> blocks_below lo (map (\<lambda>(a, n, u). (a, n)) bs) e"
  by (induction lo bs e rule: tiles.induct) auto

lemma tiles_frees: "tiles lo bs e \<Longrightarrow> blocks_below lo (frees bs) e"
proof (induction lo bs e rule: tiles.induct)
  case (2 a b n u bs e)
  then have "blocks_below (a + n) (frees bs) e" by simp
  then show ?case using 2 blocks_below_mono [of "a + n" "frees bs" e a e] by auto
qed simp

lemma tiles_bounds: "tiles lo bs e \<Longrightarrow> (a, n, u) \<in> set bs \<Longrightarrow> lo \<le> a \<and> 0 < n \<and> a + n \<le> e"
  using blocks_below_bounds(2) [OF tiles_blocks, of lo bs e a n] by force

lemma tiles_le: "tiles lo bs e \<Longrightarrow> lo \<le> e"
  using blocks_below_bounds(1) [OF tiles_blocks] by blast

lemma tiles_aligned: "tiles lo bs e \<Longrightarrow> 8 dvd lo \<Longrightarrow> (a, n, u) \<in> set bs \<Longrightarrow> 8 dvd a \<and> 8 dvd n"
  by (induction lo bs e rule: tiles.induct) (auto simp: dvd_add)

lemma tiles_distinct: "tiles lo bs e \<Longrightarrow> e < 2 ^ 32 \<Longrightarrow> distinct (map (at \<circ> fst) bs @ [at e])"
  using distinct_blocks [OF tiles_blocks, of lo bs e] by (simp add: comp_def case_prod_unfold)

lemma tiles_coalesce: "tiles lo bs e \<Longrightarrow> tiles lo (coalesce bs) e"
  by (induction bs arbitrary: lo rule: coalesce.induct) (auto simp: add.assoc dvd_add)

lemma coalesce_head: "\<exists>n' bs'. coalesce ((a, n, u) # bs) = (a, n', u) # bs'"
  by (induction bs arbitrary: a n u) auto

lemma coalesced_coalesce: "coalesced (coalesce bs)"
proof (induction bs rule: coalesce.induct)
  case (1 a n u b m v bs)
  obtain m' bs' where "coalesce ((b, m, v) # bs) = (b, m', v) # bs'" using coalesce_head by blast
  then show ?case using 1 by auto
qed simp_all

lemma coalesce_id: "coalesced bs \<Longrightarrow> coalesce bs = bs"
  by (induction bs rule: coalesce.induct) auto

lemma useds_coalesce: "useds (coalesce bs) = useds bs"
  by (induction bs rule: coalesce.induct) auto

lemma coalesce_append: "coalesced (xs @ [(c, k, True)]) \<Longrightarrow> coalesce (xs @ (c, k, True) # zs) = xs @ coalesce ((c, k, True) # zs)"
proof (induction xs)
  case (Cons x xs)
  then show ?case by (cases xs) (auto simp: coalesced_def)
qed simp

text \<open>Joining a block with its neighbours is the same for the row and for its free blocks.\<close>

lemma frees_coalesce_right:
  assumes "tiles a ((a, n, False) # ys) e" "coalesced ys"
  shows "frees (coalesce ((a, n, False) # ys)) = join_right (a, n) (frees ys)"
proof (cases ys)
  case (Cons y ys')
  obtain c j u where y: "y = (c, j, u)" by (cases y)
  have c: "c = a + n" "tiles (c + j) ys' e" "0 < j" using assms Cons y by auto
  show ?thesis
  proof (cases u)
    case True
    have "c + j \<le> fst f" if "f \<in> set (frees ys')" for f using blocks_below_bounds(2) [OF tiles_frees [OF c(2)], of "fst f" "snd f"] that by simp
    then have "join_right (a, n) (frees ys') = (a, n) # frees ys'" using c by (cases "frees ys'") fastforce+
    then show ?thesis using Cons y True assms(2) by (simp add: coalesce_id)
  next
    case False
    have "coalesced ((a, n + j, False) # ys')" using assms(2) Cons y False by (cases ys') auto
    then show ?thesis using Cons y False c by (simp add: coalesce_id)
  qed
qed simp

lemma frees_coalesce:
  assumes "tiles lo (xs @ (a, n, False) # ys) e" "coalesced xs" "coalesced ys"
  shows "frees (coalesce (xs @ (a, n, False) # ys)) = join (frees xs) (a, n) (frees ys)"
proof (cases xs rule: rev_cases)
  case Nil
  then show ?thesis using frees_coalesce_right [of a n ys e] assms by (auto simp: join_def)
next
  case (snoc zs z)
  obtain b k u where z: "z = (b, k, u)" by (cases z)
  have t: "tiles lo zs b" "b + k = a" "0 < k" "8 dvd k" "tiles a ((a, n, False) # ys) e"
    using assms(1) snoc z by (auto simp: tiles_append)
  show ?thesis
  proof (cases u)
    case True
    have "c + j \<le> b" if "(c, j) \<in> set (frees zs)" for c j using blocks_below_bounds(2) [OF tiles_frees [OF t(1)] that] by simp
    then have "frees zs \<noteq> [] \<Longrightarrow> fst (last (frees zs)) + snd (last (frees zs)) < a"
      using t(2,3) by (metis last_in_set prod.collapse less_add_same_cancel1 le_less_trans)
    then have "join (frees xs) (a, n) (frees ys) = frees zs @ join_right (a, n) (frees ys)"
      using snoc z True by (auto simp: join_def)
    then show ?thesis using coalesce_append [of zs b k "(a, n, False) # ys"] frees_coalesce_right [OF t(5) assms(3)] assms(2) snoc z True
      by simp
  next
    case False
    have "coalesce (zs @ (b, k, False) # (a, n, False) # ys) = zs @ coalesce ((b, k + n, False) # ys)"
    proof (cases zs rule: rev_cases)
      case (snoc ws w)
      obtain c j v where w: "w = (c, j, v)" by (cases w)
      then have "v" "coalesced (ws @ [(c, j, True)])" using assms(2) \<open>xs = zs @ [z]\<close> z False snoc coalesced_append [of ws c j v "[z]"] by auto
      then show ?thesis using coalesce_append [of ws c j] snoc w by simp
    qed simp
    moreover have "tiles b ((b, k + n, False) # ys) e" using t by (auto simp: ac_simps)
    ultimately show ?thesis using frees_coalesce_right [of b "k + n" ys e] assms(3) snoc z False t(2) by (simp add: join_def)
  qed
qed

section \<open>The memory of a row\<close>

text \<open>The bit that marks a used block. It is the top bit of a size.\<close>

definition owner_bit :: u32 where "owner_bit = push_bit 31 1"

definition heap_place :: "heap4 \<Rightarrow> nat \<Rightarrow> nat \<Rightarrow> bool" where
  "heap_place h lo e \<longleftrightarrow> pxEnd h = at e \<and> 0 < lo \<and> 8 dvd lo \<and> e < 2 ^ 32 \<and> e - lo < 2 ^ 31 \<and>
     (\<forall>c. lo \<le> c \<and> c \<le> e \<longrightarrow> xStart h \<noteq> at c) \<and> xBlockAllocatedBit h = owner_bit"

definition free_bytes :: "tile list \<Rightarrow> nat" where
  "free_bytes bs = sum_list (map snd (frees bs))"

definition heap_rep :: "heap4 \<Rightarrow> nat \<Rightarrow> nat \<Rightarrow> tile list \<Rightarrow> bool" where
  "heap_rep h lo e bs \<longleftrightarrow> heap_place h lo e \<and> tiles lo bs e \<and> coalesced bs \<and> chain h (xStart h) (frees bs) (at e) \<and>
     size_of h (xStart h) = 0 \<and> hp_link h (at e) = \<lparr>pxNextFreeBlock = 0, xBlockSize = 0\<rparr> \<and>
     (\<forall>b\<in>set (useds bs). hp_link h (at (fst b)) = \<lparr>pxNextFreeBlock = 0, xBlockSize = of_nat (snd b) OR owner_bit\<rparr>) \<and>
     xFreeBytesRemaining h = of_nat (free_bytes bs) \<and> xMinimumEverFreeBytesRemaining h \<le> xFreeBytesRemaining h"

lemma set_frees: "(a, n) \<in> set (frees bs) \<longleftrightarrow> (a, n, False) \<in> set bs"
  by (induction bs) (auto split: if_splits)

lemma set_useds: "(a, n) \<in> set (useds bs) \<longleftrightarrow> (a, n, True) \<in> set bs"
  by (induction bs) (auto split: if_splits)

lemma free_bytes_append [simp]: "free_bytes (xs @ ys) = free_bytes xs + free_bytes ys"
  "free_bytes ((a, n, u) # bs) = (if u then 0 else n) + free_bytes bs" "free_bytes [] = 0"
  by (simp_all add: free_bytes_def)

lemma free_bytes_coalesce: "free_bytes (coalesce bs) = free_bytes bs"
  by (induction bs rule: coalesce.induct) auto

lemma free_bytes_bound: "tiles lo bs e \<Longrightarrow> free_bytes bs \<le> e - lo"
proof (induction lo bs e rule: tiles.induct)
  case (2 a b n u bs e)
  then show ?case using tiles_le [of "a + n" bs e] by auto
qed simp

text \<open>The headers that inserting a block changes are no headers of used blocks.\<close>

lemma place_distinct:
  assumes "heap_place h lo e" "tiles lo bs e"
  shows "(a, n, u) \<in> set bs \<Longrightarrow> at a \<noteq> at e" "(a, n, u) \<in> set bs \<Longrightarrow> xStart h \<noteq> at a"
    "(a, n, True) \<in> set bs \<Longrightarrow> (b, m, False) \<in> set bs \<Longrightarrow> at a \<noteq> at b" "xStart h \<noteq> at e"
    "bs = xs @ (a, n, u) # ys \<Longrightarrow> (b, m, v) \<in> set xs \<union> set ys \<Longrightarrow> at b \<noteq> at a"
    "(a, n, u) \<in> set bs \<Longrightarrow> lo \<le> a \<and> 0 < n \<and> n < 2 ^ 31 \<and> a + n \<le> e"
proof -
  have t: "e < 2 ^ 32" "\<forall>c. lo \<le> c \<and> c \<le> e \<longrightarrow> xStart h \<noteq> at c" "e - lo < 2 ^ 31"
    using assms by (simp_all add: heap_place_def)
  have le: "lo \<le> a \<and> a < e" if "(a, n, u) \<in> set bs" for a n u using tiles_bounds [OF assms(2) that] by simp
  show "(a, n, u) \<in> set bs \<Longrightarrow> at a \<noteq> at e" using le [of a n u] t(1) at_eq_iff [of a e] by simp
  show "(a, n, u) \<in> set bs \<Longrightarrow> xStart h \<noteq> at a" using le [of a n u] t(2) by simp
  show "(a, n, u) \<in> set bs \<Longrightarrow> lo \<le> a \<and> 0 < n \<and> n < 2 ^ 31 \<and> a + n \<le> e"
    using tiles_bounds [OF assms(2), of a n u] t(3) by linarith
  show "xStart h \<noteq> at e" using t(2) tiles_le [OF assms(2)] by simp
  have d: "distinct (map (at \<circ> fst) bs)" using tiles_distinct [OF assms(2) t(1)] by simp
  then show "bs = xs @ (a, n, u) # ys \<Longrightarrow> (b, m, v) \<in> set xs \<union> set ys \<Longrightarrow> at b \<noteq> at a" by (force simp: image_iff)
  show "at a \<noteq> at b" if "(a, n, True) \<in> set bs" "(b, m, False) \<in> set bs"
  proof
    assume "at a = at b"
    then have "(a, n, True) = (b, m, False)" using d that inj_onD [of "at \<circ> fst" "set bs" "(a, n, True)" "(b, m, False)"] by (simp add: distinct_map)
    then show False by simp
  qed
qed

text \<open>Putting a block into the list of free blocks joins the row.\<close>

lemma insert_rep:
  assumes "heap_place h lo e" "tiles lo (xs @ (a, n, False) # ys) e" "coalesced xs" "coalesced ys"
    and "chain h (xStart h) (frees (xs @ ys)) (at e)" "size_of h (at a) = of_nat n" "size_of h (xStart h) = 0"
    and "hp_link h (at e) = \<lparr>pxNextFreeBlock = 0, xBlockSize = 0\<rparr>"
  shows "\<exists>h'. prvInsertBlockIntoFreeList (at a) h = Some h' \<and>
    chain h' (xStart h) (frees (coalesce (xs @ (a, n, False) # ys))) (at e) \<and> size_of h' (xStart h) = 0 \<and>
    (\<exists>l. h' = h\<lparr>hp_link := l\<rparr>) \<and> (\<forall>b\<in>set (useds (xs @ ys)). hp_link h' (at (fst b)) = hp_link h (at (fst b))) \<and>
    hp_link h' (at e) = \<lparr>pxNextFreeBlock = 0, xBlockSize = 0\<rparr>"
proof -
  have "insertable h (frees xs) (a, n) (frees ys) lo e"
    using assms tiles_frees [OF assms(2)] by (simp add: insertable_def heap_place_def)
  then obtain h' where h': "prvInsertBlockIntoFreeList (at a) h = Some h'" "inserted h (frees xs) (a, n) (frees ys) e h'"
    using insert_spec by blast
  note d = place_distinct [OF assms(1,2)]
  have "hp_link h' (at c) = hp_link h (at c)" if "(c, k) \<in> set (useds (xs @ ys)) \<or> c = e" for c k
  proof -
    have "at c \<noteq> at b" if "(b, m) \<in> set (frees (xs @ (a, n, False) # ys))" for b m
      using d(1) [of b m False] d(3) [of c k b m] that \<open>(c, k) \<in> set (useds (xs @ ys)) \<or> c = e\<close> by (auto simp: set_frees set_useds)
    then have "at c \<notin> (at \<circ> fst) ` set (frees (xs @ (a, n, False) # ys))" by force
    moreover have "at c \<noteq> xStart h" using d(2) [of c k True] d(4) that by (auto simp: set_useds)
    ultimately show ?thesis using h'(2) by (simp add: inserted_def changes_def)
  qed
  then have "\<forall>b\<in>set (useds (xs @ ys)). hp_link h' (at (fst b)) = hp_link h (at (fst b))" "hp_link h' (at e) = hp_link h (at e)"
    by (metis prod.collapse)+
  then show ?thesis using h' frees_coalesce [OF assms(2,3,4)] assms(8) by (simp add: inserted_def changes_def)
qed

section \<open>Giving back a block\<close>

lemma bit_owner: "bit owner_bit i \<longleftrightarrow> i = 31"
  unfolding owner_bit_def bit_push_bit_iff by (cases "i < 32") (auto simp: bit_1_iff dest: bit_imp_le_length)

lemma word_bit31:
  assumes "n < 2 ^ 31"
  shows "(of_nat n OR owner_bit) AND owner_bit \<noteq> 0" "(of_nat n OR owner_bit) AND NOT owner_bit = of_nat n"
    "of_nat n AND owner_bit = 0"
proof -
  have "\<not> bit n 31" using assms by (simp add: bit_iff_odd)
  then have b: "\<not> bit (of_nat n :: u32) 31" by (simp add: bit_of_nat_iff)
  show "of_nat n AND owner_bit = 0" using b by (intro bit_word_eqI) (auto simp: bit_and_iff bit_owner)
  have "bit ((of_nat n OR owner_bit) AND owner_bit) 31" by (simp add: bit_and_iff bit_or_iff bit_owner)
  then show "(of_nat n OR owner_bit) AND owner_bit \<noteq> 0" by (metis bit_0_eq bot_apply bot_bool_def)
  show "(of_nat n OR owner_bit) AND NOT owner_bit = of_nat n"
    using b by (intro bit_word_eqI) (auto simp: bit_and_iff bit_or_iff bit_not_iff bit_owner)
qed

lemma heap_pointer: "(at (a + 8) :: addr) - xHeapStructSize = at a"
  by (simp add: heap_sizes)

lemma used_pointer:
  assumes "heap_place h lo e" "tiles lo bs e" "(a, n, u) \<in> set bs"
  shows "(at (a + 8) :: addr) \<noteq> 0" "a + 8 < 2 ^ 32"
proof -
  have "8 dvd n" "0 < n" "a + n \<le> e"
    using tiles_bounds [OF assms(2,3)] tiles_aligned [OF assms(2) _ assms(3)] assms(1) by (auto simp: heap_place_def)
  then have "a + 8 \<le> e" by (auto dest: dvd_imp_le)
  then show "a + 8 < 2 ^ 32" using assms(1) by (simp add: heap_place_def)
  then show "(at (a + 8) :: addr) \<noteq> 0" using at_eq_iff [of "a + 8" 0] by simp
qed

lemma tile_free_split:
  assumes "tiles lo (xs @ (a, n, u) # ys) e"
  shows "tile_free a (xs @ (a, n, u) # ys) = coalesce (xs @ (a, n, False) # ys)"
proof -
  have t: "tiles lo xs a" "tiles (a + n) ys e" "0 < n" using assms by (simp_all add: tiles_append)
  have "map (\<lambda>(b, n, u). (b, n, u \<and> b \<noteq> a)) xs = xs" "map (\<lambda>(b, n, u). (b, n, u \<and> b \<noteq> a)) ys = ys"
    using tiles_bounds [OF t(1)] tiles_bounds [OF t(2)] t(3) by (fastforce intro: map_idI)+
  then show ?thesis by (simp add: tile_free_def)
qed

lemma used_header:
  "heap_rep h lo e bs \<Longrightarrow> (a, n, True) \<in> set bs \<Longrightarrow> hp_link h (at a) = \<lparr>pxNextFreeBlock = 0, xBlockSize = of_nat n OR owner_bit\<rparr>"
  unfolding heap_rep_def set_useds [symmetric] by (metis fst_conv snd_conv)

lemma free_refines:
  assumes rep: "heap_rep h lo e bs" and used: "(a, n, True) \<in> set bs"
  shows "\<exists>h'. vPortFree (at (a + 8)) h = Some h' \<and> heap_rep h' lo e (tile_free a bs) \<and> pxEnd h' = pxEnd h"
proof -
  obtain xs ys where bs: "bs = xs @ (a, n, True) # ys" using used by (auto dest: split_list)
  have t: "tiles lo bs e" "coalesced bs" "chain h (xStart h) (frees bs) (at e)" "heap_place h lo e" "size_of h (xStart h) = 0"
    "hp_link h (at a) = \<lparr>pxNextFreeBlock = 0, xBlockSize = of_nat n OR owner_bit\<rparr>"
    "hp_link h (at e) = \<lparr>pxNextFreeBlock = 0, xBlockSize = 0\<rparr>" "xFreeBytesRemaining h = of_nat (free_bytes bs)"
    "xMinimumEverFreeBytesRemaining h \<le> xFreeBytesRemaining h"
    using rep used_header [OF rep used] by (auto simp: heap_rep_def)
  note d = place_distinct [OF t(4,1)]
  have n: "n < 2 ^ 31" "lo \<le> a" "a + n \<le> e" "0 < n" using d(6) [OF used] by auto
  have co: "coalesced xs" "coalesced ys" using t(2) bs by (auto simp: coalesced_def successively_append_iff successively_Cons)
  let ?h = "(set_size (at a) (of_nat n) h)\<lparr>xFreeBytesRemaining := xFreeBytesRemaining h + of_nat n\<rparr>"
  have place: "heap_place ?h lo e" using t(4) by (simp add: heap_place_def)
  have t': "tiles lo (xs @ (a, n, False) # ys) e" using t(1) bs by (simp add: tiles_append)
  have "\<forall>b\<in>set (frees (xs @ ys)). at (fst b) \<noteq> at a" using d(5) [OF bs] by (force simp: set_frees)
  then have "chain ?h (xStart ?h) (frees (xs @ ys)) (at e)"
    using t(3) bs d(2) [OF used] by (subst chain_cong [where h = h]) (auto simp: set_size_def)
  then obtain h' where h': "prvInsertBlockIntoFreeList (at a) ?h = Some h'" "size_of h' (xStart h) = 0"
      "chain h' (xStart h) (frees (tile_free a bs)) (at e)" "\<exists>l. h' = ?h\<lparr>hp_link := l\<rparr>"
      "\<forall>b\<in>set (useds (xs @ ys)). hp_link h' (at (fst b)) = hp_link ?h (at (fst b))"
      "hp_link h' (at e) = \<lparr>pxNextFreeBlock = 0, xBlockSize = 0\<rparr>"
    using insert_rep [OF place t' co] t(5,7) d(1,2) [OF used] tile_free_split [of lo xs a n True ys e] t(1) bs
    by (auto simp: set_size_def)
  then obtain l where l: "h' = ?h\<lparr>hp_link := l\<rparr>" by blast
  have "vPortFree (at (a + 8)) h = Some h'"
    using h'(1) t(4,6) word_bit31 [OF n(1)] used_pointer [OF t(4,1) used]
    unfolding vPortFree_def Let_def heap_pointer by (auto simp: heap_place_def set_size_def)
  moreover have "heap_rep h' lo e (tile_free a bs)"
  proof -
    have fb: "free_bytes (tile_free a bs) = free_bytes bs + n" "useds (tile_free a bs) = useds (xs @ ys)"
      "tiles lo (tile_free a bs) e" "coalesced (tile_free a bs)"
      using tile_free_split [of lo xs a n True ys e] t(1) bs
      by (simp_all add: free_bytes_coalesce useds_coalesce tiles_coalesce [OF t'] coalesced_coalesce)
    have "free_bytes bs + n \<le> e - lo" using free_bytes_bound [OF fb(3)] fb(1) by simp
    then have "free_bytes bs + n < 2 ^ 32" using t(4) by (simp add: heap_place_def)
    then have "(of_nat (free_bytes bs) :: u32) \<le> of_nat (free_bytes bs + n)"
      by (simp add: word_le_nat_alt unat_of_nat_u32 del: of_nat_add)
    then have "xMinimumEverFreeBytesRemaining h \<le> of_nat (free_bytes bs + n)" using t(8,9) by (metis order_trans)
    moreover have "hp_link h' (at (fst b)) = \<lparr>pxNextFreeBlock = 0, xBlockSize = of_nat (snd b) OR owner_bit\<rparr>"
      if "b \<in> set (useds (xs @ ys))" for b
    proof -
      have "(fst b, snd b, True) \<in> set xs \<union> set ys" using that set_useds [of "fst b" "snd b" "xs @ ys"] by simp
      then have "at (fst b) \<noteq> at a" "(fst b, snd b, True) \<in> set bs" using d(5) [OF bs] bs by auto
      then show ?thesis using h'(5) that used_header [OF rep, of "fst b" "snd b"] by (simp add: set_size_def)
    qed
    ultimately show ?thesis using h'(2,3,6) l fb t(4,8,9) by (auto simp: heap_rep_def heap_place_def)
  qed
  ultimately show ?thesis using l by auto
qed

section \<open>Taking a block\<close>

lemma find_none:
  assumes "chain h p fs (at e)" "size_of h (at e) = 0" "next_of h (at e) = 0" "0 < w" "w < 2 ^ 32" "(at e :: addr) \<noteq> 0"
    "\<forall>b\<in>set fs. snd b < w \<and> (at (fst b) :: addr) \<noteq> 0"
  shows "find_block h (of_nat w) p (next_of h p) = Some (last_block p fs, at e)"
  using assms
proof (induction fs arbitrary: p)
  case Nil
  then show ?case by (simp add: find_block.simps)
next
  case (Cons b fs)
  obtain a n where b: "b = (a, n)" by force
  have "next_of h (at a) \<noteq> 0" using Cons.prems b by (cases fs) auto
  moreover have "(of_nat n :: u32) < of_nat w" using Cons.prems b by (simp add: word_less_nat_alt unat_of_nat_u32)
  ultimately show ?case using Cons b by (subst find_block.simps) (auto simp: last_block_def)
qed

lemma find_some:
  assumes "chain h p (fs @ (a, n) # gs) (at e)" "w \<le> n" "n < 2 ^ 32" "\<forall>b\<in>set fs. snd b < w \<and> (at (fst b) :: addr) \<noteq> 0"
    "(at a :: addr) \<noteq> 0"
  shows "find_block h (of_nat w) p (next_of h p) = Some (last_block p fs, at a)"
  using assms
proof (induction fs arbitrary: p)
  case Nil
  then have "\<not> (of_nat n :: u32) < of_nat w" by (simp add: word_less_nat_alt unat_of_nat_u32)
  then show ?case using Nil by (simp add: find_block.simps)
next
  case (Cons b fs)
  obtain c k where b: "b = (c, k)" by force
  have "next_of h (at c) \<noteq> 0" using Cons.prems b by (cases fs) auto
  moreover have "(of_nat k :: u32) < of_nat w" using Cons.prems b by (simp add: word_less_nat_alt unat_of_nat_u32)
  ultimately show ?case using Cons b by (subst find_block.simps) (auto simp: last_block_def)
qed

text \<open>What is left of a block and the row after a request.\<close>

definition taken :: "nat \<Rightarrow> nat \<Rightarrow> nat \<Rightarrow> tile list" where
  "taken w a n = (if n - w > 16 then [(a, w, True), (a + w, n - w, False)] else [(a, n, True)])"

lemma tile_alloc_None: "tile_alloc w bs = None \<Longrightarrow> \<forall>b\<in>set (frees bs). snd b < w"
  by (induction w bs rule: tile_alloc.induct) (auto split: if_splits)

lemma tile_alloc_Some:
  "tile_alloc w bs = Some (a, bs') \<Longrightarrow>
     \<exists>xs n ys. bs = xs @ (a, n, False) # ys \<and> (\<forall>b\<in>set (frees xs). snd b < w) \<and> w \<le> n \<and> bs' = xs @ taken w a n @ ys"
proof (induction w bs arbitrary: bs' rule: tile_alloc.induct)
  case (2 w c n u bs)
  show ?case
  proof (cases "\<not> u \<and> w \<le> n")
    case True
    then have "a = c" "bs' = taken w a n @ bs" using 2(2) by (auto simp: taken_def split: if_splits)
    then show ?thesis using True by (intro exI [of _ "[]"] exI [of _ n] exI [of _ bs]) simp
  next
    case False
    then obtain bs'' where b: "tile_alloc w bs = Some (a, bs'')" "bs' = (c, n, u) # bs''" using 2(2) by auto
    then obtain xs m ys where "bs = xs @ (a, m, False) # ys" "\<forall>b\<in>set (frees xs). snd b < w" "w \<le> m" "bs'' = xs @ taken w a m @ ys"
      using 2(1) [OF False b(1)] by blast
    then show ?thesis using False b(2) by (intro exI [of _ "(c, n, u) # xs"] exI [of _ m] exI [of _ ys]) auto
  qed
qed simp

lemma chain_move:
  assumes "next_of h' p = next_of h q" "\<forall>b\<in>set gs. hp_link h' (at (fst b)) = hp_link h (at (fst b))"
  shows "chain h' p gs e = chain h q gs e"
proof (cases gs)
  case (Cons b gs')
  then have "chain h' (at (fst b)) gs' e = chain h (at (fst b)) gs' e" using assms(2) by (intro chain_cong) auto
  then show ?thesis using Cons assms by (cases b) simp
qed (use assms(1) in simp)

lemma unlink_chain:
  assumes "chain h p (fs @ (a, n) # gs) e" "distinct (p # map (at \<circ> fst) (fs @ gs))"
  shows "chain (set_next (last_block p fs) (next_of h (at a)) h) p (fs @ gs) e" (is "chain ?h p _ e")
proof (cases fs rule: rev_cases)
  case Nil
  have "\<forall>g\<in>set gs. at (fst g) \<noteq> p" using assms(2) by (auto simp: image_iff)
  then have "chain ?h p gs e = chain h (at a) gs e" using Nil by (intro chain_move) (auto simp: set_next_def)
  then show ?thesis using Nil assms(1) by simp
next
  case (snoc fs' b)
  obtain c k where b: "b = (c, k)" by force
  have d: "\<forall>g\<in>set fs' \<union> set gs. at (fst g) \<noteq> at c" "p \<noteq> at c" using assms(2) snoc b by (force simp: image_iff)+
  have ch: "chain h p fs' (at c)" "size_of h (at c) = of_nat k" "chain h (at a) gs e"
    using assms(1) snoc b by (simp_all add: chain_append)
  have "chain ?h (at c) gs e" using ch(3) d snoc b by (subst chain_move [where h = h and q = "at a"]) (auto simp: set_next_def)
  moreover have "chain ?h p fs' (at c)" using ch(1) d snoc b by (subst chain_cong [where h = h]) (auto simp: set_next_def)
  ultimately show ?thesis using snoc b ch(2) by (simp add: chain_append)
qed

text \<open>What remains to be done when the row has been changed.\<close>

definition unmarked :: "heap4 \<Rightarrow> nat \<Rightarrow> nat \<Rightarrow> tile list \<Rightarrow> nat \<Rightarrow> nat \<Rightarrow> tile list \<Rightarrow> bool" where
  "unmarked h lo e xs a n ys \<longleftrightarrow> (let bs = xs @ (a, n, True) # ys in
     heap_place h lo e \<and> tiles lo bs e \<and> coalesced bs \<and> chain h (xStart h) (frees bs) (at e) \<and>
     size_of h (xStart h) = 0 \<and> hp_link h (at e) = \<lparr>pxNextFreeBlock = 0, xBlockSize = 0\<rparr> \<and> size_of h (at a) = of_nat n \<and>
     (\<forall>b\<in>set (useds (xs @ ys)). hp_link h (at (fst b)) = \<lparr>pxNextFreeBlock = 0, xBlockSize = of_nat (snd b) OR owner_bit\<rparr>) \<and>
     xFreeBytesRemaining h = of_nat (free_bytes bs + n))"

lemma mark_rep:
  assumes "unmarked h lo e xs a n ys"
  shows "heap_rep (mark_block (at a) h) lo e (xs @ (a, n, True) # ys)" (is "heap_rep ?h _ _ ?bs")
proof -
  have t: "heap_place h lo e" "tiles lo ?bs e" "coalesced ?bs" "chain h (xStart h) (frees ?bs) (at e)" "size_of h (xStart h) = 0"
     "hp_link h (at e) = \<lparr>pxNextFreeBlock = 0, xBlockSize = 0\<rparr>" "size_of h (at a) = of_nat n"
     "\<forall>b\<in>set (useds (xs @ ys)). hp_link h (at (fst b)) = \<lparr>pxNextFreeBlock = 0, xBlockSize = of_nat (snd b) OR owner_bit\<rparr>"
     "xFreeBytesRemaining h = of_nat (free_bytes ?bs + n)"
    using assms unfolding unmarked_def Let_def by blast+
  note d = place_distinct [OF t(1,2)]
  have h: "hp_link ?h = (hp_link h)(at a := \<lparr>pxNextFreeBlock = 0, xBlockSize = of_nat n OR owner_bit\<rparr>)"
    "xStart ?h = xStart h" "pxEnd ?h = pxEnd h" "xBlockAllocatedBit ?h = xBlockAllocatedBit h"
    "xFreeBytesRemaining ?h = of_nat (free_bytes ?bs)" "xMinimumEverFreeBytesRemaining ?h \<le> xFreeBytesRemaining ?h"
    using t(1,7,9) by (auto simp: mark_block_def Let_def set_size_def set_next_def heap_place_def)
  have other: "\<forall>b\<in>set (frees ?bs) \<union> set (useds (xs @ ys)). at (fst b) \<noteq> at a"
    using d(5) [of xs a n True ys] by (force simp: set_frees set_useds)
  have "chain ?h (xStart h) (frees ?bs) (at e)" using t(4) other d(2) [of a n True] h(1) by (subst chain_cong [where h = h]) auto
  moreover have "\<forall>b\<in>set (useds ?bs). hp_link ?h (at (fst b)) = \<lparr>pxNextFreeBlock = 0, xBlockSize = of_nat (snd b) OR owner_bit\<rparr>"
    using t(8) other h(1) by auto
  moreover have "heap_place ?h lo e" using t(1) h by (simp add: heap_place_def)
  moreover have "at e \<noteq> at a" "xStart h \<noteq> at a" using d(1,2) [of a n True] by auto
  ultimately show ?thesis using t(2,3,5,6) h unfolding heap_rep_def by auto
qed

lemma and_7: "(of_nat x :: u32) AND 7 = of_nat (x mod 8)"
proof -
  have "(7 :: u32) = mask 3" by (simp add: mask_eq_exp_minus_1)
  then have "(of_nat x :: u32) AND 7 = take_bit 3 (of_nat x)" by (simp only: take_bit_eq_mask)
  also have "\<dots> = of_nat (take_bit 3 x)" by (simp only: of_nat_take_bit)
  finally show ?thesis by (simp add: take_bit_eq_mod)
qed

lemma coalesced_mark: "coalesced (xs @ (a, n, u) # ys) \<Longrightarrow> coalesced (xs @ (a, m, True) # ys)"
  "coalesced (xs @ (a, n, False) # ys) \<Longrightarrow> coalesced (xs @ (a, m, True) # (b, k, False) # ys)"
  "coalesced (xs @ (a, n, u) # ys) \<Longrightarrow> coalesced xs \<and> coalesced ys"
  by (auto simp: coalesced_def successively_append_iff successively_Cons)

text \<open>The state after a free block has left the list.\<close>

lemma unlink_rep:
  assumes rep: "heap_rep h lo e (xs @ (a, n, False) # ys)"
  defines "h1 \<equiv> set_next (last_block (xStart h) (frees xs)) (next_of h (at a)) h"
  shows "heap_place h1 lo e" "chain h1 (xStart h) (frees (xs @ ys)) (at e)" "size_of h1 (xStart h) = 0" "size_of h1 (at a) = of_nat n"
    "hp_link h1 (at e) = \<lparr>pxNextFreeBlock = 0, xBlockSize = 0\<rparr>"
    "\<forall>b\<in>set (useds (xs @ ys)). hp_link h1 (at (fst b)) = \<lparr>pxNextFreeBlock = 0, xBlockSize = of_nat (snd b) OR owner_bit\<rparr>"
proof -
  let ?bs = "xs @ (a, n, False) # ys" and ?p = "last_block (xStart h) (frees xs)"
  have t: "heap_place h lo e" "tiles lo ?bs e" "chain h (xStart h) (frees ?bs) (at e)" "size_of h (xStart h) = 0"
     "hp_link h (at e) = \<lparr>pxNextFreeBlock = 0, xBlockSize = 0\<rparr>"
     "\<forall>b\<in>set (useds ?bs). hp_link h (at (fst b)) = \<lparr>pxNextFreeBlock = 0, xBlockSize = of_nat (snd b) OR owner_bit\<rparr>"
    using rep by (auto simp: heap_rep_def)
  note d = place_distinct [OF t(1,2)]
  show "heap_place h1 lo e" using t(1) by (simp add: h1_def heap_place_def)
  have "e < 2 ^ 32" using t(1) by (simp add: heap_place_def)
  then have "distinct (map (at \<circ> fst) (frees ?bs))" using distinct_blocks [OF tiles_frees [OF t(2)]] by simp
  moreover have "\<forall>b\<in>set (frees ?bs). xStart h \<noteq> at (fst b)"
  proof
    fix b assume "b \<in> set (frees ?bs)"
    then have "(fst b, snd b, False) \<in> set ?bs" using set_frees [of "fst b" "snd b" ?bs] by simp
    then show "xStart h \<noteq> at (fst b)" by (rule d(2))
  qed
  ultimately have "distinct (xStart h # map (at \<circ> fst) (frees xs @ frees ys))" by auto
  then show "chain h1 (xStart h) (frees (xs @ ys)) (at e)"
    using unlink_chain [of h "xStart h" "frees xs" a n "frees ys" "at e"] t(3) by (simp add: h1_def)
  have size: "size_of h1 q = size_of h q" for q by (simp add: h1_def)
  have "chain h (xStart h) (frees xs @ (a, n) # frees ys) (at e)" using t(3) by simp
  then have "size_of h (at a) = of_nat n" unfolding chain_append by blast
  then show "size_of h1 (xStart h) = 0" "size_of h1 (at a) = of_nat n" unfolding size using t(4) by blast+
  have p: "?p = xStart h \<or> (\<exists>b k. (b, k, False) \<in> set ?bs \<and> ?p = at b)"
  proof (cases "frees xs" rule: rev_cases)
    case (snoc fs f)
    then have "(fst f, snd f, False) \<in> set xs" using set_frees [of "fst f" "snd f" xs] by simp
    then show ?thesis using snoc by (auto simp: last_block_def)
  qed simp
  have same: "hp_link h1 (at c) = hp_link h (at c)" if "(c, k, True) \<in> set ?bs \<or> c = e" for c k
  proof -
    have "?p \<noteq> at c"
    proof (cases "?p = xStart h")
      case True
      then show ?thesis using d(2) [of c k True] d(4) that by auto
    next
      case False
      then obtain b j where "(b, j, False) \<in> set ?bs" "?p = at b" using p by blast
      then show ?thesis using d(1) [of b j False] d(3) [of c k b j] that by auto
    qed
    then show ?thesis by (simp add: h1_def set_next_def)
  qed
  have keep: "\<forall>b\<in>set (useds ?bs). hp_link h1 (at (fst b)) = hp_link h (at (fst b))"
  proof
    fix b assume "b \<in> set (useds ?bs)"
    then have "(fst b, snd b, True) \<in> set ?bs" using set_useds [of "fst b" "snd b" ?bs] by simp
    then show "hp_link h1 (at (fst b)) = hp_link h (at (fst b))" using same by blast
  qed
  show "hp_link h1 (at e) = \<lparr>pxNextFreeBlock = 0, xBlockSize = 0\<rparr>" using same [of e 0] t(5) by simp
  show "\<forall>b\<in>set (useds (xs @ ys)). hp_link h1 (at (fst b)) = \<lparr>pxNextFreeBlock = 0, xBlockSize = of_nat (snd b) OR owner_bit\<rparr>"
    using keep t(6) by auto
qed

lemma split_rep:
  assumes u: "heap_place h lo e" "chain h (xStart h) (frees (xs @ ys)) (at e)" "size_of h (xStart h) = 0" "size_of h (at a) = of_nat n"
      "hp_link h (at e) = \<lparr>pxNextFreeBlock = 0, xBlockSize = 0\<rparr>"
      "\<forall>b\<in>set (useds (xs @ ys)). hp_link h (at (fst b)) = \<lparr>pxNextFreeBlock = 0, xBlockSize = of_nat (snd b) OR owner_bit\<rparr>"
    and t: "tiles lo (xs @ (a, n, False) # ys) e" "coalesced (xs @ (a, n, False) # ys)"
      "xFreeBytesRemaining h = of_nat (free_bytes (xs @ (a, n, False) # ys))"
    and w: "w < n" "8 dvd w" "0 < w"
  defines "h3 \<equiv> set_size (at a) (of_nat w) (set_size (at (a + w)) (of_nat (n - w)) h)"
  shows "\<exists>h'. prvInsertBlockIntoFreeList (at (a + w)) h3 = Some h' \<and> unmarked h' lo e xs a w ((a + w, n - w, False) # ys) \<and> pxEnd h' = pxEnd h"
proof -
  let ?rest = "(a + w, n - w, False) # ys" and ?xs = "xs @ [(a, w, True)]"
  have "8 dvd n" using tiles_aligned [OF t(1), of a n False] u(1) by (simp add: heap_place_def)
  then have t3: "tiles lo (?xs @ ?rest) e" using t(1) w by (auto simp: tiles_append dvd_diff_nat)
  have co: "coalesced (xs @ (a, w, True) # ?rest)" by (rule coalesced_mark(2) [OF t(2)])
  note d3 = place_distinct [OF u(1) t3]
  have l: "hp_link h3 q = (if q = at a then (hp_link h q)\<lparr>xBlockSize := of_nat w\<rparr>
      else if q = at (a + w) then (hp_link h q)\<lparr>xBlockSize := of_nat (n - w)\<rparr> else hp_link h q)" for q
    using d3(3) [of a w "a + w" "n - w"] by (simp add: h3_def set_size_def del: of_nat_add)
  have fields: "xStart h3 = xStart h" "pxEnd h3 = pxEnd h" "xBlockAllocatedBit h3 = xBlockAllocatedBit h"
    "xFreeBytesRemaining h3 = xFreeBytesRemaining h" by (simp_all add: h3_def)
  have other: "hp_link h3 (at b) = hp_link h (at b)" if "(b, k, v) \<in> set xs \<union> set ys" for b k v
    using d3(5) [of xs a w True ?rest b k v] d3(5) [of ?xs "a + w" "n - w" False ys b k v] that by (auto simp: l simp del: of_nat_add)
  have oth: "\<forall>b\<in>set (frees (xs @ ys)) \<union> set (useds (xs @ ys)). hp_link h3 (at (fst b)) = hp_link h (at (fst b))"
  proof
    fix b assume "b \<in> set (frees (xs @ ys)) \<union> set (useds (xs @ ys))"
    then have "(fst b, snd b, False) \<in> set xs \<union> set ys \<or> (fst b, snd b, True) \<in> set xs \<union> set ys"
      using set_frees [of "fst b" "snd b" "xs @ ys"] set_useds [of "fst b" "snd b" "xs @ ys"] by auto
    then show "hp_link h3 (at (fst b)) = hp_link h (at (fst b))" using other by blast
  qed
  have ends: "xStart h \<noteq> at a" "xStart h \<noteq> at (a + w)" "at a \<noteq> at e" "at (a + w) \<noteq> at e"
    using d3(1,2) [of a w True] d3(1,2) [of "a + w" "n - w" False] by simp_all
  have 1: "hp_link h3 (at e) = \<lparr>pxNextFreeBlock = 0, xBlockSize = 0\<rparr>" "size_of h3 (xStart h3) = 0" "size_of h3 (at (a + w)) = of_nat (n - w)"
    "size_of h3 (at a) = of_nat w"
    using ends u(3,5) d3(3) [of a w "a + w" "n - w"] by (simp_all add: l fields del: of_nat_add)
  have 2: "chain h3 (xStart h3) (frees (?xs @ ys)) (at e)"
    using u(2) ends oth by (subst chain_cong [where h = h]) (auto simp: l fields simp del: of_nat_add)
  have 3: "heap_place h3 lo e" using u(1) by (simp add: heap_place_def fields)
  have 4: "coalesced ?xs" "coalesced ys"
    using coalesced_append [of xs a w True ?rest] co coalesced_mark(3) [OF t(2)] by auto
  obtain h4 where h4: "prvInsertBlockIntoFreeList (at (a + w)) h3 = Some h4" "size_of h4 (xStart h3) = 0"
      "chain h4 (xStart h3) (frees (coalesce (?xs @ ?rest))) (at e)" "\<exists>l. h4 = h3\<lparr>hp_link := l\<rparr>"
      "\<forall>b\<in>set (useds (?xs @ ys)). hp_link h4 (at (fst b)) = hp_link h3 (at (fst b))"
      "hp_link h4 (at e) = \<lparr>pxNextFreeBlock = 0, xBlockSize = 0\<rparr>"
    using insert_rep [OF 3 t3 4 2 1(3,2,1)] by blast
  have "coalesce (?xs @ ?rest) = xs @ (a, w, True) # ?rest" using coalesce_id [OF co] by simp
  moreover have "free_bytes (xs @ (a, w, True) # ?rest) + w = free_bytes (xs @ (a, n, False) # ys)" using w(1) by simp
  ultimately have "unmarked h4 lo e xs a w ?rest"
    using h4(2-6) oth u(1,6) co t3 fields 1(4) t(3) unfolding unmarked_def Let_def by (auto simp: heap_place_def)
  then show ?thesis using h4(1,4) fields by auto
qed

lemma take_rep:
  assumes rep: "heap_rep h lo e (xs @ (a, n, False) # ys)" and w: "w \<le> n" "8 dvd w" "0 < w"
  shows "\<exists>h'. take_block (of_nat w) (last_block (xStart h) (frees xs)) (at a) h = Some h' \<and>
    heap_rep h' lo e (xs @ taken w a n @ ys) \<and> pxEnd h' = pxEnd h"
proof -
  let ?bs = "xs @ (a, n, False) # ys" and ?h = "set_next (last_block (xStart h) (frees xs)) (next_of h (at a)) h"
  note u = unlink_rep [OF rep]
  have t: "tiles lo ?bs e" "coalesced ?bs" "xFreeBytesRemaining h = of_nat (free_bytes ?bs)" "heap_place h lo e"
    using rep by (auto simp: heap_rep_def)
  note d = place_distinct [OF u(1) t(1)]
  have n: "n < 2 ^ 31" "8 dvd a" "8 dvd n" using d(6) [of a n False] tiles_aligned [OF t(1), of a n False] t(4) by (auto simp: heap_place_def)
  have diff: "size_of ?h (at a) - of_nat w = of_nat (n - w)" using u(4) w(1) by (simp add: of_nat_diff)
  then have big: "size_of ?h (at a) - of_nat w > heapMINIMUM_BLOCK_SIZE \<longleftrightarrow> n - w > 16"
    using n(1) by (simp add: word_less_nat_alt unat_of_nat_u32 heap_sizes)
  show ?thesis
  proof (cases "n - w > 16")
    case False
    have "unmarked ?h lo e xs a n ys" unfolding unmarked_def Let_def
      using t u coalesced_mark(1) [OF t(2)] by (auto simp: tiles_append)
    then show ?thesis using mark_rep [of ?h lo e xs a n ys] big False
      by (auto simp: take_block_def split_block_def taken_def mark_block_def Let_def)
  next
    case True
    have wn: "w < n" using True by simp
    have "(at (a + w) :: addr) AND 7 = 0" using n w(2) by (simp add: and_7 del: of_nat_add)
    then have "split_block (of_nat w) (at a) ?h =
        prvInsertBlockIntoFreeList (at (a + w)) (set_size (at a) (of_nat w) (set_size (at (a + w)) (of_nat (n - w)) ?h))"
      using big True diff by (simp add: split_block_def Let_def portBYTE_ALIGNMENT_MASK_def)
    moreover obtain h' where "prvInsertBlockIntoFreeList (at (a + w)) (set_size (at a) (of_nat w) (set_size (at (a + w)) (of_nat (n - w)) ?h)) = Some h'"
        "unmarked h' lo e xs a w ((a + w, n - w, False) # ys)" "pxEnd h' = pxEnd ?h"
      using split_rep [OF u(1) _ _ u(4,5,6) t(1,2), of w] u(2,3) t(3) w(2,3) wn by auto
    ultimately show ?thesis using mark_rep [of h' lo e xs a w "(a + w, n - w, False) # ys"] True
      by (simp add: take_block_def taken_def mark_block_def Let_def)
  qed
qed

end
