(* ===== verification/Allocator.thy ===== *)
theory Allocator
  imports Prelude "HOL-Library.Multiset"
begin

text \<open>
  The interface of the heap for its clients: what they hold is a map from pointers to the sizes they asked for.
  A request gives a block nobody holds or fails, and what is held can be given back once.
  \<open>HeapRuns\<close> shows that the heap of the firmware keeps to this; \<open>SecureSockets\<close> relies on it.
\<close>

text \<open>The pointers of a list that are not null are given back one after the other.\<close>

fun give_back :: "(addr \<Rightarrow> 'h \<Rightarrow> 'h option) \<Rightarrow> addr list \<Rightarrow> 'h \<Rightarrow> 'h option" where
  "give_back ret [] h = Some h"
| "give_back ret (p # ps) h =
     (if p = 0 then give_back ret ps h else case ret p h of None \<Rightarrow> None | Some h' \<Rightarrow> give_back ret ps h')"

lemma give_back_append:
  "give_back ret (ps @ qs) h = (case give_back ret ps h of None \<Rightarrow> None | Some h' \<Rightarrow> give_back ret qs h')"
  by (induction ps arbitrary: h) (auto split: option.split)

locale allocator =
  fixes get :: "u32 \<Rightarrow> 'h \<Rightarrow> (addr \<times> 'h) option"
    and ret :: "addr \<Rightarrow> 'h \<Rightarrow> 'h option"
    and holds :: "(addr \<rightharpoonup> u32) \<Rightarrow> 'h \<Rightarrow> bool"
    and room :: "'h \<Rightarrow> addr \<Rightarrow> nat"
  assumes get: "holds L h \<Longrightarrow> \<exists>p h'. get w h = Some (p, h') \<and> p \<notin> dom L \<and> holds (if p = 0 then L else L(p \<mapsto> w)) h'"
    and ret: "holds L h \<Longrightarrow> p \<in> dom L \<Longrightarrow> \<exists>h'. ret p h = Some h' \<and> holds (L(p := None)) h'"
    and null: "holds L h \<Longrightarrow> 0 \<notin> dom L"
    and room: "holds L h \<Longrightarrow> L p = Some w \<Longrightarrow> 0 < unat w \<and> (unat w + 7) div 8 * 8 \<le> room h p"
begin

lemma get_cases:
  assumes "holds L h" "get w h = Some (p, h')"
  shows "p \<notin> dom L" "p = 0 \<Longrightarrow> holds L h'" "p \<noteq> 0 \<Longrightarrow> holds (L(p \<mapsto> w)) h'" "p \<noteq> 0 \<Longrightarrow> 0 < unat w \<and> (unat w + 7) div 8 * 8 \<le> room h' p"
proof -
  show h: "p \<notin> dom L" "p = 0 \<Longrightarrow> holds L h'" "p \<noteq> 0 \<Longrightarrow> holds (L(p \<mapsto> w)) h'" using get [OF assms(1), of w] assms(2) by auto
  show "p \<noteq> 0 \<Longrightarrow> 0 < unat w \<and> (unat w + 7) div 8 * 8 \<le> room h' p" using room [OF h(3), of p w] by simp
qed

text \<open>Giving back a list of different pointers leaves what else was held.\<close>

lemma give_back_holds:
  "holds L h \<Longrightarrow> distinct (filter (\<lambda>p. p \<noteq> 0) ps) \<Longrightarrow> set (filter (\<lambda>p. p \<noteq> 0) ps) \<subseteq> dom L \<Longrightarrow>
     \<exists>h'. give_back ret ps h = Some h' \<and> holds (L |` (- set ps)) h'"
proof (induction ps arbitrary: L h)
  case Nil
  then show ?case by simp
next
  case (Cons p ps)
  show ?case
  proof (cases "p = 0")
    case True
    have "L |` (- set (p # ps)) = L |` (- set ps)"
      using null [OF Cons.prems(1)] True by (auto simp: restrict_map_def fun_eq_iff domIff)
    then show ?thesis using Cons True by simp
  next
    case False
    then obtain h1 where h1: "ret p h = Some h1" "holds (L(p := None)) h1" using ret [OF Cons.prems(1), of p] Cons.prems(3) by auto
    have "p \<notin> set (filter (\<lambda>p. p \<noteq> 0) ps)" using Cons.prems(2) False by simp
    moreover have "set (filter (\<lambda>p. p \<noteq> 0) ps) \<subseteq> dom L" using Cons.prems(3) False by simp
    ultimately have "set (filter (\<lambda>p. p \<noteq> 0) ps) \<subseteq> dom (L(p := None))" by auto
    moreover have "distinct (filter (\<lambda>p. p \<noteq> 0) ps)" using Cons.prems(2) False by simp
    ultimately obtain h2 where "give_back ret ps h1 = Some h2" "holds (L(p := None) |` (- set ps)) h2"
      using Cons.IH [OF h1(2)] by blast
    moreover have "L(p := None) |` (- set ps) = L |` (- set (p # ps))" by (auto simp: restrict_map_def fun_eq_iff)
    ultimately show ?thesis using h1(1) False by auto
  qed
qed

text \<open>One client has the pointers of a list that are not null, the others the map.\<close>

definition shared :: "addr list \<Rightarrow> (addr \<rightharpoonup> u32) \<Rightarrow> 'h \<Rightarrow> bool" where
  "shared own L h \<longleftrightarrow> (\<exists>K. holds K h \<and> distinct (filter (\<lambda>p. p \<noteq> 0) own) \<and> set (filter (\<lambda>p. p \<noteq> 0) own) \<subseteq> dom K \<and> L = K |` (- set own))"

lemma shared_none: "holds L h \<Longrightarrow> shared [] L h"
  by (auto simp: shared_def restrict_map_def)

lemma without_null: "holds K h \<Longrightarrow> K |` (- set own) = K |` (- set (filter (\<lambda>p. p \<noteq> 0) own))"
  using null [of K h] by (auto simp: restrict_map_def fun_eq_iff domIff)

lemma shared_mset:
  assumes "shared own L h" "mset (filter (\<lambda>p. p \<noteq> 0) own) = mset (filter (\<lambda>p. p \<noteq> 0) own')"
  shows "shared own' L h"
proof -
  obtain K where K: "holds K h" "distinct (filter (\<lambda>p. p \<noteq> 0) own)" "set (filter (\<lambda>p. p \<noteq> 0) own) \<subseteq> dom K" "L = K |` (- set own)"
    using assms(1) unfolding shared_def by blast
  have "set (filter (\<lambda>p. p \<noteq> 0) own) = set (filter (\<lambda>p. p \<noteq> 0) own')" using assms(2) by (rule mset_eq_setD)
  moreover have "distinct (filter (\<lambda>p. p \<noteq> 0) own')" using mset_eq_imp_distinct_iff [OF assms(2)] K(2) by simp
  moreover have "L = K |` (- set own')" using K(4) without_null [OF K(1), of own] without_null [OF K(1), of own'] calculation(1) by metis
  ultimately show ?thesis using K(1,3) unfolding shared_def by metis
qed

lemma shared_get:
  assumes "shared own L h" "get w h = Some (p, h')"
  shows "shared (p # own) L h'" "p \<noteq> 0 \<Longrightarrow> 0 < unat w \<and> (unat w + 7) div 8 * 8 \<le> room h' p"
proof -
  obtain K where K: "holds K h" "distinct (filter (\<lambda>p. p \<noteq> 0) own)" "set (filter (\<lambda>p. p \<noteq> 0) own) \<subseteq> dom K" "L = K |` (- set own)"
    using assms(1) unfolding shared_def by blast
  note g = get_cases [OF K(1) assms(2)]
  show "p \<noteq> 0 \<Longrightarrow> 0 < unat w \<and> (unat w + 7) div 8 * 8 \<le> room h' p" by (rule g(4))
  show "shared (p # own) L h'"
  proof (cases "p = 0")
    case True
    then show ?thesis using K g(2) without_null [OF K(1), of own] without_null [OF K(1), of "0 # own"] unfolding shared_def by auto
  next
    case False
    have "K(p \<mapsto> w) |` (- set (p # own)) = K |` (- set own)" using g(1) by (auto simp: restrict_map_def fun_eq_iff domIff)
    then show ?thesis using K g(1) g(3) [OF False] unfolding shared_def by (intro exI [of _ "K(p \<mapsto> w)"]) auto
  qed
qed

lemma shared_room: "shared own L h \<Longrightarrow> p \<in> set own \<Longrightarrow> p \<noteq> 0 \<Longrightarrow> 8 \<le> room h p"
proof -
  assume "shared own L h" "p \<in> set own" "p \<noteq> 0"
  then obtain K w where K: "holds K h" "K p = Some w" unfolding shared_def by fastforce
  have "8 \<le> (n + 7) div 8 * 8" if "0 < n" for n :: nat using that by presburger
  then show ?thesis using room [OF K] le_trans by blast
qed

lemma shared_give_back:
  assumes "shared (own @ rest) L h"
  shows "\<exists>h'. give_back ret own h = Some h' \<and> shared rest L h'"
proof -
  let ?own = "filter (\<lambda>p. p \<noteq> 0) own" and ?rest = "filter (\<lambda>p. p \<noteq> 0) rest"
  obtain K where K: "holds K h" "distinct (?own @ ?rest)" "set (?own @ ?rest) \<subseteq> dom K" "L = K |` (- set (own @ rest))"
    using assms unfolding shared_def filter_append by blast
  have own: "distinct ?own" "set ?own \<subseteq> dom K" "distinct ?rest" "set ?rest \<subseteq> dom K" "set ?own \<inter> set ?rest = {}"
    using K(2,3) by (simp_all only: distinct_append set_append Un_subset_iff)
  obtain h' where h': "give_back ret own h = Some h'" "holds (K |` (- set own)) h'"
    using give_back_holds [OF K(1) own(1,2)] by blast
  have "p \<in> dom (K |` (- set own))" if "p \<in> set ?rest" for p
  proof -
    have "p \<notin> set own" "p \<in> dom K" using own(4,5) that by auto
    then show ?thesis by (simp add: restrict_map_def domIff)
  qed
  moreover have "L = K |` (- set own) |` (- set rest)" using K(4) by (simp add: Compl_Un)
  ultimately have "shared rest L h'" unfolding shared_def using h'(2) own(3) by blast
  then show ?thesis using h'(1) by blast
qed

text \<open>Other clients leave it its blocks.\<close>

lemma shared_other_get:
  assumes "shared own L h" "get w h = Some (p, h')"
  shows "shared own (if p = 0 then L else L(p \<mapsto> w)) h'"
proof -
  obtain K where K: "holds K h" "distinct (filter (\<lambda>p. p \<noteq> 0) own)" "set (filter (\<lambda>p. p \<noteq> 0) own) \<subseteq> dom K" "L = K |` (- set own)"
    using assms(1) unfolding shared_def by blast
  note g = get_cases [OF K(1) assms(2)]
  show ?thesis
  proof (cases "p = 0")
    case False
    then have "p \<notin> set own" using g(1) K(3) by auto
    then have "K(p \<mapsto> w) |` (- set own) = L(p \<mapsto> w)" using K(4) by (auto simp: restrict_map_def fun_eq_iff)
    then show ?thesis using K False g(3) [OF False] unfolding shared_def by (intro exI [of _ "K(p \<mapsto> w)"]) auto
  qed (use K g(2) shared_def in auto)
qed

lemma shared_other_ret:
  assumes "shared own L h" "p \<in> dom L" "ret p h = Some h'"
  shows "shared own (L(p := None)) h'"
proof -
  obtain K where K: "holds K h" "distinct (filter (\<lambda>p. p \<noteq> 0) own)" "set (filter (\<lambda>p. p \<noteq> 0) own) \<subseteq> dom K" "L = K |` (- set own)"
    using assms(1) unfolding shared_def by blast
  have p: "p \<in> dom K" "p \<notin> set own" using assms(2) K(4) by (auto simp: restrict_map_def split: if_splits)
  have "holds (K(p := None)) h'" using ret [OF K(1) p(1)] assms(3) by auto
  moreover have "K(p := None) |` (- set own) = L(p := None)" using K(4) by (auto simp: restrict_map_def fun_eq_iff)
  ultimately show ?thesis using K(2,3) p(2) unfolding shared_def by (intro exI [of _ "K(p := None)"]) auto
qed

end

end
