(* ===== verification/HeapRuns.thy ===== *)
theory HeapRuns
  imports HeapBlocks Allocator
begin

text \<open>
  The heap in use: any sequence of requests and returns, from the first one, which sets the heap up. The
  results are those of the row of blocks, and what a client holds is its own.
\<close>

unbundle bit_operations_syntax

section \<open>A request\<close>

text \<open>The size of the block for a request of \<open>w\<close> bytes, with its header and a multiple of 8.\<close>

definition units :: "nat \<Rightarrow> nat" where "units w = (w + 15) div 8 * 8"

definition tile_malloc :: "nat \<Rightarrow> tile list \<Rightarrow> (nat \<times> tile list) option" where
  "tile_malloc w bs = (if 0 < w \<and> w < 2 ^ 31 then tile_alloc (units w) bs else None)"

lemma units_facts: "8 dvd units w" "w + 8 \<le> units w" "units w \<le> w + 15"
  by (simp_all add: units_def)

lemma round_up: "x + (if x mod 8 \<noteq> 0 then 8 - x mod 8 else 0) = (x + 7) div 8 * 8" for x :: nat
  by presburger

lemma block_size_units:
  assumes "0 < unat w" "unat w < 2 ^ 31"
  shows "block_size w = of_nat (units (unat w))"
proof -
  define x where "x = unat w + 8"
  have w: "w + xHeapStructSize = of_nat x" by (simp add: heap_sizes x_def)
  have "(of_nat (x mod 8) :: u32) = 0 \<longleftrightarrow> x mod 8 = 0" using at_eq_iff [of "x mod 8" 0] by simp
  moreover have "portBYTE_ALIGNMENT - of_nat (x mod 8) = of_nat (8 - x mod 8)"
    by (simp add: portBYTE_ALIGNMENT_def of_nat_diff)
  moreover have "units (unat w) = x + (if x mod 8 \<noteq> 0 then 8 - x mod 8 else 0)" unfolding units_def round_up x_def by simp
  moreover have "w > 0" using assms(1) by (simp add: word_less_nat_alt)
  ultimately show ?thesis unfolding block_size_def w Let_def portBYTE_ALIGNMENT_MASK_def and_7 by simp
qed

lemma owner_bit_zero: "(w AND owner_bit = 0) \<longleftrightarrow> unat w < 2 ^ 31"
proof
  assume "unat w < 2 ^ 31"
  then show "w AND owner_bit = 0" using word_bit31(3) [of "unat w"] by simp
next
  assume a: "w AND owner_bit = 0"
  have "\<not> bit w 31"
  proof
    assume "bit w 31"
    then have "bit (w AND owner_bit) 31" by (simp add: bit_and_iff bit_owner)
    then show False using a by simp
  qed
  then have "\<not> bit (unat w) 31" by (simp add: bit_unsigned_iff)
  then have "even (unat w div 2 ^ 31)" by (simp add: bit_iff_odd)
  moreover have "unat w div 2 ^ 31 < 2" using unat_u32_lt [of w] by (simp add: div_less_iff_less_mult)
  ultimately have "unat w div 2 ^ 31 = 0" by (cases "unat w div 2 ^ 31 = 1") auto
  then show "unat w < 2 ^ 31" by (simp add: div_eq_0_iff)
qed

lemma free_address:
  assumes "heap_place h lo e" "tiles lo bs e"
  shows "\<forall>b\<in>set (frees bs). (at (fst b) :: addr) \<noteq> 0"
proof
  fix b assume "b \<in> set (frees bs)"
  then have "(fst b, snd b, False) \<in> set bs" using set_frees [of "fst b" "snd b" bs] by simp
  then have "lo \<le> fst b" "fst b \<le> e" using tiles_bounds [OF assms(2)] by fastforce+
  then show "(at (fst b) :: addr) \<noteq> 0" using assms(1) at_eq_iff [of "fst b" 0] by (simp add: heap_place_def)
qed

lemma malloc_refines:
  assumes rep: "heap_rep h lo e bs"
  shows "\<exists>p h'. pvPortMalloc w h = Some (p, h') \<and> pxEnd h' = pxEnd h \<and>
    (case tile_malloc (unat w) bs of
       None \<Rightarrow> p = 0 \<and> h' = h
     | Some (a, bs') \<Rightarrow> p = at (a + 8) \<and> heap_rep h' lo e bs')"
proof -
  have t: "heap_place h lo e" "tiles lo bs e" "chain h (xStart h) (frees bs) (at e)"
     "hp_link h (at e) = \<lparr>pxNextFreeBlock = 0, xBlockSize = 0\<rparr>" "xFreeBytesRemaining h = of_nat (free_bytes bs)"
    using rep by (auto simp: heap_rep_def)
  note d = place_distinct [OF t(1,2)]
  have e: "pxEnd h = at e" "(at e :: addr) \<noteq> 0" "xBlockAllocatedBit h = owner_bit"
    using t(1) tiles_le [OF t(2)] at_eq_iff [of e 0] by (auto simp: heap_place_def)
  show ?thesis
  proof (cases "0 < unat w \<and> unat w < 2 ^ 31")
    case False
    have zero: "w = 0" if "\<not> 0 < unat w" using that by (simp add: word_unat_eq_iff)
    then have "w = 0 \<or> w AND owner_bit \<noteq> 0" using False owner_bit_zero [of w] by (cases "0 < unat w") simp_all
    then have "block_size w = 0 \<or> w AND owner_bit \<noteq> 0" by (auto simp: block_size_def)
    then show ?thesis using False e by (auto simp: pvPortMalloc_def tile_malloc_def Let_def)
  next
    case True
    let ?u = "units (unat w)"
    have u: "?u < 2 ^ 32" "8 dvd ?u" "0 < ?u" using units_facts [of "unat w"] True by auto
    have m: "tile_malloc (unat w) bs = tile_alloc ?u bs" using True by (simp add: tile_malloc_def)
    have fb: "free_bytes bs < 2 ^ 32" using free_bytes_bound [OF t(2)] t(1) by (simp add: heap_place_def)
    show ?thesis
    proof (cases "tile_alloc ?u bs")
      case None
      have "find_block h (of_nat ?u) (xStart h) (next_of h (xStart h)) = Some (last_block (xStart h) (frees bs), at e)"
      proof (rule find_none [OF t(3) _ _ u(3,1) e(2)])
        show "\<forall>b\<in>set (frees bs). snd b < ?u \<and> (at (fst b) :: addr) \<noteq> 0"
          using tile_alloc_None [OF None] free_address [OF t(1,2)] by blast
      qed (use t(4) in simp_all)
      then show ?thesis using None m True e
        by (auto simp: pvPortMalloc_def Let_def owner_bit_zero block_size_units)
    next
      case (Some r)
      then obtain a bs' where r: "tile_alloc ?u bs = Some (a, bs')" by (cases r) auto
      obtain xs n ys where b: "bs = xs @ (a, n, False) # ys" "\<forall>b\<in>set (frees xs). snd b < ?u" "?u \<le> n" "bs' = xs @ taken ?u a n @ ys"
        using tile_alloc_Some [OF r] by blast
      have n: "n \<le> free_bytes bs" using b(1) by simp
      have free: "\<forall>b\<in>set (frees bs). (at (fst b) :: addr) \<noteq> 0" using free_address [OF t(1,2)] by blast
      have "find_block h (of_nat ?u) (xStart h) (next_of h (xStart h)) = Some (last_block (xStart h) (frees xs), at a)"
        by (rule find_some [where n = n and gs = "frees ys" and e = e]) (use t(3) b free n fb in auto)
      moreover have "(of_nat ?u :: u32) > 0" "(of_nat ?u :: u32) \<le> of_nat (free_bytes bs)"
        using u n b(3) fb by (simp_all add: word_less_nat_alt word_le_nat_alt unat_of_nat_u32)
      moreover obtain h' where h': "take_block (of_nat ?u) (last_block (xStart h) (frees xs)) (at a) h = Some h'" "heap_rep h' lo e bs'" "pxEnd h' = pxEnd h"
        using take_rep [of h lo e xs a n ys ?u] rep b u by auto
      moreover have "next_of h (last_block (xStart h) (frees xs)) = at a" using t(3) b(1) by (simp add: chain_split)
      moreover have "8 dvd a" using tiles_aligned [OF t(2), of a n False] t(1) b(1) by (simp add: heap_place_def)
      then have "(at (a + 8) :: addr) AND 7 = 0" by (simp add: and_7 del: of_nat_add)
      moreover have "at a \<noteq> at e" using d(1) [of a n False] b(1) by simp
      ultimately show ?thesis using r m True e t(5)
        by (simp add: pvPortMalloc_def Let_def owner_bit_zero block_size_units heap_sizes portBYTE_ALIGNMENT_MASK_def)
    qed
  qed
qed

section \<open>The first request\<close>

text \<open>What the linker has to do: the array does not wrap around and the static object \<open>xStart\<close> lies outside of it.\<close>

definition heap_linked :: "heap4 \<Rightarrow> bool" where
  "heap_linked h \<longleftrightarrow> 0 < unat (ucHeap h) \<and> unat (ucHeap h) + 155648 < 2 ^ 32 \<and> pxEnd h = 0 \<and>
     (unat (xStart h) < unat (ucHeap h) \<or> unat (ucHeap h) + 155648 \<le> unat (xStart h))"

definition heap_low :: "heap4 \<Rightarrow> nat" where "heap_low h = (unat (ucHeap h) + 7) div 8 * 8"
definition heap_high :: "heap4 \<Rightarrow> nat" where "heap_high h = (unat (ucHeap h) + 155640) div 8 * 8"

definition first_row :: "heap4 \<Rightarrow> tile list" where
  "first_row h = [(heap_low h, heap_high h - heap_low h, False)]"

lemma and_not_7: "(of_nat x :: u32) AND NOT 7 = of_nat (x div 8 * 8)"
proof -
  have "x div 8 * 8 = push_bit 3 (drop_bit 3 x)" by (simp add: push_bit_eq_mult drop_bit_eq_div)
  moreover have "(7 :: u32) = mask 3" by (simp add: mask_eq_exp_minus_1)
  moreover have "(of_nat x :: u32) AND NOT (mask 3) = of_nat (push_bit 3 (drop_bit 3 x))"
    by (rule bit_word_eqI) (auto simp: bit_simps)
  ultimately show ?thesis by simp
qed

lemma heap_bounds:
  assumes "heap_linked h"
  shows "unat (ucHeap h) \<le> heap_low h" "heap_high h + 8 \<le> unat (ucHeap h) + 155648" "heap_low h + 155632 \<le> heap_high h"
    "8 dvd heap_low h" "8 dvd heap_high h" "0 < heap_low h" "heap_high h - heap_low h < 2 ^ 31" "heap_high h < 2 ^ 32"
proof -
  show "heap_low h + 155632 \<le> heap_high h" unfolding heap_low_def heap_high_def by presburger
qed (use assms in \<open>auto simp: heap_linked_def heap_low_def heap_high_def\<close>)

lemma header_eq:
  "l\<lparr>xBlockSize := s, pxNextFreeBlock := n\<rparr> = \<lparr>pxNextFreeBlock = n, xBlockSize = s\<rparr>"
  "l\<lparr>pxNextFreeBlock := n, xBlockSize := s\<rparr> = \<lparr>pxNextFreeBlock = n, xBlockSize = s\<rparr>"
  by simp_all

lemma heap_init_fields:
  assumes "heap_linked h"
  defines "h1 \<equiv> prvHeapInit h"
  shows "xStart h1 = xStart h" "pxEnd h1 = at (heap_high h)" "xBlockAllocatedBit h1 = owner_bit"
    "hp_link h1 = (hp_link h)(xStart h := \<lparr>pxNextFreeBlock = at (heap_low h), xBlockSize = 0\<rparr>,
       at (heap_high h) := \<lparr>pxNextFreeBlock = 0, xBlockSize = 0\<rparr>,
       at (heap_low h) := \<lparr>pxNextFreeBlock = at (heap_high h), xBlockSize = of_nat (heap_high h - heap_low h)\<rparr>)"
    "xFreeBytesRemaining h1 = of_nat (heap_high h - heap_low h)" "xMinimumEverFreeBytesRemaining h1 = of_nat (heap_high h - heap_low h)"
proof -
  define u where "u = unat (ucHeap h)"
  have u: "ucHeap h = at u" "u + 155648 < 2 ^ 32" using assms(1) by (simp_all add: u_def heap_linked_def)
  note b = heap_bounds [OF assms(1)]
  define total where "total = 155648 - (heap_low h - u)"
  have lo: "heap_low h = (u + 7) div 8 * 8" "u \<le> heap_low h" "heap_low h \<le> u + 7" by (simp_all add: heap_low_def u_def)
  have mod: "(of_nat (u mod 8) :: u32) = 0 \<longleftrightarrow> u mod 8 = 0" using at_eq_iff [of "u mod 8" 0] by simp
  have low: "heap_low h = u" if "u mod 8 = 0" using that round_up [of u] lo(1) by simp
  have first: "(if at u AND 7 \<noteq> 0 then ((at u + 7) AND NOT 7, configTOTAL_HEAP_SIZE - (((at u + 7) AND NOT 7) - at u))
      else (at u, configTOTAL_HEAP_SIZE)) = (at (heap_low h), of_nat total :: u32)"
  proof (cases "u mod 8 = 0")
    case True
    then show ?thesis using mod low by (simp add: and_7 total_def configTOTAL_HEAP_SIZE_def)
  next
    case False
    have "(at u + 7) AND NOT 7 = (at (heap_low h) :: addr)" using and_not_7 [of "u + 7"] lo(1) by (simp add: add.commute)
    moreover have "at (heap_low h) - at u = (of_nat (heap_low h - u) :: u32)" using lo(2) by (simp add: of_nat_diff)
    moreover have "configTOTAL_HEAP_SIZE - of_nat (heap_low h - u) = of_nat total"
      using lo(3) by (simp add: total_def configTOTAL_HEAP_SIZE_def of_nat_diff)
    ultimately show ?thesis using False mod by (simp add: and_7)
  qed
  have "heap_low h + total - 8 = u + 155640" using lo(2,3) by (simp add: total_def)
  moreover have "at (heap_low h) + of_nat total - 8 = (of_nat (heap_low h + total - 8) :: u32)"
    using lo(2,3) by (simp add: total_def of_nat_diff)
  ultimately have high: "(at (heap_low h) + of_nat total - 8) AND NOT 7 = at (heap_high h)"
    using and_not_7 [of "u + 155640"] by (simp add: heap_high_def u_def ac_simps)
  have diff: "at (heap_high h) - at (heap_low h) = (of_nat (heap_high h - heap_low h) :: u32)" using b(3) by (simp add: of_nat_diff)
  have ne: "at (heap_high h) \<noteq> (at (heap_low h) :: addr)" using at_eq_iff [of "heap_high h" "heap_low h"] b(3,8) by simp
  have p: "portBYTE_ALIGNMENT - 1 = 7" "portBYTE_ALIGNMENT_MASK = 7" by (simp_all add: portBYTE_ALIGNMENT_def portBYTE_ALIGNMENT_MASK_def)
  let ?h2 = "set_size (xStart h) 0 (set_next (xStart h) (at (heap_low h)) h)\<lparr>pxEnd := at (heap_high h)\<rparr>"
  let ?h3 = "set_next (at (heap_high h)) 0 (set_size (at (heap_high h)) 0 ?h2)"
  let ?h4 = "set_next (at (heap_low h)) (at (heap_high h)) (set_size (at (heap_low h)) (of_nat (heap_high h - heap_low h)) ?h3)"
  have h1: "h1 = ?h4\<lparr>xMinimumEverFreeBytesRemaining := of_nat (heap_high h - heap_low h),
      xFreeBytesRemaining := of_nat (heap_high h - heap_low h), xBlockAllocatedBit := push_bit 31 1\<rparr>"
    unfolding h1_def prvHeapInit_def u(1) p heap_sizes by (simp only: Let_def first case_prod_conv high diff) (simp add: set_next_def set_size_def)
  show "xStart h1 = xStart h" "pxEnd h1 = at (heap_high h)" "xBlockAllocatedBit h1 = owner_bit"
    "xFreeBytesRemaining h1 = of_nat (heap_high h - heap_low h)" "xMinimumEverFreeBytesRemaining h1 = of_nat (heap_high h - heap_low h)"
    by (simp_all add: h1 set_next_def set_size_def owner_bit_def)
  show "hp_link h1 = (hp_link h)(xStart h := \<lparr>pxNextFreeBlock = at (heap_low h), xBlockSize = 0\<rparr>,
       at (heap_high h) := \<lparr>pxNextFreeBlock = 0, xBlockSize = 0\<rparr>,
       at (heap_low h) := \<lparr>pxNextFreeBlock = at (heap_high h), xBlockSize = of_nat (heap_high h - heap_low h)\<rparr>)"
    by (simp add: h1 set_next_def set_size_def header_eq)
qed

lemma heap_init_rep:
  assumes "heap_linked h"
  shows "heap_rep (prvHeapInit h) (heap_low h) (heap_high h) (first_row h)"
proof -
  note b = heap_bounds [OF assms] and f = heap_init_fields [OF assms]
  have s: "xStart h \<noteq> at c" if "heap_low h \<le> c" "c \<le> heap_high h" for c
    using that b(1,2,8) unat_of_nat_u32 [of c] assms by (auto simp: heap_linked_def)
  then have "xStart h \<noteq> at (heap_low h)" "xStart h \<noteq> at (heap_high h)" using b(3) by auto
  moreover have "at (heap_high h) \<noteq> (at (heap_low h) :: addr)" using at_eq_iff [of "heap_high h" "heap_low h"] b(3,8) by simp
  ultimately show ?thesis using s b(3-8) f
    by (auto simp: heap_rep_def heap_place_def first_row_def dvd_diff_nat)
qed

section \<open>Sequences of calls\<close>

datatype heap_op = Malloc u32 | Free addr

text \<open>The result is the pointer that was returned, 0 for a return.\<close>

fun heap_step :: "heap_op \<Rightarrow> heap4 \<Rightarrow> (addr \<times> heap4) option" where
  "heap_step (Malloc w) h = pvPortMalloc w h"
| "heap_step (Free p) h = map_option (\<lambda>h'. (0, h')) (vPortFree p h)"

fun row_step :: "heap_op \<Rightarrow> tile list \<Rightarrow> (addr \<times> tile list) option" where
  "row_step (Malloc w) bs = Some (case tile_malloc (unat w) bs of None \<Rightarrow> (0, bs) | Some (a, bs') \<Rightarrow> (of_nat (a + 8), bs'))"
| "row_step (Free p) bs =
     (if p = 0 then Some (0, bs)
      else if (unat p - 8) \<in> fst ` set (useds bs) \<and> 8 \<le> unat p then Some (0, tile_free (unat p - 8) bs) else None)"

fun exec :: "('a \<Rightarrow> 's \<Rightarrow> (addr \<times> 's) option) \<Rightarrow> 'a list \<Rightarrow> 's \<Rightarrow> (addr list \<times> 's) option" where
  "exec step [] s = Some ([], s)"
| "exec step (x # xs) s =
     (case step x s of None \<Rightarrow> None
      | Some (p, s') \<Rightarrow> map_option (\<lambda>(ps, s''). (p # ps, s'')) (exec step xs s'))"

text \<open>The heap, set up already or by the next request.\<close>

definition heap_state :: "heap4 \<Rightarrow> nat \<Rightarrow> nat \<Rightarrow> tile list \<Rightarrow> bool" where
  "heap_state h lo e bs \<longleftrightarrow>
     (if pxEnd h = 0 then heap_rep (prvHeapInit h) lo e bs \<and> useds bs = [] else heap_rep h lo e bs)"

lemma rep_end: "heap_rep h lo e bs \<Longrightarrow> pxEnd h \<noteq> 0"
  using tiles_le [of lo bs e] at_eq_iff [of e 0] by (auto simp: heap_rep_def heap_place_def)

lemma step_refines:
  assumes "heap_state h lo e bs" "row_step x bs = Some (p, bs')"
  shows "\<exists>h'. heap_step x h = Some (p, h') \<and> heap_state h' lo e bs'"
proof (cases x)
  case (Malloc w)
  let ?h = "if pxEnd h = 0 then prvHeapInit h else h"
  have rep: "heap_rep ?h lo e bs" using assms(1) by (auto simp: heap_state_def)
  have "pvPortMalloc w h = pvPortMalloc w ?h" using rep_end [OF rep] by (auto simp: pvPortMalloc_def)
  moreover obtain q h' where "pvPortMalloc w ?h = Some (q, h')" "pxEnd h' = pxEnd ?h"
      "case tile_malloc (unat w) bs of None \<Rightarrow> q = 0 \<and> h' = ?h | Some (a, bs') \<Rightarrow> q = at (a + 8) \<and> heap_rep h' lo e bs'"
    using malloc_refines [OF rep] by blast
  moreover have "heap_state h'' lo e bs''" if "heap_rep h'' lo e bs''" for h'' bs'' using that rep_end by (auto simp: heap_state_def)
  ultimately show ?thesis using assms(2) Malloc rep by (cases "tile_malloc (unat w) bs") (auto simp del: of_nat_add)
next
  case (Free q)
  show ?thesis
  proof (cases "q = 0")
    case True
    then show ?thesis using assms Free by (auto simp: vPortFree_def)
  next
    case False
    then have q: "(unat q - 8) \<in> fst ` set (useds bs)" "8 \<le> unat q" "p = 0" "bs' = tile_free (unat q - 8) bs"
      using assms(2) Free by (auto split: if_splits)
    then obtain n where "(unat q - 8, n) \<in> set (useds bs)" by auto
    then have "(unat q - 8, n, True) \<in> set bs" unfolding set_useds .
    then obtain a where a: "unat q = a + 8" "(a, n, True) \<in> set bs" "p = 0" "bs' = tile_free a bs"
      using q by (metis le_add_diff_inverse2)
    then have "useds bs \<noteq> []" using set_useds [of a n bs] by auto
    then have rep: "heap_rep h lo e bs" using assms(1) by (auto simp: heap_state_def split: if_splits)
    have q: "q = at (a + 8)" unfolding a(1) [symmetric] by simp
    obtain h' where h': "vPortFree (at (a + 8)) h = Some h'" "heap_rep h' lo e (tile_free a bs)" using free_refines [OF rep a(2)] by blast
    then have "heap_state h' lo e bs'" using rep_end a(4) by (auto simp: heap_state_def)
    moreover have "heap_step x h = Some (p, h')" using h'(1) Free a(3) q by (simp del: of_nat_add)
    ultimately show ?thesis by blast
  qed
qed

lemma exec_refines:
  "heap_state h lo e bs \<Longrightarrow> exec row_step xs bs = Some (ps, bs') \<Longrightarrow>
     \<exists>h'. exec heap_step xs h = Some (ps, h') \<and> heap_state h' lo e bs'"
proof (induction xs arbitrary: h bs ps)
  case (Cons x xs)
  obtain p bs1 ps1 where r: "row_step x bs = Some (p, bs1)" "exec row_step xs bs1 = Some (ps1, bs')" "ps = p # ps1"
    using Cons.prems(2) by (auto split: option.splits)
  obtain h1 where "heap_step x h = Some (p, h1)" "heap_state h1 lo e bs1" using step_refines [OF Cons.prems(1) r(1)] by blast
  then show ?case using Cons.IH [OF _ r(2)] r(3) by fastforce
qed simp

lemma first_state: "heap_linked h \<Longrightarrow> heap_state h (heap_low h) (heap_high h) (first_row h)"
  using heap_init_rep [of h] by (simp add: heap_state_def heap_linked_def first_row_def)

section \<open>What the clients hold\<close>

text \<open>The pointers that were handed out and not given back, with the sizes of the requests.\<close>

inductive heap_run :: "heap4 \<Rightarrow> (addr \<rightharpoonup> u32) \<Rightarrow> heap4 \<Rightarrow> bool" for h0 where
  start: "heap_run h0 Map.empty h0"
| malloc: "heap_run h0 L h \<Longrightarrow> pvPortMalloc w h = Some (p, h') \<Longrightarrow> heap_run h0 (if p = 0 then L else L(p \<mapsto> w)) h'"
| free: "heap_run h0 L h \<Longrightarrow> p \<in> dom L \<Longrightarrow> vPortFree p h = Some h' \<Longrightarrow> heap_run h0 (L(p := None)) h'"

definition ledger :: "(addr \<rightharpoonup> u32) \<Rightarrow> tile list \<Rightarrow> bool" where
  "ledger L bs \<longleftrightarrow> (\<forall>p w. L p = Some w \<longrightarrow> (\<exists>a n. (a, n, True) \<in> set bs \<and> p = at (a + 8) \<and> 0 < unat w \<and> units (unat w) \<le> n)) \<and>
     (\<forall>a n. (a, n, True) \<in> set bs \<longrightarrow> at (a + 8) \<in> dom L)"

lemma tiles_disjoint:
  "tiles lo bs e \<Longrightarrow> (a, n, u) \<in> set bs \<Longrightarrow> (b, m, v) \<in> set bs \<Longrightarrow> (a, n, u) = (b, m, v) \<or> a + n \<le> b \<or> b + m \<le> a"
proof (induction lo bs e rule: tiles.induct)
  case (2 c b' k w bs e)
  have "c + k \<le> d" if "(d, j, x) \<in> set bs" for d j x using tiles_bounds [of "c + k" bs e d j x] 2(2) that by auto
  then show ?case using 2 by auto
qed simp

lemma state_facts:
  assumes "heap_state h lo e bs"
  shows "tiles lo bs e" "coalesced bs" "8 dvd lo" "0 < lo" "e < 2 ^ 32"
  using assms by (auto simp: heap_state_def heap_rep_def heap_place_def split: if_splits)

lemma pointer_facts:
  assumes "heap_state h lo e bs" "(a, n, u) \<in> set bs"
  shows "unat (at (a + 8) :: addr) = a + 8" "(at (a + 8) :: addr) \<noteq> 0" "8 \<le> n" "lo \<le> a" "a + n \<le> e" "8 dvd a"
proof -
  note s = state_facts [OF assms(1)]
  have n: "8 dvd n" "0 < n" using tiles_bounds [OF s(1) assms(2)] tiles_aligned [OF s(1,3) assms(2)] by auto
  then show "8 \<le> n" by (auto dest: dvd_imp_le)
  show le: "lo \<le> a" "a + n \<le> e" "8 dvd a" using tiles_bounds [OF s(1) assms(2)] tiles_aligned [OF s(1,3) assms(2)] by auto
  then have lt: "a + 8 < 2 ^ 32" using \<open>8 \<le> n\<close> s(5) by linarith
  show "unat (at (a + 8) :: addr) = a + 8" by (rule unat_of_nat_u32) (use lt in simp)
  have "(at (a + 8) :: addr) = at 0 \<longleftrightarrow> a + 8 = 0" by (rule at_eq_iff [OF lt]) simp
  then show "(at (a + 8) :: addr) \<noteq> 0" by (simp del: of_nat_add)
qed

lemma pointer_inj:
  assumes "heap_state h lo e bs" "(a, n, u) \<in> set bs" "(b, m, v) \<in> set bs" "(at (a + 8) :: addr) = at (b + 8)"
  shows "(a, n, u) = (b, m, v)"
proof -
  note f = pointer_facts [OF assms(1,2)] and g = pointer_facts [OF assms(1,3)]
  have "a + 8 = unat (at (a + 8) :: addr)" by (rule f(1) [symmetric])
  also have "\<dots> = unat (at (b + 8) :: addr)" by (simp only: assms(4))
  also have "\<dots> = b + 8" by (rule g(1))
  finally have "a = b" by simp
  then have "\<not> a + n \<le> b" "\<not> b + m \<le> a" using f(3) g(3) by simp_all
  then show ?thesis using tiles_disjoint [OF state_facts(1) [OF assms(1)] assms(2,3)] by blast
qed

lemma ledger_malloc:
  assumes "heap_state h lo e bs" "ledger L bs" "row_step (Malloc w) bs = Some (p, bs')"
  shows "ledger (if p = 0 then L else L(p \<mapsto> w)) bs' \<and> p \<notin> dom L"
proof (cases "tile_malloc (unat w) bs")
  case None
  then have "p = 0" "bs' = bs" using assms(3) by auto
  moreover have "0 \<notin> dom L"
  proof
    assume "0 \<in> dom L"
    then obtain c k where "(c, k, True) \<in> set bs" "0 = (at (c + 8) :: addr)" using assms(2) unfolding ledger_def dom_def by blast
    then show False using pointer_facts(2) [OF assms(1)] by metis
  qed
  ultimately show ?thesis using assms(2) by simp
next
  case (Some r)
  then obtain a where a: "tile_alloc (units (unat w)) bs = Some (a, bs')" "p = at (a + 8)" and w: "0 < unat w"
    using assms(3) by (cases r) (auto simp: tile_malloc_def split: if_splits simp del: of_nat_add)
  then obtain xs n ys where b: "bs = xs @ (a, n, False) # ys" "units (unat w) \<le> n" "bs' = xs @ taken (units (unat w)) a n @ ys"
    using tile_alloc_Some [OF a(1)] by blast
  have "p \<noteq> 0" using pointer_facts(2) [OF assms(1), of a n False] a(2) b(1) by simp
  obtain m where m: "(c, k, True) \<in> set bs' \<longleftrightarrow> (c, k, True) \<in> set bs \<or> (c, k) = (a, m)" "0 < unat w \<and> units (unat w) \<le> m" for c k
    using b w
    by (cases "n - units (unat w) > 16"; force simp: taken_def)
  have new: "p \<notin> dom L"
  proof
    assume "p \<in> dom L"
    then obtain c k where "(c, k, True) \<in> set bs" "at (a + 8) = (at (c + 8) :: addr)" using assms(2) a(2) unfolding ledger_def dom_def by blast
    then show False using pointer_inj [OF assms(1), of c k True a n False] b(1) by auto
  qed
  have "ledger (L(p \<mapsto> w)) bs'" unfolding ledger_def
  proof (intro conjI allI impI)
    fix q v assume q: "(L(p \<mapsto> w)) q = Some v"
    show "\<exists>c k. (c, k, True) \<in> set bs' \<and> q = at (c + 8) \<and> 0 < unat v \<and> units (unat v) \<le> k"
    proof (cases "q = p")
      case True
      then show ?thesis using q m(1) [of a m] m(2) a(2) by (intro exI [of _ a] exI [of _ m]) simp
    next
      case False
      then have "L q = Some v" using q by simp
      then show ?thesis using assms(2) m(1) unfolding ledger_def by blast
    qed
  next
    fix c k assume "(c, k, True) \<in> set bs'"
    then show "at (c + 8) \<in> dom (L(p \<mapsto> w))" using m(1) assms(2) a(2) unfolding ledger_def by auto
  qed
  then show ?thesis using new \<open>p \<noteq> 0\<close> by simp
qed

lemma ledger_free:
  assumes "heap_state h lo e bs" "ledger L bs" "p \<in> dom L"
  shows "\<exists>bs'. row_step (Free p) bs = Some (0, bs') \<and> ledger (L(p := None)) bs'"
proof -
  obtain a n where a: "(a, n, True) \<in> set bs" "p = at (a + 8)" using assms(2,3) unfolding ledger_def dom_def by blast
  note f = pointer_facts [OF assms(1) a(1)]
  have "row_step (Free p) bs = Some (0, tile_free a bs)"
    using f(1,2) a(2) image_eqI [of a fst "(a, n)" "set (useds bs)"] a(1) set_useds [of a n bs] by (simp del: of_nat_add)
  moreover have m: "(c, k, True) \<in> set (tile_free a bs) \<longleftrightarrow> (c, k, True) \<in> set bs \<and> c \<noteq> a" for c k
    unfolding set_useds [symmetric] tile_free_def useds_coalesce by (force simp: set_useds)
  have "ledger (L(p := None)) (tile_free a bs)" unfolding ledger_def
  proof (intro conjI allI impI)
    fix q v assume "(L(p := None)) q = Some v"
    then have q: "L q = Some v" "q \<noteq> p" by (auto split: if_splits)
    then obtain c k where c: "(c, k, True) \<in> set bs" "q = at (c + 8)" "0 < unat v \<and> units (unat v) \<le> k" using assms(2) unfolding ledger_def by blast
    then have "c \<noteq> a" using q(2) a(2) by blast
    then show "\<exists>c k. (c, k, True) \<in> set (tile_free a bs) \<and> q = at (c + 8) \<and> 0 < unat v \<and> units (unat v) \<le> k" using c m by blast
  next
    fix c k assume "(c, k, True) \<in> set (tile_free a bs)"
    then have c: "(c, k, True) \<in> set bs" "c \<noteq> a" using m by blast+
    then have "at (c + 8) \<in> dom L" using assms(2) unfolding ledger_def by blast
    moreover have "at (c + 8) \<noteq> p" using pointer_inj [OF assms(1) c(1) a(1)] c(2) a(2) by blast
    ultimately show "at (c + 8) \<in> dom (L(p := None))" by (auto simp del: of_nat_add)
  qed
  ultimately show ?thesis by blast
qed

lemma heap_run_state:
  assumes "heap_linked h0" "heap_run h0 L h"
  shows "\<exists>bs. heap_state h (heap_low h0) (heap_high h0) bs \<and> ledger L bs"
  using assms(2)
proof (induction rule: heap_run.induct)
  case start
  have "ledger Map.empty (first_row h0)" by (simp add: ledger_def first_row_def)
  then show ?case using first_state [OF assms(1)] by blast
next
  case (malloc L h w p h')
  then obtain bs where bs: "heap_state h (heap_low h0) (heap_high h0) bs" "ledger L bs" by blast
  obtain p' bs' where r: "row_step (Malloc w) bs = Some (p', bs')"
    by (cases "tile_malloc (unat w) bs") (auto simp del: of_nat_add)
  then have "p' = p" "heap_state h' (heap_low h0) (heap_high h0) bs'" using step_refines [OF bs(1) r] malloc(2) by auto
  then show ?case using ledger_malloc [OF bs] r by blast
next
  case (free L h p h')
  then obtain bs where bs: "heap_state h (heap_low h0) (heap_high h0) bs" "ledger L bs" by blast
  then obtain bs' where r: "row_step (Free p) bs = Some (0, bs')" "ledger (L(p := None)) bs'" using ledger_free free(2) by blast
  obtain h'' where "heap_step (Free p) h = Some (0, h'')" "heap_state h'' (heap_low h0) (heap_high h0) bs'"
    using step_refines [OF bs(1) r(1)] by blast
  then show ?case using free(3) r(2) by (intro exI [of _ bs']) (auto simp del: fun_upd_apply)
qed

section \<open>The interface\<close>

definition heap_held :: "(addr \<rightharpoonup> u32) \<Rightarrow> heap4 \<Rightarrow> bool" where
  "heap_held L h \<longleftrightarrow> (\<exists>h0. heap_linked h0 \<and> heap_run h0 L h)"

text \<open>The bytes of a block behind its header.\<close>

definition heap_room :: "heap4 \<Rightarrow> addr \<Rightarrow> nat" where
  "heap_room h p = unat (size_of h (p - xHeapStructSize) AND NOT (xBlockAllocatedBit h)) - 8"

lemma heap_room_used:
  assumes "heap_state h lo e bs" "(a, n, True) \<in> set bs"
  shows "heap_room h (at (a + 8)) = n - 8"
proof -
  have rep: "heap_rep h lo e bs" using assms set_useds [of a n bs] by (auto simp: heap_state_def split: if_splits)
  have p: "heap_place h lo e" "tiles lo bs e" using rep by (simp_all add: heap_rep_def)
  have n: "n < 2 ^ 31" using place_distinct(6) [OF p assms(2)] by blast
  have "unat ((of_nat n OR owner_bit) AND NOT owner_bit) = n" unfolding word_bit31(2) [OF n] by (rule unat_of_nat_u32) (use n in simp)
  then show ?thesis using used_header [OF rep assms(2)] p(1) unfolding heap_room_def heap_pointer heap_place_def by simp
qed

interpretation heap: allocator pvPortMalloc vPortFree heap_held heap_room
proof
  fix L h w
  assume "heap_held L h"
  then obtain h0 bs where h0: "heap_linked h0" "heap_run h0 L h" and bs: "heap_state h (heap_low h0) (heap_high h0) bs" "ledger L bs"
    using heap_run_state unfolding heap_held_def by blast
  obtain q bs' where r: "row_step (Malloc w) bs = Some (q, bs')"
    by (cases "tile_malloc (unat w) bs") (auto simp del: of_nat_add)
  then obtain h' where "heap_step (Malloc w) h = Some (q, h')" using step_refines [OF bs(1)] by blast
  then have "pvPortMalloc w h = Some (q, h')" "q \<notin> dom L" using ledger_malloc [OF bs r] by auto
  then show "\<exists>p h'. pvPortMalloc w h = Some (p, h') \<and> p \<notin> dom L \<and> heap_held (if p = 0 then L else L(p \<mapsto> w)) h'"
    using h0 heap_run.malloc [OF h0(2)] unfolding heap_held_def by blast
next
  fix L h p
  assume "heap_held L h" and p: "p \<in> dom L"
  then obtain h0 bs where h0: "heap_linked h0" "heap_run h0 L h" and bs: "heap_state h (heap_low h0) (heap_high h0) bs" "ledger L bs"
    using heap_run_state unfolding heap_held_def by blast
  obtain bs' where "row_step (Free p) bs = Some (0, bs')" using ledger_free [OF bs p] by blast
  then obtain h' where "heap_step (Free p) h = Some (0, h')" using step_refines [OF bs(1)] by blast
  then show "\<exists>h'. vPortFree p h = Some h' \<and> heap_held (L(p := None)) h'"
    using h0 heap_run.free [OF h0(2) p] unfolding heap_held_def by auto
next
  fix L h
  assume "heap_held L h"
  then obtain h0 bs where bs: "heap_state h (heap_low h0) (heap_high h0) bs" "ledger L bs"
    using heap_run_state unfolding heap_held_def by blast
  show "0 \<notin> dom L"
  proof
    assume "0 \<in> dom L"
    then obtain c k where "(c, k, True) \<in> set bs" "0 = (at (c + 8) :: addr)" using bs(2) unfolding ledger_def dom_def by blast
    then show False using pointer_facts(2) [OF bs(1)] by metis
  qed
next
  fix L h p and w :: u32
  assume "heap_held L h" "L p = Some w"
  then obtain h0 bs where bs: "heap_state h (heap_low h0) (heap_high h0) bs" "ledger L bs"
    using heap_run_state unfolding heap_held_def by blast
  then obtain a n where a: "(a, n, True) \<in> set bs" "p = at (a + 8)" "0 < unat w" "units (unat w) \<le> n"
    using \<open>L p = Some w\<close> unfolding ledger_def by blast
  have "(unat w + 15) div 8 = (unat w + 7) div 8 + 1" by presburger
  then have "(unat w + 7) div 8 * 8 \<le> n - 8" using a(4) by (simp add: units_def)
  then show "0 < unat w \<and> (unat w + 7) div 8 * 8 \<le> heap_room h p" unfolding a(2) heap_room_used [OF bs(1) a(1)] using a(3) by blast
qed

text \<open>The block of what is held, and where it lies.\<close>

lemma held_block:
  assumes "heap_linked h0" "heap_state h (heap_low h0) (heap_high h0) bs" "ledger L bs" "L p = Some n"
  shows "\<exists>a k. (a, k, True) \<in> set bs \<and> p = at (a + 8) \<and> unat p = a + 8 \<and> unat n + 8 \<le> k \<and> heap_low h0 \<le> a \<and> a + k \<le> heap_high h0 \<and> 8 dvd a"
proof -
  obtain a k where a: "(a, k, True) \<in> set bs" "p = at (a + 8)" "units (unat n) \<le> k" using assms(3,4) unfolding ledger_def by blast
  have "unat n + 8 \<le> k" using units_facts(2) [of "unat n"] a(3) by linarith
  then show ?thesis using pointer_facts [OF assms(2) a(1)] a(1,2) by blast
qed

lemma held_bounds:
  assumes "heap_linked h0" "heap_run h0 L h" "L p = Some n"
  shows "8 dvd unat p \<and> unat (ucHeap h0) + 8 \<le> unat p \<and> unat p + unat n \<le> unat (ucHeap h0) + 155640"
proof -
  obtain bs where bs: "heap_state h (heap_low h0) (heap_high h0) bs" "ledger L bs" using heap_run_state [OF assms(1,2)] by blast
  obtain a k where "unat p = a + 8" "unat n + 8 \<le> k" "heap_low h0 \<le> a" "a + k \<le> heap_high h0" "8 dvd a"
    using held_block [OF assms(1) bs assms(3)] by blast
  then show ?thesis using heap_bounds(1,2) [OF assms(1)] by auto
qed

section \<open>Properties\<close>

lemma row_whole:
  assumes "heap_state h lo e bs" "useds bs = []" "lo < e"
  shows "bs = [(lo, e - lo, False)]"
proof -
  note s = state_facts [OF assms(1)]
  obtain a n u bs' where b: "bs = (a, n, u) # bs'" using s(1) assms(3) by (cases bs) auto
  have "bs' = []"
  proof (cases bs')
    case (Cons x xs)
    then show ?thesis using s(2) assms(2) b by (cases x) (auto split: if_splits)
  qed simp
  then show ?thesis using s(1) assms(2) b by (auto split: if_splits)
qed

text \<open>
  C18. Any sequence of requests and returns, from the start, gives the pointers that the row of blocks
  promises: the first free block that is big enough, or null exactly if there is none.
\<close>

theorem heap_refines_row:
  assumes "heap_linked h" "exec row_step xs (first_row h) = Some (ps, bs)"
  shows "\<exists>h'. exec heap_step xs h = Some (ps, h')"
  using exec_refines [OF first_state [OF assms(1)] assms(2)] by blast

text \<open>
  C17. What the clients hold is aligned, lies in the heap and does not overlap, whatever was requested and returned
  before: neither function stops or runs into an endless loop, and a new block is none of the held ones.
\<close>

theorem heap_blocks_safe:
  assumes "heap_linked h0" "heap_run h0 L h"
  shows "(\<forall>w. \<exists>q h'. pvPortMalloc w h = Some (q, h') \<and> q \<notin> dom L) \<and> (\<forall>p\<in>dom L. \<exists>h'. vPortFree p h = Some h') \<and>
    (\<forall>p n. L p = Some n \<longrightarrow> 8 dvd unat p \<and> unat (ucHeap h0) + 8 \<le> unat p \<and> unat p + unat n \<le> unat (ucHeap h0) + 155640 \<and>
       (\<forall>q m. L q = Some m \<and> q \<noteq> p \<longrightarrow> unat p + unat n + 8 \<le> unat q \<or> unat q + unat m + 8 \<le> unat p))"
proof -
  obtain bs where bs: "heap_state h (heap_low h0) (heap_high h0) bs" "ledger L bs" using heap_run_state [OF assms] by blast
  note b = heap_bounds [OF assms(1)]
  note held = held_block [OF assms(1) bs]
  have hold: "heap_held L h" using assms unfolding heap_held_def by blast
  have "\<exists>q h'. pvPortMalloc w h = Some (q, h') \<and> q \<notin> dom L" for w using heap.get [OF hold] by blast
  moreover have "\<exists>h'. vPortFree p h = Some h'" if "p \<in> dom L" for p using heap.ret [OF hold that] by blast
  moreover have "8 dvd unat p \<and> unat (ucHeap h0) + 8 \<le> unat p \<and> unat p + unat n \<le> unat (ucHeap h0) + 155640" if p: "L p = Some n" for p n
    by (rule held_bounds [OF assms p])
  moreover have "unat p + unat n + 8 \<le> unat q \<or> unat q + unat m + 8 \<le> unat p" if p: "L p = Some n" and q: "L q = Some m" "q \<noteq> p" for p n q m
  proof -
    obtain a k where a: "(a, k, True) \<in> set bs" "p = at (a + 8)" "unat p = a + 8" "unat n + 8 \<le> k" using held [OF p] by blast
    obtain c l where c: "(c, l, True) \<in> set bs" "q = at (c + 8)" "unat q = c + 8" "unat m + 8 \<le> l" using held [OF q(1)] by blast
    have "a \<noteq> c" using a(2) c(2) q(2) by blast
    then have "a + k \<le> c \<or> c + l \<le> a" using tiles_disjoint [OF state_facts(1) [OF bs(1)] a(1) c(1)] by blast
    then show ?thesis using a(3,4) c(3,4) by linarith
  qed
  ultimately show ?thesis by blast
qed

text \<open>
  C20. Nothing is lost: once every block has been given back, in whatever order, the heap is one block again:
  all of its bytes are reported as free, and a request of up to 155624 bytes succeeds.
\<close>

theorem heap_whole_again:
  assumes "heap_linked h0" "heap_run h0 Map.empty h" "0 < unat w" "unat w \<le> 155624"
  shows "(\<exists>h'. pvPortMalloc w h = Some (of_nat (heap_low h0 + 8), h')) \<and>
    (pxEnd h = 0 \<or> xPortGetFreeHeapSize h = of_nat (heap_high h0 - heap_low h0))"
proof -
  obtain bs where bs: "heap_state h (heap_low h0) (heap_high h0) bs" "ledger Map.empty bs" using heap_run_state [OF assms(1,2)] by blast
  note b = heap_bounds [OF assms(1)]
  have "useds bs = []"
  proof (cases "useds bs")
    case (Cons x xs)
    then have "(fst x, snd x, True) \<in> set bs" using set_useds [of "fst x" "snd x" bs] by simp
    then show ?thesis using bs(2) unfolding ledger_def by fastforce
  qed simp
  then have one: "bs = [(heap_low h0, heap_high h0 - heap_low h0, False)]" using row_whole [OF bs(1)] b(3) by simp
  moreover have "units (unat w) \<le> 155632" using assms(4) unfolding units_def by auto
  then have "units (unat w) \<le> heap_high h0 - heap_low h0" using b(3) by linarith
  ultimately have "\<exists>bs'. row_step (Malloc w) bs = Some (of_nat (heap_low h0 + 8), bs')"
    using assms(3,4) by (simp add: tile_malloc_def)
  then have "\<exists>h'. pvPortMalloc w h = Some (of_nat (heap_low h0 + 8), h')" using step_refines [OF bs(1)] by fastforce
  moreover have "pxEnd h = 0 \<or> xPortGetFreeHeapSize h = of_nat (heap_high h0 - heap_low h0)"
    using bs(1) one by (auto simp: heap_state_def heap_rep_def xPortGetFreeHeapSize_def free_bytes_def split: if_splits)
  ultimately show ?thesis by blast
qed

section \<open>Witnesses\<close>

definition sample_heap :: heap4 where
  "sample_heap = \<lparr>xStart = 0x20000000, ucHeap = 0x20000103, hp_link = (\<lambda>_. \<lparr>pxNextFreeBlock = 0, xBlockSize = 0\<rparr>), pxEnd = 0,
     xFreeBytesRemaining = 0, xMinimumEverFreeBytesRemaining = 0, xBlockAllocatedBit = 0\<rparr>"

lemma sample_linked: "heap_linked sample_heap"
  by (simp add: heap_linked_def sample_heap_def)

lemma sample_row: "first_row sample_heap = [(0x20000108, 155632, False)]"
  by (simp add: first_row_def heap_low_def heap_high_def sample_heap_def)

theorem heap_refines_row_witness:
  "\<exists>h'. exec heap_step [Malloc 100, Malloc 20, Malloc 50, Free 0x20000180, Free 0x20000110, Malloc 130, Malloc 200000] sample_heap =
     Some ([0x20000110, 0x20000180, 0x200001a0, 0, 0, 0x20000110, 0], h')"
  by (rule heap_refines_row [OF sample_linked])
    (simp add: sample_row tile_malloc_def units_def tile_free_def)

lemma sample_run: "\<exists>h. heap_run sample_heap [0x20000110 \<mapsto> 100] h"
proof -
  have "exec row_step [Malloc 100] (first_row sample_heap) = Some ([0x20000110], [(0x20000108, 112, True), (0x20000178, 155520, False)])"
    by (simp add: sample_row tile_malloc_def units_def)
  then obtain h where "exec heap_step [Malloc 100] sample_heap = Some ([0x20000110], h)"
    using exec_refines [OF first_state [OF sample_linked]] by blast
  then have "pvPortMalloc 100 sample_heap = Some (0x20000110, h)" by (auto split: option.splits)
  from heap_run.malloc [OF heap_run.start this] show ?thesis by auto
qed

theorem heap_blocks_safe_witness:
  "\<exists>h h'. heap_run sample_heap [0x20000110 \<mapsto> 100] h \<and> vPortFree 0x20000110 h = Some h' \<and> (\<exists>q h'. pvPortMalloc 7 h = Some (q, h') \<and> q \<noteq> 0x20000110)"
proof -
  obtain h where h: "heap_run sample_heap [0x20000110 \<mapsto> 100] h" using sample_run by blast
  note c = heap_blocks_safe [OF sample_linked h]
  have d: "dom [0x20000110 \<mapsto> (100 :: u32)] = {0x20000110 :: addr}" by simp
  obtain h' where "vPortFree 0x20000110 h = Some h'" using conjunct1 [OF conjunct2 [OF c]] unfolding d by blast
  moreover have "\<exists>q h'. pvPortMalloc 7 h = Some (q, h') \<and> q \<noteq> 0x20000110" using spec [OF conjunct1 [OF c], of 7] unfolding d by blast
  ultimately show ?thesis using h by blast
qed

theorem heap_whole_again_witness:
  "\<exists>h h'. heap_run sample_heap Map.empty h \<and> pvPortMalloc 155624 h = Some (0x20000110, h')"
proof -
  have "heap_low sample_heap = 0x20000108" by (simp add: heap_low_def sample_heap_def)
  then show ?thesis using heap_whole_again [OF sample_linked heap_run.start, of 155624] heap_run.start by fastforce
qed

end
