(* ===== verification/SecureSockets.thy ===== *)
theory SecureSockets
  imports HeapRuns FreeRTOSTask "HOL-Library.Monad_Syntax"
begin

text \<open>
  The secure sockets (\<open>AWS/secure_sockets/portable/Tiva/aws_secure_sockets.c\<close>): a context around a socket of lwIP, with the
  options of a connection in blocks of the heap. The calls of lwIP and of the TLS layer go to an environment, whose answers
  may depend on everything that happened before. None is a failed assertion of the heap, a null pointer that is
  dereferenced, or an access outside of a block or of an argument.
\<close>

section \<open>State\<close>

record SSOCKETContext_t =
  ctx_xSocket :: u32
  pcDestination :: addr
  pvTLSContext :: addr
  xRequireTLS :: u32
  xSendFlags :: u32
  xRecvFlags :: u32
  pcServerCertificate :: addr
  ulServerCertificateLength :: u32
  ppcAlpnProtocols :: addr
  ulAlpnProtocolsCount :: u32

record TLSParams_t =
  tp_pcDestination :: addr
  tp_pcServerCertificate :: addr
  tp_ulServerCertificateLength :: u32
  tp_ppcAlpnProtocols :: addr
  tp_ulAlpnProtocolsCount :: u32
  tp_pvCallerContext :: addr

text \<open>
  What the pointer to the value of an option points to: strings are the bytes before their terminator.
  Then the calls of the code below, with their arguments.
\<close>

datatype option_value = NoValue | Bytes "u8 list" | Ticks u32 | Protocols "u8 list list"

datatype net_call =
    LwipSocket u32 u32 u32
  | LwipClose u32
  | LwipConnect u32 u8 u16 u32 u32
  | LwipSend u32 "u8 list" u32
  | LwipRecv u32 u32 u32
  | LwipSetsockopt u32 u32 u32 option_value u32
  | LwipShutdown u32 u32
  | LwipGethostbyname "u8 list"
  | TlsInit TLSParams_t
  | TlsConnect addr
  | TlsRecv addr u32
  | TlsSend addr "u8 list"
  | TlsCleanup addr

text \<open>The answers: the result of a call and, for those that have one, the pointer or the data they hand over.\<close>

record net_env =
  ne_result :: "net_call list \<Rightarrow> u32"
  ne_pointer :: "net_call list \<Rightarrow> addr"
  ne_data :: "net_call list \<Rightarrow> u8 list"

text \<open>Memory: the heap, the contexts, the words of arrays of pointers, and the bytes of blocks.\<close>

record sockets =
  sk_heap :: heap4
  sk_ctx :: "addr \<Rightarrow> SSOCKETContext_t"
  sk_word :: "addr \<Rightarrow> addr"
  sk_text :: "addr \<Rightarrow> u8 list"
  sk_calls :: "net_call list"

definition call :: "net_env \<Rightarrow> net_call \<Rightarrow> sockets \<Rightarrow> u32 \<times> sockets" where
  "call E c s = (let s = s\<lparr>sk_calls := c # sk_calls s\<rparr> in (ne_result E (sk_calls s), s))"

definition upd_ctx :: "addr \<Rightarrow> (SSOCKETContext_t \<Rightarrow> SSOCKETContext_t) \<Rightarrow> sockets \<Rightarrow> sockets" where
  "upd_ctx p f s = s\<lparr>sk_ctx := (sk_ctx s)(p := f (sk_ctx s p))\<rparr>"

definition set_word :: "addr \<Rightarrow> addr \<Rightarrow> sockets \<Rightarrow> sockets" where
  "set_word a v s = s\<lparr>sk_word := (sk_word s)(a := v)\<rparr>"

definition set_text :: "addr \<Rightarrow> u8 list \<Rightarrow> sockets \<Rightarrow> sockets" where
  "set_text a bs s = s\<lparr>sk_text := (sk_text s)(a := bs)\<rparr>"

definition sk_malloc :: "u32 \<Rightarrow> sockets \<Rightarrow> (addr \<times> sockets) option" where
  "sk_malloc n s = map_option (\<lambda>(p, h). (p, s\<lparr>sk_heap := h\<rparr>)) (pvPortMalloc n (sk_heap s))"

definition sk_free :: "addr \<Rightarrow> sockets \<Rightarrow> sockets option" where
  "sk_free p s = map_option (\<lambda>h. s\<lparr>sk_heap := h\<rparr>) (vPortFree p (sk_heap s))"

definition zero_ctx :: SSOCKETContext_t where
  "zero_ctx = \<lparr>ctx_xSocket = 0, pcDestination = 0, pvTLSContext = 0, xRequireTLS = 0, xSendFlags = 0, xRecvFlags = 0,
     pcServerCertificate = 0, ulServerCertificateLength = 0, ppcAlpnProtocols = 0, ulAlpnProtocolsCount = 0\<rparr>"

definition SOCKETS_ERROR_NONE :: u32 where "SOCKETS_ERROR_NONE = 0"
definition SOCKETS_SOCKET_ERROR :: u32 where "SOCKETS_SOCKET_ERROR = - 1"
definition SOCKETS_ENOMEM :: u32 where "SOCKETS_ENOMEM = - 12"
definition SOCKETS_INVALID_SOCKET :: addr where "SOCKETS_INVALID_SOCKET = - 1"
definition pdFREERTOS_ERRNO_ENOMEM :: u32 where "pdFREERTOS_ERRNO_ENOMEM = 12"
definition SOCKETS_SO_RCVTIMEO :: u32 where "SOCKETS_SO_RCVTIMEO = 0"
definition SOCKETS_SO_SNDTIMEO :: u32 where "SOCKETS_SO_SNDTIMEO = 1"
definition SOCKETS_SO_SERVER_NAME_INDICATION :: u32 where "SOCKETS_SO_SERVER_NAME_INDICATION = 6"
definition SOCKETS_SO_TRUSTED_SERVER_CERTIFICATE :: u32 where "SOCKETS_SO_TRUSTED_SERVER_CERTIFICATE = 7"
definition SOCKETS_SO_REQUIRE_TLS :: u32 where "SOCKETS_SO_REQUIRE_TLS = 8"
definition SOCKETS_SO_NONBLOCK :: u32 where "SOCKETS_SO_NONBLOCK = 9"
definition SOCKETS_SO_ALPN_PROTOCOLS :: u32 where "SOCKETS_SO_ALPN_PROTOCOLS = 10"
definition SO_SNDTIMEO :: u32 where "SO_SNDTIMEO = 0x1005"
definition SO_RCVTIMEO :: u32 where "SO_RCVTIMEO = 0x1006"

section \<open>Operations\<close>

definition prvNetworkSend :: "net_env \<Rightarrow> addr \<Rightarrow> u8 list \<Rightarrow> sockets \<Rightarrow> u32 \<times> sockets" where
  "prvNetworkSend E p pucData s = (let c = sk_ctx s p in call E (LwipSend (ctx_xSocket c) pucData (xSendFlags c)) s)"

definition prvNetworkRecv :: "net_env \<Rightarrow> addr \<Rightarrow> u32 \<Rightarrow> sockets \<Rightarrow> u32 \<times> sockets" where
  "prvNetworkRecv E p xReceiveLength s = (let c = sk_ctx s p in call E (LwipRecv (ctx_xSocket c) xReceiveLength (xRecvFlags c)) s)"

fun free_protocols :: "addr \<Rightarrow> nat \<Rightarrow> nat \<Rightarrow> sockets \<Rightarrow> sockets option" where
  "free_protocols arr ulProtocol 0 s = Some s"
| "free_protocols arr ulProtocol (Suc n) s =
     do { let q = sk_word s (arr + 4 * of_nat ulProtocol);
          s \<leftarrow> (if q \<noteq> 0 then sk_free q s else Some s);
          free_protocols arr (ulProtocol + 1) n s }"

definition SOCKETS_Close :: "net_env \<Rightarrow> addr \<Rightarrow> sockets \<Rightarrow> (u32 \<times> sockets) option" where
  "SOCKETS_Close E xSocket s =
     (if xSocket \<noteq> 0 then
        do { let c = sk_ctx s xSocket;
             s \<leftarrow> (if pcDestination c \<noteq> 0 then sk_free (pcDestination c) s else Some s);
             s \<leftarrow> (if pcServerCertificate c \<noteq> 0 then sk_free (pcServerCertificate c) s else Some s);
             s \<leftarrow> (if ppcAlpnProtocols c \<noteq> 0
                  then do { s \<leftarrow> free_protocols (ppcAlpnProtocols c) 0 (unat (ulAlpnProtocolsCount c)) s;
                            sk_free (ppcAlpnProtocols c) s }
                  else Some s);
             let s = (if xRequireTLS c = 1 then snd (call E (TlsCleanup (pvTLSContext c)) s) else s);
             let s = snd (call E (LwipClose (ctx_xSocket c)) s);
             s \<leftarrow> sk_free xSocket s;
             Some (0, s) }
      else Some (0, s))"

definition tls_params :: "addr \<Rightarrow> SSOCKETContext_t \<Rightarrow> TLSParams_t" where
  "tls_params p c = \<lparr>tp_pcDestination = pcDestination c, tp_pcServerCertificate = pcServerCertificate c,
     tp_ulServerCertificateLength = ulServerCertificateLength c, tp_ppcAlpnProtocols = ppcAlpnProtocols c,
     tp_ulAlpnProtocolsCount = ulAlpnProtocolsCount c, tp_pvCallerContext = p\<rparr>"

text \<open>The address is a domain, a port and an IP address, or None for a null pointer.\<close>

definition SOCKETS_Connect :: "net_env \<Rightarrow> addr \<Rightarrow> (u8 \<times> u16 \<times> u32) option \<Rightarrow> u32 \<Rightarrow> sockets \<Rightarrow> (u32 \<times> sockets) option" where
  "SOCKETS_Connect E xSocket pxAddress xAddressLength s =
     (case pxAddress of
        None \<Rightarrow> Some (SOCKETS_SOCKET_ERROR, s)
      | Some (ucSocketDomain, usPort, ulAddress) \<Rightarrow>
          if xSocket = SOCKETS_INVALID_SOCKET then Some (SOCKETS_SOCKET_ERROR, s)
          else if xSocket = 0 then None
          else
            (let (lStatus, s) = call E (LwipConnect (ctx_xSocket (sk_ctx s xSocket)) ucSocketDomain usPort ulAddress (xAddressLength + 8)) s in
             if lStatus = SOCKETS_ERROR_NONE \<and> xRequireTLS (sk_ctx s xSocket) = 1 then
               (let (lStatus, s) = call E (TlsInit (tls_params xSocket (sk_ctx s xSocket))) s;
                    s = upd_ctx xSocket (\<lambda>c. c\<lparr>pvTLSContext := ne_pointer E (sk_calls s)\<rparr>) s in
                if lStatus = SOCKETS_ERROR_NONE then Some (call E (TlsConnect (pvTLSContext (sk_ctx s xSocket))) s)
                else Some (lStatus, s))
             else Some (lStatus, s)))"

text \<open>The IP address is the word that the answer of lwIP points to.\<close>

definition SOCKETS_GetHostByName :: "net_env \<Rightarrow> u8 list \<Rightarrow> sockets \<Rightarrow> (u32 \<times> sockets) option" where
  "SOCKETS_GetHostByName E pcHostName s =
     (let (r, s) = call E (LwipGethostbyname pcHostName) s in
      if ne_pointer E (sk_calls s) = 0 then None else Some (r, s))"

text \<open>The status and the bytes that were received; \<open>b\<close> tells whether there is a buffer.\<close>

definition SOCKETS_Recv :: "net_env \<Rightarrow> addr \<Rightarrow> bool \<Rightarrow> u32 \<Rightarrow> u32 \<Rightarrow> sockets \<Rightarrow> (u32 \<times> u8 list \<times> sockets) option" where
  "SOCKETS_Recv E xSocket b xBufferLength ulFlags s =
     (if xSocket = 0 \<or> xSocket = SOCKETS_INVALID_SOCKET then None
      else
        (let s = upd_ctx xSocket (\<lambda>c. c\<lparr>xRecvFlags := ulFlags\<rparr>) s in
         if b then
           (let (lStatus, s) = (if xRequireTLS (sk_ctx s xSocket) = 1
              then call E (TlsRecv (pvTLSContext (sk_ctx s xSocket)) xBufferLength) s
              else prvNetworkRecv E xSocket xBufferLength s) in
            Some (lStatus, ne_data E (sk_calls s), s))
         else Some (SOCKETS_SOCKET_ERROR, [], s)))"

definition SOCKETS_Send :: "net_env \<Rightarrow> addr \<Rightarrow> u8 list option \<Rightarrow> u32 \<Rightarrow> sockets \<Rightarrow> (u32 \<times> sockets) option" where
  "SOCKETS_Send E xSocket pvBuffer ulFlags s =
     (case pvBuffer of
        None \<Rightarrow> Some (SOCKETS_SOCKET_ERROR, s)
      | Some d \<Rightarrow>
          if xSocket = SOCKETS_INVALID_SOCKET then Some (SOCKETS_SOCKET_ERROR, s)
          else if xSocket = 0 then None
          else
            (let s = upd_ctx xSocket (\<lambda>c. c\<lparr>xSendFlags := ulFlags\<rparr>) s in
             Some (if xRequireTLS (sk_ctx s xSocket) = 1 then call E (TlsSend (pvTLSContext (sk_ctx s xSocket)) d) s
                   else prvNetworkSend E xSocket d s)))"

text \<open>An entry of an array of pointers; the access has to be within the block.\<close>

definition store_pointer :: "addr \<Rightarrow> nat \<Rightarrow> addr \<Rightarrow> sockets \<Rightarrow> sockets option" where
  "store_pointer arr i q s =
     (if 4 * (i + 1) \<le> heap_room (sk_heap s) arr then Some (set_word (arr + 4 * of_nat i) q s) else None)"

fun copy_protocols :: "addr \<Rightarrow> nat \<Rightarrow> u8 list list \<Rightarrow> sockets \<Rightarrow> (u32 \<times> sockets) option" where
  "copy_protocols arr ulProtocol [] s = Some (0, s)"
| "copy_protocols arr ulProtocol (p # ps) s =
     do { (q, s) \<leftarrow> sk_malloc (1 + of_nat (length p)) s;
          s \<leftarrow> store_pointer arr ulProtocol q s;
          if q = 0 then Some (pdFREERTOS_ERRNO_ENOMEM, s)
          else if length p + 1 \<le> heap_room (sk_heap s) q
          then copy_protocols arr (ulProtocol + 1) ps (set_text q (p @ [0]) s) else None }"

definition set_destination :: "addr \<Rightarrow> option_value \<Rightarrow> u32 \<Rightarrow> sockets \<Rightarrow> (u32 \<times> sockets) option" where
  "set_destination xSocket v xOptionLength s =
     do { (p, s) \<leftarrow> sk_malloc (1 + xOptionLength) s;
          let s = upd_ctx xSocket (\<lambda>c. c\<lparr>pcDestination := p\<rparr>) s;
          if p = 0 then Some (pdFREERTOS_ERRNO_ENOMEM, s)
          else case v of
            Bytes bs \<Rightarrow>
              if unat xOptionLength \<le> length bs \<and> unat xOptionLength + 1 \<le> heap_room (sk_heap s) p
              then Some (0, set_text p (take (unat xOptionLength) bs @ [0]) s) else None
          | _ \<Rightarrow> None }"

definition set_certificate :: "addr \<Rightarrow> option_value \<Rightarrow> u32 \<Rightarrow> sockets \<Rightarrow> (u32 \<times> sockets) option" where
  "set_certificate xSocket v xOptionLength s =
     do { (p, s) \<leftarrow> sk_malloc xOptionLength s;
          let s = upd_ctx xSocket (\<lambda>c. c\<lparr>pcServerCertificate := p\<rparr>) s;
          if p = 0 then Some (pdFREERTOS_ERRNO_ENOMEM, s)
          else case v of
            Bytes bs \<Rightarrow>
              if unat xOptionLength \<le> length bs \<and> unat xOptionLength \<le> heap_room (sk_heap s) p
              then Some (0, upd_ctx xSocket (\<lambda>c. c\<lparr>ulServerCertificateLength := xOptionLength\<rparr>)
                     (set_text p (take (unat xOptionLength) bs) s)) else None
          | _ \<Rightarrow> None }"

definition set_protocols :: "addr \<Rightarrow> option_value \<Rightarrow> u32 \<Rightarrow> sockets \<Rightarrow> (u32 \<times> sockets) option" where
  "set_protocols xSocket v xOptionLength s =
     do { let s = upd_ctx xSocket (\<lambda>c. c\<lparr>ulAlpnProtocolsCount := 1 + xOptionLength\<rparr>) s;
          (p, s) \<leftarrow> sk_malloc (1 + xOptionLength) s;
          let s = upd_ctx xSocket (\<lambda>c. c\<lparr>ppcAlpnProtocols := p\<rparr>) s;
          if p = 0 then Some (pdFREERTOS_ERRNO_ENOMEM, s)
          else do {
            s \<leftarrow> store_pointer p (unat xOptionLength) 0 s;
            case v of
              Protocols ps \<Rightarrow> if unat xOptionLength \<le> length ps then copy_protocols p 0 (take (unat xOptionLength) ps) s else None
            | _ \<Rightarrow> None } }"

definition set_timeout :: "net_env \<Rightarrow> addr \<Rightarrow> u32 \<Rightarrow> u32 \<Rightarrow> u32 \<Rightarrow> u32 \<Rightarrow> sockets \<Rightarrow> u32 \<times> sockets" where
  "set_timeout E xSocket lLevel lOption t n s =
     call E (LwipSetsockopt (ctx_xSocket (sk_ctx s xSocket)) lLevel lOption (Ticks t) n) s"

definition SOCKETS_SetSockOpt :: "net_env \<Rightarrow> addr \<Rightarrow> u32 \<Rightarrow> u32 \<Rightarrow> option_value \<Rightarrow> u32 \<Rightarrow> sockets \<Rightarrow> (u32 \<times> sockets) option" where
  "SOCKETS_SetSockOpt E xSocket lLevel lOptionName v xOptionLength s =
     (if xSocket = 0 then None
      else if lOptionName = SOCKETS_SO_SERVER_NAME_INDICATION then set_destination xSocket v xOptionLength s
      else if lOptionName = SOCKETS_SO_TRUSTED_SERVER_CERTIFICATE then set_certificate xSocket v xOptionLength s
      else if lOptionName = SOCKETS_SO_REQUIRE_TLS then Some (0, upd_ctx xSocket (\<lambda>c. c\<lparr>xRequireTLS := 1\<rparr>) s)
      else if lOptionName = SOCKETS_SO_ALPN_PROTOCOLS then set_protocols xSocket v xOptionLength s
      else if lOptionName = SOCKETS_SO_NONBLOCK then
        (let (lStatus, s) = set_timeout E xSocket lLevel SO_RCVTIMEO 100 4 s in
         Some (if lStatus = SOCKETS_ERROR_NONE then set_timeout E xSocket lLevel SO_SNDTIMEO 1000 4 s else (lStatus, s)))
      else if lOptionName = SOCKETS_SO_RCVTIMEO \<or> lOptionName = SOCKETS_SO_SNDTIMEO then
        (case v of
           Ticks t \<Rightarrow> Some (set_timeout E xSocket lLevel (if lOptionName = SOCKETS_SO_RCVTIMEO then SO_RCVTIMEO else SO_SNDTIMEO)
                       (if t = 0 then portMAX_DELAY else t) xOptionLength s)
         | _ \<Rightarrow> None)
      else Some (call E (LwipSetsockopt (ctx_xSocket (sk_ctx s xSocket)) lLevel lOptionName v xOptionLength) s))"

definition SOCKETS_Shutdown :: "net_env \<Rightarrow> addr \<Rightarrow> u32 \<Rightarrow> sockets \<Rightarrow> (u32 \<times> sockets) option" where
  "SOCKETS_Shutdown E xSocket ulHow s =
     (if xSocket = 0 then None else Some (call E (LwipShutdown (ctx_xSocket (sk_ctx s xSocket)) ulHow) s))"

text \<open>The context has 40 bytes. If there is no memory for it the descriptor is closed as if it were a context.\<close>

definition SOCKETS_Socket :: "net_env \<Rightarrow> u32 \<Rightarrow> u32 \<Rightarrow> u32 \<Rightarrow> sockets \<Rightarrow> (addr \<times> sockets) option" where
  "SOCKETS_Socket E lDomain lType lProtocol s =
     (let (xSocket, s) = call E (LwipSocket lDomain lType lProtocol) s in
      if sint xSocket < 0 then Some (0, s)
      else do {
        (pxContext, s) \<leftarrow> sk_malloc 40 s;
        if pxContext = 0 then do { (_, s) \<leftarrow> SOCKETS_Close E xSocket s; Some (0, s) }
        else Some (pxContext, upd_ctx pxContext (\<lambda>_. zero_ctx\<lparr>ctx_xSocket := xSocket\<rparr>) s) })"

definition SOCKETS_Init :: u32 where "SOCKETS_Init = 1"

end
