(* ===== verification/SocketRuns.thy ===== *)
theory SocketRuns
  imports SecureSockets
begin

text \<open>
  The life of a socket: whatever options are set, data are moved and other clients of the heap do, closing it gives
  back each of its blocks once and nothing else.
\<close>

section \<open>The blocks of a socket\<close>

definition protocols :: "sockets \<Rightarrow> SSOCKETContext_t \<Rightarrow> addr list" where
  "protocols s c = (if ppcAlpnProtocols c = 0 then []
     else map (\<lambda>i. sk_word s (ppcAlpnProtocols c + 4 * of_nat i)) [0..<unat (ulAlpnProtocolsCount c)] @ [ppcAlpnProtocols c])"

definition owned :: "sockets \<Rightarrow> addr \<Rightarrow> addr list" where
  "owned s p = (let c = sk_ctx s p in [pcDestination c, pcServerCertificate c] @ protocols s c @ [p])"

lemma sk_free_give_back:
  "(if q \<noteq> 0 then sk_free q s else Some s) = map_option (\<lambda>h. s\<lparr>sk_heap := h\<rparr>) (give_back vPortFree [q] (sk_heap s))"
  by (simp add: sk_free_def split: option.split)

lemma free_protocols_give_back:
  "free_protocols arr i n s =
     map_option (\<lambda>h. s\<lparr>sk_heap := h\<rparr>) (give_back vPortFree (map (\<lambda>j. sk_word s (arr + 4 * of_nat j)) [i..<i + n]) (sk_heap s))"
proof (induction n arbitrary: i s)
  case (Suc n)
  have r: "[i..<i + Suc n] = i # [Suc i..<Suc i + n]" by (simp add: upt_rec)
  let ?q = "sk_word s (arr + 4 * of_nat i)"
  show ?case
  proof (cases "?q = 0")
    case True
    then show ?thesis unfolding r using Suc [of "Suc i" s] by simp
  next
    case False
    then show ?thesis unfolding r using Suc [of "Suc i"] by (cases "vPortFree ?q (sk_heap s)") (simp_all add: sk_free_def)
  qed
qed simp

lemma calls_heap: "s\<lparr>sk_calls := cs, sk_heap := h\<rparr> = s\<lparr>sk_heap := h, sk_calls := cs\<rparr>"
  by (cases s) simp

lemma close_give_back:
  assumes "p \<noteq> 0" "give_back vPortFree (owned s p) (sk_heap s) = Some h'"
  shows "SOCKETS_Close E p s = Some (0, s\<lparr>sk_heap := h', sk_calls := LwipClose (ctx_xSocket (sk_ctx s p)) #
    (if xRequireTLS (sk_ctx s p) = 1 then [TlsCleanup (pvTLSContext (sk_ctx s p))] else []) @ sk_calls s\<rparr>)"
proof -
  let ?c = "sk_ctx s p"
  obtain h1 where h1: "give_back vPortFree [pcDestination ?c] (sk_heap s) = Some h1"
      "give_back vPortFree ([pcServerCertificate ?c] @ protocols s ?c @ [p]) h1 = Some h'"
    using assms(2) by (auto simp: owned_def Let_def give_back_append split: option.splits if_splits)
  obtain h2 where h2: "give_back vPortFree [pcServerCertificate ?c] h1 = Some h2" "give_back vPortFree (protocols s ?c @ [p]) h2 = Some h'"
    using h1(2) by (auto simp: give_back_append split: option.splits if_splits)
  obtain h3 where h3: "give_back vPortFree (protocols s ?c) h2 = Some h3" "vPortFree p h3 = Some h'"
    using h2(2) assms(1) by (auto simp: give_back_append split: option.splits if_splits)
  let ?s1 = "s\<lparr>sk_heap := h1\<rparr>" and ?s2 = "s\<lparr>sk_heap := h2\<rparr>" and ?s3 = "s\<lparr>sk_heap := h3\<rparr>"
  have 1: "(if pcDestination ?c \<noteq> 0 then sk_free (pcDestination ?c) s else Some s) = Some ?s1"
    unfolding sk_free_give_back h1(1) by simp
  have 2: "(if pcServerCertificate ?c \<noteq> 0 then sk_free (pcServerCertificate ?c) ?s1 else Some ?s1) = Some ?s2"
    unfolding sk_free_give_back using h2(1) by simp
  have 3: "(if ppcAlpnProtocols ?c \<noteq> 0
        then do { s \<leftarrow> free_protocols (ppcAlpnProtocols ?c) 0 (unat (ulAlpnProtocolsCount ?c)) ?s2; sk_free (ppcAlpnProtocols ?c) s }
        else Some ?s2) = Some ?s3"
  proof (cases "ppcAlpnProtocols ?c = 0")
    case True
    then show ?thesis using h3(1) by (simp add: protocols_def)
  next
    case False
    then show ?thesis using h3(1) unfolding free_protocols_give_back
      by (auto simp: protocols_def give_back_append sk_free_def split: option.splits)
  qed
  show ?thesis using assms(1) h3(2) unfolding SOCKETS_Close_def Let_def 1 2 3
    by (simp add: call_def Let_def 3 2 1 sk_free_def calls_heap)
qed

section \<open>What the operations keep\<close>

text \<open>
  Some options keep their value in blocks of the heap. When such an option is set again the pointers to the blocks of
  the first time are overwritten: the blocks are lost. The invariant counts them beside those of the socket.
\<close>

definition overwritten :: "u32 \<Rightarrow> addr \<Rightarrow> sockets \<Rightarrow> addr list" where
  "overwritten lOptionName p s = filter (\<lambda>q. q \<noteq> 0)
     (let c = sk_ctx s p in
      if lOptionName = SOCKETS_SO_SERVER_NAME_INDICATION then [pcDestination c]
      else if lOptionName = SOCKETS_SO_TRUSTED_SERVER_CERTIFICATE then [pcServerCertificate c]
      else if lOptionName = SOCKETS_SO_ALPN_PROTOCOLS then protocols s c else [])"

definition sock_inv :: "addr \<Rightarrow> (addr \<rightharpoonup> u32) \<Rightarrow> addr list \<Rightarrow> sockets \<Rightarrow> bool" where
  "sock_inv p L Z s \<longleftrightarrow> p \<noteq> 0 \<and> 0 \<notin> set Z \<and> heap.shared (owned s p @ Z) L (sk_heap s)"

text \<open>An operation that leaves the heap and the pointers alone.\<close>

definition same_blocks :: "sockets \<Rightarrow> sockets \<Rightarrow> addr \<Rightarrow> bool" where
  "same_blocks s s' p \<longleftrightarrow> sk_heap s' = sk_heap s \<and> sk_word s' = sk_word s \<and>
     (let c = sk_ctx s p; c' = sk_ctx s' p in pcDestination c' = pcDestination c \<and> pcServerCertificate c' = pcServerCertificate c \<and>
        ppcAlpnProtocols c' = ppcAlpnProtocols c \<and> ulAlpnProtocolsCount c' = ulAlpnProtocolsCount c)"

lemma same_blocks_inv: "sock_inv p L Z s \<Longrightarrow> same_blocks s s' p \<Longrightarrow> sock_inv p L Z s'"
  by (auto simp: sock_inv_def same_blocks_def owned_def protocols_def Let_def)

lemma same_blocks_step:
  "same_blocks s (snd (call E c s)) p" "same_blocks s s p"
  "same_blocks s (upd_ctx p (\<lambda>c. c\<lparr>pvTLSContext := x\<rparr>) s) p" "same_blocks s (upd_ctx p (\<lambda>c. c\<lparr>xRecvFlags := f\<rparr>) s) p"
  "same_blocks s (upd_ctx p (\<lambda>c. c\<lparr>xSendFlags := f\<rparr>) s) p" "same_blocks s (upd_ctx p (\<lambda>c. c\<lparr>xRequireTLS := f\<rparr>) s) p"
  by (simp_all add: same_blocks_def call_def upd_ctx_def Let_def)

lemma same_blocks_trans: "same_blocks s s1 p \<Longrightarrow> same_blocks s1 s2 p \<Longrightarrow> same_blocks s s2 p"
  by (simp add: same_blocks_def Let_def)

lemma io_same_blocks:
  "SOCKETS_Connect E p a n s = Some (r, s') \<Longrightarrow> same_blocks s s' p"
  "SOCKETS_Recv E p b n f s = Some (r, d, s') \<Longrightarrow> same_blocks s s' p"
  "SOCKETS_Send E p bs f s = Some (r, s') \<Longrightarrow> same_blocks s s' p"
  "SOCKETS_Shutdown E p w s = Some (r, s') \<Longrightarrow> same_blocks s s' p"
  by (auto simp: SOCKETS_Connect_def SOCKETS_Recv_def SOCKETS_Send_def SOCKETS_Shutdown_def prvNetworkSend_def prvNetworkRecv_def
      same_blocks_def call_def upd_ctx_def Let_def split: option.splits if_splits)

lemma create_inv:
  assumes "heap_held L (sk_heap s)" "SOCKETS_Socket E d ty pr s = Some (p, s')" "p \<noteq> 0"
  shows "sock_inv p L [] s'"
proof -
  let ?s = "s\<lparr>sk_calls := LwipSocket d ty pr # sk_calls s\<rparr>"
  obtain h x where h: "pvPortMalloc 40 (sk_heap s) = Some (p, h)" "s' = upd_ctx p (\<lambda>_. zero_ctx\<lparr>ctx_xSocket := x\<rparr>) (?s\<lparr>sk_heap := h\<rparr>)"
    using assms(2,3) by (auto simp: SOCKETS_Socket_def sk_malloc_def call_def Let_def bind_eq_Some_conv split: if_splits)
  have "heap.shared [p] L h" using heap.shared_get [OF heap.shared_none [OF assms(1)] h(1)] by simp
  then have "heap.shared [0, 0, p] L h" by (rule heap.shared_mset) simp
  then show ?thesis using assms(3) by (simp add: sock_inv_def h(2) upd_ctx_def owned_def protocols_def zero_ctx_def Let_def)
qed

text \<open>
  The values the caller has to provide: as many bytes as it says, and at most one protocol, since the array of protocols
  has one byte per pointer: with a second one the code writes behind the block.
\<close>

definition option_valid :: "u32 \<Rightarrow> option_value \<Rightarrow> u32 \<Rightarrow> bool" where
  "option_valid lOptionName v n =
     (if lOptionName \<in> {SOCKETS_SO_SERVER_NAME_INDICATION, SOCKETS_SO_TRUSTED_SERVER_CERTIFICATE}
      then (case v of Bytes bs \<Rightarrow> unat n \<le> length bs | _ \<Rightarrow> False)
      else if lOptionName = SOCKETS_SO_ALPN_PROTOCOLS
      then (case v of Protocols ps \<Rightarrow> unat n \<le> 1 \<and> unat n \<le> length ps \<and> list_all (\<lambda>p. length p < 2 ^ 31) ps | _ \<Rightarrow> False)
      else lOptionName \<in> {SOCKETS_SO_RCVTIMEO, SOCKETS_SO_SNDTIMEO} \<longrightarrow> (case v of Ticks _ \<Rightarrow> True | _ \<Rightarrow> False))"

lemmas option_names = SOCKETS_SO_SERVER_NAME_INDICATION_def SOCKETS_SO_TRUSTED_SERVER_CERTIFICATE_def
  SOCKETS_SO_ALPN_PROTOCOLS_def SOCKETS_SO_REQUIRE_TLS_def SOCKETS_SO_NONBLOCK_def SOCKETS_SO_RCVTIMEO_def SOCKETS_SO_SNDTIMEO_def

lemma malloc_cases:
  assumes "heap.shared own L (sk_heap s)"
  obtains q h where "sk_malloc w s = Some (q, s\<lparr>sk_heap := h\<rparr>)" "heap.shared (q # own) L h"
    "q \<noteq> 0 \<Longrightarrow> 0 < unat w \<and> (unat w + 7) div 8 * 8 \<le> heap_room h q"
proof -
  obtain K where "heap_held K (sk_heap s)" using assms unfolding heap.shared_def by blast
  then obtain q h where "pvPortMalloc w (sk_heap s) = Some (q, h)" using heap.get by blast
  then show ?thesis using that [of q h] heap.shared_get [OF assms] by (simp add: sk_malloc_def)
qed

lemma round_up_le: "n \<le> (n + 7) div 8 * 8" for n :: nat
  by presburger

lemma unat_Suc_u32: "0 < unat (1 + n :: u32) \<Longrightarrow> unat (1 + n) = 1 + unat n"
proof -
  assume "0 < unat (1 + n :: u32)"
  then have "(1 + unat n) mod 2 ^ 32 \<noteq> 0" by (simp add: unat_word_ariths)
  then have "1 + unat n < 2 ^ 32" using unat_u32_lt [of n] by (cases "1 + unat n = 2 ^ 32") auto
  then show ?thesis by (simp add: unat_word_ariths)
qed

lemma destination_inv:
  assumes inv: "sock_inv p L Z s" and v: "v = Bytes bs" "unat n \<le> length bs"
  shows "\<exists>r s'. set_destination p v n s = Some (r, s') \<and> sock_inv p L (overwritten SOCKETS_SO_SERVER_NAME_INDICATION p s @ Z) s'"
proof -
  have i: "heap.shared (owned s p @ Z) L (sk_heap s)" "p \<noteq> 0" "0 \<notin> set Z" using inv by (simp_all add: sock_inv_def)
  obtain q h where q: "sk_malloc (1 + n) s = Some (q, s\<lparr>sk_heap := h\<rparr>)" "heap.shared (q # owned s p @ Z) L h"
      "q \<noteq> 0 \<Longrightarrow> 0 < unat (1 + n) \<and> (unat (1 + n) + 7) div 8 * 8 \<le> heap_room h q"
    using malloc_cases [OF i(1)] by blast
  let ?s = "upd_ctx p (\<lambda>c. c\<lparr>pcDestination := q\<rparr>) (s\<lparr>sk_heap := h\<rparr>)"
  have "heap.shared (owned ?s p @ overwritten SOCKETS_SO_SERVER_NAME_INDICATION p s @ Z) L h"
    by (rule heap.shared_mset [OF q(2)]) (simp add: owned_def overwritten_def option_names protocols_def upd_ctx_def Let_def)
  then have inv': "sock_inv p L (overwritten SOCKETS_SO_SERVER_NAME_INDICATION p s @ Z) ?s"
    using i(2,3) by (simp add: sock_inv_def overwritten_def upd_ctx_def)
  show ?thesis
  proof (cases "q = 0")
    case False
    then have "unat n + 1 \<le> heap_room h q" using q(3) unat_Suc_u32 [of n] round_up_le [of "unat (1 + n)"] by linarith
    then have "set_destination p v n s = Some (0, set_text q (take (unat n) bs @ [0]) ?s)"
      using False q(1) v by (simp add: set_destination_def upd_ctx_def)
    moreover have "same_blocks ?s (set_text q (take (unat n) bs @ [0]) ?s) p" by (simp add: same_blocks_def set_text_def)
    ultimately show ?thesis using same_blocks_inv [OF inv'] by blast
  qed (use q(1) inv' in \<open>auto simp: set_destination_def\<close>)
qed

lemma certificate_inv:
  assumes inv: "sock_inv p L Z s" and v: "v = Bytes bs" "unat n \<le> length bs"
  shows "\<exists>r s'. set_certificate p v n s = Some (r, s') \<and> sock_inv p L (overwritten SOCKETS_SO_TRUSTED_SERVER_CERTIFICATE p s @ Z) s'"
proof -
  have i: "heap.shared (owned s p @ Z) L (sk_heap s)" "p \<noteq> 0" "0 \<notin> set Z" using inv by (simp_all add: sock_inv_def)
  obtain q h where q: "sk_malloc n s = Some (q, s\<lparr>sk_heap := h\<rparr>)" "heap.shared (q # owned s p @ Z) L h"
      "q \<noteq> 0 \<Longrightarrow> 0 < unat n \<and> (unat n + 7) div 8 * 8 \<le> heap_room h q"
    using malloc_cases [OF i(1)] by blast
  let ?s = "upd_ctx p (\<lambda>c. c\<lparr>pcServerCertificate := q\<rparr>) (s\<lparr>sk_heap := h\<rparr>)"
  have "heap.shared (owned ?s p @ overwritten SOCKETS_SO_TRUSTED_SERVER_CERTIFICATE p s @ Z) L h"
    by (rule heap.shared_mset [OF q(2)]) (simp add: owned_def overwritten_def option_names protocols_def upd_ctx_def Let_def)
  then have inv': "sock_inv p L (overwritten SOCKETS_SO_TRUSTED_SERVER_CERTIFICATE p s @ Z) ?s"
    using i(2,3) by (simp add: sock_inv_def overwritten_def upd_ctx_def)
  show ?thesis
  proof (cases "q = 0")
    case False
    let ?t = "upd_ctx p (\<lambda>c. c\<lparr>ulServerCertificateLength := n\<rparr>) (set_text q (take (unat n) bs) ?s)"
    have "unat n \<le> heap_room h q" using q(3) False round_up_le [of "unat n"] by linarith
    then have "set_certificate p v n s = Some (0, ?t)"
      using False q(1) v by (simp add: set_certificate_def upd_ctx_def)
    moreover have "same_blocks ?s ?t p" by (simp add: same_blocks_def set_text_def upd_ctx_def)
    ultimately show ?thesis using same_blocks_inv [OF inv'] by blast
  qed (use q(1) inv' in \<open>auto simp: set_certificate_def\<close>)
qed

lemma copy_one:
  assumes sh: "heap.shared own L (sk_heap s)" and arr: "arr \<in> set own" "arr \<noteq> 0" and len: "length str < 2 ^ 31"
  shows "\<exists>r q h s'. copy_protocols arr 0 [str] s = Some (r, s') \<and> heap.shared (q # own) L h \<and>
    same_blocks (set_word arr q (s\<lparr>sk_heap := h\<rparr>)) s' p"
proof -
  obtain q h where q: "sk_malloc (1 + of_nat (length str)) s = Some (q, s\<lparr>sk_heap := h\<rparr>)" "heap.shared (q # own) L h"
      "q \<noteq> 0 \<Longrightarrow> 0 < unat (1 + of_nat (length str) :: u32) \<and> (unat (1 + of_nat (length str) :: u32) + 7) div 8 * 8 \<le> heap_room h q"
    using malloc_cases [OF sh] by blast
  have "8 \<le> heap_room h arr" using heap.shared_room [OF q(2)] arr by simp
  then have st: "store_pointer arr 0 q (s\<lparr>sk_heap := h\<rparr>) = Some (set_word arr q (s\<lparr>sk_heap := h\<rparr>))"
    by (simp add: store_pointer_def)
  have w: "unat (1 + of_nat (length str) :: u32) = 1 + length str" using unat_of_nat_u32 [of "1 + length str"] len by simp
  show ?thesis
  proof (cases "q = 0")
    case True
    then have "copy_protocols arr 0 [str] s = Some (pdFREERTOS_ERRNO_ENOMEM, set_word arr q (s\<lparr>sk_heap := h\<rparr>))"
      using q(1) st by simp
    then show ?thesis using q(2) same_blocks_step(2) by blast
  next
    case False
    then have "length str + 1 \<le> heap_room h q" using q(3) w round_up_le [of "1 + length str"] by simp
    then have "copy_protocols arr 0 [str] s = Some (0, set_text q (str @ [0]) (set_word arr q (s\<lparr>sk_heap := h\<rparr>)))"
      using q(1) st False by (simp add: set_word_def)
    moreover have "same_blocks t (set_text q bs t) p" for t bs by (simp add: same_blocks_def set_text_def)
    ultimately show ?thesis using q(2) by blast
  qed
qed

lemma protocols_inv:
  assumes inv: "sock_inv p L Z s" and v: "v = Protocols ps" "unat n \<le> 1" "unat n \<le> length ps" "list_all (\<lambda>p. length p < 2 ^ 31) ps"
  shows "\<exists>r s'. set_protocols p v n s = Some (r, s') \<and> sock_inv p L (overwritten SOCKETS_SO_ALPN_PROTOCOLS p s @ Z) s'"
proof -
  let ?Z = "overwritten SOCKETS_SO_ALPN_PROTOCOLS p s @ Z"
  have over: "filter (\<lambda>q. q \<noteq> 0) (protocols s (sk_ctx s p)) = overwritten SOCKETS_SO_ALPN_PROTOCOLS p s"
    by (simp add: overwritten_def option_names)
  have i: "heap.shared (owned s p @ Z) L (sk_heap s)" "p \<noteq> 0" "0 \<notin> set Z" using inv by (simp_all add: sock_inv_def)
  let ?s0 = "upd_ctx p (\<lambda>c. c\<lparr>ulAlpnProtocolsCount := 1 + n\<rparr>) s"
  have s0: "heap.shared (owned s p @ Z) L (sk_heap ?s0)" using i(1) by (simp add: upd_ctx_def)
  obtain q h where q: "sk_malloc (1 + n) ?s0 = Some (q, ?s0\<lparr>sk_heap := h\<rparr>)" "heap.shared (q # owned s p @ Z) L h"
    using malloc_cases [OF s0] by blast
  let ?s1 = "upd_ctx p (\<lambda>c. c\<lparr>ppcAlpnProtocols := q\<rparr>) (?s0\<lparr>sk_heap := h\<rparr>)"
  have keep: "sock_inv p L ?Z t" if "heap.shared (owned t p @ ?Z) L (sk_heap t)" for t
    using that i(2,3) by (simp add: sock_inv_def overwritten_def)
  have moved: "heap.shared (owned t p @ ?Z) L h'" if "heap.shared (new @ owned s p @ Z) L h'"
      "filter (\<lambda>q. q \<noteq> 0) ps = filter (\<lambda>q. q \<noteq> 0) new"
      "owned t p = [pcDestination (sk_ctx s p), pcServerCertificate (sk_ctx s p)] @ ps @ [p]" for t new ps h'
  proof (rule heap.shared_mset [OF that(1)])
    have own: "owned s p = [pcDestination (sk_ctx s p), pcServerCertificate (sk_ctx s p)] @ protocols s (sk_ctx s p) @ [p]"
      by (simp add: owned_def Let_def)
    show "mset (filter (\<lambda>q. q \<noteq> 0) (new @ owned s p @ Z)) = mset (filter (\<lambda>q. q \<noteq> 0) (owned t p @ ?Z))"
      unfolding that(3) own filter_append that(2) over [symmetric] mset_append filter_filter by (simp add: ac_simps)
  qed
  have n: "n = 0 \<or> n = 1" using v(2) by (cases "unat n = 0") (auto simp: word_unat_eq_iff)
  show ?thesis
  proof (cases "q = 0")
    case True
    have "heap.shared (owned ?s1 p @ ?Z) L h"
      using q(2) True by (intro moved [of "[q]" _ "[]"]) (simp_all add: owned_def protocols_def upd_ctx_def Let_def)
    then have "sock_inv p L ?Z ?s1" by (intro keep) (simp_all add: upd_ctx_def)
    moreover have "set_protocols p v n s = Some (pdFREERTOS_ERRNO_ENOMEM, ?s1)" using q(1) True by (simp add: set_protocols_def)
    ultimately show ?thesis by blast
  next
    case False
    let ?s2 = "set_word (q + 4 * n) 0 ?s1"
    have "8 \<le> heap_room h q" using heap.shared_room [OF q(2)] False by simp
    then have "store_pointer q (unat n) 0 ?s1 = Some ?s2" using v(2) by (simp add: store_pointer_def upd_ctx_def)
    then have set: "set_protocols p v n s = copy_protocols q 0 (take (unat n) ps) ?s2"
      using q(1) False v(1,3) by (simp add: set_protocols_def)
    show ?thesis using n
    proof
      assume n: "n = 0"
      have "heap.shared (owned ?s2 p @ ?Z) L h"
        using q(2) False n by (intro moved [of "[q]" _ "[0, q]"]) (simp_all add: owned_def protocols_def upd_ctx_def set_word_def Let_def)
      then have "sock_inv p L ?Z ?s2" by (intro keep) (simp_all add: upd_ctx_def set_word_def)
      then show ?thesis using set n by simp
    next
      assume n: "n = 1"
      then obtain str ps' where ps: "ps = str # ps'" using v(3) by (cases ps) auto
      have sh: "heap.shared (q # owned s p @ Z) L (sk_heap ?s2)" using q(2) by (simp add: upd_ctx_def set_word_def)
      obtain r q2 h2 s' where c: "copy_protocols q 0 [str] ?s2 = Some (r, s')" "heap.shared (q2 # q # owned s p @ Z) L h2"
          "same_blocks (set_word q q2 (?s2\<lparr>sk_heap := h2\<rparr>)) s' p"
        using copy_one [OF sh _ False, of str p] v(4) ps by auto
      let ?s3 = "set_word q q2 (?s2\<lparr>sk_heap := h2\<rparr>)"
      have two: "[0..<2] = [0, 1 :: nat]" by (simp add: upt_rec)
      have "protocols ?s3 (sk_ctx ?s3 p) = [q2, 0, q]"
        by (simp add: protocols_def upd_ctx_def set_word_def False n two)
      then have "owned ?s3 p = [pcDestination (sk_ctx s p), pcServerCertificate (sk_ctx s p), q2, 0, q, p]"
        by (simp add: owned_def Let_def) (simp add: upd_ctx_def set_word_def)
      then have "heap.shared (owned ?s3 p @ ?Z) L h2" using c(2) by (intro moved [of "[q2, q]" _ "[q2, 0, q]"]) simp_all
      then have "sock_inv p L ?Z ?s3" by (intro keep) (simp_all add: upd_ctx_def set_word_def)
      then show ?thesis using set n ps c(1) same_blocks_inv [OF _ c(3)] by auto
    qed
  qed
qed

lemma option_inv:
  assumes inv: "sock_inv p L Z s" and valid: "option_valid opt v n"
  shows "\<exists>r s'. SOCKETS_SetSockOpt E p lev opt v n s = Some (r, s') \<and> sock_inv p L (overwritten opt p s @ Z) s'"
proof -
  have p: "p \<noteq> 0" using inv by (simp add: sock_inv_def)
  consider "opt = SOCKETS_SO_SERVER_NAME_INDICATION" | "opt = SOCKETS_SO_TRUSTED_SERVER_CERTIFICATE" | "opt = SOCKETS_SO_ALPN_PROTOCOLS"
    | "opt \<notin> {SOCKETS_SO_SERVER_NAME_INDICATION, SOCKETS_SO_TRUSTED_SERVER_CERTIFICATE, SOCKETS_SO_ALPN_PROTOCOLS}" by blast
  then show ?thesis
  proof cases
    case 1
    then obtain bs where "v = Bytes bs" "unat n \<le> length bs" using valid by (auto simp: option_valid_def split: option_value.splits)
    then show ?thesis using destination_inv [OF inv] 1 p by (simp add: SOCKETS_SetSockOpt_def)
  next
    case 2
    then obtain bs where "v = Bytes bs" "unat n \<le> length bs" using valid by (auto simp: option_valid_def split: option_value.splits)
    then show ?thesis using certificate_inv [OF inv] 2 p by (simp add: SOCKETS_SetSockOpt_def option_names)
  next
    case 3
    then obtain ps where "v = Protocols ps" "unat n \<le> 1" "unat n \<le> length ps" "list_all (\<lambda>p. length p < 2 ^ 31) ps"
      using valid by (auto simp: option_valid_def option_names split: option_value.splits)
    then show ?thesis using protocols_inv [OF inv] 3 p by (simp add: SOCKETS_SetSockOpt_def option_names)
  next
    case 4
    have "\<exists>r s'. SOCKETS_SetSockOpt E p lev opt v n s = Some (r, s') \<and> same_blocks s s' p"
      using 4 p valid same_blocks_step(2) [of s p] unfolding SOCKETS_SetSockOpt_def option_valid_def
      by (cases v) (auto simp: set_timeout_def same_blocks_def call_def upd_ctx_def Let_def)
    moreover have "overwritten opt p s = []" using 4 by (simp add: overwritten_def)
    ultimately show ?thesis using same_blocks_inv [OF inv] by auto
  qed
qed

text \<open>
  The states of a socket, with the blocks that the other clients of the heap hold and the blocks that were lost
  because an option was set again. Options are set with valid values, as often and in whatever order the caller likes.
  The TLS layer is one of the other clients.
\<close>

inductive socket_run :: "net_env \<Rightarrow> addr \<Rightarrow> (addr \<rightharpoonup> u32) \<Rightarrow> addr list \<Rightarrow> sockets \<Rightarrow> bool" for E p where
  created: "heap_held L (sk_heap s) \<Longrightarrow> SOCKETS_Socket E d ty pr s = Some (p, s') \<Longrightarrow> p \<noteq> 0 \<Longrightarrow> socket_run E p L [] s'"
| option: "socket_run E p L Z s \<Longrightarrow> option_valid opt v n \<Longrightarrow> SOCKETS_SetSockOpt E p lev opt v n s = Some (r, s') \<Longrightarrow>
    socket_run E p L (overwritten opt p s @ Z) s'"
| connected: "socket_run E p L Z s \<Longrightarrow> SOCKETS_Connect E p a n s = Some (r, s') \<Longrightarrow> socket_run E p L Z s'"
| received: "socket_run E p L Z s \<Longrightarrow> SOCKETS_Recv E p b n f s = Some (r, d, s') \<Longrightarrow> socket_run E p L Z s'"
| sent: "socket_run E p L Z s \<Longrightarrow> SOCKETS_Send E p bs f s = Some (r, s') \<Longrightarrow> socket_run E p L Z s'"
| shut: "socket_run E p L Z s \<Longrightarrow> SOCKETS_Shutdown E p w s = Some (r, s') \<Longrightarrow> socket_run E p L Z s'"
| other_malloc: "socket_run E p L Z s \<Longrightarrow> pvPortMalloc w (sk_heap s) = Some (q, h) \<Longrightarrow>
    socket_run E p (if q = 0 then L else L(q \<mapsto> w)) Z (s\<lparr>sk_heap := h\<rparr>)"
| other_free: "socket_run E p L Z s \<Longrightarrow> q \<in> dom L \<Longrightarrow> vPortFree q (sk_heap s) = Some h \<Longrightarrow>
    socket_run E p (L(q := None)) Z (s\<lparr>sk_heap := h\<rparr>)"

lemma heap_inv:
  "sock_inv p L Z s \<Longrightarrow> heap.shared (owned s p @ Z) L' h \<Longrightarrow> sock_inv p L' Z (s\<lparr>sk_heap := h\<rparr>)"
proof -
  assume i: "sock_inv p L Z s" and h: "heap.shared (owned s p @ Z) L' h"
  have "owned (s\<lparr>sk_heap := h\<rparr>) p = owned s p" by (simp add: owned_def protocols_def Let_def)
  then show ?thesis using i h by (simp add: sock_inv_def)
qed

lemma socket_run_inv: "socket_run E p L Z s \<Longrightarrow> sock_inv p L Z s"
proof (induction rule: socket_run.induct)
  case (created L s d ty pr s')
  then show ?case using create_inv by blast
next
  case (option L Z s opt v n lev r s')
  then show ?case using option_inv [OF option.IH option.hyps(2), of E lev] by auto
next
  case (other_malloc L Z s w q h)
  then have "heap.shared (owned s p @ Z) L (sk_heap s)" by (simp add: sock_inv_def)
  then show ?case using heap_inv [OF other_malloc.IH] heap.shared_other_get other_malloc.hyps(2) by blast
next
  case (other_free L Z s q h)
  then have "heap.shared (owned s p @ Z) L (sk_heap s)" by (simp add: sock_inv_def)
  then show ?case using heap_inv [OF other_free.IH] heap.shared_other_ret other_free.hyps(2,3) by blast
qed (meson io_same_blocks same_blocks_inv)+

text \<open>
  C19. A socket can be closed in every state, and its options can be set to valid values (as many bytes as the
  caller says, at most one protocol) in every state, without a failed assertion of the heap. Closing it gives back
  each of its blocks exactly once: what the heap holds afterwards (\<open>K\<close>) is what the other clients hold and the
  blocks that were lost when the server name, the certificate or the protocols were set a second time, and nothing else.
  If each of them was set at most once, no block is left. The descriptor of lwIP is closed.
\<close>

theorem socket_close_clean:
  assumes "socket_run E p L Z s"
  shows "(\<exists>s' K. SOCKETS_Close E p s = Some (0, s') \<and> LwipClose (ctx_xSocket (sk_ctx s p)) \<in> set (sk_calls s') \<and>
      heap_held K (sk_heap s') \<and> dom K = dom L \<union> set Z \<and> L = K |` (- set Z) \<and> (Z = [] \<longrightarrow> heap_held L (sk_heap s'))) \<and>
    (\<forall>lev opt v n. option_valid opt v n \<longrightarrow> SOCKETS_SetSockOpt E p lev opt v n s \<noteq> None)"
proof -
  note inv = socket_run_inv [OF assms]
  then have i: "p \<noteq> 0" "heap.shared (owned s p @ Z) L (sk_heap s)" "filter (\<lambda>q. q \<noteq> 0) Z = Z"
    by (auto simp: sock_inv_def filter_id_conv)
  obtain h where h: "give_back vPortFree (owned s p) (sk_heap s) = Some h" "heap.shared Z L h"
    using heap.shared_give_back [OF i(2)] by blast
  then obtain K where K: "heap_held K h" "set Z \<subseteq> dom K" "L = K |` (- set Z)" unfolding heap.shared_def i(3) by blast
  then have "dom K = dom L \<union> set Z" "Z = [] \<longrightarrow> heap_held L h" by (auto simp: restrict_map_def split: if_splits)
  then have "\<exists>s' K. SOCKETS_Close E p s = Some (0, s') \<and> LwipClose (ctx_xSocket (sk_ctx s p)) \<in> set (sk_calls s') \<and>
      heap_held K (sk_heap s') \<and> dom K = dom L \<union> set Z \<and> L = K |` (- set Z) \<and> (Z = [] \<longrightarrow> heap_held L (sk_heap s'))"
    using close_give_back [OF i(1) h(1), of E] K(1,3) by (intro exI conjI) auto
  moreover have "SOCKETS_SetSockOpt E p lev opt v n s \<noteq> None" if "option_valid opt v n" for lev opt v n
    using option_inv [OF inv that, of E lev] by auto
  ultimately show ?thesis by blast
qed

text \<open>
  A connection that requires TLS is negotiated with the options that were set, after lwIP has connected, and its
  result is that of the first step that failed; without TLS it is that of lwIP.
\<close>

theorem connect_negotiates:
  assumes "SOCKETS_Connect E p (Some (d, port, ip)) n s = Some (r, s')" "p \<noteq> SOCKETS_INVALID_SOCKET"
  defines "c \<equiv> sk_ctx s p"
  defines "t1 \<equiv> LwipConnect (ctx_xSocket c) d port ip (n + 8) # sk_calls s"
  defines "t2 \<equiv> TlsInit (tls_params p c) # t1"
  defines "t3 \<equiv> TlsConnect (ne_pointer E t2) # t2"
  shows "if ne_result E t1 \<noteq> 0 \<or> xRequireTLS c \<noteq> 1 then r = ne_result E t1 \<and> sk_calls s' = t1
    else if ne_result E t2 \<noteq> 0 then r = ne_result E t2 \<and> sk_calls s' = t2
    else r = ne_result E t3 \<and> sk_calls s' = t3 \<and> pvTLSContext (sk_ctx s' p) = ne_pointer E t2"
  using assms(1,2)
  by (auto simp: SOCKETS_Connect_def SOCKETS_ERROR_NONE_def call_def upd_ctx_def Let_def c_def t1_def t2_def t3_def split: if_splits)

section \<open>Witnesses\<close>

definition sample_env :: net_env where
  "sample_env = \<lparr>ne_result = (\<lambda>_. 0), ne_pointer = (\<lambda>_. 0x20002000), ne_data = (\<lambda>_. [])\<rparr>"

definition sample_sockets :: sockets where
  "sample_sockets = \<lparr>sk_heap = sample_heap, sk_ctx = (\<lambda>_. zero_ctx), sk_word = (\<lambda>_. 1), sk_text = (\<lambda>_. []), sk_calls = []\<rparr>"

lemma sample_socket:
  "\<exists>s h. SOCKETS_Socket sample_env 2 1 6 sample_sockets = Some (0x20000110, s) \<and> pvPortMalloc 4 (sk_heap s) = Some (0x20000140, h)"
proof -
  have "exec row_step [Malloc 40, Malloc 4] (first_row sample_heap) = Some ([0x20000110, 0x20000140],
      [(0x20000108, 48, True), (0x20000138, 16, True), (0x20000148, 155568, False)])"
    by (simp add: sample_row tile_malloc_def units_def)
  then obtain h where "exec heap_step [Malloc 40, Malloc 4] sample_heap = Some ([0x20000110, 0x20000140], h)"
    using exec_refines [OF first_state [OF sample_linked]] by blast
  then obtain h1 where "pvPortMalloc 40 sample_heap = Some (0x20000110, h1)" "pvPortMalloc 4 h1 = Some (0x20000140, h)"
    by (auto split: option.splits)
  then show ?thesis by (simp add: SOCKETS_Socket_def call_def sample_env_def sample_sockets_def sk_malloc_def upd_ctx_def Let_def)
qed

lemma created_blank: "SOCKETS_Socket E d ty pr s = Some (p, s') \<Longrightarrow> p \<noteq> 0 \<Longrightarrow> overwritten opt p s' = []"
  by (auto simp: SOCKETS_Socket_def call_def upd_ctx_def overwritten_def zero_ctx_def protocols_def Let_def bind_eq_Some_conv split: if_splits)

lemma named: "SOCKETS_SetSockOpt E p lev SOCKETS_SO_SERVER_NAME_INDICATION v n s = Some (r, s') \<Longrightarrow>
    pvPortMalloc (1 + n) (sk_heap s) = Some (q, h) \<Longrightarrow> q \<noteq> 0 \<Longrightarrow> overwritten SOCKETS_SO_SERVER_NAME_INDICATION p s' = [q]"
  by (auto simp: SOCKETS_SetSockOpt_def set_destination_def sk_malloc_def overwritten_def upd_ctx_def set_text_def Let_def
      split: if_splits option_value.splits)

text \<open>A server name that is set once leaves nothing behind; one that is set twice leaves the block of the first time.\<close>

theorem socket_close_clean_witness:
  "(\<exists>s s'. socket_run sample_env 0x20000110 Map.empty [] s \<and> pcDestination (sk_ctx s 0x20000110) = 0x20000140 \<and>
      SOCKETS_Close sample_env 0x20000110 s = Some (0, s') \<and> heap_held Map.empty (sk_heap s')) \<and>
    (\<exists>s s' K. socket_run sample_env 0x20000110 Map.empty [0x20000140] s \<and>
      SOCKETS_Close sample_env 0x20000110 s = Some (0, s') \<and> heap_held K (sk_heap s') \<and> dom K = {0x20000140})"
proof -
  let ?set = "SOCKETS_SetSockOpt sample_env 0x20000110 0 SOCKETS_SO_SERVER_NAME_INDICATION (Bytes [0x61, 0x62, 0x63]) 3"
  obtain s h where s: "SOCKETS_Socket sample_env 2 1 6 sample_sockets = Some (0x20000110, s)" "pvPortMalloc 4 (sk_heap s) = Some (0x20000140, h)"
    using sample_socket by blast
  have "heap_held Map.empty (sk_heap sample_sockets)"
    unfolding heap_held_def using sample_linked heap_run.start by (force simp: sample_sockets_def)
  then have run: "socket_run sample_env 0x20000110 Map.empty [] s" using socket_run.created s(1) by simp
  have valid: "option_valid SOCKETS_SO_SERVER_NAME_INDICATION (Bytes [0x61, 0x62, 0x63]) 3" by (simp add: option_valid_def)
  obtain r s1 where s1: "?set s = Some (r, s1)" using conjunct2 [OF socket_close_clean [OF run]] valid by fastforce
  have "overwritten SOCKETS_SO_SERVER_NAME_INDICATION 0x20000110 s = []" using created_blank [OF s(1)] by simp
  then have run1: "socket_run sample_env 0x20000110 Map.empty [] s1" using socket_run.option [OF run valid s1] by simp
  have first: "overwritten SOCKETS_SO_SERVER_NAME_INDICATION 0x20000110 s1 = [0x20000140]" using named [OF s1] s(2) by simp
  then have name: "pcDestination (sk_ctx s1 0x20000110) = 0x20000140" by (simp add: overwritten_def Let_def split: if_splits)
  obtain r' s2 where s2: "?set s1 = Some (r', s2)" using conjunct2 [OF socket_close_clean [OF run1]] valid by fastforce
  have run2: "socket_run sample_env 0x20000110 Map.empty [0x20000140] s2" using socket_run.option [OF run1 valid s2] first by simp
  have "\<exists>s'. SOCKETS_Close sample_env 0x20000110 s1 = Some (0, s') \<and> heap_held Map.empty (sk_heap s')"
    using conjunct1 [OF socket_close_clean [OF run1]] by auto
  moreover have "\<exists>s' K. SOCKETS_Close sample_env 0x20000110 s2 = Some (0, s') \<and> heap_held K (sk_heap s') \<and> dom K = {0x20000140}"
    using conjunct1 [OF socket_close_clean [OF run2]] by auto
  ultimately show ?thesis using run1 name run2 by blast
qed

theorem connect_negotiates_witness:
  "\<exists>r s'. SOCKETS_Connect sample_env 0x20000110 (Some (2, 0xB322, 0x0A000001)) 8
     (upd_ctx 0x20000110 (\<lambda>c. c\<lparr>xRequireTLS := 1\<rparr>) sample_sockets) = Some (r, s') \<and> r = 0 \<and> length (sk_calls s') = 3"
proof -
  let ?s = "upd_ctx 0x20000110 (\<lambda>c. c\<lparr>xRequireTLS := 1\<rparr>) sample_sockets"
  obtain r s' where c: "SOCKETS_Connect sample_env 0x20000110 (Some (2, 0xB322, 0x0A000001)) 8 ?s = Some (r, s')"
    by (auto simp: SOCKETS_Connect_def SOCKETS_INVALID_SOCKET_def SOCKETS_ERROR_NONE_def call_def Let_def sample_env_def
        sample_sockets_def upd_ctx_def zero_ctx_def)
  have "(0x20000110 :: addr) \<noteq> SOCKETS_INVALID_SOCKET" by (simp add: SOCKETS_INVALID_SOCKET_def)
  from connect_negotiates [OF c this] show ?thesis using c by (simp add: sample_env_def sample_sockets_def upd_ctx_def)
qed

end
