(* ===== verification/Spec2Isabelle.thy ===== *)
theory Spec2Isabelle
  imports MqttDelivery Sntp ShadowRuns MqttAgentRuns SocketRuns
begin

text \<open>
  A verification development for the firmware of a connected TM4C1294 board, which talks
  to AWS IoT over MQTT and TLS. File names below are relative to \<open>src/\<close>.

  The program. Application tasks use the shadow of their thing through \<open>AWS/shadow/aws_shadow.c\<close>, which
  reads and compares JSON documents (\<open>AWS/shadow/aws_shadow_json.c\<close> on the tokeniser
  \<open>AWS/lib/third_party/jsmn/jsmn.c\<close>) and sends its requests to the MQTT agent
  (\<open>AWS/mqtt/aws_mqtt_agent.c\<close>). The agent is a task of its own: it takes commands from a queue, owns
  the sockets (\<open>AWS/secure_sockets/portable/Tiva/aws_secure_sockets.c\<close>, with blocks of the heap
  \<open>FreeRTOS/portable/MemMang/heap_4.c\<close>), calls the MQTT library (\<open>AWS/mqtt/aws_mqtt_lib.c\<close>) and notifies the callers. The library keeps
  its packets in the buffers of a static pool
  (\<open>AWS/bufferpool/aws_bufferpool_static_thread_safe.c\<close>). The clock and calendar (\<open>OSTime.c\<close>, driven by
  the task \<open>System_Time\<close> of \<open>tarefas.c\<close>) are set by the SNTP client (\<open>sntp_client/sntp.c\<close>), which runs on the
  timers of the TCP/IP stack (\<open>LwIP/src/core/timeouts.c\<close>).

  Conventions. Definitions have the names of the code; an \<open>_t\<close> record has the fields of the struct, with a short
  prefix where two structs share a name. Integers that can wrap around are words of their width (\<open>u8\<close>,
  \<open>u16\<close>, \<open>u32\<close>, \<open>u64\<close> of \<open>Prelude\<close>). An array that is read or written by index has a check of each access: in the MQTT
  library a violation is recorded in a flag (\<open>w_fault\<close>), in the tokeniser and the shadow client an
  access outside of the document or of the array of tokens has the result None, as has a loop that does not end or an assertion
  that fails. The theorems include that neither happens under the stated
  conditions, or say when it does. What the code calls but does not contain (the network, the clock, the user's callbacks, the
  other tasks) is an environment: functions that may depend on everything observed so far. A theorem for every
  environment holds for every behaviour of these parts. All loops are total functions with a proof of
  termination, except where a loop may really not end, which is a result of its own; there is no
  fuel, but some loops that wait for the outside run over a list the environment gives, at whose end the time is over.

  The theories, from the bottom up:
  \<^item> \<open>Prelude\<close>: integer types, checked byte arrays, generic lemmas.
  \<^item> \<open>BufferPool\<close>: the pool array as memory, the layout macros, get and return, all their interleavings; the
    interface \<open>buffer_pool\<close> that the MQTT library relies on, interpreted on the pool.
  \<^item> \<open>MqttCodec\<close>, \<open>MqttTopic\<close>, \<open>MqttSub\<close>: the Remaining Length codec and string writer, topic filters against the rules of
    the protocol, and the subscription manager as a bounded map.
  \<^item> \<open>MqttContext\<close>, \<open>MqttSend\<close>, \<open>MqttRecv\<close>, \<open>MqttPeriodic\<close>: the state of the library (\<open>w_ctx\<close> is \<open>MQTTContext_t\<close>; \<open>w_bufs\<close> the
    contents of the buffers; \<open>w_trace\<close> what was observed) and all of its operations.
  \<^item> \<open>MqttInv\<close>, \<open>MqttSafety\<close>: ownership of the buffers, as an invariant of each operation and then of all states that can be reached
    with other clients of the pool running in between. \<open>MqttConn\<close>, \<open>MqttTable\<close>: the connection state, the waiting
    packets and the subscription table agree. \<open>MqttStream\<close>: the receiver's invariant, and independence of the
    fragmentation of the stream. \<open>MqttPackets\<close>: the packets as lists of bytes; those of \<open>MQTT_Connect\<close>,
    \<open>MQTT_Subscribe\<close> (in \<open>MqttTable\<close>) and \<open>MQTT_Publish\<close> (in \<open>MqttBroker\<close>) are shown to be sent byte by byte. \<open>MqttReceive\<close>, \<open>MqttBroker\<close>, \<open>MqttDelivery\<close>: the effects
    of whole packets, from the bytes that are sent to the calls of the callbacks.
  \<^item> \<open>FreeRTOSTask\<close>: timeouts and notifications of the kernel (\<open>FreeRTOS/tasks.c\<close>), as far as the agent uses them.
  \<^item> \<open>AgentTypes\<close>, \<open>MqttAgent\<close>, \<open>MqttAgentTask\<close>, \<open>MqttAgentLoop\<close>: the interface of the agent; its state with the steps of the functions that other tasks
    call, and the notifications; its callbacks and its calls of the library; its requests, its loop, and the states that can be reached.
    \<open>MqttAgentInv\<close>, \<open>MqttAgentSafety\<close>, \<open>MqttAgentRuns\<close>: every waiting caller has exactly one
    entry in the queue or the tables or has its answer; a success that is reported was confirmed; an example.
  \<^item> \<open>Jsmn\<close>, \<open>ShadowJson\<close>: the tokeniser and the functions on documents. \<open>ShadowTopic\<close>, \<open>ShadowClient\<close>, \<open>ShadowMessages\<close>, \<open>ShadowOperation\<close>,
    \<open>ShadowCallbacks\<close>, \<open>ShadowRuns\<close>: the topics, the client with its operations and its callback, which runs in the agent's task
    between the statements of an operation; what messages do to an operation, the results of the operations, the
    callbacks of the user, and examples.
  \<^item> \<open>Heap4\<close>, \<open>HeapBlocks\<close>, \<open>HeapRuns\<close>: the heap as headers in memory (\<open>heap4\<close>) with the insertion into the list of free
    blocks; the row of blocks it stands for, and that requests and returns do to the headers what they do to the row; all
    sequences of calls, and what the clients hold. \<open>Allocator\<close> is the interface \<open>allocator\<close>, interpreted on the heap;
    \<open>SecureSockets\<close> the operations of the sockets, and \<open>SocketRuns\<close> the life of a socket between other clients of the
    heap, with the blocks that are lost when an option is set again. The loops of the heap are partial functions: that they end, since the list of free blocks is finite,
    is part of the theorems.
  \<^item> \<open>Calendar\<close>, \<open>LwipTimers\<close>, \<open>Sntp\<close>: the clock, whose calendar two tasks write: \<open>System_Time\<close> and, through \<open>SetCalendar\<close>,
    that of the SNTP client; the timers as a list of time differences against a list of deadlines, with handlers that may cancel timers
    (in \<open>Sntp\<close>, where handlers start new ones, the expiry of a timer is a step of its own); and the client.

  Concurrency. The critical sections of the pool are atomic steps of several tasks. In the agent, the agent's task and the
  tasks that call it interleave where they share memory: at the queue, at notifications, and before
  calls of the library. A call of the library is atomic; the events it reports are handled afterwards in their order,
  which gives the same state since the event callback does not touch the context. In the shadow client the callback of the agent's
  task is a step that can come before every statement of the operation that uses the client.

  Not modelled. The network itself, TLS, and the PKCS 11 port: their code passes data
  between vendored libraries, and their results are parameters where they are used; the agent takes the results of the sockets as
  parameters, too. The vendored libraries (FreeRTOS, lwIP,
  mbedTLS, the driver library, FATfs) except for the heap, the timers of lwIP and the kernel services named above.
  What the clients write into their blocks is modelled only where the code here does it: nobody writes outside of the blocks he
  holds, and the sockets check that they do not. In lwIP's timers the
  cyclic timers of the protocols; in jsmn the modes that the firmware does not compile. The demos, the
  hardware set-up, and output on the LCD and the serial line. Contents of log messages. The callback of the sockets that wakes the agent
  up is taken as one step, although the test and the post of the event are two.
\<close>

end
